(* ===== verification/Prelude.thy ===== *)
theory Prelude
  imports Main "HOL-Library.Sublist"
begin

text \<open>
  Shared automation of the development: the collections the component proofs draw on and the
  generic facts on lists, options and sums that more than one component uses.  Nothing here
  models a part of the program.
\<close>

section \<open>Collections of facts\<close>

named_theorems go_defs \<open>definitions of small helpers that proofs unfold freely\<close>
named_theorems run_simps \<open>equations that evaluate a step of a component's operation\<close>

section \<open>Lists\<close>

lemma dropWhile_hd:
  "dropWhile P xs \<noteq> [] \<Longrightarrow> \<not> P (hd (dropWhile P xs))"
  by (rule hd_dropWhile)

lemma last_rev_dropWhile:
  "rev (dropWhile P (rev xs)) \<noteq> [] \<Longrightarrow> \<not> P (last (rev (dropWhile P (rev xs))))"
  by (simp add: last_rev hd_dropWhile)

lemma hd_rev_dropWhile_rev:
  "rev (dropWhile P (rev xs)) \<noteq> [] \<Longrightarrow> hd (rev (dropWhile P (rev xs))) = hd xs"
proof (induction xs)
  case Nil
  then show ?case by simp
next
  case (Cons x xs)
  show ?case
  proof (cases "dropWhile P (rev xs) = []")
    case True
    then show ?thesis using Cons.prems
      by (auto simp: dropWhile_append split: if_splits)
  next
    case False
    then show ?thesis by (auto simp: dropWhile_append)
  qed
qed

lemma set_dropWhile_subset: "set (dropWhile P xs) \<subseteq> set xs"
  by (auto dest: set_dropWhileD)

lemma last_drop_same: "n < length xs \<Longrightarrow> last (drop n xs) = last xs"
  by (rule last_drop)

lemma filter_conv_foldr:
  "filter P xs = foldr (\<lambda>x acc. if P x then x # acc else acc) xs []"
  by (induction xs) auto

lemma distinct_map_filter_fst:
  "distinct (map f xs) \<Longrightarrow> distinct (map f (filter P xs))"
  by (induction xs) auto

lemma concat_map_singleton: "concat (map (\<lambda>x. [f x]) xs) = map f xs"
  by (induction xs) auto

lemma list_all_concat_iff: "list_all P (concat xss) = list_all (list_all P) xss"
  by (induction xss) auto

lemma takeWhile_marker: "x \<notin> set ys \<Longrightarrow> takeWhile (\<lambda>y. y \<noteq> x) (ys @ x # zs) = ys"
  by (induction ys) auto

lemma dropWhile_marker: "x \<notin> set ys \<Longrightarrow> dropWhile (\<lambda>y. y \<noteq> x) (ys @ x # zs) = x # zs"
  by (induction ys) auto

section \<open>Sums as results\<close>

definition is_err :: "'e + 'a \<Rightarrow> bool" where
  [go_defs]: "is_err r = (case r of Inl _ \<Rightarrow> True | Inr _ \<Rightarrow> False)"

lemma is_err_simps [simp]: "is_err (Inl e)" "\<not> is_err (Inr a)"
  by (simp_all add: is_err_def)

lemma not_is_err_iff: "\<not> is_err r \<longleftrightarrow> (\<exists>a. r = Inr a)"
  by (cases r) simp_all

lemma is_err_iff: "is_err r \<longleftrightarrow> (\<exists>e. r = Inl e)"
  by (cases r) simp_all

lemma map_sum_eq_Inr: "map_sum f g x = Inr y \<longleftrightarrow> (\<exists>z. x = Inr z \<and> g z = y)"
  by (cases x) auto

end
