(* ===== verification/GoStrings.thy ===== *)
theory GoStrings
  imports Prelude
begin

text \<open>
  The strings of the program.  A Go string is a sequence of bytes, here a list of \<open>char\<close>
  (an Isabelle \<open>char\<close> is a byte).  Where the code ranges over a string, or calls a function of
  the package strings that does, the bytes are decoded as UTF-8: \<open>decode_rune\<close> is
  \<open>utf8.DecodeRuneInString\<close> (an invalid byte is U+FFFD of width 1) and \<open>segments\<close> lists
  the decoded runes with the bytes each came from.  The functions below are those of the standard
  packages strings and path/filepath that the code under src/ calls.
\<close>

section \<open>Bytes and runes\<close>

abbreviation byte :: "char \<Rightarrow> nat" where
  "byte c \<equiv> of_char c"

definition is_cont :: "nat \<Rightarrow> bool" where
  [go_defs]: "is_cont n = (128 \<le> n \<and> n \<le> 191)"

definition rune_error :: nat where
  "rune_error = 65533"

definition second_ok :: "nat \<Rightarrow> nat \<Rightarrow> bool" where
  "second_ok b x =
     (if b = 224 then 160 \<le> x \<and> x \<le> 191
      else if b = 237 then 128 \<le> x \<and> x \<le> 159
      else if b = 240 then 144 \<le> x \<and> x \<le> 191
      else if b = 244 then 128 \<le> x \<and> x \<le> 143
      else is_cont x)"

fun decode_rune :: "string \<Rightarrow> nat \<times> nat" where
  "decode_rune [] = (rune_error, 0)"
| "decode_rune (c # cs) =
     (let b = byte c in
      if b < 128 then (b, 1)
      else if 194 \<le> b \<and> b \<le> 223 then
        (case cs of
           c1 # _ \<Rightarrow> if is_cont (byte c1) then ((b - 192) * 64 + (byte c1 - 128), 2)
                     else (rune_error, 1)
         | [] \<Rightarrow> (rune_error, 1))
      else if 224 \<le> b \<and> b \<le> 239 then
        (case cs of
           c1 # c2 # _ \<Rightarrow>
             if second_ok b (byte c1) \<and> is_cont (byte c2)
             then ((b - 224) * 4096 + (byte c1 - 128) * 64 + (byte c2 - 128), 3)
             else (rune_error, 1)
         | _ \<Rightarrow> (rune_error, 1))
      else if 240 \<le> b \<and> b \<le> 244 then
        (case cs of
           c1 # c2 # c3 # _ \<Rightarrow>
             if second_ok b (byte c1) \<and> is_cont (byte c2) \<and> is_cont (byte c3)
             then ((b - 240) * 262144 + (byte c1 - 128) * 4096 + (byte c2 - 128) * 64
                   + (byte c3 - 128), 4)
             else (rune_error, 1)
         | _ \<Rightarrow> (rune_error, 1))
      else (rune_error, 1))"

fun segments :: "string \<Rightarrow> (nat \<times> string) list" where
  "segments [] = []"
| "segments (c # cs) =
     (let w = snd (decode_rune (c # cs))
      in (fst (decode_rune (c # cs)), c # take (w - 1) cs) # segments (drop (w - 1) cs))"

definition runes :: "string \<Rightarrow> nat list" where
  "runes s = map fst (segments s)"

definition encode_rune :: "nat \<Rightarrow> string" where
  "encode_rune r0 =
     (let r = (if (55296 \<le> r0 \<and> r0 \<le> 57343) \<or> 1114111 < r0 then rune_error else r0) in
      if r < 128 then [char_of r]
      else if r < 2048 then [char_of (192 + r div 64), char_of (128 + r mod 64)]
      else if r < 65536 then
        [char_of (224 + r div 4096), char_of (128 + r div 64 mod 64), char_of (128 + r mod 64)]
      else
        [char_of (240 + r div 262144), char_of (128 + r div 4096 mod 64),
         char_of (128 + r div 64 mod 64), char_of (128 + r mod 64)])"

declare segments.simps [simp del] decode_rune.simps [simp del]

definition ascii :: "string \<Rightarrow> bool" where
  "ascii s = (\<forall>c \<in> set s. byte c < 128)"

lemma concat_segments: "concat (map snd (segments s)) = s"
  by (induction s rule: segments.induct) (simp_all add: segments.simps Let_def)

lemma decode_rune_ascii: "byte c < 128 \<Longrightarrow> decode_rune (c # cs) = (byte c, 1)"
  by (simp add: decode_rune.simps)

lemma segments_ascii: "ascii s \<Longrightarrow> segments s = map (\<lambda>c. (byte c, [c])) s"
proof (induction s)
  case Nil
  then show ?case by (simp add: segments.simps)
next
  case (Cons c cs)
  then have "byte c < 128" and "ascii cs" by (simp_all add: ascii_def)
  with Cons.IH show ?case by (simp add: segments.simps decode_rune_ascii Let_def)
qed

lemma runes_ascii: "ascii s \<Longrightarrow> runes s = map byte s"
  by (simp add: runes_def segments_ascii)

lemma encode_rune_ascii [simp]: "r < 128 \<Longrightarrow> encode_rune r = [char_of r]"
  by (simp add: encode_rune_def)

section \<open>The package strings\<close>

text \<open>\<open>strings.Map\<close>: every rune is replaced and the result encoded again.\<close>

definition strings_map :: "(nat \<Rightarrow> nat) \<Rightarrow> string \<Rightarrow> string" where
  "strings_map f s = concat (map (\<lambda>r. encode_rune (f r)) (runes s))"

lemma strings_map_ascii:
  assumes "\<And>r. f r < 128"
  shows "strings_map f s = map (\<lambda>r. char_of (f r)) (runes s)"
  using assms by (simp add: strings_map_def concat_map_singleton)

text \<open>
  \<open>unicode.ToLower\<close> on the runes the callers can tell apart: the ASCII letters, and the two
  letters outside ASCII whose lower case is an ASCII letter (U+0130 and the Kelvin sign U+212A).
  Every other rune outside ASCII has a lower case outside ASCII, which both callers replace by one
  fixed character; it is left as it is here.
\<close>

definition to_lower_rune :: "nat \<Rightarrow> nat" where
  "to_lower_rune r =
     (if 65 \<le> r \<and> r \<le> 90 then r + 32
      else if r = 304 then 105
      else if r = 8490 then 107
      else r)"

definition to_lower :: "string \<Rightarrow> string" where
  "to_lower s = strings_map to_lower_rune s"

definition is_space_rune :: "nat \<Rightarrow> bool" where
  "is_space_rune r =
     (r \<in> {9, 10, 11, 12, 13, 32, 133, 160, 5760, 8232, 8233, 8239, 8287, 12288}
      \<or> (8192 \<le> r \<and> r \<le> 8202))"

definition trim_space :: "string \<Rightarrow> string" where
  "trim_space s =
     concat (map snd
       (rev (dropWhile (\<lambda>x. is_space_rune (fst x))
          (rev (dropWhile (\<lambda>x. is_space_rune (fst x)) (segments s))))))"

text \<open>\<open>strings.Trim\<close> with a cutset of ASCII characters.\<close>

definition trim_set :: "char set \<Rightarrow> string \<Rightarrow> string" where
  "trim_set A s = rev (dropWhile (\<lambda>c. c \<in> A) (rev (dropWhile (\<lambda>c. c \<in> A) s)))"

fun str_index :: "string \<Rightarrow> string \<Rightarrow> nat option" where
  "str_index sub [] = (if sub = [] then Some 0 else None)"
| "str_index sub (c # cs) =
     (if take (length sub) (c # cs) = sub then Some 0
      else map_option Suc (str_index sub cs))"

definition contains :: "string \<Rightarrow> string \<Rightarrow> bool" where
  "contains s sub = (str_index sub s \<noteq> None)"

text \<open>\<open>strings.LastIndex\<close> of a single byte.\<close>

definition last_index :: "string \<Rightarrow> char \<Rightarrow> nat option" where
  "last_index s c =
     (if c \<in> set s then Some (length s - 1 - length (takeWhile (\<lambda>x. x \<noteq> c) (rev s))) else None)"

definition first_index :: "string \<Rightarrow> char \<Rightarrow> nat option" where
  "first_index s c = (if c \<in> set s then Some (length (takeWhile (\<lambda>x. x \<noteq> c) s)) else None)"

text \<open>\<open>strings.Split\<close> at a single byte; the result has at least one part.\<close>

fun split_on :: "char \<Rightarrow> string \<Rightarrow> string list" where
  "split_on d [] = [[]]"
| "split_on d (c # cs) =
     (if c = d then [] # split_on d cs
      else (case split_on d cs of p # ps \<Rightarrow> (c # p) # ps | [] \<Rightarrow> [[c]]))"

fun join_with :: "string \<Rightarrow> string list \<Rightarrow> string" where
  "join_with sep [] = []"
| "join_with sep [p] = p"
| "join_with sep (p # q # ps) = p @ sep @ join_with sep (q # ps)"

definition has_prefix :: "string \<Rightarrow> string \<Rightarrow> bool" where
  "has_prefix s p = (take (length p) s = p)"

definition has_suffix :: "string \<Rightarrow> string \<Rightarrow> bool" where
  "has_suffix s p = (length p \<le> length s \<and> drop (length s - length p) s = p)"

text \<open>\<open>strings.Cut\<close> at a single byte: the parts around the first occurrence.\<close>

definition str_cut :: "string \<Rightarrow> char \<Rightarrow> (string \<times> string) option" where
  "str_cut s d =
     (if d \<in> set s then Some (takeWhile (\<lambda>c. c \<noteq> d) s, tl (dropWhile (\<lambda>c. c \<noteq> d) s)) else None)"

text \<open>\<open>strings.ReplaceAll\<close> for a non-empty old string.\<close>

function replace_all :: "string \<Rightarrow> string \<Rightarrow> string \<Rightarrow> string" where
  "replace_all old new s =
     (if old = [] \<or> length s < length old then s
      else if take (length old) s = old then new @ replace_all old new (drop (length old) s)
      else hd s # replace_all old new (tl s))"
  by pat_completeness auto
termination
  by (relation "measure (\<lambda>(old, new, s). length s)") (auto simp: Suc_le_eq not_less length_greater_0_conv intro!: diff_less)

declare replace_all.simps [simp del]

section \<open>Laws of the string functions\<close>

lemma split_on_not_Nil [simp]: "split_on d s \<noteq> []"
  by (induction s) (auto split: list.splits)

lemma join_split [simp]: "join_with [d] (split_on d s) = s"
proof (induction s)
  case Nil
  then show ?case by simp
next
  case (Cons c cs)
  obtain p ps where "split_on d cs = p # ps"
    by (cases "split_on d cs") auto
  with Cons show ?case by (cases ps) auto
qed

lemma split_on_no_sep: "p \<in> set (split_on d s) \<Longrightarrow> d \<notin> set p"
  by (induction s arbitrary: p) (auto split: list.splits if_splits)

lemma split_on_subset: "p \<in> set (split_on d s) \<Longrightarrow> set p \<subseteq> set s"
proof (induction s arbitrary: p)
  case (Cons c cs)
  show ?case
  proof (cases "split_on d cs")
    case (Cons q qs)
    with Cons.IH Cons.prems show ?thesis
      by (fastforce split: if_splits)
  qed simp
qed simp

lemma split_on_absent: "d \<notin> set s \<Longrightarrow> split_on d s = [s]"
  by (induction s) auto

lemma split_on_append: "split_on d (s @ d # t) = split_on d s @ split_on d t"
proof (induction s)
  case (Cons c cs)
  then show ?case by (cases "split_on d cs") auto
qed simp

lemma hd_split_on: "s \<noteq> [] \<Longrightarrow> hd s \<noteq> d \<Longrightarrow> hd (split_on d s) \<noteq> [] \<and> hd (hd (split_on d s)) = hd s"
  by (cases s) (auto split: list.splits)

lemma join_with_snoc:
  "ps \<noteq> [] \<Longrightarrow> join_with sep (ps @ [p]) = join_with sep ps @ sep @ p"
  by (induction sep ps rule: join_with.induct) auto

lemma join_with_Cons:
  "ps \<noteq> [] \<Longrightarrow> join_with sep (p # ps) = p @ sep @ join_with sep ps"
  by (cases ps) auto

lemma set_join_with: "set (join_with sep ps) \<subseteq> set sep \<union> (\<Union>p \<in> set ps. set p)"
  by (induction sep ps rule: join_with.induct) auto

lemma split_on_join:
  assumes "ps \<noteq> []" and "\<forall>p \<in> set ps. d \<notin> set p"
  shows "split_on d (join_with [d] ps) = ps"
  using assms
proof (induction ps)
  case (Cons p ps)
  then show ?case
    by (cases ps) (simp_all add: split_on_absent split_on_append)
qed simp

lemma str_index_None_iff: "str_index sub s = None \<longleftrightarrow> \<not> sublist sub s"
proof (induction s)
  case (Cons c cs)
  have "take (length sub) (c # cs) = sub \<longleftrightarrow> prefix sub (c # cs)"
    by (metis append_take_drop_id append_eq_conv_conj prefix_def)
  with Cons show ?case by (auto simp: sublist_Cons_right)
qed auto

lemma contains_iff_sublist: "contains s sub \<longleftrightarrow> sublist sub s"
  by (simp add: contains_def str_index_None_iff)

lemma contains_iff_append: "contains s sub \<longleftrightarrow> (\<exists>a b. s = a @ sub @ b)"
  by (simp add: contains_iff_sublist sublist_def)

lemma contains_single: "contains s [c] \<longleftrightarrow> c \<in> set s"
  by (auto simp: contains_iff_append in_set_conv_decomp)

lemma set_trim_set: "set (trim_set A s) \<subseteq> set s"
  unfolding trim_set_def by (auto dest!: set_dropWhileD)

lemma trim_set_last: "trim_set A s \<noteq> [] \<Longrightarrow> last (trim_set A s) \<notin> A"
  unfolding trim_set_def using last_rev_dropWhile[of "\<lambda>c. c \<in> A"] by blast

lemma trim_set_hd: "trim_set A s \<noteq> [] \<Longrightarrow> hd (trim_set A s) \<notin> A"
  unfolding trim_set_def
  using hd_rev_dropWhile_rev[of "\<lambda>c. c \<in> A" "dropWhile (\<lambda>c. c \<in> A) s"]
    hd_dropWhile[of "\<lambda>c. c \<in> A" s] by fastforce

lemma dropWhile_hd_same: "s = [] \<or> \<not> P (hd s) \<Longrightarrow> dropWhile P s = s"
  by (cases s) auto

lemma trim_set_id: "s = [] \<or> (hd s \<notin> A \<and> last s \<notin> A) \<Longrightarrow> trim_set A s = s"
  by (auto simp: trim_set_def dropWhile_hd_same hd_rev)

lemma trim_set_idem: "trim_set A (trim_set A s) = trim_set A s"
  by (rule trim_set_id) (use trim_set_hd trim_set_last in blast)

lemma trim_set_hd_keep:
  "s \<noteq> [] \<Longrightarrow> hd s \<notin> A \<Longrightarrow> trim_set A s \<noteq> [] \<and> hd (trim_set A s) = hd s"
proof -
  assume s: "s \<noteq> []" "hd s \<notin> A"
  then have d: "dropWhile (\<lambda>c. c \<in> A) s = s" by (cases s) auto
  from s have "rev (dropWhile (\<lambda>c. c \<in> A) (rev s)) \<noteq> []"
    by (auto simp: dropWhile_eq_Nil_conv)
  with d show ?thesis
    unfolding trim_set_def by (simp add: hd_rev_dropWhile_rev)
qed

lemma length_trim_set: "length (trim_set A s) \<le> length s"
  unfolding trim_set_def
  by (metis length_dropWhile_le length_rev le_trans)

lemma last_index_Some:
  assumes "last_index s c = Some i"
  shows "i < length s \<and> s = take i s @ c # drop (Suc i) s \<and> c \<notin> set (drop (Suc i) s)"
proof -
  from assms have c: "c \<in> set s"
    and i: "i = length s - 1 - length (takeWhile (\<lambda>x. x \<noteq> c) (rev s))"
    by (auto simp: last_index_def split: if_splits)
  from c obtain a b where s: "s = a @ c # b" and b: "c \<notin> set b"
    by (meson split_list_last)
  have "takeWhile (\<lambda>x. x \<noteq> c) (rev s) = rev b"
    using b takeWhile_marker[of c "rev b" "rev a"] by (simp add: s)
  with i s have "i = length a" by simp
  with s b show ?thesis by simp
qed

lemma last_index_None: "last_index s c = None \<longleftrightarrow> c \<notin> set s"
  by (simp add: last_index_def)

lemma first_index_Some:
  assumes "first_index s c = Some i"
  shows "i < length s \<and> s ! i = c \<and> c \<notin> set (take i s)"
proof -
  from assms have c: "c \<in> set s" and i: "i = length (takeWhile (\<lambda>x. x \<noteq> c) s)"
    by (auto simp: first_index_def split: if_splits)
  from c obtain a b where s: "s = a @ c # b" and a: "c \<notin> set a"
    by (meson split_list_first)
  with i have "i = length a" by (simp add: takeWhile_marker)
  with s a show ?thesis by simp
qed

lemma str_cut_Some:
  "str_cut s d = Some (a, b) \<Longrightarrow> s = a @ d # b \<and> d \<notin> set a"
proof -
  assume h: "str_cut s d = Some (a, b)"
  then have d: "d \<in> set s" and a: "a = takeWhile (\<lambda>c. c \<noteq> d) s"
    and b: "b = tl (dropWhile (\<lambda>c. c \<noteq> d) s)" by (auto simp: str_cut_def split: if_splits)
  from d have ne: "dropWhile (\<lambda>c. c \<noteq> d) s \<noteq> []" by (auto simp: dropWhile_eq_Nil_conv)
  with hd_dropWhile[OF ne] b have "dropWhile (\<lambda>c. c \<noteq> d) s = d # b" by (metis list.collapse)
  with a show ?thesis using takeWhile_dropWhile_id[of "\<lambda>c. c \<noteq> d" s] by (auto dest: set_takeWhileD)
qed

lemma str_cut_append: "d \<notin> set a \<Longrightarrow> str_cut (a @ d # b) d = Some (a, b)"
  by (simp add: str_cut_def takeWhile_marker dropWhile_marker)

section \<open>Formatting and parsing numbers\<close>

text \<open>The verbs \<open>%d\<close> and \<open>%q\<close> of package fmt, and \<open>strconv.Atoi\<close>.\<close>

fun show_nat :: "nat \<Rightarrow> string" where
  "show_nat n =
     (if n < 10 then [char_of (48 + n)] else show_nat (n div 10) @ [char_of (48 + n mod 10)])"

declare show_nat.simps [simp del]

definition show_int :: "int \<Rightarrow> string" where
  "show_int i = (if i < 0 then ''-'' @ show_nat (nat (- i)) else show_nat (nat i))"

definition is_digit :: "char \<Rightarrow> bool" where
  [go_defs]: "is_digit c = (48 \<le> byte c \<and> byte c \<le> 57)"

definition read_digits :: "string \<Rightarrow> nat" where
  "read_digits s = foldl (\<lambda>a c. a * 10 + (byte c - 48)) 0 s"

definition atoi :: "string \<Rightarrow> int option" where
  "atoi s =
     (let neg = (s \<noteq> [] \<and> hd s = CHR ''-'');
          ds = (if s \<noteq> [] \<and> (hd s = CHR ''-'' \<or> hd s = CHR ''+'') then tl s else s);
          v = (if neg then - int (read_digits ds) else int (read_digits ds))
      in if ds = [] \<or> \<not> list_all is_digit ds then None
         else if v < - (2 ^ 63) \<or> 2 ^ 63 \<le> v then None
         else Some v)"

text \<open>
  \<open>strconv.Quote\<close> escapes the quote, the backslash and the control characters; the letters
  outside ASCII that are not printable are also escaped by Go and are kept as they are here.
\<close>

definition hex_digit :: "nat \<Rightarrow> char" where
  "hex_digit n = (if n < 10 then char_of (48 + n) else char_of (87 + n))"

definition quote_char :: "char \<Rightarrow> string" where
  "quote_char c =
     (let b = byte c in
      if b = 34 then [CHR 0x5C, c]
      else if b = 92 then [c, c]
      else if b = 10 then [CHR 0x5C, CHR ''n'']
      else if b = 9 then [CHR 0x5C, CHR ''t'']
      else if b = 13 then [CHR 0x5C, CHR ''r'']
      else if b = 7 then [CHR 0x5C, CHR ''a'']
      else if b = 8 then [CHR 0x5C, CHR ''b'']
      else if b = 12 then [CHR 0x5C, CHR ''f'']
      else if b = 11 then [CHR 0x5C, CHR ''v'']
      else if b < 32 \<or> b = 127 then
        [CHR 0x5C, CHR ''x'', hex_digit (b div 16), hex_digit (b mod 16)]
      else [c])"

definition quote :: "string \<Rightarrow> string" where
  "quote s = [CHR 0x22] @ concat (map quote_char s) @ [CHR 0x22]"

lemma byte_digit: "n < 10 \<Longrightarrow> byte (char_of (48 + n) :: char) = 48 + n"
  by simp

lemma show_nat_digits: "list_all is_digit (show_nat n)"
proof (induction n rule: show_nat.induct)
  case (1 n)
  show ?case
  proof (cases "n < 10")
    case True
    then show ?thesis by (simp add: show_nat.simps[of n] is_digit_def)
  next
    case False
    with 1 have "list_all is_digit (show_nat (n div 10))" by simp
    moreover have "is_digit (char_of (48 + n mod 10))"
      by (simp add: is_digit_def)
    ultimately show ?thesis using False by (simp add: show_nat.simps[of n])
  qed
qed

lemma show_nat_not_Nil [simp]: "show_nat n \<noteq> []"
  by (subst show_nat.simps) simp

lemma read_digits_snoc: "read_digits (s @ [c]) = read_digits s * 10 + (byte c - 48)"
  by (simp add: read_digits_def)

lemma read_show_nat [simp]: "read_digits (show_nat n) = n"
proof (induction n rule: show_nat.induct)
  case (1 n)
  show ?case
  proof (cases "n < 10")
    case True
    then show ?thesis by (simp add: show_nat.simps[of n] read_digits_def)
  next
    case False
    with 1 have "read_digits (show_nat (n div 10)) = n div 10" by simp
    with False show ?thesis by (simp add: show_nat.simps[of n] read_digits_snoc)
  qed
qed

lemma show_nat_inject: "show_nat m = show_nat n \<Longrightarrow> m = n"
  by (metis read_show_nat)

lemma show_nat_no_char:
  assumes "\<not> is_digit c" shows "c \<notin> set (show_nat n)"
  using show_nat_digits[of n] assms by (auto simp: list_all_iff)

lemma atoi_show_nat:
  assumes "n < 2 ^ 63" shows "atoi (show_nat n) = Some (int n)"
proof -
  have "hd (show_nat n) \<in> set (show_nat n)" by (rule list.set_sel(1)) simp
  then have "is_digit (hd (show_nat n))"
    using show_nat_digits[of n] by (simp add: list_all_iff)
  then have "hd (show_nat n) \<noteq> CHR ''-''" "hd (show_nat n) \<noteq> CHR ''+''"
    by (auto simp: is_digit_def)
  moreover have "int n < 2 ^ 63" using assms by simp
  ultimately show ?thesis
    using show_nat_digits[of n] by (simp add: atoi_def)
qed

end
