(* ===== verification/Errors.thy ===== *)
theory Errors
  imports GoStrings
begin

text \<open>
  Go error values and the helpers the whole program builds them with: the sentinels and the typed
  errors of internal/core/domain (client_side_apply.go, files.go, path.go, helm.go), the wrappers
  of internal/core/common/dry (errors.go, ptr.go, when.go) and \<open>errors.Is\<close>, \<open>errors.Join\<close> and
  \<open>fmt.Errorf\<close> of the standard library.  A nil error is \<open>None\<close>.
\<close>

section \<open>Error values\<close>

datatype sentinel =
    ErrAbort
  | ErrContinue
  | ErrEmptyAction
  | ErrSkipFile
  | ErrReadOnlyFileSystem
  | ErrNotFoundInPath
  | ErrHelmCannotTemplate
  | ErrDependencyNotFound
  | ErrNotExist

text \<open>
  \<open>WrapErr m e\<close> is the value of \<open>fmt.Errorf("m: %w", e)\<close>; \<open>ErrText\<close> stands for an
  error created with \<open>errors.New\<close> or with \<open>fmt.Errorf\<close> without \<open>%w\<close>; \<open>JoinErr\<close> is what
  \<open>errors.Join\<close> returns; \<open>CErr\<close> is dry's \<open>cError\<close>.
\<close>

datatype goerr =
    Sentinel sentinel
  | ErrText string
  | WrapErr string goerr
  | CErr goerr
  | AbortError goerr
  | ContinueError goerr
  | SkipFileError string
  | NotFoundInPathError string
  | JoinErr "goerr list"

primrec sentinel_text :: "sentinel \<Rightarrow> string" where
  "sentinel_text ErrAbort = ''abort error: previous step failed, aborting further processing''"
| "sentinel_text ErrContinue = ''continue error: previous step failed, continuing to next step''"
| "sentinel_text ErrEmptyAction = ''action cannot be empty''"
| "sentinel_text ErrSkipFile = ''skip file''"
| "sentinel_text ErrReadOnlyFileSystem = ''read-only file system''"
| "sentinel_text ErrNotFoundInPath = ''not found in path''"
| "sentinel_text ErrHelmCannotTemplate =
     ''cannot template helm chart, only application charts are supported''"
| "sentinel_text ErrDependencyNotFound = ''required dependency not found''"
| "sentinel_text ErrNotExist = ''file does not exist''"

fun error_text :: "goerr \<Rightarrow> string" where
  "error_text (Sentinel s) = sentinel_text s"
| "error_text (ErrText t) = t"
| "error_text (WrapErr m e) = m @ '': '' @ error_text e"
| "error_text (CErr e) = error_text e"
| "error_text (AbortError e) = error_text e"
| "error_text (ContinueError e) = error_text e"
| "error_text (SkipFileError p) = ''file skipped: '' @ p"
| "error_text (NotFoundInPathError p) = ''file not found in path: '' @ p"
| "error_text (JoinErr es) = join_with [CHR 0x0A] (map error_text es)"

section \<open>errors.Is and errors.As\<close>

text \<open>
  \<open>is_sentinel e t\<close> is \<open>errors.Is(e, t)\<close> for a sentinel \<open>t\<close>.  \<open>WrapErr\<close>, \<open>CErr\<close> and
  \<open>JoinErr\<close> unwrap.  \<open>AbortError\<close> and \<open>ContinueError\<close> have an \<open>Is\<close> method and no
  \<open>Unwrap\<close>: the search ends there, and the \<open>Is\<close> method says whether the target is their own
  sentinel.  \<open>SkipFileError\<close> and \<open>NotFoundInPathError\<close> unwrap to nil.
\<close>

fun is_sentinel :: "goerr \<Rightarrow> sentinel \<Rightarrow> bool" where
  "is_sentinel (Sentinel s) t = (s = t)"
| "is_sentinel (ErrText _) t = False"
| "is_sentinel (WrapErr _ e) t = is_sentinel e t"
| "is_sentinel (CErr e) t = is_sentinel e t"
| "is_sentinel (AbortError _) t = (t = ErrAbort)"
| "is_sentinel (ContinueError _) t = (t = ErrContinue)"
| "is_sentinel (SkipFileError _) t = (t = ErrSkipFile)"
| "is_sentinel (NotFoundInPathError _) t = (t = ErrNotFoundInPath)"
| "is_sentinel (JoinErr es) t = (\<exists>e \<in> set es. is_sentinel e t)"

text \<open>\<open>errors.As\<close> for the two failure types.\<close>

fun as_abort :: "goerr \<Rightarrow> bool" where
  "as_abort (AbortError _) = True"
| "as_abort (WrapErr _ e) = as_abort e"
| "as_abort (CErr e) = as_abort e"
| "as_abort (JoinErr es) = (\<exists>e \<in> set es. as_abort e)"
| "as_abort _ = False"

fun as_continue :: "goerr \<Rightarrow> bool" where
  "as_continue (ContinueError _) = True"
| "as_continue (WrapErr _ e) = as_continue e"
| "as_continue (CErr e) = as_continue e"
| "as_continue (JoinErr es) = (\<exists>e \<in> set es. as_continue e)"
| "as_continue _ = False"

text \<open>The methods \<open>Is\<close> of the typed errors, for any target.\<close>

definition AbortError_Is :: "goerr \<Rightarrow> bool" where
  "AbortError_Is target = (is_sentinel target ErrAbort \<or> as_abort target)"

definition ContinueError_Is :: "goerr \<Rightarrow> bool" where
  "ContinueError_Is target = (is_sentinel target ErrContinue \<or> as_continue target)"

definition SkipFileError_Is :: "goerr \<Rightarrow> bool" where
  "SkipFileError_Is target = is_sentinel target ErrSkipFile"

definition NotFoundInPathError_Is :: "goerr \<Rightarrow> bool" where
  "NotFoundInPathError_Is target = is_sentinel target ErrNotFoundInPath"

lemma typed_Is_agrees:
  "is_sentinel (AbortError e) t = AbortError_Is (Sentinel t)"
  "is_sentinel (ContinueError e) t = ContinueError_Is (Sentinel t)"
  "is_sentinel (SkipFileError p) t = SkipFileError_Is (Sentinel t)"
  "is_sentinel (NotFoundInPathError p) t = NotFoundInPathError_Is (Sentinel t)"
  by (auto simp: AbortError_Is_def ContinueError_Is_def SkipFileError_Is_def
      NotFoundInPathError_Is_def)

section \<open>errors.Join\<close>

definition join_errors :: "goerr option list \<Rightarrow> goerr option" where
  "join_errors es =
     (let ne = map the (filter (\<lambda>e. e \<noteq> None) es) in if ne = [] then None else Some (JoinErr ne))"

lemma join_errors_None_iff: "join_errors es = None \<longleftrightarrow> (\<forall>e \<in> set es. e = None)"
  by (auto simp: join_errors_def Let_def filter_empty_conv)

lemma join_errors_nil [simp]:
  "join_errors [None, None] = None"
  "join_errors [None, Some e] = Some (JoinErr [e])"
  "join_errors [Some d, None] = Some (JoinErr [d])"
  "join_errors [Some d, Some e] = Some (JoinErr [d, e])"
  by (simp_all add: join_errors_def)

text \<open>The errors that were joined, in order, through the nesting that repeated joins build.\<close>

fun leaves :: "goerr \<Rightarrow> goerr list" where
  "leaves (JoinErr es) = concat (map leaves es)"
| "leaves e = [e]"

section \<open>Package dry: errors.go\<close>

definition Wrap :: "goerr option \<Rightarrow> goerr option" where
  "Wrap err = (case err of None \<Rightarrow> None | Some e \<Rightarrow> Some (CErr e))"

definition Wrapf :: "goerr option \<Rightarrow> string \<Rightarrow> goerr option" where
  "Wrapf err msg = (case err of None \<Rightarrow> None | Some e \<Rightarrow> Wrap (Some (WrapErr msg e)))"

definition Wrap2 :: "'a \<Rightarrow> 'a \<times> goerr option \<Rightarrow> 'a \<times> goerr option" where
  "Wrap2 zero r = (case Wrap (snd r) of Some e \<Rightarrow> (zero, Some e) | None \<Rightarrow> (fst r, None))"

definition Wrapf2 :: "'a \<Rightarrow> 'a \<times> goerr option \<Rightarrow> string \<Rightarrow> 'a \<times> goerr option" where
  "Wrapf2 zero r msg =
     (case Wrapf (snd r) msg of Some e \<Rightarrow> (zero, Some e) | None \<Rightarrow> (fst r, None))"

fun FirstError :: "goerr option list \<Rightarrow> goerr option" where
  "FirstError [] = None"
| "FirstError (err # errs) = (if err \<noteq> None then Wrap err else FirstError errs)"

text \<open>
  The functions given to \<open>FirstErrorFns\<close> and \<open>FirstError2\<close> have effects: each takes the
  state the ones before it left.
\<close>

fun FirstErrorFns :: "('s \<Rightarrow> goerr option \<times> 's) list \<Rightarrow> 's \<Rightarrow> goerr option \<times> 's" where
  "FirstErrorFns [] s = (None, s)"
| "FirstErrorFns (check # checks) s =
     (case check s of
        (Some e, s') \<Rightarrow> (Wrap (Some e), s')
      | (None, s') \<Rightarrow> FirstErrorFns checks s')"

fun FirstError2 ::
  "'a \<Rightarrow> 'a \<Rightarrow> ('s \<Rightarrow> ('a \<times> goerr option) \<times> 's) list \<Rightarrow> 's \<Rightarrow> ('a \<times> goerr option) \<times> 's" where
  "FirstError2 zero val [] s = ((val, None), s)"
| "FirstError2 zero val (check # checks) s =
     (case check s of
        (r, s') \<Rightarrow>
          (case Wrap2 zero r of
             (v, Some e) \<Rightarrow> ((v, Some e), s')
           | (v, None) \<Rightarrow> FirstError2 zero v checks s'))"

text \<open>\<open>dry.ErrorAs\<close> and \<open>cError\<close>'s own \<open>Is\<close> are the search above; \<open>dry.When\<close> and the pointer
  helpers are ordinary functions (a pointer that may be nil is an option).\<close>

definition When :: "bool \<Rightarrow> 'a \<Rightarrow> 'a \<Rightarrow> 'a" where
  "When cond t f = (if cond then t else f)"

definition FromPtr :: "'a \<Rightarrow> 'a option \<Rightarrow> 'a" where
  "FromPtr zero v = (case v of None \<Rightarrow> zero | Some x \<Rightarrow> x)"

definition PtrSlice :: "'a list option \<Rightarrow> 'a option list option" where
  "PtrSlice v = (case v of None \<Rightarrow> None | Some xs \<Rightarrow> Some (map Some xs))"

text \<open>A Go map that is listed or copied is an association list with distinct keys.\<close>

definition PtrMapping :: "('k \<times> 'v) list option \<Rightarrow> ('k \<times> 'v option) list option" where
  "PtrMapping m = (case m of None \<Rightarrow> None | Some kvs \<Rightarrow> Some (map (\<lambda>(k, v). (k, Some v)) kvs))"

lemma Wrap_simps [simp]:
  "Wrap None = None" "Wrap (Some e) = Some (CErr e)" "Wrap err = None \<longleftrightarrow> err = None"
  by (simp_all add: Wrap_def split: option.splits)

lemma Wrapf_simps [simp]:
  "Wrapf None m = None" "Wrapf (Some e) m = Some (CErr (WrapErr m e))"
  "Wrapf err m = None \<longleftrightarrow> err = None"
  by (simp_all add: Wrapf_def split: option.splits)

lemma Wrapf2_simps [simp]:
  "Wrapf2 z (a, None) m = (a, None)"
  "Wrapf2 z (a, Some e) m = (z, Some (CErr (WrapErr m e)))"
  by (simp_all add: Wrapf2_def)

lemma Wrap2_simps [simp]:
  "Wrap2 z (a, None) = (a, None)" "Wrap2 z (a, Some e) = (z, Some (CErr e))"
  by (simp_all add: Wrap2_def)

section \<open>OnFailure: ClientSideApplyManifest.NewError\<close>

definition FailureContinue :: string where "FailureContinue = ''continue''"
definition FailureAbort :: string where "FailureAbort = ''abort''"

definition NewError :: "string \<Rightarrow> goerr option \<Rightarrow> goerr option" where
  "NewError onFailure err =
     (case err of
        None \<Rightarrow> None
      | Some e \<Rightarrow>
          if onFailure = FailureContinue then Some (ContinueError e)
          else if onFailure = FailureAbort then Some (AbortError e)
          else Some (ErrText (''unknown onFailure action: '' @ quote onFailure)))"

lemma NewError_None_iff: "NewError f err = None \<longleftrightarrow> err = None"
  by (auto simp: NewError_def split: option.splits)

text \<open>Whether a failed step stops the plan is decided by OnFailure alone, not by the cause.\<close>

lemma NewError_aborts_iff:
  "is_sentinel (the (Wrapf (NewError f (Some e)) m)) ErrAbort \<longleftrightarrow> f = FailureAbort"
  by (auto simp: NewError_def FailureAbort_def FailureContinue_def)

lemma FirstErrorFns_append_ok:
  "FirstErrorFns fs s = (None, s') \<Longrightarrow> FirstErrorFns (fs @ gs) s = FirstErrorFns gs s'"
  by (induction fs arbitrary: s) (auto split: prod.splits option.splits)

lemma FirstErrorFns_error_skips:
  "FirstErrorFns fs s = (Some e, s') \<Longrightarrow> FirstErrorFns (fs @ gs) s = (Some e, s')"
  by (induction fs arbitrary: s) (auto split: prod.splits option.splits)

lemma FirstErrorFns_error_CErr:
  "FirstErrorFns fs s = (Some e, s') \<Longrightarrow> \<exists>e'. e = CErr e'"
  by (induction fs arbitrary: s) (auto split: prod.splits option.splits)

end
