(* ===== verification/Infra.thy ===== *)
theory Infra
  imports GoStrings "HOL-Library.Word"
begin

text \<open>
  Resource names: internal/core/common/infra/resources.go and the magic strings of
  internal/core/domain/cdk8s.go.  \<open>ToRFC1123\<close> turns any string into a DNS-1035 label,
  \<open>ResourceID\<close> appends eight hexadecimal digits of the FNV-1a hash of the encoded props to a
  prefix, \<open>ExtractResource\<close> strips them.  A panic is \<open>None\<close>.
\<close>

section \<open>Magic strings and character classes\<close>

definition CDK8sResource :: string where "CDK8sResource = ''Resource''"
definition CDK8sDefault :: string where "CDK8sDefault = ''Default''"
definition CDK8sUnknown :: string where "CDK8sUnknown = ''unknown''"

definition isLowercaseLetter :: "nat \<Rightarrow> bool" where
  "isLowercaseLetter r = (97 \<le> r \<and> r \<le> 122)"

definition isAlphanumericLowercase :: "nat \<Rightarrow> bool" where
  "isAlphanumericLowercase r = ((97 \<le> r \<and> r \<le> 122) \<or> (48 \<le> r \<and> r \<le> 57))"

definition hash_match :: "nat \<Rightarrow> bool" where
  "hash_match c = ((c < 48 \<or> 57 < c) \<and> (c < 97 \<or> 102 < c))"

definition isHashHex :: "string \<Rightarrow> bool" where
  "isHashHex s = (\<not> (length s \<noteq> 8 \<or> (\<exists>r \<in> set (runes s). hash_match r)))"

section \<open>FNV-1a\<close>

text \<open>\<open>fnv.New64a\<close> of hash/fnv, and \<open>%x\<close> of its eight bytes in big-endian order.\<close>

definition fnv1a64 :: "string \<Rightarrow> 64 word" where
  "fnv1a64 b =
     foldl (\<lambda>h c. xor h (word_of_nat (byte c)) * 1099511628211) 14695981039346656037 b"

definition fnvHash :: "string \<Rightarrow> string" where
  "fnvHash b =
     map (\<lambda>i. hex_digit (unat (take_bit 4 (drop_bit (4 * (15 - i)) (fnv1a64 b))))) [0..<16]"

lemma length_fnvHash [simp]: "length (fnvHash b) = 16"
  by (simp add: fnvHash_def)

lemma byte_hex_digit: "n < 16 \<Longrightarrow> byte (hex_digit n) = (if n < 10 then 48 + n else 87 + n)"
  by (simp add: hex_digit_def)

lemma hex_digit_ok: "n < 16 \<Longrightarrow> \<not> hash_match (byte (hex_digit n)) \<and> byte (hex_digit n) < 128"
  by (simp add: byte_hex_digit hash_match_def)

lemma unat_nibble: "unat (take_bit 4 (w :: 64 word)) < 16"
  using take_bit_nat_less_exp[of 4 "unat w"] by (simp add: unsigned_take_bit_eq)

lemma fnvHash_hex:
  assumes "c \<in> set (fnvHash b)"
  shows "\<not> hash_match (byte c)" "byte c < 128"
  using assms hex_digit_ok unat_nibble by (auto simp: fnvHash_def)

section \<open>ToRFC1123\<close>

text \<open>The loop that removes consecutive hyphens ends because a replacement shortens the string.\<close>

lemma length_replace_all:
  assumes "length new < length old"
  shows "length (replace_all old new s) \<le> length s \<and>
    (contains s old \<longrightarrow> length (replace_all old new s) < length s)"
  using assms
proof (induction old new s rule: replace_all.induct)
  case (1 old new s)
  show ?case
  proof (cases "old = [] \<or> length s < length old")
    case True
    with 1 show ?thesis
      by (auto simp: replace_all.simps[of old new s] contains_iff_append)
  next
    case False
    show ?thesis
    proof (cases "take (length old) s = old")
      case True
      with False 1 have "length (replace_all old new (drop (length old) s)) \<le> length s - length old"
        by auto
      moreover from True False have "replace_all old new s = new @ replace_all old new (drop (length old) s)"
        by (simp add: replace_all.simps[of old new s])
      ultimately show ?thesis using False 1(3) by auto
    next
      case nomatch: False
      from False have s: "s = hd s # tl s" by (cases s) auto
      from nomatch have "contains s old \<longrightarrow> contains (tl s) old"
        by (subst s) (metis contains_def option.simps(3) str_index.simps(2) option.map_disc_iff s)
      moreover have "replace_all old new s = hd s # replace_all old new (tl s)"
        using False nomatch by (simp add: replace_all.simps[of old new s])
      moreover have "length s = Suc (length (tl s))" by (subst s) simp
      ultimately show ?thesis using 1(2)[OF False nomatch 1(3)] by auto
    qed
  qed
qed

function collapse :: "string \<Rightarrow> string" where
  "collapse r = (if contains r ''--'' then collapse (replace_all ''--'' ''-'' r) else r)"
  by pat_completeness auto
termination
  by (relation "measure length") (auto simp: length_replace_all)

declare collapse.simps [simp del]

definition label_rune :: "nat \<Rightarrow> nat" where
  "label_rune r = (if (97 \<le> r \<and> r \<le> 122) \<or> (48 \<le> r \<and> r \<le> 57) \<or> r = 45 then r else 45)"

text \<open>Lower case, invalid characters to hyphens, hyphens at the ends and in runs removed.\<close>

definition sanitize :: "string \<Rightarrow> string" where
  "sanitize s =
     (let result = to_lower s;
          result = strings_map label_rune result;
          result = trim_set {CHR ''-''} result
      in collapse result)"

text \<open>The parts before the hash, and the hash (empty when the last part is not one).\<close>

definition split_hash :: "string \<Rightarrow> string \<times> string" where
  "split_hash result =
     (let parts = split_on (CHR ''-'') result;
          parts = (if length parts = 1 \<and> isHashHex (hd parts) then CDK8sUnknown # parts else parts);
          pre = join_with ''-'' (butlast parts);
          hash = last parts
      in if \<not> isHashHex hash then (pre @ ''-'' @ hash, []) else (pre, hash))"

fun range_find :: "(nat \<Rightarrow> bool) \<Rightarrow> (nat \<times> string) list \<Rightarrow> nat \<Rightarrow> nat option" where
  "range_find P [] i = None"
| "range_find P ((r, bs) # xs) i = (if P r then Some i else range_find P xs (i + length bs))"

text \<open>The prefix is made to start with a letter.\<close>

definition letter_prefix :: "string \<Rightarrow> string" where
  "letter_prefix pre =
     (if pre \<noteq> [] \<and> \<not> isLowercaseLetter (byte (hd pre)) then
        (case range_find isLowercaseLetter (segments pre) 0 of
           None \<Rightarrow> CDK8sUnknown @ ''-'' @ fnvHash pre
         | Some i \<Rightarrow> drop i pre)
      else pre)"

text \<open>
  The last 63 characters of a result that is too long.  (The suffix \<open>-crib\<close> the code appends to a
  hash that does not end in a letter or digit is assigned to a variable that is not read again, so
  it has no effect on the result.)
\<close>

definition shorten :: "string \<Rightarrow> string" where
  "shorten result =
     (if length result \<le> 63 then result
      else
        let result = drop (length result - 63) result in
        if result \<noteq> [] \<and> \<not> isLowercaseLetter (byte (hd result)) then ''id-'' @ drop 3 result
        else result)"

definition ToRFC1123 :: "string \<Rightarrow> string" where
  "ToRFC1123 ident0 =
     (let ident = trim_space ident0 in
      if ident = [] then CDK8sUnknown
      else if ident \<in> {CDK8sResource, CDK8sDefault} then to_lower ident
      else
        let result = sanitize ident in
        if result = [] then CDK8sUnknown
        else
          let (pre, hash) = split_hash result;
              pre = letter_prefix pre;
              result = trim_set {CHR ''-''} (pre @ ''-'' @ hash)
          in shorten result)"

section \<open>ResourceID and ExtractResource\<close>

text \<open>
  What \<open>encode\<close> can find out about a value: whether it is a string or bytes, what the JSON and gob
  encoders write for it (\<open>None\<close> is an error), its \<open>String()\<close>, and spew's dump.
\<close>

record encodable =
  as_string :: "string option"
  as_bytes :: "string option"
  json_out :: "string option"
  gob_out :: "string option"
  stringer :: "string option"
  spew_out :: string

definition trim_newline :: "string \<Rightarrow> string" where
  "trim_newline b = (if b \<noteq> [] \<and> last b = CHR 0x0A then butlast b else b)"

definition encode :: "encodable \<Rightarrow> string option" where
  "encode v =
     (case as_string v of Some s \<Rightarrow> Some s | None \<Rightarrow>
     (case as_bytes v of Some b \<Rightarrow> Some b | None \<Rightarrow>
     (case json_out v of Some j \<Rightarrow> Some (trim_newline j) | None \<Rightarrow>
     (case gob_out v of Some g \<Rightarrow> Some g | None \<Rightarrow>
      if (case stringer v of Some str \<Rightarrow> str \<noteq> [] | None \<Rightarrow> False) then stringer v
      else if spew_out v \<noteq> [] then Some (spew_out v)
      else None))))"

definition ResourceID :: "string \<Rightarrow> encodable \<Rightarrow> string option" where
  "ResourceID pre0 props =
     (let pre = trim_space pre0 in
      if pre = CDK8sResource \<or> pre = CDK8sDefault then Some pre
      else
        let pre = (if pre = [] then CDK8sUnknown else pre) in
        (case encode props of
           None \<Rightarrow> None
         | Some b \<Rightarrow> Some (pre @ ''-'' @ take 8 (fnvHash b))))"

definition ExtractResource :: "string option \<Rightarrow> string" where
  "ExtractResource ident =
     (case ident of
        None \<Rightarrow> CDK8sUnknown
      | Some str \<Rightarrow>
          if str = [] then CDK8sUnknown
          else
            let parts = split_on (CHR ''-'') str in
            if length parts = 1 then str
            else if \<not> isHashHex (last parts) then str
            else join_with ''-'' (butlast parts))"

section \<open>The result is a label\<close>

definition label_char :: "char \<Rightarrow> bool" where
  "label_char c = (isAlphanumericLowercase (byte c) \<or> c = CHR ''-'')"

definition dns1035_label :: "string \<Rightarrow> bool" where
  "dns1035_label s =
     (s \<noteq> [] \<and> length s \<le> 63 \<and> isLowercaseLetter (byte (hd s))
      \<and> isAlphanumericLowercase (byte (last s)) \<and> (\<forall>c \<in> set s. label_char c))"

lemma label_rune_lt: "label_rune r < 128"
  by (simp add: label_rune_def)

lemma label_char_rune: "label_char (char_of (label_rune r))"
proof -
  have "byte (char_of (label_rune r)) = label_rune r"
    using label_rune_lt[of r] by simp
  moreover have "label_rune r = 45 \<or> isAlphanumericLowercase (label_rune r)"
    by (simp add: label_rune_def isAlphanumericLowercase_def)
  moreover have "char_of (45::nat) = CHR ''-''" by code_simp
  ultimately show ?thesis by (auto simp: label_char_def)
qed

lemma label_char_ascii: "label_char c \<Longrightarrow> byte c < 128"
  by (auto simp: label_char_def isAlphanumericLowercase_def)

lemma label_chars_ascii: "\<forall>c \<in> set s. label_char c \<Longrightarrow> ascii s"
  by (simp add: ascii_def label_char_ascii)

lemma label_char_not_hyphen: "label_char c \<Longrightarrow> c \<noteq> CHR ''-'' \<Longrightarrow> isAlphanumericLowercase (byte c)"
  by (simp add: label_char_def)

lemma set_replace_all: "set (replace_all old new s) \<subseteq> set new \<union> set s"
proof (induction old new s rule: replace_all.induct)
  case (1 old new s)
  show ?case
  proof (cases "old = [] \<or> length s < length old")
    case True
    then show ?thesis by (simp add: replace_all.simps[of old new s])
  next
    case False
    then have s: "set (tl s) \<subseteq> set s" "hd s \<in> set s" by (cases s; auto)+
    show ?thesis
    proof (cases "take (length old) s = old")
      case True
      with False 1(1) show ?thesis
        by (auto simp: replace_all.simps[of old new s] dest!: in_set_dropD)
    next
      case nomatch: False
      with False 1(2) s show ?thesis
        by (auto simp: replace_all.simps[of old new s])
    qed
  qed
qed

lemma replace_hyphens_ends:
  "s \<noteq> [] \<Longrightarrow> replace_all ''--'' ''-'' s \<noteq> [] \<and> hd (replace_all ''--'' ''-'' s) = hd s
     \<and> last (replace_all ''--'' ''-'' s) = last s"
proof (induction s rule: length_induct)
  case (1 s)
  show ?case
  proof (cases "take 2 s = ''--''")
    case True
    then obtain t where s: "s = ''--'' @ t"
      by (metis append_take_drop_id)
    have "replace_all ''--'' ''-'' s = ''-'' @ replace_all ''--'' ''-'' t"
      by (subst replace_all.simps) (simp add: s)
    with 1 s show ?thesis
      by (cases "t = []") (auto simp: replace_all.simps[of "''--''" "''-''" "[]"])
  next
    case False
    obtain c t where s: "s = c # t" using 1(2) by (cases s) auto
    show ?thesis
    proof (cases "t = []")
      case True
      with s show ?thesis by (simp add: replace_all.simps[of _ _ "[c]"])
    next
      case tne: False
      with s False have "replace_all ''--'' ''-'' s = c # replace_all ''--'' ''-'' t"
        by (subst replace_all.simps) (cases t, auto)
      with 1 s tne show ?thesis by auto
    qed
  qed
qed

lemma collapse_set: "set (collapse s) \<subseteq> insert (CHR ''-'') (set s)"
proof (induction s rule: collapse.induct)
  case (1 r)
  show ?case
  proof (cases "contains r ''--''")
    case True
    with 1 set_replace_all[of "''--''" "''-''" r] show ?thesis
      by (subst collapse.simps) auto
  next
    case False
    then show ?thesis by (subst collapse.simps) auto
  qed
qed

lemma collapse_ends:
  "s \<noteq> [] \<Longrightarrow> collapse s \<noteq> [] \<and> hd (collapse s) = hd s \<and> last (collapse s) = last s"
proof (induction s rule: collapse.induct)
  case (1 r)
  then show ?case
    by (subst (1 2 3) collapse.simps) (auto simp: replace_hyphens_ends)
qed

lemma collapse_Nil [simp]: "collapse [] = []"
  by (subst collapse.simps) (simp add: contains_def)

lemma collapse_no_run: "\<not> contains (collapse s) ''--''"
proof (induction s rule: collapse.induct)
  case (1 r)
  then show ?case by (subst collapse.simps) auto
qed

lemma collapse_id: "\<not> contains s ''--'' \<Longrightarrow> collapse s = s"
  by (subst collapse.simps) simp

text \<open>What \<open>sanitize\<close> leaves: label characters, no hyphen at either end.\<close>

lemma sanitize_chars: "\<forall>c \<in> set (sanitize s). label_char c"
proof -
  have hyphen: "label_char (CHR ''-'')" by (simp add: label_char_def)
  have "\<forall>c \<in> set (strings_map label_rune (to_lower s)). label_char c"
    by (auto simp: strings_map_ascii label_rune_lt label_char_rune)
  then have "\<forall>c \<in> set (trim_set {CHR ''-''} (strings_map label_rune (to_lower s))). label_char c"
    using set_trim_set by blast
  with hyphen show ?thesis
    unfolding sanitize_def Let_def using collapse_set by blast
qed

lemma sanitize_hd:
  assumes "sanitize s \<noteq> []" shows "hd (sanitize s) \<noteq> CHR ''-''"
proof -
  let ?t = "trim_set {CHR ''-''} (strings_map label_rune (to_lower s))"
  have "?t \<noteq> []" using assms by (auto simp: sanitize_def)
  then show ?thesis
    using trim_set_hd[of "{CHR ''-''}" "strings_map label_rune (to_lower s)"] collapse_ends[of ?t]
    by (simp add: sanitize_def)
qed

lemma isHashHex_Nil [simp]: "\<not> isHashHex []"
  by (simp add: isHashHex_def)

lemma join_butlast_last:
  assumes "split_on d s = ps" "butlast ps \<noteq> []"
  shows "join_with [d] (butlast ps) @ [d] @ last ps = s"
proof -
  have "ps \<noteq> []" using assms(2) by auto
  then have "join_with [d] ps = join_with [d] (butlast ps) @ [d] @ last ps"
    using assms(2) join_with_snoc[of "butlast ps" "[d]" "last ps"] by simp
  with assms(1) show ?thesis using join_split[of d s] by simp
qed

lemma join_label_chars:
  assumes "\<forall>p \<in> set ps. \<forall>c \<in> set p. label_char c" and "label_char (CHR ''-'')"
  shows "\<forall>c \<in> set (join_with ''-'' ps). label_char c"
proof
  fix c assume "c \<in> set (join_with ''-'' ps)"
  then have "c = CHR ''-'' \<or> (\<exists>p \<in> set ps. c \<in> set p)"
    using set_join_with[of "''-''" ps] by auto
  with assms show "label_char c" by auto
qed

text \<open>The prefix is not empty and the two parts keep to label characters.\<close>

lemma split_hash_chars:
  assumes "split_hash r = (pre, h)" and "r \<noteq> []" and "hd r \<noteq> CHR ''-''"
    and "\<forall>c \<in> set r. label_char c"
  shows "pre \<noteq> [] \<and> (\<forall>c \<in> set pre. label_char c) \<and> (\<forall>c \<in> set h. label_char c)"
proof -
  let ?raw = "split_on (CHR ''-'') r"
  let ?parts = "if length ?raw = 1 \<and> isHashHex (hd ?raw) then CDK8sUnknown # ?raw else ?raw"
  have hyphen: "label_char (CHR ''-'')" by (simp add: label_char_def)
  have unk: "\<forall>c \<in> set CDK8sUnknown. label_char c"
    by (simp add: CDK8sUnknown_def label_char_def isAlphanumericLowercase_def)
  have chars0: "\<forall>p \<in> set ?raw. \<forall>c \<in> set p. label_char c"
    using assms(4) split_on_subset[of _ "CHR ''-''" r] by blast
  then have chars: "\<forall>p \<in> set ?parts. \<forall>c \<in> set p. label_char c" using unk by auto
  have ne: "?parts \<noteq> []" by simp
  have last_chars: "\<forall>c \<in> set (last ?parts). label_char c"
    using chars last_in_set[OF ne] by blast
  have but_chars: "\<forall>c \<in> set (join_with ''-'' (butlast ?parts)). label_char c"
    using chars hyphen by (intro join_label_chars) (auto dest: in_set_butlastD)
  show ?thesis
  proof (cases "isHashHex (last ?parts)")
    case False
    with assms(1) have "pre = join_with ''-'' (butlast ?parts) @ ''-'' @ last ?parts" "h = []"
      by (auto simp: split_hash_def Let_def split: if_splits)
    with but_chars last_chars hyphen show ?thesis by auto
  next
    case True
    with assms(1) have pre: "pre = join_with ''-'' (butlast ?parts)" and h: "h = last ?parts"
      by (auto simp: split_hash_def Let_def split: if_splits)
    have "hd ?parts \<noteq> []"
      using hd_split_on[of r "CHR ''-''"] assms(2,3) by (auto simp: CDK8sUnknown_def)
    moreover have len: "length ?parts \<noteq> 1"
    proof
      assume one: "length ?parts = 1"
      then have "length ?raw = 1" "\<not> isHashHex (hd ?raw)" by (auto split: if_splits)
      moreover from this have "last ?parts = hd ?raw" by (cases ?raw) auto
      ultimately show False using True by simp
    qed
    obtain p qs where pq: "?parts = p # qs" using ne by (cases ?parts) auto
    with len obtain q ps where "?parts = p # q # ps" by (cases qs) auto
    ultimately have "join_with ''-'' (butlast ?parts) \<noteq> []"
      by (cases "butlast (q # ps)") auto
    with pre h but_chars last_chars show ?thesis by auto
  qed
qed

lemma range_find_ascii:
  assumes "range_find P (map (\<lambda>c. (byte c, [c])) s) i = Some j"
  shows "i \<le> j \<and> j - i < length s \<and> P (byte (s ! (j - i)))"
  using assms
proof (induction s arbitrary: i)
  case (Cons c s)
  show ?case
  proof (cases "P (byte c)")
    case True
    with Cons.prems show ?thesis by simp
  next
    case False
    with Cons.prems Cons.IH[of "Suc i"] show ?thesis
      by (auto simp: Suc_diff_le Suc_le_eq nth_Cons' dest!: Suc_diff_Suc)
  qed
qed simp

lemma letter_prefix_label:
  assumes "pre \<noteq> []" and "\<forall>c \<in> set pre. label_char c"
  shows "letter_prefix pre \<noteq> [] \<and> isLowercaseLetter (byte (hd (letter_prefix pre)))
    \<and> (\<forall>c \<in> set (letter_prefix pre). label_char c)"
proof (cases "isLowercaseLetter (byte (hd pre))")
  case True
  with assms show ?thesis by (simp add: letter_prefix_def)
next
  case False
  have seg: "segments pre = map (\<lambda>c. (byte c, [c])) pre"
    using assms(2) by (intro segments_ascii label_chars_ascii)
  show ?thesis
  proof (cases "range_find isLowercaseLetter (segments pre) 0")
    case None
    have "\<forall>c \<in> set (fnvHash pre). label_char c"
    proof
      fix c assume "c \<in> set (fnvHash pre)"
      then have "\<not> hash_match (byte c)" by (rule fnvHash_hex)
      then show "label_char c" by (auto simp: label_char_def isAlphanumericLowercase_def hash_match_def)
    qed
    with None False assms(1) show ?thesis
      by (auto simp: letter_prefix_def CDK8sUnknown_def isLowercaseLetter_def label_char_def
          isAlphanumericLowercase_def)
  next
    case (Some i)
    then have i: "i < length pre" "isLowercaseLetter (byte (pre ! i))"
      using range_find_ascii[of isLowercaseLetter pre 0 i] seg by auto
    with Some False assms show ?thesis
      by (auto simp: letter_prefix_def hd_drop_conv_nth dest: in_set_dropD)
  qed
qed

lemma lowercase_alnum: "isLowercaseLetter r \<Longrightarrow> isAlphanumericLowercase r"
  by (simp add: isLowercaseLetter_def isAlphanumericLowercase_def)

lemma lowercase_not_hyphen: "isLowercaseLetter (byte c) \<Longrightarrow> c \<noteq> CHR ''-''"
  by (auto simp: isLowercaseLetter_def)

lemma trimmed_label:
  assumes "pre \<noteq> []" "isLowercaseLetter (byte (hd pre))"
    and "\<forall>c \<in> set pre. label_char c" "\<forall>c \<in> set h. label_char c"
  defines "t \<equiv> trim_set {CHR ''-''} (pre @ ''-'' @ h)"
  shows "t \<noteq> []" "isLowercaseLetter (byte (hd t))" "isAlphanumericLowercase (byte (last t))"
    "\<forall>c \<in> set t. label_char c"
proof -
  have "hd (pre @ ''-'' @ h) \<notin> {CHR ''-''}"
    using assms(1,2) lowercase_not_hyphen by simp
  from trim_set_hd_keep[OF _ this] assms(1)
  show ne: "t \<noteq> []" and "isLowercaseLetter (byte (hd t))"
    using assms(2) by (auto simp: t_def)
  show chars: "\<forall>c \<in> set t. label_char c"
  proof
    fix c assume "c \<in> set t"
    then have "c \<in> set (pre @ ''-'' @ h)" unfolding t_def using set_trim_set by blast
    then show "label_char c" using assms(3,4) by (auto simp: label_char_def)
  qed
  have "last t \<noteq> CHR ''-''"
    using trim_set_last[of "{CHR ''-''}" "pre @ ''-'' @ h"] ne by (simp add: t_def)
  with chars ne show "isAlphanumericLowercase (byte (last t))"
    by (simp add: label_char_not_hyphen)
qed

lemma shorten_label:
  assumes "t \<noteq> []" "isLowercaseLetter (byte (hd t))" "isAlphanumericLowercase (byte (last t))"
    and "\<forall>c \<in> set t. label_char c"
  shows "dns1035_label (shorten t)"
proof (cases "length t \<le> 63")
  case True
  with assms show ?thesis by (simp add: shorten_def dns1035_label_def)
next
  case False
  let ?u = "drop (length t - 63) t"
  have len: "length ?u = 63" using False by simp
  have lst: "last ?u = last t" using False by simp
  have chars: "\<forall>c \<in> set ?u. label_char c" using assms(4) by (auto dest: in_set_dropD)
  show ?thesis
  proof (cases "isLowercaseLetter (byte (hd ?u))")
    case True
    with False assms(3) len lst chars show ?thesis
      by (auto simp: shorten_def dns1035_label_def Let_def)
  next
    case nl: False
    have l3: "length (drop 3 ?u) = 60" using len by simp
    then have "drop 3 ?u \<noteq> []" by (metis list.size(3) zero_neq_numeral)
    then have "last (drop 3 ?u) = last t" using lst by (metis last_drop drop_eq_Nil not_le)
    moreover have "\<forall>c \<in> set (drop 3 ?u). label_char c" using chars by (blast dest: in_set_dropD)
    moreover have "shorten t = ''id-'' @ drop 3 ?u"
      using False nl len by (simp add: shorten_def Let_def)
    ultimately show ?thesis
      using \<open>drop 3 ?u \<noteq> []\<close> assms(3) len
      by (simp add: dns1035_label_def isLowercaseLetter_def label_char_def
          isAlphanumericLowercase_def)
  qed
qed

section \<open>The properties of the names\<close>

lemma ToRFC1123_is_label: "dns1035_label (ToRFC1123 s)"
proof -
  let ?t = "trim_space s"
  let ?r = "sanitize ?t"
  have unknown: "dns1035_label CDK8sUnknown"
    by (simp add: dns1035_label_def CDK8sUnknown_def isLowercaseLetter_def
        isAlphanumericLowercase_def label_char_def)
  have lower: "to_lower CDK8sResource = ''resource''" "to_lower CDK8sDefault = ''default''"
    by (simp_all add: to_lower_def strings_map_def runes_ascii ascii_def CDK8sResource_def
        CDK8sDefault_def to_lower_rune_def char_of_eq_iff)
  have magic: "dns1035_label (to_lower CDK8sResource)" "dns1035_label (to_lower CDK8sDefault)"
    unfolding lower
    by (simp_all add: dns1035_label_def isLowercaseLetter_def isAlphanumericLowercase_def
        label_char_def)
  show ?thesis
  proof (cases "?t = [] \<or> ?t \<in> {CDK8sResource, CDK8sDefault} \<or> ?r = []")
    case True
    with unknown magic show ?thesis by (auto simp: ToRFC1123_def Let_def)
  next
    case False
    obtain pre h where ph: "split_hash ?r = (pre, h)" by fastforce
    have "pre \<noteq> [] \<and> (\<forall>c \<in> set pre. label_char c) \<and> (\<forall>c \<in> set h. label_char c)"
      using split_hash_chars[OF ph] False sanitize_hd sanitize_chars by blast
    with letter_prefix_label[of pre]
    have "dns1035_label (shorten (trim_set {CHR ''-''} (letter_prefix pre @ ''-'' @ h)))"
      using shorten_label[OF trimmed_label[of "letter_prefix pre" h]] by blast
    with False ph show ?thesis by (simp add: ToRFC1123_def Let_def)
  qed
qed

text \<open>
  Whatever string it is given, \<open>ToRFC1123\<close> returns a valid DNS-1035 label: not empty, at most
  63 characters, a lower-case letter first, a lower-case letter or digit last, and only lower-case
  letters, digits and hyphens in between.
\<close>

theorem ToRFC1123_label: "dns1035_label (ToRFC1123 s)"
  by (rule ToRFC1123_is_label)

subsection \<open>Names that are already labels are kept\<close>

lemma label_rune_id: "label_char c \<Longrightarrow> char_of (label_rune (byte c)) = c"
  by (auto simp: label_char_def label_rune_def isAlphanumericLowercase_def)

lemma label_to_lower: "\<forall>c \<in> set s. label_char c \<Longrightarrow> to_lower s = s"
proof -
  assume h: "\<forall>c \<in> set s. label_char c"
  have low: "to_lower_rune (byte c) = byte c" if "label_char c" for c
    using that by (auto simp: to_lower_rune_def label_char_def isAlphanumericLowercase_def)
  have enc: "encode_rune (byte c) = [c]" if "label_char c" for c
    using label_char_ascii[OF that] by simp
  from h have "concat (map (\<lambda>r. encode_rune (to_lower_rune r)) (map byte s)) = s"
    by (induction s) (auto simp: low enc)
  then show ?thesis
    using h by (simp add: to_lower_def strings_map_def runes_ascii label_chars_ascii)
qed

lemma label_strings_map: "\<forall>c \<in> set s. label_char c \<Longrightarrow> strings_map label_rune s = s"
  by (simp add: strings_map_ascii label_rune_lt runes_ascii label_chars_ascii label_rune_id
      map_idI)

lemma label_not_space: "label_char c \<Longrightarrow> \<not> is_space_rune (byte c)"
  by (auto simp: is_space_rune_def label_char_def isAlphanumericLowercase_def)

lemma label_trim_space: "\<forall>c \<in> set s. label_char c \<Longrightarrow> trim_space s = s"
proof -
  assume h: "\<forall>c \<in> set s. label_char c"
  let ?g = "map (\<lambda>c. (byte c, [c])) s"
  have "dropWhile (\<lambda>x. is_space_rune (fst x)) ?g = ?g"
    and "dropWhile (\<lambda>x. is_space_rune (fst x)) (rev ?g) = rev ?g"
    using h label_not_space by (auto intro!: dropWhile_hd_same simp: hd_rev last_map hd_map)
  moreover have "segments s = ?g" using h by (simp add: segments_ascii label_chars_ascii)
  ultimately show ?thesis
    using concat_segments[of s] by (simp add: trim_space_def del: map_map)
qed

lemma label_sanitize:
  assumes "dns1035_label s" "\<not> contains s ''--''"
  shows "sanitize s = s"
proof -
  have chars: "\<forall>c \<in> set s. label_char c" using assms(1) by (simp add: dns1035_label_def)
  have "hd s \<noteq> CHR ''-''" "last s \<noteq> CHR ''-''"
    using assms(1) by (auto simp: dns1035_label_def isLowercaseLetter_def isAlphanumericLowercase_def)
  then have "trim_set {CHR ''-''} s = s" by (intro trim_set_id) simp
  with chars assms(2) show ?thesis
    by (simp add: sanitize_def label_to_lower label_strings_map collapse_id)
qed

lemma label_not_magic: "dns1035_label s \<Longrightarrow> s \<notin> {CDK8sResource, CDK8sDefault} \<and> s \<noteq> []"
  by (auto simp: dns1035_label_def CDK8sResource_def CDK8sDefault_def isLowercaseLetter_def)

lemma split_hash_rejoin:
  assumes "s \<noteq> []" "\<not> isHashHex s" "split_hash s = (pre, h)"
  shows "(h = [] \<and> (pre = s \<or> pre = ''-'' @ s)) \<or> (h \<noteq> [] \<and> pre @ ''-'' @ h = s \<and> pre \<noteq> s)"
proof -
  let ?raw = "split_on (CHR ''-'') s"
  show ?thesis
  proof (cases "length ?raw = 1")
    case True
    then obtain q where q: "?raw = [q]" by (cases ?raw) auto
    then have "q = s" using join_split[of "CHR ''-''" s] by simp
    with q assms(2,3) show ?thesis by (auto simp: split_hash_def Let_def)
  next
    case False
    then have but: "butlast ?raw \<noteq> []" by (cases ?raw) (auto split: if_splits)
    have whole: "join_with ''-'' (butlast ?raw) @ ''-'' @ last ?raw = s"
      using join_butlast_last[OF refl but] .
    show ?thesis
    proof (cases "isHashHex (last ?raw)")
      case True
      then have "last ?raw \<noteq> []" by auto
      with True False whole assms(3) show ?thesis
        by (auto simp: split_hash_def Let_def)
    next
      case nohash: False
      with False whole assms(3) show ?thesis by (auto simp: split_hash_def Let_def)
    qed
  qed
qed

lemma label_hd_last:
  "dns1035_label s \<Longrightarrow> hd s \<noteq> CHR ''-'' \<and> last s \<noteq> CHR ''-'' \<and> s \<noteq> []"
  by (auto simp: dns1035_label_def isLowercaseLetter_def isAlphanumericLowercase_def)

lemma letter_prefix_hyphen:
  assumes "dns1035_label s" shows "letter_prefix (''-'' @ s) = s"
proof -
  have h: "isLowercaseLetter (byte (hd s))" "s \<noteq> []" using assms by (auto simp: dns1035_label_def)
  have "\<forall>c \<in> set (''-'' @ s). label_char c" using assms by (auto simp: dns1035_label_def label_char_def)
  then have "segments (''-'' @ s) = map (\<lambda>c. (byte c, [c])) (''-'' @ s)"
    by (intro segments_ascii label_chars_ascii)
  then have "range_find isLowercaseLetter (segments (''-'' @ s)) 0 = Some 1"
    using h by (cases s) (auto simp: isLowercaseLetter_def)
  then show ?thesis using h by (simp add: letter_prefix_def isLowercaseLetter_def)
qed

lemma letter_prefix_lower: "pre \<noteq> [] \<Longrightarrow> isLowercaseLetter (byte (hd pre)) \<Longrightarrow> letter_prefix pre = pre"
  by (simp add: letter_prefix_def)

text \<open>
  \<open>ToRFC1123\<close> is stable: a name that already is a DNS-1035 label, has no doubled hyphen
  and is not a bare hash is returned unchanged, so resolving a name a second time does not rename
  the resource.
\<close>

theorem ToRFC1123_stable:
  assumes "dns1035_label s" and "\<not> contains s ''--''" and "\<not> isHashHex s"
  shows "ToRFC1123 s = s"
proof -
  have trim: "trim_space s = s" using assms(1) by (simp add: label_trim_space dns1035_label_def)
  have len: "length s \<le> 63" and lower: "isLowercaseLetter (byte (hd s))" and ne: "s \<noteq> []"
    using assms(1) by (auto simp: dns1035_label_def)
  obtain pre h where ph: "split_hash s = (pre, h)" by fastforce
  have "trim_set {CHR ''-''} (letter_prefix pre @ ''-'' @ h) = s"
  proof (cases "h = []")
    case True
    then have "letter_prefix pre = s"
      using split_hash_rejoin[OF ne assms(3) ph] letter_prefix_hyphen[OF assms(1)]
        letter_prefix_lower[OF ne lower] by auto
    moreover have "trim_set {CHR ''-''} (s @ ''-'') = s"
      using label_hd_last[OF assms(1)]
      by (simp add: trim_set_def dropWhile_hd_same hd_rev)
    ultimately show ?thesis using True by simp
  next
    case False
    then have s: "pre @ ''-'' @ h = s" using split_hash_rejoin[OF ne assms(3) ph] by auto
    then have "pre \<noteq> []" using label_hd_last[OF assms(1)] by auto
    with s lower have "letter_prefix pre = pre" by (metis hd_append2 letter_prefix_lower)
    with s show ?thesis using label_hd_last[OF assms(1)] by (simp add: trim_set_id)
  qed
  then show ?thesis
    using label_sanitize[OF assms(1,2)] label_not_magic[OF assms(1)] ph len
    by (simp add: ToRFC1123_def trim shorten_def)
qed

lemma label_example: "dns1035_label ''helm-chart-1bbec390''" "\<not> contains ''helm-chart-1bbec390'' ''--''"
    "\<not> isHashHex ''helm-chart-1bbec390''"
  by (simp_all add: dns1035_label_def isLowercaseLetter_def isAlphanumericLowercase_def
      label_char_def contains_def isHashHex_def)

theorem ToRFC1123_stable_witness: "ToRFC1123 ''helm-chart-1bbec390'' = ''helm-chart-1bbec390''"
  by (rule ToRFC1123_stable[OF label_example])

subsection \<open>The prefix survives in a resource id\<close>

lemma isHashHex_take_fnvHash: "isHashHex (take 8 (fnvHash b))"
proof -
  have "ascii (take 8 (fnvHash b))"
    using fnvHash_hex(2)[of _ b] by (auto simp: ascii_def dest: in_set_takeD)
  then show ?thesis
    using fnvHash_hex(1)[of _ b] by (auto simp: isHashHex_def runes_ascii dest: in_set_takeD)
qed

lemma isHashHex_no_hyphen: "isHashHex h \<Longrightarrow> ascii h \<Longrightarrow> CHR ''-'' \<notin> set h"
  by (auto simp: isHashHex_def runes_ascii hash_match_def)

text \<open>
  A resource id can be taken apart again: for every prefix and every props that can be
  encoded, \<open>ExtractResource\<close> of \<open>ResourceID\<close> is the trimmed prefix (\<open>unknown\<close> for an empty
  one), whatever hyphens the prefix has.
\<close>

theorem ExtractResource_ResourceID:
  assumes "ResourceID p props = Some rid"
  shows "ExtractResource (Some rid)
    = (if trim_space p = [] then CDK8sUnknown else trim_space p)"
proof (cases "trim_space p = CDK8sResource \<or> trim_space p = CDK8sDefault")
  case True
  with assms show ?thesis
    by (auto simp: ResourceID_def ExtractResource_def CDK8sResource_def CDK8sDefault_def)
next
  case False
  let ?p = "if trim_space p = [] then CDK8sUnknown else trim_space p"
  from False assms obtain b where rid: "rid = ?p @ CHR ''-'' # take 8 (fnvHash b)"
    by (auto simp: ResourceID_def Let_def split: option.splits if_splits)
  let ?h = "take 8 (fnvHash b)"
  have "ascii ?h" using fnvHash_hex(2)[of _ b] by (auto simp: ascii_def dest: in_set_takeD)
  then have "split_on (CHR ''-'') rid = split_on (CHR ''-'') ?p @ [?h]"
    using split_on_absent[OF isHashHex_no_hyphen[OF isHashHex_take_fnvHash[of b]]]
    by (simp only: rid split_on_append)
  then show ?thesis
    using isHashHex_take_fnvHash[of b] rid by (simp add: ExtractResource_def Let_def)
qed

theorem ExtractResource_ResourceID_witness:
  "\<exists>rid. ResourceID ''sdk.Namespace'' \<lparr>as_string = None, as_bytes = None, json_out = Some ''{}'',
        gob_out = None, stringer = None, spew_out = []\<rparr> = Some rid
     \<and> ExtractResource (Some rid) = trim_space ''sdk.Namespace''"
proof -
  let ?v = "\<lparr>as_string = None, as_bytes = None, json_out = Some ''{}'', gob_out = None,
    stringer = None, spew_out = []\<rparr>"
  have t: "trim_space ''sdk.Namespace'' = ''sdk.Namespace''"
    by (simp add: trim_space_def segments_ascii ascii_def is_space_rune_def)
  have "ResourceID ''sdk.Namespace'' ?v
      = Some (''sdk.Namespace'' @ ''-'' @ take 8 (fnvHash ''{}''))"
    unfolding ResourceID_def Let_def t
    by (simp add: encode_def trim_newline_def CDK8sResource_def CDK8sDefault_def char_of_eq_iff)
  with ExtractResource_ResourceID[OF this] show ?thesis by (auto simp: t)
qed

end
