(* ===== verification/PlanDag.thy ===== *)
theory PlanDag
  imports Infra
begin

text \<open>
  Plans and the resolution of their dependency graph: crib/plan.go.  Plans are pointers into a
  heap; a child function is modelled by the plan pointer it returns when \<open>Build\<close> calls it (every
  occurrence is called at most once, because it is dropped from \<open>childFuncs\<close> afterwards).  The
  recursive closure \<open>resolveFn\<close> and its loop over the child functions are one mutual recursion over
  a fuel parameter; \<open>build_enough_fuel\<close> says that one unit more than the number of reachable plan
  names is enough.  A panic is a value of the result type.
\<close>

section \<open>Plans and their options\<close>

type_synonym ptr = nat

record ('c, 'r) plan =
  p_name :: string
  p_namespace :: string
  p_components :: "'c list"
  p_childPlans :: "ptr list"
  p_childFuncs :: "ptr list"
  p_resolvers :: "'r list"

type_synonym ('c, 'r) heap = "ptr \<Rightarrow> ('c, 'r) plan"

type_synonym ('c, 'r) plan_opt = "('c, 'r) plan \<Rightarrow> ('c, 'r) plan option"

definition DefaultNamespace :: string where "DefaultNamespace = ''default''"

definition AddPlan :: "ptr \<Rightarrow> ('c, 'r) plan_opt" where
  "AddPlan childPlan = (\<lambda>plan. Some (plan\<lparr>p_childFuncs := p_childFuncs plan @ [childPlan]\<rparr>))"

definition Namespace :: "string \<Rightarrow> ('c, 'r) plan_opt" where
  "Namespace ns =
     (\<lambda>p. if p_namespace p \<noteq> [] then None else Some (p\<lparr>p_namespace := ns\<rparr>))"

definition ComponentSet :: "'c list \<Rightarrow> ('c, 'r) plan_opt" where
  "ComponentSet cs = (\<lambda>p. Some (p\<lparr>p_components := p_components p @ cs\<rparr>))"

definition manifestResolvers :: "'r list \<Rightarrow> ('c, 'r) plan_opt" where
  "manifestResolvers rs = (\<lambda>p. Some (p\<lparr>p_resolvers := p_resolvers p @ rs\<rparr>))"

fun apply_opts :: "('c, 'r) plan_opt list \<Rightarrow> ('c, 'r) plan_opt" where
  "apply_opts [] p = Some p"
| "apply_opts (opt # opts) p = (case opt p of None \<Rightarrow> None | Some p' \<Rightarrow> apply_opts opts p')"

definition NewPlan :: "string \<Rightarrow> ('c, 'r) plan_opt list \<Rightarrow> ('c, 'r) plan option" where
  "NewPlan name opts =
     (case apply_opts opts \<lparr>p_name = name, p_namespace = [], p_components = [],
          p_childPlans = [], p_childFuncs = [], p_resolvers = []\<rparr> of
        None \<Rightarrow> None
      | Some plan \<Rightarrow>
          Some (if p_namespace plan = [] then plan\<lparr>p_namespace := DefaultNamespace\<rparr> else plan))"

section \<open>Build\<close>

text \<open>The arrows of \<open>renderCycle\<close>; the last one is U+27F3 in UTF-8.\<close>

fun render_frames :: "string list \<Rightarrow> string" where
  "render_frames [] = []"
| "render_frames [f] = '' '' @ f @ '' '' @ [CHR 0xE2, CHR 0x9F, CHR 0xB3]"
| "render_frames (f # g # fs) = '' '' @ f @ '' ->'' @ render_frames (g # fs)"

definition renderCycle :: "string list \<Rightarrow> string" where
  "renderCycle frames = ''Plan dependency cycle detected:'' @ [CHR 0x0A] @ render_frames frames"

record ('c, 'r) build_state =
  b_heap :: "('c, 'r) heap"
  b_visited :: "string set"
  b_stack :: "string \<Rightarrow> bool"
  b_frames :: "string list"

datatype ('c, 'r) build_result =
    Done "('c, 'r) build_state"
  | Panicked string
  | NoFuel

definition enter :: "ptr \<Rightarrow> ('c, 'r) build_state \<Rightarrow> ('c, 'r) build_state" where
  "enter p s = (let nm = p_name (b_heap s p) in
     s\<lparr>b_stack := (b_stack s)(nm := True), b_frames := b_frames s @ [nm]\<rparr>)"

definition leave :: "ptr \<Rightarrow> ('c, 'r) build_state \<Rightarrow> ('c, 'r) build_state" where
  "leave p s = (let nm = p_name (b_heap s p) in
     s\<lparr>b_frames := butlast (b_frames s),
       b_stack := (b_stack s)(nm := False),
       b_visited := insert nm (b_visited s),
       b_heap := (b_heap s)(p := (b_heap s p)\<lparr>p_childFuncs := []\<rparr>)\<rparr>)"

definition add_child :: "ptr \<Rightarrow> ptr \<Rightarrow> ('c, 'r) build_state \<Rightarrow> ('c, 'r) build_state" where
  "add_child p c s =
     s\<lparr>b_heap := (b_heap s)(p := (b_heap s p)\<lparr>p_childPlans := p_childPlans (b_heap s p) @ [c]\<rparr>)\<rparr>"

text \<open>
  \<open>resolveFn\<close> always returns its argument, so only the state is a result.  The loop ranges over the
  child functions the plan had when the loop started.
\<close>

function (sequential) resolveFn :: "nat \<Rightarrow> ptr \<Rightarrow> ('c, 'r) build_state \<Rightarrow> ('c, 'r) build_result"
and resolveChildren ::
    "nat \<Rightarrow> ptr \<Rightarrow> ptr list \<Rightarrow> ('c, 'r) build_state \<Rightarrow> ('c, 'r) build_result"
where
  "resolveFn 0 p s = NoFuel"
| "resolveFn (Suc n) p s =
     (let nm = p_name (b_heap s p) in
      if b_stack s nm then Panicked (renderCycle (b_frames s @ [nm]))
      else if nm \<in> b_visited s then Done s
      else
        (case resolveChildren n p (p_childFuncs (b_heap s p)) (enter p s) of
           Done s' \<Rightarrow> Done (leave p s')
         | Panicked m \<Rightarrow> Panicked m
         | NoFuel \<Rightarrow> NoFuel))"
| "resolveChildren n p [] s = Done s"
| "resolveChildren n p (c # cs) s =
     (case resolveFn n c s of
        Done s' \<Rightarrow> resolveChildren n p cs (add_child p c s')
      | Panicked m \<Rightarrow> Panicked m
      | NoFuel \<Rightarrow> NoFuel)"
  by pat_completeness auto
termination
  by (relation "measures [\<lambda>x. case x of Inl (n, _, _) \<Rightarrow> n | Inr (n, _, _, _) \<Rightarrow> n,
        \<lambda>x. case x of Inl _ \<Rightarrow> 0 | Inr (_, _, cs, _) \<Rightarrow> Suc (length cs)]") auto

definition init_build :: "('c, 'r) heap \<Rightarrow> ('c, 'r) build_state" where
  "init_build h = \<lparr>b_heap = h, b_visited = {}, b_stack = (\<lambda>_. False), b_frames = []\<rparr>"

definition Build :: "nat \<Rightarrow> ('c, 'r) heap \<Rightarrow> ptr \<Rightarrow> ('c, 'r) build_result" where
  "Build fuel h p = resolveFn fuel p (init_build h)"

section \<open>Frame lemmas\<close>

lemmas build_step_defs = enter_def leave_def add_child_def Let_def

lemma resolve_names:
  "resolveFn n p s = Done s' \<Longrightarrow>
     p_name (b_heap s' q) = p_name (b_heap s q) \<and> p_namespace (b_heap s' q) = p_namespace (b_heap s q)
     \<and> p_components (b_heap s' q) = p_components (b_heap s q)
     \<and> p_resolvers (b_heap s' q) = p_resolvers (b_heap s q)"
  "resolveChildren n p cs s = Done s' \<Longrightarrow>
     p_name (b_heap s' q) = p_name (b_heap s q) \<and> p_namespace (b_heap s' q) = p_namespace (b_heap s q)
     \<and> p_components (b_heap s' q) = p_components (b_heap s q)
     \<and> p_resolvers (b_heap s' q) = p_resolvers (b_heap s q)"
proof (induction n p s and n p cs s arbitrary: s' and s' rule: resolveFn_resolveChildren.induct)
  case (2 n p s)
  then show ?case
    by (auto simp: build_step_defs split: if_splits build_result.splits)
next
  case (4 n p c cs s)
  then show ?case
    by (auto simp: add_child_def split: if_splits build_result.splits)
qed simp_all

lemma resolve_frame:
  "resolveFn n p s = Done s' \<Longrightarrow>
     b_stack s' = b_stack s \<and> b_frames s' = b_frames s \<and> b_visited s \<subseteq> b_visited s'
     \<and> (\<forall>q. b_stack s (p_name (b_heap s q)) \<longrightarrow> b_heap s' q = b_heap s q)"
  "resolveChildren n p cs s = Done s' \<Longrightarrow> b_stack s (p_name (b_heap s p)) \<Longrightarrow>
     b_stack s' = b_stack s \<and> b_frames s' = b_frames s \<and> b_visited s \<subseteq> b_visited s'
     \<and> (\<forall>q. q \<noteq> p \<longrightarrow> b_stack s (p_name (b_heap s q)) \<longrightarrow> b_heap s' q = b_heap s q)
     \<and> b_heap s' p = (b_heap s p)\<lparr>p_childPlans := p_childPlans (b_heap s p) @ cs\<rparr>"
proof (induction n p s and n p cs s arbitrary: s' and s' rule: resolveFn_resolveChildren.induct)
  case (2 n p s)
  let ?nm = "p_name (b_heap s p)"
  show ?case
  proof (cases "b_stack s ?nm \<or> ?nm \<in> b_visited s")
    case True
    with "2.prems" show ?thesis by (auto simp: Let_def split: if_splits)
  next
    case False
    with "2.prems" obtain t where t: "resolveChildren n p (p_childFuncs (b_heap s p)) (enter p s) = Done t"
      and s': "s' = leave p t"
      by (auto simp: Let_def split: build_result.splits)
    have nm: "p_name (b_heap t p) = ?nm"
      using resolve_names(2)[OF t] by (simp add: build_step_defs)
    have "b_stack (enter p s) (p_name (b_heap (enter p s) p))" by (simp add: enter_def Let_def)
    from "2.IH"[OF refl _ _ t this] False
    have fr: "b_stack t = b_stack (enter p s)" "b_frames t = b_frames (enter p s)"
      "b_visited (enter p s) \<subseteq> b_visited t"
      "\<forall>q. q \<noteq> p \<longrightarrow> b_stack (enter p s) (p_name (b_heap (enter p s) q)) \<longrightarrow> b_heap t q = b_heap (enter p s) q"
      by auto
    have "(b_stack s)(?nm := False) = b_stack s" using False by (simp add: fun_upd_idem)
    with fr(1) nm have stack: "b_stack s' = b_stack s" by (simp add: s' leave_def enter_def Let_def)
    have "b_frames s' = b_frames s \<and> b_visited s \<subseteq> b_visited s'"
      using fr(2,3) by (auto simp: s' leave_def enter_def Let_def)
    moreover have "b_heap s' q = b_heap s q" if "b_stack s (p_name (b_heap s q))" for q
      using that fr(4) False by (cases "q = p") (auto simp: s' leave_def enter_def Let_def)
    ultimately show ?thesis using stack by simp
  qed
next
  case (4 n p c cs s)
  from "4.prems"(1) obtain t where t: "resolveFn n c s = Done t"
    and rest: "resolveChildren n p cs (add_child p c t) = Done s'"
    by (auto split: build_result.splits)
  have f1: "b_stack t = b_stack s" "b_frames t = b_frames s" "b_visited s \<subseteq> b_visited t"
    and h1: "\<And>q. b_stack s (p_name (b_heap s q)) \<Longrightarrow> b_heap t q = b_heap s q"
    using "4.IH"(1)[OF t] by blast+
  let ?u = "add_child p c t"
  have u: "b_stack ?u = b_stack s" "b_frames ?u = b_frames s" "b_visited ?u = b_visited t"
    and up: "b_heap ?u p = (b_heap s p)\<lparr>p_childPlans := p_childPlans (b_heap s p) @ [c]\<rparr>"
    and uq: "\<And>q. q \<noteq> p \<Longrightarrow> b_heap ?u q = b_heap t q"
    using f1 h1[OF "4.prems"(2)] by (simp_all add: add_child_def)
  have "b_stack ?u (p_name (b_heap ?u p))" using "4.prems"(2) by (simp add: u up)
  note ih = "4.IH"(2)[OF t rest this]
  have "b_heap s' p = (b_heap s p)\<lparr>p_childPlans := p_childPlans (b_heap s p) @ c # cs\<rparr>"
    using ih by (simp add: up)
  moreover have "b_heap s' q = b_heap s q" if q: "q \<noteq> p" "b_stack s (p_name (b_heap s q))" for q
  proof -
    have "b_heap ?u q = b_heap s q" using uq[OF q(1)] h1[OF q(2)] by simp
    moreover from this have "b_stack ?u (p_name (b_heap ?u q))" using q(2) by (simp add: u)
    ultimately show ?thesis using ih q(1) by metis
  qed
  moreover have "b_stack s' = b_stack s \<and> b_frames s' = b_frames s \<and> b_visited s \<subseteq> b_visited s'"
    using ih f1(3) unfolding u by blast
  ultimately show ?case by blast
qed simp_all

lemma resolve_funcs:
  "resolveFn n p s = Done s' \<Longrightarrow>
     set (p_childFuncs (b_heap s' q)) \<subseteq> set (p_childFuncs (b_heap s q))"
  "resolveChildren n p cs s = Done s' \<Longrightarrow>
     set (p_childFuncs (b_heap s' q)) \<subseteq> set (p_childFuncs (b_heap s q))"
proof (induction n p s and n p cs s arbitrary: s' and s' rule: resolveFn_resolveChildren.induct)
  case (2 n p s)
  show ?case
  proof (cases "b_stack s (p_name (b_heap s p)) \<or> p_name (b_heap s p) \<in> b_visited s")
    case True
    with "2.prems" show ?thesis by (auto simp: Let_def split: if_splits)
  next
    case False
    with "2.prems" obtain t where t: "resolveChildren n p (p_childFuncs (b_heap s p)) (enter p s) = Done t"
      and s': "s' = leave p t"
      by (auto simp: Let_def split: build_result.splits)
    from "2.IH"[OF refl _ _ t] False show ?thesis by (auto simp: s' build_step_defs)
  qed
next
  case (4 n p c cs s)
  from "4.prems"(1) obtain t where t: "resolveFn n c s = Done t"
    and rest: "resolveChildren n p cs (add_child p c t) = Done s'"
    by (auto split: build_result.splits)
  have "set (p_childFuncs (b_heap s' q)) \<subseteq> set (p_childFuncs (b_heap (add_child p c t) q))"
    by (rule "4.IH"(2)[OF t rest])
  also have "\<dots> = set (p_childFuncs (b_heap t q))" by (simp add: add_child_def)
  also have "\<dots> \<subseteq> set (p_childFuncs (b_heap s q))" by (rule "4.IH"(1)[OF t])
  finally show ?case .
qed simp_all

section \<open>Enough fuel\<close>

definition edges :: "('c, 'r) heap \<Rightarrow> (ptr \<times> ptr) set" where
  "edges h = {(p, c). c \<in> set (p_childFuncs (h p))}"

definition reach :: "('c, 'r) heap \<Rightarrow> ptr \<Rightarrow> ptr set" where
  "reach h root = {q. (root, q) \<in> (edges h)\<^sup>*}"

definition closed_in :: "('c, 'r) heap \<Rightarrow> ptr set \<Rightarrow> string set \<Rightarrow> bool" where
  "closed_in h R N = (\<forall>p \<in> R. set (p_childFuncs (h p)) \<subseteq> R \<and> p_name (h p) \<in> N)"

lemma reach_root [simp]: "root \<in> reach h root"
  by (simp add: reach_def)

lemma reach_child: "p \<in> reach h root \<Longrightarrow> c \<in> set (p_childFuncs (h p)) \<Longrightarrow> c \<in> reach h root"
  unfolding reach_def edges_def by (auto intro: rtrancl_into_rtrancl)

lemma closed_in_Done:
  "resolveFn n p s = Done s' \<Longrightarrow> closed_in (b_heap s) R N \<Longrightarrow> closed_in (b_heap s') R N"
  unfolding closed_in_def using resolve_funcs(1)[of n p s s'] resolve_names(1)[of n p s s']
  by fastforce

lemma resolve_enough_fuel:
  "closed_in (b_heap s) R N \<Longrightarrow> finite N \<Longrightarrow> p \<in> R \<Longrightarrow> card (N - {x. b_stack s x}) < n \<Longrightarrow>
     resolveFn n p s \<noteq> NoFuel"
  "closed_in (b_heap s) R N \<Longrightarrow> finite N \<Longrightarrow> set cs \<subseteq> R \<Longrightarrow> card (N - {x. b_stack s x}) < n \<Longrightarrow>
     resolveChildren n p cs s \<noteq> NoFuel"
proof (induction n p s and n p cs s rule: resolveFn_resolveChildren.induct)
  case (2 n p s)
  let ?nm = "p_name (b_heap s p)"
  show ?case
  proof (cases "b_stack s ?nm \<or> ?nm \<in> b_visited s")
    case True
    then show ?thesis by (auto simp: Let_def)
  next
    case False
    have nm: "?nm \<in> N" using "2.prems"(1,3) by (simp add: closed_in_def)
    have "N - {x. b_stack (enter p s) x} = N - {x. b_stack s x} - {?nm}"
      by (auto simp: enter_def Let_def)
    then have "card (N - {x. b_stack (enter p s) x}) < card (N - {x. b_stack s x})"
      using nm False "2.prems"(2) by (metis (no_types, lifting) DiffI card_Diff1_less finite_Diff mem_Collect_eq)
    then have "card (N - {x. b_stack (enter p s) x}) < n" using "2.prems"(4) by simp
    moreover have "closed_in (b_heap (enter p s)) R N" "set (p_childFuncs (b_heap s p)) \<subseteq> R"
      using "2.prems"(1,3) by (auto simp: enter_def closed_in_def Let_def)
    ultimately have "resolveChildren n p (p_childFuncs (b_heap s p)) (enter p s) \<noteq> NoFuel"
      using "2.IH" False "2.prems"(2) by blast
    with False show ?thesis by (auto simp: Let_def split: build_result.splits)
  qed
next
  case (4 n p c cs s)
  have c: "resolveFn n c s \<noteq> NoFuel" using "4.IH"(1) "4.prems" by simp
  show ?case
  proof (cases "resolveFn n c s")
    case (Done t)
    have "closed_in (b_heap (add_child p c t)) R N"
      using closed_in_Done[OF Done "4.prems"(1)] by (simp add: closed_in_def add_child_def)
    moreover have "b_stack (add_child p c t) = b_stack s"
      using resolve_frame(1)[OF Done] by (simp add: add_child_def)
    ultimately have "resolveChildren n p cs (add_child p c t) \<noteq> NoFuel"
      using "4.IH"(2)[OF Done] "4.prems" by simp
    with Done show ?thesis by simp
  qed (use c in simp_all)
qed simp_all

section \<open>What a finished build leaves\<close>

definition resolved :: "('c, 'r) plan \<Rightarrow> ('c, 'r) plan" where
  "resolved p = p\<lparr>p_childPlans := p_childPlans p @ p_childFuncs p, p_childFuncs := []\<rparr>"

definition build_inv :: "('c, 'r) heap \<Rightarrow> ptr set \<Rightarrow> ('c, 'r) build_state \<Rightarrow> bool" where
  "build_inv h R s \<longleftrightarrow>
     (\<forall>q. p_name (b_heap s q) = p_name (h q))
     \<and> (\<forall>q. (q \<in> R \<and> p_name (h q) \<notin> b_visited s \<and> \<not> b_stack s (p_name (h q))) \<or> q \<notin> R
            \<longrightarrow> b_heap s q = h q)
     \<and> (\<forall>q \<in> R. p_name (h q) \<in> b_visited s \<longrightarrow>
            b_heap s q = resolved (h q)
            \<and> (\<forall>c \<in> set (p_childFuncs (h q)). p_name (h c) \<in> b_visited s))
     \<and> (\<forall>x. b_stack s x \<longrightarrow> x \<notin> b_visited s)"

definition ranked :: "('c, 'r) heap \<Rightarrow> ptr set \<Rightarrow> ('c, 'r) build_state \<Rightarrow> bool" where
  "ranked h R s \<longleftrightarrow>
     (\<exists>f :: ptr \<Rightarrow> nat. \<forall>q \<in> R. p_name (h q) \<in> b_visited s \<longrightarrow>
        (\<forall>c \<in> set (p_childFuncs (h q)). f c < f q))"

lemma build_inv_enter:
  assumes "build_inv h R s" "p_name (h p) \<notin> b_visited s"
  shows "build_inv h R (enter p s)"
  using assms unfolding build_inv_def enter_def Let_def by simp

lemma build_inv_add_child:
  assumes "build_inv h R s" "b_stack s (p_name (h p))" "p \<in> R"
  shows "build_inv h R (add_child p c s)"
  using assms unfolding build_inv_def add_child_def by auto

lemma ranked_mono_visited:
  "ranked h R s \<Longrightarrow> b_visited t = b_visited s \<Longrightarrow> ranked h R t"
  by (simp add: ranked_def)

lemma ranked_leave:
  assumes inv: "build_inv h R t" and rk: "ranked h R t" and inj: "inj_on (\<lambda>q. p_name (h q)) R"
    and p: "p \<in> R" "p_name (h p) \<notin> b_visited t"
    and kids: "\<forall>c \<in> set (p_childFuncs (h p)). p_name (h c) \<in> b_visited t"
  shows "ranked h R (leave p t)"
proof -
  from rk obtain f :: "ptr \<Rightarrow> nat" where f: "\<forall>q \<in> R. p_name (h q) \<in> b_visited t \<longrightarrow>
      (\<forall>c \<in> set (p_childFuncs (h q)). f c < f q)" by (auto simp: ranked_def)
  let ?g = "f(p := Suc (sum_list (map f (p_childFuncs (h p)))))"
  have nm: "p_name (b_heap t p) = p_name (h p)" using inv by (simp add: build_inv_def)
  have "?g c < ?g q" if q: "q \<in> R" "p_name (h q) \<in> b_visited (leave p t)"
    and c: "c \<in> set (p_childFuncs (h q))" for q c
  proof (cases "q = p")
    case True
    have "c \<noteq> p" using True c kids p(2) by auto
    moreover have "f c \<le> sum_list (map f (p_childFuncs (h p)))"
      using c True by (intro member_le_sum_list) auto
    ultimately show ?thesis using True by simp
  next
    case False
    then have "p_name (h q) \<noteq> p_name (h p)" using inj q(1) p(1) by (auto dest: inj_onD)
    then have v: "p_name (h q) \<in> b_visited t" using q(2) nm by (auto simp: leave_def Let_def)
    then have "p_name (h c) \<in> b_visited t" using inv q(1) c by (auto simp: build_inv_def)
    then have "c \<noteq> p" using p(2) by auto
    with False v q(1) c f show ?thesis by simp
  qed
  then show ?thesis unfolding ranked_def by blast
qed

lemma build_inv_leave:
  assumes inv: "build_inv h R t" and inj: "inj_on (\<lambda>q. p_name (h q)) R"
    and p: "p \<in> R" "p_name (h p) \<notin> b_visited t"
    and heap: "b_heap t p = (h p)\<lparr>p_childPlans := p_childPlans (h p) @ p_childFuncs (h p)\<rparr>"
    and kids: "\<forall>c \<in> set (p_childFuncs (h p)). p_name (h c) \<in> b_visited t"
  shows "build_inv h R (leave p t)"
proof -
  have ne: "p_name (h q) \<noteq> p_name (h p)" if "q \<in> R" "q \<noteq> p" for q
    using inj that p(1) by (auto dest: inj_onD)
  have names: "\<And>q. p_name (b_heap t q) = p_name (h q)" using inv by (simp add: build_inv_def)
  let ?u = "leave p t"
  have u: "b_stack ?u = (b_stack t)(p_name (h p) := False)"
    "b_visited ?u = insert (p_name (h p)) (b_visited t)"
    and up: "b_heap ?u p = resolved (h p)"
    and uq: "\<And>q. q \<noteq> p \<Longrightarrow> b_heap ?u q = b_heap t q"
    using heap by (simp_all add: leave_def Let_def names resolved_def)
  have "p_name (b_heap ?u q) = p_name (h q)" for q
    by (cases "q = p") (simp_all add: up uq names resolved_def)
  moreover have "b_heap ?u q = h q"
    if "(q \<in> R \<and> p_name (h q) \<notin> b_visited ?u \<and> \<not> b_stack ?u (p_name (h q))) \<or> q \<notin> R" for q
  proof -
    have "q \<noteq> p" using that p(1) by (auto simp: u)
    moreover have "b_heap t q = h q"
      using inv that ne[of q] calculation unfolding build_inv_def u by auto
    ultimately show ?thesis by (simp add: uq)
  qed
  moreover have "b_heap ?u q = resolved (h q)
      \<and> (\<forall>c \<in> set (p_childFuncs (h q)). p_name (h c) \<in> b_visited ?u)"
    if q: "q \<in> R" "p_name (h q) \<in> b_visited ?u" for q
  proof (cases "q = p")
    case True
    with kids show ?thesis by (simp add: up u)
  next
    case False
    then have "p_name (h q) \<in> b_visited t" using q ne by (auto simp: u)
    with inv q(1) have "b_heap t q = resolved (h q)
        \<and> (\<forall>c \<in> set (p_childFuncs (h q)). p_name (h c) \<in> b_visited t)"
      unfolding build_inv_def by blast
    with False show ?thesis by (simp add: uq u)
  qed
  moreover have "x \<notin> b_visited ?u" if "b_stack ?u x" for x
    using inv that unfolding build_inv_def u by (auto split: if_splits)
  ultimately show ?thesis unfolding build_inv_def by blast
qed

lemma resolve_inv:
  "\<lbrakk>resolveFn n p s = Done s'; build_inv h R s; ranked h R s; inj_on (\<lambda>q. p_name (h q)) R;
     closed_in h R UNIV; p \<in> R\<rbrakk> \<Longrightarrow>
     build_inv h R s' \<and> ranked h R s' \<and> p_name (h p) \<in> b_visited s'"
  "\<lbrakk>resolveChildren n p cs s = Done s'; build_inv h R s; ranked h R s;
     inj_on (\<lambda>q. p_name (h q)) R; closed_in h R UNIV; p \<in> R; b_stack s (p_name (h p));
     set cs \<subseteq> R\<rbrakk> \<Longrightarrow>
     build_inv h R s' \<and> ranked h R s' \<and> (\<forall>c \<in> set cs. p_name (h c) \<in> b_visited s')"
proof (induction n p s and n p cs s arbitrary: s' and s' rule: resolveFn_resolveChildren.induct)
  case (2 n p s)
  let ?nm = "p_name (b_heap s p)"
  have nm: "?nm = p_name (h p)" using "2.prems"(2) by (simp add: build_inv_def)
  show ?case
  proof (cases "b_stack s ?nm \<or> ?nm \<in> b_visited s")
    case True
    with "2.prems" nm show ?thesis by (auto simp: Let_def split: if_splits)
  next
    case False
    with "2.prems"(1) obtain t
      where t: "resolveChildren n p (p_childFuncs (b_heap s p)) (enter p s) = Done t"
        and s': "s' = leave p t"
      by (auto simp: Let_def split: build_result.splits)
    have hp: "b_heap s p = h p" using "2.prems"(2,6) False nm by (auto simp: build_inv_def)
    have kidsR: "set (p_childFuncs (b_heap s p)) \<subseteq> R"
      using "2.prems"(5,6) hp by (simp add: closed_in_def)
    have stk: "b_stack (enter p s) (p_name (h p))" using nm by (simp add: enter_def Let_def)
    have inv1: "build_inv h R (enter p s)" using "2.prems"(2) False nm by (intro build_inv_enter) auto
    have rk1: "ranked h R (enter p s)"
      using "2.prems"(3) by (rule ranked_mono_visited) (simp add: enter_def Let_def)
    have notin: "\<not> b_stack s ?nm" "?nm \<notin> b_visited s" using False by auto
    have ih: "build_inv h R t \<and> ranked h R t
        \<and> (\<forall>c \<in> set (p_childFuncs (b_heap s p)). p_name (h c) \<in> b_visited t)"
      using "2.IH"[OF refl notin t inv1 rk1 "2.prems"(4,5,6) stk kidsR] .
    have stk': "b_stack (enter p s) (p_name (b_heap (enter p s) p))" by (simp add: enter_def Let_def)
    note fr = resolve_frame(2)[OF t stk']
    have "p_name (h p) \<notin> b_visited t" using ih fr stk by (auto simp: build_inv_def)
    moreover have "b_heap t p = (h p)\<lparr>p_childPlans := p_childPlans (h p) @ p_childFuncs (h p)\<rparr>"
      using fr hp by (simp add: enter_def Let_def)
    moreover have "p_name (b_heap t p) = p_name (h p)" using ih by (simp add: build_inv_def)
    ultimately show ?thesis
      using build_inv_leave[of h R t p] ranked_leave[of h R t p] ih "2.prems"(4,6) hp
      by (simp add: s' leave_def Let_def)
  qed
next
  case (4 n p c cs s)
  from "4.prems"(1) obtain t where t: "resolveFn n c s = Done t"
    and rest: "resolveChildren n p cs (add_child p c t) = Done s'"
    by (auto split: build_result.splits)
  have c: "c \<in> R" "set cs \<subseteq> R" using "4.prems"(8) by auto
  have ih1: "build_inv h R t" "ranked h R t" "p_name (h c) \<in> b_visited t"
    using "4.IH"(1)[OF t "4.prems"(2-5) c(1)] by auto
  have "b_stack t (p_name (h p))" using resolve_frame(1)[OF t] "4.prems"(7) by simp
  then have inv: "build_inv h R (add_child p c t)" and stk: "b_stack (add_child p c t) (p_name (h p))"
    using build_inv_add_child[OF ih1(1) _ "4.prems"(6)] by (simp_all add: add_child_def)
  have rk: "ranked h R (add_child p c t)"
    using ih1(2) by (rule ranked_mono_visited) (simp add: add_child_def)
  have ih2: "build_inv h R s' \<and> ranked h R s' \<and> (\<forall>c \<in> set cs. p_name (h c) \<in> b_visited s')"
    using "4.IH"(2)[OF t rest inv rk "4.prems"(4-6) stk c(2)] .
  have "b_stack (add_child p c t) (p_name (b_heap (add_child p c t) p))"
    using stk inv by (simp add: build_inv_def)
  then have "b_visited (add_child p c t) \<subseteq> b_visited s'" using resolve_frame(2)[OF rest] by blast
  with ih1(3) ih2 show ?case by (auto simp: add_child_def)
qed simp_all

section \<open>What a panic reports\<close>

definition path_in :: "('c, 'r) heap \<Rightarrow> ptr list \<Rightarrow> bool" where
  "path_in h ps = successively (\<lambda>p c. c \<in> set (p_childFuncs (h p))) ps"

definition names_of :: "('c, 'r) heap \<Rightarrow> ptr list \<Rightarrow> string list" where
  "names_of h ps = map (\<lambda>p. p_name (h p)) ps"

definition panics_on :: "('c, 'r) heap \<Rightarrow> ptr list \<Rightarrow> string \<Rightarrow> bool" where
  "panics_on h ps m \<longleftrightarrow>
     m = renderCycle (names_of h ps) \<and> path_in h ps
     \<and> last (names_of h ps) \<in> set (butlast (names_of h ps))"

definition tracks :: "('c, 'r) heap \<Rightarrow> ptr list \<Rightarrow> ('c, 'r) build_state \<Rightarrow> bool" where
  "tracks h ps s \<longleftrightarrow>
     b_frames s = names_of h ps \<and> (\<forall>x. b_stack s x \<longleftrightarrow> x \<in> set (names_of h ps))
     \<and> (\<forall>q. p_name (b_heap s q) = p_name (h q)
            \<and> set (p_childFuncs (b_heap s q)) \<subseteq> set (p_childFuncs (h q)))"

lemma path_in_snoc:
  "ps \<noteq> [] \<Longrightarrow> path_in h (ps @ [c]) \<longleftrightarrow> path_in h ps \<and> c \<in> set (p_childFuncs (h (last ps)))"
  by (auto simp: path_in_def successively_append_iff)

lemma tracks_enter: "tracks h ps s \<Longrightarrow> tracks h (ps @ [p]) (enter p s)"
  by (auto simp: tracks_def enter_def names_of_def Let_def)

lemma tracks_Done:
  assumes "resolveFn n c s = Done t" "tracks h ps s"
  shows "tracks h ps (add_child p c t)"
proof -
  have "p_name (b_heap t q) = p_name (h q)
      \<and> set (p_childFuncs (b_heap t q)) \<subseteq> set (p_childFuncs (h q))" for q
    using assms(2) resolve_names(1)[OF assms(1), of q] resolve_funcs(1)[OF assms(1), of q]
    unfolding tracks_def by (metis subset_trans)
  moreover have "b_stack t = b_stack s" "b_frames t = b_frames s"
    using resolve_frame(1)[OF assms(1)] by auto
  ultimately show ?thesis using assms(2) by (simp add: tracks_def add_child_def)
qed

lemma resolve_panic:
  "resolveFn n p s = Panicked m \<Longrightarrow> tracks h ps s \<Longrightarrow> path_in h (ps @ [p]) \<Longrightarrow>
     \<exists>qs. panics_on h (ps @ p # qs) m"
  "resolveChildren n p cs s = Panicked m \<Longrightarrow> tracks h (ps @ [p]) s \<Longrightarrow> path_in h (ps @ [p]) \<Longrightarrow>
     set cs \<subseteq> set (p_childFuncs (h p)) \<Longrightarrow> \<exists>qs. panics_on h (ps @ p # qs) m"
proof (induction n p s and n p cs s arbitrary: ps and ps rule: resolveFn_resolveChildren.induct)
  case (2 n p s)
  let ?nm = "p_name (b_heap s p)"
  have nm: "?nm = p_name (h p)" using "2.prems"(2) by (simp add: tracks_def)
  show ?case
  proof (cases "b_stack s ?nm")
    case True
    then have "m = renderCycle (names_of h (ps @ [p]))" "?nm \<in> set (names_of h ps)"
      using "2.prems"(1,2) nm by (auto simp: tracks_def names_of_def)
    then have "panics_on h (ps @ [p]) m"
      using "2.prems"(3) nm by (simp add: panics_on_def names_of_def butlast_append)
    then show ?thesis by blast
  next
    case False
    with "2.prems"(1) have v: "?nm \<notin> b_visited s"
      and c: "resolveChildren n p (p_childFuncs (b_heap s p)) (enter p s) = Panicked m"
      by (auto simp: Let_def split: if_splits build_result.splits)
    have "set (p_childFuncs (b_heap s p)) \<subseteq> set (p_childFuncs (h p))"
      using "2.prems"(2) by (simp add: tracks_def)
    then show ?thesis
      using "2.IH"[OF refl False v c tracks_enter[OF "2.prems"(2)] "2.prems"(3)] by blast
  qed
next
  case (4 n p c cs s)
  have c: "c \<in> set (p_childFuncs (h p))" "set cs \<subseteq> set (p_childFuncs (h p))"
    using "4.prems"(4) by auto
  show ?case
  proof (cases "resolveFn n c s")
    case (Panicked m')
    with "4.prems"(1) have "resolveFn n c s = Panicked m" by simp
    moreover have "path_in h ((ps @ [p]) @ [c])"
      using "4.prems"(3) c(1) path_in_snoc[of "ps @ [p]" h c] by simp
    ultimately show ?thesis using "4.IH"(1)[of "ps @ [p]"] "4.prems"(2) by auto
  next
    case (Done t)
    with "4.prems"(1) have "resolveChildren n p cs (add_child p c t) = Panicked m" by simp
    then show ?thesis
      using "4.IH"(2)[OF Done _ tracks_Done[OF Done "4.prems"(2)] "4.prems"(3) c(2)] by blast
  qed (use "4.prems"(1) in simp)
qed simp_all

section \<open>Properties of Build\<close>

definition unique_names :: "('c, 'r) heap \<Rightarrow> ptr \<Rightarrow> bool" where
  "unique_names h root = inj_on (\<lambda>q. p_name (h q)) (reach h root)"

definition plan_names :: "('c, 'r) heap \<Rightarrow> ptr \<Rightarrow> string set" where
  "plan_names h root = (\<lambda>q. p_name (h q)) ` reach h root"

lemma closed_reach: "closed_in h (reach h root) (plan_names h root)"
  by (auto simp: closed_in_def plan_names_def intro: reach_child)

lemma closed_reach_UNIV: "closed_in h (reach h root) UNIV"
  by (auto simp: closed_in_def intro: reach_child)

lemma reach_least:
  assumes "root \<in> S" "\<And>p. p \<in> S \<Longrightarrow> set (p_childFuncs (h p)) \<subseteq> S"
  shows "reach h root \<subseteq> S"
proof
  fix q assume "q \<in> reach h root"
  then have "(root, q) \<in> (edges h)\<^sup>*" by (simp add: reach_def)
  then show "q \<in> S" by (induction rule: rtrancl_induct) (use assms in \<open>auto simp: edges_def\<close>)
qed

lemma init_build_inv: "build_inv h R (init_build h)" "ranked h R (init_build h)"
  by (simp_all add: build_inv_def ranked_def init_build_def)

lemma init_tracks: "tracks h [] (init_build h)"
  by (simp add: tracks_def init_build_def names_of_def)

text \<open>
  C28.  \<open>Build\<close> always comes to an end: when only finitely many plan names can be reached, fuel
  one above their number is enough, cycles or not.
\<close>

theorem Build_terminates:
  assumes "finite (plan_names h root)" and "card (plan_names h root) < fuel"
  shows "Build fuel h root \<noteq> NoFuel"
  unfolding Build_def
  by (rule resolve_enough_fuel(1)[OF _ assms(1) reach_root])
     (use closed_reach[of h root] assms in \<open>simp_all add: init_build_def\<close>)

lemma Build_Done_inv:
  assumes "Build fuel h root = Done s" "unique_names h root"
  shows "build_inv h (reach h root) s \<and> ranked h (reach h root) s \<and> p_name (h root) \<in> b_visited s"
  using resolve_inv(1)[OF _ init_build_inv _ closed_reach_UNIV reach_root] assms
  unfolding Build_def unique_names_def by blast

lemma Build_Done_visits:
  assumes "Build fuel h root = Done s" "unique_names h root" "q \<in> reach h root"
  shows "p_name (h q) \<in> b_visited s"
proof -
  note inv = Build_Done_inv[OF assms(1,2)]
  from assms(3) have "(root, q) \<in> (edges h)\<^sup>*" by (simp add: reach_def)
  then have "q \<in> reach h root \<and> p_name (h q) \<in> b_visited s"
  proof (induction rule: rtrancl_induct)
    case (step y z)
    then have "z \<in> set (p_childFuncs (h y))" by (simp add: edges_def)
    with step.IH inv show ?case
      unfolding build_inv_def by (blast intro: reach_child)
  qed (use inv in simp)
  then show ?thesis by simp
qed

lemma ranked_no_cycle:
  assumes "Build fuel h root = Done s" "unique_names h root" "(x, y) \<in> (edges h)\<^sup>+" "x \<in> reach h root"
  shows "x \<noteq> y"
proof -
  from Build_Done_inv[OF assms(1,2)] obtain f :: "ptr \<Rightarrow> nat" where
    f: "\<And>q c. q \<in> reach h root \<Longrightarrow> c \<in> set (p_childFuncs (h q)) \<Longrightarrow> f c < f q"
    using Build_Done_visits[OF assms(1,2)] unfolding ranked_def by blast
  from assms(3,4) have "y \<in> reach h root \<and> f y < f x"
  proof (induction rule: trancl_induct)
    case (base y)
    then show ?case using f by (auto simp: edges_def intro: reach_child)
  next
    case (step y z)
    then have "f z < f y" "z \<in> reach h root" using f by (auto simp: edges_def intro: reach_child)
    with step show ?case by simp
  qed
  then show ?thesis by auto
qed

lemma Build_resolved:
  assumes "Build fuel h root = Done s" and "unique_names h root"
  shows "b_heap s q = (if q \<in> reach h root then resolved (h q) else h q)"
  using Build_Done_inv[OF assms] Build_Done_visits[OF assms] unfolding build_inv_def by auto

text \<open>
  C23.  A successful \<open>Build\<close> resolves the whole graph: every plan reachable from the root gets its
  child functions' plans appended to its child plans in declaration order and its child functions
  cleared; no other plan, and no other field, changes.
\<close>

theorem Build_resolves:
  assumes "Build fuel h root = Done s" and "unique_names h root"
  shows "b_heap s q = (if q \<in> reach h root then resolved (h q) else h q)"
  by (rule Build_resolved[OF assms])

lemma Build_panics_on:
  assumes "Build fuel h root = Panicked m"
  shows "\<exists>ps. ps \<noteq> [] \<and> hd ps = root \<and> panics_on h ps m"
proof -
  have "path_in h ([] @ [root])" by (simp add: path_in_def)
  from resolve_panic(1)[OF assms[unfolded Build_def] init_tracks this]
  obtain qs where "panics_on h (root # qs) m" by auto
  then show ?thesis by (intro exI[of _ "root # qs"]) simp
qed

text \<open>
  A panic names a real path: its message renders the names along a path of child plans that
  starts at the root and whose last name already occurs on it.
\<close>

theorem Build_panic_message:
  assumes "Build fuel h root = Panicked m"
  shows "\<exists>ps. ps \<noteq> [] \<and> hd ps = root \<and> path_in h ps \<and> m = renderCycle (names_of h ps)
    \<and> last (names_of h ps) \<in> set (butlast (names_of h ps))"
  using Build_panics_on[OF assms] unfolding panics_on_def by blast

lemma path_reach:
  "path_in h ps \<Longrightarrow> ps \<noteq> [] \<Longrightarrow> hd ps \<in> reach h root \<Longrightarrow> set ps \<subseteq> reach h root"
proof (induction ps)
  case (Cons p ps)
  then show ?case by (cases ps) (auto simp: path_in_def dest: reach_child)
qed simp

lemma path_trancl:
  "path_in h ps \<Longrightarrow> x \<in> set (butlast ps) \<Longrightarrow> (x, last ps) \<in> (edges h)\<^sup>+"
proof (induction ps arbitrary: x)
  case (Cons p ps)
  obtain q qs where ps: "ps = q # qs" using Cons.prems(2) by (cases ps) auto
  with Cons.prems have e: "(p, q) \<in> edges h" "path_in h ps" by (auto simp: path_in_def edges_def)
  show ?case
  proof (cases "x \<in> set (butlast ps)")
    case True
    with Cons.IH e ps show ?thesis by simp
  next
    case False
    with Cons.prems ps have "x = p" by auto
    show ?thesis
    proof (cases qs)
      case Nil
      with \<open>x = p\<close> e ps show ?thesis by auto
    next
      case (Cons r rs)
      then have "q \<in> set (butlast ps)" by (simp add: ps)
      with Cons.IH e(2) have "(q, last ps) \<in> (edges h)\<^sup>+" by blast
      with \<open>x = p\<close> e(1) ps show ?thesis by (simp add: trancl_into_trancl2)
    qed
  qed
qed simp

lemma panics_on_cycle:
  assumes "panics_on h ps m" "ps \<noteq> []" "hd ps = root" "unique_names h root"
  shows "\<exists>q \<in> reach h root. (q, q) \<in> (edges h)\<^sup>+"
proof -
  have path: "path_in h ps" and m: "last (names_of h ps) \<in> set (butlast (names_of h ps))"
    using assms(1) by (auto simp: panics_on_def)
  have sub: "set ps \<subseteq> reach h root" using path_reach[OF path assms(2)] assms(3) by simp
  from m assms(2) obtain x where x: "x \<in> set (butlast ps)" "p_name (h x) = p_name (h (last ps))"
    by (auto simp: names_of_def last_map map_butlast[symmetric])
  have "x \<in> reach h root" "last ps \<in> reach h root"
    using x(1) sub assms(2) by (auto dest: in_set_butlastD)
  with x(2) assms(4) have "x = last ps" by (auto simp: unique_names_def dest: inj_onD)
  with path_trancl[OF path x(1)] \<open>x \<in> reach h root\<close> show ?thesis by auto
qed

text \<open>
  C26.  Cycle detection is exact: on a graph whose reachable plans have distinct names, \<open>Build\<close>
  panics if and only if a reachable plan depends on itself, directly or through other plans.
\<close>

theorem Build_panics_iff_cycle:
  assumes "unique_names h root" and "finite (plan_names h root)"
    and "card (plan_names h root) < fuel"
  shows "(\<exists>m. Build fuel h root = Panicked m)
    \<longleftrightarrow> (\<exists>q \<in> reach h root. (q, q) \<in> (edges h)\<^sup>+)"
proof
  assume "\<exists>m. Build fuel h root = Panicked m"
  then show "\<exists>q \<in> reach h root. (q, q) \<in> (edges h)\<^sup>+"
    using Build_panics_on panics_on_cycle assms(1) by blast
next
  assume "\<exists>q \<in> reach h root. (q, q) \<in> (edges h)\<^sup>+"
  then have "Build fuel h root \<noteq> Done s" for s
    using ranked_no_cycle[OF _ assms(1)] by blast
  moreover have "Build fuel h root \<noteq> NoFuel"
    unfolding Build_def
    by (rule resolve_enough_fuel(1)[OF _ assms(2) reach_root])
       (use closed_reach[of h root] assms(3) in \<open>simp_all add: init_build_def\<close>)
  ultimately show "\<exists>m. Build fuel h root = Panicked m"
    by (cases "Build fuel h root") auto
qed

lemma Build_root_cleared:
  "Build fuel h root = Done s \<Longrightarrow> p_childFuncs (b_heap s root) = []"
  unfolding Build_def
  by (cases fuel) (auto simp: Let_def init_build_def leave_def split: build_result.splits)

lemma Build_rebuild:
  assumes "Build fuel h root = Done s" and "0 < fuel'"
  shows "\<exists>s'. Build fuel' (b_heap s) root = Done s' \<and> b_heap s' = b_heap s"
proof -
  obtain n where "fuel' = Suc n" using assms(2) by (cases fuel') auto
  moreover have "(b_heap s)(root := (b_heap s root)\<lparr>p_childFuncs := []\<rparr>) = b_heap s"
    using Build_root_cleared[OF assms(1)] by (simp add: fun_upd_idem)
  ultimately show ?thesis
    using Build_root_cleared[OF assms(1)]
    by (simp add: Build_def init_build_def enter_def leave_def Let_def)
qed

text \<open>
  \<open>Build\<close> is idempotent: building the root again (as \<open>Apply\<close> and then \<open>CreatePlan\<close> do)
  succeeds and leaves every plan as the first build left it.
\<close>

theorem Build_again:
  assumes "Build fuel h root = Done s" and "0 < fuel'"
  shows "\<exists>s'. Build fuel' (b_heap s) root = Done s' \<and> b_heap s' = b_heap s"
  by (rule Build_rebuild[OF assms])

section \<open>Concrete graphs\<close>

text \<open>A diamond of four plans, a cycle of two, and two different plans under one name.\<close>

definition leaf :: "string \<Rightarrow> ptr list \<Rightarrow> (nat, nat) plan" where
  "leaf nm fs = \<lparr>p_name = nm, p_namespace = DefaultNamespace, p_components = [1], p_childPlans = [],
     p_childFuncs = fs, p_resolvers = []\<rparr>"

definition diamond :: "(nat, nat) heap" where
  "diamond p = (if p = 0 then leaf ''root'' [1, 2] else if p = 1 then leaf ''db'' [3]
     else if p = 2 then leaf ''chain'' [3] else leaf ''ns'' [])"

definition loop2 :: "(nat, nat) heap" where
  "loop2 p = (if p = 0 then leaf ''a'' [1] else leaf ''b'' [0])"

definition twins :: "(nat, nat) heap" where
  "twins p = (if p = 0 then leaf ''root'' [1, 2] else if p = 1 then leaf ''db'' []
     else if p = 2 then leaf ''db'' [3] else leaf ''ns'' [])"

lemmas demo_defs = leaf_def diamond_def loop2_def twins_def

lemma diamond_reach: "reach diamond 0 \<subseteq> {0, 1, 2, 3}"
  by (rule reach_least) (auto simp: diamond_def leaf_def split: if_splits)

lemma loop2_reach: "reach loop2 0 \<subseteq> {0, 1}"
  by (rule reach_least) (auto simp: loop2_def leaf_def split: if_splits)

lemma diamond_unique: "unique_names diamond 0"
  unfolding unique_names_def
  by (rule inj_on_subset[OF _ diamond_reach]) (auto simp: inj_on_def diamond_def leaf_def)

lemma loop2_unique: "unique_names loop2 0"
  unfolding unique_names_def
  by (rule inj_on_subset[OF _ loop2_reach]) (auto simp: inj_on_def loop2_def leaf_def)

lemma diamond_names: "plan_names diamond 0 \<subseteq> {''root'', ''db'', ''chain'', ''ns''}"
  using diamond_reach by (auto simp: plan_names_def diamond_def leaf_def)

lemma loop2_names: "plan_names loop2 0 \<subseteq> {''a'', ''b''}"
  using loop2_reach by (auto simp: plan_names_def loop2_def leaf_def)

lemma small_names:
  "plan_names h root \<subseteq> set xs \<Longrightarrow> finite (plan_names h root) \<and> card (plan_names h root) \<le> length xs"
  by (meson List.finite_set card_length card_mono finite_subset order_trans)

lemma diamond_small: "finite (plan_names diamond 0)" "card (plan_names diamond 0) < 5"
  using small_names[of diamond 0 "[''root'', ''db'', ''chain'', ''ns'']"] diamond_names by auto

lemma loop2_small: "finite (plan_names loop2 0)" "card (plan_names loop2 0) < 5"
  using small_names[of loop2 0 "[''a'', ''b'']"] loop2_names by auto

lemma Build_diamond: "\<exists>s. Build (Suc 4) diamond 0 = Done s"
  by (simp add: Build_def init_build_def build_step_defs demo_defs eval_nat_numeral)

lemma Build_loop2:
  "Build 5 loop2 0 = Panicked (renderCycle [''a'', ''b'', ''a''])"
  by (simp add: Build_def init_build_def build_step_defs demo_defs eval_nat_numeral)

theorem Build_terminates_witness: "Build 5 diamond 0 \<noteq> NoFuel"
  by (rule Build_terminates[OF diamond_small])

theorem Build_resolves_witness:
  "\<exists>s. Build (Suc 4) diamond 0 = Done s \<and> b_heap s 9 = (if 9 \<in> reach diamond 0 then resolved (diamond 9) else diamond 9)"
  using Build_diamond Build_resolves[OF _ diamond_unique, of "Suc 4"] by blast

theorem Build_panic_message_witness:
  "\<exists>ps. ps \<noteq> [] \<and> hd ps = 0 \<and> path_in loop2 ps
     \<and> renderCycle [''a'', ''b'', ''a''] = renderCycle (names_of loop2 ps)
     \<and> last (names_of loop2 ps) \<in> set (butlast (names_of loop2 ps))"
  by (rule Build_panic_message[OF Build_loop2])

theorem Build_panics_iff_cycle_witness:
  "(\<exists>m. Build 5 loop2 0 = Panicked m) \<longleftrightarrow> (\<exists>q \<in> reach loop2 0. (q, q) \<in> (edges loop2)\<^sup>+)"
  by (rule Build_panics_iff_cycle[OF loop2_unique loop2_small])

theorem Build_again_witness:
  "\<exists>s s'. Build (Suc 4) diamond 0 = Done s \<and> Build 1 (b_heap s) 0 = Done s' \<and> b_heap s' = b_heap s"
  using Build_diamond Build_again[of "Suc 4" diamond 0 _ 1] by fastforce

text \<open>
  Plans are told apart by name alone: of two different child plans with one name, \<open>Build\<close>
  resolves only the first; the second is still attached to its parent, with its own children
  unresolved and no panic.
\<close>

theorem Build_same_name_unresolved:
  "\<exists>s. Build 5 twins 0 = Done s \<and> p_childPlans (b_heap s 0) = [1, 2]
     \<and> p_childFuncs (b_heap s 2) = [3] \<and> p_childPlans (b_heap s 2) = []"
  by (simp add: Build_def init_build_def build_step_defs demo_defs eval_nat_numeral)

section \<open>Plan options\<close>

lemma apply_opts_append:
  "apply_opts (xs @ ys) p = (case apply_opts xs p of None \<Rightarrow> None | Some q \<Rightarrow> apply_opts ys q)"
  by (induction xs arbitrary: p) (auto split: option.splits)

definition keeps_namespace :: "('c, 'r) plan_opt \<Rightarrow> bool" where
  "keeps_namespace opt \<longleftrightarrow> (\<forall>p. \<exists>q. opt p = Some q \<and> p_namespace q = p_namespace p \<and> p_name q = p_name p)"

lemma keeps_namespace_opts [simp]:
  "keeps_namespace (AddPlan c)" "keeps_namespace (ComponentSet cs)" "keeps_namespace (manifestResolvers rs)"
  by (simp_all add: keeps_namespace_def AddPlan_def ComponentSet_def manifestResolvers_def)

lemma apply_keeps:
  "list_all keeps_namespace opts \<Longrightarrow>
     \<exists>q. apply_opts opts p = Some q \<and> p_namespace q = p_namespace p \<and> p_name q = p_name p"
proof (induction opts arbitrary: p)
  case (Cons opt opts)
  then obtain q where "opt p = Some q" "p_namespace q = p_namespace p" "p_name q = p_name p"
    unfolding list.pred_inject keeps_namespace_def by metis
  with Cons.IH[of q] Cons.prems show ?case by simp
qed simp

text \<open>
  \<open>NewPlan\<close> with one \<open>Namespace\<close> option, anywhere among other options, has that namespace
  (\<open>default\<close> when it is empty); with a second one after a non-empty first it panics.
\<close>

theorem NewPlan_namespace:
  assumes "list_all keeps_namespace xs" "list_all keeps_namespace ys" "list_all keeps_namespace zs"
  shows "(\<exists>p. NewPlan name (xs @ Namespace ns # ys) = Some p \<and> p_name p = name
        \<and> p_namespace p = (if ns = [] then DefaultNamespace else ns))
    \<and> (NewPlan name (xs @ Namespace ns # ys @ Namespace ns' # zs) = None \<longleftrightarrow> ns \<noteq> [])"
proof -
  let ?p0 = "\<lparr>p_name = name, p_namespace = [], p_components = [], p_childPlans = [],
    p_childFuncs = [], p_resolvers = []\<rparr>"
  obtain p where p: "apply_opts xs ?p0 = Some p" "p_namespace p = []" "p_name p = name"
    using apply_keeps[OF assms(1), of ?p0] by auto
  let ?p = "p\<lparr>p_namespace := ns\<rparr>"
  obtain q where q: "apply_opts ys ?p = Some q" "p_namespace q = ns" "p_name q = name"
    using apply_keeps[OF assms(2), of ?p] p(3) by auto
  let ?q = "q\<lparr>p_namespace := ns'\<rparr>"
  obtain r where "apply_opts zs ?q = Some r"
    using apply_keeps[OF assms(3), of ?q] by auto
  then show ?thesis
    using p q by (simp add: NewPlan_def apply_opts_append Namespace_def)
qed

theorem NewPlan_namespace_witness:
  "(\<exists>p :: (nat, nat) plan. NewPlan ''p'' ([AddPlan 3] @ Namespace ''crib'' # [ComponentSet [1]]) = Some p
      \<and> p_name p = ''p'' \<and> p_namespace p = (if ''crib'' = [] then DefaultNamespace else ''crib''))
   \<and> (NewPlan ''p'' ([AddPlan 3] @ Namespace ''crib'' # [ComponentSet [1 :: nat]]
        @ Namespace ''x'' # [manifestResolvers [2 :: nat]]) = None \<longleftrightarrow> ''crib'' \<noteq> [])"
  by (rule NewPlan_namespace) simp_all

end
