(* ===== verification/PlanCache.thy ===== *)
theory PlanCache
  imports Infra
begin

text \<open>
  The results of a plan: internal/adapter/plancache/plancache.go, and the accessors of PlanState in
  crib/plan.go.  A construct is a reference with its (possibly nil) cdk8s node; an interned
  \<open>unique.Handle\<close> is the string it stands for, since two handles are equal exactly when their
  strings are.  The locale \<open>results_store\<close> states what a client may rely on (an ordered log with a
  lookup by resource); \<open>PlanCache\<close> is shown to be one, so that the index kept in \<open>r_nodes\<close> never
  disagrees with the log kept in \<open>r_roots\<close>.
\<close>

section \<open>Constructs\<close>

datatype construct = Construct (c_ref: nat) (c_node: "cnode option")
  and cnode = CNode (n_id: "string option") (n_path: "string option")
    (n_children: "construct option list option")

definition construct_id :: "construct option \<Rightarrow> string option" where
  "construct_id c = (case c of None \<Rightarrow> None | Some c \<Rightarrow>
     (case c_node c of None \<Rightarrow> None | Some n \<Rightarrow> n_id n))"

definition construct_path :: "construct option \<Rightarrow> string option" where
  "construct_path c = (case c of None \<Rightarrow> None | Some c \<Rightarrow>
     (case c_node c of None \<Rightarrow> None | Some n \<Rightarrow> n_path n))"

section \<open>The results tree\<close>

record rnode =
  r_data :: construct
  r_ID :: string
  r_ParentID :: string
  r_IDStr :: string

record results =
  r_nodes :: "string \<Rightarrow> rnode list"
  r_roots :: "rnode list"

definition New :: results where
  "New = \<lparr>r_nodes = (\<lambda>_. []), r_roots = []\<rparr>"

definition pathSplitFn :: "string \<Rightarrow> string list" where
  "pathSplitFn path = filter (\<lambda>p. p \<noteq> []) (split_on (CHR ''/'') path)"

definition prepareID :: "string option \<Rightarrow> string" where
  "prepareID resource = ExtractResource resource"

fun parent_segment :: "string \<Rightarrow> string \<Rightarrow> string list \<Rightarrow> string" where
  "parent_segment currentID parent [] = parent"
| "parent_segment currentID parent (path # ps) =
     (if path = currentID then parent else parent_segment currentID path ps)"

definition parentID :: "construct option \<Rightarrow> string" where
  "parentID c =
     (case (construct_id c, construct_path c) of
        (Some ident, Some path) \<Rightarrow>
          let parent = parent_segment ident [] (pathSplitFn path) in
          if parent = [] then [] else prepareID (Some parent)
      | _ \<Rightarrow> [])"

definition new_node :: "construct \<Rightarrow> rnode" where
  "new_node c =
     \<lparr>r_data = c, r_ID = prepareID (construct_id (Some c)), r_ParentID = parentID (Some c),
      r_IDStr = ExtractResource (construct_id (Some c))\<rparr>"

definition Add :: "construct option \<Rightarrow> results \<Rightarrow> results" where
  "Add c r =
     (if construct_id c = None then r
      else
        let node = new_node (the c) in
        r\<lparr>r_nodes := (r_nodes r)(r_ID node := r_nodes r (r_ID node) @ [node]),
          r_roots := r_roots r @ [node]\<rparr>)"

definition Get :: "results \<Rightarrow> string \<Rightarrow> rnode list" where
  "Get r resource = r_nodes r resource"

definition Components :: "results \<Rightarrow> construct list" where
  "Components r = map r_data (r_roots r)"

definition Children :: "results \<Rightarrow> rnode \<Rightarrow> rnode list" where
  "Children r parent = filter (\<lambda>node. r_ParentID node = r_ID parent) (r_roots r)"

definition RootNodes :: "results \<Rightarrow> rnode list" where
  "RootNodes r = filter (\<lambda>node. r_ParentID node = []) (r_roots r)"

section \<open>The accessors of PlanState\<close>

definition ComponentByName :: "results \<Rightarrow> string \<Rightarrow> construct list" where
  "ComponentByName r ident = map r_data (Get r (ExtractResource (Some ident)))"

definition ComponentIDs :: "results \<Rightarrow> string list" where
  "ComponentIDs r = map (\<lambda>c. ExtractResource (construct_id (Some c))) (Components r)"

section \<open>An ordered log with a lookup\<close>

locale results_store =
  fixes empty :: "'s"
    and put :: "'c option \<Rightarrow> 's \<Rightarrow> 's"
    and get :: "'s \<Rightarrow> 'k \<Rightarrow> 'c list"
    and log :: "'s \<Rightarrow> 'c list"
    and key :: "'c \<Rightarrow> 'k option"
    and reachable :: "'s \<Rightarrow> bool"
  assumes reachable_empty: "reachable empty"
    and reachable_put: "reachable s \<Longrightarrow> reachable (put c s)"
    and log_empty: "log empty = []"
    and log_put: "log (put c s) = log s @ (case c of None \<Rightarrow> [] | Some x \<Rightarrow> if key x = None then [] else [x])"
    and get_log: "reachable s \<Longrightarrow> get s k = filter (\<lambda>c. key c = Some k) (log s)"
begin

definition puts :: "'c option list \<Rightarrow> 's \<Rightarrow> 's" where
  "puts cs s = fold put cs s"

definition kept :: "'c option list \<Rightarrow> 'c list" where
  "kept cs = filter (\<lambda>c. key c \<noteq> None) (map the (filter (\<lambda>c. c \<noteq> None) cs))"

lemma kept_simps [simp]:
  "kept [] = []"
  "kept (c # cs) = (case c of None \<Rightarrow> [] | Some x \<Rightarrow> if key x = None then [] else [x]) @ kept cs"
  by (simp_all add: kept_def split: option.splits)

lemma reachable_puts: "reachable s \<Longrightarrow> reachable (puts cs s)"
  unfolding puts_def by (induction cs arbitrary: s) (auto intro: reachable_put)

lemma log_puts: "log (puts cs s) = log s @ kept cs"
  unfolding puts_def by (induction cs arbitrary: s) (simp_all add: log_put)

lemma get_puts: "get (puts cs empty) k = filter (\<lambda>c. key c = Some k) (kept cs)"
  using get_log[OF reachable_puts[OF reachable_empty]] by (simp add: log_puts log_empty)

lemma get_put_other: "reachable s \<Longrightarrow> (\<And>x. c = Some x \<Longrightarrow> key x \<noteq> Some k) \<Longrightarrow> get (put c s) k = get s k"
  using get_log[OF reachable_put, of s c k] get_log[of s k]
  by (auto simp: log_put split: option.splits)

end

definition wf_results :: "results \<Rightarrow> bool" where
  "wf_results r \<longleftrightarrow>
     (\<forall>k. r_nodes r k = filter (\<lambda>n. r_ID n = k) (r_roots r))
     \<and> (\<forall>n \<in> set (r_roots r). n = new_node (r_data n) \<and> construct_id (Some (r_data n)) \<noteq> None)"

definition resource_of :: "construct \<Rightarrow> string option" where
  "resource_of c = map_option (\<lambda>i. ExtractResource (Some i)) (construct_id (Some c))"

lemma construct_id_None [simp]: "construct_id None = None"
  by (simp add: construct_id_def)

lemma resource_of_None [simp]: "resource_of c = None \<longleftrightarrow> construct_id (Some c) = None"
  by (simp add: resource_of_def)

lemma wf_New: "wf_results New"
  by (simp add: wf_results_def New_def)

lemma wf_Add: "wf_results r \<Longrightarrow> wf_results (Add c r)"
  by (auto simp: wf_results_def Add_def Let_def new_node_def construct_id_def split: option.splits)

lemma Components_Add:
  "Components (Add c r) = Components r @
     (case c of None \<Rightarrow> [] | Some x \<Rightarrow> if resource_of x = None then [] else [x])"
  by (auto simp: Components_def Add_def Let_def new_node_def resource_of_def construct_id_def
      split: option.splits)

lemma Get_Components:
  assumes "wf_results r"
  shows "map r_data (Get r k) = filter (\<lambda>c. resource_of c = Some k) (Components r)"
proof -
  have "r_ID n = k \<longleftrightarrow> resource_of (r_data n) = Some k" if "n \<in> set (r_roots r)" for n
  proof -
    have n: "n = new_node (r_data n)" "construct_id (Some (r_data n)) \<noteq> None"
      using assms that unfolding wf_results_def by blast+
    from n(2) obtain i where i: "construct_id (Some (r_data n)) = Some i" by blast
    have "r_ID n = r_ID (new_node (r_data n))" by (rule arg_cong[OF n(1)])
    also have "\<dots> = ExtractResource (Some i)" by (simp add: new_node_def prepareID_def i)
    finally show ?thesis by (simp add: resource_of_def i)
  qed
  then have "filter (\<lambda>n. r_ID n = k) (r_roots r) = filter (\<lambda>n. resource_of (r_data n) = Some k) (r_roots r)"
    by (simp cong: filter_cong)
  moreover have "r_nodes r k = filter (\<lambda>n. r_ID n = k) (r_roots r)" using assms by (simp add: wf_results_def)
  ultimately show ?thesis by (simp add: Get_def Components_def filter_map comp_def)
qed

interpretation cache: results_store New Add "\<lambda>r k. map r_data (Get r k)" Components resource_of wf_results
proof unfold_locales
  show "wf_results New" by (rule wf_New)
  show "Components New = []" by (simp add: Components_def New_def)
  show "wf_results s \<Longrightarrow> wf_results (Add c s)" for s c by (rule wf_Add)
  show "Components (Add c s) = Components s @
      (case c of None \<Rightarrow> [] | Some x \<Rightarrow> if resource_of x = None then [] else [x])" for c s
    by (rule Components_Add)
  show "wf_results s \<Longrightarrow> map r_data (Get s k) = filter (\<lambda>c. resource_of c = Some k) (Components s)" for s k
    by (rule Get_Components)
qed

lemma kept_conv: "cache.kept cs = map the (filter (\<lambda>c. construct_id c \<noteq> None) cs)"
proof (induction cs)
  case (Cons c cs)
  then show ?case by (cases c) simp_all
qed simp

section \<open>Properties\<close>

text \<open>
  Lookup by name after any sequence of \<open>Add\<close> calls (nil constructs, and constructs without
  a node or an id, included) yields exactly the added constructs whose id names the same resource, in
  the order they were added; an id may carry its hash suffix or not.
\<close>

theorem ComponentByName_adds:
  "ComponentByName (fold Add cs New) ident =
     filter (\<lambda>c. resource_of c = Some (ExtractResource (Some ident)))
       (map the (filter (\<lambda>c. construct_id c \<noteq> None) cs))"
proof -
  show ?thesis
    using cache.get_puts[of cs] by (simp add: ComponentByName_def cache.puts_def kept_conv)
qed

lemma parent_segment_append:
  "cur \<notin> set ps \<Longrightarrow> parent_segment cur q (ps @ cur # rest) = (if ps = [] then q else last ps)"
  by (induction ps arbitrary: q) auto

lemma pathSplit_join:
  "ps \<noteq> [] \<Longrightarrow> \<forall>p \<in> set ps. CHR ''/'' \<notin> set p \<and> p \<noteq> [] \<Longrightarrow> pathSplitFn (join_with ''/'' ps) = ps"
  by (simp add: pathSplitFn_def split_on_join)

text \<open>
  A construct whose path is \<open>a/b/.../id\<close>, its own id occurring once, hangs under the
  resource its last path segment before the id names, and is a root node exactly when the id is the
  first segment.
\<close>

theorem parentID_of_path:
  assumes "construct_id (Some c) = Some ident"
    and "construct_path (Some c) = Some (join_with ''/'' (ps @ [ident]))"
    and "\<forall>p \<in> set (ps @ [ident]). CHR ''/'' \<notin> set p \<and> p \<noteq> []" and "ident \<notin> set ps"
  shows "parentID (Some c) = (if ps = [] then [] else ExtractResource (Some (last ps)))"
proof -
  have "pathSplitFn (join_with ''/'' (ps @ [ident])) = ps @ [ident]"
    using assms(3) by (intro pathSplit_join) auto
  moreover have "parent_segment ident [] (ps @ [ident]) = (if ps = [] then [] else last ps)"
    using parent_segment_append[OF assms(4), of "[]" "[]"] by simp
  moreover have "ps \<noteq> [] \<Longrightarrow> last ps \<noteq> []" using assms(3) by auto
  ultimately show ?thesis
    using assms(1,2) by (simp add: parentID_def prepareID_def)
qed

theorem parentID_of_path_witness:
  "parentID (Some (Construct 0 (Some (CNode (Some ''sdk.Namespace-1bbec390'')
      (Some ''App/sdk.Root-0a1b2c3d/sdk.Namespace-1bbec390'') None))))
   = ExtractResource (Some ''sdk.Root-0a1b2c3d'')"
  using parentID_of_path[of "Construct 0 (Some (CNode (Some ''sdk.Namespace-1bbec390'')
      (Some ''App/sdk.Root-0a1b2c3d/sdk.Namespace-1bbec390'') None))" "''sdk.Namespace-1bbec390''"
      "[''App'', ''sdk.Root-0a1b2c3d'']"]
  by (simp add: construct_id_def construct_path_def)

lemma Components_fold: "Components (fold Add cs New) = map the (filter (\<lambda>c. construct_id c \<noteq> None) cs)"
  using cache.log_puts[of cs New] cache.log_empty by (simp add: cache.puts_def kept_conv)

end
