(* ===== verification/GoPath.thy ===== *)
theory GoPath
  imports GoStrings
begin

text \<open>
  The package path/filepath on Unix, as the code under src/ uses it: \<open>Clean\<close>, \<open>Join\<close>,
  \<open>Dir\<close>, \<open>Base\<close> and \<open>Ext\<close>.  \<open>clean_segs\<close> is the loop of \<open>Clean\<close> over the elements
  of a path, with the elements written so far as a stack.
\<close>

section \<open>Functions\<close>

abbreviation slash :: char where "slash \<equiv> CHR ''/''"

fun clean_segs :: "bool \<Rightarrow> string list \<Rightarrow> string list \<Rightarrow> string list" where
  "clean_segs rooted st [] = rev st"
| "clean_segs rooted st (s # ss) =
     (if s = [] \<or> s = ''.'' then clean_segs rooted st ss
      else if s = ''..'' then
        (case st of
           [] \<Rightarrow> clean_segs rooted (if rooted then [] else [''..'']) ss
         | seg # st' \<Rightarrow>
             if seg = ''..'' then clean_segs rooted (''..'' # st) ss
             else clean_segs rooted st' ss)
      else clean_segs rooted (s # st) ss)"

definition path_rooted :: "string \<Rightarrow> bool" where
  "path_rooted p = (p \<noteq> [] \<and> hd p = slash)"

definition path_segs :: "string \<Rightarrow> string list" where
  "path_segs p = clean_segs (path_rooted p) [] (split_on slash p)"

definition path_Clean :: "string \<Rightarrow> string" where
  "path_Clean p =
     (if p = [] then ''.''
      else if path_rooted p then slash # join_with [slash] (path_segs p)
      else if path_segs p = [] then ''.''
      else join_with [slash] (path_segs p))"

definition path_Join :: "string list \<Rightarrow> string" where
  "path_Join elems =
     (let ne = dropWhile (\<lambda>e. e = []) elems in
      if ne = [] then [] else path_Clean (join_with [slash] ne))"

definition path_Dir :: "string \<Rightarrow> string" where
  "path_Dir p =
     path_Clean (case last_index p slash of None \<Rightarrow> [] | Some i \<Rightarrow> take (Suc i) p)"

definition path_Base :: "string \<Rightarrow> string" where
  "path_Base p =
     (if p = [] then ''.''
      else
        let q = rev (dropWhile (\<lambda>c. c = slash) (rev p)) in
        if q = [] then ''/'' else rev (takeWhile (\<lambda>c. c \<noteq> slash) (rev q)))"

text \<open>The suffix from the last dot of the last element on; empty when there is none.\<close>

definition path_Ext :: "string \<Rightarrow> string" where
  "path_Ext p =
     (let b = rev (takeWhile (\<lambda>c. c \<noteq> slash) (rev p)) in
      case last_index b (CHR ''.'') of None \<Rightarrow> [] | Some i \<Rightarrow> drop i b)"

section \<open>Laws\<close>

definition simple_seg :: "string \<Rightarrow> bool" where
  "simple_seg s = (s \<noteq> [] \<and> s \<noteq> ''.'' \<and> s \<noteq> ''..'' \<and> slash \<notin> set s)"

definition up_then_simple :: "string list \<Rightarrow> bool" where
  "up_then_simple ss = (\<exists>n rest. ss = replicate n ''..'' @ rest \<and> list_all simple_seg rest)"

lemma clean_segs_simple:
  "list_all simple_seg ss \<Longrightarrow> clean_segs r st ss = rev st @ ss"
  by (induction ss arbitrary: st) (auto simp: simple_seg_def)

lemma clean_segs_rooted:
  "list_all simple_seg st \<Longrightarrow> (\<And>s. s \<in> set ss \<Longrightarrow> slash \<notin> set s) \<Longrightarrow>
     list_all simple_seg (clean_segs True st ss)"
  by (induction ss arbitrary: st) (auto simp: simple_seg_def split: list.splits)

lemma simple_not_up: "simple_seg s \<Longrightarrow> s \<noteq> ''..''"
  by (simp add: simple_seg_def)

lemma rev_up_then_simple:
  "up_then_simple (rev st) \<longleftrightarrow> (\<exists>n rest. st = rest @ replicate n ''..'' \<and> list_all simple_seg rest)"
proof
  assume "up_then_simple (rev st)"
  then obtain n rest where "rev st = replicate n ''..'' @ rest" "list_all simple_seg rest"
    by (auto simp: up_then_simple_def)
  then have "st = rev rest @ replicate n ''..''" "list_all simple_seg (rev rest)"
    by (metis rev_append rev_replicate rev_rev_ident) (simp add: \<open>list_all simple_seg rest\<close>)
  then show "\<exists>n rest. st = rest @ replicate n ''..'' \<and> list_all simple_seg rest" by blast
next
  assume "\<exists>n rest. st = rest @ replicate n ''..'' \<and> list_all simple_seg rest"
  then obtain n rest where "st = rest @ replicate n ''..''" "list_all simple_seg rest" by blast
  then show "up_then_simple (rev st)"
    unfolding up_then_simple_def by (intro exI[of _ n] exI[of _ "rev rest"]) simp
qed

lemma up_push: "up_then_simple (rev st) \<Longrightarrow> simple_seg s \<Longrightarrow> up_then_simple (rev (s # st))"
  unfolding rev_up_then_simple by (metis append_Cons list.pred_inject(2))

lemma up_up: "up_then_simple (rev (''..'' # st)) \<Longrightarrow> up_then_simple (rev (''..'' # ''..'' # st))"
  unfolding rev_up_then_simple
proof -
  assume "\<exists>n rest. ''..'' # st = rest @ replicate n ''..'' \<and> list_all simple_seg rest"
  then obtain n rest where r: "''..'' # st = rest @ replicate n ''..''" "list_all simple_seg rest" by blast
  then have "rest = []" by (cases rest) (auto simp: simple_seg_def)
  with r have "''..'' # ''..'' # st = [] @ replicate (Suc n) ''..''" by simp
  then show "\<exists>n rest. ''..'' # ''..'' # st = rest @ replicate n ''..'' \<and> list_all simple_seg rest"
    by (metis list.pred_inject(1))
qed

lemma up_pop: "up_then_simple (rev (seg # st)) \<Longrightarrow> seg \<noteq> ''..'' \<Longrightarrow> up_then_simple (rev st)"
  unfolding rev_up_then_simple
proof -
  assume "\<exists>n rest. seg # st = rest @ replicate n ''..'' \<and> list_all simple_seg rest" "seg \<noteq> ''..''"
  then obtain n rest where r: "seg # st = rest @ replicate n ''..''" "list_all simple_seg rest" by blast
  with \<open>seg \<noteq> ''..''\<close> obtain rest' where "rest = seg # rest'"
    by (cases rest; cases n) auto
  with r show "\<exists>n rest. st = rest @ replicate n ''..'' \<and> list_all simple_seg rest" by auto
qed

lemma clean_segs_shape:
  "up_then_simple (rev st) \<Longrightarrow> (\<And>s. s \<in> set ss \<Longrightarrow> slash \<notin> set s) \<Longrightarrow>
     up_then_simple (clean_segs False st ss)"
proof (induction ss arbitrary: st)
  case (Cons s ss)
  have seg: "slash \<notin> set s" "\<And>x. x \<in> set ss \<Longrightarrow> slash \<notin> set x" using Cons.prems(2) by auto
  have nil: "up_then_simple (rev [''..''])"
    unfolding rev_up_then_simple by (intro exI[of _ 1] exI[of _ "[]"]) simp
  show ?case
  proof (cases st)
    case Nil
    then show ?thesis using Cons.IH[OF _ seg(2)] Cons.prems(1) nil up_push[of st s] seg(1)
      by (simp add: simple_seg_def)
  next
    case (Cons seg st')
    then show ?thesis
      using Cons.IH[OF _ seg(2)] Cons.prems(1) up_push[of st s] up_up[of st'] up_pop[of seg st'] seg(1)
      by (auto simp: simple_seg_def)
  qed
qed simp

lemma clean_segs_ups:
  "list_all simple_seg rest \<Longrightarrow>
     clean_segs False (replicate k ''..'') (replicate n ''..'' @ rest) = replicate (k + n) ''..'' @ rest"
proof (induction n arbitrary: k)
  case 0
  then show ?case by (simp add: clean_segs_simple)
next
  case (Suc n)
  then show ?case using Suc.IH[of "Suc k"] by (cases k) simp_all
qed

lemma split_join_segs:
  "ss \<noteq> [] \<Longrightarrow> (\<And>s. s \<in> set ss \<Longrightarrow> slash \<notin> set s) \<Longrightarrow> split_on slash (join_with [slash] ss) = ss"
  by (simp add: split_on_join)

lemma join_hd: "ss \<noteq> [] \<Longrightarrow> hd ss \<noteq> [] \<Longrightarrow> hd (join_with [slash] ss) = hd (hd ss) \<and> join_with [slash] ss \<noteq> []"
  by (cases ss; cases "tl ss") (auto simp: neq_Nil_conv)

lemma path_segs_relative:
  assumes "up_then_simple ss" "ss \<noteq> []"
  shows "path_segs (join_with [slash] ss) = ss" "\<not> path_rooted (join_with [slash] ss)"
    "join_with [slash] ss \<noteq> []"
proof -
  obtain n rest where ss: "ss = replicate n ''..'' @ rest" "list_all simple_seg rest"
    using assms(1) by (auto simp: up_then_simple_def)
  have no: "slash \<notin> set s \<and> s \<noteq> []" if "s \<in> set ss" for s
  proof -
    from that ss(1) have "s = ''..'' \<or> s \<in> set rest" by (metis Un_iff in_set_replicate set_append)
    moreover have "simple_seg s" if "s \<in> set rest" using ss(2) that by (simp add: list_all_iff)
    ultimately show ?thesis unfolding simple_seg_def by fastforce
  qed
  from no[OF hd_in_set[OF assms(2)]] have hd: "hd ss \<noteq> []" "slash \<notin> set (hd ss)" by simp_all
  note j = join_hd[OF assms(2) hd(1)]
  show "join_with [slash] ss \<noteq> []" using j by simp
  have "hd (hd ss) \<noteq> slash" using hd by (metis hd_in_set)
  with j show nr: "\<not> path_rooted (join_with [slash] ss)" by (simp add: path_rooted_def)
  have "clean_segs False [] ss = ss" using clean_segs_ups[OF ss(2), of 0 n] ss(1) by simp
  then show "path_segs (join_with [slash] ss) = ss"
    using split_join_segs[OF assms(2)] no nr by (simp add: path_segs_def)
qed

lemma path_segs_rooted:
  assumes "list_all simple_seg ss"
  shows "path_segs (slash # join_with [slash] ss) = ss" "path_rooted (slash # join_with [slash] ss)"
proof -
  show r: "path_rooted (slash # join_with [slash] ss)" by (simp add: path_rooted_def)
  have "split_on slash (join_with [slash] ss) = ss" if "ss \<noteq> []"
    using split_join_segs[OF that] assms by (auto simp: list_all_iff simple_seg_def)
  then show "path_segs (slash # join_with [slash] ss) = ss"
    using assms r by (cases "ss = []") (simp_all add: path_segs_def clean_segs_simple)
qed

lemma path_Clean_relative: "up_then_simple ss \<Longrightarrow> ss \<noteq> [] \<Longrightarrow> path_Clean (join_with [slash] ss) = join_with [slash] ss"
  by (simp add: path_Clean_def path_segs_relative)

lemma path_Clean_idem: "path_Clean (path_Clean p) = path_Clean p"
proof -
  have no: "\<And>s. s \<in> set (split_on slash p) \<Longrightarrow> slash \<notin> set s" by (rule split_on_no_sep)
  consider "p = []" | "path_rooted p" | "p \<noteq> []" "\<not> path_rooted p" "path_segs p = []"
    | "p \<noteq> []" "\<not> path_rooted p" "path_segs p \<noteq> []" by blast
  then show ?thesis
  proof cases
    case 2
    have p: "p \<noteq> []" using 2 by (simp add: path_rooted_def)
    from 2 have "list_all simple_seg (path_segs p)"
      using clean_segs_rooted[of "[]" "split_on slash p"] no by (simp add: path_segs_def)
    note r = path_segs_rooted[OF this]
    show ?thesis by (simp add: path_Clean_def 2 p r)
  next
    case 4
    have "up_then_simple []" by (simp add: up_then_simple_def)
    with 4 have "up_then_simple (path_segs p)"
      using clean_segs_shape[of "[]" "split_on slash p"] no by (simp add: path_segs_def)
    with 4 show ?thesis using path_Clean_relative by (simp add: path_Clean_def path_segs_relative)
  qed (simp_all add: path_Clean_def path_segs_def path_rooted_def)
qed

lemma simple_up: "list_all simple_seg ss \<Longrightarrow> up_then_simple ss"
  unfolding up_then_simple_def by (intro exI[of _ 0] exI[of _ ss]) simp

lemma path_Join_simple:
  assumes "list_all simple_seg ss" "ss \<noteq> []"
  shows "path_Join ss = join_with [slash] ss"
proof -
  have "dropWhile (\<lambda>e. e = []) ss = ss" using assms by (cases ss) (auto simp: simple_seg_def)
  with assms show ?thesis by (simp add: path_Join_def path_Clean_relative simple_up)
qed

lemma path_Dir_simple:
  assumes "list_all simple_seg (ss @ [f])"
  shows "path_Dir (join_with [slash] (ss @ [f])) = (if ss = [] then ''.'' else join_with [slash] ss)"
proof (cases "ss = []")
  case True
  with assms show ?thesis
    by (simp add: path_Dir_def last_index_def simple_seg_def path_Clean_def)
next
  case False
  let ?d = "join_with [slash] ss"
  have f: "slash \<notin> set f" using assms by (simp add: simple_seg_def)
  have j: "join_with [slash] (ss @ [f]) = ?d @ slash # f" using join_with_snoc[OF False] by simp
  have "takeWhile (\<lambda>x. x \<noteq> slash) (rev (?d @ slash # f)) = rev f"
    using f takeWhile_marker[of slash "rev f" "rev ?d"] by simp
  then have "last_index (?d @ slash # f) slash = Some (length ?d)" by (simp add: last_index_def)
  then have dir: "path_Dir (?d @ slash # f) = path_Clean (?d @ [slash])" by (simp add: path_Dir_def)
  have ss: "up_then_simple ss" "list_all simple_seg ss" using assms simple_up by auto
  note rel = path_segs_relative[OF ss(1) False]
  have "split_on slash (?d @ [slash]) = ss @ [[]]"
    using split_on_append[of slash ?d "[]"] split_join_segs[OF False] ss(2)
    by (auto simp: list_all_iff simple_seg_def)
  moreover have "clean_segs False [] (ss @ [[]]) = ss" for r
  proof -
    have "clean_segs r st (ss @ [[]]) = rev st @ ss" for r st
      using ss(2) by (induction ss arbitrary: st) (auto simp: simple_seg_def)
    then show ?thesis by simp
  qed
  moreover have "\<not> path_rooted (?d @ [slash])" using rel(2,3) by (simp add: path_rooted_def)
  ultimately show ?thesis using False j dir by (simp add: path_Clean_def path_segs_def)
qed

end
