(* ===== verification/FileHandler.thy ===== *)
theory FileHandler
  imports Errors GoPath "HOL-Library.AList" "HOL-Library.List_Lexorder" "HOL-Library.Char_ord"
begin

text \<open>
  The file handler, internal/adapter/filehandler (filehandler.go, buffered_reader.go), over a model
  of the operating system's file tree: a directory is an association list from names to nodes, and
  a failed system call is an error value.  A handler holds the absolute path of the directory that
  \<open>os.OpenRoot\<close> opened, or, for \<open>NewReadOnlyFS\<close>, a fixed tree.  Symbolic links, permissions and
  device errors are not modelled; \<open>..\<close> inside a root is resolved lexically.  A loop over the
  iterator of \<open>Scan\<close> is a fold whose body says whether it wants more: resuming a body that has
  finished is the run-time panic Go raises.
\<close>

section \<open>The file tree\<close>

datatype fnode = FileN string | DirN "(string \<times> fnode) list"

fun walk :: "fnode \<Rightarrow> string list \<Rightarrow> goerr + fnode" where
  "walk n [] = Inr n"
| "walk (FileN _) (s # ss) = Inl (ErrText ''not a directory'')"
| "walk (DirN es) (s # ss) =
     (case map_of es s of None \<Rightarrow> Inl (Sentinel ErrNotExist) | Some n \<Rightarrow> walk n ss)"

definition file_at :: "fnode \<Rightarrow> string list \<Rightarrow> string option" where
  "file_at t ss = (case walk t ss of Inr (FileN d) \<Rightarrow> Some d | _ \<Rightarrow> None)"

definition dir_at :: "fnode \<Rightarrow> string list \<Rightarrow> bool" where
  "dir_at t ss = (case walk t ss of Inr (DirN _) \<Rightarrow> True | _ \<Rightarrow> False)"

text \<open>\<open>os.MkdirAll\<close>.\<close>

fun mkdir_all :: "string list \<Rightarrow> fnode \<Rightarrow> goerr + fnode" where
  "mkdir_all ss (FileN d) = Inl (ErrText ''not a directory'')"
| "mkdir_all [] (DirN es) = Inr (DirN es)"
| "mkdir_all (s # ss) (DirN es) =
     (case mkdir_all ss (case map_of es s of None \<Rightarrow> DirN [] | Some n \<Rightarrow> n) of
        Inl e \<Rightarrow> Inl e
      | Inr n \<Rightarrow> Inr (DirN (AList.update s n es)))"

text \<open>Create or truncate the file and give it a content.\<close>

fun put_file :: "string list \<Rightarrow> string \<Rightarrow> fnode \<Rightarrow> goerr + fnode" where
  "put_file [] d n = Inl (ErrText ''is a directory'')"
| "put_file (s # ss) d (FileN _) = Inl (ErrText ''not a directory'')"
| "put_file (s # ss) d (DirN es) =
     (if ss = [] then
        (case map_of es s of
           Some (DirN _) \<Rightarrow> Inl (ErrText ''is a directory'')
         | _ \<Rightarrow> Inr (DirN (AList.update s (FileN d) es)))
      else
        (case map_of es s of
           None \<Rightarrow> Inl (Sentinel ErrNotExist)
         | Some n \<Rightarrow>
             (case put_file ss d n of
                Inl e \<Rightarrow> Inl e
              | Inr n' \<Rightarrow> Inr (DirN (AList.update s n' es)))))"

text \<open>The files of a tree in the order of \<open>fs.WalkDir\<close>: directory entries sorted by name.\<close>

fun walk_files :: "string list \<Rightarrow> fnode \<Rightarrow> string list list" where
  "walk_files pre (FileN d) = [pre]"
| "walk_files pre (DirN es) =
     concat (map snd (sort_key fst (map (\<lambda>(n, c). (n, walk_files (pre @ [n]) c)) es)))"

section \<open>Handlers\<close>

record os_state =
  os_tree :: fnode
  os_cwd :: string

record handler =
  h_root :: "string option"
  h_fixed :: fnode

definition abs_segs :: "os_state \<Rightarrow> string \<Rightarrow> string list" where
  "abs_segs os p = path_segs (if path_rooted p then p else os_cwd os @ slash # p)"

definition root_tree :: "os_state \<Rightarrow> handler \<Rightarrow> goerr + fnode" where
  "root_tree os h =
     (case h_root h of None \<Rightarrow> Inr (h_fixed h) | Some r \<Rightarrow> walk (os_tree os) (abs_segs os r))"

text \<open>The name checks of \<open>os.Root\<close> and of the \<open>fs.FS\<close> it gives.\<close>

definition root_name :: "string \<Rightarrow> goerr + string list" where
  "root_name name =
     (if name = [] then Inl (Sentinel ErrNotExist)
      else if path_rooted name then Inl (ErrText ''path escapes from parent'')
      else
        let ss = path_segs name in
        if ss \<noteq> [] \<and> hd ss = ''..'' then Inl (ErrText ''path escapes from parent'') else Inr ss)"

definition valid_utf8 :: "string \<Rightarrow> bool" where
  "valid_utf8 s = list_all (\<lambda>(r, bs). r \<noteq> rune_error \<or> length bs \<noteq> 1) (segments s)"

definition valid_path :: "string \<Rightarrow> bool" where
  "valid_path name =
     (valid_utf8 name \<and>
      (name = ''.'' \<or> list_all (\<lambda>s. s \<noteq> [] \<and> s \<noteq> ''.'' \<and> s \<noteq> ''..'') (split_on slash name)))"

definition fs_open :: "fnode \<Rightarrow> string \<Rightarrow> goerr + fnode" where
  "fs_open t name =
     (if \<not> valid_path name then Inl (ErrText ''invalid name'')
      else walk t (if name = ''.'' then [] else split_on slash name))"

definition NewReadOnlyFS :: "fnode \<Rightarrow> handler" where
  "NewReadOnlyFS f = \<lparr>h_root = None, h_fixed = f\<rparr>"

text \<open>\<open>New\<close> calls itself after it has created the directory; the first argument bounds the calls.\<close>

fun NewHandler :: "nat \<Rightarrow> os_state \<Rightarrow> string \<Rightarrow> (os_state \<times> (goerr + handler)) option" where
  "NewHandler 0 os root = None"
| "NewHandler (Suc n) os root =
     (case walk (os_tree os) (abs_segs os root) of
        Inr (DirN _) \<Rightarrow> Some (os, Inr \<lparr>h_root = Some root, h_fixed = DirN []\<rparr>)
      | Inr (FileN _) \<Rightarrow> Some (os, Inl (ErrText ''not a directory''))
      | Inl e \<Rightarrow>
          if \<not> is_sentinel e ErrNotExist then Some (os, Inl e)
          else
            (case mkdir_all (abs_segs os root) (os_tree os) of
               Inl e' \<Rightarrow> Some (os, Inl (JoinErr [e', Sentinel ErrNotExist]))
             | Inr t \<Rightarrow> NewHandler n (os\<lparr>os_tree := t\<rparr>) root))"

definition HandlerName :: "handler \<Rightarrow> string" where
  "HandlerName h = (case h_root h of None \<Rightarrow> ''.'' | Some r \<Rightarrow> r)"

definition AbsPathFor :: "handler \<Rightarrow> string list \<Rightarrow> string" where
  "AbsPathFor h parts =
     (case h_root h of
        None \<Rightarrow> path_Clean (path_Join [''.'', path_Join parts])
      | Some r \<Rightarrow> path_Clean (path_Join [r, path_Join parts]))"

definition root_lookup :: "os_state \<Rightarrow> handler \<Rightarrow> string \<Rightarrow> goerr + fnode" where
  "root_lookup os h name =
     (case root_name name of
        Inl e \<Rightarrow> Inl e
      | Inr ss \<Rightarrow> (case root_tree os h of Inl e \<Rightarrow> Inl e | Inr t \<Rightarrow> walk t ss))"

definition FileExists :: "os_state \<Rightarrow> handler \<Rightarrow> string \<Rightarrow> bool" where
  "FileExists os h name =
     (if h_root h = None then False
      else
        (case root_lookup os h name of
           Inr _ \<Rightarrow> True
         | Inl e \<Rightarrow> \<not> is_sentinel e ErrNotExist))"

definition DirExists :: "os_state \<Rightarrow> handler \<Rightarrow> string \<Rightarrow> bool" where
  "DirExists os h name =
     (if h_root h = None then False
      else (case root_lookup os h name of Inr (DirN _) \<Rightarrow> True | _ \<Rightarrow> False))"

definition handler_Open :: "os_state \<Rightarrow> handler \<Rightarrow> string \<Rightarrow> goerr + fnode" where
  "handler_Open os h name = (case root_tree os h of Inl e \<Rightarrow> Inl e | Inr t \<Rightarrow> fs_open t name)"

text \<open>The readers a \<open>BufferedReader\<close> is built with, on the whole content of a file.\<close>

definition DefaultReader :: "string \<Rightarrow> string" where
  "DefaultReader r = r"

definition LimitReader :: "int \<Rightarrow> string \<Rightarrow> string" where
  "LimitReader limit r = take (nat limit) r"

definition BufferedReader_ReadFile ::
    "(string \<Rightarrow> string) \<Rightarrow> (string \<Rightarrow> goerr + fnode) \<Rightarrow> string \<Rightarrow> goerr + string" where
  "BufferedReader_ReadFile r opn name =
     (case opn name of
        Inl e \<Rightarrow> Inl e
      | Inr (DirN _) \<Rightarrow> Inl (JoinErr [ErrText ''is a directory''])
      | Inr (FileN d) \<Rightarrow> Inr (r d))"

definition ReadFile :: "os_state \<Rightarrow> handler \<Rightarrow> string \<Rightarrow> goerr + string" where
  "ReadFile os h name = BufferedReader_ReadFile DefaultReader (handler_Open os h) name"

section \<open>Writing\<close>

definition ErrInvalid :: goerr where "ErrInvalid = ErrText ''invalid argument''"

definition MkdirAll :: "os_state \<Rightarrow> handler \<Rightarrow> string \<Rightarrow> goerr option \<times> os_state" where
  "MkdirAll os h name =
     (case h_root h of
        None \<Rightarrow> (Some (Sentinel ErrReadOnlyFileSystem), os)
      | Some r \<Rightarrow>
          (case mkdir_all (abs_segs os (path_Join [r, name])) (os_tree os) of
             Inl e \<Rightarrow> (Some e, os)
           | Inr t \<Rightarrow> (None, os\<lparr>os_tree := t\<rparr>)))"

text \<open>\<open>Create\<close> followed by writing \<open>data\<close> to the open file.\<close>

definition create_write ::
    "os_state \<Rightarrow> handler \<Rightarrow> string \<Rightarrow> string \<Rightarrow> goerr + os_state" where
  "create_write os h name data =
     (case h_root h of
        None \<Rightarrow> Inl (Sentinel ErrReadOnlyFileSystem)
      | Some r \<Rightarrow>
          (case root_name name of
             Inl e \<Rightarrow> Inl e
           | Inr ss \<Rightarrow>
               (case put_file (abs_segs os r @ ss) data (os_tree os) of
                  Inl e \<Rightarrow> Inl e
                | Inr t \<Rightarrow> Inr (os\<lparr>os_tree := t\<rparr>))))"

definition WriteFile ::
    "os_state \<Rightarrow> handler \<Rightarrow> string \<Rightarrow> string \<Rightarrow> goerr option \<times> os_state" where
  "WriteFile os h name data =
     (if h_root h = None then (Some (Sentinel ErrReadOnlyFileSystem), os)
      else
        let dir = path_Dir name in
        case MkdirAll os h dir of
          (Some e, os1) \<Rightarrow> (Some (WrapErr (''creating directory '' @ quote dir) e), os1)
        | (None, os1) \<Rightarrow>
            (case create_write os1 h name data of
               Inr os2 \<Rightarrow> (None, os2)
             | Inl e \<Rightarrow>
                 if \<not> is_sentinel e ErrNotExist
                 then (Some (WrapErr (''opening file '' @ quote name) e), os1)
                 else (join_errors [Wrapf (Some ErrInvalid) (''writing file '' @ quote name), Some ErrInvalid], os1)))"

section \<open>Scan and copy\<close>

text \<open>
  The loop \<open>for x := range it { ... }\<close> over an iterator that ignores what \<open>yield\<close> returns: the
  body returns the new state and whether the loop goes on; a call of \<open>yield\<close> after the body has
  left the loop panics.
\<close>

datatype 's loop_result = LoopDone 's | LoopPanic

fun range_loop :: "('s \<Rightarrow> string \<Rightarrow> 's \<times> bool) \<Rightarrow> string list \<Rightarrow> bool \<Rightarrow> 's \<Rightarrow> 's loop_result" where
  "range_loop body [] live s = LoopDone s"
| "range_loop body (p # ps) live s =
     (if \<not> live then LoopPanic
      else case body s p of (s', cont) \<Rightarrow> range_loop body ps cont s')"

definition path_str :: "string list \<Rightarrow> string" where
  "path_str ss = (if ss = [] then ''.'' else join_with [slash] ss)"

definition Scan :: "os_state \<Rightarrow> handler \<Rightarrow> (string \<Rightarrow> goerr option) \<Rightarrow> string list" where
  "Scan os h fileFn =
     (case root_tree os h of
        Inl e \<Rightarrow> []
      | Inr t \<Rightarrow> filter (\<lambda>p. fileFn p = None)
          (map path_str (walk_files [] t)))"

definition CopyFile :: "os_state \<Rightarrow> handler \<Rightarrow> handler \<Rightarrow> string \<Rightarrow> goerr option \<times> os_state" where
  "CopyFile os src dst file =
     (case handler_Open os src file of
        Inl e \<Rightarrow> (Some e, os)
      | Inr (DirN _) \<Rightarrow>
          (case create_write os dst file [] of
             Inl e \<Rightarrow> (Some (JoinErr [e]), os)
           | Inr os1 \<Rightarrow> (Some (JoinErr [JoinErr [ErrText ''is a directory'']]), os1))
      | Inr (FileN d) \<Rightarrow>
          (case create_write os dst file d of
             Inl e \<Rightarrow> (Some (JoinErr [e]), os)
           | Inr os1 \<Rightarrow> (None, os1)))"

definition copy_step ::
    "handler \<Rightarrow> handler \<Rightarrow> goerr option \<times> os_state \<Rightarrow> string \<Rightarrow> (goerr option \<times> os_state) \<times> bool" where
  "copy_step src dst st file =
     (case FirstErrorFns
        [\<lambda>os. MkdirAll os dst (path_Dir file), \<lambda>os. CopyFile os src dst file] (snd st) of
        (None, os') \<Rightarrow> ((None, os'), True)
      | (Some e, os') \<Rightarrow> ((Some e, os'), False))"

definition CopyDir :: "os_state \<Rightarrow> handler \<Rightarrow> handler \<Rightarrow> (goerr option \<times> os_state) loop_result" where
  "CopyDir os src dst =
     range_loop (copy_step src dst) (Scan os src (\<lambda>_. None)) True (None, os)"

section \<open>Laws of the file tree\<close>

lemma walk_append:
  "walk t (a @ b) = (case walk t a of Inl e \<Rightarrow> Inl e | Inr n \<Rightarrow> walk n b)"
proof (induction t a rule: walk.induct)
  case (3 es s ss)
  then show ?case by (simp split: option.splits)
qed simp_all

lemma file_at_Cons [simp]:
  "file_at (DirN es) (s # ss) = (case map_of es s of None \<Rightarrow> None | Some n \<Rightarrow> file_at n ss)"
  "file_at (FileN d) (s # ss) = None"
  "file_at (FileN d) [] = Some d" "file_at (DirN es) [] = None"
  by (auto simp: file_at_def split: option.splits)

lemma dir_at_Cons [simp]:
  "dir_at (DirN es) (s # ss) = (case map_of es s of None \<Rightarrow> False | Some n \<Rightarrow> dir_at n ss)"
  "\<not> dir_at (FileN d) ss" "dir_at (DirN es) []"
  by (auto simp: dir_at_def split: option.splits) (cases ss, simp_all)

lemma file_at_empty [simp]: "file_at (DirN []) q = None"
  by (cases q) simp_all

lemma file_at_update:
  "file_at (DirN (AList.update s n es)) q =
     (case q of [] \<Rightarrow> None | x # xs \<Rightarrow> if x = s then file_at n xs else file_at (DirN es) q)"
  by (cases q) (auto simp: AList.update_conv')

lemma mkdir_all_files:
  "mkdir_all ss t = Inr t' \<Longrightarrow> file_at t' = file_at t"
proof (induction ss t arbitrary: t' rule: mkdir_all.induct)
  case (3 s ss es)
  then obtain n where n: "mkdir_all ss (case map_of es s of None \<Rightarrow> DirN [] | Some n \<Rightarrow> n) = Inr n"
    and t': "t' = DirN (AList.update s n es)" by (auto split: sum.splits)
  note ih = "3.IH"[OF n]
  show ?case
  proof
    fix q show "file_at t' q = file_at (DirN es) q"
      unfolding t' file_at_update by (cases q) (auto simp: ih split: option.splits)
  qed
qed simp_all

lemma mkdir_all_dir: "mkdir_all ss t = Inr t' \<Longrightarrow> dir_at t' ss"
proof (induction ss t arbitrary: t' rule: mkdir_all.induct)
  case (3 s ss es)
  then show ?case by (auto simp: AList.update_conv' split: sum.splits)
qed (auto simp: dir_at_def)

lemma mkdir_all_ok:
  "(\<exists>t'. mkdir_all ss t = Inr t') \<longleftrightarrow> (\<forall>n \<le> length ss. file_at t (take n ss) = None)"
proof (induction ss t rule: mkdir_all.induct)
  case (1 ss d)
  then show ?case by (auto intro: exI[of _ 0])
next
  case (3 s ss es)
  let ?c = "case map_of es s of None \<Rightarrow> DirN [] | Some n \<Rightarrow> n"
  have "(\<forall>n \<le> length (s # ss). file_at (DirN es) (take n (s # ss)) = None)
      \<longleftrightarrow> (\<forall>n \<le> length ss. file_at (DirN es) (s # take n ss) = None)" (is "?A = ?B")
  proof
    assume ?A
    then show ?B by (metis Suc_le_mono length_Cons take_Suc_Cons)
  next
    assume B: ?B
    show ?A
    proof (intro allI impI)
      fix n assume "n \<le> length (s # ss)"
      with B show "file_at (DirN es) (take n (s # ss)) = None" by (cases n) simp_all
    qed
  qed
  also have "\<dots> \<longleftrightarrow> (\<forall>n \<le> length ss. file_at ?c (take n ss) = None)"
    by (cases "map_of es s") simp_all
  finally show ?case using "3.IH" by (auto split: sum.splits)
qed simp

lemma put_file_at:
  "put_file ss d t = Inr t' \<Longrightarrow> file_at t' = (file_at t)(ss := Some d)"
proof (induction ss d t arbitrary: t' rule: put_file.induct)
  case (3 s ss d es)
  show ?case
  proof (cases "ss = []")
    case True
    with "3.prems" have t': "t' = DirN (AList.update s (FileN d) es)"
      and nd: "\<And>xs. map_of es s \<noteq> Some (DirN xs)"
      by (auto split: option.splits fnode.splits)
    have "file_at t' q = ((file_at (DirN es))(s # ss := Some d)) q" for q
    proof (cases q)
      case (Cons x xs)
      show ?thesis
      proof (cases "x = s \<and> xs \<noteq> []")
        case True
        then have "file_at (DirN es) q = None"
          using nd Cons by (cases "map_of es s"; cases "the (map_of es s)"; cases xs) auto
        with True Cons \<open>ss = []\<close> show ?thesis
          unfolding t' file_at_update by (cases xs) simp_all
      next
        case False
        with Cons True show ?thesis unfolding t' file_at_update by auto
      qed
    next
      case Nil
      then show ?thesis unfolding t' file_at_update by simp
    qed
    then show ?thesis by blast
  next
    case False
    with "3.prems" obtain n n' where n: "map_of es s = Some n" "put_file ss d n = Inr n'"
      and t': "t' = DirN (AList.update s n' es)" by (auto split: option.splits sum.splits)
    have "file_at t' q = ((file_at (DirN es))(s # ss := Some d)) q" for q
      unfolding t' file_at_update using "3.IH"[OF False n] n by (cases q) auto
    then show ?thesis by blast
  qed
qed simp_all

lemma put_file_ok:
  "(\<exists>t'. put_file (ss @ [f]) d t = Inr t') \<longleftrightarrow> dir_at t ss \<and> \<not> dir_at t (ss @ [f])"
proof (induction ss arbitrary: t)
  case Nil
  show ?case by (cases t) (auto split: option.splits fnode.splits)
next
  case (Cons s ss)
  show ?case
  proof (cases t)
    case (DirN es)
    then show ?thesis
      by (cases "map_of es s"; cases "put_file (ss @ [f]) d (the (map_of es s))")
         (use Cons.IH[of "the (map_of es s)"] in \<open>auto\<close>)
  qed simp
qed

text \<open>A well-formed tree: what a real directory listing looks like.\<close>

fun wf_node :: "fnode \<Rightarrow> bool" where
  "wf_node (FileN d) = True"
| "wf_node (DirN es) =
     (distinct (map fst es) \<and> list_all (\<lambda>(n, c). simple_seg n \<and> wf_node c) es)"

lemma wf_node_seg: "wf_node t \<Longrightarrow> file_at t q = Some d \<Longrightarrow> list_all simple_seg q"
proof (induction t arbitrary: q)
  case (DirN es)
  show ?case
  proof (cases q)
    case (Cons s ss)
    with DirN.prems obtain n where n: "map_of es s = Some n" "file_at n ss = Some d"
      by (auto split: option.splits)
    then have "(s, n) \<in> set es" by (simp add: map_of_SomeD)
    with DirN.prems(1) have "simple_seg s" "wf_node n" by (auto simp: list_all_iff)
    moreover have "list_all simple_seg ss"
      using DirN.IH[OF \<open>(s, n) \<in> set es\<close> _ \<open>wf_node n\<close> n(2)] by simp
    ultimately show ?thesis using Cons by simp
  qed simp
next
  case (FileN x)
  then show ?case by (cases q) simp_all
qed

section \<open>The order of Scan\<close>

lemma append_less_append [simp]: "(pre @ a < pre @ b) \<longleftrightarrow> ((a :: 'a::linorder list) < b)"
  by (induction pre) auto

lemma sorted_wrt_concat:
  "(\<And>xs. xs \<in> set xss \<Longrightarrow> sorted_wrt P xs) \<Longrightarrow>
     sorted_wrt (\<lambda>xs ys. \<forall>x \<in> set xs. \<forall>y \<in> set ys. P x y) xss \<Longrightarrow> sorted_wrt P (concat xss)"
  by (induction xss) (auto simp: sorted_wrt_append)

lemma file_at_DirN_iff:
  "file_at (DirN es) q = Some d \<longleftrightarrow> (\<exists>s c ss. q = s # ss \<and> map_of es s = Some c \<and> file_at c ss = Some d)"
  by (cases q) (auto split: option.splits)

lemma set_walk_files:
  "wf_node t \<Longrightarrow> set (walk_files pre t) = {pre @ q | q. file_at t q \<noteq> None}"
proof (induction pre t rule: walk_files.induct)
  case (1 pre d)
  have "file_at (FileN d) q \<noteq> None \<longleftrightarrow> q = []" for q by (cases q) simp_all
  then show ?case by auto
next
  case (2 pre es)
  have ih: "set (walk_files (pre @ [n]) c) = {pre @ n # q | q. file_at c q \<noteq> None}" if "(n, c) \<in> set es" for n c
    using 2 that by (fastforce simp: list_all_iff)
  have d: "distinct (map fst es)" using 2(2) by simp
  have "set (walk_files pre (DirN es)) = (\<Union>(n, c) \<in> set es. set (walk_files (pre @ [n]) c))" by auto
  also have "\<dots> = (\<Union>(n, c) \<in> set es. {pre @ n # q | q. file_at c q \<noteq> None})" using ih by auto
  also have "\<dots> = {pre @ q | q. file_at (DirN es) q \<noteq> None}"
  proof (intro set_eqI iffI)
    fix x assume "x \<in> (\<Union>(n, c) \<in> set es. {pre @ n # q | q. file_at c q \<noteq> None})"
    then obtain n c q where "(n, c) \<in> set es" "x = pre @ n # q" "file_at c q \<noteq> None" by blast
    moreover from this d have "map_of es n = Some c" by simp
    ultimately show "x \<in> {pre @ q | q. file_at (DirN es) q \<noteq> None}" by auto
  next
    fix x assume "x \<in> {pre @ q | q. file_at (DirN es) q \<noteq> None}"
    then obtain s c ss where "x = pre @ s # ss" "map_of es s = Some c" "file_at c ss \<noteq> None"
      by (auto simp: file_at_DirN_iff)
    then show "x \<in> (\<Union>(n, c) \<in> set es. {pre @ n # q | q. file_at c q \<noteq> None})"
      by (auto dest!: map_of_SomeD)
  qed
  finally show ?case .
qed

lemma sorted_walk_files: "wf_node t \<Longrightarrow> sorted_wrt (<) (walk_files pre t)"
proof (induction pre t rule: walk_files.induct)
  case (2 pre es)
  let ?L = "map (\<lambda>(n, c). (n, walk_files (pre @ [n]) c)) es"
  have "map fst ?L = map fst es" by (induction es) auto
  moreover have "distinct (map fst es)" using 2(2) by simp
  ultimately have "distinct (map fst ?L)" by (simp only:)
  then have "distinct (map fst (sort_key fst ?L))" by (simp only: distinct_map distinct_sort set_sort)
  then have "sorted_wrt (<) (map fst (sort_key fst ?L))" by (simp add: strict_sorted_iff)
  then have keys: "sorted_wrt (\<lambda>x y. fst x < fst y) (sort_key fst ?L)" by (simp add: sorted_wrt_map)
  have wf: "wf_node c" if "(n, c) \<in> set es" for n c using 2(2) that by (auto simp: list_all_iff)
  have elem: "\<exists>n c. x = (n, walk_files (pre @ [n]) c) \<and> (n, c) \<in> set es" if "x \<in> set (sort_key fst ?L)" for x
    using that by auto
  have "sorted_wrt (<) (concat (map snd (sort_key fst ?L)))"
  proof (rule sorted_wrt_concat)
    fix xs assume "xs \<in> set (map snd (sort_key fst ?L))"
    then obtain n c where "xs = walk_files (pre @ [n]) c" "(n, c) \<in> set es" by auto
    then show "sorted_wrt (<) xs" using 2(1)[OF _ refl] wf by auto
  next
    have "sorted_wrt (\<lambda>x y. \<forall>a \<in> set (snd x). \<forall>b \<in> set (snd y). a < b) (sort_key fst ?L)"
    proof (rule sorted_wrt_mono_rel[OF _ keys])
      fix x y assume xy: "x \<in> set (sort_key fst ?L)" "y \<in> set (sort_key fst ?L)" "fst x < fst y"
      from elem[OF xy(1)] elem[OF xy(2)] obtain n c m e where
        "x = (n, walk_files (pre @ [n]) c)" "(n, c) \<in> set es"
        "y = (m, walk_files (pre @ [m]) e)" "(m, e) \<in> set es" by blast
      with xy(3) show "\<forall>a \<in> set (snd x). \<forall>b \<in> set (snd y). a < b"
        using wf by (auto simp: set_walk_files)
    qed
    then show "sorted_wrt (\<lambda>xs ys. \<forall>x \<in> set xs. \<forall>y \<in> set ys. x < y) (map snd (sort_key fst ?L))"
      by (simp add: sorted_wrt_map)
  qed
  then show ?case by simp
qed simp

text \<open>
  \<open>Scan\<close> yields exactly the files the handler function accepts, each once, in the
  lexicographic order of their path components; directories are never yielded.
\<close>

theorem Scan_files:
  assumes "root_tree os h = Inr t" and "wf_node t"
  shows "\<exists>qs. Scan os h f = map path_str qs \<and> sorted_wrt (<) qs
    \<and> set qs = {q. file_at t q \<noteq> None \<and> f (path_str q) = None}"
proof (intro exI conjI)
  let ?qs = "filter (\<lambda>q. f (path_str q) = None) (walk_files [] t)"
  show "Scan os h f = map path_str ?qs" by (simp add: Scan_def assms(1) filter_map comp_def)
  show "sorted_wrt (<) ?qs" by (rule sorted_wrt_filter[OF sorted_walk_files[OF assms(2)]])
  show "set ?qs = {q. file_at t q \<noteq> None \<and> f (path_str q) = None}"
    using set_walk_files[OF assms(2), of "[]"] by auto
qed

definition demo_tree :: fnode where
  "demo_tree = DirN [(''b'', DirN [(''y.yaml'', FileN ''2''), (''x.txt'', FileN ''3'')]), (''a.yaml'', FileN ''1'')]"

lemma demo_tree_wf: "wf_node demo_tree"
  by (simp add: demo_tree_def simple_seg_def)

theorem Scan_files_witness:
  "\<exists>qs. Scan \<lparr>os_tree = DirN [], os_cwd = ''/''\<rparr> (NewReadOnlyFS demo_tree)
      (\<lambda>p. if path_Ext p = ''.yaml'' then None else Some (SkipFileError p)) = map path_str qs \<and> sorted_wrt (<) qs
    \<and> set qs = {q. file_at demo_tree q \<noteq> None
         \<and> (if path_Ext (path_str q) = ''.yaml'' then None else Some (SkipFileError (path_str q))) = None}"
  by (rule Scan_files[OF _ demo_tree_wf]) (simp add: root_tree_def NewReadOnlyFS_def)

section \<open>Opening and writing\<close>

lemma abs_segs_tree [simp]: "abs_segs (os\<lparr>os_tree := t\<rparr>) r = abs_segs os r"
  by (simp add: abs_segs_def)

lemma root_name_simple: "list_all simple_seg ss \<Longrightarrow> ss \<noteq> [] \<Longrightarrow> root_name (join_with [slash] ss) = Inr ss"
proof -
  assume ss: "list_all simple_seg ss" "ss \<noteq> []"
  note r = path_segs_relative[OF simple_up[OF ss(1)] ss(2)]
  have "hd ss \<noteq> ''..''" using ss by (cases ss) (auto simp: simple_seg_def)
  with r show ?thesis by (simp add: root_name_def)
qed

lemma split_on_simple: "list_all simple_seg ss \<Longrightarrow> ss \<noteq> [] \<Longrightarrow> split_on slash (join_with [slash] ss) = ss"
  by (rule split_join_segs) (auto simp: list_all_iff simple_seg_def)

lemma join_not_dot: "list_all simple_seg ss \<Longrightarrow> ss \<noteq> [] \<Longrightarrow> join_with [slash] ss \<noteq> ''.''"
proof
  assume ss: "list_all simple_seg ss" "ss \<noteq> []" "join_with [slash] ss = ''.''"
  then have "ss = split_on slash ''.''" using split_on_simple by metis
  then have "ss = [''.'']" by simp
  with ss(1) show False by (simp add: simple_seg_def)
qed

lemma fs_open_simple:
  assumes "list_all simple_seg ss" "ss \<noteq> []" "valid_utf8 (join_with [slash] ss)"
  shows "fs_open t (join_with [slash] ss) = walk t ss"
  using assms join_not_dot[OF assms(1,2)] split_on_simple[OF assms(1,2)]
  by (auto simp: fs_open_def valid_path_def list_all_iff simple_seg_def)

lemma abs_segs_join:
  assumes "path_rooted r" "list_all simple_seg ss"
  shows "abs_segs os (path_Join [r, path_str ss]) = abs_segs os r @ ss"
proof -
  have r: "r \<noteq> []" "hd r = slash" using assms(1) by (auto simp: path_rooted_def)
  have clean: "clean_segs rt st (xs @ ys) = clean_segs rt (rev (clean_segs rt st xs)) ys" for rt st xs ys
    by (induction xs arbitrary: st) (auto split: list.splits)
  have dot: "clean_segs rt st [''.''] = rev st" for rt st by simp
  have ps: "path_str ss \<noteq> []"
    using path_segs_relative(3)[OF simple_up[OF assms(2)]] by (simp add: path_str_def)
  have sp: "split_on slash (path_str ss) = (if ss = [] then [''.''] else ss)"
    using split_on_simple[OF assms(2)] by (simp add: path_str_def)
  let ?p = "r @ slash # path_str ss"
  have rt: "path_rooted ?p" using r by (simp add: path_rooted_def)
  have "path_segs ?p = path_segs r @ ss"
    using rt assms(1) clean_segs_simple[OF assms(2)]
    by (simp add: path_segs_def split_on_append clean sp)
  moreover have "path_segs (path_Clean ?p) = path_segs ?p \<and> path_rooted (path_Clean ?p)"
  proof -
    have "list_all simple_seg (path_segs ?p)"
      using clean_segs_rooted[of "[]" "split_on slash ?p"] split_on_no_sep[of _ slash ?p] rt
      by (simp add: path_segs_def)
    then show ?thesis using path_segs_rooted[of "path_segs ?p"] rt r by (simp add: path_Clean_def)
  qed
  ultimately show ?thesis
    using r assms(1) ps by (simp add: path_Join_def abs_segs_def)
qed

lemma create_write_files:
  assumes "create_write os h name data = Inr os'" "h_root h = Some r" "root_name name = Inr ss"
  shows "file_at (os_tree os') = (file_at (os_tree os))(abs_segs os r @ ss := Some data)
    \<and> os_cwd os' = os_cwd os"
  using assms put_file_at[of "abs_segs os r @ ss" data "os_tree os"]
  by (auto simp: create_write_def split: sum.splits)

lemma MkdirAll_files:
  "MkdirAll os h name = (e, os') \<Longrightarrow> file_at (os_tree os') = file_at (os_tree os) \<and> os_cwd os' = os_cwd os"
  by (auto simp: MkdirAll_def dest: mkdir_all_files split: option.splits sum.splits)

lemma opened_back:
  assumes "h_root h = Some r" "file_at (os_tree os) (abs_segs os r @ ss) = Some d"
    "list_all simple_seg ss" "ss \<noteq> []" "valid_utf8 (join_with [slash] ss)"
  shows "handler_Open os h (join_with [slash] ss) = Inr (FileN d)"
proof -
  have "walk (os_tree os) (abs_segs os r @ ss) = Inr (FileN d)"
    using assms(2) by (auto simp: file_at_def split: sum.splits fnode.splits)
  then obtain n where "walk (os_tree os) (abs_segs os r) = Inr n" "walk n ss = Inr (FileN d)"
    by (auto simp: walk_append split: sum.splits)
  then show ?thesis
    using fs_open_simple[OF assms(3-5), of n] assms(1) by (simp add: handler_Open_def root_tree_def)
qed

lemma read_back:
  assumes "h_root h = Some r" "file_at (os_tree os) (abs_segs os r @ ss) = Some d"
    "list_all simple_seg ss" "ss \<noteq> []" "valid_utf8 (join_with [slash] ss)"
  shows "ReadFile os h (join_with [slash] ss) = Inr d"
  using opened_back[OF assms] by (simp add: ReadFile_def BufferedReader_ReadFile_def DefaultReader_def)

lemma WriteFile_Some_None:
  assumes "h_root h = Some r" "WriteFile os h name data = (None, os')"
  shows "\<exists>os1. MkdirAll os h (path_Dir name) = (None, os1) \<and> create_write os1 h name data = Inr os'"
  using assms
  by (auto simp: WriteFile_def Let_def join_errors_def Wrapf_def split: prod.splits option.splits sum.splits if_splits)

text \<open>
  A \<open>WriteFile\<close> that succeeds is read back by \<open>ReadFile\<close>, and it changes no other file of
  the whole file system.
\<close>

theorem WriteFile_ReadFile:
  assumes "h_root h = Some r" and "list_all simple_seg ss" and "ss \<noteq> []"
    and "valid_utf8 (join_with [slash] ss)"
    and "WriteFile os h (join_with [slash] ss) data = (None, os')"
  shows "ReadFile os' h (join_with [slash] ss) = Inr data
    \<and> file_at (os_tree os') = (file_at (os_tree os))(abs_segs os r @ ss := Some data)"
proof -
  from WriteFile_Some_None[OF assms(1,5)] obtain os1 where
    m: "MkdirAll os h (path_Dir (join_with [slash] ss)) = (None, os1)" and
    c: "create_write os1 h (join_with [slash] ss) data = Inr os'" by blast
  note f1 = MkdirAll_files[OF m]
  note f2 = create_write_files[OF c assms(1) root_name_simple[OF assms(2,3)]]
  have abs: "abs_segs os1 r = abs_segs os r" "abs_segs os' r = abs_segs os r"
    using f1 f2 by (simp_all add: abs_segs_def)
  have files: "file_at (os_tree os') = (file_at (os_tree os))(abs_segs os r @ ss := Some data)"
    using f1 f2 abs by simp
  then have "file_at (os_tree os') (abs_segs os' r @ ss) = Some data" by (simp add: abs)
  from read_back[OF assms(1) this assms(2-4)] files show ?thesis by simp
qed

definition no_file_above :: "fnode \<Rightarrow> string list \<Rightarrow> bool" where
  "no_file_above t ss = (\<forall>a b. ss = a @ b \<longrightarrow> file_at t a = None)"

lemma mkdir_append_ok: "(\<exists>t'. mkdir_all ss t = Inr t') \<longleftrightarrow> no_file_above t ss"
proof -
  have "(\<forall>n \<le> length ss. file_at t (take n ss) = None) \<longleftrightarrow> (\<forall>a b. ss = a @ b \<longrightarrow> file_at t a = None)"
  proof
    assume l: "\<forall>n \<le> length ss. file_at t (take n ss) = None"
    show "\<forall>a b. ss = a @ b \<longrightarrow> file_at t a = None"
    proof (intro allI impI)
      fix a b assume "ss = a @ b"
      then show "file_at t a = None" using l[rule_format, of "length a"] by simp
    qed
  qed (metis append_take_drop_id)
  then show ?thesis by (simp add: mkdir_all_ok no_file_above_def)
qed

lemma mkdir_all_dirs:
  "mkdir_all ss t = Inr t' \<Longrightarrow> dir_at t' q \<longleftrightarrow> dir_at t q \<or> prefix q ss"
proof (induction ss t arbitrary: t' q rule: mkdir_all.induct)
  case (3 s ss es)
  then obtain n where n: "mkdir_all ss (case map_of es s of None \<Rightarrow> DirN [] | Some n \<Rightarrow> n) = Inr n"
    and t': "t' = DirN (AList.update s n es)" by (auto split: sum.splits)
  show ?case
  proof (cases q)
    case (Cons x xs)
    show ?thesis
    proof (cases "x = s")
      case True
      have "dir_at t' q \<longleftrightarrow> dir_at n xs" by (simp add: t' Cons True AList.update_conv')
      also have "\<dots> \<longleftrightarrow> dir_at (case map_of es s of None \<Rightarrow> DirN [] | Some n \<Rightarrow> n) xs \<or> prefix xs ss"
        by (rule "3.IH"[OF n])
      also have "\<dots> \<longleftrightarrow> dir_at (DirN es) q \<or> prefix q (s # ss)"
        by (cases xs) (auto simp: Cons True split: option.splits)
      finally show ?thesis .
    qed (simp add: Cons t' AList.update_conv')
  qed (simp add: t')
next
  case (2 es)
  then show ?case by (cases q) auto
qed simp

text \<open>
  Under an absolute root, \<open>WriteFile\<close> succeeds exactly when no directory above the file is
  itself a file and the target is not a directory: every missing directory is created.
\<close>

theorem WriteFile_succeeds_iff:
  assumes "h_root h = Some r" and "path_rooted r" and "list_all simple_seg (ds @ [f])"
  shows "(\<exists>os'. WriteFile os h (join_with [slash] (ds @ [f])) data = (None, os'))
    \<longleftrightarrow> no_file_above (os_tree os) (abs_segs os r @ ds)
      \<and> \<not> dir_at (os_tree os) (abs_segs os r @ ds @ [f])"
    (is "?L \<longleftrightarrow> ?R")
proof -
  let ?name = "join_with [slash] (ds @ [f])" and ?base = "abs_segs os r" and ?t = "os_tree os"
  have dir: "path_Dir ?name = path_str ds" using path_Dir_simple[OF assms(3)] by (simp add: path_str_def)
  have ds: "list_all simple_seg ds" using assms(3) by simp
  have mk: "MkdirAll os h (path_Dir ?name) = (case mkdir_all (?base @ ds) ?t of
      Inl e \<Rightarrow> (Some e, os) | Inr t \<Rightarrow> (None, os\<lparr>os_tree := t\<rparr>))"
    using abs_segs_join[OF assms(2) ds] by (simp add: MkdirAll_def assms(1) dir)
  have rn: "root_name ?name = Inr (ds @ [f])" using root_name_simple[OF assms(3)] by simp
  have mk_iff: "(\<exists>t'. mkdir_all (?base @ ds) ?t = Inr t') \<longleftrightarrow> no_file_above ?t (?base @ ds)"
    by (rule mkdir_append_ok)
  have put: "(\<exists>t''. put_file (?base @ ds @ [f]) data t' = Inr t'') \<longleftrightarrow> \<not> dir_at ?t (?base @ ds @ [f])"
    if "mkdir_all (?base @ ds) ?t = Inr t'" for t'
    using put_file_ok[of "?base @ ds" f data t'] mkdir_all_dir[OF that] mkdir_all_dirs[OF that] by simp
  have cw: "create_write (os\<lparr>os_tree := t'\<rparr>) h ?name data = (case put_file (?base @ ds @ [f]) data t' of
      Inl e \<Rightarrow> Inl e | Inr t'' \<Rightarrow> Inr (os\<lparr>os_tree := t''\<rparr>))" for t'
    by (simp add: create_write_def assms(1) rn split: sum.splits)
  show ?thesis
  proof
    assume ?L
    then obtain os' os1 where "MkdirAll os h (path_Dir ?name) = (None, os1)"
      "create_write os1 h ?name data = Inr os'" using WriteFile_Some_None[OF assms(1)] by blast
    with mk obtain t' t'' where "mkdir_all (?base @ ds) ?t = Inr t'" "put_file (?base @ ds @ [f]) data t' = Inr t''"
      by (auto simp: cw split: sum.splits)
    with put mk_iff show ?R by blast
  next
    assume ?R
    with mk_iff put obtain t' t'' where "mkdir_all (?base @ ds) ?t = Inr t'"
      "put_file (?base @ ds @ [f]) data t' = Inr t''" by blast
    then show ?L using mk cw by (auto simp: WriteFile_def assms(1) Let_def)
  qed
qed

section \<open>Opening a handler\<close>

text \<open>
  \<open>New\<close> needs at most one retry: with two calls it returns, an error leaves the file system
  as it was, and otherwise the handler's root is a directory (created when it was missing) and every
  file is as before.
\<close>

theorem NewHandler_opens:
  assumes "2 \<le> n"
  shows "\<exists>os' res. NewHandler n os root = Some (os', res) \<and> file_at (os_tree os') = file_at (os_tree os)
    \<and> (case res of Inl e \<Rightarrow> os' = os
       | Inr h \<Rightarrow> h_root h = Some root \<and> dir_at (os_tree os') (abs_segs os' root))"
proof -
  obtain m where n: "n = Suc (Suc m)" using assms by (metis add_2_eq_Suc le_Suc_ex)
  show ?thesis
  proof (cases "walk (os_tree os) (abs_segs os root)")
    case (Inl e)
    show ?thesis
    proof (cases "is_sentinel e ErrNotExist")
      case True
      show ?thesis
      proof (cases "mkdir_all (abs_segs os root) (os_tree os)")
        case (Inr t)
        from mkdir_all_dir[OF Inr] obtain es where
          "walk t (abs_segs (os\<lparr>os_tree := t\<rparr>) root) = Inr (DirN es)"
          by (auto simp: dir_at_def split: sum.splits fnode.splits)
        with Inl True Inr mkdir_all_files[OF Inr] show ?thesis
          by (simp add: n dir_at_def)
      qed (use Inl True n in simp)
    qed (use Inl n in simp)
  next
    case (Inr x)
    then show ?thesis by (cases x) (simp_all add: n dir_at_def)
  qed
qed

theorem NewHandler_opens_witness:
  "\<exists>os' res. NewHandler 2 \<lparr>os_tree = DirN [], os_cwd = ''/''\<rparr> ''/tmp/out'' = Some (os', res)
    \<and> file_at (os_tree os') = file_at (DirN [])
    \<and> (case res of Inl e \<Rightarrow> os' = \<lparr>os_tree = DirN [], os_cwd = ''/''\<rparr>
       | Inr h \<Rightarrow> h_root h = Some ''/tmp/out'' \<and> dir_at (os_tree os') (abs_segs os' ''/tmp/out''))"
  using NewHandler_opens[of 2 "\<lparr>os_tree = DirN [], os_cwd = ''/''\<rparr>" "''/tmp/out''"] by simp

definition demo_os :: os_state where
  "demo_os = \<lparr>os_tree = DirN [(''w'', DirN [])], os_cwd = ''/''\<rparr>"

definition demo_handler :: handler where
  "demo_handler = \<lparr>h_root = Some ''/w'', h_fixed = DirN []\<rparr>"

lemma demo_utf8: "valid_utf8 (join_with [slash] [''a'', ''x.yaml''])"
  by (simp add: valid_utf8_def segments_ascii ascii_def rune_error_def)

lemma demo_write: "\<exists>os'. WriteFile demo_os demo_handler (join_with [slash] [''a'', ''x.yaml'']) ''1'' = (None, os')"
  by (simp add: WriteFile_def MkdirAll_def create_write_def demo_os_def demo_handler_def path_Dir_def
      path_Clean_def path_segs_def path_rooted_def path_Join_def abs_segs_def root_name_def last_index_def)

theorem WriteFile_ReadFile_witness:
  "\<exists>os'. WriteFile demo_os demo_handler (join_with [slash] [''a'', ''x.yaml'']) ''1'' = (None, os')
     \<and> ReadFile os' demo_handler (join_with [slash] [''a'', ''x.yaml'']) = Inr ''1''
     \<and> file_at (os_tree os') = (file_at (os_tree demo_os))(abs_segs demo_os ''/w'' @ [''a'', ''x.yaml''] := Some ''1'')"
proof -
  obtain os' where w: "WriteFile demo_os demo_handler (join_with [slash] [''a'', ''x.yaml'']) ''1'' = (None, os')"
    using demo_write by blast
  have "ReadFile os' demo_handler (join_with [slash] [''a'', ''x.yaml'']) = Inr ''1''
     \<and> file_at (os_tree os') = (file_at (os_tree demo_os))(abs_segs demo_os ''/w'' @ [''a'', ''x.yaml''] := Some ''1'')"
    by (rule WriteFile_ReadFile[OF _ _ _ demo_utf8 w]) (simp_all add: demo_handler_def simple_seg_def)
  with w show ?thesis by blast
qed

theorem WriteFile_succeeds_iff_witness:
  "(\<exists>os'. WriteFile demo_os demo_handler (join_with [slash] ([''a''] @ [''x.yaml''])) ''1'' = (None, os'))
    \<longleftrightarrow> no_file_above (os_tree demo_os) (abs_segs demo_os ''/w'' @ [''a''])
      \<and> \<not> dir_at (os_tree demo_os) (abs_segs demo_os ''/w'' @ [''a''] @ [''x.yaml''])"
  by (rule WriteFile_succeeds_iff) (simp_all add: demo_handler_def simple_seg_def path_rooted_def)

section \<open>Copying a directory\<close>

lemma put_file_dirs: "put_file ss d t = Inr t' \<Longrightarrow> dir_at t' q = dir_at t q"
proof (induction ss d t arbitrary: t' q rule: put_file.induct)
  case (3 s ss d es)
  show ?case
  proof (cases "ss = []")
    case True
    with "3.prems" have t': "t' = DirN (AList.update s (FileN d) es)"
      and nd: "\<And>xs. map_of es s \<noteq> Some (DirN xs)"
      by (auto split: option.splits fnode.splits)
    show ?thesis
    proof (cases q)
      case (Cons x xs)
      with nd show ?thesis
        by (cases "map_of es s"; cases "the (map_of es s)") (auto simp: t' AList.update_conv')
    qed (simp add: t')
  next
    case False
    with "3.prems" obtain n n' where n: "map_of es s = Some n" "put_file ss d n = Inr n'"
      and t': "t' = DirN (AList.update s n' es)" by (auto split: option.splits sum.splits)
    show ?thesis using "3.IH"[OF False n] n by (cases q) (auto simp: t' AList.update_conv')
  qed
qed simp_all

lemma file_not_dir: "file_at t q = Some d \<Longrightarrow> \<not> dir_at t q"
  by (auto simp: file_at_def dir_at_def split: sum.splits fnode.splits)

lemma above_file_dir: "file_at t (a @ b) = Some d \<Longrightarrow> b \<noteq> [] \<Longrightarrow> dir_at t a"
  by (cases b) (auto simp: file_at_def dir_at_def walk_append split: sum.splits fnode.splits)

lemma dir_prefix: "dir_at t (a @ b) \<Longrightarrow> dir_at t a"
  by (cases b) (auto simp: dir_at_def walk_append split: sum.splits fnode.splits)

definition copying :: "fnode \<Rightarrow> string list \<Rightarrow> os_state \<Rightarrow> bool" where
  "copying t base os \<longleftrightarrow>
     (\<forall>q. file_at (os_tree os) (base @ q) \<noteq> None \<longrightarrow> file_at t q \<noteq> None)
     \<and> (\<forall>q. dir_at (os_tree os) (base @ q) \<longrightarrow> dir_at t q) \<and> dir_at (os_tree os) base"

lemma copying_clear:
  assumes "copying t base os" "dir_at t ds"
  shows "no_file_above (os_tree os) (base @ ds)"
  unfolding no_file_above_def
proof (intro allI impI)
  fix a b assume ab: "base @ ds = a @ b"
  have root: "dir_at (os_tree os) base" using assms(1) by (simp add: copying_def)
  show "file_at (os_tree os) a = None"
  proof (rule ccontr)
    assume "file_at (os_tree os) a \<noteq> None"
    then obtain d where d: "file_at (os_tree os) a = Some d" by blast
    from ab consider c where "base = a @ c" | c where "a = base @ c" "ds = c @ b"
      by (auto simp: append_eq_append_conv2)
    then show False
    proof cases
      case 1
      with root d dir_prefix[of "os_tree os" a c] file_not_dir show False by blast
    next
      case 2
      with d assms(1) obtain d' where "file_at t c = Some d'" by (auto simp: copying_def)
      moreover have "dir_at t c" using assms(2) 2 dir_prefix by blast
      ultimately show False using file_not_dir by blast
    qed
  qed
qed

lemma copy_one:
  assumes h: "h_root h = Some r" "path_rooted r" and c: "copying t (abs_segs os r) os"
    and q: "file_at t q = Some d" "q \<noteq> []" "list_all simple_seg q" "valid_utf8 (path_str q)"
  shows "\<exists>os'. copy_step (NewReadOnlyFS t) h (None, os) (path_str q) = ((None, os'), True)
    \<and> os_cwd os' = os_cwd os \<and> copying t (abs_segs os r) os'
    \<and> file_at (os_tree os') = (file_at (os_tree os))(abs_segs os r @ q := Some d)"
proof -
  let ?base = "abs_segs os r"
  obtain ds f where qs: "q = ds @ [f]" using q(2) by (metis append_butlast_last_id)
  have dirq: "path_Dir (path_str q) = path_str ds"
    using path_Dir_simple[of ds f] q(3) qs by (simp add: path_str_def)
  have ds: "list_all simple_seg ds" using q(3) qs by simp
  have tds: "dir_at t ds" using above_file_dir[of t ds "[f]" d] q(1) qs by simp
  from copying_clear[OF c tds] obtain t1 where t1: "mkdir_all (?base @ ds) (os_tree os) = Inr t1"
    using mkdir_append_ok by blast
  let ?os1 = "os\<lparr>os_tree := t1\<rparr>"
  have mk: "MkdirAll os h (path_Dir (path_str q)) = (None, ?os1)"
    using abs_segs_join[OF h(2) ds] t1 by (simp add: MkdirAll_def h(1) dirq)
  have "\<not> dir_at (os_tree os) (?base @ q)" using c file_not_dir[OF q(1)] by (auto simp: copying_def)
  then have "\<not> dir_at t1 (?base @ ds @ [f])" using mkdir_all_dirs[OF t1] by (simp add: qs)
  then obtain t2 where t2: "put_file (?base @ ds @ [f]) d t1 = Inr t2"
    using put_file_ok[of "?base @ ds" f d t1] mkdir_all_dir[OF t1] by auto
  have rn: "root_name (path_str q) = Inr q" using root_name_simple[OF q(3,2)] by (simp add: path_str_def q(2))
  have "walk t q = Inr (FileN d)" using q(1) by (auto simp: file_at_def split: sum.splits fnode.splits)
  then have opn: "handler_Open ?os1 (NewReadOnlyFS t) (path_str q) = Inr (FileN d)"
    using fs_open_simple[OF q(3,2), of t] q(4)
    by (simp add: handler_Open_def root_tree_def NewReadOnlyFS_def path_str_def q(2))
  have cp: "CopyFile ?os1 (NewReadOnlyFS t) h (path_str q) = (None, os\<lparr>os_tree := t2\<rparr>)"
    using t2 unfolding qs[symmetric] by (simp add: CopyFile_def opn create_write_def h(1) rn)
  have files: "file_at t2 = (file_at (os_tree os))(?base @ q := Some d)"
    using put_file_at[OF t2] mkdir_all_files[OF t1] qs by simp
  have dirs: "dir_at t2 x \<longleftrightarrow> dir_at (os_tree os) x \<or> prefix x (?base @ ds)" for x
    using put_file_dirs[OF t2] mkdir_all_dirs[OF t1] by simp
  have "copying t ?base (os\<lparr>os_tree := t2\<rparr>)"
    unfolding copying_def
  proof (intro conjI allI impI)
    fix x
    show "file_at (os_tree (os\<lparr>os_tree := t2\<rparr>)) (?base @ x) \<noteq> None \<Longrightarrow> file_at t x \<noteq> None"
      using c q(1) by (auto simp: files copying_def split: if_splits)
    show "dir_at t x" if "dir_at (os_tree (os\<lparr>os_tree := t2\<rparr>)) (?base @ x)"
    proof (cases "dir_at (os_tree os) (?base @ x)")
      case True
      with c show ?thesis by (simp add: copying_def)
    next
      case False
      with that dirs have "prefix x ds" by simp
      with tds show ?thesis by (auto simp: prefix_def intro: dir_prefix)
    qed
  qed (use c dirs in \<open>simp add: copying_def\<close>)
  then show ?thesis
    using mk cp files
    by (intro exI[of _ "os\<lparr>os_tree := t2\<rparr>"]) (simp add: copy_step_def FirstErrorFns.simps)
qed

lemma copy_all:
  assumes "h_root h = Some r" "path_rooted r"
  shows "copying t (abs_segs os r) os \<Longrightarrow>
    (\<And>q. q \<in> set qs \<Longrightarrow> file_at t q \<noteq> None \<and> q \<noteq> [] \<and> list_all simple_seg q \<and> valid_utf8 (path_str q)) \<Longrightarrow>
    \<exists>os'. range_loop (copy_step (NewReadOnlyFS t) h) (map path_str qs) True (None, os) = LoopDone (None, os')
      \<and> (\<forall>x. file_at (os_tree os') x =
            (if \<exists>q \<in> set qs. x = abs_segs os r @ q then file_at t (drop (length (abs_segs os r)) x)
             else file_at (os_tree os) x))"
proof (induction qs arbitrary: os)
  case (Cons q qs)
  obtain d where d: "file_at t q = Some d" using Cons.prems(2)[of q] by auto
  have pq: "q \<noteq> []" "list_all simple_seg q" "valid_utf8 (path_str q)" using Cons.prems(2)[of q] by auto
  from copy_one[OF assms Cons.prems(1) d pq] obtain os1 where
    s: "copy_step (NewReadOnlyFS t) h (None, os) (path_str q) = ((None, os1), True)"
      "os_cwd os1 = os_cwd os" "copying t (abs_segs os r) os1"
      "file_at (os_tree os1) = (file_at (os_tree os))(abs_segs os r @ q := Some d)" by blast
  have same: "abs_segs os1 r = abs_segs os r" using s(2) by (simp add: abs_segs_def)
  from Cons.IH[of os1] s(3) Cons.prems(2) obtain os' where
    "range_loop (copy_step (NewReadOnlyFS t) h) (map path_str qs) True (None, os1) = LoopDone (None, os')"
    "\<forall>x. file_at (os_tree os') x =
       (if \<exists>q \<in> set qs. x = abs_segs os r @ q then file_at t (drop (length (abs_segs os r)) x)
        else file_at (os_tree os1) x)"
    by (auto simp: same)
  with s d show ?case by (intro exI[of _ os']) auto
qed simp

definition empty_dir :: "fnode \<Rightarrow> string list \<Rightarrow> bool" where
  "empty_dir t ss \<longleftrightarrow> dir_at t ss \<and> (\<forall>q. file_at t (ss @ q) = None \<and> (dir_at t (ss @ q) \<longrightarrow> q = []))"

definition same_outside :: "string list \<Rightarrow> fnode \<Rightarrow> fnode \<Rightarrow> bool" where
  "same_outside base t t' = (\<forall>x. \<not> prefix base x \<longrightarrow> file_at t' x = file_at t x)"

text \<open>
  \<open>CopyDir\<close> of a read-only tree into an empty directory, as the bootstrap components copy
  their embedded files into a fresh temporary directory, succeeds; afterwards the directory holds
  exactly the files of the tree, with their contents, and nothing outside it has changed.
\<close>

theorem CopyDir_into_empty:
  assumes "h_root h = Some r" and "path_rooted r" and "empty_dir (os_tree os) (abs_segs os r)"
    and "wf_node (DirN es)" and "\<forall>q \<in> dom (file_at (DirN es)). valid_utf8 (path_str q)"
  shows "\<exists>os'. CopyDir os (NewReadOnlyFS (DirN es)) h = LoopDone (None, os')
    \<and> (\<forall>q. file_at (os_tree os') (abs_segs os r @ q) = file_at (DirN es) q)
    \<and> same_outside (abs_segs os r) (os_tree os) (os_tree os')"
proof -
  let ?t = "DirN es" and ?base = "abs_segs os r"
  let ?qs = "walk_files [] ?t"
  have set: "set ?qs = dom (file_at ?t)" using set_walk_files[OF assms(4), of "[]"] by (auto simp: dom_def)
  have "copying ?t ?base os"
    using assms(3) by (auto simp: copying_def empty_dir_def)
  moreover have "file_at ?t q \<noteq> None \<and> q \<noteq> [] \<and> list_all simple_seg q \<and> valid_utf8 (path_str q)"
    if "q \<in> set ?qs" for q
  proof -
    from that have dom: "q \<in> dom (file_at ?t)" by (simp only: set)
    then obtain d where d: "file_at ?t q = Some d" by blast
    then have "q \<noteq> []" by (cases q) simp_all
    with wf_node_seg[OF assms(4) d] d dom assms(5) show ?thesis by blast
  qed
  ultimately obtain os' where
    l: "range_loop (copy_step (NewReadOnlyFS ?t) h) (map path_str ?qs) True (None, os) = LoopDone (None, os')"
    and f: "\<And>x. file_at (os_tree os') x =
        (if \<exists>q \<in> set ?qs. x = ?base @ q then file_at ?t (drop (length ?base) x) else file_at (os_tree os) x)"
    using copy_all[OF assms(1,2)] by blast
  have "Scan os (NewReadOnlyFS ?t) (\<lambda>_. None) = map path_str ?qs"
    by (simp add: Scan_def root_tree_def NewReadOnlyFS_def)
  with l have "CopyDir os (NewReadOnlyFS ?t) h = LoopDone (None, os')" by (simp add: CopyDir_def)
  moreover have "file_at (os_tree os') (?base @ q) = file_at ?t q" for q
    using assms(3) unfolding f set by (auto simp: empty_dir_def dom_def)
  moreover have "file_at (os_tree os') x = file_at (os_tree os) x" if "\<not> prefix ?base x" for x
    using that unfolding f by (auto simp: prefix_def)
  ultimately show ?thesis unfolding same_outside_def by blast
qed

text \<open>
  An error on any file but the last does not come back as an error: the loop body returns
  while \<open>Scan\<close> ignores what its \<open>yield\<close> reports, so the next file makes the program panic.
\<close>

theorem CopyDir_error_panics:
  assumes "Scan os src (\<lambda>_. None) = p # p' # ps"
    and "copy_step src dst (None, os) p = ((Some e, os'), False)"
  shows "CopyDir os src dst = LoopPanic"
  using assms by (simp add: CopyDir_def)

section \<open>Temporary directories\<close>

text \<open>
  \<open>normalizePrefix\<close>; the tables \<open>unicode.IsSymbol\<close>, \<open>IsMark\<close> and \<open>IsGraphic\<close> are parameters.
\<close>

record unicode_tables =
  isSymbol :: "nat \<Rightarrow> bool"
  isMark :: "nat \<Rightarrow> bool"
  isGraphic :: "nat \<Rightarrow> bool"

definition prefix_rune :: "unicode_tables \<Rightarrow> nat \<Rightarrow> nat" where
  "prefix_rune U r =
     (if isSymbol U r \<or> isMark U r \<or> r = 32
        \<or> r = byte (CHR ''/'') \<or> r = byte (CHR 0x5C) \<or> r = byte (CHR '':'') \<or> r = byte (CHR ''*'')
        \<or> r = byte (CHR ''?'') \<or> r = byte (CHR 0x22) \<or> r = byte (CHR ''<'') \<or> r = byte (CHR ''>'')
        \<or> r = byte (CHR ''|'') \<or> r = byte (CHR ''@'') \<or> r = 0 \<or> r = 1 \<or> r = 8203 \<or> r = 769
        \<or> \<not> isGraphic U r
      then 95 else r)"

fun valid_runs :: "bool \<Rightarrow> (nat \<times> string) list \<Rightarrow> string \<Rightarrow> string" where
  "valid_runs bad [] repl = []"
| "valid_runs bad ((r, bs) # segs) repl =
     (if r = rune_error \<and> length bs = 1 then (if bad then [] else repl) @ valid_runs True segs repl
      else bs @ valid_runs False segs repl)"

definition ToValidUTF8 :: "string \<Rightarrow> string \<Rightarrow> string" where
  "ToValidUTF8 s repl = valid_runs False (segments s) repl"

definition affix :: "char set" where "affix = {CHR ''.'', CHR ''_'', CHR ''-''}"

definition normalizePrefix :: "unicode_tables \<Rightarrow> string \<Rightarrow> string" where
  "normalizePrefix U pre =
     trim_set affix
       (ToValidUTF8
         (take 64 (strings_map (prefix_rune U) (trim_space (trim_set affix (path_Clean pre))))) ''_'')"

definition forbidden :: "char set" where
  "forbidden = {CHR '' '', CHR ''/'', CHR 0x5C, CHR '':'', CHR ''*'', CHR ''?'', CHR 0x22, CHR ''<'',
     CHR ''>'', CHR ''|'', CHR ''@'', CHR 0x00, CHR 0x01}"

lemma encode_rune_high: "128 \<le> r \<Longrightarrow> c \<in> set (encode_rune r) \<Longrightarrow> 128 \<le> byte c"
  by (auto simp: encode_rune_def Let_def rune_error_def of_char_of split: if_splits)

lemma prefix_rune_safe: "c \<in> set (encode_rune (prefix_rune U r)) \<Longrightarrow> c \<notin> forbidden"
proof -
  assume c: "c \<in> set (encode_rune (prefix_rune U r))"
  show "c \<notin> forbidden"
  proof (cases "prefix_rune U r < 128")
    case True
    with c have cr: "byte c = prefix_rune U r" by simp
    have "\<forall>x \<in> forbidden. prefix_rune U r \<noteq> byte x" by (simp add: forbidden_def prefix_rune_def)
    with cr show ?thesis by metis
  next
    case False
    then have "128 \<le> byte c" using encode_rune_high[OF _ c] by simp
    then show ?thesis by (auto simp: forbidden_def)
  qed
qed

lemma valid_runs_set: "set (valid_runs b segs repl) \<subseteq> set repl \<union> \<Union> (set ` snd ` set segs)"
  by (induction b segs repl rule: valid_runs.induct) auto

lemma valid_runs_length: "length (valid_runs b segs [c]) \<le> length (concat (map snd segs))"
  by (induction b segs "[c]" rule: valid_runs.induct) auto

lemma ToValidUTF8_set: "set (ToValidUTF8 s repl) \<subseteq> set repl \<union> set s"
proof -
  have "\<Union> (set ` snd ` set (segments s)) = set (concat (map snd (segments s)))" by auto
  then show ?thesis using valid_runs_set[of False "segments s" repl] by (simp add: ToValidUTF8_def concat_segments)
qed

text \<open>
  Whatever the name of the plan, the prefix of its temporary directory has at most 64 bytes,
  none of the forbidden characters (a path separator, white space, a wild card, ...), and neither
  starts nor ends with a dot, an underscore or a hyphen.
\<close>

theorem normalizePrefix_safe:
  "length (normalizePrefix U p) \<le> 64 \<and> set (normalizePrefix U p) \<inter> forbidden = {}
     \<and> trim_set affix (normalizePrefix U p) = normalizePrefix U p"
proof -
  let ?m = "strings_map (prefix_rune U) (trim_space (trim_set affix (path_Clean p)))"
  let ?v = "ToValidUTF8 (take 64 ?m) ''_''"
  have n: "normalizePrefix U p = trim_set affix ?v" by (simp add: normalizePrefix_def)
  have "length ?v \<le> length (take 64 ?m)"
    using valid_runs_length[of False "segments (take 64 ?m)" "CHR ''_''"]
    by (simp add: ToValidUTF8_def concat_segments)
  then have len: "length (normalizePrefix U p) \<le> 64" using length_trim_set[of affix ?v] n by simp
  have "set ?m \<inter> forbidden = {}" using prefix_rune_safe by (fastforce simp: strings_map_def)
  then have "set ?v \<inter> forbidden = {}"
    using ToValidUTF8_set[of "take 64 ?m" "''_''"] set_take_subset[of 64 ?m] by (auto simp: forbidden_def)
  then have "set (normalizePrefix U p) \<inter> forbidden = {}" using set_trim_set[of affix ?v] n by auto
  with len show ?thesis by (simp add: n trim_set_idem)
qed

text \<open>\<open>os.MkdirTemp\<close>; the random names it tries are the argument \<open>rnds\<close>.\<close>

fun mkdir_temp :: "os_state \<Rightarrow> string \<Rightarrow> string \<Rightarrow> string list \<Rightarrow> os_state \<times> (goerr + string)" where
  "mkdir_temp os tmp pre [] = (os, Inl (ErrText ''file exists''))"
| "mkdir_temp os tmp pre (r # rs) =
     (let name = tmp @ slash # pre @ r in
      case walk (os_tree os) (abs_segs os name) of
        Inr _ \<Rightarrow> mkdir_temp os tmp pre rs
      | Inl e \<Rightarrow>
          if \<not> dir_at (os_tree os) (abs_segs os tmp) then (os, Inl e)
          else
            (case mkdir_all (abs_segs os name) (os_tree os) of
               Inl e' \<Rightarrow> (os, Inl e')
             | Inr t \<Rightarrow> (os\<lparr>os_tree := t\<rparr>, Inr name)))"

definition NewTempHandler ::
    "unicode_tables \<Rightarrow> nat \<Rightarrow> os_state \<Rightarrow> string \<Rightarrow> string list \<Rightarrow> string
      \<Rightarrow> (os_state \<times> (goerr + handler)) option" where
  "NewTempHandler U n os tmp rnds prefix0 =
     (let pre = normalizePrefix U prefix0;
          pre = (if pre = [] then ''crib-sdk'' else pre) in
      if slash \<in> set (pre @ ''-'') then Some (os, Inl (ErrText ''pattern contains path separator''))
      else
        (case mkdir_temp os tmp (pre @ ''-'') rnds of
           (os1, Inl e) \<Rightarrow> Some (os1, Inl e)
         | (os1, Inr dir) \<Rightarrow> NewHandler n os1 dir))"

lemma walk_None_files: "walk t a = Inl e \<Longrightarrow> file_at t (a @ q) = None \<and> \<not> dir_at t (a @ q)"
  by (simp add: file_at_def dir_at_def walk_append)

text \<open>
  \<open>NewTempHandler\<close> gives a handler on a new, empty directory under the temporary directory,
  for every prefix, when the first random name is not taken; no existing file changes.
\<close>

theorem NewTempHandler_fresh:
  assumes "tmp = slash # join_with [slash] ts" and "list_all simple_seg ts"
    and "dir_at (os_tree os) ts" and "rnd \<noteq> []" and "slash \<notin> set rnd"
    and "\<And>d. walk (os_tree os) (ts @ [d @ ''-'' @ rnd]) = Inl (Sentinel ErrNotExist)"
  shows "\<exists>os' h r. NewTempHandler U (Suc n) os tmp (rnd # rnds) p = Some (os', Inr h)
    \<and> h_root h = Some r \<and> path_rooted r \<and> empty_dir (os_tree os') (abs_segs os' r)
    \<and> file_at (os_tree os') = file_at (os_tree os)"
proof -
  define pre where "pre = (if normalizePrefix U p = [] then ''crib-sdk'' else normalizePrefix U p)"
  have sl: "slash \<notin> set (pre @ ''-'')"
    using normalizePrefix_safe[of U p] by (auto simp: pre_def forbidden_def)
  let ?seg = "pre @ ''-'' @ rnd" and ?name = "tmp @ slash # (pre @ ''-'') @ rnd"
  have seg: "simple_seg ?seg"
    using sl assms(4,5) by (auto simp: simple_seg_def append_eq_Cons_conv)
  have root: "path_rooted tmp" "path_rooted ?name" using assms(1) by (simp_all add: path_rooted_def)
  have tseg: "abs_segs os tmp = ts"
    using path_segs_rooted[OF assms(2)] assms(1) root by (simp add: abs_segs_def)
  have nseg: "path_segs ?name = ts @ [?seg]"
  proof (cases "ts = []")
    case True
    have s: "split_on slash ?seg = [?seg]" using seg by (simp add: split_on_absent simple_seg_def)
    have "?name = slash # slash # ?seg" using True assms(1) by simp
    then have "split_on slash ?name = [[], [], ?seg]" using s by (metis split_on.simps(2))
    with root True seg show ?thesis by (simp only: path_segs_def) (simp add: simple_seg_def)
  next
    case False
    have "?name = slash # join_with [slash] (ts @ [?seg])" using join_with_snoc[OF False] assms(1) by simp
    then show ?thesis using path_segs_rooted(1)[of "ts @ [?seg]"] assms(2) seg by simp
  qed
  have abs: "abs_segs os' ?name = ts @ [?seg]" for os' using nseg root by (simp add: abs_segs_def)
  let ?t = "os_tree os"
  have new: "walk ?t (ts @ [?seg]) = Inl (Sentinel ErrNotExist)" using assms(6)[of pre] by simp
  have "no_file_above ?t (ts @ [?seg])"
    unfolding no_file_above_def
  proof (intro allI impI)
    fix a b assume ab: "ts @ [?seg] = a @ b"
    show "file_at ?t a = None"
    proof (cases "b = []")
      case True
      with ab new show ?thesis by (simp add: file_at_def)
    next
      case False
      then obtain b' where "ts = a @ b'" using ab by (metis butlast_append butlast_snoc)
      with assms(3) dir_prefix have "dir_at ?t a" by blast
      then show ?thesis using file_not_dir by (cases "file_at ?t a") auto
    qed
  qed
  then obtain t where t: "mkdir_all (ts @ [?seg]) ?t = Inr t" using mkdir_append_ok by blast
  let ?os1 = "os\<lparr>os_tree := t\<rparr>"
  have mt: "mkdir_temp os tmp (pre @ ''-'') (rnd # rnds) = (?os1, Inr ?name)"
    using new t abs[of os] assms(3) tseg by (simp add: Let_def)
  have d: "dir_at t (ts @ [?seg])" by (rule mkdir_all_dir[OF t])
  then obtain es where "walk t (ts @ [?seg]) = Inr (DirN es)"
    by (auto simp: dir_at_def split: sum.splits fnode.splits)
  then have nh: "NewHandler (Suc n) ?os1 ?name = Some (?os1, Inr \<lparr>h_root = Some ?name, h_fixed = DirN []\<rparr>)"
    using abs[of ?os1] by simp
  have "NewTempHandler U (Suc n) os tmp (rnd # rnds) p = NewHandler (Suc n) ?os1 ?name"
    using sl mt unfolding NewTempHandler_def Let_def pre_def[symmetric] by simp
  moreover have "empty_dir t (ts @ [?seg])"
    using d mkdir_all_dirs[OF t] mkdir_all_files[OF t] walk_None_files[OF new]
    by (auto simp: empty_dir_def)
  ultimately show ?thesis
    using nh root abs[of ?os1] mkdir_all_files[OF t] by simp
qed

section \<open>The interface of a file reader\<close>

text \<open>
  What a client of \<open>port.FileReader\<close> relies on when it scans and reads: the scan lists each file
  once, keeps only what the handler function accepts, in an order that does not depend on it, and
  every file it lists can be read.
\<close>

locale file_reader =
  fixes scan :: "'s \<Rightarrow> (string \<Rightarrow> goerr option) \<Rightarrow> string list"
    and rd :: "'s \<Rightarrow> string \<Rightarrow> goerr + string"
    and good :: "'s \<Rightarrow> bool"
  assumes scan_filter: "scan s f = filter (\<lambda>p. f p = None) (scan s (\<lambda>_. None))"
    and scan_distinct: "good s \<Longrightarrow> distinct (scan s (\<lambda>_. None))"
    and scan_readable: "good s \<Longrightarrow> p \<in> set (scan s (\<lambda>_. None)) \<Longrightarrow> \<exists>d. rd s p = Inr d"
begin

lemma scan_accepts: "p \<in> set (scan s f) \<Longrightarrow> f p = None"
  by (subst (asm) scan_filter) simp

lemma distinct_scan: "good s \<Longrightarrow> distinct (scan s f)"
  using scan_filter[of s f] scan_distinct by simp

lemma scan_conj: "scan s (\<lambda>p. if f p = None then g p else f p) = filter (\<lambda>p. g p = None) (scan s f)"
  using scan_filter[of s f] scan_filter[of s "\<lambda>p. if f p = None then g p else f p"]
  by (auto intro!: filter_cong)

lemma readable: "good s \<Longrightarrow> p \<in> set (scan s f) \<Longrightarrow> \<exists>d. rd s p = Inr d"
  by (subst (asm) scan_filter) (simp add: scan_readable)

end

definition good_reader :: "os_state \<times> handler \<Rightarrow> bool" where
  "good_reader s = (case s of (os, h) \<Rightarrow>
     (\<exists>es. root_tree os h = Inr (DirN es) \<and> wf_node (DirN es)
       \<and> (\<forall>q \<in> dom (file_at (DirN es)). valid_utf8 (path_str q))))"

lemma path_str_inject:
  "list_all simple_seg p \<Longrightarrow> list_all simple_seg q \<Longrightarrow> p \<noteq> [] \<Longrightarrow> q \<noteq> [] \<Longrightarrow> path_str p = path_str q \<Longrightarrow> p = q"
  unfolding path_str_def using split_on_simple by metis

lemma walked_file:
  assumes "wf_node (DirN es)" "q \<in> set (walk_files [] (DirN es))"
  shows "q \<noteq> [] \<and> list_all simple_seg q \<and> (\<exists>d. file_at (DirN es) q = Some d)"
proof -
  from assms obtain d where d: "file_at (DirN es) q = Some d" by (auto simp: set_walk_files simp del: walk_files.simps)
  then have "q \<noteq> []" by (cases q) simp_all
  with wf_node_seg[OF assms(1) d] d show ?thesis by blast
qed

interpretation reader: file_reader "\<lambda>s. Scan (fst s) (snd s)" "\<lambda>s. ReadFile (fst s) (snd s)" good_reader
proof unfold_locales
  show "Scan (fst s) (snd s) f = filter (\<lambda>p. f p = None) (Scan (fst s) (snd s) (\<lambda>_. None))" for s f
    by (simp add: Scan_def split: sum.splits)
next
  fix s :: "os_state \<times> handler"
  assume "good_reader s"
  then obtain es where es: "root_tree (fst s) (snd s) = Inr (DirN es)" "wf_node (DirN es)"
    "\<forall>q \<in> dom (file_at (DirN es)). valid_utf8 (path_str q)"
    by (auto simp: good_reader_def)
  let ?qs = "walk_files [] (DirN es)"
  have sc: "Scan (fst s) (snd s) (\<lambda>_. None) = map path_str ?qs" by (simp add: Scan_def es(1))
  have "distinct ?qs" using sorted_walk_files[OF es(2)] by (simp only: strict_sorted_iff)
  moreover have "inj_on path_str (set ?qs)"
    using walked_file[OF es(2)] path_str_inject by (meson inj_onI)
  ultimately show "distinct (Scan (fst s) (snd s) (\<lambda>_. None))" by (simp only: sc distinct_map)
  fix p assume "p \<in> set (Scan (fst s) (snd s) (\<lambda>_. None))"
  then obtain q where q: "q \<in> set ?qs" "p = path_str q" by (auto simp only: sc set_map)
  note w = walked_file[OF es(2) q(1)]
  then obtain d where d: "file_at (DirN es) q = Some d" by blast
  then have "walk (DirN es) q = Inr (FileN d)" by (auto simp: file_at_def split: sum.splits fnode.splits)
  moreover have "valid_utf8 (path_str q)" using es(3) d by blast
  ultimately have "fs_open (DirN es) p = Inr (FileN d)"
    using fs_open_simple[of q "DirN es"] w q(2) by (simp add: path_str_def)
  then show "\<exists>d. ReadFile (fst s) (snd s) p = Inr d"
    by (simp add: ReadFile_def BufferedReader_ReadFile_def handler_Open_def es(1))
qed

section \<open>Concrete runs\<close>

lemma demo_files: "walk_files [] demo_tree = [[''a.yaml''], [''b'', ''x.txt''], [''b'', ''y.yaml'']]"
  by code_simp

lemma demo_dom: "dom (file_at demo_tree) = {[''a.yaml''], [''b'', ''x.txt''], [''b'', ''y.yaml'']}"
  using set_walk_files[OF demo_tree_wf, of "[]"] by (auto simp: demo_files dom_def)

lemma demo_names_utf8: "\<forall>q \<in> dom (file_at demo_tree). valid_utf8 (path_str q)"
  unfolding demo_dom
  by (simp add: path_str_def valid_utf8_def segments_ascii ascii_def rune_error_def)

theorem CopyDir_into_empty_witness:
  "\<exists>os'. CopyDir demo_os (NewReadOnlyFS demo_tree) demo_handler = LoopDone (None, os')
    \<and> (\<forall>q. file_at (os_tree os') (abs_segs demo_os ''/w'' @ q) = file_at demo_tree q)
    \<and> same_outside (abs_segs demo_os ''/w'') (os_tree demo_os) (os_tree os')"
proof -
  have abs: "abs_segs demo_os ''/w'' = [''w'']" by (simp add: abs_segs_def path_segs_def path_rooted_def)
  have "empty_dir (os_tree demo_os) (abs_segs demo_os ''/w'')"
    unfolding abs empty_dir_def
  proof (intro conjI allI impI)
    fix q
    show "dir_at (os_tree demo_os) ([''w''] @ q) \<Longrightarrow> q = []" by (cases q) (simp_all add: demo_os_def)
  qed (simp_all add: demo_os_def)
  then show ?thesis
    using CopyDir_into_empty[of demo_handler "''/w''" demo_os
        "[(''b'', DirN [(''y.yaml'', FileN ''2''), (''x.txt'', FileN ''3'')]), (''a.yaml'', FileN ''1'')]"]
      demo_tree_wf demo_names_utf8
    unfolding demo_tree_def by (simp add: demo_handler_def path_rooted_def)
qed

text \<open>A target that already has a directory where the first file should go.\<close>

definition blocked_os :: os_state where
  "blocked_os = \<lparr>os_tree = DirN [(''w'', DirN [(''a.yaml'', DirN [])])], os_cwd = ''/''\<rparr>"

theorem CopyDir_error_panics_witness:
  "CopyDir blocked_os (NewReadOnlyFS demo_tree) demo_handler = LoopPanic"
proof -
  let ?e = "CErr (JoinErr [ErrText ''is a directory''])"
  have s: "Scan blocked_os (NewReadOnlyFS demo_tree) (\<lambda>_. None) = [''a.yaml'', ''b/x.txt'', ''b/y.yaml'']"
    by (simp add: Scan_def root_tree_def NewReadOnlyFS_def demo_files path_str_def)
  have u: "valid_utf8 ''a.yaml''" by (simp add: valid_utf8_def segments_ascii ascii_def rune_error_def)
  have "copy_step (NewReadOnlyFS demo_tree) demo_handler (None, blocked_os) ''a.yaml'' = ((Some ?e, blocked_os), False)"
    by (simp add: copy_step_def MkdirAll_def CopyFile_def create_write_def handler_Open_def root_tree_def
        NewReadOnlyFS_def fs_open_def valid_path_def u blocked_os_def demo_handler_def demo_tree_def path_Dir_def
        path_Clean_def path_segs_def path_rooted_def path_Join_def abs_segs_def root_name_def last_index_def Wrap_def)
  from CopyDir_error_panics[OF s this] show ?thesis .
qed

theorem NewTempHandler_fresh_witness:
  "\<exists>os' h r. NewTempHandler \<lparr>isSymbol = (\<lambda>r. r = 36), isMark = (\<lambda>_. False), isGraphic = (\<lambda>r. 32 \<le> r)\<rparr>
       (Suc 1) demo_os ''/w'' (''123'' # []) ''my plan'' = Some (os', Inr h)
    \<and> h_root h = Some r \<and> path_rooted r \<and> empty_dir (os_tree os') (abs_segs os' r)
    \<and> file_at (os_tree os') = file_at (os_tree demo_os)"
  by (rule NewTempHandler_fresh[of _ "[''w'']"]) (simp_all add: demo_os_def simple_seg_def)

text \<open>
  \<open>FileExists\<close> only tells "not found" from everything else: it answers true for a name that
  leaves the root directory and that could never be opened.
\<close>

theorem FileExists_outside:
  "FileExists demo_os demo_handler ''../etc/passwd''
     \<and> \<not> (\<exists>n. handler_Open demo_os demo_handler ''../etc/passwd'' = Inr n)"
  by (simp add: FileExists_def root_lookup_def root_name_def path_rooted_def path_segs_def handler_Open_def
      fs_open_def valid_path_def demo_handler_def split: sum.splits)

end
