(* ===== verification/Runner.thy ===== *)
theory Runner
  imports Errors
begin

text \<open>
  Client-side apply: the runners of internal/adapter/clientsideapply (client_side_apply.go, cmd.go,
  wrapped_runner.go, echo.go) on the manifests of internal/core/domain/client_side_apply.go.  A runner
  mutates the manifest it is given, so an execution returns the new manifest with its result.  The
  shell is a parameter: given the state of the machine and the argument of \<open>/bin/bash -c\<close> it
  returns the new state, the collected output and the error of \<open>cmd.Run\<close>.
\<close>

section \<open>Manifests and runners\<close>

definition ActionCmd :: string where "ActionCmd = ''cmd''"
definition ActionCribctl :: string where "ActionCribctl = ''cribctl''"
definition ActionKubectl :: string where "ActionKubectl = ''kubectl''"
definition ActionTask :: string where "ActionTask = ''task''"

record csa_manifest =
  m_apiVersion :: string
  m_kind :: string
  m_onFailure :: string
  m_action :: string
  m_args :: "string list"

datatype runner = EchoRunner | CmdRunner | WrappedRunner string

type_synonym 'w shell = "'w \<Rightarrow> string \<Rightarrow> 'w \<times> string \<times> goerr option"

text \<open>What \<open>newWrappedRunner\<close> asks its environment.\<close>

record runner_env =
  re_testing :: bool
  re_enable_exec :: string
  re_look_path :: "string \<Rightarrow> goerr + string"

definition newWrappedRunner :: "runner_env \<Rightarrow> string \<Rightarrow> goerr + runner" where
  "newWrappedRunner env executable =
     (if re_testing env \<and> re_enable_exec env = [] then Inr (WrappedRunner (''echo '' @ executable))
      else
        (case re_look_path env executable of
           Inl _ \<Rightarrow> Inl (NotFoundInPathError executable)
         | Inr path \<Rightarrow> Inr (WrappedRunner path)))"

definition NewRunner :: "runner_env \<Rightarrow> csa_manifest option \<Rightarrow> goerr + runner" where
  "NewRunner env manifest =
     (case manifest of
        None \<Rightarrow> Inl (ErrText ''manifest cannot be nil'')
      | Some m \<Rightarrow>
          if m_action m = ActionCmd then Inr CmdRunner
          else if m_action m = ActionKubectl then newWrappedRunner env ActionKubectl
          else if m_action m = ActionCribctl then newWrappedRunner env ActionCribctl
          else if m_action m = ActionTask then newWrappedRunner env ActionTask
          else newWrappedRunner env (m_action m))"

section \<open>Execution\<close>

definition Compact :: "string list \<Rightarrow> string list" where
  "Compact xs = filter (\<lambda>x. x \<noteq> []) xs"

definition combinedOutput ::
    "'w shell \<Rightarrow> 'w \<Rightarrow> string \<Rightarrow> 'w \<times> (goerr + string)" where
  "combinedOutput sh w line =
     (case sh w line of
        (w', out, None) \<Rightarrow> (w', Inr out)
      | (w', out, Some e) \<Rightarrow>
          (w', Inl (the (Wrapf (Some e) (''running command '' @ quote (''/bin/bash -c '' @ line))))))"

definition CmdRunner_Execute ::
    "'w shell \<Rightarrow> 'w \<Rightarrow> csa_manifest \<Rightarrow> 'w \<times> csa_manifest \<times> (goerr + string)" where
  "CmdRunner_Execute sh w m =
     (if m_action m = [] then (w, m, Inl (Sentinel ErrEmptyAction))
      else
        let action = (if m_action m = ActionCmd then [] else m_action m);
            m = m\<lparr>m_args := Compact (action # m_args m)\<rparr>
        in (case combinedOutput sh w (join_with '' '' (m_args m)) of (w', r) \<Rightarrow> (w', m, r)))"

definition WrappedRunner_Execute ::
    "string \<Rightarrow> 'w shell \<Rightarrow> 'w \<Rightarrow> csa_manifest \<Rightarrow> 'w \<times> csa_manifest \<times> (goerr + string)" where
  "WrappedRunner_Execute path sh w m =
     (let m = m\<lparr>m_action := path, m_args := [join_with '' '' (m_args m)]\<rparr> in
      case CmdRunner_Execute sh w m of
        (w', m', Inl e) \<Rightarrow> (w', m', Inl (the (Wrapf (Some e) ''failed to execute command'')))
      | (w', m', Inr out) \<Rightarrow> (w', m', Inr out))"

text \<open>\<open>EchoRunner\<close>: \<open>write\<close> is its writer.\<close>

definition echo_text :: "csa_manifest \<Rightarrow> string" where
  "echo_text m =
     ''ClientSideApply:'' @ [CHR 0x0A]
     @ ''  OnFailure: '' @ m_onFailure m @ [CHR 0x0A]
     @ ''  Action: '' @ m_action m @ [CHR 0x0A]
     @ ''  Args:'' @ [CHR 0x0A]
     @ concat (map (\<lambda>arg. ''    - '' @ arg @ [CHR 0x0A]) (m_args m))"

definition EchoRunner_Execute ::
    "('w \<Rightarrow> string \<Rightarrow> 'w \<times> goerr option) \<Rightarrow> 'w \<Rightarrow> csa_manifest \<Rightarrow> 'w \<times> csa_manifest \<times> (goerr + string)" where
  "EchoRunner_Execute write w m =
     (case write w (echo_text m) of
        (w', None) \<Rightarrow> (w', m, Inr (echo_text m))
      | (w', Some e) \<Rightarrow> (w', m, Inl e))"

definition Execute ::
    "('w \<Rightarrow> string \<Rightarrow> 'w \<times> goerr option) \<Rightarrow> 'w shell \<Rightarrow> runner \<Rightarrow> 'w \<Rightarrow> csa_manifest
      \<Rightarrow> 'w \<times> csa_manifest \<times> (goerr + string)" where
  "Execute write sh r w m =
     (case r of
        EchoRunner \<Rightarrow> EchoRunner_Execute write w m
      | CmdRunner \<Rightarrow> CmdRunner_Execute sh w m
      | WrappedRunner path \<Rightarrow> WrappedRunner_Execute path sh w m)"

section \<open>The interface of a runner\<close>

text \<open>
  A client that classifies a failure after the execution needs the runner to leave \<open>OnFailure\<close>
  alone; then the failure mode is decided before the command runs.
\<close>

locale csa_runner =
  fixes execute :: "'r \<Rightarrow> 'w \<Rightarrow> csa_manifest \<Rightarrow> 'w \<times> csa_manifest \<times> (goerr + string)"
  assumes keeps_onFailure: "execute r w m = (w', m', res) \<Longrightarrow> m_onFailure m' = m_onFailure m"
begin

definition outcome :: "'r \<Rightarrow> 'w \<Rightarrow> csa_manifest \<Rightarrow> goerr option" where
  "outcome r w m =
     (case execute r w m of
        (w', m', Inr out) \<Rightarrow> NewError (m_onFailure m') None
      | (w', m', Inl e) \<Rightarrow> NewError (m_onFailure m') (Some e))"

lemma outcome_None: "outcome r w m = None \<longleftrightarrow> \<not> is_err (snd (snd (execute r w m)))"
  by (auto simp: outcome_def NewError_None_iff split: prod.splits sum.splits)

lemma outcome_aborts:
  "outcome r w m = Some e \<Longrightarrow> is_sentinel e ErrAbort \<longleftrightarrow> m_onFailure m = FailureAbort"
  using keeps_onFailure[of r w m]
  by (auto simp: outcome_def NewError_def FailureAbort_def FailureContinue_def
      split: prod.splits sum.splits if_splits)

end

lemma CmdRunner_onFailure: "CmdRunner_Execute sh w m = (w', m', res) \<Longrightarrow> m_onFailure m' = m_onFailure m"
  by (auto simp: CmdRunner_Execute_def Let_def split: if_splits prod.splits)

interpretation runners: csa_runner "Execute write sh"
proof unfold_locales
  fix r w m w' m' res
  assume "Execute write sh r w m = (w', m', res)"
  then show "m_onFailure m' = m_onFailure m"
    by (cases r)
      (auto simp: Execute_def EchoRunner_Execute_def WrappedRunner_Execute_def Let_def
        split: prod.splits option.splits sum.splits dest!: CmdRunner_onFailure)
qed

section \<open>The command line\<close>

definition command_line :: "runner \<Rightarrow> csa_manifest \<Rightarrow> string" where
  "command_line r m =
     (case r of
        WrappedRunner path \<Rightarrow> join_with '' '' (Compact [path, join_with '' '' (m_args m)])
      | _ \<Rightarrow> join_with '' '' (Compact (m_args m)))"

text \<open>
  What reaches the shell: a command manifest runs its non-empty arguments joined by blanks, any
  other manifest the resolved program followed by its arguments joined by blanks, nothing quoted; the
  result is the output, or an error that wraps the command's error.
\<close>

theorem Execute_command_line:
  assumes "r = CmdRunner \<and> m_action m = ActionCmd \<or> r = WrappedRunner path \<and> path \<noteq> [] \<and> path \<noteq> ActionCmd"
    and "sh w (command_line r m) = (w', out, err)"
  shows "\<exists>m' res. Execute write sh r w m = (w', m', res)
    \<and> (case err of None \<Rightarrow> res = Inr out | Some e \<Rightarrow> \<exists>e'. res = Inl e' \<and> (\<forall>t. is_sentinel e' t = is_sentinel e t))"
  using assms
proof (elim disjE conjE)
  assume r: "r = CmdRunner" "m_action m = ActionCmd"
  have "join_with '' '' (m_args (m\<lparr>m_args := Compact ([] # m_args m)\<rparr>)) = command_line r m"
    by (simp add: r command_line_def Compact_def)
  with r assms(2) show ?thesis
    by (cases err) (simp_all add: Execute_def CmdRunner_Execute_def combinedOutput_def ActionCmd_def)
next
  assume r: "r = WrappedRunner path" "path \<noteq> []" "path \<noteq> ActionCmd"
  then have "command_line r m = join_with '' '' (Compact [path, join_with '' '' (m_args m)])"
    by (simp add: command_line_def)
  with r assms(2) show ?thesis
    by (cases err) (simp_all add: Execute_def WrappedRunner_Execute_def CmdRunner_Execute_def combinedOutput_def)
qed

theorem Execute_command_line_witness:
  "\<exists>m' res. Execute (\<lambda>w s. (w, None)) (\<lambda>w l. (l # w, ''ok'', None)) (WrappedRunner ''/bin/kubectl'') []
      \<lparr>m_apiVersion = [], m_kind = [], m_onFailure = ''abort'', m_action = ''kubectl'', m_args = [''apply'', ''-f'', ''a.yaml'']\<rparr>
      = ([''/bin/kubectl apply -f a.yaml''], m', res)
    \<and> (case None of None \<Rightarrow> res = Inr ''ok'' | Some e \<Rightarrow> \<exists>e'. res = Inl e' \<and> (\<forall>t. is_sentinel e' t = is_sentinel e t))"
  by (rule Execute_command_line[of _ _ "''/bin/kubectl''"]) (simp_all add: ActionCmd_def command_line_def Compact_def)

text \<open>
  A wrapped runner rewrites the manifest it is given, so executing the same manifest once more
  runs another command: the program's path is passed twice.
\<close>

theorem wrapped_twice:
  assumes "path \<noteq> []" and "path \<noteq> ActionCmd" and "m_args m \<noteq> []" and "join_with '' '' (m_args m) \<noteq> []"
  shows "\<exists>w1 m1 r1. WrappedRunner_Execute path (\<lambda>w l. (w @ [l], [], None)) [] m = (w1, m1, r1)
    \<and> fst (WrappedRunner_Execute path (\<lambda>w l. (w @ [l], [], None)) w1 m1)
      = [path @ '' '' @ join_with '' '' (m_args m), path @ '' '' @ path @ '' '' @ join_with '' '' (m_args m)]"
  using assms by (simp add: WrappedRunner_Execute_def CmdRunner_Execute_def combinedOutput_def Compact_def Let_def)

theorem wrapped_twice_witness:
  "\<exists>w1 m1 r1. WrappedRunner_Execute ''/bin/task'' (\<lambda>w l. (w @ [l], [], None)) []
        \<lparr>m_apiVersion = [], m_kind = [], m_onFailure = ''abort'', m_action = ''task'', m_args = [''run'']\<rparr> = (w1, m1, r1)
    \<and> fst (WrappedRunner_Execute ''/bin/task'' (\<lambda>w l. (w @ [l], [], None)) w1 m1)
      = [''/bin/task'' @ '' '' @ ''run'', ''/bin/task'' @ '' '' @ ''/bin/task'' @ '' '' @ ''run'']"
  using wrapped_twice[of "''/bin/task''" "\<lparr>m_apiVersion = [], m_kind = [], m_onFailure = ''abort'',
      m_action = ''task'', m_args = [''run'']\<rparr>"] by (simp add: ActionCmd_def)

end
