(* ===== verification/Resolvers.thy ===== *)
theory Resolvers
  imports Infra "HOL-Library.Multiset"
begin

text \<open>
  The manifest resolvers: internal/core/service/iresolver (iresolver.go, name.go,
  image_pull_secrets.go).  cdk8s calls a resolver with a resolution context; a resolver's effect is
  the replaced value or the JSON patch it asks for.  \<open>slices.SortFunc\<close> is a parameter, of which
  only what its documentation promises is used: a sorted permutation, with no promise on the order of
  equal elements.
\<close>

section \<open>The order of resolvers\<close>

datatype 'f iresolver =
    NilResolver
  | Resolver (res_fn: 'f) (res_priority: int)
  | OtherResolver 'f

definition ResolutionPriorityDefault :: int where "ResolutionPriorityDefault = 10"
definition ResolutionPriorityLow :: int where "ResolutionPriorityLow = 0"
definition ResolutionPriorityHigh :: int where "ResolutionPriorityHigh = 100"

fun priority_of :: "'f iresolver \<Rightarrow> int" where
  "priority_of (Resolver f p) = p"
| "priority_of _ = ResolutionPriorityDefault"

text \<open>
  \<open>Resolvers\<close> reads the priority of every \<open>*Resolver\<close> it compares, so a nil one panics as soon as
  there is something to compare it with.
\<close>

definition Resolvers ::
    "(('f iresolver \<Rightarrow> int) \<Rightarrow> 'f iresolver list \<Rightarrow> 'f iresolver list)
      \<Rightarrow> 'f iresolver list \<Rightarrow> 'f iresolver list option" where
  "Resolvers sort_func rs =
     (if NilResolver \<in> set rs \<and> 1 < length rs then None
      else Some (sort_func (\<lambda>r. - priority_of r) rs))"

definition NewResolver :: "'f option \<Rightarrow> int \<Rightarrow> 'f iresolver" where
  "NewResolver fn priority = (case fn of None \<Rightarrow> NilResolver | Some f \<Rightarrow> Resolver f priority)"

text \<open>What \<open>slices.SortFunc\<close> promises for a comparison by a key.\<close>

definition sorts_by :: "(('a \<Rightarrow> int) \<Rightarrow> 'a list \<Rightarrow> 'a list) \<Rightarrow> bool" where
  "sorts_by srt \<longleftrightarrow> (\<forall>key xs. mset (srt key xs) = mset xs \<and> sorted (map key (srt key xs)))"

lemma sorts_by_sort_key: "sorts_by sort_key"
  by (simp add: sorts_by_def)

text \<open>The list \<open>createApp\<close> gives to cdk8s: the plan's resolvers and then the name resolver.\<close>

definition app_resolvers ::
    "(('f iresolver \<Rightarrow> int) \<Rightarrow> 'f iresolver list \<Rightarrow> 'f iresolver list)
      \<Rightarrow> 'f \<Rightarrow> 'f iresolver list \<Rightarrow> 'f iresolver list option" where
  "app_resolvers sort_func name_resolver rs =
     map_option (\<lambda>xs. xs @ [NewResolver (Some name_resolver) ResolutionPriorityLow]) (Resolvers sort_func rs)"

text \<open>
  The resolvers given to cdk8s are the plan's own and the name resolver, no more and no fewer,
  in descending order of priority when no priority is negative; the name resolver comes last.
\<close>

theorem app_resolvers_order:
  assumes "sorts_by srt" and "NilResolver \<notin> set rs" and "\<forall>r \<in> set rs. 0 \<le> priority_of r"
  shows "\<exists>xs. app_resolvers srt nf rs = Some xs \<and> mset xs = mset rs + {#Resolver nf 0#}
    \<and> sorted_wrt (\<lambda>a b. priority_of b \<le> priority_of a) xs \<and> last xs = Resolver nf 0"
proof -
  let ?s = "srt (\<lambda>r. - priority_of r) rs"
  have m: "mset ?s = mset rs" and s: "sorted (map (\<lambda>r. - priority_of r) ?s)"
    using assms(1) unfolding sorts_by_def by blast+
  have "sorted_wrt (\<lambda>a b. priority_of b \<le> priority_of a) ?s"
    using s by (simp add: sorted_map)
  moreover have "\<forall>r \<in> set ?s. 0 \<le> priority_of r" using assms(3) mset_eq_setD[OF m] by simp
  ultimately show ?thesis
    using m assms(2)
    by (simp add: app_resolvers_def Resolvers_def NewResolver_def ResolutionPriorityLow_def
        sorted_wrt_append)
qed

theorem app_resolvers_order_witness:
  "\<exists>xs. app_resolvers sort_key ''name'' [Resolver ''a'' 10, OtherResolver ''b'', Resolver ''c'' 100] = Some xs
    \<and> mset xs = mset [Resolver ''a'' 10, OtherResolver ''b'', Resolver ''c'' 100] + {#Resolver ''name'' 0#}
    \<and> sorted_wrt (\<lambda>a b. priority_of b \<le> priority_of a) xs \<and> last xs = Resolver ''name'' 0"
  by (rule app_resolvers_order[OF sorts_by_sort_key]) (simp_all add: ResolutionPriorityDefault_def)

section \<open>Names\<close>

record 'v resolution =
  rx_key :: "string option list"
  rx_value :: 'v
  rx_replaced :: "bool option"

definition rx_keys :: "'v resolution \<Rightarrow> string list" where
  "rx_keys ctx = map (\<lambda>k. case k of None \<Rightarrow> [] | Some s \<Rightarrow> s) (rx_key ctx)"

text \<open>
  \<open>NameResolver\<close> on a value that is a string or something else; the result is the value it
  replaces the current one with.
\<close>

definition NameResolver :: "string option resolution \<Rightarrow> string option" where
  "NameResolver ctx =
     (if rx_replaced ctx = Some True then None
      else if rx_keys ctx \<noteq> [''metadata'', ''name''] then None
      else
        let currentName = (case rx_value ctx of None \<Rightarrow> [] | Some s \<Rightarrow> s) in
        if currentName = CDK8sDefault \<or> currentName = CDK8sUnknown \<or> currentName = CDK8sResource then None
        else
          let newName = ToRFC1123 currentName in
          if currentName = newName then None else Some newName)"

definition final_name :: "string option resolution \<Rightarrow> string" where
  "final_name ctx =
     (case NameResolver ctx of Some n \<Rightarrow> n | None \<Rightarrow> (case rx_value ctx of None \<Rightarrow> [] | Some s \<Rightarrow> s))"

text \<open>
  Whatever name a component gives a resource, the name that reaches the manifest is a valid
  DNS-1035 label, unless it is one of the two capitalised placeholders of cdk8s.
\<close>

theorem NameResolver_label:
  assumes "rx_keys ctx = [''metadata'', ''name'']" and "rx_replaced ctx \<noteq> Some True"
  shows "dns1035_label (final_name ctx) \<or> final_name ctx \<in> {CDK8sDefault, CDK8sResource}"
proof -
  have "dns1035_label CDK8sUnknown" using ToRFC1123_is_label[of "[]"]
    by (simp add: ToRFC1123_def trim_space_def segments.simps)
  moreover have "x = ToRFC1123 x \<Longrightarrow> dns1035_label x" for x by (metis ToRFC1123_is_label)
  ultimately show ?thesis
    using assms ToRFC1123_is_label by (auto simp: final_name_def NameResolver_def Let_def split: option.splits)
qed

theorem NameResolver_label_witness:
  "dns1035_label (final_name \<lparr>rx_key = [Some ''metadata'', Some ''name''], rx_value = Some ''My App'', rx_replaced = None\<rparr>)
   \<or> final_name \<lparr>rx_key = [Some ''metadata'', Some ''name''], rx_value = Some ''My App'', rx_replaced = None\<rparr>
      \<in> {CDK8sDefault, CDK8sResource}"
  by (rule NameResolver_label) (simp_all add: rx_keys_def)

section \<open>Image pull secrets\<close>

record api_call =
  ac_keys :: "string option list"
  ac_obj :: string
  ac_kind :: string

definition call_keys :: "api_call \<Rightarrow> string list" where
  "call_keys c = map (\<lambda>k. case k of None \<Rightarrow> [] | Some s \<Rightarrow> s) (ac_keys c)"

definition pod_kinds :: "string list" where
  "pod_kinds = [''Pod'', ''Job'', ''CronJob'', ''Workflow'']"

definition template_kinds :: "string list" where
  "template_kinds = [''Deployment'', ''StatefulSet'', ''DaemonSet'', ''DeploymentConfig'']"

text \<open>
  One call of the closure: the objects changed so far and, when the object is patched, the path of
  the JSON patch with the list of \<open>name\<close> entries.
\<close>

definition ImagePullSecretResolver ::
    "string list \<Rightarrow> string set \<Rightarrow> api_call \<Rightarrow> string set \<times> (string \<times> (string \<times> string) list) option" where
  "ImagePullSecretResolver secrets changed c =
     (if secrets = [] then (changed, None)
      else if ac_obj c \<in> changed then (changed, None)
      else
        (case (if call_keys c = [''spec''] then
                 (if ac_kind c \<notin> set pod_kinds then None else Some ''/spec/imagePullSecrets'')
               else if call_keys c = [''spec'', ''template'', ''spec''] then
                 (if ac_kind c \<notin> set template_kinds then None
                  else Some ''/spec/template/spec/imagePullSecrets'')
               else None) of
           None \<Rightarrow> (changed, None)
         | Some path \<Rightarrow>
             (insert (ac_obj c) changed, Some (path, map (\<lambda>s. (''name'', s)) secrets))))"

fun pull_secret_run ::
    "string list \<Rightarrow> string set \<Rightarrow> api_call list \<Rightarrow> (string \<times> string \<times> (string \<times> string) list) list" where
  "pull_secret_run secrets changed [] = []"
| "pull_secret_run secrets changed (c # cs) =
     (case ImagePullSecretResolver secrets changed c of
        (changed', None) \<Rightarrow> pull_secret_run secrets changed' cs
      | (changed', Some p) \<Rightarrow> (ac_obj c, p) # pull_secret_run secrets changed' cs)"

definition patchable :: "api_call \<Rightarrow> bool" where
  "patchable c \<longleftrightarrow> (call_keys c = [''spec''] \<and> ac_kind c \<in> set pod_kinds)
     \<or> (call_keys c = [''spec'', ''template'', ''spec''] \<and> ac_kind c \<in> set template_kinds)"

lemma pull_secret_step:
  "ImagePullSecretResolver secrets changed c =
     (if secrets \<noteq> [] \<and> ac_obj c \<notin> changed \<and> patchable c
      then (insert (ac_obj c) changed,
        Some (''/'' @ join_with ''/'' (call_keys c) @ ''/imagePullSecrets'', map (\<lambda>s. (''name'', s)) secrets))
      else (changed, None))"
  by (auto simp: ImagePullSecretResolver_def patchable_def)

lemma pull_secret_objs:
  "secrets \<noteq> [] \<Longrightarrow> fst ` set (pull_secret_run secrets changed cs) = ac_obj ` {c \<in> set cs. patchable c} - changed"
proof (induction cs arbitrary: changed)
  case (Cons c cs)
  show ?case
  proof (cases "ac_obj c \<notin> changed \<and> patchable c")
    case True
    then have "fst ` set (pull_secret_run secrets changed (c # cs))
        = insert (ac_obj c) (fst ` set (pull_secret_run secrets (insert (ac_obj c) changed) cs))"
      using Cons.prems by (simp add: pull_secret_step)
    also have "\<dots> = insert (ac_obj c) (ac_obj ` {c \<in> set cs. patchable c} - insert (ac_obj c) changed)"
      using Cons by simp
    also have "\<dots> = ac_obj ` {x \<in> set (c # cs). patchable x} - changed" using True by auto
    finally show ?thesis .
  next
    case False
    then have "pull_secret_run secrets changed (c # cs) = pull_secret_run secrets changed cs"
      by (auto simp: pull_secret_step)
    then have "fst ` set (pull_secret_run secrets changed (c # cs)) = ac_obj ` {c \<in> set cs. patchable c} - changed"
      using Cons by simp
    also have "\<dots> = ac_obj ` {x \<in> set (c # cs). patchable x} - changed" using False by auto
    finally show ?thesis .
  qed
qed simp

lemma pull_secret_distinct: "distinct (map fst (pull_secret_run secrets changed cs))"
proof (cases "secrets = []")
  case True
  have "pull_secret_run [] changed cs = []"
    by (induction cs) (simp_all add: pull_secret_step)
  with True show ?thesis by simp
next
  case False
  then show ?thesis
  proof (induction cs arbitrary: changed)
    case (Cons c cs)
    then show ?case using pull_secret_objs[OF False, of "insert (ac_obj c) changed" cs]
      by (auto simp: pull_secret_step)
  qed simp
qed

text \<open>
  Over a whole synthesis, in whatever order cdk8s visits the fields, the image pull secrets
  are added to each object that has a pod specification, exactly once, with every secret of the plan
  in order; every other object is left alone.
\<close>

theorem pull_secrets_once:
  assumes "secrets \<noteq> []"
  shows "distinct (map fst (pull_secret_run secrets {} cs))
    \<and> fst ` set (pull_secret_run secrets {} cs) = ac_obj ` {c \<in> set cs. patchable c}
    \<and> snd ` snd ` set (pull_secret_run secrets {} cs) \<subseteq> {map (\<lambda>s. (''name'', s)) secrets}"
proof -
  have "snd ` snd ` set (pull_secret_run secrets changed cs) \<subseteq> {map (\<lambda>s. (''name'', s)) secrets}" for changed
    by (induction cs arbitrary: changed) (auto simp: pull_secret_step)
  then show ?thesis using pull_secret_distinct pull_secret_objs[OF assms, of "{}"] by simp
qed

theorem pull_secrets_once_witness:
  "distinct (map fst (pull_secret_run [''regcred''] {}
      [\<lparr>ac_keys = [Some ''spec''], ac_obj = ''p'', ac_kind = ''Pod''\<rparr>, \<lparr>ac_keys = [Some ''spec''], ac_obj = ''p'', ac_kind = ''Pod''\<rparr>]))
    \<and> fst ` set (pull_secret_run [''regcred''] {}
      [\<lparr>ac_keys = [Some ''spec''], ac_obj = ''p'', ac_kind = ''Pod''\<rparr>, \<lparr>ac_keys = [Some ''spec''], ac_obj = ''p'', ac_kind = ''Pod''\<rparr>])
      = ac_obj ` {c \<in> set [\<lparr>ac_keys = [Some ''spec''], ac_obj = ''p'', ac_kind = ''Pod''\<rparr>,
          \<lparr>ac_keys = [Some ''spec''], ac_obj = ''p'', ac_kind = ''Pod''\<rparr>]. patchable c}
    \<and> snd ` snd ` set (pull_secret_run [''regcred''] {}
      [\<lparr>ac_keys = [Some ''spec''], ac_obj = ''p'', ac_kind = ''Pod''\<rparr>, \<lparr>ac_keys = [Some ''spec''], ac_obj = ''p'', ac_kind = ''Pod''\<rparr>])
      \<subseteq> {map (\<lambda>s. (''name'', s)) [''regcred'']}"
  by (rule pull_secrets_once) simp

end
