(* ===== verification/PlanService.thy ===== *)
theory PlanService
  imports PlanDag PlanCache FileHandler Runner Resolvers
begin

text \<open>
  The plan service, internal/core/service/plan.go, and \<open>Plan.Apply\<close> of crib/plan.go.  A component
  function takes the state of the machine (with the global state of cdk8s in it) and returns a
  component and an error; cdk8s's synthesis, the YAML parser and the shell are parameters.  The
  locks of the service serialise callers and are not modelled: one caller runs at a time.
\<close>

section \<open>State\<close>

record 'k world =
  w_os :: os_state
  w_cdk :: 'k

type_synonym 'k cfun = "'k world \<Rightarrow> (construct option \<times> goerr option) \<times> 'k world"

datatype 'a outcome = Ret 'a | Panic string | OutOfFuel

record 'f app_plan =
  ap_RootPlan :: ptr
  ap_App :: "string \<times> 'f iresolver list"
  ap_Chart :: "string option \<times> string"
  ap_results :: results

text \<open>A nil value, as \<open>encode\<close> sees it.\<close>

definition nil_props :: encodable where
  "nil_props = \<lparr>as_string = None, as_bytes = None, json_out = Some (''null'' @ [CHR 0x0A]), gob_out = None,
     stringer = None, spew_out = ''<nil>''\<rparr>"

section \<open>CreatePlan\<close>

definition createApp ::
    "(('f iresolver \<Rightarrow> int) \<Rightarrow> 'f iresolver list \<Rightarrow> 'f iresolver list) \<Rightarrow> 'f
      \<Rightarrow> handler \<Rightarrow> ('c, 'f iresolver) heap \<Rightarrow> ptr \<Rightarrow> 'f app_plan option" where
  "createApp sort_func name_resolver fh h p =
     (case app_resolvers sort_func name_resolver (p_resolvers (h p)) of
        None \<Rightarrow> None
      | Some rs \<Rightarrow>
          Some \<lparr>ap_RootPlan = p, ap_App = (HandlerName fh, rs),
            ap_Chart = (ResourceID (p_name (h p) @ ''.'' @ p_namespace (h p)) nil_props, p_namespace (h p)),
            ap_results = New\<rparr>)"

text \<open>The loops over the components of one plan: errors are collected, components added.\<close>

fun run_components ::
    "'k cfun list \<Rightarrow> goerr option \<times> results \<times> 'k world \<Rightarrow> goerr option \<times> results \<times> 'k world" where
  "run_components [] acc = acc"
| "run_components (fn # fns) (errs, r, w) =
     (case fn w of
        ((c, Some e), w') \<Rightarrow> run_components fns (join_errors [errs, Some e], r, w')
      | ((c, None), w') \<Rightarrow> run_components fns (errs, Add c r, w'))"

definition CreatePlan ::
    "(('f iresolver \<Rightarrow> int) \<Rightarrow> 'f iresolver list \<Rightarrow> 'f iresolver list) \<Rightarrow> 'f
      \<Rightarrow> ('f app_plan \<Rightarrow> 'k world \<Rightarrow> 'k world) \<Rightarrow> nat
      \<Rightarrow> handler \<Rightarrow> bool \<Rightarrow> ('k cfun, 'f iresolver) heap \<Rightarrow> ptr \<Rightarrow> 'k world
      \<Rightarrow> (('k cfun, 'f iresolver) heap \<times> 'k world \<times> (goerr + 'f app_plan)) outcome" where
  "CreatePlan sort_func name_resolver synth fuel fh builds h p w =
     (case createApp sort_func name_resolver fh h p of
        None \<Rightarrow> Panic ''nil pointer dereference''
      | Some app \<Rightarrow>
          if \<not> builds
          then Ret (h, w, Inl (ErrText (''plan '' @ quote (p_name (h p)) @ '' does not implement Build() method'')))
          else
            (case Build fuel h p of
               NoFuel \<Rightarrow> OutOfFuel
             | Panicked m \<Rightarrow> Panic m
             | Done b \<Rightarrow>
                 let h' = b_heap b;
                     acc = fold (\<lambda>child. run_components (p_components (h' child)))
                             (p_childPlans (h' p)) (None, ap_results app, w)
                 in (case run_components (p_components (h' p)) acc of
                       (Some e, r, w') \<Rightarrow> Ret (h', w', Inl e)
                     | (None, r, w') \<Rightarrow>
                         let app' = app\<lparr>ap_RootPlan := p, ap_results := r\<rparr>
                         in Ret (h', synth app' w', Inr app'))))"

section \<open>Manifests and bundles\<close>

record manifest =
  mf_name :: string
  mf_local :: bool

record manifest_bundle =
  mb_root :: string
  mb_manifests :: "manifest list"
  mb_isLocal :: bool

definition CribAPIVersion :: string where "CribAPIVersion = ''crib.smartcontract.com/v1alpha1''"
definition ClientSideApply :: string where "ClientSideApply = ''ClientSideApply''"

text \<open>\<open>strings.EqualFold\<close> against a lower-case extension without the letters k and s.\<close>

definition lower_char :: "char \<Rightarrow> char" where
  "lower_char c = (if 65 \<le> byte c \<and> byte c \<le> 90 then char_of (byte c + 32) else c)"

definition EqualFold :: "string \<Rightarrow> string \<Rightarrow> bool" where
  "EqualFold s t = (map lower_char s = map lower_char t)"

definition discoverYAML :: "string \<Rightarrow> goerr option" where
  "discoverYAML path =
     (let ext = path_Ext path in
      if EqualFold ext ''.yaml'' \<or> EqualFold ext ''.yml'' then None else Some (SkipFileError path))"

text \<open>\<open>yaml.Unmarshal\<close> into a \<open>domain.Manifest\<close> gives its version and kind.\<close>

definition readManifest ::
    "(string \<Rightarrow> goerr + string \<times> string) \<Rightarrow> os_state \<Rightarrow> handler \<Rightarrow> string \<Rightarrow> goerr + string \<times> string" where
  "readManifest yaml os fh path =
     (case ReadFile os fh path of
        Inl e \<Rightarrow> Inl (WrapErr (''reading manifest '' @ path) e)
      | Inr raw \<Rightarrow>
          (case yaml raw of
             Inl e \<Rightarrow> Inl (WrapErr (''unmarshaling manifest '' @ path) e)
           | Inr m \<Rightarrow> Inr m))"

definition isLocalManifest ::
    "(string \<Rightarrow> goerr + string \<times> string) \<Rightarrow> os_state \<Rightarrow> handler \<Rightarrow> string \<Rightarrow> bool" where
  "isLocalManifest yaml os fh path =
     (case readManifest yaml os fh path of
        Inl _ \<Rightarrow> False
      | Inr (apiVersion, kind) \<Rightarrow> apiVersion = CribAPIVersion \<and> kind = ClientSideApply)"

definition add_manifest ::
    "manifest \<Rightarrow> (string \<times> manifest list) list \<Rightarrow> (string \<times> manifest list) list" where
  "add_manifest m al =
     (let dir = path_Dir (mf_name m) in
      AList.update dir ((case map_of al dir of None \<Rightarrow> [] | Some ms \<Rightarrow> ms) @ [m]) al)"

definition findManifests ::
    "(string \<Rightarrow> goerr + string \<times> string) \<Rightarrow> os_state \<Rightarrow> handler \<Rightarrow> (string \<times> manifest list) list" where
  "findManifests yaml os fh =
     fold (\<lambda>path. add_manifest \<lparr>mf_name = path, mf_local = isLocalManifest yaml os fh path\<rparr>)
       (Scan os fh discoverYAML) []"

text \<open>One manifest in the loop of \<open>normalizeManifests\<close>: bundles, current bundle, \<open>isLocal\<close>.\<close>

definition norm_step ::
    "string \<Rightarrow> manifest \<Rightarrow> manifest_bundle list \<times> manifest_bundle \<times> bool \<Rightarrow> manifest_bundle list \<times> manifest_bundle \<times> bool" where
  "norm_step root m st =
     (case st of (bundles, cur, isLocal) \<Rightarrow>
        let (bundles, cur, isLocal) =
              (if isLocal \<noteq> mf_local m then
                 (if mb_manifests cur \<noteq> [] then bundles @ [cur] else bundles,
                  \<lparr>mb_root = root, mb_manifests = [], mb_isLocal = mf_local m\<rparr>, mf_local m)
               else (bundles, cur, isLocal))
        in
          if \<not> mf_local m
          then (bundles, cur\<lparr>mb_manifests := mb_manifests cur @ [m]\<rparr>, isLocal)
          else (if mb_manifests cur \<noteq> [] then bundles @ [cur] else bundles,
                cur\<lparr>mb_manifests := [m]\<rparr>, isLocal))"

definition norm_dir :: "string \<Rightarrow> manifest list \<Rightarrow> manifest_bundle list \<Rightarrow> manifest_bundle list" where
  "norm_dir root ms bundles =
     (case fold (norm_step root) ms
        (bundles, \<lparr>mb_root = root, mb_manifests = [], mb_isLocal = False\<rparr>, False) of
        (bundles, cur, isLocal) \<Rightarrow> if mb_manifests cur \<noteq> [] then bundles @ [cur] else bundles)"

definition normalizeManifests :: "string \<Rightarrow> (string \<times> manifest list) list \<Rightarrow> manifest_bundle list" where
  "normalizeManifests root al =
     fold (\<lambda>dir. norm_dir root (case map_of al dir of None \<Rightarrow> [] | Some ms \<Rightarrow> ms)) (sort (map fst al)) []"

section \<open>Applying a bundle\<close>

definition bundle_String :: "manifest_bundle \<Rightarrow> string" where
  "bundle_String b = join_with '','' (map (\<lambda>m. path_Join [mb_root b, mf_name m]) (mb_manifests b))"

definition clientSideApply ::
    "(string \<Rightarrow> goerr + csa_manifest) \<Rightarrow> os_state \<Rightarrow> handler \<Rightarrow> manifest_bundle \<Rightarrow> goerr + csa_manifest" where
  "clientSideApply yaml_csa os fh b =
     (if \<not> mb_isLocal b
      then Inl (ErrText (''bundle '' @ bundle_String b @ '' is not a local manifest bundle''))
      else if length (mb_manifests b) \<noteq> 1
      then Inl (ErrText (''bundle '' @ bundle_String b @ '' contains more than one manifest, expected 1''))
      else
        let name = mf_name (hd (mb_manifests b)) in
        (case ReadFile os fh name of
           Inl e \<Rightarrow> Inl (WrapErr (''failed to read manifest '' @ name) e)
         | Inr raw \<Rightarrow>
             (case yaml_csa raw of
                Inl e \<Rightarrow> Inl (the (Wrapf (Some e) (''failed to unmarshal manifest '' @ name)))
              | Inr m \<Rightarrow> Inr m)))"

definition kubectlApply :: "manifest_bundle \<Rightarrow> goerr + csa_manifest" where
  "kubectlApply b =
     (if mb_isLocal b
      then Inl (ErrText (''bundle '' @ bundle_String b @ '' is a local manifest bundle, expected remote''))
      else if mb_manifests b = []
      then Inl (ErrText (''bundle '' @ bundle_String b @ '' contains no manifests''))
      else Inr \<lparr>m_apiVersion = [], m_kind = [], m_onFailure = FailureAbort, m_action = ActionKubectl,
             m_args = [''apply'', ''-f'', bundle_String b, ''--wait'']\<rparr>)"

definition Client ::
    "(string \<Rightarrow> goerr + csa_manifest) \<Rightarrow> os_state \<Rightarrow> handler \<Rightarrow> manifest_bundle \<Rightarrow> goerr + csa_manifest" where
  "Client yaml_csa os fh b =
     (if mb_isLocal b then clientSideApply yaml_csa os fh b else kubectlApply b)"

text \<open>What the service takes from outside: the YAML parsers, the lookup of programs, the shell.\<close>

record 'k environment =
  env_yaml :: "string \<Rightarrow> goerr + string \<times> string"
  env_csa :: "string \<Rightarrow> goerr + csa_manifest"
  env_runner :: runner_env
  env_write :: "'k world \<Rightarrow> string \<Rightarrow> 'k world \<times> goerr option"
  env_shell :: "'k world shell"

definition bundle_Apply ::
    "'k environment \<Rightarrow> handler \<Rightarrow> manifest_bundle \<Rightarrow> 'k world \<Rightarrow> goerr option \<times> 'k world" where
  "bundle_Apply env fh b w =
     (case Client (env_csa env) (w_os w) fh b of
        Inl e \<Rightarrow>
          (Some (AbortError (WrapErr (''failed to create ClientSideApplyManifest for bundle '' @ bundle_String b) e)), w)
      | Inr m \<Rightarrow>
          (case NewRunner (env_runner env) (Some m) of
             Inl e \<Rightarrow> (Some (AbortError e), w)
           | Inr r \<Rightarrow>
               (case Execute (env_write env) (env_shell env) r w m of
                  (w', m', res) \<Rightarrow>
                    (Wrapf (NewError (m_onFailure m') (case res of Inl e \<Rightarrow> Some e | Inr _ \<Rightarrow> None))
                       (''unable to execute client-side apply for bundle '' @ bundle_String b), w'))))"

fun apply_bundles ::
    "'k environment \<Rightarrow> handler \<Rightarrow> manifest_bundle list \<Rightarrow> 'k world \<Rightarrow> goerr option \<times> 'k world" where
  "apply_bundles env fh [] w = (None, w)"
| "apply_bundles env fh (b # bs) w =
     (case bundle_Apply env fh b w of
        (Some e, w') \<Rightarrow> if is_sentinel e ErrAbort then (Some e, w') else apply_bundles env fh bs w'
      | (None, w') \<Rightarrow> apply_bundles env fh bs w')"

definition AppPlan_Apply ::
    "'k environment \<Rightarrow> handler \<Rightarrow> 'f app_plan \<Rightarrow> 'k world \<Rightarrow> (goerr + results) \<times> 'k world" where
  "AppPlan_Apply env fh a w =
     (let bundles = normalizeManifests (HandlerName fh) (findManifests (env_yaml env) (w_os w) fh)
      in (case apply_bundles env fh bundles w of
            (Some e, w') \<Rightarrow> (Inl e, w')
          | (None, w') \<Rightarrow> (Inr (ap_results a), w')))"

section \<open>How manifests are grouped\<close>

text \<open>The specification: maximal runs of remote manifests, and each local manifest alone.\<close>

function runs :: "manifest list \<Rightarrow> manifest list list" where
  "runs [] = []"
| "runs (m # ms) =
     (if mf_local m then [m] # runs ms
      else (m # takeWhile (\<lambda>x. \<not> mf_local x) ms) # runs (dropWhile (\<lambda>x. \<not> mf_local x) ms))"
  by pat_completeness auto
termination
  by (relation "measure length") (simp_all add: le_imp_less_Suc length_dropWhile_le)

definition mk_bundle :: "string \<Rightarrow> manifest list \<Rightarrow> manifest_bundle" where
  "mk_bundle root ms = \<lparr>mb_root = root, mb_manifests = ms, mb_isLocal = mf_local (hd ms)\<rparr>"

definition finish :: "manifest_bundle list \<times> manifest_bundle \<times> bool \<Rightarrow> manifest_bundle list" where
  "finish st = (case st of (bundles, cur, isLocal) \<Rightarrow>
     if mb_manifests cur \<noteq> [] then bundles @ [cur] else bundles)"

lemma norm_fold:
  "list_all (\<lambda>x. \<not> mf_local x) cs \<Longrightarrow>
     finish (fold (norm_step root) ms (bs, \<lparr>mb_root = root, mb_manifests = cs, mb_isLocal = False\<rparr>, False))
     = bs @ map (mk_bundle root)
         (if cs = [] then runs ms
          else (cs @ takeWhile (\<lambda>x. \<not> mf_local x) ms) # runs (dropWhile (\<lambda>x. \<not> mf_local x) ms))"
  "mf_local c \<Longrightarrow>
     finish (fold (norm_step root) ms (bs, \<lparr>mb_root = root, mb_manifests = [c], mb_isLocal = True\<rparr>, True))
     = bs @ map (mk_bundle root) ([c] # runs ms)"
proof (induction ms arbitrary: bs cs c)
  case Nil
  {
    case 1
    then show ?case by (cases cs) (auto simp: finish_def mk_bundle_def)
  next
    case 2
    then show ?case by (simp add: finish_def mk_bundle_def)
  }
next
  case (Cons m ms)
  {
    case 1
    show ?case
    proof (cases "mf_local m")
      case True
      then have "fold (norm_step root) (m # ms) (bs, \<lparr>mb_root = root, mb_manifests = cs, mb_isLocal = False\<rparr>, False)
          = fold (norm_step root) ms (if cs \<noteq> [] then bs @ [\<lparr>mb_root = root, mb_manifests = cs, mb_isLocal = False\<rparr>] else bs,
              \<lparr>mb_root = root, mb_manifests = [m], mb_isLocal = True\<rparr>, True)"
        by (simp add: norm_step_def)
      with Cons.IH(2)[OF True] True 1 show ?thesis
        by (cases cs) (auto simp: mk_bundle_def)
    next
      case False
      with Cons.IH(1)[of "cs @ [m]" bs] 1 show ?thesis by (simp add: norm_step_def)
    qed
  next
    case 2
    show ?case
    proof (cases "mf_local m")
      case True
      with Cons.IH(2)[OF True] 2 show ?thesis by (simp add: norm_step_def mk_bundle_def)
    next
      case False
      with Cons.IH(1)[of "[m]"] 2 show ?thesis by (simp add: norm_step_def mk_bundle_def)
    qed
  }
qed

lemma norm_dir_runs: "norm_dir root ms bs = bs @ map (mk_bundle root) (runs ms)"
  using norm_fold(1)[of "[]" root ms bs] by (simp add: norm_dir_def finish_def)

lemma normalize_runs:
  "normalizeManifests root al =
     concat (map (\<lambda>d. map (mk_bundle root) (runs (case map_of al d of None \<Rightarrow> [] | Some ms \<Rightarrow> ms))) (sort (map fst al)))"
proof -
  have f: "fold (\<lambda>dir. norm_dir root (f dir)) ds bs = bs @ concat (map (\<lambda>d. map (mk_bundle root) (runs (f d))) ds)"
    for f ds bs by (induction ds arbitrary: bs) (simp_all add: norm_dir_runs)
  show ?thesis unfolding normalizeManifests_def f by simp
qed

definition manifest_of :: "(string \<Rightarrow> goerr + string \<times> string) \<Rightarrow> os_state \<Rightarrow> handler \<Rightarrow> string \<Rightarrow> manifest" where
  "manifest_of yaml os fh path = \<lparr>mf_name = path, mf_local = isLocalManifest yaml os fh path\<rparr>"

lemma add_manifests:
  "map_of (fold add_manifest ms al) d =
     (let new = filter (\<lambda>m. path_Dir (mf_name m) = d) ms in
      if new = [] then map_of al d else Some ((case map_of al d of None \<Rightarrow> [] | Some xs \<Rightarrow> xs) @ new))"
proof (induction ms arbitrary: al)
  case (Cons m ms)
  show ?case
    by (simp add: Cons.IH) (auto simp: add_manifest_def Let_def AList.update_conv' split: option.splits)
qed simp

lemma add_manifest_keys: "distinct (map fst al) \<Longrightarrow> distinct (map fst (fold add_manifest ms al))"
  by (induction ms arbitrary: al) (auto simp: add_manifest_def Let_def intro: AList.distinct_update)

lemma findManifests_fold:
  "findManifests yaml os fh = fold add_manifest (map (manifest_of yaml os fh) (Scan os fh discoverYAML)) []"
  by (simp add: findManifests_def fold_map manifest_of_def comp_def)

lemma findManifests_map:
  "map_of (findManifests yaml os fh) d =
     (let ms = filter (\<lambda>m. path_Dir (mf_name m) = d) (map (manifest_of yaml os fh) (Scan os fh discoverYAML)) in
      if ms = [] then None else Some ms)"
  unfolding findManifests_fold add_manifests by (simp add: Let_def)

lemma findManifests_dirs:
  "sort (map fst (findManifests yaml os fh)) = sorted_list_of_set (path_Dir ` set (Scan os fh discoverYAML))"
proof -
  have "distinct (map fst (findManifests yaml os fh))"
    unfolding findManifests_fold by (rule add_manifest_keys) simp
  then have "sort (map fst (findManifests yaml os fh)) = sorted_list_of_set (set (map fst (findManifests yaml os fh)))"
    by (metis sorted_list_of_set_sort_remdups distinct_remdups_id)
  moreover have "set (map fst (findManifests yaml os fh)) = dom (map_of (findManifests yaml os fh))"
    by (simp add: dom_map_of_conv_image_fst)
  moreover have "dom (map_of (findManifests yaml os fh)) = path_Dir ` set (Scan os fh discoverYAML)"
    by (auto simp: dom_def findManifests_map Let_def filter_empty_conv manifest_of_def)
  ultimately show ?thesis by simp
qed

text \<open>
  C2.  What is applied, and in which order: the YAML files of the output directory, folder by folder
  in ascending order of the folder and within a folder in the order of the scan, each local manifest on
  its own and every maximal run of other manifests together in one bundle.  Nothing is lost, nothing is
  applied twice.
\<close>

theorem bundles_spec:
  "normalizeManifests root (findManifests yaml os fh) =
     concat (map (\<lambda>d. map (mk_bundle root)
         (runs (map (manifest_of yaml os fh) (filter (\<lambda>p. path_Dir p = d) (Scan os fh discoverYAML)))))
       (sorted_list_of_set (path_Dir ` set (Scan os fh discoverYAML))))"
proof -
  have "(case map_of (findManifests yaml os fh) d of None \<Rightarrow> [] | Some ms \<Rightarrow> ms)
      = map (manifest_of yaml os fh) (filter (\<lambda>p. path_Dir p = d) (Scan os fh discoverYAML))" for d
    by (simp add: findManifests_map Let_def filter_map comp_def manifest_of_def)
  then show ?thesis unfolding normalize_runs findManifests_dirs by simp
qed

lemma runs_concat: "concat (runs ms) = ms"
  by (induction ms rule: runs.induct) simp_all

lemma runs_shape:
  "r \<in> set (runs ms) \<Longrightarrow> r \<noteq> [] \<and> (\<forall>m \<in> set r. mf_local m = mf_local (hd r)) \<and> (mf_local (hd r) \<longrightarrow> length r = 1)"
proof (induction ms rule: runs.induct)
  case (2 m ms)
  show ?case
  proof (cases "mf_local m")
    case True
    with 2 show ?thesis by auto
  next
    case False
    with "2.prems" have "r = m # takeWhile (\<lambda>x. \<not> mf_local x) ms \<or> r \<in> set (runs (dropWhile (\<lambda>x. \<not> mf_local x) ms))"
      by simp
    then show ?thesis
    proof
      assume r: "r = m # takeWhile (\<lambda>x. \<not> mf_local x) ms"
      have "\<forall>x \<in> set r. \<not> mf_local x" using False by (auto simp: r dest: set_takeWhileD)
      then show ?thesis using False by (simp add: r)
    qed (rule "2.IH"(2)[OF False])
  qed
qed simp

text \<open>
  C9.  Every bundle of the normalisation is well formed, so the guards of the appliers never fire:
  a remote bundle always becomes a \<open>kubectl apply --wait\<close> of exactly its files that aborts on
  failure, and a local bundle can only fail because its single manifest cannot be read or parsed.
\<close>

theorem bundle_well_formed:
  assumes "b \<in> set (normalizeManifests root al)"
  shows "if mb_isLocal b
    then \<exists>m. mb_manifests b = [m] \<and> mf_local m
      \<and> is_err (Client yaml_csa os fh b)
        = (case ReadFile os fh (mf_name m) of Inl _ \<Rightarrow> True | Inr raw \<Rightarrow> is_err (yaml_csa raw))
    else Client yaml_csa os fh b = Inr \<lparr>m_apiVersion = [], m_kind = [],
            m_onFailure = FailureAbort, m_action = ActionKubectl,
            m_args = [''apply'', ''-f'', bundle_String b, ''--wait'']\<rparr>"
proof -
  from assms obtain d r where r: "b = mk_bundle root r" "r \<in> set (runs d)"
    unfolding normalize_runs by auto
  note s = runs_shape[OF r(2)]
  have b: "mb_manifests b \<noteq> []" "mb_isLocal b = mf_local (hd (mb_manifests b))"
    using conjunct1[OF s] by (simp_all add: r(1) mk_bundle_def)
  have one: "mb_isLocal b \<Longrightarrow> length (mb_manifests b) = 1"
    using conjunct2[OF conjunct2[OF s]] by (simp add: r(1) mk_bundle_def)
  show ?thesis
  proof (cases "mb_isLocal b")
    case True
    from one[OF True] obtain m where m: "mb_manifests b = [m]" by (auto simp: length_Suc_conv)
    have c: "Client yaml_csa os fh b = (case ReadFile os fh (mf_name m) of
         Inl e \<Rightarrow> Inl (WrapErr (''failed to read manifest '' @ mf_name m) e)
       | Inr raw \<Rightarrow> (case yaml_csa raw of
             Inl e \<Rightarrow> Inl (the (Wrapf (Some e) (''failed to unmarshal manifest '' @ mf_name m)))
           | Inr m \<Rightarrow> Inr m))"
      using True m by (simp add: Client_def clientSideApply_def Let_def)
    have "is_err (Client yaml_csa os fh b)
        = (case ReadFile os fh (mf_name m) of Inl _ \<Rightarrow> True | Inr raw \<Rightarrow> is_err (yaml_csa raw))"
      unfolding c by (simp split: sum.splits)
    with True b(2) m show ?thesis by simp
  next
    case False
    with b(1) show ?thesis by (simp add: Client_def kubectlApply_def)
  qed
qed

section \<open>Abort or continue\<close>

text \<open>
  Whether applying a bundle in a given state stops the plan: the manifest cannot be made, its
  program cannot be found, or the command fails and the manifest says \<open>abort\<close>.
\<close>

definition stops :: "'k environment \<Rightarrow> handler \<Rightarrow> manifest_bundle \<Rightarrow> 'k world \<Rightarrow> bool" where
  "stops env fh b w =
     (case Client (env_csa env) (w_os w) fh b of
        Inl _ \<Rightarrow> True
      | Inr m \<Rightarrow>
          (case NewRunner (env_runner env) (Some m) of
             Inl _ \<Rightarrow> True
           | Inr r \<Rightarrow>
               is_err (snd (snd (Execute (env_write env) (env_shell env) r w m))) \<and> m_onFailure m = FailureAbort))"

definition aborts :: "goerr option \<Rightarrow> bool" where
  "aborts err = (case err of None \<Rightarrow> False | Some e \<Rightarrow> is_sentinel e ErrAbort)"

lemma bundle_Apply_outcome:
  assumes "Client (env_csa env) (w_os w) fh b = Inr m" "NewRunner (env_runner env) (Some m) = Inr r"
  shows "bundle_Apply env fh b w =
    (Wrapf (csa_runner.outcome (Execute (env_write env) (env_shell env)) r w m)
       (''unable to execute client-side apply for bundle '' @ bundle_String b),
     fst (Execute (env_write env) (env_shell env) r w m))"
  using assms by (auto simp: bundle_Apply_def runners.outcome_def split: prod.splits sum.splits)

lemma bundle_aborts:
  "aborts (fst (bundle_Apply env fh b w)) \<longleftrightarrow> stops env fh b w"
proof (cases "Client (env_csa env) (w_os w) fh b")
  case (Inl e)
  then show ?thesis by (simp add: bundle_Apply_def stops_def aborts_def)
next
  case (Inr m)
  show ?thesis
  proof (cases "NewRunner (env_runner env) (Some m)")
    case (Inl e)
    with Inr show ?thesis by (simp add: bundle_Apply_def stops_def aborts_def)
  next
    case R: (Inr r)
    let ?o = "csa_runner.outcome (Execute (env_write env) (env_shell env)) r w m"
    have "aborts (Wrapf ?o x) \<longleftrightarrow> ?o \<noteq> None \<and> m_onFailure m = FailureAbort" for x
      using runners.outcome_aborts[of "env_write env" "env_shell env" r w m]
      by (cases ?o) (simp_all add: aborts_def)
    then show ?thesis
      using Inr R bundle_Apply_outcome[of env w fh b m r] runners.outcome_None[of "env_write env" "env_shell env" r w m]
      by (simp add: stops_def)
  qed
qed

text \<open>
  C7.  A bundle's error makes \<open>Apply\<close> abort exactly when \<open>stops\<close> says so: a failed command of a
  manifest with \<open>continue\<close>, or with any other value of \<open>OnFailure\<close>, does not stop the plan, whatever
  the command's own error is.
\<close>

theorem bundle_aborts_iff_stops:
  "aborts (fst (bundle_Apply env fh b w)) \<longleftrightarrow> stops env fh b w"
  by (rule bundle_aborts)

definition after :: "'k environment \<Rightarrow> handler \<Rightarrow> manifest_bundle list \<Rightarrow> 'k world \<Rightarrow> 'k world" where
  "after env fh bs w = fold (\<lambda>b w. snd (bundle_Apply env fh b w)) bs w"

lemma apply_bundles_append:
  "apply_bundles env fh (as @ bs) w =
     (case apply_bundles env fh as w of (None, w') \<Rightarrow> apply_bundles env fh bs w' | r \<Rightarrow> r)"
  by (induction as arbitrary: w) (auto split: prod.splits option.splits)

lemma apply_bundles_None:
  "apply_bundles env fh bs w = (None, w') \<Longrightarrow> w' = after env fh bs w"
  by (induction bs arbitrary: w) (auto simp: after_def split: prod.splits option.splits if_splits)

lemma apply_bundles_Some:
  "apply_bundles env fh bs w = (Some e, w') \<Longrightarrow>
     \<exists>as b cs. bs = as @ b # cs \<and> fst (apply_bundles env fh as w) = None
       \<and> aborts (fst (bundle_Apply env fh b (after env fh as w)))
       \<and> bundle_Apply env fh b (after env fh as w) = (Some e, w')"
proof (induction bs arbitrary: w)
  case (Cons b bs)
  obtain r w1 where b: "bundle_Apply env fh b w = (r, w1)" by fastforce
  show ?case
  proof (cases "aborts r")
    case True
    with Cons.prems b have "r = Some e" "w' = w1" by (auto simp: aborts_def split: option.splits)
    with b True show ?thesis by (intro exI[of _ "[]"] exI[of _ b] exI[of _ bs]) (simp add: after_def)
  next
    case False
    with Cons.prems b have "apply_bundles env fh bs w1 = (Some e, w')"
      by (auto simp: aborts_def split: option.splits)
    from Cons.IH[OF this] obtain as c cs where IH: "bs = as @ c # cs" "fst (apply_bundles env fh as w1) = None"
      "aborts (fst (bundle_Apply env fh c (after env fh as w1)))"
      "bundle_Apply env fh c (after env fh as w1) = (Some e, w')" by blast
    have "fst (apply_bundles env fh (b # as) w) = None" using b False IH(2)
      by (auto simp: aborts_def split: option.splits)
    moreover have "after env fh (b # as) w = after env fh as w1" using b by (simp add: after_def)
    ultimately show ?thesis using IH
      by (intro exI[of _ "b # as"] exI[of _ c] exI[of _ cs]) simp
  qed
qed simp

definition none_stops :: "'k environment \<Rightarrow> handler \<Rightarrow> manifest_bundle list \<Rightarrow> 'k world \<Rightarrow> bool" where
  "none_stops env fh bs w =
     (\<forall>as b cs. bs = as @ b # cs \<longrightarrow> \<not> stops env fh b (after env fh as w))"

definition plan_bundles :: "'k environment \<Rightarrow> handler \<Rightarrow> 'k world \<Rightarrow> manifest_bundle list" where
  "plan_bundles env fh w = normalizeManifests (HandlerName fh) (findManifests (env_yaml env) (w_os w) fh)"

lemma apply_bundles_None_iff:
  "fst (apply_bundles env fh bs w) = None \<longleftrightarrow> none_stops env fh bs w"
  unfolding none_stops_def
proof
  assume none: "fst (apply_bundles env fh bs w) = None"
  show "\<forall>as b cs. bs = as @ b # cs \<longrightarrow> \<not> stops env fh b (after env fh as w)"
  proof (intro allI impI)
    fix as b cs assume bs: "bs = as @ b # cs"
    obtain w1 where as: "apply_bundles env fh as w = (None, w1)"
      using none unfolding bs apply_bundles_append by (cases "apply_bundles env fh as w") (auto split: option.splits)
    note w1 = apply_bundles_None[OF as]
    have "\<not> aborts (fst (bundle_Apply env fh b w1))"
      using none as unfolding bs apply_bundles_append
      by (auto simp: aborts_def split: prod.splits option.splits)
    then show "\<not> stops env fh b (after env fh as w)"
      using bundle_aborts[of env fh b w1] w1 by simp
  qed
next
  assume "\<forall>as b cs. bs = as @ b # cs \<longrightarrow> \<not> stops env fh b (after env fh as w)"
  then show "fst (apply_bundles env fh bs w) = None"
    using apply_bundles_Some[of env fh bs w] bundle_aborts by (metis option.exhaust prod.collapse)
qed

text \<open>
  C5.  \<open>Apply\<close> runs the bundles in order up to the first one that stops the plan: it returns that
  bundle's error and the machine as that bundle left it, no later bundle having run; when none stops it,
  every bundle has run and the results of the plan are returned.
\<close>

theorem AppPlan_Apply_spec:
  "AppPlan_Apply env fh app w = (Inr (ap_results app), after env fh (plan_bundles env fh w) w)
      \<and> none_stops env fh (plan_bundles env fh w) w
    \<or> (\<exists>as b cs e. plan_bundles env fh w = as @ b # cs \<and> none_stops env fh as w
        \<and> stops env fh b (after env fh as w)
        \<and> AppPlan_Apply env fh app w = (Inl e, after env fh (as @ [b]) w))"
proof -
  let ?bs = "plan_bundles env fh w"
  obtain r w' where p: "apply_bundles env fh ?bs w = (r, w')" by fastforce
  show ?thesis
  proof (cases r)
    case None
    then have "AppPlan_Apply env fh app w = (Inr (ap_results app), after env fh ?bs w)"
      using p apply_bundles_None[of env fh ?bs w w'] by (simp add: AppPlan_Apply_def plan_bundles_def Let_def)
    moreover have "none_stops env fh ?bs w"
      using apply_bundles_None_iff[of env fh ?bs w] p None by simp
    ultimately show ?thesis by blast
  next
    case (Some e)
    with p apply_bundles_Some[of env fh ?bs w e w'] obtain as b cs where
      s: "?bs = as @ b # cs" "fst (apply_bundles env fh as w) = None"
        "aborts (fst (bundle_Apply env fh b (after env fh as w)))"
        "bundle_Apply env fh b (after env fh as w) = (Some e, w')" by blast
    have "stops env fh b (after env fh as w)" using s(3) bundle_aborts by blast
    moreover have "after env fh (as @ [b]) w = w'" using s(4) by (simp add: after_def)
    moreover have "AppPlan_Apply env fh app w = (Inl e, w')"
      using p Some by (simp add: AppPlan_Apply_def plan_bundles_def Let_def)
    ultimately show ?thesis using s(1,2) apply_bundles_None_iff[of env fh as w] by blast
  qed
qed

section \<open>CreatePlan runs every component\<close>

fun run_all :: "'k cfun list \<Rightarrow> 'k world \<Rightarrow> (construct option \<times> goerr option) list \<times> 'k world" where
  "run_all [] w = ([], w)"
| "run_all (fn # fns) w =
     (case fn w of (ce, w') \<Rightarrow> (case run_all fns w' of (ces, w'') \<Rightarrow> (ce # ces, w'')))"

definition errors_of :: "(construct option \<times> goerr option) list \<Rightarrow> goerr list" where
  "errors_of outs = map the (filter (\<lambda>e. e \<noteq> None) (map snd outs))"

definition oks_of :: "(construct option \<times> goerr option) list \<Rightarrow> construct option list" where
  "oks_of outs = map fst (filter (\<lambda>ce. snd ce = None) outs)"

definition joined :: "goerr option \<Rightarrow> goerr list \<Rightarrow> goerr option" where
  "joined err es = fold (\<lambda>e acc. join_errors [acc, Some e]) es err"

lemma run_all_append:
  "run_all (fs @ gs) w = (case run_all fs w of (xs, w1) \<Rightarrow> case run_all gs w1 of (ys, w2) \<Rightarrow> (xs @ ys, w2))"
  by (induction fs arbitrary: w) (simp_all split: prod.splits)

lemma run_components_run_all:
  "run_components fns (err, r, w) =
     (case run_all fns w of (outs, w') \<Rightarrow> (joined err (errors_of outs), fold Add (oks_of outs) r, w'))"
  by (induction fns arbitrary: err r w)
     (auto simp: joined_def errors_of_def oks_of_def split: prod.splits option.splits)

lemma run_components_append:
  "run_components (fs @ gs) acc = run_components gs (run_components fs acc)"
proof (cases acc)
  case (fields err r w)
  have "joined err (errors_of (xs @ ys)) = joined (joined err (errors_of xs)) (errors_of ys)
      \<and> fold Add (oks_of (xs @ ys)) r = fold Add (oks_of ys) (fold Add (oks_of xs) r)" for xs ys
    by (simp add: joined_def errors_of_def oks_of_def)
  then show ?thesis by (simp add: fields run_components_run_all run_all_append split: prod.splits)
qed

lemma fold_run_components:
  "fold (\<lambda>child. run_components (f child)) cs acc = run_components (concat (map f cs)) acc"
  by (induction cs arbitrary: acc) (simp_all add: run_components_append)

lemma joined_leaves:
  "joined err es = None \<longleftrightarrow> err = None \<and> es = []"
  "joined err es = Some e \<Longrightarrow> leaves e = (case err of None \<Rightarrow> [] | Some x \<Rightarrow> leaves x) @ concat (map leaves es)"
proof -
  show "joined err es = None \<longleftrightarrow> err = None \<and> es = []"
    unfolding joined_def by (induction es arbitrary: err) (auto simp: join_errors_None_iff)
  show "joined err es = Some e \<Longrightarrow> leaves e = (case err of None \<Rightarrow> [] | Some x \<Rightarrow> leaves x) @ concat (map leaves es)"
    unfolding joined_def
  proof (induction es arbitrary: err)
    case (Cons x es)
    from Cons.IH[of "join_errors [err, Some x]"] Cons.prems show ?case
      by (cases err) (simp_all add: join_errors_def)
  qed simp
qed

text \<open>The component functions a plan runs: those of its direct children, then its own.\<close>

definition plan_cfuns :: "('k cfun, 'r) heap \<Rightarrow> ptr \<Rightarrow> 'k cfun list" where
  "plan_cfuns h p =
     concat (map (\<lambda>c. p_components (h c)) (p_childPlans (h p) @ p_childFuncs (h p))) @ p_components (h p)"

lemma CreatePlan_built:
  assumes "createApp srt nf fh h p = Some app" and "Build fuel h p = Done b" and "unique_names h p"
  shows "CreatePlan srt nf synth fuel fh True h p w =
    (case run_all (plan_cfuns h p) w of (outs, w') \<Rightarrow>
       (case joined None (errors_of outs) of
          Some e \<Rightarrow> Ret (b_heap b, w', Inl e)
        | None \<Rightarrow>
            let app' = app\<lparr>ap_RootPlan := p, ap_results := fold Add (oks_of outs) New\<rparr>
            in Ret (b_heap b, synth app' w', Inr app')))"
proof -
  note hb = Build_resolved[OF assms(2,3)]
  have comps: "p_components (b_heap b q) = p_components (h q)" for q by (simp add: hb resolved_def)
  have kids: "p_childPlans (b_heap b p) = p_childPlans (h p) @ p_childFuncs (h p)" by (simp add: hb resolved_def)
  have res: "ap_results app = New" using assms(1) by (auto simp: createApp_def split: option.splits)
  have "run_components (p_components (b_heap b p))
      (fold (\<lambda>child. run_components (p_components (b_heap b child))) (p_childPlans (b_heap b p)) (None, ap_results app, w))
    = (case run_all (plan_cfuns h p) w of (outs, w') \<Rightarrow> (joined None (errors_of outs), fold Add (oks_of outs) New, w'))"
    unfolding fold_run_components comps kids res run_components_append[symmetric] plan_cfuns_def[symmetric]
    by (rule run_components_run_all)
  then show ?thesis
    unfolding CreatePlan_def assms(1,2)
    by (simp add: Let_def split: prod.splits option.splits)
qed

text \<open>
  C1.  \<open>CreatePlan\<close> runs every component function of the direct child plans and of the plan
  itself, in their order, even after a failure.  It succeeds exactly when none of them failed: then the
  results hold all their components in that order and the application has been synthesised.  Otherwise
  nothing is synthesised and the returned error carries every failure, in order.
\<close>

theorem CreatePlan_runs_all:
  assumes "createApp srt nf fh h p = Some app" and "Build fuel h p = Done b" and "unique_names h p"
    and "run_all (plan_cfuns h p) w = (outs, w')"
  shows "(errors_of outs = [] \<and> (\<exists>app'. ap_results app' = fold Add (map fst outs) New
        \<and> CreatePlan srt nf synth fuel fh True h p w = Ret (b_heap b, synth app' w', Inr app')))
    \<or> (errors_of outs \<noteq> [] \<and> (\<exists>e. leaves e = concat (map leaves (errors_of outs))
        \<and> CreatePlan srt nf synth fuel fh True h p w = Ret (b_heap b, w', Inl e)))"
proof (cases "errors_of outs = []")
  case True
  then have "filter (\<lambda>ce. snd ce = None) outs = outs"
    by (auto simp: errors_of_def filter_empty_conv intro!: filter_True)
  then have ok: "oks_of outs = map fst outs" by (simp add: oks_of_def)
  let ?app = "app\<lparr>ap_RootPlan := p, ap_results := fold Add (map fst outs) New\<rparr>"
  have "CreatePlan srt nf synth fuel fh True h p w = Ret (b_heap b, synth ?app w', Inr ?app)"
    using CreatePlan_built[OF assms(1-3), of synth w] assms(4) True ok by (simp add: joined_def Let_def)
  with True show ?thesis by (intro disjI1 conjI exI[of _ ?app]) simp_all
next
  case False
  then obtain e where e: "joined None (errors_of outs) = Some e" using joined_leaves(1) by blast
  from joined_leaves(2)[OF e] have "leaves e = concat (map leaves (errors_of outs))" by simp
  moreover have "CreatePlan srt nf synth fuel fh True h p w = Ret (b_heap b, w', Inl e)"
    using CreatePlan_built[OF assms(1-3), of synth w] assms(4) e by simp
  ultimately show ?thesis using False by blast
qed

section \<open>Plan.Apply\<close>

definition Plan_Apply ::
    "unicode_tables \<Rightarrow> nat \<Rightarrow> string \<Rightarrow> string list
      \<Rightarrow> (('f iresolver \<Rightarrow> int) \<Rightarrow> 'f iresolver list \<Rightarrow> 'f iresolver list) \<Rightarrow> 'f
      \<Rightarrow> ('f app_plan \<Rightarrow> 'k world \<Rightarrow> 'k world) \<Rightarrow> nat \<Rightarrow> 'k environment
      \<Rightarrow> ('k cfun, 'f iresolver) heap \<Rightarrow> ptr \<Rightarrow> 'k world
      \<Rightarrow> (('k cfun, 'f iresolver) heap \<times> 'k world \<times> (goerr + results)) outcome" where
  "Plan_Apply U n tmp rnds srt nf synth fuel env h p w =
     (case NewTempHandler U n (w_os w) tmp rnds (p_name (h p)) of
        None \<Rightarrow> OutOfFuel
      | Some (os', Inl e) \<Rightarrow> Ret (h, w\<lparr>w_os := os'\<rparr>, Inl (WrapErr ''creating file handler'' e))
      | Some (os', Inr fh) \<Rightarrow>
          (case Build fuel h p of
             NoFuel \<Rightarrow> OutOfFuel
           | Panicked m \<Rightarrow> Panic m
           | Done b \<Rightarrow>
               (case CreatePlan srt nf synth fuel fh True (b_heap b) p (w\<lparr>w_os := os'\<rparr>) of
                  OutOfFuel \<Rightarrow> OutOfFuel
                | Panic m \<Rightarrow> Panic m
                | Ret (h', w1, Inl e) \<Rightarrow> Ret (h', w1, Inl e)
                | Ret (h', w1, Inr intent) \<Rightarrow>
                    (case AppPlan_Apply env fh intent w1 of
                       (Inl e, w2) \<Rightarrow> Ret (h', w2, Inl (CErr e))
                     | (Inr state, w2) \<Rightarrow> Ret (h', w2, Inr state)))))"

lemma built_plan:
  assumes "Build fuel h p = Done b" "unique_names h p"
  shows "unique_names (b_heap b) p" "plan_cfuns (b_heap b) p = plan_cfuns h p"
    "createApp srt nf fh (b_heap b) p = createApp srt nf fh h p"
proof -
  have hp: "b_heap b p = resolved (h p)" using Build_resolved[OF assms, of p] by simp
  have "reach (b_heap b) p \<subseteq> {p}" by (rule reach_least) (simp_all add: hp resolved_def)
  then show "unique_names (b_heap b) p" unfolding unique_names_def by (rule inj_on_subset[rotated]) simp
  have "p_components (b_heap b q) = p_components (h q)" for q
    by (simp add: Build_resolved[OF assms] resolved_def)
  then show "plan_cfuns (b_heap b) p = plan_cfuns h p" by (simp add: plan_cfuns_def hp resolved_def)
  have "p_name (b_heap b p) = p_name (h p)" "p_namespace (b_heap b p) = p_namespace (h p)"
    "p_resolvers (b_heap b p) = p_resolvers (h p)"
    by (simp_all add: hp resolved_def)
  then show "createApp srt nf fh (b_heap b) p = createApp srt nf fh h p"
    by (simp only: createApp_def)
qed

text \<open>
  C11.  The whole of \<open>Plan.Apply\<close>: when the dependency graph is acyclic, every component function
  of the direct children and of the plan succeeds and no bundle stops the plan, every bundle is
  applied and the state returned lists every component in the order it was created.
\<close>

theorem Plan_Apply_succeeds:
  assumes "NewTempHandler U n (w_os w) tmp rnds (p_name (h p)) = Some (os', Inr fh)"
    and "createApp srt nf fh h p = Some app"
    and "Build fuel h p = Done b" and "unique_names h p"
    and "run_all (plan_cfuns h p) (w\<lparr>w_os := os'\<rparr>) = (outs, w1)" and "errors_of outs = []"
    and "app' = app\<lparr>ap_RootPlan := p, ap_results := fold Add (map fst outs) New\<rparr>"
    and "none_stops env fh (plan_bundles env fh (synth app' w1)) (synth app' w1)"
  shows "Plan_Apply U n tmp rnds srt nf synth fuel env h p w =
    Ret (b_heap b, after env fh (plan_bundles env fh (synth app' w1)) (synth app' w1),
         Inr (fold Add (map fst outs) New))"
proof -
  note built = built_plan[OF assms(3,4)]
  have fuel: "0 < fuel" using assms(3) by (cases fuel) (simp_all add: Build_def)
  from Build_rebuild[OF assms(3) fuel] obtain b' where
    b': "Build fuel (b_heap b) p = Done b'" "b_heap b' = b_heap b" by blast
  have filt: "filter (\<lambda>ce. snd ce = None) outs = outs"
    using assms(6) by (auto simp: errors_of_def filter_empty_conv intro!: filter_True)
  have app: "createApp srt nf fh (b_heap b) p = Some app" using assms(2) built(3) by simp
  have run: "run_all (plan_cfuns (b_heap b) p) (w\<lparr>w_os := os'\<rparr>) = (outs, w1)" using assms(5) built(2) by simp
  have cp: "CreatePlan srt nf synth fuel fh True (b_heap b) p (w\<lparr>w_os := os'\<rparr>) = Ret (b_heap b, synth app' w1, Inr app')"
    using CreatePlan_built[OF app b'(1) built(1), of synth "w\<lparr>w_os := os'\<rparr>"] assms(6,7) run filt b'(2)
    by (simp add: joined_def oks_of_def Let_def)
  have "fst (apply_bundles env fh (plan_bundles env fh (synth app' w1)) (synth app' w1)) = None"
    using assms(8) apply_bundles_None_iff by blast
  then have ab: "apply_bundles env fh (plan_bundles env fh (synth app' w1)) (synth app' w1)
      = (None, after env fh (plan_bundles env fh (synth app' w1)) (synth app' w1))"
    using apply_bundles_None by (metis prod.collapse)
  have "AppPlan_Apply env fh app' (synth app' w1)
      = (Inr (ap_results app'), after env fh (plan_bundles env fh (synth app' w1)) (synth app' w1))"
    using ab by (simp add: AppPlan_Apply_def plan_bundles_def Let_def)
  with cp assms(1,3,7) show ?thesis by (simp add: Plan_Apply_def)
qed

section \<open>Preview\<close>

text \<open>A tree of treeprint: a branch or a node with its text; a node has no children.\<close>

datatype tree = Branch (branch_text: string) (sub_trees: "tree list")

definition shown_children :: "construct \<Rightarrow> construct list" where
  "shown_children c =
     (case c_node c of None \<Rightarrow> []
      | Some n \<Rightarrow> (case n_children n of None \<Rightarrow> [] | Some cs \<Rightarrow> map the (filter (\<lambda>x. x \<noteq> None) cs)))"

text \<open>\<open>tyname\<close> is what \<open>%T\<close> prints.\<close>

definition addNestedComponents :: "(construct \<Rightarrow> string) \<Rightarrow> construct \<Rightarrow> tree list" where
  "addNestedComponents tyname c =
     map (\<lambda>child. Branch (case construct_id (Some child) of Some i \<Rightarrow> i | None \<Rightarrow> tyname child) [])
       (shown_children c)"

definition getComponentDisplayNameFromComponent :: "(construct \<Rightarrow> string) \<Rightarrow> construct option \<Rightarrow> string" where
  "getComponentDisplayNameFromComponent tyname component =
     (case component of
        None \<Rightarrow> ''<nil component>''
      | Some c \<Rightarrow>
          (case construct_id (Some c) of
             Some i \<Rightarrow> i @ '' ('' @ tyname c @ '')''
           | None \<Rightarrow> tyname c))"

definition countDisplayedComponents :: "construct option \<Rightarrow> nat" where
  "countDisplayedComponents component =
     (case component of
        None \<Rightarrow> 0
      | Some c \<Rightarrow>
          (case c_node c of None \<Rightarrow> 0
           | Some n \<Rightarrow>
               (case n_children n of None \<Rightarrow> 0 | Some cs \<Rightarrow> length (filter (\<lambda>x. x \<noteq> None) cs))))"

fun preview_components ::
    "(construct \<Rightarrow> string) \<Rightarrow> 'k cfun list \<Rightarrow> tree list \<times> construct list \<times> 'k world
      \<Rightarrow> tree list \<times> construct list \<times> 'k world" where
  "preview_components tyname [] acc = acc"
| "preview_components tyname (fn # fns) (ts, cs, w) =
     (case fn w of
        ((c, Some e), w') \<Rightarrow> preview_components tyname fns (ts @ [Branch (''<error: '' @ error_text e @ ''>'') []], cs, w')
      | ((None, None), w') \<Rightarrow> preview_components tyname fns (ts @ [Branch ''<nil component>'' []], cs, w')
      | ((Some c, None), w') \<Rightarrow>
          preview_components tyname fns
            (ts @ [Branch (getComponentDisplayNameFromComponent tyname (Some c)) (addNestedComponents tyname c)],
             cs @ [c], w'))"

fun preview_children ::
    "(construct \<Rightarrow> string) \<Rightarrow> ('k cfun, 'r) heap \<Rightarrow> ptr list \<Rightarrow> tree list \<times> construct list \<times> 'k world
      \<Rightarrow> tree list \<times> construct list \<times> 'k world" where
  "preview_children tyname h [] acc = acc"
| "preview_children tyname h (child # children) (ts, cs, w) =
     (case preview_components tyname (p_components (h child)) ([], cs, w) of
        (sub, cs', w') \<Rightarrow>
          preview_children tyname h children
            (ts @ [Branch (''Plan: '' @ p_name (h child) @ ''.'' @ p_namespace (h child)) sub], cs', w'))"

definition preview_tree ::
    "(construct \<Rightarrow> string) \<Rightarrow> ('k cfun, 'r) heap \<Rightarrow> ptr \<Rightarrow> 'k world \<Rightarrow> tree \<times> nat \<times> 'k world" where
  "preview_tree tyname h p w =
     (case preview_children tyname h (p_childPlans (h p)) ([], [], w) of
        acc \<Rightarrow>
          (case preview_components tyname (p_components (h p)) acc of
             (ts, shown, w') \<Rightarrow>
               (Branch (p_name (h p) @ ''.'' @ p_namespace (h p)) ts,
                sum_list (map (\<lambda>c. countDisplayedComponents (Some c)) shown), w')))"

definition Preview ::
    "(construct \<Rightarrow> string) \<Rightarrow> (tree \<Rightarrow> string) \<Rightarrow> ('k cfun, 'r) heap \<Rightarrow> ptr \<Rightarrow> 'k world \<Rightarrow> string \<times> 'k world" where
  "Preview tyname render h p w =
     (case preview_tree tyname h p w of (t, nested, w') \<Rightarrow>
        (render (Branch ''.'' [t]) @ [CHR 0x0A] @ ''Summary:'' @ [CHR 0x0A]
         @ ''- Root Plan: '' @ p_name (h p) @ ''.'' @ p_namespace (h p) @ [CHR 0x0A]
         @ ''- Root Components: '' @ show_nat (length (p_components (h p))) @ [CHR 0x0A]
         @ ''- All Nested Components: '' @ show_nat nested @ [CHR 0x0A], w'))"

text \<open>The nested components the tree shows: the children of the component branches.\<close>

definition nested_of :: "tree list \<Rightarrow> nat" where
  "nested_of ts = sum_list (map (\<lambda>t. length (sub_trees t)) ts)"

lemma count_shown: "countDisplayedComponents (Some c) = length (addNestedComponents tyname c)"
  by (simp add: countDisplayedComponents_def addNestedComponents_def shown_children_def
      split: option.splits)

lemma preview_components_count:
  "preview_components tyname fns (ts, cs, w) = (ts', cs', w') \<Longrightarrow>
     \<exists>new. ts' = ts @ new
       \<and> sum_list (map (\<lambda>c. countDisplayedComponents (Some c)) cs')
         = sum_list (map (\<lambda>c. countDisplayedComponents (Some c)) cs) + nested_of new"
proof (induction fns arbitrary: ts cs w)
  case (Cons fn fns)
  obtain c e w1 where f: "fn w = ((c, e), w1)" by (metis prod.collapse)
  from Cons.prems f obtain t cs1 where
    rest: "preview_components tyname fns (ts @ [t], cs1, w1) = (ts', cs', w')"
    and one: "sum_list (map (\<lambda>c. countDisplayedComponents (Some c)) cs1)
      = sum_list (map (\<lambda>c. countDisplayedComponents (Some c)) cs) + length (sub_trees t)"
    by (cases e; cases c) (auto simp: count_shown[of _ tyname])
  from Cons.IH[OF rest] one show ?case by (fastforce simp: nested_of_def)
qed (simp add: nested_of_def)

lemma preview_children_count:
  "preview_children tyname h children (ts, cs, w) = (ts', cs', w') \<Longrightarrow>
     \<exists>new. ts' = ts @ new \<and> length new = length children
       \<and> sum_list (map (\<lambda>c. countDisplayedComponents (Some c)) cs')
         = sum_list (map (\<lambda>c. countDisplayedComponents (Some c)) cs)
           + sum_list (map (\<lambda>t. nested_of (sub_trees t)) new)"
proof (induction children arbitrary: ts cs w)
  case (Cons child children)
  obtain sub cs1 w1 where s: "preview_components tyname (p_components (h child)) ([], cs, w) = (sub, cs1, w1)"
    by (metis prod.collapse)
  from preview_components_count[OF s] have one:
    "sum_list (map (\<lambda>c. countDisplayedComponents (Some c)) cs1)
      = sum_list (map (\<lambda>c. countDisplayedComponents (Some c)) cs) + nested_of sub" by auto
  from Cons.prems s have "preview_children tyname h children
      (ts @ [Branch (''Plan: '' @ p_name (h child) @ ''.'' @ p_namespace (h child)) sub], cs1, w1) = (ts', cs', w')"
    by simp
  from Cons.IH[OF this] one show ?case by fastforce
qed simp

text \<open>
  The number \<open>Preview\<close> reports as nested components is the number of components it shows: the
  entries under the component branches, of the child plans' branches and of the root's own.
\<close>

theorem Preview_counts_what_it_shows:
  assumes "preview_tree tyname h p w = (t, nested, w')"
  shows "nested = sum_list (map (\<lambda>b. nested_of (sub_trees b)) (take (length (p_childPlans (h p))) (sub_trees t)))
    + nested_of (drop (length (p_childPlans (h p))) (sub_trees t))"
proof -
  obtain ts1 cs1 w1 where c: "preview_children tyname h (p_childPlans (h p)) ([], [], w) = (ts1, cs1, w1)"
    by (metis prod.collapse)
  obtain ts2 cs2 w2 where r: "preview_components tyname (p_components (h p)) (ts1, cs1, w1) = (ts2, cs2, w2)"
    by (metis prod.collapse)
  from preview_children_count[OF c] have 1: "length ts1 = length (p_childPlans (h p))"
    "sum_list (map (\<lambda>c. countDisplayedComponents (Some c)) cs1) = sum_list (map (\<lambda>t. nested_of (sub_trees t)) ts1)"
    by auto
  from preview_components_count[OF r] obtain new where 2: "ts2 = ts1 @ new"
    "sum_list (map (\<lambda>c. countDisplayedComponents (Some c)) cs2)
      = sum_list (map (\<lambda>c. countDisplayedComponents (Some c)) cs1) + nested_of new" by auto
  from assms c r have "sub_trees t = ts2" "nested = sum_list (map (\<lambda>c. countDisplayedComponents (Some c)) cs2)"
    by (auto simp: preview_tree_def)
  with 1 2 show ?thesis by simp
qed

section \<open>A concrete plan\<close>

text \<open>
  Three plans in a chain, each with one component function that records its number when it runs.
\<close>

definition comp_fn :: "nat \<Rightarrow> nat list cfun" where
  "comp_fn i w =
     ((Some (Construct i (Some (CNode (Some ''sdk.X'') None None))), None), w\<lparr>w_cdk := w_cdk w @ [i]\<rparr>)"

definition svc_plan :: "string \<Rightarrow> ptr list \<Rightarrow> nat \<Rightarrow> (nat list cfun, string iresolver) plan" where
  "svc_plan nm fs i = \<lparr>p_name = nm, p_namespace = DefaultNamespace, p_components = [comp_fn i],
     p_childPlans = [], p_childFuncs = fs, p_resolvers = []\<rparr>"

definition svc_heap :: "(nat list cfun, string iresolver) heap" where
  "svc_heap p = (if p = 0 then svc_plan ''root'' [1] 0 else if p = 1 then svc_plan ''child'' [2] 1
     else svc_plan ''grandchild'' [] 2)"

definition svc_world :: "nat list world" where
  "svc_world = \<lparr>w_os = demo_os, w_cdk = []\<rparr>"

definition svc_outs :: "(construct option \<times> goerr option) list" where
  "svc_outs = [(Some (Construct 1 (Some (CNode (Some ''sdk.X'') None None))), None),
     (Some (Construct 0 (Some (CNode (Some ''sdk.X'') None None))), None)]"

lemma svc_Build: "\<exists>b. Build 4 svc_heap 0 = Done b"
  by (simp add: Build_def init_build_def build_step_defs svc_heap_def svc_plan_def eval_nat_numeral)

lemma svc_reach: "reach svc_heap 0 \<subseteq> {0, 1, 2}"
  by (rule reach_least) (auto simp: svc_heap_def svc_plan_def split: if_splits)

lemma svc_unique: "unique_names svc_heap 0"
  unfolding unique_names_def
  by (rule inj_on_subset[OF _ svc_reach]) (auto simp: inj_on_def svc_heap_def svc_plan_def)

lemma svc_run:
  "run_all (plan_cfuns svc_heap 0) w = (svc_outs, w\<lparr>w_cdk := w_cdk w @ [1, 0]\<rparr>)"
  by (simp add: plan_cfuns_def svc_heap_def svc_plan_def comp_fn_def svc_outs_def)

lemma svc_outs_ok: "errors_of svc_outs = []"
  by (simp add: errors_of_def svc_outs_def)

lemma svc_app: "\<exists>app. createApp sort_key ''name'' fh svc_heap 0 = Some app"
  by (simp add: createApp_def app_resolvers_def Resolvers_def svc_heap_def svc_plan_def)

theorem CreatePlan_runs_all_witness:
  "\<exists>app b. createApp sort_key ''name'' demo_handler svc_heap 0 = Some app \<and> Build 4 svc_heap 0 = Done b
     \<and> ((errors_of svc_outs = [] \<and> (\<exists>app'. ap_results app' = fold Add (map fst svc_outs) New
          \<and> CreatePlan sort_key ''name'' (\<lambda>_ w. w) 4 demo_handler True svc_heap 0 svc_world
            = Ret (b_heap b, svc_world\<lparr>w_cdk := w_cdk svc_world @ [1, 0]\<rparr>, Inr app')))
       \<or> (errors_of svc_outs \<noteq> [] \<and> (\<exists>e. leaves e = concat (map leaves (errors_of svc_outs))
          \<and> CreatePlan sort_key ''name'' (\<lambda>_ w. w) 4 demo_handler True svc_heap 0 svc_world
            = Ret (b_heap b, svc_world\<lparr>w_cdk := w_cdk svc_world @ [1, 0]\<rparr>, Inl e))))"
proof -
  obtain app b where a: "createApp sort_key ''name'' demo_handler svc_heap 0 = Some app"
    and b: "Build 4 svc_heap 0 = Done b" using svc_app svc_Build by blast
  from a b CreatePlan_runs_all[OF a b svc_unique svc_run, where synth = "\<lambda>_ w. w" and w = svc_world]
  show ?thesis by blast
qed

text \<open>The graph with other component functions at one plan; building does not look at them.\<close>

definition with_components :: "ptr \<Rightarrow> 'c list \<Rightarrow> ('c, 'r) heap \<Rightarrow> ('c, 'r) heap" where
  "with_components q cs h = h(q := (h q)\<lparr>p_components := cs\<rparr>)"

lemma with_components_fields [simp]:
  "p_name (with_components q cs h a) = p_name (h a)" "p_namespace (with_components q cs h a) = p_namespace (h a)"
  "p_childPlans (with_components q cs h a) = p_childPlans (h a)" "p_childFuncs (with_components q cs h a) = p_childFuncs (h a)"
  "p_resolvers (with_components q cs h a) = p_resolvers (h a)"
  "a \<noteq> q \<Longrightarrow> p_components (with_components q cs h a) = p_components (h a)"
  by (simp_all add: with_components_def)

definition state_with :: "ptr \<Rightarrow> 'c list \<Rightarrow> ('c, 'r) build_state \<Rightarrow> ('c, 'r) build_state" where
  "state_with q cs s = s\<lparr>b_heap := with_components q cs (b_heap s)\<rparr>"

lemma state_with_fields [simp]:
  "b_heap (state_with q cs s) = with_components q cs (b_heap s)" "b_visited (state_with q cs s) = b_visited s"
  "b_stack (state_with q cs s) = b_stack s" "b_frames (state_with q cs s) = b_frames s"
  by (simp_all add: state_with_def)

fun result_with :: "ptr \<Rightarrow> 'c list \<Rightarrow> ('c, 'r) build_result \<Rightarrow> ('c, 'r) build_result" where
  "result_with q cs (Done s) = Done (state_with q cs s)"
| "result_with q cs (Panicked m) = Panicked m"
| "result_with q cs NoFuel = NoFuel"

lemma steps_with:
  "enter p (state_with q cs s) = state_with q cs (enter p s)"
  "leave p (state_with q cs s) = state_with q cs (leave p s)"
  "add_child p c (state_with q cs s) = state_with q cs (add_child p c s)"
  by (auto simp: enter_def leave_def add_child_def state_with_def with_components_def Let_def fun_eq_iff)

lemma resolve_with:
  "resolveFn n p (state_with q cs s) = result_with q cs (resolveFn n p s)"
  "resolveChildren n p ps (state_with q cs s) = result_with q cs (resolveChildren n p ps s)"
proof (induction n p s and n p ps s rule: resolveFn_resolveChildren.induct)
  case (2 n p s)
  then show ?case by (auto simp: Let_def steps_with split: build_result.splits)
next
  case (4 n p c ps s)
  then show ?case by (auto simp: steps_with split: build_result.splits)
qed simp_all

lemma Build_with: "Build fuel (with_components q cs h) p = result_with q cs (Build fuel h p)"
proof -
  have "init_build (with_components q cs h) = state_with q cs (init_build h)" by (simp add: init_build_def state_with_def)
  then show ?thesis by (simp add: Build_def resolve_with)
qed

text \<open>
  C38.  Plans nested deeper than one level are resolved but not run: for every plan below \<open>p\<close> that is neither \<open>p\<close> nor one of its
  direct children, \<open>CreatePlan\<close> has the same effects and the same result whatever component functions that plan has, although
  \<open>Build\<close> resolved it as a part of the graph.
\<close>

theorem CreatePlan_skips_grandchildren:
  assumes "CreatePlan srt nf synth fuel fh True h p w = Ret (h', w', res)" and "unique_names h p"
    and "q \<in> reach h p" "q \<noteq> p" "q \<notin> set (p_childPlans (h p) @ p_childFuncs (h p))"
  shows "CreatePlan srt nf synth fuel fh True (with_components q cs h) p w = Ret (with_components q cs h', w', res)
    \<and> p_components (h' q) = p_components (h q) \<and> p_childFuncs (h' q) = []
    \<and> p_childPlans (h' q) = p_childPlans (h q) @ p_childFuncs (h q)"
proof -
  from assms(1) obtain app b where a: "createApp srt nf fh h p = Some app" and b: "Build fuel h p = Done b" and h': "h' = b_heap b"
    by (auto simp: CreatePlan_def Let_def split: option.splits build_result.splits prod.splits)
  note hb = Build_resolved[OF b assms(2)]
  have kids: "p_childPlans (b_heap b p) = p_childPlans (h p) @ p_childFuncs (h p)" by (simp add: hb resolved_def)
  have a2: "createApp srt nf fh (with_components q cs h) p = Some app" using a by (simp add: createApp_def cong: option.case_cong)
  have b2: "Build fuel (with_components q cs h) p = Done (state_with q cs b)" by (simp add: Build_with b)
  have ne: "x \<noteq> q" if "x \<in> set (p_childPlans (b_heap b p))" for x using that assms(5) unfolding kids by blast
  have "fold (\<lambda>child. run_components (p_components (with_components q cs (b_heap b) child))) (p_childPlans (b_heap b p)) acc =
      fold (\<lambda>child. run_components (p_components (b_heap b child))) (p_childPlans (b_heap b p)) acc" for acc
    by (rule fold_cong) (simp_all add: ne)
  with assms(1,4) have "CreatePlan srt nf synth fuel fh True (with_components q cs h) p w = Ret (with_components q cs h', w', res)"
    by (auto simp: CreatePlan_def a a2 b b2 h' Let_def split: prod.splits option.splits)
  moreover have "p_components (h' q) = p_components (h q)" "p_childFuncs (h' q) = []"
    "p_childPlans (h' q) = p_childPlans (h q) @ p_childFuncs (h q)"
    using assms(3) by (simp_all add: h' hb resolved_def)
  ultimately show ?thesis by blast
qed

theorem CreatePlan_skips_grandchildren_witness:
  "p_components (svc_heap 2) = [comp_fn 2] \<and> (\<exists>h' w' res.
     CreatePlan sort_key ''name'' (\<lambda>_ w. w) 4 demo_handler True svc_heap 0 svc_world = Ret (h', w', res) \<and> w_cdk w' = [1, 0] \<and>
     CreatePlan sort_key ''name'' (\<lambda>_ w. w) 4 demo_handler True (with_components 2 [] svc_heap) 0 svc_world =
       Ret (with_components 2 [] h', w', res))"
proof -
  have "1 \<in> reach svc_heap 0" by (rule reach_child[of 0]) (simp_all add: svc_heap_def svc_plan_def)
  then have r: "2 \<in> reach svc_heap 0" by (rule reach_child) (simp add: svc_heap_def svc_plan_def)
  obtain app b where a: "createApp sort_key ''name'' demo_handler svc_heap 0 = Some app"
    and b: "Build 4 svc_heap 0 = Done b" using svc_app svc_Build by blast
  obtain h' w' res where c: "CreatePlan sort_key ''name'' (\<lambda>_ w. w) 4 demo_handler True svc_heap 0 svc_world = Ret (h', w', res)"
    "w_cdk w' = [1, 0]"
    using CreatePlan_built[OF a b svc_unique, of "\<lambda>_ w. w" svc_world] svc_run[of svc_world] svc_outs_ok
    by (auto simp: joined_def Let_def svc_world_def)
  from CreatePlan_skips_grandchildren[OF c(1) svc_unique r, of "[]"] c
  show ?thesis by (auto simp: svc_heap_def svc_plan_def)
qed

definition tables0 :: unicode_tables where
  "tables0 = \<lparr>isSymbol = (\<lambda>r. r = 36), isMark = (\<lambda>_. False), isGraphic = (\<lambda>r. 32 \<le> r)\<rparr>"

definition svc_env :: "nat list environment" where
  "svc_env = \<lparr>env_yaml = (\<lambda>_. Inr ([], [])), env_csa = (\<lambda>_. Inl (ErrText ''yaml'')),
     env_runner = \<lparr>re_testing = True, re_enable_exec = [], re_look_path = (\<lambda>x. Inr x)\<rparr>,
     env_write = (\<lambda>w s. (w, None)), env_shell = (\<lambda>w s. (w, [], None))\<rparr>"

definition svc_os :: os_state where
  "svc_os = \<lparr>os_tree = DirN [(''w'', DirN [(''root-123'', DirN [])])], os_cwd = ''/''\<rparr>"

definition svc_fh :: handler where
  "svc_fh = \<lparr>h_root = Some ''/w/root-123'', h_fixed = DirN []\<rparr>"

lemma normalize_root: "normalizePrefix tables0 ''root'' = ''root''"
proof -
  have 1: "path_Clean ''root'' = ''root''" by (simp add: path_Clean_def path_segs_def path_rooted_def)
  have 2: "trim_set affix ''root'' = ''root''" by (simp add: trim_set_def affix_def)
  have 3: "trim_space ''root'' = ''root''" by (simp add: trim_space_def segments_ascii ascii_def is_space_rune_def)
  have 4: "strings_map (prefix_rune tables0) ''root'' = ''root''"
    by (simp add: strings_map_def runes_ascii ascii_def prefix_rune_def tables0_def char_of_eq_iff)
  have 5: "ToValidUTF8 ''root'' ''_'' = ''root''"
    by (simp add: ToValidUTF8_def segments_ascii ascii_def rune_error_def)
  show ?thesis by (simp add: normalizePrefix_def 1 2 3 4 5)
qed

lemma svc_temp: "NewTempHandler tables0 2 demo_os ''/w'' [''123''] ''root'' = Some (svc_os, Inr svc_fh)"
  by (simp add: NewTempHandler_def normalize_root Let_def demo_os_def abs_segs_def path_segs_def
      path_rooted_def eval_nat_numeral svc_os_def svc_fh_def)

lemma svc_no_files: "Scan svc_os svc_fh f = []"
  by (simp add: Scan_def root_tree_def svc_os_def svc_fh_def abs_segs_def path_segs_def path_rooted_def)

theorem Plan_Apply_succeeds_witness:
  "\<exists>h' w'. Plan_Apply tables0 2 ''/w'' [''123''] sort_key ''name'' (\<lambda>_ w. w) 4 svc_env svc_heap 0 svc_world
     = Ret (h', w', Inr (fold Add (map fst svc_outs) New))"
proof -
  let ?w = "svc_world\<lparr>w_os := svc_os\<rparr>"
  let ?w1 = "?w\<lparr>w_cdk := w_cdk ?w @ [1, 0]\<rparr>"
  obtain app b where a: "createApp sort_key ''name'' svc_fh svc_heap 0 = Some app"
    and b: "Build 4 svc_heap 0 = Done b" using svc_app svc_Build by blast
  have t: "NewTempHandler tables0 2 (w_os svc_world) ''/w'' [''123''] (p_name (svc_heap 0)) = Some (svc_os, Inr svc_fh)"
    using svc_temp by (simp add: svc_world_def svc_heap_def svc_plan_def)
  have "plan_bundles svc_env svc_fh ?w1 = []"
    by (simp add: plan_bundles_def findManifests_def svc_no_files normalizeManifests_def svc_world_def)
  then have "none_stops svc_env svc_fh (plan_bundles svc_env svc_fh ?w1) ?w1" by (simp add: none_stops_def)
  from Plan_Apply_succeeds[OF t a b svc_unique svc_run svc_outs_ok refl, where synth = "\<lambda>_ w. w" and env = svc_env, OF this]
  show ?thesis by (intro exI)
qed

definition two_manifests :: "(string \<times> manifest list) list" where
  "two_manifests = [(''0'', [\<lparr>mf_name = ''0/a.yaml'', mf_local = False\<rparr>, \<lparr>mf_name = ''0/b.yaml'', mf_local = True\<rparr>])]"

definition remote_bundle :: manifest_bundle where
  "remote_bundle = \<lparr>mb_root = ''/w'', mb_manifests = [\<lparr>mf_name = ''0/a.yaml'', mf_local = False\<rparr>], mb_isLocal = False\<rparr>"

theorem bundle_well_formed_witness:
  "if mb_isLocal remote_bundle
    then \<exists>m. mb_manifests remote_bundle = [m] \<and> mf_local m
      \<and> is_err (Client (\<lambda>_. Inl (ErrText [])) demo_os demo_handler remote_bundle)
        = (case ReadFile demo_os demo_handler (mf_name m) of Inl _ \<Rightarrow> True | Inr raw \<Rightarrow> is_err (Inl (ErrText []) :: goerr + csa_manifest))
    else Client (\<lambda>_. Inl (ErrText [])) demo_os demo_handler remote_bundle = Inr \<lparr>m_apiVersion = [], m_kind = [],
            m_onFailure = FailureAbort, m_action = ActionKubectl,
            m_args = [''apply'', ''-f'', bundle_String remote_bundle, ''--wait'']\<rparr>"
proof -
  have "remote_bundle \<in> set (normalizeManifests ''/w'' two_manifests)"
    by (simp add: normalize_runs two_manifests_def remote_bundle_def mk_bundle_def)
  from bundle_well_formed[OF this] show ?thesis by simp
qed

theorem Preview_counts_what_it_shows_witness:
  "\<exists>t nested w'. preview_tree (\<lambda>_. ''*X'') svc_heap 0 svc_world = (t, nested, w')
    \<and> nested = sum_list (map (\<lambda>b. nested_of (sub_trees b)) (take (length (p_childPlans (svc_heap 0))) (sub_trees t)))
      + nested_of (drop (length (p_childPlans (svc_heap 0))) (sub_trees t))"
proof -
  obtain t nested w' where p: "preview_tree (\<lambda>_. ''*X'') svc_heap 0 svc_world = (t, nested, w')"
    by (metis prod.collapse)
  from p Preview_counts_what_it_shows[OF p] show ?thesis by blast
qed

end
