(* ===== verification/Composite.thy ===== *)
theory Composite
  imports Infra Errors "HOL-Library.AList"
begin

text \<open>
  Composites: internal/core/service/composite.go and cdk8s_chart.go.  A composite runs scalar
  components in the order of a dependency graph computed by reflection from the parameter and result
  types of their Apply methods.  Types are \<open>rtype\<close>; which dynamic types implement an interface
  is the parameter \<open>impl\<close>; the body of an Apply method is a function of its arguments and of the
  state of the machine.  Go visits a map in no fixed order, so the order in which the result maps
  are searched is a parameter too.
\<close>

section \<open>Types and values\<close>

datatype rtype = TSlice rtype | TIface string | TConc string

fun type_text :: "rtype \<Rightarrow> string" where
  "type_text (TSlice t) = ''[]'' @ type_text t"
| "type_text (TIface n) = n"
| "type_text (TConc n) = n"

text \<open>A non-nil value: its dynamic type, its address when it is a pointer, and its \<open>%v\<close> text.\<close>

record gval =
  gv_type :: rtype
  gv_ptr :: "nat option"
  gv_text :: string

type_synonym ifc = "gval option"

datatype arg = One ifc | Many "ifc list"

fun show_hex :: "nat \<Rightarrow> string" where
  "show_hex n = (if n < 16 then [hex_digit n] else show_hex (n div 16) @ [hex_digit (n mod 16)])"

declare show_hex.simps [simp del]

definition createUniqueKey :: "ifc \<Rightarrow> string" where
  "createUniqueKey value =
     (case value of
        None \<Rightarrow> ''%!s(<nil>):<nil>''
      | Some v \<Rightarrow>
          type_text (gv_type v) @ '':'' @
          (case gv_ptr v of Some a \<Rightarrow> show_hex a | None \<Rightarrow> gv_text v))"

section \<open>Components\<close>

text \<open>
  The result of calling an Apply method: its first result as an interface value, the first non-nil
  error among its results, and the new state.
\<close>

record 's apply_method =
  me_in :: "rtype list"
  me_out :: "rtype list"
  me_call :: "arg list \<Rightarrow> 's \<Rightarrow> ifc \<times> goerr option \<times> 's"

record 's instance_of =
  in_stringer :: "string option"
  in_name :: "string option"
  in_typename :: string
  in_apply :: "'s apply_method option"

datatype 's ctor =
    NilCtor
  | NotFunc string
  | FuncCtor string nat "'s instance_of option"

record 's auto_component =
  ac_name :: string
  ac_apply :: "'s apply_method"
  ac_produces :: "rtype option"
  ac_consumes :: "rtype list"
  ac_isSliceType :: bool

definition isCallable :: "'s ctor \<Rightarrow> goerr option" where
  "isCallable c =
     (case c of
        NilCtor \<Rightarrow> Some (ErrText ''cannot register nil component'')
      | NotFunc t \<Rightarrow>
          Some (ErrText (''cannot register component of type '' @ t @ '', component must be a callable function''))
      | FuncCtor t n inst \<Rightarrow>
          if 0 < n
          then Some (ErrText (''cannot register component of type '' @ t
                 @ '' with non-zero required arguments (is the component a closure?)''))
          else None)"

definition Constructor_Name :: "(string \<Rightarrow> string) \<Rightarrow> 's instance_of \<Rightarrow> string" where
  "Constructor_Name namer c =
     (case in_stringer c of
        Some s \<Rightarrow> namer s
      | None \<Rightarrow> (case in_name c of Some s \<Rightarrow> namer s | None \<Rightarrow> namer (in_typename c)))"

definition is_slice :: "rtype \<Rightarrow> bool" where
  "is_slice t = (case t of TSlice _ \<Rightarrow> True | _ \<Rightarrow> False)"

definition Analyze :: "(string \<Rightarrow> string) \<Rightarrow> 's instance_of \<Rightarrow> goerr + 's auto_component" where
  "Analyze namer c =
     (let name = Constructor_Name namer c in
      case in_apply c of
        None \<Rightarrow> Inl (ErrText (''cannot register component '' @ quote name
                  @ '', does not implement Composite, missing Apply method''))
      | Some m \<Rightarrow>
          Inr \<lparr>ac_name = name, ac_apply = m,
            ac_produces = (case me_out m of [] \<Rightarrow> None | t # _ \<Rightarrow> Some t),
            ac_consumes = me_in m,
            ac_isSliceType = list_ex is_slice (me_in m)\<rparr>)"

definition nameFn :: "nat \<Rightarrow> string \<Rightarrow> string" where
  "nameFn idx s = show_nat idx @ ''::'' @ s"

text \<open>
  What a step of the composite can do; \<open>Crash\<close> is a run-time panic.  A failure carries the state it
  leaves behind.
\<close>

datatype 'x run = Ok 'x | Fail goerr 'x | Crash | NoMoreFuel

text \<open>
  \<open>Components\<close>: every constructor is checked, called and analysed; a constructor function without a
  result (or with a nil one) panics when it is called.
\<close>

fun Components_from :: "nat \<Rightarrow> 's ctor list \<Rightarrow> (goerr + 's auto_component) list option" where
  "Components_from idx [] = Some []"
| "Components_from idx (c # cs) =
     (case isCallable c of
        Some e \<Rightarrow> map_option ((#) (Inl (CErr e))) (Components_from (Suc idx) cs)
      | None \<Rightarrow>
          (case c of
             FuncCtor _ _ (Some inst) \<Rightarrow>
               map_option
                 ((#) (case Analyze (nameFn idx) inst of Inl e \<Rightarrow> Inl (CErr e) | Inr a \<Rightarrow> Inr a))
                 (Components_from (Suc idx) cs)
           | _ \<Rightarrow> None))"

definition ctor_Components :: "'s ctor list \<Rightarrow> (goerr + 's auto_component) list option" where
  "ctor_Components ctors = Components_from 0 ctors"

definition registerComponents :: "'s ctor list \<Rightarrow> (goerr + 's auto_component list) option" where
  "registerComponents ctors =
     map_option
       (\<lambda>rs. case fold (\<lambda>r acc. case r of Inl e \<Rightarrow> join_errors [acc, Some e] | Inr _ \<Rightarrow> acc) rs None of
               Some e \<Rightarrow> Inl e
             | None \<Rightarrow> Inr (concat (map (\<lambda>r. case r of Inl _ \<Rightarrow> [] | Inr a \<Rightarrow> [a]) rs)))
       (ctor_Components ctors)"

section \<open>The dependency graph\<close>

definition producers_of :: "'s auto_component list \<Rightarrow> 's auto_component \<Rightarrow> rtype \<Rightarrow> string list" where
  "producers_of comps consumer t =
     map ac_name (filter (\<lambda>p. ac_name p \<noteq> ac_name consumer \<and> ac_produces p = Some t) comps)"

fun consumer_edges ::
    "'s auto_component list \<Rightarrow> 's auto_component \<Rightarrow> rtype list \<Rightarrow> goerr + string list" where
  "consumer_edges comps consumer [] = Inr []"
| "consumer_edges comps consumer (needs # ts) =
     (let ps = producers_of comps consumer (case needs of TSlice e \<Rightarrow> e | t \<Rightarrow> t) in
      if \<not> is_slice needs \<and> 1 < length ps
      then Inl (ErrText (''component '' @ quote (ac_name consumer) @ '' consumes single '' @ type_text needs
             @ '' but multiple producers exist: ['' @ join_with '' '' ps @ '']. ''
             @ ''This is confusing because only the last produced item will be used. ''
             @ ''Consider changing '' @ quote (ac_name consumer) @ '' to consume []'' @ type_text needs
             @ '' to collect all results''))
      else
        (case consumer_edges comps consumer ts of Inl e \<Rightarrow> Inl e | Inr es \<Rightarrow> Inr (ps @ es)))"

fun graph_edges ::
    "'s auto_component list \<Rightarrow> 's auto_component list \<Rightarrow> (string \<Rightarrow> string list) \<Rightarrow> goerr + (string \<Rightarrow> string list)" where
  "graph_edges comps [] edges = Inr edges"
| "graph_edges comps (c # cs) edges =
     (case consumer_edges comps c (ac_consumes c) of
        Inl e \<Rightarrow> Inl e
      | Inr es \<Rightarrow> graph_edges comps cs (edges(ac_name c := edges (ac_name c) @ es)))"

definition dependencyGraph :: "'s auto_component list \<Rightarrow> goerr + (string \<Rightarrow> string list)" where
  "dependencyGraph comps = graph_edges comps comps (\<lambda>_. [])"

section \<open>Execution of the graph\<close>

record 'x exec_state =
  ex_executed :: "string list"
  ex_visiting :: "string set"
  ex_st :: 'x

text \<open>\<open>ex_executed\<close> lists the executed names in the order of their execution.\<close>

definition begin_visit :: "string \<Rightarrow> 'x exec_state \<Rightarrow> 'x exec_state" where
  "begin_visit name x = x\<lparr>ex_visiting := insert name (ex_visiting x)\<rparr>"

definition end_visit ::
    "('c \<Rightarrow> 'x \<Rightarrow> 'x run) \<Rightarrow> (string \<rightharpoonup> 'c) \<Rightarrow> string \<Rightarrow> 'x exec_state \<Rightarrow> 'x exec_state run" where
  "end_visit exec cmap name x =
     (let x = x\<lparr>ex_visiting := ex_visiting x - {name}\<rparr> in
      case cmap name of
        None \<Rightarrow> Ok (x\<lparr>ex_executed := ex_executed x @ [name]\<rparr>)
      | Some c \<Rightarrow>
          (case exec c (ex_st x) of
             Ok s \<Rightarrow> Ok (x\<lparr>ex_st := s, ex_executed := ex_executed x @ [name]\<rparr>)
           | Fail e s \<Rightarrow> Fail e (x\<lparr>ex_st := s\<rparr>)
           | Crash \<Rightarrow> Crash
           | NoMoreFuel \<Rightarrow> NoMoreFuel))"

function (sequential) visit ::
    "('c \<Rightarrow> 'x \<Rightarrow> 'x run) \<Rightarrow> (string \<rightharpoonup> 'c) \<Rightarrow> (string \<Rightarrow> string list) \<Rightarrow> nat \<Rightarrow> string
      \<Rightarrow> 'x exec_state \<Rightarrow> 'x exec_state run"
and visit_deps ::
    "('c \<Rightarrow> 'x \<Rightarrow> 'x run) \<Rightarrow> (string \<rightharpoonup> 'c) \<Rightarrow> (string \<Rightarrow> string list) \<Rightarrow> nat \<Rightarrow> string list
      \<Rightarrow> 'x exec_state \<Rightarrow> 'x exec_state run"
where
  "visit exec cmap edges 0 name x = NoMoreFuel"
| "visit exec cmap edges (Suc n) name x =
     (if name \<in> set (ex_executed x) then Ok x
      else if name \<in> ex_visiting x
      then Fail (ErrText (''circular dependency detected involving '' @ name)) x
      else
        (case visit_deps exec cmap edges n (edges name) (begin_visit name x) of
           Ok x' \<Rightarrow> end_visit exec cmap name x'
         | r \<Rightarrow> r))"
| "visit_deps exec cmap edges n [] x = Ok x"
| "visit_deps exec cmap edges n (d # ds) x =
     (case visit exec cmap edges n d x of
        Ok x' \<Rightarrow> visit_deps exec cmap edges n ds x'
      | r \<Rightarrow> r)"
  by pat_completeness auto
termination
  by (relation "measures [\<lambda>x. case x of Inl (_, _, _, n, _, _) \<Rightarrow> n | Inr (_, _, _, n, _, _) \<Rightarrow> n,
        \<lambda>x. case x of Inl _ \<Rightarrow> 0 | Inr (_, _, _, _, ds, _) \<Rightarrow> Suc (length ds)]") auto

fun visit_all ::
    "('c \<Rightarrow> 'x \<Rightarrow> 'x run) \<Rightarrow> (string \<rightharpoonup> 'c) \<Rightarrow> (string \<Rightarrow> string list) \<Rightarrow> nat \<Rightarrow> string list
      \<Rightarrow> 'x exec_state \<Rightarrow> 'x exec_state run" where
  "visit_all exec cmap edges n [] x = Ok x"
| "visit_all exec cmap edges n (name # names) x =
     (if name \<in> set (ex_executed x) then visit_all exec cmap edges n names x
      else
        (case visit exec cmap edges n name x of
           Ok x' \<Rightarrow> visit_all exec cmap edges n names x'
         | r \<Rightarrow> r))"

definition component_map :: "'s auto_component list \<Rightarrow> string \<rightharpoonup> 's auto_component" where
  "component_map comps = map_of (rev (map (\<lambda>c. (ac_name c, c)) comps))"

definition executeGraph ::
    "('s auto_component \<Rightarrow> 'x \<Rightarrow> 'x run) \<Rightarrow> nat \<Rightarrow> 's auto_component list \<Rightarrow> (string \<Rightarrow> string list)
      \<Rightarrow> 'x \<Rightarrow> 'x exec_state run" where
  "executeGraph exec fuel comps edges s =
     visit_all exec (component_map comps) edges fuel (map ac_name comps)
       \<lparr>ex_executed = [], ex_visiting = {}, ex_st = s\<rparr>"

section \<open>Execution of a component\<close>

record 's composite =
  co_results :: "(rtype \<times> ifc) list"
  co_sliceResults :: "(rtype \<times> ifc list) list"
  co_state :: 's

text \<open>
  What the reflection of the program and the iteration of its maps decide: which types implement
  which interfaces, and the order in which a map with given keys is walked.
\<close>

record reflection =
  rf_impl :: "rtype \<Rightarrow> rtype \<Rightarrow> bool"
  rf_order :: "rtype list \<Rightarrow> rtype list"

fun dedup :: "ifc list \<Rightarrow> string set \<Rightarrow> ifc list" where
  "dedup [] seen = []"
| "dedup (v # vs) seen =
     (if createUniqueKey v \<in> seen then dedup vs seen
      else v # dedup vs (insert (createUniqueKey v) seen))"

text \<open>
  \<open>findInterfaceImplementations\<close>: all values in the results, then all in the slices; asking a nil
  value for its type's methods is a nil dereference (\<open>None\<close>).
\<close>

definition walked :: "reflection \<Rightarrow> (rtype \<times> 'v) list \<Rightarrow> 'v list" where
  "walked rf m = concat (map (\<lambda>k. case map_of m k of None \<Rightarrow> [] | Some v \<Rightarrow> [v]) (rf_order rf (map fst m)))"

definition findInterfaceImplementations :: "reflection \<Rightarrow> 's composite \<Rightarrow> rtype \<Rightarrow> ifc list option" where
  "findInterfaceImplementations rf c target =
     (let vs = walked rf (co_results c) @ concat (walked rf (co_sliceResults c)) in
      if None \<in> set vs then None
      else Some (dedup (filter (\<lambda>v. rf_impl rf (gv_type (the v)) target) vs) {}))"

definition findImplementations :: "reflection \<Rightarrow> 's composite \<Rightarrow> rtype \<Rightarrow> ifc list option" where
  "findImplementations rf c target =
     (case target of
        TIface _ \<Rightarrow> findInterfaceImplementations rf c target
      | _ \<Rightarrow>
          (case map_of (co_sliceResults c) target of
             None \<Rightarrow> Some []
           | Some vs \<Rightarrow> Some (dedup vs {})))"

definition valueForType :: "reflection \<Rightarrow> 's composite \<Rightarrow> rtype \<Rightarrow> (goerr + arg) option" where
  "valueForType rf c param =
     (case param of
        TIface _ \<Rightarrow>
          (case findImplementations rf c param of
             None \<Rightarrow> None
           | Some [] \<Rightarrow> Some (Inl (ErrText (''missing dependency '' @ type_text param
                        @ '' (no concrete type found that implements this interface)'')))
           | Some (v # _) \<Rightarrow> Some (Inr (One v)))
      | TSlice e \<Rightarrow> map_option (\<lambda>vs. Inr (Many vs)) (findImplementations rf c e)
      | TConc _ \<Rightarrow>
          (case map_of (co_results c) param of
             None \<Rightarrow> Some (Inl (ErrText (''no registered component provides missing dependency '' @ type_text param)))
           | Some v \<Rightarrow> Some (Inr (One v))))"

fun args_for :: "reflection \<Rightarrow> 's composite \<Rightarrow> rtype list \<Rightarrow> (goerr + arg list) option" where
  "args_for rf c [] = Some (Inr [])"
| "args_for rf c (t # ts) =
     (case valueForType rf c t of
        None \<Rightarrow> None
      | Some (Inl e) \<Rightarrow> Some (Inl e)
      | Some (Inr a) \<Rightarrow>
          map_option (\<lambda>r. case r of Inl e \<Rightarrow> Inl e | Inr as \<Rightarrow> Inr (a # as)) (args_for rf c ts))"

definition store_result :: "rtype \<Rightarrow> ifc \<Rightarrow> 's composite \<Rightarrow> 's composite" where
  "store_result t v c =
     c\<lparr>co_results := AList.update t v (co_results c),
       co_sliceResults := AList.update t
         ((case map_of (co_sliceResults c) t of None \<Rightarrow> [] | Some vs \<Rightarrow> vs) @ [v]) (co_sliceResults c)\<rparr>"

definition ExecuteComponent ::
    "reflection \<Rightarrow> 's auto_component \<Rightarrow> 's composite \<Rightarrow> 's composite run" where
  "ExecuteComponent rf a c =
     (case args_for rf c (me_in (ac_apply a)) of
        None \<Rightarrow> Crash
      | Some (Inl e) \<Rightarrow> Fail (WrapErr (''failed to provide params for '' @ ac_name a) e) c
      | Some (Inr args) \<Rightarrow>
          (case me_call (ac_apply a) args (co_state c) of
             (v, Some e, s) \<Rightarrow> Fail (WrapErr (''executing component '' @ ac_name a) e) (c\<lparr>co_state := s\<rparr>)
           | (v, None, s) \<Rightarrow>
               Ok (case ac_produces a of
                     None \<Rightarrow> c\<lparr>co_state := s\<rparr>
                   | Some t \<Rightarrow> store_result t v (c\<lparr>co_state := s\<rparr>))))"

definition Composite_Apply ::
    "reflection \<Rightarrow> nat \<Rightarrow> 's auto_component list \<Rightarrow> 's \<Rightarrow> 's composite exec_state run" where
  "Composite_Apply rf fuel comps s =
     (let c = \<lparr>co_results = [], co_sliceResults = [], co_state = s\<rparr> in
      case dependencyGraph comps of
        Inl e \<Rightarrow> Fail (WrapErr ''building dependency graph'' e) \<lparr>ex_executed = [], ex_visiting = {}, ex_st = c\<rparr>
      | Inr edges \<Rightarrow> executeGraph (ExecuteComponent rf) fuel comps edges c)"

text \<open>
  \<open>CompositeSet.Apply\<close>: the two built-in components come first; fx's \<open>Start\<close> reports the
  registration errors or runs the composite, and its \<open>Stop\<close> is called in any case.
\<close>

definition chartContext :: "('s \<Rightarrow> gval) \<Rightarrow> 's ctor" where
  "chartContext ctx = FuncCtor ''func() *service.chartContext'' 0
     (Some \<lparr>in_stringer = None, in_name = Some ''sdk.composite.builtin.chartContext'', in_typename = [],
        in_apply = Some \<lparr>me_in = [], me_out = [TIface ''context.Context''],
          me_call = (\<lambda>_ s. (Some (ctx s), None, s))\<rparr>\<rparr>)"

definition chartFactory :: "gval \<Rightarrow> 's ctor" where
  "chartFactory self = FuncCtor ''func() *service.ChartFactory'' 0
     (Some \<lparr>in_stringer = Some ''sdk.composite.builtin.ChartFactory'', in_name = None, in_typename = [],
        in_apply = Some \<lparr>me_in = [TIface ''context.Context''], me_out = [TIface ''service.IChartFactory''],
          me_call = (\<lambda>_ s. (Some self, None, s))\<rparr>\<rparr>)"

definition CompositeSet_Apply ::
    "reflection \<Rightarrow> nat \<Rightarrow> ('s \<Rightarrow> gval) \<Rightarrow> gval \<Rightarrow> goerr option \<Rightarrow> 's ctor list \<Rightarrow> 's \<Rightarrow> goerr option run" where
  "CompositeSet_Apply rf fuel ctx factory stop ctors s =
     (case registerComponents ([chartContext ctx, chartFactory factory] @ ctors) of
        None \<Rightarrow> Crash
      | Some reg \<Rightarrow>
          (let result = (\<lambda>start. Ok (Wrap (FirstError
                 [Wrapf start ''starting composite application'', Wrapf stop ''cleaning up composite application''])))
           in case reg of
                Inl e \<Rightarrow> result (Some e)
              | Inr comps \<Rightarrow>
                  (case Composite_Apply rf fuel comps s of
                     Ok _ \<Rightarrow> result None
                   | Fail e _ \<Rightarrow> result (Some e)
                   | Crash \<Rightarrow> Crash
                   | NoMoreFuel \<Rightarrow> NoMoreFuel)))"

section \<open>The chart factory\<close>

record 'p chart_opts =
  cp_parent :: "'p option"
  cp_resourceID :: "string option"
  cp_props :: "string option"

type_synonym 'p chart_opt = "'p chart_opts \<Rightarrow> 'p chart_opts"

definition WithParent :: "'p option \<Rightarrow> 'p chart_opt" where "WithParent p o0 = o0\<lparr>cp_parent := p\<rparr>"
definition WithResourceID :: "string option \<Rightarrow> 'p chart_opt" where "WithResourceID i o0 = o0\<lparr>cp_resourceID := i\<rparr>"
definition WithChartProps :: "string option \<Rightarrow> 'p chart_opt" where "WithChartProps p o0 = o0\<lparr>cp_props := p\<rparr>"

definition defaultResourceID :: "'s instance_of \<Rightarrow> encodable \<Rightarrow> string option" where
  "defaultResourceID v enc =
     ResourceID (case in_stringer v of
         Some s \<Rightarrow> s
       | None \<Rightarrow> (case in_name v of Some s \<Rightarrow> s | None \<Rightarrow> in_typename v)) enc"

text \<open>The options \<open>NewChart\<close> calls the cdk8s constructor with.\<close>

definition NewChart_opts :: "'p option \<Rightarrow> 's instance_of \<Rightarrow> encodable \<Rightarrow> 'p chart_opt list \<Rightarrow> 'p chart_opts" where
  "NewChart_opts ctx_parent v enc opts =
     fold (\<lambda>opt o0. opt o0)
       ([WithParent ctx_parent, WithResourceID (defaultResourceID v enc), WithChartProps None] @ opts)
       \<lparr>cp_parent = None, cp_resourceID = None, cp_props = None\<rparr>"

section \<open>Names are unique\<close>

lemma nameFn_inject: "nameFn i s = nameFn j t \<Longrightarrow> i = j"
proof -
  assume eq: "nameFn i s = nameFn j t"
  have "takeWhile (\<lambda>c. c \<noteq> CHR '':'') (nameFn n u) = show_nat n" for n u
    unfolding nameFn_def using takeWhile_marker[of "CHR '':''" "show_nat n" "CHR '':'' # u"]
      show_nat_no_char[of "CHR '':''" n] by (simp add: is_digit_def)
  from this[of i s] this[of j t] eq have "show_nat i = show_nat j" by simp
  then show "i = j" by (rule show_nat_inject)
qed

lemma Components_from_names:
  "Components_from idx ctors = Some rs \<Longrightarrow> Inr a \<in> set rs \<Longrightarrow> \<exists>i s. idx \<le> i \<and> ac_name a = nameFn i s"
proof (induction idx ctors arbitrary: rs rule: Components_from.induct)
  case (2 idx c cs)
  have tl: "\<exists>i s. idx \<le> i \<and> ac_name a = nameFn i s"
    if "Components_from (Suc idx) cs = Some rs'" "Inr a \<in> set rs'"
      "Components_from (Suc idx) cs = Some rs' \<Longrightarrow> Inr a \<in> set rs' \<Longrightarrow> \<exists>i s. Suc idx \<le> i \<and> ac_name a = nameFn i s" for rs'
    using that(3)[OF that(1,2)] Suc_leD by blast
  show ?case
  proof (cases "isCallable c")
    case (Some e)
    with "2.prems" obtain rs' where "Components_from (Suc idx) cs = Some rs'" "Inr a \<in> set rs'" by auto
    with tl "2.IH"(2)[OF Some] show ?thesis by blast
  next
    case None
    with "2.prems"(1) obtain ty n inst rs' where c: "c = FuncCtor ty n (Some inst)"
      and r: "Components_from (Suc idx) cs = Some rs'"
        "rs = (case Analyze (nameFn idx) inst of Inl e \<Rightarrow> Inl (CErr e) | Inr a \<Rightarrow> Inr a) # rs'"
      by (auto split: ctor.splits option.splits)
    show ?thesis
    proof (cases "Inr a \<in> set rs'")
      case True
      with r tl "2.IH"(1)[OF None c refl] show ?thesis by blast
    next
      case False
      with r(2) "2.prems"(2) have "Analyze (nameFn idx) inst = Inr a" by (auto split: sum.splits)
      then have "\<exists>s. ac_name a = nameFn idx s"
        by (auto simp: Analyze_def Constructor_Name_def Let_def split: option.splits)
      then show ?thesis by blast
    qed
  qed
qed simp

lemma Components_from_distinct:
  "Components_from idx ctors = Some rs \<Longrightarrow>
     distinct (map ac_name (concat (map (\<lambda>r. case r of Inl _ \<Rightarrow> [] | Inr a \<Rightarrow> [a]) rs)))"
proof (induction idx ctors arbitrary: rs rule: Components_from.induct)
  case (2 idx c cs)
  from "2.prems" obtain r rs' where rs: "rs = r # rs'" "Components_from (Suc idx) cs = Some rs'"
    and r: "\<And>a. r = Inr a \<Longrightarrow> \<exists>s. ac_name a = nameFn idx s"
    by (fastforce simp: Analyze_def Constructor_Name_def Let_def split: option.splits ctor.splits sum.splits)
  have ih: "distinct (map ac_name (concat (map (\<lambda>r. case r of Inl _ \<Rightarrow> [] | Inr a \<Rightarrow> [a]) rs')))"
  proof (cases "isCallable c")
    case (Some e)
    show ?thesis by (rule "2.IH"(2)[OF Some rs(2)])
  next
    case None
    with "2.prems" obtain ty n inst where "c = FuncCtor ty n (Some inst)"
      by (auto split: ctor.splits option.splits)
    from "2.IH"(1)[OF None this refl rs(2)] show ?thesis .
  qed
  show ?case
  proof (cases r)
    case (Inr a)
    from r[OF this] obtain s where s: "ac_name a = nameFn idx s" by blast
    have "ac_name a \<noteq> ac_name b" if "Inr b \<in> set rs'" for b
      using Components_from_names[OF rs(2) that] nameFn_inject s by (metis not_less_eq_eq order_refl)
    then show ?thesis using ih Inr rs(1) by (auto split: sum.splits)
  qed (use ih rs(1) in simp)
qed simp

text \<open>
  Components never share a name, whatever the scalars call themselves: registering succeeds
  with components whose names are pairwise distinct, which is what the dependency graph is keyed by.
\<close>

theorem registered_names_distinct:
  assumes "registerComponents ctors = Some (Inr comps)"
  shows "distinct (map ac_name comps)"
  using assms Components_from_distinct[of 0 ctors]
  by (auto simp: registerComponents_def ctor_Components_def split: option.splits)

section \<open>The edges of the graph\<close>

definition clashing :: "'s auto_component list \<Rightarrow> 's auto_component \<Rightarrow> bool" where
  "clashing comps c = (\<exists>t \<in> set (ac_consumes c). \<not> is_slice t \<and> 1 < length (producers_of comps c t))"

definition edges_of :: "'s auto_component list \<Rightarrow> 's auto_component \<Rightarrow> string list" where
  "edges_of comps c =
     concat (map (\<lambda>t. producers_of comps c (case t of TSlice e \<Rightarrow> e | t \<Rightarrow> t)) (ac_consumes c))"

lemma consumer_edges_spec:
  "(if \<exists>t \<in> set ts. \<not> is_slice t \<and> 1 < length (producers_of comps c t)
    then is_err (consumer_edges comps c ts)
    else consumer_edges comps c ts
      = Inr (concat (map (\<lambda>t. producers_of comps c (case t of TSlice e \<Rightarrow> e | t \<Rightarrow> t)) ts)))"
proof (induction ts)
  case (Cons t ts)
  have "(case t of TSlice e \<Rightarrow> e | t \<Rightarrow> t) = t" if "\<not> is_slice t"
    using that by (simp add: is_slice_def split: rtype.splits)
  with Cons show ?case
    by (auto simp: Let_def is_err_iff split: sum.splits if_splits)
qed simp

lemma graph_edges_spec:
  "distinct (map ac_name cs) \<Longrightarrow> (\<And>c. c \<in> set cs \<Longrightarrow> edges (ac_name c) = []) \<Longrightarrow>
     (if \<exists>c \<in> set cs. clashing comps c then is_err (graph_edges comps cs edges)
      else \<exists>es. graph_edges comps cs edges = Inr es \<and> (\<forall>c \<in> set cs. es (ac_name c) = edges_of comps c)
        \<and> (\<forall>n. n \<notin> ac_name ` set cs \<longrightarrow> es n = edges n))"
proof (induction cs arbitrary: edges)
  case (Cons c cs)
  show ?case
  proof (cases "clashing comps c")
    case True
    then have "is_err (consumer_edges comps c (ac_consumes c))"
      using consumer_edges_spec[of "ac_consumes c" comps c] by (simp add: clashing_def)
    with True show ?thesis by (auto simp: is_err_iff)
  next
    case False
    then have ce: "consumer_edges comps c (ac_consumes c) = Inr (edges_of comps c)"
      using consumer_edges_spec[of "ac_consumes c" comps c] by (auto simp: clashing_def edges_of_def split: if_splits)
    let ?edges = "edges(ac_name c := edges_of comps c)"
    have e0: "edges (ac_name c) = []" using Cons.prems(2) by simp
    have "\<And>d. d \<in> set cs \<Longrightarrow> ?edges (ac_name d) = []" using Cons.prems by (auto simp: image_iff)
    with Cons.IH[of ?edges] Cons.prems(1) ce e0 False show ?thesis by (auto split: if_splits)
  qed
qed simp

text \<open>
  The specification, on positions instead of names: the \<open>j\<close>-th component needs every other component that produces a type it
  consumes, and it is ambiguous when it consumes a single value that two others produce.
\<close>

fun element :: "rtype \<Rightarrow> rtype" where
  "element (TSlice e) = e"
| "element t = t"

definition supplies :: "'s auto_component list \<Rightarrow> nat \<Rightarrow> rtype \<Rightarrow> nat \<Rightarrow> bool" where
  "supplies comps j t i \<longleftrightarrow> i < length comps \<and> i \<noteq> j \<and> ac_produces (comps ! i) = Some (element t)"

definition needed_by :: "'s auto_component list \<Rightarrow> nat \<Rightarrow> nat list" where
  "needed_by comps j = concat (map (\<lambda>t. filter (supplies comps j t) [0..<length comps]) (ac_consumes (comps ! j)))"

definition ambiguous :: "'s auto_component list \<Rightarrow> nat \<Rightarrow> bool" where
  "ambiguous comps j \<longleftrightarrow> (\<exists>t i k. t \<in> set (ac_consumes (comps ! j)) \<and> (\<forall>e. t \<noteq> TSlice e) \<and>
     i < k \<and> supplies comps j t i \<and> supplies comps j t k)"

lemma producers_at:
  assumes "distinct (map ac_name comps)" "j < length comps"
  shows "producers_of comps (comps ! j) (element t) = map (\<lambda>i. ac_name (comps ! i)) (filter (supplies comps j t) [0..<length comps])"
proof -
  have eq: "ac_name (comps ! i) = ac_name (comps ! j) \<longleftrightarrow> i = j" if "i < length comps" for i
    using nth_eq_iff_index_eq[OF assms(1), of i j] that assms(2) by simp
  let ?P = "\<lambda>p. ac_name p \<noteq> ac_name (comps ! j) \<and> ac_produces p = Some (element t)"
  have "filter ?P comps = filter ?P (map ((!) comps) [0..<length comps])" by (simp add: map_nth)
  also have "\<dots> = map ((!) comps) (filter (supplies comps j t) [0..<length comps])"
    by (auto simp: filter_map comp_def supplies_def eq intro!: arg_cong[where f = "map _"] filter_cong)
  finally show ?thesis by (simp add: producers_of_def comp_def)
qed

lemma two_of_filter: "1 < length (filter P [0..<n]) \<longleftrightarrow> (\<exists>i k. i < k \<and> k < n \<and> P i \<and> P k)"
proof -
  let ?A = "{i. P i} \<inter> set [0..<n]"
  have "1 < length (filter P [0..<n]) \<longleftrightarrow> \<not> card ?A \<le> Suc 0"
    by (simp add: distinct_length_filter not_le)
  also have "\<dots> \<longleftrightarrow> (\<exists>i \<in> ?A. \<exists>k \<in> ?A. i \<noteq> k)" by (subst card_le_Suc0_iff_eq) auto
  also have "\<dots> \<longleftrightarrow> (\<exists>i k. i < k \<and> k < n \<and> P i \<and> P k)"
  proof
    assume "\<exists>i \<in> ?A. \<exists>k \<in> ?A. i \<noteq> k"
    then obtain i k where "i \<in> ?A" "k \<in> ?A" "i < k \<or> k < i" using nat_neq_iff by blast
    then show "\<exists>i k. i < k \<and> k < n \<and> P i \<and> P k" by auto
  next
    assume "\<exists>i k. i < k \<and> k < n \<and> P i \<and> P k"
    then obtain i k where "i < k" "k < n" "P i" "P k" by blast
    then show "\<exists>i \<in> ?A. \<exists>k \<in> ?A. i \<noteq> k" by (intro bexI[of _ i] bexI[of _ k]) simp_all
  qed
  finally show ?thesis .
qed

lemma edges_at:
  assumes "distinct (map ac_name comps)" "j < length comps"
  shows "edges_of comps (comps ! j) = map (\<lambda>i. ac_name (comps ! i)) (needed_by comps j)"
    and "clashing comps (comps ! j) \<longleftrightarrow> ambiguous comps j"
proof -
  have e: "(case t of TSlice e \<Rightarrow> e | t \<Rightarrow> t) = element t" for t by (cases t) simp_all
  show "edges_of comps (comps ! j) = map (\<lambda>i. ac_name (comps ! i)) (needed_by comps j)"
    by (simp add: edges_of_def needed_by_def e producers_at[OF assms] map_concat comp_def)
  have two: "1 < length (producers_of comps (comps ! j) (element t)) \<longleftrightarrow> (\<exists>i k. i < k \<and> supplies comps j t i \<and> supplies comps j t k)" for t
    unfolding producers_at[OF assms] length_map two_of_filter by (auto simp: supplies_def)
  have plain: "\<not> is_slice t \<longleftrightarrow> (\<forall>e. t \<noteq> TSlice e)" "\<not> is_slice t \<Longrightarrow> element t = t" for t
    by (cases t; simp add: is_slice_def)+
  have "\<not> is_slice t \<and> 1 < length (producers_of comps (comps ! j) t) \<longleftrightarrow>
      (\<forall>e. t \<noteq> TSlice e) \<and> (\<exists>i k. i < k \<and> supplies comps j t i \<and> supplies comps j t k)" for t
  proof (rule conj_cong[OF plain(1)])
    assume "\<forall>e. t \<noteq> TSlice e"
    then have "\<not> is_slice t" by (rule iffD2[OF plain(1)])
    from two[of t, unfolded plain(2)[OF this]]
    show "1 < length (producers_of comps (comps ! j) t) \<longleftrightarrow> (\<exists>i k. i < k \<and> supplies comps j t i \<and> supplies comps j t k)" .
  qed
  then have "clashing comps (comps ! j) \<longleftrightarrow> (\<exists>t \<in> set (ac_consumes (comps ! j)). (\<forall>e. t \<noteq> TSlice e) \<and>
      (\<exists>i k. i < k \<and> supplies comps j t i \<and> supplies comps j t k))" by (simp only: clashing_def)
  also have "\<dots> \<longleftrightarrow> ambiguous comps j" unfolding ambiguous_def Bex_def
    by (rule iffI; elim exE conjE; intro exI conjI; assumption)
  finally show "clashing comps (comps ! j) \<longleftrightarrow> ambiguous comps j" .
qed

text \<open>
  C10.  The dependency graph is exact: building it fails exactly when a component asks for a single value of a type that two
  other components produce, and otherwise the edges of a component name all others that produce a type it consumes, in the
  order of its parameters and of registration, and nothing else has edges.
\<close>

theorem dependencyGraph_exact:
  assumes "distinct (map ac_name comps)"
  shows "if \<exists>j<length comps. ambiguous comps j then is_err (dependencyGraph comps)
    else \<exists>edges. dependencyGraph comps = Inr edges
      \<and> (\<forall>j<length comps. edges (ac_name (comps ! j)) = map (\<lambda>i. ac_name (comps ! i)) (needed_by comps j))
      \<and> (\<forall>name. name \<notin> ac_name ` set comps \<longrightarrow> edges name = [])"
proof -
  have c: "(\<exists>c \<in> set comps. clashing comps c) \<longleftrightarrow> (\<exists>j<length comps. ambiguous comps j)"
    using edges_at(2)[OF assms] by (metis in_set_conv_nth)
  show ?thesis
    using graph_edges_spec[OF assms, of "\<lambda>_. []" comps] edges_at(1)[OF assms]
    unfolding dependencyGraph_def c by (metis nth_mem)
qed

section \<open>The order of execution\<close>

definition topo :: "(string \<Rightarrow> string list) \<Rightarrow> string list \<Rightarrow> bool" where
  "topo edges names \<longleftrightarrow> distinct names
     \<and> (\<forall>xs n ys. names = xs @ n # ys \<longrightarrow> set (edges n) \<subseteq> set xs)"

lemma topo_Nil [simp]: "topo edges []"
  by (simp add: topo_def)

lemma topo_snoc: "topo edges (names @ [n]) \<longleftrightarrow> topo edges names \<and> n \<notin> set names \<and> set (edges n) \<subseteq> set names"
proof
  assume t: "topo edges (names @ [n])"
  have "set (edges m) \<subseteq> set xs" if "names = xs @ m # ys" for xs m ys
    using t that unfolding topo_def by (metis append.assoc append_Cons)
  moreover have "set (edges n) \<subseteq> set names" using t unfolding topo_def by blast
  ultimately show "topo edges names \<and> n \<notin> set names \<and> set (edges n) \<subseteq> set names"
    using t by (simp add: topo_def)
next
  assume t: "topo edges names \<and> n \<notin> set names \<and> set (edges n) \<subseteq> set names"
  have "set (edges m) \<subseteq> set xs" if "names @ [n] = xs @ m # ys" for xs m ys
    using t that unfolding topo_def by (cases ys rule: rev_cases) auto
  with t show "topo edges (names @ [n])" by (simp add: topo_def)
qed

text \<open>Running the components of the names one after the other.\<close>

fun exec_names ::
    "('c \<Rightarrow> 'x \<Rightarrow> 'x run) \<Rightarrow> (string \<rightharpoonup> 'c) \<Rightarrow> string list \<Rightarrow> 'x \<Rightarrow> 'x run" where
  "exec_names exec cmap [] s = Ok s"
| "exec_names exec cmap (n # ns) s =
     (case cmap n of
        None \<Rightarrow> exec_names exec cmap ns s
      | Some c \<Rightarrow> (case exec c s of Ok s' \<Rightarrow> exec_names exec cmap ns s' | r \<Rightarrow> r))"

lemma exec_names_append:
  "exec_names exec cmap (as @ bs) s =
     (case exec_names exec cmap as s of Ok s' \<Rightarrow> exec_names exec cmap bs s' | r \<Rightarrow> r)"
  by (induction as arbitrary: s) (auto split: option.splits run.splits)

text \<open>What a visit that succeeds has done, from state \<open>x\<close> to state \<open>x'\<close>.\<close>

definition progressed ::
    "('c \<Rightarrow> 'x \<Rightarrow> 'x run) \<Rightarrow> (string \<rightharpoonup> 'c) \<Rightarrow> 'x exec_state \<Rightarrow> 'x exec_state \<Rightarrow> bool" where
  "progressed exec cmap x x' \<longleftrightarrow>
     ex_visiting x' = ex_visiting x
     \<and> (\<exists>new. ex_executed x' = ex_executed x @ new \<and> exec_names exec cmap new (ex_st x) = Ok (ex_st x')
          \<and> set new \<inter> ex_visiting x = {})"

lemma progressed_refl: "progressed exec cmap x x"
  by (simp add: progressed_def)

lemma progressed_trans:
  "progressed exec cmap x y \<Longrightarrow> progressed exec cmap y z \<Longrightarrow> progressed exec cmap x z"
proof -
  assume "progressed exec cmap x y" "progressed exec cmap y z"
  then obtain a b where
    a: "ex_visiting y = ex_visiting x" "ex_executed y = ex_executed x @ a"
      "exec_names exec cmap a (ex_st x) = Ok (ex_st y)" "set a \<inter> ex_visiting x = {}" and
    b: "ex_visiting z = ex_visiting y" "ex_executed z = ex_executed y @ b"
      "exec_names exec cmap b (ex_st y) = Ok (ex_st z)" "set b \<inter> ex_visiting y = {}"
    unfolding progressed_def by blast
  show ?thesis
    unfolding progressed_def
  proof (intro conjI exI[of _ "a @ b"])
    show "exec_names exec cmap (a @ b) (ex_st x) = Ok (ex_st z)" using a b by (simp add: exec_names_append)
  qed (use a b in auto)
qed

lemma end_visit_Ok:
  assumes "end_visit exec cmap name x = Ok x'"
  shows "ex_visiting x' = ex_visiting x - {name} \<and> ex_executed x' = ex_executed x @ [name]
    \<and> exec_names exec cmap [name] (ex_st x) = Ok (ex_st x')"
  using assms by (auto simp: end_visit_def split: option.splits run.splits)

lemma visit_Ok:
  "visit exec cmap edges n name x = Ok x' \<Longrightarrow> topo edges (ex_executed x) \<Longrightarrow>
     progressed exec cmap x x' \<and> topo edges (ex_executed x') \<and> name \<in> set (ex_executed x')"
  "visit_deps exec cmap edges n ds x = Ok x' \<Longrightarrow> topo edges (ex_executed x) \<Longrightarrow>
     progressed exec cmap x x' \<and> topo edges (ex_executed x') \<and> set ds \<subseteq> set (ex_executed x')"
proof (induction exec cmap edges n name x and exec cmap edges n ds x arbitrary: x' and x'
    rule: visit_visit_deps.induct)
  case (2 exec cmap edges n name x)
  show ?case
  proof (cases "name \<in> set (ex_executed x)")
    case True
    with "2.prems" show ?thesis by (simp add: progressed_refl)
  next
    case False
    with "2.prems" obtain y where nv: "name \<notin> ex_visiting x"
      and y: "visit_deps exec cmap edges n (edges name) (begin_visit name x) = Ok y"
      and e: "end_visit exec cmap name y = Ok x'"
      by (auto split: if_splits run.splits)
    have "topo edges (ex_executed (begin_visit name x))" using "2.prems"(2) by (simp add: begin_visit_def)
    from "2.IH"[OF False nv y this] have ih: "progressed exec cmap (begin_visit name x) y"
      "topo edges (ex_executed y)" "set (edges name) \<subseteq> set (ex_executed y)" by blast+
    from ih(1) obtain new where new: "ex_visiting y = insert name (ex_visiting x)"
      "ex_executed y = ex_executed x @ new" "exec_names exec cmap new (ex_st x) = Ok (ex_st y)"
      "set new \<inter> insert name (ex_visiting x) = {}"
      unfolding progressed_def by (auto simp: begin_visit_def)
    note ev = end_visit_Ok[OF e]
    have "name \<notin> set (ex_executed y)" using False new by auto
    with ih ev have "topo edges (ex_executed x')" by (simp add: topo_snoc)
    moreover have "progressed exec cmap x x'"
      unfolding progressed_def
    proof (intro conjI exI[of _ "new @ [name]"])
      show "exec_names exec cmap (new @ [name]) (ex_st x) = Ok (ex_st x')"
        using new(3) ev by (simp only: exec_names_append run.case)
    qed (use ev new nv in auto)
    ultimately show ?thesis using ev by simp
  qed
next
  case (4 exec cmap edges n d ds x)
  then obtain y where y: "visit exec cmap edges n d x = Ok y" "visit_deps exec cmap edges n ds y = Ok x'"
    by (auto split: run.splits)
  from "4.IH"(1)[OF y(1) "4.prems"(2)] have a: "progressed exec cmap x y" "topo edges (ex_executed y)"
    "d \<in> set (ex_executed y)" by blast+
  from "4.IH"(2)[OF y(1) y(2) a(2)] have b: "progressed exec cmap y x'" "topo edges (ex_executed x')"
    "set ds \<subseteq> set (ex_executed x')" by blast+
  from b(1) have "set (ex_executed y) \<subseteq> set (ex_executed x')" unfolding progressed_def by auto
  with a b progressed_trans show ?case by auto
qed (simp_all add: progressed_refl)

lemma visit_all_Ok:
  "visit_all exec cmap edges n names x = Ok x' \<Longrightarrow> topo edges (ex_executed x) \<Longrightarrow>
     progressed exec cmap x x' \<and> topo edges (ex_executed x') \<and> set names \<subseteq> set (ex_executed x')"
proof (induction names arbitrary: x)
  case (Cons name names)
  obtain y where y: "progressed exec cmap x y" "topo edges (ex_executed y)" "name \<in> set (ex_executed y)"
    and r: "visit_all exec cmap edges n names y = Ok x'"
  proof (cases "name \<in> set (ex_executed x)")
    case True
    with Cons.prems that[of x] show thesis by (simp add: progressed_refl)
  next
    case False
    with Cons.prems obtain y where "visit exec cmap edges n name x = Ok y" "visit_all exec cmap edges n names y = Ok x'"
      by (auto split: run.splits)
    with visit_Ok(1) Cons.prems(2) that show thesis by blast
  qed
  from Cons.IH[OF r y(2)] have b: "progressed exec cmap y x'" "topo edges (ex_executed x')"
    "set names \<subseteq> set (ex_executed x')" by blast+
  from b(1) have "set (ex_executed y) \<subseteq> set (ex_executed x')" unfolding progressed_def by auto
  with y b progressed_trans show ?case by auto
qed (simp add: progressed_refl)

text \<open>
  C4.  A successful execution ran every component exactly once, each after all components it
  depends on, and its result is that of running them in that order.
\<close>

theorem executeGraph_topological:
  assumes "executeGraph exec fuel comps edges s = Ok x"
  shows "topo edges (ex_executed x) \<and> ac_name ` set comps \<subseteq> set (ex_executed x)
    \<and> exec_names exec (component_map comps) (ex_executed x) s = Ok (ex_st x)"
  using visit_all_Ok[OF assms[unfolded executeGraph_def]]
  by (auto simp: progressed_def)

subsection \<open>Enough fuel\<close>

lemma visit_enough_fuel:
  assumes "finite N" "\<And>m. m \<in> N \<Longrightarrow> set (edges m) \<subseteq> N" "\<And>c s. exec c s \<noteq> NoMoreFuel"
  shows "name \<in> N \<Longrightarrow> card (N - ex_visiting x) < n \<Longrightarrow> topo edges (ex_executed x) \<Longrightarrow>
      visit exec cmap edges n name x \<noteq> NoMoreFuel"
    "set ds \<subseteq> N \<Longrightarrow> card (N - ex_visiting x) < n \<Longrightarrow> topo edges (ex_executed x) \<Longrightarrow>
      visit_deps exec cmap edges n ds x \<noteq> NoMoreFuel"
  using assms
proof (induction exec cmap edges n name x and exec cmap edges n ds x rule: visit_visit_deps.induct)
  case (2 exec cmap edges n name x)
  show ?case
  proof (cases "name \<in> set (ex_executed x) \<or> name \<in> ex_visiting x")
    case False
    have "N - ex_visiting (begin_visit name x) = N - ex_visiting x - {name}" by (auto simp: begin_visit_def)
    then have "card (N - ex_visiting (begin_visit name x)) < card (N - ex_visiting x)"
      using 2(2,5) False by (metis DiffI card_Diff1_less finite_Diff)
    then have "card (N - ex_visiting (begin_visit name x)) < n" using 2(3) by simp
    moreover have "topo edges (ex_executed (begin_visit name x))" using 2(4) by (simp add: begin_visit_def)
    ultimately have "visit_deps exec cmap edges n (edges name) (begin_visit name x) \<noteq> NoMoreFuel"
      using "2.IH" False 2(2,5-7) by blast
    moreover have "end_visit exec cmap name y \<noteq> NoMoreFuel" for y
      using 2(7) by (auto simp: end_visit_def Let_def split: option.splits run.splits)
    ultimately show ?thesis using False by (auto split: run.splits)
  qed auto
next
  case (4 exec cmap edges n d ds x)
  have v: "visit exec cmap edges n d x \<noteq> NoMoreFuel" using 4 by simp
  show ?case
  proof (cases "visit exec cmap edges n d x")
    case (Ok y)
    from visit_Ok(1)[OF Ok] 4 have "ex_visiting y = ex_visiting x" "topo edges (ex_executed y)"
      by (auto simp: progressed_def)
    with "4.IH"(2)[OF Ok] 4 Ok show ?thesis by simp
  qed (use v in simp_all)
qed simp_all

lemma executeGraph_enough_fuel:
  assumes "\<And>c. c \<in> set comps \<Longrightarrow> set (edges (ac_name c)) \<subseteq> ac_name ` set comps"
    and "\<And>c s. exec c s \<noteq> NoMoreFuel" and "length comps < fuel"
  shows "executeGraph exec fuel comps edges s \<noteq> NoMoreFuel"
proof -
  let ?N = "ac_name ` set comps"
  have card: "card ?N < fuel" using assms(3) by (meson card_image_le card_length finite_set le_trans not_le)
  have "visit_all exec cmap edges fuel names x \<noteq> NoMoreFuel"
    if "set names \<subseteq> ?N" "topo edges (ex_executed x)" "ex_visiting x = {}" for names x cmap
    using that
  proof (induction names arbitrary: x)
    case (Cons name names)
    have v: "visit exec cmap edges fuel name x \<noteq> NoMoreFuel"
      by (rule visit_enough_fuel(1)[of ?N]) (use assms Cons.prems card in auto)
    show ?case
    proof (cases "name \<in> set (ex_executed x)")
      case False
      show ?thesis
      proof (cases "visit exec cmap edges fuel name x")
        case (Ok y)
        with visit_Ok(1)[OF Ok Cons.prems(2)] Cons False show ?thesis by (auto simp: progressed_def)
      qed (use v False in simp_all)
    qed (use Cons in simp)
  qed simp
  then show ?thesis by (simp add: executeGraph_def)
qed

subsection \<open>The contract of an executor\<close>

definition dep_rel :: "(string \<Rightarrow> string list) \<Rightarrow> (string \<times> string) set" where
  "dep_rel edges = {(n, m). m \<in> set (edges n)}"

text \<open>
  What \<open>executeGraph\<close> needs of a ComponentExecutor: in a state that is ready after some components,
  a component whose dependencies are among them can be executed and leaves a ready state.  Then the
  only failure left is a cycle.
\<close>

locale component_executor =
  fixes exec :: "'c \<Rightarrow> 'x \<Rightarrow> 'x run"
    and cmap :: "string \<rightharpoonup> 'c"
    and edges :: "string \<Rightarrow> string list"
    and ready :: "string list \<Rightarrow> 'x \<Rightarrow> bool"
  assumes executes: "ready L s \<Longrightarrow> n \<notin> set L \<Longrightarrow> set (edges n) \<subseteq> set L \<Longrightarrow> cmap n = Some c \<Longrightarrow>
      \<exists>s'. exec c s = Ok s' \<and> ready (L @ [n]) s'"
    and skips: "ready L s \<Longrightarrow> cmap n = None \<Longrightarrow> ready (L @ [n]) s"
begin

definition verdict :: "'x exec_state run \<Rightarrow> bool" where
  "verdict r = (case r of
      Ok x \<Rightarrow> ready (ex_executed x) (ex_st x)
    | Fail e x \<Rightarrow> \<exists>q. (q, q) \<in> (dep_rel edges)\<^sup>+
    | Crash \<Rightarrow> False
    | NoMoreFuel \<Rightarrow> True)"

lemma end_visit_ready:
  assumes "ready (ex_executed x) (ex_st x)" "name \<notin> set (ex_executed x)"
    "set (edges name) \<subseteq> set (ex_executed x)"
  shows "\<exists>y. end_visit exec cmap name x = Ok y \<and> ready (ex_executed y) (ex_st y)"
proof (cases "cmap name")
  case None
  with skips[OF assms(1) None] show ?thesis by (simp add: end_visit_def)
next
  case (Some c)
  from executes[OF assms Some] obtain s' where "exec c (ex_st x) = Ok s'" "ready (ex_executed x @ [name]) s'"
    by blast
  with Some show ?thesis by (simp add: end_visit_def)
qed

lemma visit_verdict:
  fixes e1 :: "'c \<Rightarrow> 'x \<Rightarrow> 'x run"
  shows "e1 = exec \<Longrightarrow> m1 = cmap \<Longrightarrow> g1 = edges \<Longrightarrow> topo edges (ex_executed x) \<Longrightarrow>
      ready (ex_executed x) (ex_st x) \<Longrightarrow> (\<forall>v \<in> ex_visiting x. (v, name) \<in> (dep_rel edges)\<^sup>+) \<Longrightarrow>
      verdict (visit e1 m1 g1 n name x)"
    "e1 = exec \<Longrightarrow> m1 = cmap \<Longrightarrow> g1 = edges \<Longrightarrow> topo edges (ex_executed x) \<Longrightarrow>
      ready (ex_executed x) (ex_st x) \<Longrightarrow> (\<forall>d \<in> set ds. \<forall>v \<in> ex_visiting x. (v, d) \<in> (dep_rel edges)\<^sup>+) \<Longrightarrow>
      verdict (visit_deps e1 m1 g1 n ds x)"
proof (induction e1 m1 g1 n name x and e1 m1 g1 n ds x rule: visit_visit_deps.induct)
  case (2 e1 m1 g1 n name x)
  note [simp] = "2.prems"(1-3)
  show ?case
  proof (cases "name \<in> set (ex_executed x) \<or> name \<in> ex_visiting x")
    case True
    with "2.prems" show ?thesis by (auto simp: verdict_def)
  next
    case False
    let ?b = "begin_visit name x"
    have "(v, d) \<in> (dep_rel edges)\<^sup>+" if "d \<in> set (edges name)" "v \<in> ex_visiting ?b" for d v
    proof -
      have d: "(name, d) \<in> dep_rel edges" using that(1) by (simp add: dep_rel_def)
      from that(2) "2.prems"(6) consider "v = name" | "(v, name) \<in> (dep_rel edges)\<^sup>+"
        by (auto simp: begin_visit_def)
      then show ?thesis using d by cases (auto intro: trancl_into_trancl)
    qed
    moreover have "topo edges (ex_executed ?b)" "ready (ex_executed ?b) (ex_st ?b)"
      using "2.prems" by (simp_all add: begin_visit_def)
    ultimately have v: "verdict (visit_deps exec cmap edges n (edges name) ?b)"
      using "2.IH" False by simp
    show ?thesis
    proof (cases "visit_deps exec cmap edges n (edges name) ?b")
      case (Ok y)
      from visit_Ok(2)[OF Ok] "2.prems"(4) have y: "progressed exec cmap ?b y" "set (edges name) \<subseteq> set (ex_executed y)"
        by (simp_all add: begin_visit_def)
      then have "name \<notin> set (ex_executed y)" using False by (auto simp: progressed_def begin_visit_def)
      moreover have "ready (ex_executed y) (ex_st y)" using v Ok by (simp add: verdict_def)
      ultimately obtain z where "end_visit exec cmap name y = Ok z" "ready (ex_executed z) (ex_st z)"
        using end_visit_ready y(2) by blast
      then show ?thesis using Ok False by (simp add: verdict_def)
    qed (use v False in \<open>simp_all add: verdict_def\<close>)
  qed
next
  case (4 e1 m1 g1 n d ds x)
  note [simp] = "4.prems"(1-3)
  have v: "verdict (visit exec cmap edges n d x)" using "4.IH"(1) "4.prems" by simp
  show ?case
  proof (cases "visit exec cmap edges n d x")
    case (Ok y)
    from visit_Ok(1)[OF Ok "4.prems"(4)] have "topo edges (ex_executed y)" "ex_visiting y = ex_visiting x"
      by (simp_all add: progressed_def)
    moreover have "ready (ex_executed y) (ex_st y)" using v Ok by (simp add: verdict_def)
    ultimately have "verdict (visit_deps exec cmap edges n ds y)"
      using "4.IH"(2)[of y] "4.prems" Ok by simp
    with Ok show ?thesis by simp
  qed (use v in \<open>simp_all add: verdict_def\<close>)
qed (simp_all add: verdict_def)

lemma visit_all_verdict:
  "topo edges (ex_executed x) \<Longrightarrow> ready (ex_executed x) (ex_st x) \<Longrightarrow> ex_visiting x = {} \<Longrightarrow>
     verdict (visit_all exec cmap edges n names x)"
proof (induction names arbitrary: x)
  case (Cons name names)
  show ?case
  proof (cases "name \<in> set (ex_executed x)")
    case False
    have v: "verdict (visit exec cmap edges n name x)"
      using visit_verdict(1)[OF refl refl refl Cons.prems(1,2)] Cons.prems(3) by simp
    show ?thesis
    proof (cases "visit exec cmap edges n name x")
      case (Ok y)
      from visit_Ok(1)[OF Ok Cons.prems(1)] have "topo edges (ex_executed y)" "ex_visiting y = {}"
        using Cons.prems(3) by (simp_all add: progressed_def)
      moreover have "ready (ex_executed y) (ex_st y)" using v Ok by (simp add: verdict_def)
      ultimately show ?thesis using Cons.IH Ok False by simp
    qed (use v False in \<open>simp_all add: verdict_def\<close>)
  qed (use Cons in simp)
qed (simp add: verdict_def)

end

lemma topo_acyclic:
  assumes "topo edges names" "(a, b) \<in> (dep_rel edges)\<^sup>+" "a \<in> set names"
  shows "a \<noteq> b"
proof -
  from assms(3) obtain xs zs where n: "names = xs @ a # zs" by (auto simp: in_set_conv_decomp)
  have d: "distinct names" using assms(1) by (simp add: topo_def)
  from assms(2) have "b \<in> set xs"
  proof (induction rule: trancl_induct)
    case (base y)
    then show ?case using assms(1) n by (auto simp: topo_def dep_rel_def)
  next
    case (step y z)
    then obtain us vs where xs: "xs = us @ y # vs" by (auto simp: in_set_conv_decomp)
    then have "names = us @ y # (vs @ a # zs)" using n by simp
    then have "set (edges y) \<subseteq> set us" using assms(1) unfolding topo_def by blast
    moreover have "z \<in> set (edges y)" using step(2) by (simp add: dep_rel_def)
    ultimately show ?case using xs by auto
  qed
  then show ?thesis using d n by auto
qed

section \<open>Composites with all their dependencies\<close>

definition well_behaved :: "reflection \<Rightarrow> 's auto_component \<Rightarrow> bool" where
  "well_behaved rf c \<longleftrightarrow>
     ac_consumes c = me_in (ac_apply c)
     \<and> (\<forall>args s. \<exists>v s'. me_call (ac_apply c) args s = (Some v, None, s')
          \<and> (\<forall>n. ac_produces c = Some (TIface n) \<longrightarrow> rf_impl rf (gv_type v) (TIface n)))"

definition provided :: "'s auto_component list \<Rightarrow> bool" where
  "provided comps \<longleftrightarrow>
     (\<forall>c \<in> set comps. \<forall>t \<in> set (ac_consumes c). \<not> is_slice t \<longrightarrow> producers_of comps c t \<noteq> [])"

definition complete :: "reflection \<Rightarrow> 's auto_component list \<Rightarrow> (string \<Rightarrow> string list) \<Rightarrow> bool" where
  "complete rf comps edges \<longleftrightarrow>
     distinct (map ac_name comps) \<and> dependencyGraph comps = Inr edges
     \<and> (\<forall>c \<in> set comps. well_behaved rf c) \<and> provided comps
     \<and> (\<forall>ks. set (rf_order rf ks) = set ks)"

definition stocked :: "reflection \<Rightarrow> 's auto_component list \<Rightarrow> string list \<Rightarrow> 's composite \<Rightarrow> bool" where
  "stocked rf comps L c \<longleftrightarrow>
     (\<forall>t v. map_of (co_results c) t = Some v \<longrightarrow> v \<noteq> None)
     \<and> (\<forall>t vs. map_of (co_sliceResults c) t = Some vs \<longrightarrow> None \<notin> set vs)
     \<and> (\<forall>p \<in> set comps. ac_name p \<in> set L \<longrightarrow> (\<forall>t. ac_produces p = Some t \<longrightarrow>
          (\<exists>v. map_of (co_results c) t = Some (Some v) \<and> (\<forall>n. t = TIface n \<longrightarrow> rf_impl rf (gv_type v) t))))"

definition ready_for ::
    "reflection \<Rightarrow> 's auto_component list \<Rightarrow> (string \<Rightarrow> string list) \<Rightarrow> string list \<Rightarrow> 's composite \<Rightarrow> bool" where
  "ready_for rf comps edges L c \<longleftrightarrow> complete rf comps edges \<and> stocked rf comps L c"

lemma complete_edges:
  assumes "complete rf comps edges" "c \<in> set comps"
  shows "edges (ac_name c) = edges_of comps c" "\<not> clashing comps c"
proof -
  have d: "distinct (map ac_name comps)" and g: "graph_edges comps comps (\<lambda>_. []) = Inr edges"
    using assms(1) by (simp_all add: complete_def dependencyGraph_def)
  from graph_edges_spec[OF d, of "\<lambda>_. []" comps] g assms(2)
  show "edges (ac_name c) = edges_of comps c" "\<not> clashing comps c"
    by (auto split: if_splits)
qed

lemma complete_edges_other:
  "complete rf comps edges \<Longrightarrow> n \<notin> ac_name ` set comps \<Longrightarrow> edges n = []"
  using graph_edges_spec[of comps "\<lambda>_. []" comps]
  by (auto simp: complete_def dependencyGraph_def split: if_splits)

lemma component_map_iff:
  "distinct (map ac_name comps) \<Longrightarrow> component_map comps n = Some c \<longleftrightarrow> c \<in> set comps \<and> ac_name c = n"
proof -
  assume d: "distinct (map ac_name comps)"
  then have "distinct (map fst (rev (map (\<lambda>c. (ac_name c, c)) comps)))"
    by (simp add: rev_map[symmetric] comp_def)
  from map_of_eq_Some_iff[OF this] show ?thesis by (auto simp: component_map_def)
qed

lemma walked_set:
  assumes "\<And>ks. set (rf_order rf ks) = set ks"
  shows "set (walked rf m) = ran (map_of m)"
proof (intro set_eqI iffI)
  fix x
  assume "x \<in> set (walked rf m)"
  then show "x \<in> ran (map_of m)" by (auto simp: walked_def ran_def split: option.splits)
next
  fix x
  assume "x \<in> ran (map_of m)"
  then obtain k where k: "map_of m k = Some x" by (auto simp: ran_def)
  then have "k \<in> set (map fst m)" by (metis dom_map_of_conv_image_fst domI list.set_map)
  then have "k \<in> set (rf_order rf (map fst m))" by (simp only: assms)
  with k show "x \<in> set (walked rf m)" unfolding walked_def by force
qed

lemma dedup_Nil_iff: "dedup vs {} = [] \<longleftrightarrow> vs = []"
  by (cases vs) simp_all

lemma value_found:
  assumes "complete rf comps edges" "stocked rf comps L st" "c \<in> set comps" "t \<in> set (ac_consumes c)"
    and "set (edges_of comps c) \<subseteq> set L"
  shows "\<exists>a. valueForType rf st t = Some (Inr a)"
proof -
  have ord: "\<And>ks. set (rf_order rf ks) = set ks" using assms(1) by (simp add: complete_def)
  let ?vs = "walked rf (co_results st) @ concat (walked rf (co_sliceResults st))"
  have none: "None \<notin> set ?vs"
    using assms(2) walked_set[OF ord, of "co_results st"] walked_set[OF ord, of "co_sliceResults st"]
    unfolding stocked_def by (auto simp: ran_def)
  have found: "\<exists>v. map_of (co_results st) t = Some (Some v) \<and> (\<forall>n. t = TIface n \<longrightarrow> rf_impl rf (gv_type v) t)"
    if ns: "\<not> is_slice t"
  proof -
    have "producers_of comps c t \<noteq> []" using assms(1,3,4) ns by (auto simp: complete_def provided_def)
    then obtain p where p: "p \<in> set comps" "ac_produces p = Some t" "ac_name p \<in> set (producers_of comps c t)"
      by (auto simp: producers_of_def filter_empty_conv)
    have "(case t of TSlice e \<Rightarrow> e | t \<Rightarrow> t) = t" using ns by (simp add: is_slice_def split: rtype.splits)
    then have "ac_name p \<in> set (edges_of comps c)"
      using p(3) assms(4) unfolding edges_of_def by (auto intro!: bexI[of _ t])
    then have "ac_name p \<in> set L" using assms(5) by blast
    with assms(2) p(1,2) show ?thesis by (simp add: stocked_def)
  qed
  show ?thesis
  proof (cases t)
    case (TSlice e)
    then show ?thesis
      using none by (cases e)
        (auto simp: valueForType_def findImplementations_def findInterfaceImplementations_def Let_def split: option.splits)
  next
    case (TIface n)
    from found TIface obtain v where v: "map_of (co_results st) t = Some (Some v)" "rf_impl rf (gv_type v) t"
      by (auto simp: is_slice_def)
    have "Some v \<in> set ?vs" using v(1) walked_set[OF ord, of "co_results st"] by (auto simp: ran_def)
    then have "filter (\<lambda>v. rf_impl rf (gv_type (the v)) t) ?vs \<noteq> []"
      using v(2) by (fastforce simp: filter_empty_conv)
    then obtain w ws where "dedup (filter (\<lambda>v. rf_impl rf (gv_type (the v)) t) ?vs) {} = w # ws"
      using dedup_Nil_iff by (metis list.exhaust)
    then have "findImplementations rf st t = Some (w # ws)"
      using none TIface by (simp add: findImplementations_def findInterfaceImplementations_def Let_def)
    with TIface show ?thesis by (simp add: valueForType_def)
  next
    case (TConc n)
    with found show ?thesis by (auto simp: valueForType_def is_slice_def)
  qed
qed

lemma args_found:
  "(\<And>t. t \<in> set ts \<Longrightarrow> \<exists>a. valueForType rf st t = Some (Inr a)) \<Longrightarrow> \<exists>as. args_for rf st ts = Some (Inr as)"
proof (induction ts)
  case (Cons t ts)
  then obtain a as where "valueForType rf st t = Some (Inr a)" "args_for rf st ts = Some (Inr as)"
    by (meson list.set_intros)
  then show ?case by simp
qed simp

lemma execute_ready:
  assumes "ready_for rf comps edges L st" "set (edges n) \<subseteq> set L" "component_map comps n = Some c"
  shows "\<exists>st'. ExecuteComponent rf c st = Ok st' \<and> ready_for rf comps edges (L @ [n]) st'"
proof -
  have comp: "complete rf comps edges" and st: "stocked rf comps L st"
    using assms(1) by (simp_all add: ready_for_def)
  have d: "distinct (map ac_name comps)" using comp by (simp add: complete_def)
  have c: "c \<in> set comps" "ac_name c = n" using component_map_iff[OF d] assms(3) by auto
  have wb: "well_behaved rf c" using comp c(1) by (simp add: complete_def)
  have need: "set (edges_of comps c) \<subseteq> set L" using assms(2) complete_edges(1)[OF comp c(1)] c(2) by simp
  from args_found[of "me_in (ac_apply c)" rf st] value_found[OF comp st c(1) _ need] wb
  obtain as where as: "args_for rf st (me_in (ac_apply c)) = Some (Inr as)" by (auto simp: well_behaved_def)
  from wb obtain v s' where v: "me_call (ac_apply c) as (co_state st) = (Some v, None, s')"
    "\<And>m. ac_produces c = Some (TIface m) \<Longrightarrow> rf_impl rf (gv_type v) (TIface m)"
    unfolding well_behaved_def by blast
  let ?st = "case ac_produces c of None \<Rightarrow> st\<lparr>co_state := s'\<rparr> | Some t \<Rightarrow> store_result t (Some v) (st\<lparr>co_state := s'\<rparr>)"
  have "ExecuteComponent rf c st = Ok ?st" using as v(1) by (simp add: ExecuteComponent_def)
  moreover have "stocked rf comps (L @ [n]) ?st"
  proof (cases "ac_produces c")
    case None
    have "ac_produces p = None" if "p \<in> set comps" "ac_name p = n" for p
      using that c d None by (metis distinct_map inj_onD)
    with st None show ?thesis by (auto simp: stocked_def)
  next
    case (Some t)
    have res: "map_of (co_results ?st) = (map_of (co_results st))(t \<mapsto> Some v)"
      using Some by (simp add: store_result_def AList.update_conv')
    have sl: "map_of (co_sliceResults ?st) = (map_of (co_sliceResults st))(t \<mapsto>
        (case map_of (co_sliceResults st) t of None \<Rightarrow> [] | Some vs \<Rightarrow> vs) @ [Some v])"
      using Some by (simp add: store_result_def AList.update_conv')
    have same: "p = c" if "p \<in> set comps" "ac_name p = n" for p
      using that c d by (metis distinct_map inj_onD)
    show ?thesis
      unfolding stocked_def
    proof (intro conjI allI impI ballI)
      fix u w assume "map_of (co_results ?st) u = Some w"
      then show "w \<noteq> None" using st unfolding res stocked_def by (auto split: if_splits)
    next
      fix u ws assume "map_of (co_sliceResults ?st) u = Some ws"
      then show "None \<notin> set ws" using st unfolding sl stocked_def by (auto split: if_splits option.splits)
    next
      fix p u assume p: "p \<in> set comps" "ac_name p \<in> set (L @ [n])" "ac_produces p = Some u"
      show "\<exists>v. map_of (co_results ?st) u = Some (Some v) \<and> (\<forall>n. u = TIface n \<longrightarrow> rf_impl rf (gv_type v) u)"
      proof (cases "u = t")
        case True
        with v(2) Some show ?thesis unfolding res by auto
      next
        case False
        with p same Some have "ac_name p \<in> set L" by auto
        with p(1,3) st False show ?thesis unfolding res stocked_def by auto
      qed
    qed
  qed
  ultimately show ?thesis using comp by (auto simp: ready_for_def)
qed

interpretation composite_executor:
  component_executor "ExecuteComponent rf" "component_map comps" edges "ready_for rf comps edges"
proof unfold_locales
  fix L s n c
  assume "ready_for rf comps edges L s" "set (edges n) \<subseteq> set L" "component_map comps n = Some c"
  then show "\<exists>s'. ExecuteComponent rf c s = Ok s' \<and> ready_for rf comps edges (L @ [n]) s'"
    by (rule execute_ready)
next
  fix L s n
  assume r: "ready_for rf comps edges L s" and none: "component_map comps n = None"
  then have "n \<notin> ac_name ` set comps"
    using component_map_iff[of comps n] by (auto simp: ready_for_def complete_def)
  with r show "ready_for rf comps edges (L @ [n]) s" by (auto simp: ready_for_def stocked_def)
qed

lemma complete_edges_known:
  assumes "complete rf comps edges"
  shows "set (edges n) \<subseteq> ac_name ` set comps"
proof (cases "n \<in> ac_name ` set comps")
  case True
  then obtain c where "c \<in> set comps" "n = ac_name c" by blast
  then show ?thesis using complete_edges(1)[OF assms] by (auto simp: edges_of_def producers_of_def)
qed (simp add: complete_edges_other[OF assms])

lemma ExecuteComponent_fuel: "ExecuteComponent rf c st \<noteq> NoMoreFuel"
  by (auto simp: ExecuteComponent_def split: option.splits sum.splits prod.splits)

text \<open>
  C3.  A composite whose components succeed and whose every single value has a producer always ends,
  never panics, and never reports a missing dependency: it succeeds exactly when its dependency graph
  has no cycle, whatever the order in which the result maps are walked.
\<close>

theorem Composite_Apply_total:
  assumes "complete rf comps edges" "length comps < fuel"
  shows "if acyclic (dep_rel edges)
    then \<exists>x. Composite_Apply rf fuel comps s = Ok x
      \<and> topo edges (ex_executed x) \<and> ac_name ` set comps \<subseteq> set (ex_executed x)
    else \<exists>e x. Composite_Apply rf fuel comps s = Fail e x"
proof -
  let ?c = "\<lparr>co_results = [], co_sliceResults = [], co_state = s\<rparr>"
  let ?x = "\<lparr>ex_executed = [], ex_visiting = {}, ex_st = ?c\<rparr>"
  let ?run = "executeGraph (ExecuteComponent rf) fuel comps edges ?c"
  have run: "Composite_Apply rf fuel comps s = ?run"
    using assms(1) by (simp add: Composite_Apply_def complete_def Let_def)
  have fuel: "?run \<noteq> NoMoreFuel"
    by (rule executeGraph_enough_fuel) (use complete_edges_known[OF assms(1)] ExecuteComponent_fuel assms(2) in blast)+
  have "ready_for rf comps edges (ex_executed ?x) (ex_st ?x)"
    using assms(1) by (simp add: ready_for_def stocked_def)
  then have v: "composite_executor.verdict edges rf comps ?run"
    unfolding executeGraph_def by (intro composite_executor.visit_all_verdict) simp_all
  show ?thesis
  proof (cases ?run)
    case (Ok x)
    from visit_all_Ok[OF Ok[unfolded executeGraph_def]]
    have t: "topo edges (ex_executed x)" "ac_name ` set comps \<subseteq> set (ex_executed x)" by auto
    have "(a, a) \<notin> (dep_rel edges)\<^sup>+" for a
    proof
      assume a: "(a, a) \<in> (dep_rel edges)\<^sup>+"
      then obtain b where "(a, b) \<in> dep_rel edges" by (meson tranclD)
      then have "edges a \<noteq> []" by (auto simp: dep_rel_def)
      then have "a \<in> set (ex_executed x)" using complete_edges_other[OF assms(1)] t(2) by blast
      with topo_acyclic[OF t(1) a] show False by blast
    qed
    then have "acyclic (dep_rel edges)" by (simp add: acyclic_def)
    with run Ok t show ?thesis by simp
  next
    case (Fail e x)
    with v have "\<not> acyclic (dep_rel edges)"
      by (auto simp: composite_executor.verdict_def acyclic_def)
    with run Fail show ?thesis by simp
  qed (use v fuel in \<open>simp_all add: composite_executor.verdict_def\<close>)
qed

text \<open>
  A component that returned nil is fatal to a later lookup by interface: as soon as any stored
  result is nil, executing a component whose first parameter is an interface panics, although
  a lookup of the same parameter by concrete type is harmless.
\<close>

theorem nil_result_panics:
  assumes "\<And>ks. set (rf_order rf ks) = set ks" "map_of (co_results c) t = Some None"
    and "me_in (ac_apply a) = TIface n # ts"
  shows "ExecuteComponent rf a c = Crash"
proof -
  have "None \<in> set (walked rf (co_results c))"
    unfolding walked_set[OF assms(1)] using assms(2) by (rule ranI)
  then show ?thesis
    using assms(3)
    by (simp add: ExecuteComponent_def valueForType_def findImplementations_def
        findInterfaceImplementations_def Let_def)
qed

section \<open>A concrete composite\<close>

definition demo_rf :: reflection where
  "demo_rf = \<lparr>rf_impl = (\<lambda>t u. t = TConc ''*Chart'' \<and> u = TIface ''Construct''), rf_order = (\<lambda>ks. ks)\<rparr>"

definition demo_val :: "string \<Rightarrow> nat \<Rightarrow> gval" where
  "demo_val ty a = \<lparr>gv_type = TConc ty, gv_ptr = Some a, gv_text = []\<rparr>"

definition demo_comp :: "string \<Rightarrow> rtype list \<Rightarrow> ifc \<Rightarrow> rtype \<Rightarrow> nat auto_component" where
  "demo_comp name ins v out =
     \<lparr>ac_name = name,
       ac_apply = \<lparr>me_in = ins, me_out = [out], me_call = (\<lambda>_ n. (v, None, Suc n))\<rparr>,
       ac_produces = Some out, ac_consumes = ins, ac_isSliceType = list_ex is_slice ins\<rparr>"

definition demo_comps :: "nat auto_component list" where
  "demo_comps =
     [demo_comp ''0::node'' [TConc ''*Chart''] (Some (demo_val ''*Node'' 2)) (TConc ''*Node''),
      demo_comp ''1::chart'' [] (Some (demo_val ''*Chart'' 1)) (TConc ''*Chart'')]"

definition demo_edges :: "string \<Rightarrow> string list" where
  "demo_edges = (\<lambda>_. [])(''0::node'' := [''1::chart''], ''1::chart'' := [])"

lemmas demo_defs = demo_rf_def demo_val_def demo_comp_def demo_comps_def demo_edges_def

lemma demo_complete: "complete demo_rf demo_comps demo_edges"
  by (auto simp: complete_def well_behaved_def provided_def dependencyGraph_def producers_of_def demo_defs
      is_slice_def)

lemma demo_acyclic: "acyclic (dep_rel demo_edges)"
proof (rule acyclicI_order[of _ "\<lambda>n. if n = ''0::node'' then 1 else (0::nat)"])
qed (auto simp: dep_rel_def demo_edges_def split: if_splits)

lemma registered_names_distinct_witness:
  "\<exists>comps. registerComponents [chartContext (\<lambda>_. demo_val ''ctx'' 0), chartFactory (demo_val ''f'' 1)] = Some (Inr (comps::nat auto_component list))
     \<and> distinct (map ac_name comps)"
proof -
  have "\<exists>comps. registerComponents [chartContext (\<lambda>_. demo_val ''ctx'' 0), chartFactory (demo_val ''f'' 1)]
    = Some (Inr (comps::nat auto_component list))"
    by (simp add: registerComponents_def ctor_Components_def chartContext_def chartFactory_def isCallable_def Analyze_def Let_def)
  with registered_names_distinct show ?thesis by blast
qed

lemma dependencyGraph_exact_witness:
  "\<exists>edges. dependencyGraph demo_comps = Inr edges \<and> edges ''0::node'' = [''1::chart''] \<and> edges ''2::x'' = []"
proof -
  have d: "distinct (map ac_name demo_comps)" by (simp add: demo_defs)
  have "\<not> ambiguous demo_comps j" if "j < length demo_comps" for j
    using that by (auto simp: demo_defs ambiguous_def supplies_def less_Suc_eq)
  moreover have "needed_by demo_comps 0 = [1]"
    by (simp add: demo_defs needed_by_def supplies_def)
  ultimately obtain edges where e: "dependencyGraph demo_comps = Inr edges"
    "\<forall>j<length demo_comps. edges (ac_name (demo_comps ! j)) = map (\<lambda>i. ac_name (demo_comps ! i)) (needed_by demo_comps j)"
    "\<forall>name. name \<notin> ac_name ` set demo_comps \<longrightarrow> edges name = []" and n: "needed_by demo_comps 0 = [1]"
    using dependencyGraph_exact[OF d] by (auto split: if_splits)
  have names: "ac_name (demo_comps ! 0) = ''0::node''" "ac_name (demo_comps ! 1) = ''1::chart''" "0 < length demo_comps"
    "''2::x'' \<notin> ac_name ` set demo_comps" by (simp_all add: demo_comps_def demo_comp_def)
  from e(2)[rule_format, OF names(3)] have "edges ''0::node'' = [''1::chart'']" unfolding n names(1) list.map names(2) .
  with e(1) e(3)[rule_format, OF names(4)] show ?thesis by blast
qed

lemma executeGraph_topological_witness:
  "\<exists>x. executeGraph (ExecuteComponent demo_rf) 3 demo_comps demo_edges
       \<lparr>co_results = [], co_sliceResults = [], co_state = 0\<rparr> = Ok x
     \<and> ex_executed x = [''1::chart'', ''0::node''] \<and> topo demo_edges (ex_executed x)"
proof -
  have "(case executeGraph (ExecuteComponent demo_rf) 3 demo_comps demo_edges
       \<lparr>co_results = [], co_sliceResults = [], co_state = 0\<rparr> of
         Ok x \<Rightarrow> ex_executed x = [''1::chart'', ''0::node''] | _ \<Rightarrow> False)"
    by code_simp
  then obtain x where x: "executeGraph (ExecuteComponent demo_rf) 3 demo_comps demo_edges
       \<lparr>co_results = [], co_sliceResults = [], co_state = 0\<rparr> = Ok x" "ex_executed x = [''1::chart'', ''0::node'']"
    by (auto split: run.splits)
  have "topo demo_edges (ex_executed x)" using executeGraph_topological[OF x(1)] by blast
  with x show ?thesis by blast
qed

lemma Composite_Apply_total_witness:
  "complete demo_rf demo_comps demo_edges \<and> length demo_comps < 3
     \<and> (\<exists>x. Composite_Apply demo_rf 3 demo_comps 0 = Ok x)"
  using Composite_Apply_total[OF demo_complete, of 3 0] demo_complete demo_acyclic
  by (auto simp: demo_comps_def)

lemma nil_result_panics_witness:
  "ExecuteComponent demo_rf (demo_comp ''c'' [TIface ''Construct''] None (TConc ''x''))
     \<lparr>co_results = [(TConc ''error'', None)], co_sliceResults = [], co_state = (0::nat)\<rparr> = Crash"
  by (rule nil_result_panics) (simp_all add: demo_rf_def demo_comp_def)

end
