(* ===== verification/Images.thy ===== *)
theory Images
  imports Errors
begin

text \<open>
  Container images: the \<open>image_uri\<close> rule of internal/validator.go with its helpers, and
  \<open>ParseImageURI\<close> of internal/core/domain/container.go.  Strings are bytes; the loops over a
  string see its runes, and \<open>byte(r)\<close> keeps the low eight bits of a rune.
\<close>

section \<open>The validator\<close>

definition isAlphaNumeric :: "nat \<Rightarrow> bool" where
  "isAlphaNumeric r =
     ((97 \<le> r \<and> r \<le> 122) \<or> (65 \<le> r \<and> r \<le> 90) \<or> (48 \<le> r \<and> r \<le> 57))"

definition digit_rune :: "nat \<Rightarrow> bool" where
  "digit_rune r = (48 \<le> r \<and> r \<le> 57)"

definition isLikelyPort :: "string \<Rightarrow> bool" where
  "isLikelyPort s = (s \<noteq> [] \<and> length s \<le> 5 \<and> list_all digit_rune (runes s))"

definition isValidPort :: "string \<Rightarrow> bool" where
  "isValidPort port = (port \<noteq> [] \<and> list_all digit_rune (runes port) \<and> length port \<le> 5)"

definition name_rune :: "nat \<Rightarrow> bool" where
  "name_rune r = (isAlphaNumeric (r mod 256) \<or> r = 45 \<or> r = 95 \<or> r = 46)"

definition isValidTag :: "string \<Rightarrow> bool" where
  "isValidTag tag =
     (tag \<noteq> [] \<and> length tag \<le> 128 \<and> hd tag \<noteq> CHR ''-'' \<and> hd tag \<noteq> CHR ''.''
      \<and> list_all name_rune (runes tag))"

definition isValidRepositoryComponent :: "string \<Rightarrow> bool" where
  "isValidRepositoryComponent c =
     (c \<noteq> [] \<and> length c \<le> 63 \<and> isAlphaNumeric (byte (hd c)) \<and> isAlphaNumeric (byte (last c))
      \<and> list_all name_rune (runes c))"

text \<open>\<open>range\<close> over a string: the runes with their byte offsets.\<close>

fun offsets :: "nat \<Rightarrow> (nat \<times> string) list \<Rightarrow> (nat \<times> nat) list" where
  "offsets i [] = []"
| "offsets i ((r, bs) # ss) = (i, r) # offsets (i + length bs) ss"

definition domain_part_ok :: "string \<Rightarrow> bool" where
  "domain_part_ok part =
     (part \<noteq> [] \<and> hd part \<noteq> CHR ''-'' \<and> last part \<noteq> CHR ''-''
      \<and> list_all
          (\<lambda>(i, r). (isAlphaNumeric (r mod 256) \<or> r \<in> {45, 95}) \<and> \<not> (r = 45 \<and> (i = 0 \<or> i = length part - 1)))
          (offsets 0 (segments part)))"

definition isValidRegistryName :: "string \<Rightarrow> bool" where
  "isValidRegistryName registry =
     (registry \<noteq> [] \<and> length registry \<le> 253
      \<and> hd registry \<notin> {CHR ''-'', CHR ''.''} \<and> last registry \<notin> {CHR ''-'', CHR ''.''}
      \<and> list_all name_rune (runes registry)
      \<and> list_all domain_part_ok (split_on CHR ''.'' registry))"

definition validAlgorithms :: "string set" where
  "validAlgorithms = {''sha256'', ''sha512'', ''sha1''}"

definition extractNameAndValidateDigest :: "string \<Rightarrow> string \<times> bool" where
  "extractNameAndValidateDigest imageURI =
     (if \<not> contains imageURI ''@'' then (imageURI, False)
      else
        (case split_on CHR ''@'' imageURI of
           [nameAndTag, digest] \<Rightarrow>
             (case str_cut digest CHR '':'' of
                None \<Rightarrow> ([], True)
              | Some (algorithm, hash) \<Rightarrow>
                  if algorithm = [] \<or> hash = [] then ([], True)
                  else if algorithm \<notin> validAlgorithms then ([], True)
                  else (nameAndTag, True))
         | _ \<Rightarrow> ([], True)))"

definition parseImageNameAndTag :: "string \<Rightarrow> string \<Rightarrow> string \<times> string" where
  "parseImageNameAndTag imageURI nameAndTag =
     (if contains imageURI ''@'' then (nameAndTag, [])
      else
        (case last_index nameAndTag CHR '':'' of
           None \<Rightarrow> (nameAndTag, [])
         | Some lastColon \<Rightarrow>
             (let imageName = take lastColon nameAndTag; tag = drop (Suc lastColon) nameAndTag in
              if \<not> contains imageName ''/'' \<and> isLikelyPort tag then (nameAndTag, [])
              else (imageName, tag))))"

definition part_ok :: "nat \<Rightarrow> nat \<Rightarrow> string \<Rightarrow> bool" where
  "part_ok n i part =
     (part \<noteq> []
      \<and> (if i = 0 \<and> contains part '':'' then
           (case split_on CHR '':'' part of
              [name, port] \<Rightarrow> isValidRegistryName name \<and> isValidPort port
            | _ \<Rightarrow> False)
         else if i = 0 \<and> 1 < n \<and> contains part ''.'' then isValidRegistryName part
         else isValidRepositoryComponent part))"

definition parts_ok :: "string list \<Rightarrow> bool" where
  "parts_ok parts = list_all (\<lambda>(i, part). part_ok (length parts) i part) (enumerate 0 parts)"

definition image_name_ok :: "string \<Rightarrow> bool" where
  "image_name_ok imageName =
     (imageName \<noteq> [] \<and> \<not> contains imageName ''//'' \<and> \<not> contains imageName ''..''
      \<and> parts_ok (split_on CHR ''/'' imageName))"

text \<open>The field is \<open>None\<close> when its kind is not \<open>reflect.String\<close>.\<close>

definition validateImageURI :: "string option \<Rightarrow> bool" where
  "validateImageURI field =
     (case field of
        None \<Rightarrow> False
      | Some v \<Rightarrow>
          (let imageURI = trim_space v in
           if imageURI = [] then False
           else if list_ex (\<lambda>c. c \<in> {CHR '' '', CHR 0x09, CHR 0x0A, CHR 0x0D}) imageURI then False
           else
             (let (nameAndTag, hasDigest) = extractNameAndValidateDigest imageURI in
              if hasDigest \<and> nameAndTag = [] then False
              else
                (let (imageName, tag) = parseImageNameAndTag imageURI nameAndTag in
                 image_name_ok imageName \<and> (tag = [] \<or> isValidTag tag)))))"

section \<open>The parser\<close>

record image_uri =
  iu_Repository :: string
  iu_Tag :: string
  iu_Digest :: string

definition ParseImageURI :: "string \<Rightarrow> goerr + image_uri" where
  "ParseImageURI imageURI =
     (if imageURI = [] then Inl (ErrText ''image URI cannot be empty'')
      else if contains imageURI ''://'' then Inl (ErrText (''invalid image URI format: '' @ imageURI))
      else
        (case last_index imageURI CHR ''@'' of
           Some at \<Rightarrow> Inr \<lparr>iu_Repository = take at imageURI, iu_Tag = [], iu_Digest = drop (Suc at) imageURI\<rparr>
         | None \<Rightarrow>
             (case last_index imageURI CHR '':'' of
                Some colon \<Rightarrow>
                  if contains (drop (Suc colon) imageURI) ''/''
                  then Inr \<lparr>iu_Repository = imageURI, iu_Tag = ''latest'', iu_Digest = []\<rparr>
                  else Inr \<lparr>iu_Repository = take colon imageURI, iu_Tag = drop (Suc colon) imageURI, iu_Digest = []\<rparr>
              | None \<Rightarrow> Inr \<lparr>iu_Repository = imageURI, iu_Tag = ''latest'', iu_Digest = []\<rparr>)))"

section \<open>Runes and bytes\<close>

lemma cont_ge: "is_cont n \<Longrightarrow> 128 \<le> n" "second_ok b n \<Longrightarrow> 128 \<le> n"
  by (auto simp: is_cont_def second_ok_def split: if_splits)

lemma decode_rune_bytes:
  "decode_rune (c # cs) = (r, n) \<Longrightarrow>
     (byte c < 128 \<longrightarrow> r = byte c \<and> n = 1)
     \<and> (128 \<le> byte c \<longrightarrow> (\<forall>d \<in> set (take (n - 1) cs). 128 \<le> byte d))"
  by (auto simp: decode_rune.simps(2) Let_def split: if_splits list.splits dest: cont_ge)

lemma ascii_char_is_rune: "c \<in> set s \<Longrightarrow> byte c < 128 \<Longrightarrow> byte c \<in> set (runes s)"
proof (induction s rule: segments.induct)
  case (2 d cs)
  obtain r n where rn: "decode_rune (d # cs) = (r, n)" by fastforce
  have runes: "runes (d # cs) = r # runes (drop (n - 1) cs)"
    using rn by (simp add: runes_def segments.simps(2) Let_def)
  consider "c = d" | "c \<in> set (take (n - 1) cs)" | "c \<in> set (drop (n - 1) cs)"
    using 2(2) by (metis append_take_drop_id set_append set_ConsD UnE)
  then show ?case
  proof cases
    case 1
    with decode_rune_bytes[OF rn] 2(3) runes show ?thesis by simp
  next
    case 2
    with decode_rune_bytes[OF rn] \<open>byte c < 128\<close> have "c = d \<or> byte d < 128" by force
    with 2 decode_rune_bytes[OF rn] have False if "128 \<le> byte d" using that \<open>byte c < 128\<close> by force
    moreover have "n = 1" if "byte d < 128" using decode_rune_bytes[OF rn] that by simp
    ultimately show ?thesis using 2 by force
  next
    case 3
    with "2.IH" rn \<open>byte c < 128\<close> have "byte c \<in> set (runes (drop (n - 1) cs))" by simp
    with runes show ?thesis by simp
  qed
qed (simp add: runes_def)

lemma name_rune_simps: "\<not> name_rune 47" "\<not> name_rune 58" "\<not> name_rune 64"
  by (simp_all add: name_rune_def isAlphaNumeric_def)

lemma rune_check:
  "c \<in> set s \<Longrightarrow> byte c < 128 \<Longrightarrow> \<not> P (byte c) \<Longrightarrow> \<not> list_all P (runes s)"
  using ascii_char_is_rune[of c s] by (auto simp: list_all_iff)

lemma not_port:
  "c \<in> set s \<Longrightarrow> c \<in> {CHR ''/'', CHR '':''} \<Longrightarrow> \<not> isLikelyPort s \<and> \<not> isValidPort s"
  using rune_check[of c s digit_rune] by (auto simp: isLikelyPort_def isValidPort_def digit_rune_def)

lemma valid_tag_chars:
  "isValidTag s \<Longrightarrow> c \<in> set s \<Longrightarrow> c \<notin> {CHR ''/'', CHR '':'', CHR ''@''}"
  using rune_check[of c s name_rune] by (auto simp: isValidTag_def name_rune_simps)

lemma valid_component_chars:
  "isValidRepositoryComponent s \<Longrightarrow> c \<in> set s \<Longrightarrow> c \<notin> {CHR ''/'', CHR '':'', CHR ''@''}"
  using rune_check[of c s name_rune] by (auto simp: isValidRepositoryComponent_def name_rune_simps)

lemma likely_port_tag:
  assumes "isLikelyPort s" shows "isValidTag s"
proof -
  have d: "list_all digit_rune (runes s)" "s \<noteq> []" "length s \<le> 5" using assms by (simp_all add: isLikelyPort_def)
  have "hd s \<noteq> c" if "c \<in> {CHR ''-'', CHR ''.''}" for c
  proof
    assume "hd s = c"
    then have "c \<in> set s" using d(2) by auto
    from rune_check[OF this, of digit_rune] that d(1) show False by (auto simp: digit_rune_def)
  qed
  moreover have "list_all name_rune (runes s)"
    using d(1) by (auto simp: list_all_iff digit_rune_def name_rune_def isAlphaNumeric_def)
  ultimately show ?thesis using d by (simp add: isValidTag_def)
qed

lemma trim_space_ascii:
  assumes "ascii s" "\<not> is_space_rune (byte (hd s))" "\<not> is_space_rune (byte (last s))"
  shows "trim_space s = s"
proof (cases "s = []")
  case False
  let ?m = "map (\<lambda>c. (byte c, [c])) s"
  have "dropWhile (\<lambda>x. is_space_rune (fst x)) ?m = ?m"
    using assms(2) False by (intro dropWhile_hd_same) (simp add: hd_map)
  moreover have "dropWhile (\<lambda>x. is_space_rune (fst x)) (rev ?m) = rev ?m"
    using assms(3) False by (intro dropWhile_hd_same) (simp add: hd_rev last_map)
  ultimately show ?thesis by (simp add: trim_space_def segments_ascii[OF assms(1)] comp_def)
qed (simp add: trim_space_def segments.simps)

lemmas validator_defs =
  validateImageURI_def extractNameAndValidateDigest_def parseImageNameAndTag_def image_name_ok_def parts_ok_def
  part_ok_def isValidRegistryName_def isValidRepositoryComponent_def isValidTag_def isValidPort_def
  isLikelyPort_def domain_part_ok_def name_rune_def isAlphaNumeric_def digit_rune_def

section \<open>The validator and the parser\<close>

lemma last_index_split: "c \<notin> set b \<Longrightarrow> last_index (a @ c # b) c = Some (length a)"
  by (simp add: last_index_def takeWhile_marker)

definition blank_free :: "string \<Rightarrow> bool" where
  "blank_free s \<longleftrightarrow> set s \<inter> {CHR '' '', CHR 0x09, CHR 0x0A, CHR 0x0D} = {}"

text \<open>The references the rule accepts, as a grammar: with a digest, without a tag, with a tag.\<close>

definition digested :: "string \<Rightarrow> string \<Rightarrow> bool" where
  "digested s n \<longleftrightarrow>
     (\<exists>a h. s = n @ CHR ''@'' # a @ CHR '':'' # h \<and> CHR ''@'' \<notin> set (n @ a @ h)
        \<and> a \<in> validAlgorithms \<and> h \<noteq> [])"

definition digest_reference :: "string \<Rightarrow> bool" where
  "digest_reference s \<longleftrightarrow> (\<exists>n. digested s n \<and> image_name_ok n)"

definition tag_reference :: "string \<Rightarrow> bool" where
  "tag_reference s \<longleftrightarrow> CHR ''@'' \<notin> set s
     \<and> (\<exists>n t. s = n @ CHR '':'' # t \<and> CHR '':'' \<notin> set t
        \<and> (if CHR ''/'' \<notin> set n \<and> isLikelyPort t then image_name_ok s
           else image_name_ok n \<and> (t = [] \<or> isValidTag t)))"

definition plain_reference :: "string \<Rightarrow> bool" where
  "plain_reference s \<longleftrightarrow> CHR ''@'' \<notin> set s \<and> CHR '':'' \<notin> set s \<and> image_name_ok s"

lemma image_name_not_Nil: "image_name_ok n \<Longrightarrow> n \<noteq> []"
  by (simp add: image_name_ok_def)

lemma split_two: "split_on d s = [a, b] \<longleftrightarrow> s = a @ d # b \<and> d \<notin> set a \<and> d \<notin> set b"
proof
  assume e: "split_on d s = [a, b]"
  have "join_with [d] (split_on d s) = s" by (rule join_split)
  with e split_on_no_sep[of _ d s] show "s = a @ d # b \<and> d \<notin> set a \<and> d \<notin> set b" by auto
qed (simp add: split_on_append split_on_absent)

lemma extract_digest_iff:
  assumes "CHR ''@'' \<in> set s" "n \<noteq> []"
  shows "extractNameAndValidateDigest s = (n, True) \<longleftrightarrow> digested s n"
proof
  assume l: "extractNameAndValidateDigest s = (n, True)"
  then obtain d where sp: "split_on CHR ''@'' s = [n, d]"
    using assms by (auto simp: extractNameAndValidateDigest_def contains_single split: list.splits option.splits if_splits)
  then obtain a h where c: "str_cut d CHR '':'' = Some (a, h)" "a \<in> validAlgorithms" "h \<noteq> []"
    using assms l by (auto simp: extractNameAndValidateDigest_def contains_single split: option.splits if_splits)
  from str_cut_Some[OF c(1)] sp[unfolded split_two] c show "digested s n" by (auto simp: digested_def)
next
  assume "digested s n"
  then obtain a h where s: "s = n @ CHR ''@'' # a @ CHR '':'' # h" "CHR ''@'' \<notin> set (n @ a @ h)"
    "a \<in> validAlgorithms" "h \<noteq> []" by (auto simp: digested_def)
  then have "split_on CHR ''@'' s = [n, a @ CHR '':'' # h]" by (simp add: split_two)
  moreover have "CHR '':'' \<notin> set a" "a \<noteq> []" using s(3) by (auto simp: validAlgorithms_def)
  ultimately show "extractNameAndValidateDigest s = (n, True)"
    using s(3,4) assms by (simp add: extractNameAndValidateDigest_def contains_single str_cut_append)
qed

lemma valid_image_iff:
  "validateImageURI (Some v) \<longleftrightarrow> blank_free (trim_space v)
     \<and> (digest_reference (trim_space v) \<or> tag_reference (trim_space v) \<or> plain_reference (trim_space v))"
proof -
  let ?s = "trim_space v"
  have bl: "list_ex (\<lambda>c. c \<in> {CHR '' '', CHR 0x09, CHR 0x0A, CHR 0x0D}) ?s \<longleftrightarrow> \<not> blank_free ?s"
    by (auto simp: blank_free_def list_ex_iff)
  have emp: "\<not> digest_reference []" "\<not> tag_reference []" "\<not> plain_reference []"
    by (auto simp: digest_reference_def digested_def tag_reference_def plain_reference_def image_name_ok_def)
  show ?thesis
  proof (cases "?s = [] \<or> \<not> blank_free ?s")
    case True
    with emp bl show ?thesis by (auto simp: validateImageURI_def)
  next
    case ok: False
    show ?thesis
    proof (cases "CHR ''@'' \<in> set ?s")
      case True
      obtain n b where e: "extractNameAndValidateDigest ?s = (n, b)" by fastforce
      have b: "b" using e True
        by (auto simp: extractNameAndValidateDigest_def contains_single split: list.splits option.splits if_splits)
      have "validateImageURI (Some v) \<longleftrightarrow> n \<noteq> [] \<and> image_name_ok n"
        using ok bl e b True by (simp add: validateImageURI_def Let_def parseImageNameAndTag_def contains_single)
      also have "\<dots> \<longleftrightarrow> (\<exists>m. m \<noteq> [] \<and> extractNameAndValidateDigest ?s = (m, True) \<and> image_name_ok m)"
        using e b by auto
      also have "\<dots> \<longleftrightarrow> digest_reference ?s"
        unfolding digest_reference_def using extract_digest_iff[OF True] image_name_not_Nil by blast
      finally show ?thesis using ok True by (auto simp: tag_reference_def plain_reference_def)
    next
      case no: False
      then have ex: "extractNameAndValidateDigest ?s = (?s, False)"
        by (simp add: extractNameAndValidateDigest_def contains_single)
      show ?thesis
      proof (cases "last_index ?s CHR '':''")
        case None
        then have "CHR '':'' \<notin> set ?s" by (simp add: last_index_None)
        then have "tag_reference ?s = False" unfolding tag_reference_def by (metis in_set_conv_decomp)
        moreover have "plain_reference ?s = image_name_ok ?s"
          using no \<open>CHR '':'' \<notin> set ?s\<close> by (simp add: plain_reference_def)
        moreover have "digest_reference ?s = False"
          unfolding digest_reference_def digested_def using no by (metis in_set_conv_decomp)
        moreover have "validateImageURI (Some v) \<longleftrightarrow> image_name_ok ?s"
          using None ok bl ex no by (simp add: validateImageURI_def parseImageNameAndTag_def contains_single Let_def)
        ultimately show ?thesis using ok by simp
      next
        case (Some i)
        define n t where "n = take i ?s" and "t = drop (Suc i) ?s"
        from last_index_Some[OF Some] have s: "?s = n @ CHR '':'' # t" "CHR '':'' \<notin> set t"
          by (simp_all add: n_def t_def)
        have uniq: "m = n \<and> u = t" if "?s = m @ CHR '':'' # u" "CHR '':'' \<notin> set u" for m u
        proof -
          have "i = length m" using last_index_split[OF that(2), of m] that(1) Some by simp
          then show ?thesis using that(1) by (simp add: n_def t_def)
        qed
        have "validateImageURI (Some v) \<longleftrightarrow>
            (if CHR ''/'' \<notin> set n \<and> isLikelyPort t then image_name_ok ?s
             else image_name_ok n \<and> (t = [] \<or> isValidTag t))"
          using ok bl ex no Some
          by (simp add: validateImageURI_def parseImageNameAndTag_def contains_single Let_def n_def t_def)
        also have "\<dots> \<longleftrightarrow> tag_reference ?s"
          unfolding tag_reference_def using s uniq no by blast
        finally have "validateImageURI (Some v) \<longleftrightarrow> tag_reference ?s" .
        moreover have "plain_reference ?s = False" unfolding plain_reference_def using s(1) by simp
        moreover have "digest_reference ?s = False"
          unfolding digest_reference_def digested_def using no by (metis in_set_conv_decomp)
        ultimately show ?thesis using ok by simp
      qed
    qed
  qed
qed

section \<open>The grammar of references\<close>

text \<open>
  What the rule accepts, stated on its own: the runes of a word are letters, digits, hyphens, dots and underscores, where a rune
  counts as the character of its low eight bits.  A host is a list of labels, a name a path of components that may start with a
  host, and a reference a name with a digest, with a tag, or alone.
\<close>

definition letters_digits :: "nat set" where "letters_digits = {48..57} \<union> {65..90} \<union> {97..122}"

definition word_runes :: "nat set" where "word_runes = {r. r mod 256 \<in> letters_digits} \<union> {45, 46, 95}"

definition port_text :: "string \<Rightarrow> bool" where
  "port_text p \<longleftrightarrow> p \<noteq> [] \<and> length p \<le> 5 \<and> set (runes p) \<subseteq> {48..57}"

definition tag_text :: "string \<Rightarrow> bool" where
  "tag_text t \<longleftrightarrow> t \<noteq> [] \<and> length t \<le> 128 \<and> set (runes t) \<subseteq> word_runes \<and> hd t \<notin> {CHR ''-'', CHR ''.''}"

definition component_text :: "string \<Rightarrow> bool" where
  "component_text c \<longleftrightarrow> c \<noteq> [] \<and> length c \<le> 63 \<and> set (runes c) \<subseteq> word_runes \<and>
     byte (hd c) \<in> letters_digits \<and> byte (last c) \<in> letters_digits"

definition label_text :: "string \<Rightarrow> bool" where
  "label_text l \<longleftrightarrow> l \<noteq> [] \<and> set (runes l) \<subseteq> word_runes - {46} \<and> hd l \<noteq> CHR ''-'' \<and> last l \<noteq> CHR ''-''"

definition host_text :: "string \<Rightarrow> bool" where
  "host_text h \<longleftrightarrow> length h \<le> 253 \<and> (\<exists>ls. ls \<noteq> [] \<and> list_all label_text ls \<and> h = join_with ''.'' ls)"

definition host_port :: "string \<Rightarrow> bool" where
  "host_port s \<longleftrightarrow> (\<exists>h p. s = h @ CHR '':'' # p \<and> host_text h \<and> port_text p)"

definition name_text :: "string \<Rightarrow> bool" where
  "name_text n \<longleftrightarrow> (\<exists>first rest. n = join_with ''/'' (first # rest) \<and> list_all component_text rest \<and>
     (host_port first \<or> (if rest \<noteq> [] \<and> CHR ''.'' \<in> set first then host_text first else component_text first))) \<and>
     (\<forall>a b. n \<noteq> a @ ''..'' @ b)"

inductive image_ref :: "string \<Rightarrow> bool" where
  with_digest: "name_text n \<Longrightarrow> alg \<in> {''sha256'', ''sha512'', ''sha1''} \<Longrightarrow> hash \<noteq> [] \<Longrightarrow>
    set hash \<inter> {CHR ''@'', CHR '' '', CHR 0x09, CHR 0x0A, CHR 0x0D} = {} \<Longrightarrow> image_ref (n @ ''@'' @ alg @ '':'' @ hash)"
| with_tag: "name_text n \<Longrightarrow> t = [] \<or> tag_text t \<Longrightarrow> \<not> (CHR ''/'' \<notin> set n \<and> port_text t) \<Longrightarrow> image_ref (n @ '':'' @ t)"
| alone: "name_text n \<Longrightarrow> CHR '':'' \<notin> set n \<or> CHR ''/'' \<notin> set n \<Longrightarrow> image_ref n"

lemma alnum_iff: "isAlphaNumeric r \<longleftrightarrow> r \<in> letters_digits"
  by (auto simp: isAlphaNumeric_def letters_digits_def)

lemma name_rune_iff: "name_rune r \<longleftrightarrow> r \<in> word_runes"
  by (auto simp: name_rune_def word_runes_def alnum_iff)

lemma port_text_iff: "isLikelyPort s \<longleftrightarrow> port_text s" "isValidPort s \<longleftrightarrow> port_text s"
  by (auto simp: isLikelyPort_def isValidPort_def port_text_def list_all_iff digit_rune_def)

lemma tag_text_iff: "isValidTag t \<longleftrightarrow> tag_text t"
  by (auto simp: isValidTag_def tag_text_def list_all_iff name_rune_iff)

lemma component_text_iff: "isValidRepositoryComponent c \<longleftrightarrow> component_text c"
  by (auto simp: isValidRepositoryComponent_def component_text_def list_all_iff name_rune_iff alnum_iff)

text \<open>An ASCII character ends the rune before it.\<close>

lemma decode_rune_stop: "byte c < 128 \<Longrightarrow> decode_rune (d # cs @ c # b) = decode_rune (d # cs)"
  by (cases cs; cases "tl cs"; cases "tl (tl cs)") (auto simp: decode_rune.simps Let_def is_cont_def second_ok_def split: list.splits)

lemma decode_rune_width: "snd (decode_rune (d # cs)) - 1 \<le> length cs"
  by (auto simp: decode_rune.simps Let_def split: list.splits)

lemma segments_stop: "byte c < 128 \<Longrightarrow> segments (a @ c # b) = segments a @ segments (c # b)"
proof (induction a rule: segments.induct)
  case (2 d cs)
  let ?w = "snd (decode_rune (d # cs)) - 1"
  have "?w \<le> length cs" by (rule decode_rune_width)
  moreover have "segments (drop ?w cs @ c # b) = segments (drop ?w cs) @ segments (c # b)" using 2 by simp
  ultimately show ?case by (simp add: segments.simps(2) decode_rune_stop[OF 2(2)] Let_def)
qed (simp add: segments.simps)

lemma runes_stop: "byte c < 128 \<Longrightarrow> runes (a @ c # b) = runes a @ byte c # runes b"
  by (simp add: runes_def segments_stop) (simp add: segments.simps(2) decode_rune_ascii)

lemma runes_join: "byte c < 128 \<Longrightarrow> set (runes (join_with [c] ps)) \<subseteq> insert (byte c) (\<Union>p \<in> set ps. set (runes p))"
proof (induction "[c]" ps rule: join_with.induct)
  case (3 p q ps)
  then show ?case by (auto simp: runes_stop)
qed (auto simp: runes_def segments.simps)

lemma word_char:
  assumes "set (runes s) \<subseteq> A" "c \<in> set s" "byte c < 128" shows "byte c \<in> A"
  using ascii_char_is_rune[OF assms(2,3)] assms(1) by blast

lemma rune_hyphen: "decode_rune (c # cs) = (45, n) \<Longrightarrow> c = CHR ''-''"
proof -
  assume d: "decode_rune (c # cs) = (45, n)"
  have "byte c < 128"
  proof (rule ccontr)
    assume "\<not> byte c < 128"
    with d show False
      by (auto simp: decode_rune.simps Let_def rune_error_def is_cont_def second_ok_def split: list.splits if_splits)
  qed
  with d have "byte c = 45" by (simp add: decode_rune_ascii)
  then have "char_of (byte c) = (char_of (45 :: nat) :: char)" by simp
  then show ?thesis by (simp add: char_of_eq_iff)
qed

text \<open>A hyphen at the offset of the first or the last byte is the first or the last character.\<close>

lemma offset_hyphen:
  "(i, 45) \<in> set (offsets k (segments s)) \<Longrightarrow> \<exists>u v. s = u @ CHR ''-'' # v \<and> i = k + length u"
proof (induction s arbitrary: k rule: segments.induct)
  case (2 c cs)
  let ?w = "snd (decode_rune (c # cs)) - 1"
  have s: "segments (c # cs) = (fst (decode_rune (c # cs)), c # take ?w cs) # segments (drop ?w cs)"
    by (simp add: segments.simps(2) Let_def)
  from 2(2) consider "i = k" "fst (decode_rune (c # cs)) = 45"
    | "(i, 45) \<in> set (offsets (k + Suc (length (take ?w cs))) (segments (drop ?w cs)))" by (auto simp: s)
  then show ?case
  proof cases
    case 1
    then have "c = CHR ''-''" by (intro rune_hyphen[of c cs "snd (decode_rune (c # cs))"]) (simp add: prod_eq_iff)
    with 1 show ?thesis by (intro exI[of _ "[]"] exI[of _ cs]) simp
  next
    case b: 2
    from "2.IH"[OF refl b] obtain u v where "drop ?w cs = u @ CHR ''-'' # v" "i = k + Suc (length (take ?w cs)) + length u" by blast
    moreover have "c # cs = c # take ?w cs @ drop ?w cs" by simp
    ultimately show ?thesis by (intro exI[of _ "c # take ?w cs @ u"] exI[of _ v]) simp
  qed
qed (simp add: segments.simps)

lemma offsets_runes: "snd ` set (offsets k ss) = fst ` set ss"
  by (induction k ss rule: offsets.induct) auto

lemma label_text_iff: "domain_part_ok l \<longleftrightarrow> label_text l"
proof -
  have hy: "\<not> (i = 0 \<or> i = length l - 1)" if "(i, 45) \<in> set (offsets 0 (segments l))" "hd l \<noteq> CHR ''-''" "last l \<noteq> CHR ''-''" for i
  proof -
    from offset_hyphen[OF that(1)] obtain u v where l: "l = u @ CHR ''-'' # v" "i = length u" by auto
    with that(2,3) show ?thesis by (cases u; cases v) auto
  qed
  have al: "isAlphaNumeric (r mod 256) \<or> r \<in> {45, 95} \<longleftrightarrow> r \<in> word_runes - {46}" for r
    by (auto simp: word_runes_def alnum_iff letters_digits_def)
  have "set (runes l) = snd ` set (offsets 0 (segments l))" by (simp add: offsets_runes runes_def)
  then have r: "set (runes l) \<subseteq> word_runes - {46} \<longleftrightarrow> (\<forall>(i, r) \<in> set (offsets 0 (segments l)). r \<in> word_runes - {46})" by auto
  show ?thesis
    unfolding domain_part_ok_def label_text_def r al list_all_iff using hy by blast
qed

lemma label_no_dot: "label_text l \<Longrightarrow> CHR ''.'' \<notin> set l"
  using word_char[of l "word_runes - {46}" "CHR ''.''"] by (auto simp: label_text_def)

lemma host_text_iff: "isValidRegistryName h \<longleftrightarrow> host_text h"
proof
  assume v: "isValidRegistryName h"
  then have "list_all label_text (split_on CHR ''.'' h)" by (simp add: isValidRegistryName_def label_text_iff[abs_def])
  with v show "host_text h"
    unfolding host_text_def by (intro conjI exI[of _ "split_on CHR ''.'' h"]) (simp_all add: isValidRegistryName_def)
next
  assume "host_text h"
  then obtain ls where h: "length h \<le> 253" "ls \<noteq> []" "list_all label_text ls" "h = join_with ''.'' ls" by (auto simp: host_text_def)
  then have ne: "\<forall>l \<in> set ls. label_text l \<and> l \<noteq> [] \<and> CHR ''.'' \<notin> set l"
    using label_no_dot by (auto simp: list_all_iff) (auto simp: label_text_def)
  with h(2) have sp: "split_on CHR ''.'' h = ls" by (simp add: h(4) split_on_join)
  have "set (runes h) \<subseteq> insert 46 (\<Union>l \<in> set ls. set (runes l))" using runes_join[of "CHR ''.''" ls] by (simp add: h(4))
  then have "set (runes h) \<subseteq> word_runes" using ne by (fastforce simp: label_text_def word_runes_def)
  moreover have "h \<noteq> [] \<and> hd h \<notin> {CHR ''-'', CHR ''.''}"
  proof -
    obtain l ls' where l: "ls = l # ls'" using h(2) by (cases ls) auto
    then have "h = l \<or> h = l @ CHR ''.'' # join_with ''.'' ls'" by (cases ls') (simp_all add: h(4))
    moreover have "l \<noteq> []" "hd l \<noteq> CHR ''-''" using ne l by (auto simp: label_text_def)
    moreover have "hd l \<noteq> CHR ''.''" using ne l hd_in_set[of l] by force
    ultimately show ?thesis by auto
  qed
  moreover have "last h \<notin> {CHR ''-'', CHR ''.''}"
  proof -
    obtain l ls' where l: "ls = ls' @ [l]" using h(2) by (cases ls rule: rev_cases) auto
    then have "h = l \<or> h = join_with ''.'' ls' @ CHR ''.'' # l" by (cases "ls' = []") (simp_all add: h(4) join_with_snoc)
    moreover have "l \<noteq> []" "last l \<noteq> CHR ''-''" using ne l by (auto simp: label_text_def)
    moreover have "last l \<noteq> CHR ''.''" using ne l last_in_set[of l] by force
    ultimately show ?thesis by auto
  qed
  ultimately show "isValidRegistryName h"
    using h(1) ne by (auto simp: isValidRegistryName_def sp label_text_iff[abs_def] list_all_iff name_rune_iff)
qed

text \<open>Which characters the parts of a reference do not have.\<close>

lemma word_no: "set (runes s) \<subseteq> word_runes \<Longrightarrow> set s \<inter> {CHR ''/'', CHR '':'', CHR ''@'', CHR '' '', CHR 0x09, CHR 0x0A, CHR 0x0D} = {}"
  using word_char[of s word_runes] by (fastforce simp: word_runes_def letters_digits_def)

lemma component_no: "component_text s \<Longrightarrow> set s \<inter> {CHR ''/'', CHR '':'', CHR ''@'', CHR '' '', CHR 0x09, CHR 0x0A, CHR 0x0D} = {}"
  by (intro word_no) (simp add: component_text_def)

lemma tag_no: "tag_text s \<Longrightarrow> set s \<inter> {CHR ''/'', CHR '':'', CHR ''@'', CHR '' '', CHR 0x09, CHR 0x0A, CHR 0x0D} = {}"
  by (intro word_no) (simp add: tag_text_def)

lemma host_no: "host_text s \<Longrightarrow> set s \<inter> {CHR ''/'', CHR '':'', CHR ''@'', CHR '' '', CHR 0x09, CHR 0x0A, CHR 0x0D} = {}"
  by (intro word_no) (auto simp: host_text_iff[symmetric] isValidRegistryName_def list_all_iff name_rune_iff)

lemma port_no: "port_text s \<Longrightarrow> set s \<inter> {CHR ''/'', CHR '':'', CHR ''@'', CHR '' '', CHR 0x09, CHR 0x0A, CHR 0x0D} = {}"
  by (intro word_no) (auto simp: port_text_def word_runes_def letters_digits_def)

lemmas no_chars = component_no tag_no host_no port_no

lemma parts_ok_rest: "list_all (\<lambda>(i, part). part_ok n i part) (enumerate (Suc k) ps) \<longleftrightarrow> list_all component_text ps"
proof (induction ps arbitrary: k)
  case (Cons p ps)
  have "part_ok n (Suc k) p \<longleftrightarrow> component_text p"
    by (auto simp: part_ok_def component_text_iff) (simp add: component_text_def)
  with Cons show ?case by simp
qed simp

lemma first_part_ok:
  "part_ok (Suc (length rest)) 0 f \<longleftrightarrow>
     host_port f \<or> (if rest \<noteq> [] \<and> CHR ''.'' \<in> set f then host_text f else component_text f)"
proof (cases "CHR '':'' \<in> set f")
  case True
  have "part_ok (Suc (length rest)) 0 f \<longleftrightarrow> host_port f"
  proof
    assume "part_ok (Suc (length rest)) 0 f"
    then obtain h p where "split_on CHR '':'' f = [h, p]" "host_text h" "port_text p"
      using True by (auto simp: part_ok_def contains_single host_text_iff port_text_iff split: list.splits)
    then show "host_port f" by (auto simp: host_port_def split_two)
  next
    assume "host_port f"
    then obtain h p where f: "f = h @ CHR '':'' # p" "host_text h" "port_text p" by (auto simp: host_port_def)
    with no_chars(3)[of h] no_chars(4)[of p] have "split_on CHR '':'' f = [h, p]" by (auto simp: split_two)
    with f show "part_ok (Suc (length rest)) 0 f"
      by (auto simp: part_ok_def contains_single host_text_iff port_text_iff)
  qed
  with True component_no[of f] host_no[of f] show ?thesis by auto
next
  case False
  then have "\<not> host_port f" by (auto simp: host_port_def)
  moreover have "f \<noteq> []" if "host_text f \<or> component_text f"
    using that by (auto simp: host_text_iff[symmetric] isValidRegistryName_def component_text_def)
  ultimately show ?thesis
    using False by (auto simp: part_ok_def contains_single host_text_iff component_text_iff)
qed

lemma name_text_iff: "image_name_ok n \<longleftrightarrow> name_text n"
proof
  assume i: "image_name_ok n"
  obtain f rest where sp: "split_on CHR ''/'' n = f # rest" by (cases "split_on CHR ''/'' n") auto
  then have "n = join_with ''/'' (f # rest)" by (metis join_split)
  moreover have "part_ok (Suc (length rest)) 0 f" "list_all component_text rest"
    using i by (simp_all add: image_name_ok_def parts_ok_def sp parts_ok_rest)
  moreover have "\<forall>a b. n \<noteq> a @ ''..'' @ b" using i by (simp add: image_name_ok_def contains_iff_append)
  ultimately show "name_text n" unfolding name_text_def first_part_ok by blast
next
  assume "name_text n"
  then obtain f rest where n: "n = join_with ''/'' (f # rest)" "list_all component_text rest" "part_ok (Suc (length rest)) 0 f"
    and dots: "\<forall>a b. n \<noteq> a @ ''..'' @ b" unfolding name_text_def first_part_ok by blast
  have "CHR ''/'' \<notin> set f"
  proof (cases "host_port f")
    case True
    then obtain h p where "f = h @ CHR '':'' # p" "host_text h" "port_text p" by (auto simp: host_port_def)
    with host_no[of h] port_no[of p] show ?thesis by simp
  next
    case False
    with n(3) have "host_text f \<or> component_text f" unfolding first_part_ok by (auto split: if_splits)
    with host_no[of f] component_no[of f] show ?thesis by blast
  qed
  then have sp: "split_on CHR ''/'' n = f # rest"
    using n(2) component_no by (auto simp: n(1) list_all_iff intro!: split_on_join)
  have ne: "[] \<notin> set (f # rest)" using n(2,3) by (auto simp: list_all_iff component_text_def part_ok_def)
  have "\<not> contains n ''//''"
  proof
    assume "contains n ''//''"
    then obtain a b where "n = a @ CHR ''/'' # (CHR ''/'' # b)" by (auto simp: contains_iff_append)
    then have "split_on CHR ''/'' n = split_on CHR ''/'' a @ [] # split_on CHR ''/'' b"
      using split_on_append[of "CHR ''/''" a "CHR ''/'' # b"] by simp
    with sp ne show False by (metis in_set_conv_decomp)
  qed
  moreover have "n \<noteq> []" using ne sp by auto
  ultimately show "image_name_ok n"
    using n(2,3) dots by (simp add: image_name_ok_def parts_ok_def sp parts_ok_rest contains_iff_append)
qed

lemma name_no: "name_text n \<Longrightarrow> set n \<inter> {CHR ''@'', CHR '' '', CHR 0x09, CHR 0x0A, CHR 0x0D} = {}"
proof -
  assume "name_text n"
  then obtain f rest where n: "n = join_with ''/'' (f # rest)" "list_all component_text rest"
    "host_port f \<or> (if rest \<noteq> [] \<and> CHR ''.'' \<in> set f then host_text f else component_text f)" unfolding name_text_def by blast
  define B where "B = {CHR ''@'', CHR '' '', CHR 0x09, CHR 0x0A, CHR 0x0D}"
  have part: "set c \<inter> B = {}" if "component_text c \<or> host_text c \<or> port_text c" for c
    using that component_no[of c] host_no[of c] port_no[of c] by (auto simp: B_def)
  have "set f \<inter> B = {}"
  proof (cases "host_port f")
    case True
    then obtain h p where "f = h @ CHR '':'' # p" "host_text h" "port_text p" by (auto simp: host_port_def)
    with part[of h] part[of p] show ?thesis by (simp add: Int_Un_distrib2) (simp add: B_def)
  next
    case False
    with n(3) have "host_text f \<or> component_text f" by (auto split: if_splits)
    with part[of f] show ?thesis by blast
  qed
  moreover have "set c \<inter> B = {}" if "c \<in> set rest" for c
    using n(2) that part[of c] by (simp add: list_all_iff)
  moreover have "set n \<subseteq> {CHR ''/''} \<union> (\<Union>c \<in> set (f # rest). set c)"
    using set_join_with[of "''/''" "f # rest"] unfolding n(1) by simp
  moreover have "CHR ''/'' \<notin> B" by (simp add: B_def)
  ultimately have "set n \<inter> B = {}" by (simp add: set_eq_iff subset_iff) blast
  then show ?thesis unfolding B_def .
qed

definition image_text :: "image_uri \<Rightarrow> string" where
  "image_text u =
     (if iu_Digest u = [] then iu_Repository u @ '':'' @ iu_Tag u else iu_Repository u @ ''@'' @ iu_Digest u)"

definition canonical :: "image_uri \<Rightarrow> bool" where
  "canonical u \<longleftrightarrow>
     CHR ''@'' \<notin> set (iu_Tag u @ iu_Digest u) \<and> \<not> contains (image_text u) ''://''
     \<and> (if iu_Digest u = []
        then CHR ''@'' \<notin> set (iu_Repository u) \<and> CHR '':'' \<notin> set (iu_Tag u) \<and> CHR ''/'' \<notin> set (iu_Tag u)
        else iu_Tag u = [])"

text \<open>
  C40.  Parsing inverts printing: a canonical image, with a tag or with a digest, is read back from its text with the same
  repository, tag and digest, whatever ports and slashes the repository has.  Canonical means that the text has no scheme
  separator, that tag and digest have no at sign, that a tagged image has no at sign in its repository and neither colon nor slash
  in its tag, and that an image with a digest has no tag.
\<close>

theorem ParseImageURI_roundtrip:
  assumes "canonical u"
  shows "ParseImageURI (image_text u) = Inr u"
proof (cases "iu_Digest u = []")
  case True
  let ?s = "iu_Repository u @ CHR '':'' # iu_Tag u"
  have c: "CHR '':'' \<notin> set (iu_Tag u)" "\<not> contains (iu_Tag u) ''/''" "last_index ?s CHR ''@'' = None"
    and n: "\<not> contains ?s ''://''"
    using assms True by (auto simp: canonical_def contains_single last_index_None image_text_def)
  have "last_index ?s CHR '':'' = Some (length (iu_Repository u))" using c(1) by (rule last_index_split)
  with c n True show ?thesis by (simp add: ParseImageURI_def image_text_def)
next
  case False
  let ?s = "iu_Repository u @ CHR ''@'' # iu_Digest u"
  have c: "CHR ''@'' \<notin> set (iu_Digest u)" "iu_Tag u = []" "\<not> contains ?s ''://''"
    using assms False by (auto simp: canonical_def image_text_def)
  have "last_index ?s CHR ''@'' = Some (length (iu_Repository u))" using c(1) by (rule last_index_split)
  with c False show ?thesis by (simp add: ParseImageURI_def image_text_def)
qed

lemma ParseImageURI_roundtrip_witness:
  "ParseImageURI ''localhost:5000/app:v1'' = Inr \<lparr>iu_Repository = ''localhost:5000/app'', iu_Tag = ''v1'', iu_Digest = []\<rparr>"
proof -
  have "canonical \<lparr>iu_Repository = ''localhost:5000/app'', iu_Tag = ''v1'', iu_Digest = []\<rparr>" by code_simp
  from ParseImageURI_roundtrip[OF this] show ?thesis by (simp add: image_text_def)
qed

text \<open>The three forms are the three rules of the grammar.\<close>

lemma digest_reference_iff:
  "blank_free s \<and> digest_reference s \<longleftrightarrow> (\<exists>n alg hash. s = n @ ''@'' @ alg @ '':'' @ hash \<and> name_text n \<and>
     alg \<in> {''sha256'', ''sha512'', ''sha1''} \<and> hash \<noteq> [] \<and> set hash \<inter> {CHR ''@'', CHR '' '', CHR 0x09, CHR 0x0A, CHR 0x0D} = {})" (is "?L \<longleftrightarrow> ?R")
proof
  assume ?L
  then obtain n a h where s: "s = n @ CHR ''@'' # a @ CHR '':'' # h" "CHR ''@'' \<notin> set (n @ a @ h)" "a \<in> validAlgorithms" "h \<noteq> []"
    "name_text n" "blank_free s" by (auto simp: digest_reference_def digested_def name_text_iff)
  then show ?R by (simp add: validAlgorithms_def blank_free_def) blast
next
  assume ?R
  then obtain n a h where s: "s = n @ ''@'' @ a @ '':'' @ h" "name_text n" "a \<in> {''sha256'', ''sha512'', ''sha1''}" "h \<noteq> []"
    "set h \<inter> {CHR ''@'', CHR '' '', CHR 0x09, CHR 0x0A, CHR 0x0D} = {}" by (elim exE conjE) (rule that)
  have a: "set a \<inter> {CHR ''@'', CHR '' '', CHR 0x09, CHR 0x0A, CHR 0x0D} = {}" using s(3) by auto
  have "digested s n"
    unfolding digested_def by (rule exI[of _ a], rule exI[of _ h]) (use s name_no[OF s(2)] a in \<open>simp add: validAlgorithms_def\<close>)
  moreover have "blank_free s" using s(1,5) name_no[OF s(2)] a by (auto simp: blank_free_def)
  ultimately show ?L using s(2) by (auto simp: digest_reference_def name_text_iff)
qed

lemma name_with_port:
  assumes "name_text s" "CHR ''/'' \<notin> set s" "CHR '':'' \<in> set s" shows "host_port s"
proof -
  from assms(1) obtain f rest where n: "s = join_with ''/'' (f # rest)"
    "host_port f \<or> (if rest \<noteq> [] \<and> CHR ''.'' \<in> set f then host_text f else component_text f)" unfolding name_text_def by blast
  have "rest = []" using assms(2) n(1) by (cases rest) auto
  with n assms(3) component_no[of s] show ?thesis by auto
qed

lemma tag_referenceI:
  assumes "s = n @ CHR '':'' # t" "CHR ''@'' \<notin> set s" "CHR '':'' \<notin> set t"
    "if CHR ''/'' \<notin> set n \<and> port_text t then name_text s else name_text n \<and> (t = [] \<or> tag_text t)"
  shows "tag_reference s"
  using assms unfolding tag_reference_def name_text_iff port_text_iff tag_text_iff by blast

lemma other_reference_iff:
  "blank_free s \<and> (tag_reference s \<or> plain_reference s) \<longleftrightarrow>
     (\<exists>n t. s = n @ '':'' @ t \<and> name_text n \<and> (t = [] \<or> tag_text t) \<and> \<not> (CHR ''/'' \<notin> set n \<and> port_text t)) \<or>
     name_text s \<and> (CHR '':'' \<notin> set s \<or> CHR ''/'' \<notin> set s)" (is "?L \<longleftrightarrow> ?R")
proof
  assume l: ?L
  show ?R
  proof (cases "plain_reference s")
    case True
    then show ?thesis by (simp add: plain_reference_def name_text_iff)
  next
    case False
    with l obtain n t where s: "s = n @ CHR '':'' # t"
      "if CHR ''/'' \<notin> set n \<and> isLikelyPort t then image_name_ok s else image_name_ok n \<and> (t = [] \<or> isValidTag t)"
      unfolding tag_reference_def by blast
    show ?thesis
    proof (cases "CHR ''/'' \<notin> set n \<and> port_text t")
      case True
      then have "CHR ''/'' \<notin> set s" using s(1) port_no[of t] by auto
      with True s(2) show ?thesis by (simp add: name_text_iff port_text_iff)
    next
      case False
      with s(2) have "name_text n" "t = [] \<or> tag_text t" by (simp_all add: name_text_iff port_text_iff tag_text_iff)
      with s(1) False show ?thesis by (intro disjI1 exI[of _ n] exI[of _ t]) simp
    qed
  qed
next
  assume ?R
  then consider n t where "s = n @ '':'' @ t" "name_text n" "t = [] \<or> tag_text t" "\<not> (CHR ''/'' \<notin> set n \<and> port_text t)"
    | "name_text s" "CHR '':'' \<notin> set s" | "name_text s" "CHR ''/'' \<notin> set s" "CHR '':'' \<in> set s" by blast
  then show ?L
  proof cases
    case (1 n t)
    have t: "set t \<inter> {CHR ''/'', CHR '':'', CHR ''@'', CHR '' '', CHR 0x09, CHR 0x0A, CHR 0x0D} = {}"
      using 1(3) tag_no[of t] by auto
    then have "blank_free s" "CHR ''@'' \<notin> set s" "CHR '':'' \<notin> set t" using 1(1) name_no[OF 1(2)] by (auto simp: blank_free_def)
    moreover have "tag_reference s"
      by (rule tag_referenceI[of s n t]) (use 1 calculation in auto)
    ultimately show ?thesis by blast
  next
    case 2
    with name_no[OF 2(1)] show ?thesis by (auto simp: plain_reference_def name_text_iff blank_free_def)
  next
    case 3
    from name_with_port[OF 3] obtain h p where s: "s = h @ CHR '':'' # p" "host_text h" "port_text p" by (auto simp: host_port_def)
    then have "tag_reference s"
      by (intro tag_referenceI[of s h p]) (use 3(1,2) s(1,3) name_no[OF 3(1)] port_no[OF s(3)] in simp_all)
    moreover have "blank_free s" using name_no[OF 3(1)] by (auto simp: blank_free_def)
    ultimately show ?thesis by blast
  qed
qed

lemma image_ref_iff:
  "image_ref s \<longleftrightarrow> blank_free s \<and> (digest_reference s \<or> tag_reference s \<or> plain_reference s)"
proof -
  have "image_ref s \<longleftrightarrow> (blank_free s \<and> digest_reference s) \<or> (blank_free s \<and> (tag_reference s \<or> plain_reference s))"
    unfolding digest_reference_iff other_reference_iff by (subst image_ref.simps) blast
  then show ?thesis by blast
qed


section \<open>What the parser makes of an accepted text\<close>

lemma no_scheme:
  assumes "image_name_ok n" shows "\<not> contains n ''://''"
proof
  assume "contains n ''://''"
  then obtain a b where "n = (a @ '':'') @ ''//'' @ b" by (auto simp: contains_iff_append)
  then have "contains n ''//''" unfolding contains_iff_append by blast
  with assms show False by (simp add: image_name_ok_def)
qed

lemma no_scheme_tag:
  assumes "image_name_ok n" "CHR ''/'' \<notin> set t"
  shows "\<not> contains (n @ CHR '':'' # t) ''://''"
proof
  assume "contains (n @ CHR '':'' # t) ''://''"
  then obtain a b where e: "n @ CHR '':'' # t = a @ CHR '':'' # CHR ''/'' # CHR ''/'' # b"
    by (auto simp: contains_iff_append)
  then obtain us where "(n = a @ us \<and> us @ CHR '':'' # t = CHR '':'' # CHR ''/'' # CHR ''/'' # b)
      \<or> (n @ us = a \<and> CHR '':'' # t = us @ CHR '':'' # CHR ''/'' # CHR ''/'' # b)"
    by (auto simp: append_eq_append_conv2)
  moreover have False if "CHR '':'' # t = us @ CHR '':'' # CHR ''/'' # CHR ''/'' # b"
    using that assms(2) by (cases us) auto
  moreover have False if u: "us @ CHR '':'' # t = CHR '':'' # CHR ''/'' # CHR ''/'' # b" "n = a @ us"
  proof -
    from u(1) assms(2) have "CHR ''/'' \<notin> set t" by simp
    with u(1) obtain vs where "us = CHR '':'' # CHR ''/'' # CHR ''/'' # vs"
      by (cases us; cases "tl us"; cases "tl (tl us)") (auto simp: Cons_eq_append_conv)
    with u(2) have "contains n ''://''" unfolding contains_iff_append by fastforce
    with no_scheme[OF assms(1)] show False by blast
  qed
  ultimately show False by blast
qed

text \<open>
  The parser does not trim what the rule trims.  The white space that \<open>trim_space\<close> takes away has no visible ASCII character, so
  that it moves none of the separators.
\<close>

definition invisible :: "string \<Rightarrow> bool" where
  "invisible a \<longleftrightarrow> (\<forall>c \<in> set a. byte c < 33 \<or> 126 < byte c)"

lemma space_segment:
  assumes "(r, bs) \<in> set (segments s)" "is_space_rune r" shows "invisible bs"
  using assms
proof (induction s rule: segments.induct)
  case (2 c cs)
  let ?w = "snd (decode_rune (c # cs)) - 1"
  from 2(2) consider "r = fst (decode_rune (c # cs))" "bs = c # take ?w cs" | "(r, bs) \<in> set (segments (drop ?w cs))"
    by (auto simp: segments.simps(2) Let_def)
  then show ?case
  proof cases
    case 1
    obtain n where d: "decode_rune (c # cs) = (r, n)" using 1(1) by (cases "decode_rune (c # cs)") simp
    show ?thesis
    proof (cases "byte c < 128")
      case True
      with d have "decode_rune (c # cs) = (byte c, 1)" by (simp add: decode_rune_ascii)
      with 1 2(3) True show ?thesis by (auto simp: invisible_def is_space_rune_def)
    next
      case False
      then have "128 \<le> byte c" by simp
      with decode_rune_bytes[OF d] have "\<forall>x \<in> set (take (n - 1) cs). 128 \<le> byte x" by blast
      then have "128 \<le> byte x" if "x \<in> set bs" for x using that 1(2) d \<open>128 \<le> byte c\<close> by auto
      then show ?thesis unfolding invisible_def by fastforce
    qed
  qed (use 2 in simp)
qed (simp add: segments.simps)

lemma trim_space_parts: "\<exists>a b. v = a @ trim_space v @ b \<and> invisible a \<and> invisible b"
proof -
  let ?P = "\<lambda>x. is_space_rune (fst x)"
  let ?xs = "segments v" and ?bytes = "\<lambda>xs. concat (map snd xs) :: string"
  define ys where "ys = dropWhile ?P ?xs"
  have inv: "invisible (?bytes zs)" if "set zs \<subseteq> set ?xs" "\<forall>z \<in> set zs. ?P z" for zs
  proof -
    have "invisible (snd z)" if "z \<in> set zs" for z
      using space_segment[of "fst z" "snd z" v] that \<open>set zs \<subseteq> set ?xs\<close> \<open>\<forall>z \<in> set zs. ?P z\<close> by auto
    then show ?thesis by (auto simp: invisible_def)
  qed
  have "v = ?bytes (takeWhile ?P ?xs) @ ?bytes ys"
    unfolding ys_def map_append[symmetric] concat_append[symmetric] takeWhile_dropWhile_id concat_segments ..
  moreover have "ys = rev (dropWhile ?P (rev ys)) @ rev (takeWhile ?P (rev ys))"
    by (metis rev_append rev_rev_ident takeWhile_dropWhile_id)
  then have "?bytes ys = trim_space v @ ?bytes (rev (takeWhile ?P (rev ys)))"
    unfolding trim_space_def ys_def[symmetric] by (metis concat_append map_append)
  moreover have "invisible (?bytes (takeWhile ?P ?xs))" by (rule inv) (auto dest: set_takeWhileD)
  moreover have "invisible (?bytes (rev (takeWhile ?P (rev ys))))"
    by (rule inv) (auto simp: ys_def dest!: set_takeWhileD set_dropWhileD)
  ultimately show ?thesis by (metis append.assoc)
qed

text \<open>
  How the parser reads the reference \<open>s\<close> with \<open>a\<close> before and \<open>b\<close> behind it: the repository is what stands before the separator,
  the digest or tag what follows it, and \<open>latest\<close> stands for a missing tag.
\<close>

definition reads :: "string \<Rightarrow> string \<Rightarrow> string \<Rightarrow> goerr + image_uri \<Rightarrow> bool" where
  "reads a s b r \<longleftrightarrow>
     (\<exists>n d. s = n @ ''@'' @ d \<and> name_text n \<and> d \<noteq> [] \<and>
        r = (if \<exists>x y. d = x @ ''://'' @ y then Inl (ErrText (''invalid image URI format: '' @ a @ s @ b))
             else Inr \<lparr>iu_Repository = a @ n, iu_Tag = [], iu_Digest = d @ b\<rparr>)) \<or>
     (\<exists>n t. s = n @ '':'' @ t \<and> CHR ''@'' \<notin> set s \<and> n \<noteq> [] \<and> (t = [] \<or> tag_text t) \<and>
        r = Inr \<lparr>iu_Repository = a @ n, iu_Tag = t @ b, iu_Digest = []\<rparr>) \<or>
     (name_text s \<and> CHR ''@'' \<notin> set s \<and> CHR '':'' \<notin> set s \<and>
        r = Inr \<lparr>iu_Repository = a @ s @ b, iu_Tag = ''latest'', iu_Digest = []\<rparr>)"

lemma invisible_no: "invisible a \<Longrightarrow> CHR ''@'' \<notin> set a \<and> CHR '':'' \<notin> set a \<and> CHR ''/'' \<notin> set a"
  by (force simp: invisible_def)

text \<open>A text occurs in no other place when characters it does not have come before it, behind it or in between.\<close>

lemma contains_beside:
  assumes "set p \<inter> set a = {}" "p \<noteq> []"
  shows "contains (a @ x) p \<longleftrightarrow> contains x p" "contains (x @ a) p \<longleftrightarrow> contains x p"
proof -
  have no: "\<not> sublist p a"
  proof
    assume "sublist p a"
    then have "set p \<subseteq> set a" by (rule set_mono_sublist)
    with assms show False by (cases p) auto
  qed
  have "sublist p x" if p: "p = p1 @ p2" "suffix p1 a" "prefix p2 x" for p1 p2
  proof -
    from p(1) assms(1) set_mono_suffix[OF p(2)] have "p1 = []" by (cases p1) auto
    with p show ?thesis by (simp add: prefix_imp_sublist)
  qed
  then show "contains (a @ x) p \<longleftrightarrow> contains x p" unfolding contains_iff_sublist sublist_append using no by blast
  have "sublist p x" if p: "p = p1 @ p2" "suffix p1 x" "prefix p2 a" for p1 p2
  proof -
    from p(1) assms(1) set_mono_prefix[OF p(3)] have "p2 = []" by (cases p2) auto
    with p show ?thesis by (simp add: suffix_imp_sublist)
  qed
  then show "contains (x @ a) p \<longleftrightarrow> contains x p" unfolding contains_iff_sublist sublist_append using no by blast
qed

lemma contains_at_sep: "c \<notin> set p \<Longrightarrow> p \<noteq> [] \<Longrightarrow> contains (n @ c # d) p \<longleftrightarrow> contains n p \<or> contains d p"
proof -
  assume c: "c \<notin> set p" "p \<noteq> []"
  have "sublist p n" if p: "p = p1 @ p2" "prefix p2 (c # d)" "suffix p1 n" for p1 p2
  proof -
    from p(1,2) c(1) have "p2 = []" by (cases p2) auto
    with p show ?thesis by (simp add: suffix_imp_sublist)
  qed
  moreover have "contains (c # d) p \<longleftrightarrow> contains d p" using contains_beside(1)[of p "[c]" d] c by simp
  ultimately show ?thesis unfolding contains_iff_sublist sublist_append by blast
qed

lemma scheme_padded:
  assumes "invisible a" "invisible b" shows "contains (a @ s @ b) ''://'' \<longleftrightarrow> contains s ''://''"
  using contains_beside[of "''://''"] invisible_no[OF assms(1)] invisible_no[OF assms(2)] by simp

lemma name_not_Nil: "name_text n \<Longrightarrow> n \<noteq> []"
  using image_name_not_Nil by (simp add: name_text_iff)



text \<open>
  Two forms of the documented format \<open>[registry[:port]/]namespace/name[:tag|@digest]\<close> that
  the rule refuses or that fall outside it: an image of a registry with a port and no tag is refused,
  because what follows the last colon is taken for the tag.
\<close>

theorem registry_port_needs_tag:
  assumes "trim_space v = host @ '':'' @ port @ ''/'' @ rest"
    and "CHR '':'' \<notin> set (port @ rest)" "CHR ''@'' \<notin> set (host @ port @ rest)"
  shows "\<not> validateImageURI (Some v)"
proof
  let ?s = "host @ CHR '':'' # port @ CHR ''/'' # rest" and ?t = "port @ CHR ''/'' # rest"
  have s: "trim_space v = ?s" using assms(1) by simp
  assume "validateImageURI (Some v)"
  then have "digest_reference ?s \<or> tag_reference ?s \<or> plain_reference ?s"
    unfolding valid_image_iff s by blast
  moreover have "CHR ''@'' \<notin> set ?s" using assms(3) by simp
  then have "\<not> digest_reference ?s" unfolding digest_reference_def digested_def by (metis in_set_conv_decomp)
  moreover have "\<not> plain_reference ?s" by (simp add: plain_reference_def)
  ultimately obtain n t where t: "?s = n @ CHR '':'' # t" "CHR '':'' \<notin> set t"
    "if CHR ''/'' \<notin> set n \<and> isLikelyPort t then image_name_ok ?s else image_name_ok n \<and> (t = [] \<or> isValidTag t)"
    unfolding tag_reference_def by blast
  have "last_index ?s CHR '':'' = Some (length n)" unfolding t(1) using t(2) by (rule last_index_split)
  moreover have "last_index ?s CHR '':'' = Some (length host)"
    by (rule last_index_split) (use assms(2) in simp)
  ultimately have "length n = length host" by simp
  with t(1) have "t = ?t" by simp
  then have "CHR ''/'' \<in> set t" by simp
  with t(3) not_port[of "CHR ''/''" t] valid_tag_chars[of t "CHR ''/''"] show False by (auto split: if_splits)
qed

lemma registry_port_needs_tag_witness:
  "\<not> validateImageURI (Some ''localhost:5000/app'') \<and> \<not> is_err (ParseImageURI ''localhost:5000/app'')"
proof -
  have "trim_space ''localhost:5000/app'' = ''localhost'' @ '':'' @ ''5000'' @ ''/'' @ ''app''"
    by (subst trim_space_ascii) (simp_all add: ascii_def is_space_rune_def)
  from registry_port_needs_tag[OF this] have "\<not> validateImageURI (Some ''localhost:5000/app'')" by simp
  moreover have "\<not> is_err (ParseImageURI ''localhost:5000/app'')"
    by (simp add: ParseImageURI_def contains_def last_index_def)
  ultimately show ?thesis by blast
qed

end
