(* ===== verification/K8sDomain.thy ===== *)
theory K8sDomain
  imports Errors "HOL-Library.AList"
begin

text \<open>
  The conversions of internal/core/domain from the SDK's structs to those of the Kubernetes API:
  container.go, volume.go, metadata.go and urls.go.  A field that is a pointer in the API is an
  \<open>option\<close>; a Go map is an association list with distinct keys.  A \<open>float64\<close> that carries an integer is that integer; \<open>to_float64\<close>
  rounds to the 53 bits of its significand.
\<close>

section \<open>Numbers\<close>

fun excess_bits :: "nat \<Rightarrow> nat" where
  "excess_bits m = (if m < 2 ^ 53 then 0 else Suc (excess_bits (m div 2)))"

declare excess_bits.simps [simp del]

definition round_even :: "nat \<Rightarrow> nat \<Rightarrow> nat" where
  "round_even m e =
     (let q = m div 2 ^ e; r = 2 * (m mod 2 ^ e) in
      (if r > 2 ^ e \<or> (r = 2 ^ e \<and> odd q) then q + 1 else q) * 2 ^ e)"

definition to_float64 :: "int \<Rightarrow> int" where
  "to_float64 n = (let m = nat \<bar>n\<bar> in sgn n * int (round_even m (excess_bits m)))"

definition exact :: "int \<Rightarrow> bool" where
  "exact n \<longleftrightarrow> \<bar>n\<bar> < 2 ^ 53"

lemma to_float64_exact: "exact n \<Longrightarrow> to_float64 n = n"
proof -
  assume "exact n"
  then have "nat \<bar>n\<bar> < 2 ^ 53" by (simp add: exact_def nat_less_iff)
  then have "excess_bits (nat \<bar>n\<bar>) = 0" by (simp add: excess_bits.simps)
  then show ?thesis by (simp add: to_float64_def round_even_def Let_def sgn_if)
qed

section \<open>Containers\<close>

record container_port =
  cpt_Name :: string
  cpt_Protocol :: string
  cpt_ContainerPort :: int

record env_var =
  ev_Name :: string
  ev_Value :: string

record resources =
  rs_Limits :: "(string \<times> string) list"
  rs_Requests :: "(string \<times> string) list"

record volume_mount =
  vm_Name :: string
  vm_MountPath :: string
  vm_ReadOnly :: bool

record container =
  ct_Name :: string
  ct_Image :: string
  ct_ImagePullPolicy :: string
  ct_Ports :: "container_port list"
  ct_Env :: "env_var list"
  ct_Resources :: "resources option"
  ct_Command :: "string list"
  ct_Args :: "string list"
  ct_VolumeMounts :: "volume_mount list"
  ct_UserID :: int
  ct_GroupID :: int

text \<open>The structs of the API the converter fills; fields it leaves nil are left out.\<close>

datatype quantity = Quantity_FromString string

record k8s_container_port =
  kp_Name :: "string option"
  kp_ContainerPort :: "int option"
  kp_Protocol :: "string option"

record k8s_env_var =
  ke_Name :: "string option"
  ke_Value :: "string option"

record k8s_volume_mount =
  km_Name :: "string option"
  km_MountPath :: "string option"
  km_ReadOnly :: "bool option"

record k8s_resources =
  kr_Limits :: "(string \<times> quantity) list option"
  kr_Requests :: "(string \<times> quantity) list option"

record k8s_security_context =
  ks_RunAsUser :: "int option"
  ks_RunAsGroup :: "int option"
  ks_RunAsNonRoot :: "bool option"

record k8s_container =
  kc_Name :: "string option"
  kc_Image :: "string option"
  kc_ImagePullPolicy :: "string option"
  kc_Command :: "string option list option"
  kc_Args :: "string option list option"
  kc_Ports :: "k8s_container_port list option"
  kc_Env :: "k8s_env_var list option"
  kc_VolumeMounts :: "k8s_volume_mount list option"
  kc_Resources :: "k8s_resources option"
  kc_SecurityContext :: k8s_security_context

definition ConvertResourceMap :: "(string \<times> string) list \<Rightarrow> (string \<times> quantity) list option" where
  "ConvertResourceMap m = (if m = [] then None else Some (map (\<lambda>(k, v). (k, Quantity_FromString v)) m))"

definition convert_port :: "container_port \<Rightarrow> k8s_container_port" where
  "convert_port p =
     \<lparr>kp_Name = Some (cpt_Name p), kp_ContainerPort = Some (to_float64 (cpt_ContainerPort p)),
       kp_Protocol = Some (cpt_Protocol p)\<rparr>"

definition convert_env :: "env_var \<Rightarrow> k8s_env_var" where
  "convert_env e = \<lparr>ke_Name = Some (ev_Name e), ke_Value = Some (ev_Value e)\<rparr>"

definition convert_mount :: "volume_mount \<Rightarrow> k8s_volume_mount" where
  "convert_mount m =
     \<lparr>km_Name = Some (vm_Name m), km_MountPath = Some (vm_MountPath m), km_ReadOnly = Some (vm_ReadOnly m)\<rparr>"

definition convert_container :: "container \<Rightarrow> k8s_container" where
  "convert_container c =
     \<lparr>kc_Name = Some (ct_Name c), kc_Image = Some (ct_Image c),
       kc_ImagePullPolicy = (if ct_ImagePullPolicy c \<noteq> [] then Some (ct_ImagePullPolicy c) else None),
       kc_Command = (if 0 < length (ct_Command c) then PtrSlice (Some (ct_Command c)) else None),
       kc_Args = (if 0 < length (ct_Args c) then PtrSlice (Some (ct_Args c)) else None),
       kc_Ports = (if 0 < length (ct_Ports c) then Some (map convert_port (ct_Ports c)) else None),
       kc_Env = (if 0 < length (ct_Env c) then Some (map convert_env (ct_Env c)) else None),
       kc_VolumeMounts = (if 0 < length (ct_VolumeMounts c) then Some (map convert_mount (ct_VolumeMounts c)) else None),
       kc_Resources = map_option (\<lambda>r. \<lparr>kr_Limits = ConvertResourceMap (rs_Limits r),
           kr_Requests = ConvertResourceMap (rs_Requests r)\<rparr>) (ct_Resources c),
       kc_SecurityContext = \<lparr>ks_RunAsUser = Some (to_float64 (ct_UserID c)),
           ks_RunAsGroup = Some (to_float64 (ct_GroupID c)), ks_RunAsNonRoot = Some True\<rparr>\<rparr>"

text \<open>A nil container in the list is a nil dereference: the outer \<open>None\<close>.\<close>

definition ConvertContainers :: "container option list \<Rightarrow> k8s_container list option option" where
  "ConvertContainers containers =
     (if containers = [] then Some None
      else map_option Some (those (map (map_option convert_container) containers)))"

section \<open>Volumes\<close>

record volume =
  vo_Name :: string
  vo_ConfigMapRef :: string

record k8s_volume =
  kv_Name :: "string option"
  kv_ConfigMap :: "string option"

definition convert_volume :: "volume \<Rightarrow> k8s_volume" where
  "convert_volume v =
     (if vo_ConfigMapRef v \<noteq> [] then \<lparr>kv_Name = Some (vo_Name v), kv_ConfigMap = Some (vo_ConfigMapRef v)\<rparr>
      else \<lparr>kv_Name = Some (vo_Name v), kv_ConfigMap = None\<rparr>)"

definition ConvertVolumes :: "volume option list \<Rightarrow> k8s_volume list option option" where
  "ConvertVolumes volumes =
     (if volumes = [] then Some None
      else map_option Some (those (map (map_option convert_volume) volumes)))"

section \<open>Metadata\<close>

type_synonym labels = "(string \<times> string) list"

record metadata_props =
  mp_ExtraLabels :: "labels option"
  mp_ExtraAnnotations :: "labels option"
  mp_Namespace :: string
  mp_ResourceName :: string
  mp_AppName :: string
  mp_AppInstance :: string

record object_meta =
  om_Name :: "string option"
  om_Namespace :: "string option"
  om_Labels :: "(string \<times> string option) list option"
  om_Annotations :: "(string \<times> string option) list option"

text \<open>
  The rule \<open>required\<close> of the validator: the fields without a value.  What error the validator makes
  of them is the parameter \<open>verr\<close>.
\<close>

type_synonym validator_error = "string list \<Rightarrow> goerr"

definition missing :: "(string \<times> string) list \<Rightarrow> string list" where
  "missing fs = map fst (filter (\<lambda>f. snd f = []) fs)"

definition NewMetadataFactory :: "validator_error \<Rightarrow> metadata_props \<Rightarrow> goerr + metadata_props" where
  "NewMetadataFactory verr props =
     (case missing [(''Namespace'', mp_Namespace props), (''ResourceName'', mp_ResourceName props),
            (''AppName'', mp_AppName props), (''AppInstance'', mp_AppInstance props)] of
        [] \<Rightarrow> Inr props
      | fs \<Rightarrow> Inl (the (Wrapf (Some (verr fs)) ''validating DefaultResourceMetadataProps'')))"

definition label_instance :: string where "label_instance = ''app.kubernetes.io/instance''"
definition label_name :: string where "label_name = ''app.kubernetes.io/name''"

definition defaultLabels :: "metadata_props \<Rightarrow> labels" where
  "defaultLabels f = [(label_instance, mp_AppInstance f), (label_name, mp_AppName f)]"

definition merge_labels :: "labels \<Rightarrow> labels \<Rightarrow> labels" where
  "merge_labels a b = fold (\<lambda>(k, v). AList.update k v) b a"

definition K8sResourceMetadata :: "metadata_props \<Rightarrow> object_meta" where
  "K8sResourceMetadata f =
     (let mergedLabels = merge_labels (defaultLabels f) (case mp_ExtraLabels f of None \<Rightarrow> [] | Some m \<Rightarrow> m);
          resourceName = (if mp_ResourceName f = [] then mp_AppInstance f else mp_ResourceName f)
      in \<lparr>om_Name = Some resourceName, om_Namespace = Some (mp_Namespace f),
          om_Labels = PtrMapping (Some mergedLabels), om_Annotations = PtrMapping (mp_ExtraAnnotations f)\<rparr>)"

definition SelectorLabels :: "metadata_props \<Rightarrow> (string \<times> string option) list option" where
  "SelectorLabels f = PtrMapping (Some (defaultLabels f))"

section \<open>Service addresses\<close>

definition ClusterLocalServiceURL :: "string \<Rightarrow> string \<Rightarrow> string \<Rightarrow> int \<Rightarrow> string" where
  "ClusterLocalServiceURL protocol serviceName namespace port =
     (if protocol \<noteq> [] then protocol @ ''://'' else [])
     @ serviceName @ ''.'' @ namespace @ ''.svc.cluster.local''
     @ (if port \<noteq> 0 then '':'' @ show_int port else [])"

section \<open>Nothing is lost in a conversion\<close>

text \<open>Reading a container of the API back.\<close>

definition the_map :: "(string \<times> quantity) list option \<Rightarrow> (string \<times> string) list" where
  "the_map m = (case m of None \<Rightarrow> [] | Some qs \<Rightarrow> map (\<lambda>(k, Quantity_FromString v) \<Rightarrow> (k, v)) qs)"

definition read_container :: "k8s_container \<Rightarrow> container" where
  "read_container k =
     \<lparr>ct_Name = FromPtr [] (kc_Name k), ct_Image = FromPtr [] (kc_Image k),
       ct_ImagePullPolicy = FromPtr [] (kc_ImagePullPolicy k),
       ct_Ports = map (\<lambda>p. \<lparr>cpt_Name = FromPtr [] (kp_Name p), cpt_Protocol = FromPtr [] (kp_Protocol p),
           cpt_ContainerPort = FromPtr 0 (kp_ContainerPort p)\<rparr>) (FromPtr [] (kc_Ports k)),
       ct_Env = map (\<lambda>e. \<lparr>ev_Name = FromPtr [] (ke_Name e), ev_Value = FromPtr [] (ke_Value e)\<rparr>) (FromPtr [] (kc_Env k)),
       ct_Resources = map_option (\<lambda>r. \<lparr>rs_Limits = the_map (kr_Limits r), rs_Requests = the_map (kr_Requests r)\<rparr>)
           (kc_Resources k),
       ct_Command = map (FromPtr []) (FromPtr [] (kc_Command k)),
       ct_Args = map (FromPtr []) (FromPtr [] (kc_Args k)),
       ct_VolumeMounts = map (\<lambda>m. \<lparr>vm_Name = FromPtr [] (km_Name m), vm_MountPath = FromPtr [] (km_MountPath m),
           vm_ReadOnly = FromPtr False (km_ReadOnly m)\<rparr>) (FromPtr [] (kc_VolumeMounts k)),
       ct_UserID = FromPtr 0 (ks_RunAsUser (kc_SecurityContext k)),
       ct_GroupID = FromPtr 0 (ks_RunAsGroup (kc_SecurityContext k))\<rparr>"

definition exact_numbers :: "container \<Rightarrow> bool" where
  "exact_numbers c \<longleftrightarrow> exact (ct_UserID c) \<and> exact (ct_GroupID c) \<and> list_all (\<lambda>p. exact (cpt_ContainerPort p)) (ct_Ports c)"

lemma the_map_Convert: "the_map (ConvertResourceMap m) = m"
  by (cases "m = []") (simp_all add: the_map_def ConvertResourceMap_def comp_def case_prod_unfold)

lemma read_convert_container: "exact_numbers c \<Longrightarrow> read_container (convert_container c) = c"
  by (cases c; cases "ct_Resources c"; simp add: read_container_def convert_container_def exact_numbers_def FromPtr_def PtrSlice_def
      to_float64_exact convert_port_def convert_env_def convert_mount_def comp_def the_map_Convert
      list_all_iff map_idI)

lemma those_Some: "those (map (map_option f) (map Some xs)) = Some (map f xs)"
  by (induction xs) simp_all

lemma those_None: "None \<in> set ys \<Longrightarrow> those ys = None"
  by (induction ys) (auto split: option.splits)

text \<open>
  Converting containers loses nothing: from the containers of the API the SDK's containers can
  be read back field by field, as long as ids and ports fit the 53 bits of a \<open>float64\<close>; an empty
  list becomes a nil pointer, and a nil container is the only way to panic.
\<close>

theorem ConvertContainers_faithful:
  assumes "list_all (\<lambda>c. c \<noteq> None \<longrightarrow> exact_numbers (the c)) cs"
  shows "case ConvertContainers cs of
      None \<Rightarrow> None \<in> set cs
    | Some None \<Rightarrow> cs = []
    | Some (Some ks) \<Rightarrow> map (\<lambda>k. Some (read_container k)) ks = cs
        \<and> list_all (\<lambda>k. ks_RunAsNonRoot (kc_SecurityContext k) = Some True) ks"
proof (cases "None \<in> set cs")
  case True
  then have "those (map (map_option convert_container) cs) = None"
    by (intro those_None) (auto intro: rev_image_eqI)
  with True show ?thesis by (auto simp: ConvertContainers_def)
next
  case False
  define xs where "xs = map the cs"
  have cs: "cs = map Some xs" using False unfolding xs_def by (induction cs) auto
  have "list_all exact_numbers xs" using assms unfolding cs by (simp add: list_all_iff)
  then have "map (\<lambda>k. Some (read_container k)) (map convert_container xs) = map Some xs"
    by (simp add: list_all_iff read_convert_container)
  then show ?thesis
    by (auto simp: ConvertContainers_def cs those_Some[simplified] list_all_iff convert_container_def)
qed

lemma ConvertContainers_faithful_witness:
  "\<exists>ks. ConvertContainers [Some \<lparr>ct_Name = ''node'', ct_Image = ''app:v1'', ct_ImagePullPolicy = [], ct_Ports = [],
       ct_Env = [], ct_Resources = None, ct_Command = [''run''], ct_Args = [], ct_VolumeMounts = [], ct_UserID = 1000, ct_GroupID = 1000\<rparr>]
     = Some (Some ks) \<and> map (\<lambda>k. ct_Command (read_container k)) ks = [[''run'']]"
proof -
  let ?c = "\<lparr>ct_Name = ''node'', ct_Image = ''app:v1'', ct_ImagePullPolicy = [], ct_Ports = [],
       ct_Env = [], ct_Resources = None, ct_Command = [''run''], ct_Args = [], ct_VolumeMounts = [], ct_UserID = 1000, ct_GroupID = 1000\<rparr>"
  have "list_all (\<lambda>c. c \<noteq> None \<longrightarrow> exact_numbers (the c)) [Some ?c]" by (simp add: exact_numbers_def exact_def)
  from ConvertContainers_faithful[OF this] show ?thesis by (auto split: option.splits)
qed

section \<open>Selectors\<close>

text \<open>A Kubernetes selector selects an object when the object has all its labels.\<close>

definition selects :: "(string \<times> string option) list \<Rightarrow> (string \<times> string option) list \<Rightarrow> bool" where
  "selects sel ls = list_all (\<lambda>(k, v). map_of ls k = Some v) sel"

lemma map_of_merge_labels: "map_of (merge_labels a b) = map_of a ++ map_of (rev b)"
  by (induction b arbitrary: a) (auto simp: merge_labels_def AList.update_conv' fun_eq_iff map_add_def split: option.splits)

lemma map_of_ptr: "map_of (map (\<lambda>(k, v). (k, Some v)) m) k = map_option Some (map_of m k)"
  by (induction m) auto

lemma selects_own: "distinct (map fst m) \<Longrightarrow> selects (map (\<lambda>(k, v). (k, Some v)) m) (map (\<lambda>(k, v). (k, Some v)) m)"
  by (auto simp: selects_def list_all_iff map_of_ptr)

text \<open>The extra labels leave the labels of the selector alone.\<close>

definition keeps_selector :: "metadata_props \<Rightarrow> bool" where
  "keeps_selector f \<longleftrightarrow>
     (case mp_ExtraLabels f of
        None \<Rightarrow> True
      | Some m \<Rightarrow> map_of m label_instance \<in> {None, Some (mp_AppInstance f)}
          \<and> map_of m label_name \<in> {None, Some (mp_AppName f)})"

definition well_formed_map :: "('k \<times> 'v) list option \<Rightarrow> bool" where
  "well_formed_map m \<longleftrightarrow> (case m of None \<Rightarrow> True | Some kvs \<Rightarrow> distinct (map fst kvs))"

lemma map_of_rev: "distinct (map fst m) \<Longrightarrow> map_of (rev m) = map_of m"
proof (rule ext)
  fix k
  assume d: "distinct (map fst m)"
  then have "distinct (map fst (rev m))" by (simp add: rev_map[symmetric])
  with d show "map_of (rev m) k = map_of m k"
    by (metis (no_types, lifting) map_of_eq_None_iff map_of_eq_Some_iff not_None_eq set_rev)
qed

text \<open>
  The selector of a factory selects the resource of that factory exactly when the extra labels
  do not override the name or the instance label with another value; the resource is named as asked,
  since a factory always has a resource name.
\<close>

theorem selector_selects_iff:
  assumes "NewMetadataFactory verr props = Inr f" "well_formed_map (mp_ExtraLabels props)"
  shows "(selects (the (SelectorLabels f)) (the (om_Labels (K8sResourceMetadata f))) \<longleftrightarrow> keeps_selector props)
    \<and> om_Name (K8sResourceMetadata f) = Some (mp_ResourceName props)"
proof -
  have f: "f = props" "mp_ResourceName props \<noteq> []"
    using assms by (auto simp: NewMetadataFactory_def missing_def split: if_splits list.splits)
  have lbl: "label_instance \<noteq> label_name" by (simp add: label_instance_def label_name_def)
  obtain m where m: "m = (case mp_ExtraLabels props of None \<Rightarrow> [] | Some m \<Rightarrow> m)" "distinct (map fst m)"
    using assms(2) by (auto simp: well_formed_map_def split: option.splits)
  let ?l = "merge_labels (defaultLabels props) m"
  have "map_of ?l label_instance = (case map_of m label_instance of None \<Rightarrow> Some (mp_AppInstance props) | Some v \<Rightarrow> Some v)"
    "map_of ?l label_name = (case map_of m label_name of None \<Rightarrow> Some (mp_AppName props) | Some v \<Rightarrow> Some v)"
    using lbl by (auto simp: map_of_merge_labels map_of_rev[OF m(2)] map_add_def defaultLabels_def split: option.splits)
  then have "selects (map (\<lambda>(k, v). (k, Some v)) (defaultLabels props)) (map (\<lambda>(k, v). (k, Some v)) ?l)
      \<longleftrightarrow> map_of m label_instance \<in> {None, Some (mp_AppInstance props)} \<and> map_of m label_name \<in> {None, Some (mp_AppName props)}"
    by (auto simp: selects_def defaultLabels_def map_of_ptr split: option.splits)
  then show ?thesis
    using f m(1) by (auto simp: SelectorLabels_def K8sResourceMetadata_def Let_def PtrMapping_def keeps_selector_def split: option.splits)
qed

definition demo_props :: metadata_props where
  "demo_props = \<lparr>mp_ExtraLabels = Some [(''team'', ''crib'')], mp_ExtraAnnotations = None, mp_Namespace = ''ns'',
     mp_ResourceName = ''node-0'', mp_AppName = ''node'', mp_AppInstance = ''node-0''\<rparr>"

lemma selector_selects_iff_witness:
  "NewMetadataFactory (\<lambda>_. ErrText []) demo_props = Inr demo_props
     \<and> selects (the (SelectorLabels demo_props)) (the (om_Labels (K8sResourceMetadata demo_props)))"
proof -
  have i: "NewMetadataFactory (\<lambda>_. ErrText []) demo_props = Inr demo_props"
    by (simp add: demo_props_def NewMetadataFactory_def missing_def)
  have "keeps_selector demo_props" "well_formed_map (mp_ExtraLabels demo_props)"
    by (simp_all add: keeps_selector_def well_formed_map_def demo_props_def label_instance_def label_name_def)
  with i selector_selects_iff[OF i] show ?thesis by blast
qed

end
