(* ===== verification/Workload.thy ===== *)
theory Workload
  imports K8sDomain Runner
begin

text \<open>
  Workloads: crib/composite/deployment, statefulset and workload, with the scalars they create from
  crib/scalar: service, ingress and the client-side apply manifest.  A chart is the construct it
  carries; creating one cannot fail.  Every operation takes \<open>verr\<close>, the error the validator makes of
  the fields that break a rule; \<open>None\<close> is a panic.
\<close>

section \<open>The client-side apply scalar\<close>

record csa_props =
  cs_Namespace :: string
  cs_OnFailure :: string
  cs_Action :: string
  cs_Args :: "string list"

record csa_component =
  cc_namespace :: string
  cc_manifest :: csa_manifest
  cc_Args :: "string list"
  cc_dependencies :: "string list"

definition csa_New :: "csa_props \<Rightarrow> csa_component" where
  "csa_New props =
     \<lparr>cc_namespace = cs_Namespace props,
       cc_manifest = \<lparr>m_apiVersion = ''crib.smartcontract.com/v1alpha1'', m_kind = ''ClientSideApply'',
         m_onFailure = cs_OnFailure props, m_action = cs_Action props, m_args = cs_Args props\<rparr>,
       cc_Args = [cs_Action props] @ cs_Args props, cc_dependencies = []\<rparr>"

section \<open>The service scalar\<close>

record service_port =
  sp_Name :: "string option"
  sp_Port :: "int option"
  sp_Protocol :: "string option"
  sp_NodePort :: "int option"
  sp_TargetPort :: "string option"

record service_props =
  sr_Namespace :: string
  sr_AppName :: string
  sr_AppInstance :: string
  sr_Name :: string
  sr_Selector :: "(string \<times> string option) list"
  sr_ServiceType :: string
  sr_Ports :: "service_port option list"

record kube_service =
  sv_meta :: object_meta
  sv_type :: string
  sv_ports :: "service_port option list"
  sv_selector :: "(string \<times> string option) list"
  sv_props :: service_props

definition service_broken :: "service_props \<Rightarrow> string list" where
  "service_broken p =
     missing [(''Namespace'', sr_Namespace p), (''AppName'', sr_AppName p), (''AppInstance'', sr_AppInstance p),
       (''Name'', sr_Name p)]
     @ (if sr_Selector p = [] \<or> None \<in> set (map snd (sr_Selector p)) then [''Selector''] else [])
     @ missing [(''ServiceType'', sr_ServiceType p)]
     @ (if sr_Ports p = [] \<or> None \<in> set (sr_Ports p) then [''Ports''] else [])"

definition metadata_of :: "string \<Rightarrow> string \<Rightarrow> string \<Rightarrow> string \<Rightarrow> metadata_props" where
  "metadata_of ns app inst name =
     \<lparr>mp_ExtraLabels = None, mp_ExtraAnnotations = None, mp_Namespace = ns, mp_ResourceName = name,
       mp_AppName = app, mp_AppInstance = inst\<rparr>"

definition service_New :: "validator_error \<Rightarrow> service_props \<Rightarrow> goerr + kube_service" where
  "service_New verr p =
     (case service_broken p of
        [] \<Rightarrow>
          (case NewMetadataFactory verr (metadata_of (sr_Namespace p) (sr_AppName p) (sr_AppInstance p) (sr_Name p)) of
             Inl e \<Rightarrow> Inl (the (Wrapf (Some e) ''failed to create default metadata for service''))
           | Inr f \<Rightarrow> Inr \<lparr>sv_meta = K8sResourceMetadata f, sv_type = sr_ServiceType p, sv_ports = sr_Ports p,
               sv_selector = sr_Selector p, sv_props = p\<rparr>)
      | fs \<Rightarrow> Inl (verr fs))"

section \<open>The ingress scalar\<close>

record ingress_rule =
  ir_Host :: string
  ir_PathType :: string
  ir_Path :: string
  ir_ServiceName :: string
  ir_ServicePort :: int

record ingress_props =
  ig_Namespace :: string
  ig_AppName :: string
  ig_AppInstance :: string
  ig_Name :: string
  ig_Annotations :: "string list"
  ig_IngressClassName :: string
  ig_Rules :: "ingress_rule list"

record kube_ingress_rule =
  ki_host :: "string option"
  ki_paths :: "(string option \<times> string option \<times> string option \<times> int option) list"

record kube_ingress =
  in_meta :: object_meta
  in_rules :: "kube_ingress_rule list"
  in_class :: "string option"

definition rule_broken :: "ingress_rule \<Rightarrow> string list" where
  "rule_broken r =
     missing [(''Host'', ir_Host r), (''PathType'', ir_PathType r), (''Path'', ir_Path r), (''Name'', ir_ServiceName r)]
     @ (if ir_ServicePort r = 0 then [''Port''] else [])"

definition ingress_broken :: "ingress_props \<Rightarrow> string list" where
  "ingress_broken p =
     missing [(''Namespace'', ig_Namespace p), (''AppName'', ig_AppName p), (''AppInstance'', ig_AppInstance p),
       (''Name'', ig_Name p)]
     @ (if ig_Rules p = [] then [''Rules''] else concat (map rule_broken (ig_Rules p)))"

definition kube_rule :: "ingress_rule \<Rightarrow> kube_ingress_rule" where
  "kube_rule r =
     \<lparr>ki_host = Some (ir_Host r),
       ki_paths = [(Some (ir_Path r), Some (ir_PathType r), Some (ir_ServiceName r), Some (to_float64 (ir_ServicePort r)))]\<rparr>"

definition ingress_New :: "validator_error \<Rightarrow> ingress_props \<Rightarrow> goerr + kube_ingress" where
  "ingress_New verr p =
     (case ingress_broken p of
        [] \<Rightarrow>
          (case NewMetadataFactory verr (metadata_of (ig_Namespace p) (ig_AppName p) (ig_AppInstance p) (ig_Name p)) of
             Inl e \<Rightarrow> Inl (the (Wrapf (Some e) ''failed to create default metadata for ingress''))
           | Inr f \<Rightarrow> Inr \<lparr>in_meta = K8sResourceMetadata f, in_rules = map kube_rule (ig_Rules p),
               in_class = (if ig_IngressClassName p \<noteq> [] then Some (ig_IngressClassName p) else None)\<rparr>)
      | fs \<Rightarrow> Inl (verr fs))"

section \<open>Operations on a workload\<close>

text \<open>What the methods of a \<open>WorkloadResource\<close> return.\<close>

record workload =
  wl_Namespace :: string
  wl_AppInstance :: string
  wl_Name :: string
  wl_Component :: string
  wl_Containers :: "container option list"
  wl_LabelsSelector :: "(string \<times> string option) list"
  wl_ResourceType :: string
  wl_AppName :: string

record expose_service =
  es_Name :: string
  es_ServiceType :: string
  es_Ports :: "service_port option list"

record expose_ingress =
  ei_Name :: string
  ei_IngressClassName :: string
  ei_Ports :: "service_port option list"

definition WaitForRollout :: "workload \<Rightarrow> csa_component" where
  "WaitForRollout w =
     (let waitFor = csa_New \<lparr>cs_Namespace = wl_Namespace w, cs_OnFailure = ''abort'', cs_Action = ''kubectl'',
        cs_Args = [''rollout'', ''status'', wl_ResourceType w, ''-l'',
          ''app.kubernetes.io/instance='' @ wl_AppInstance w, ''--timeout=600s'']\<rparr>
      in waitFor\<lparr>cc_dependencies := cc_dependencies waitFor @ [wl_Component w]\<rparr>)"

definition port_of_container :: "container_port \<Rightarrow> service_port option" where
  "port_of_container p =
     Some \<lparr>sp_Name = None, sp_Port = Some (to_float64 (cpt_ContainerPort p)), sp_Protocol = Some (cpt_Protocol p),
       sp_NodePort = None, sp_TargetPort = None\<rparr>"

definition service_ports :: "workload \<Rightarrow> expose_service \<Rightarrow> service_port option list option" where
  "service_ports w opts =
     (if 0 < length (es_Ports opts) then Some (es_Ports opts)
      else map_option (\<lambda>cs. concat (map (\<lambda>c. map port_of_container (ct_Ports c)) cs)) (those (wl_Containers w)))"

definition ExposeViaService ::
    "validator_error \<Rightarrow> workload \<Rightarrow> expose_service option \<Rightarrow> (goerr + kube_service) option" where
  "ExposeViaService verr w options =
     (case options of
        None \<Rightarrow> Some (Inl (ErrText ''options are required''))
      | Some opts \<Rightarrow>
          (let name = (if es_Name opts = [] then wl_Name w else es_Name opts) in
           map_option
             (\<lambda>ports.
               case service_New verr
                 \<lparr>sr_Namespace = wl_Namespace w, sr_AppName = wl_AppName w, sr_AppInstance = wl_AppInstance w,
                   sr_Name = name, sr_Selector = wl_LabelsSelector w, sr_ServiceType = es_ServiceType opts,
                   sr_Ports = ports\<rparr> of
                 Inl e \<Rightarrow> Inl (the (Wrapf (Some e) ''failed to expose service''))
               | Inr s \<Rightarrow> Inr s)
             (service_ports w opts)))"

text \<open>A rule for each port; a port without a number is a nil dereference.\<close>

definition ingress_rule_for :: "string \<Rightarrow> string \<Rightarrow> service_port option \<Rightarrow> ingress_rule option" where
  "ingress_rule_for path name port =
     (case port of
        Some p \<Rightarrow> map_option (\<lambda>n. \<lparr>ir_Host = ''*'', ir_PathType = ''Prefix'', ir_Path = path, ir_ServiceName = name,
            ir_ServicePort = n\<rparr>) (sp_Port p)
      | None \<Rightarrow> None)"

definition ExposeViaIngress ::
    "validator_error \<Rightarrow> workload \<Rightarrow> string \<Rightarrow> expose_ingress option \<Rightarrow> (goerr + kube_service \<times> kube_ingress) option" where
  "ExposeViaIngress verr w path options =
     (case options of
        None \<Rightarrow> Some (Inl (ErrText ''options are required''))
      | Some opts \<Rightarrow>
          (case ExposeViaService verr w (Some \<lparr>es_Name = [], es_ServiceType = ''ClusterIP'', es_Ports = ei_Ports opts\<rparr>) of
             None \<Rightarrow> None
           | Some (Inl e) \<Rightarrow> Some (Inl (the (Wrapf (Some e) ''failed to expose service'')))
           | Some (Inr s) \<Rightarrow>
               (let name = (if ei_Name opts = [] then wl_Name w @ ''-ingress'' else ei_Name opts) in
                map_option
                  (\<lambda>rules.
                    case ingress_New verr
                      \<lparr>ig_Namespace = wl_Namespace w, ig_AppName = wl_AppName w, ig_AppInstance = wl_AppInstance w,
                        ig_Name = name, ig_Annotations = [], ig_IngressClassName = ei_IngressClassName opts,
                        ig_Rules = rules\<rparr> of
                      Inl e \<Rightarrow> Inl (the (Wrapf (Some e) ''failed to create ingress''))
                    | Inr i \<Rightarrow> Inr (s, i))
                  (those (map (ingress_rule_for path (sr_Name (sv_props s))) (sv_ports s))))))"

section \<open>Volume claims\<close>

record volume_claim =
  vc_Capacity :: string
  vc_NameSuffix :: string

record kube_claim =
  kl_meta :: object_meta
  kl_accessModes :: "string option list"
  kl_storage :: quantity
  kl_storageClass :: "string option"

definition convert_claim :: "validator_error \<Rightarrow> workload \<Rightarrow> volume_claim \<Rightarrow> goerr + kube_claim" where
  "convert_claim verr w pvc =
     (case NewMetadataFactory verr (metadata_of (wl_Namespace w) (wl_AppName w) (wl_AppInstance w)
             (wl_AppInstance w @ ''-'' @ vc_NameSuffix pvc)) of
        Inl e \<Rightarrow> Inl (the (Wrapf (Some e) ''failed to create default metadata''))
      | Inr f \<Rightarrow> Inr \<lparr>kl_meta = K8sResourceMetadata f, kl_accessModes = [Some ''ReadWriteOnce''],
          kl_storage = Quantity_FromString (vc_Capacity pvc), kl_storageClass = Some ''gp3''\<rparr>)"

fun convert_claims :: "validator_error \<Rightarrow> workload \<Rightarrow> volume_claim option list \<Rightarrow> (goerr + kube_claim list) option" where
  "convert_claims verr w [] = Some (Inr [])"
| "convert_claims verr w (None # pvcs) = None"
| "convert_claims verr w (Some pvc # pvcs) =
     (case convert_claim verr w pvc of
        Inl e \<Rightarrow> Some (Inl e)
      | Inr k \<Rightarrow> map_option (map_sum (\<lambda>e. e) (\<lambda>ks. k # ks)) (convert_claims verr w pvcs))"

definition ConvertVolumeClaimTemplates ::
    "validator_error \<Rightarrow> workload \<Rightarrow> volume_claim option list \<Rightarrow> (goerr + kube_claim list option) option" where
  "ConvertVolumeClaimTemplates verr w pvcs =
     (if pvcs = [] then Some (Inr None)
      else map_option (map_sum (\<lambda>e. e) Some) (convert_claims verr w pvcs))"

section \<open>Deployments\<close>

record deployment_props =
  dp_Name :: string
  dp_AppName :: string
  dp_AppInstance :: string
  dp_Namespace :: string
  dp_Containers :: "container option list"
  dp_Volumes :: "volume option list"
  dp_PodFsGroup :: int

record kube_pods =
  kd_meta :: object_meta
  kd_selector :: "(string \<times> string option) list option"
  kd_replicas :: int
  kd_templateLabels :: "(string \<times> string option) list option"
  kd_containers :: "k8s_container list option"
  kd_volumes :: "k8s_volume list option"
  kd_RunAsNonRoot :: "bool option"
  kd_FsGroup :: "int option"
  kd_serviceName :: "string option"
  kd_claims :: "kube_claim list option"

definition broken_containers :: "container option list \<Rightarrow> string list" where
  "broken_containers cs =
     concat (map (\<lambda>c. case c of
         None \<Rightarrow> []
       | Some c \<Rightarrow> (if 1 \<le> ct_UserID c then [] else [''UserID'']) @ (if 1 \<le> ct_GroupID c then [] else [''GroupID''])) cs)"

definition deployment_broken :: "deployment_props \<Rightarrow> string list" where
  "deployment_broken p =
     missing [(''Name'', dp_Name p), (''AppName'', dp_AppName p), (''AppInstance'', dp_AppInstance p),
       (''Namespace'', dp_Namespace p)] @ broken_containers (dp_Containers p)"

text \<open>A workload with the resource it created; \<open>chart\<close> is the construct of its chart.\<close>

definition deployment :: "validator_error \<Rightarrow> string \<Rightarrow> deployment_props \<Rightarrow> (goerr + workload \<times> kube_pods) option" where
  "deployment verr chart p =
     (case deployment_broken p of
        [] \<Rightarrow>
          (case NewMetadataFactory verr (metadata_of (dp_Namespace p) (dp_AppName p) (dp_AppInstance p) (dp_Name p)) of
             Inl e \<Rightarrow> Some (Inl (the (Wrapf (Some e) ''failed to create default metadata for deployment'')))
           | Inr f \<Rightarrow>
               (let selectorLabels = SelectorLabels f in
                case (ConvertContainers (dp_Containers p), ConvertVolumes (dp_Volumes p)) of
                  (Some containers, Some volumes) \<Rightarrow>
                    Some (Inr
                      (\<lparr>wl_Namespace = dp_Namespace p, wl_AppInstance = dp_AppInstance p, wl_Name = dp_Name p,
                         wl_Component = chart, wl_Containers = dp_Containers p,
                         wl_LabelsSelector = FromPtr [] selectorLabels, wl_ResourceType = ''deployment'',
                         wl_AppName = dp_AppName p\<rparr>,
                       \<lparr>kd_meta = K8sResourceMetadata f, kd_selector = selectorLabels, kd_replicas = 1,
                         kd_templateLabels = Some [(''app.kubernetes.io/name'', Some (dp_AppName p)),
                           (''app.kubernetes.io/instance'', Some (dp_AppInstance p))],
                         kd_containers = containers, kd_volumes = volumes, kd_RunAsNonRoot = Some True,
                         kd_FsGroup = (if dp_PodFsGroup p \<noteq> 0 then Some (to_float64 (dp_PodFsGroup p)) else None),
                         kd_serviceName = None, kd_claims = None\<rparr>))
                | _ \<Rightarrow> None))
      | fs \<Rightarrow> Some (Inl (verr fs)))"

section \<open>Stateful sets\<close>

record statefulset_props =
  ss_Name :: string
  ss_AppName :: string
  ss_Namespace :: string
  ss_AppInstance :: string
  ss_Containers :: "container option list"
  ss_Volumes :: "volume option list"
  ss_VolumeClaimTemplates :: "volume_claim option list"

definition broken_claims :: "volume_claim option list \<Rightarrow> string list" where
  "broken_claims vs =
     concat (map (\<lambda>v. case v of
         None \<Rightarrow> []
       | Some v \<Rightarrow> missing [(''Capacity'', vc_Capacity v), (''NameSuffix'', vc_NameSuffix v)]) vs)"

definition statefulset_broken :: "statefulset_props \<Rightarrow> string list" where
  "statefulset_broken p =
     missing [(''Name'', ss_Name p), (''AppName'', ss_AppName p), (''Namespace'', ss_Namespace p),
       (''AppInstance'', ss_AppInstance p)]
     @ broken_containers (ss_Containers p) @ broken_claims (ss_VolumeClaimTemplates p)"

definition statefulset :: "validator_error \<Rightarrow> string \<Rightarrow> statefulset_props \<Rightarrow> (goerr + workload \<times> kube_pods) option" where
  "statefulset verr chart p =
     (case statefulset_broken p of
        [] \<Rightarrow>
          (let i = \<lparr>wl_Namespace = ss_Namespace p, wl_AppInstance = ss_AppInstance p, wl_Name = ss_Name p,
             wl_Component = chart, wl_Containers = ss_Containers p, wl_LabelsSelector = [],
             wl_ResourceType = ''statefulset'', wl_AppName = ss_AppName p\<rparr> in
           case NewMetadataFactory verr (metadata_of (ss_Namespace p) (ss_AppName p) (ss_AppInstance p) (ss_Name p)) of
             Inl e \<Rightarrow> Some (Inl (the (Wrapf (Some e) ''failed to create default metadata for deployment'')))
           | Inr f \<Rightarrow>
               (let metadata = K8sResourceMetadata f in
                case ConvertVolumeClaimTemplates verr i (ss_VolumeClaimTemplates p) of
                  None \<Rightarrow> None
                | Some (Inl e) \<Rightarrow>
                    Some (Inl (the (Wrapf (Some e) ''failed to create default volumeclaim templates for statefulset'')))
                | Some (Inr claims) \<Rightarrow>
                    (let selectorLabels = SelectorLabels f in
                     case (ConvertContainers (ss_Containers p), ConvertVolumes (ss_Volumes p)) of
                       (Some containers, Some volumes) \<Rightarrow>
                         Some (Inr
                           (i\<lparr>wl_LabelsSelector := the selectorLabels\<rparr>,
                            \<lparr>kd_meta = metadata, kd_selector = selectorLabels, kd_replicas = 1,
                              kd_templateLabels = om_Labels metadata, kd_containers = containers,
                              kd_volumes = volumes, kd_RunAsNonRoot = None, kd_FsGroup = None,
                              kd_serviceName = Some (ss_Name p), kd_claims = claims\<rparr>))
                     | _ \<Rightarrow> None)))
      | fs \<Rightarrow> Some (Inl (verr fs)))"

section \<open>Creation of workloads\<close>

lemma missing_Nil_iff: "missing fs = [] \<longleftrightarrow> list_all (\<lambda>f. snd f \<noteq> []) fs"
  by (induction fs) (auto simp: missing_def)

lemma NewMetadataFactory_ok:
  "ns \<noteq> [] \<Longrightarrow> app \<noteq> [] \<Longrightarrow> inst \<noteq> [] \<Longrightarrow> name \<noteq> [] \<Longrightarrow>
     NewMetadataFactory verr (metadata_of ns app inst name) = Inr (metadata_of ns app inst name)"
  by (simp add: NewMetadataFactory_def metadata_of_def missing_def)

lemma those_total: "those xs = (if None \<in> set xs then None else Some (map the xs))"
  by (induction xs) (auto split: option.splits)

lemma ConvertContainers_None_iff: "ConvertContainers cs = None \<longleftrightarrow> None \<in> set cs"
  by (force simp: ConvertContainers_def those_total)

lemma ConvertVolumes_None_iff: "ConvertVolumes vs = None \<longleftrightarrow> None \<in> set vs"
  by (force simp: ConvertVolumes_def those_total)

lemma metadata_labels:
  "om_Labels (K8sResourceMetadata (metadata_of ns app inst name)) = SelectorLabels (metadata_of ns app inst name)"
  by (simp add: K8sResourceMetadata_def SelectorLabels_def metadata_of_def merge_labels_def)

lemma SelectorLabels_of:
  "SelectorLabels (metadata_of ns app inst name) = Some [(label_instance, Some inst), (label_name, Some app)]"
  by (simp add: SelectorLabels_def metadata_of_def PtrMapping_def defaultLabels_def)

lemma deployment_ok:
  assumes "deployment_broken p = []"
  shows "deployment verr chart p =
    (case (ConvertContainers (dp_Containers p), ConvertVolumes (dp_Volumes p)) of
       (Some containers, Some volumes) \<Rightarrow>
         Some (Inr
           (\<lparr>wl_Namespace = dp_Namespace p, wl_AppInstance = dp_AppInstance p, wl_Name = dp_Name p,
              wl_Component = chart, wl_Containers = dp_Containers p,
              wl_LabelsSelector = [(label_instance, Some (dp_AppInstance p)), (label_name, Some (dp_AppName p))],
              wl_ResourceType = ''deployment'', wl_AppName = dp_AppName p\<rparr>,
            \<lparr>kd_meta = K8sResourceMetadata (metadata_of (dp_Namespace p) (dp_AppName p) (dp_AppInstance p) (dp_Name p)),
              kd_selector = Some [(label_instance, Some (dp_AppInstance p)), (label_name, Some (dp_AppName p))],
              kd_replicas = 1,
              kd_templateLabels = Some [(label_name, Some (dp_AppName p)), (label_instance, Some (dp_AppInstance p))],
              kd_containers = containers, kd_volumes = volumes, kd_RunAsNonRoot = Some True,
              kd_FsGroup = (if dp_PodFsGroup p \<noteq> 0 then Some (to_float64 (dp_PodFsGroup p)) else None),
              kd_serviceName = None, kd_claims = None\<rparr>))
     | _ \<Rightarrow> None)"
proof -
  have "NewMetadataFactory verr (metadata_of (dp_Namespace p) (dp_AppName p) (dp_AppInstance p) (dp_Name p))
      = Inr (metadata_of (dp_Namespace p) (dp_AppName p) (dp_AppInstance p) (dp_Name p))"
    using assms by (intro NewMetadataFactory_ok) (simp_all add: deployment_broken_def missing_Nil_iff)
  with assms show ?thesis
    by (auto simp: deployment_def SelectorLabels_of FromPtr_def Let_def label_name_def label_instance_def split: option.splits)
qed

text \<open>
  Creating a deployment is total up to nil pointers: it fails exactly when a rule of its
  properties is broken, with the validator's error for just those fields, panics exactly when a
  container or a volume is nil, and otherwise creates the resource.
\<close>

theorem deployment_outcome:
  "case deployment verr chart p of
      None \<Rightarrow> deployment_broken p = [] \<and> (None \<in> set (dp_Containers p) \<or> None \<in> set (dp_Volumes p))
    | Some (Inl e) \<Rightarrow> deployment_broken p \<noteq> [] \<and> e = verr (deployment_broken p)
    | Some (Inr (w, k)) \<Rightarrow> deployment_broken p = [] \<and> None \<notin> set (dp_Containers p) \<and> None \<notin> set (dp_Volumes p)
        \<and> ConvertContainers (dp_Containers p) = Some (kd_containers k) \<and> ConvertVolumes (dp_Volumes p) = Some (kd_volumes k)"
proof (cases "deployment_broken p = []")
  case True
  show ?thesis
    using True ConvertContainers_None_iff[of "dp_Containers p"] ConvertVolumes_None_iff[of "dp_Volumes p"]
    by (auto simp: deployment_ok[OF True] split: option.splits)
next
  case False
  then obtain b bs where "deployment_broken p = b # bs" by (cases "deployment_broken p") auto
  then show ?thesis by (simp add: deployment_def)
qed

lemma statefulset_labels:
  assumes "statefulset verr chart p = Some (Inr (w, k))"
  shows "wl_LabelsSelector w = the (kd_selector k) \<and> kd_selector k = kd_templateLabels k
    \<and> distinct (map fst (the (kd_selector k))) \<and> wl_ResourceType w = ''statefulset'' \<and> wl_Component w = chart
    \<and> SelectorLabels (metadata_of (ss_Namespace p) (ss_AppName p) (ss_AppInstance p) (ss_Name p)) = kd_selector k"
proof -
  from assms have b: "statefulset_broken p = []" by (auto simp: statefulset_def split: list.splits)
  have "NewMetadataFactory verr (metadata_of (ss_Namespace p) (ss_AppName p) (ss_AppInstance p) (ss_Name p))
      = Inr (metadata_of (ss_Namespace p) (ss_AppName p) (ss_AppInstance p) (ss_Name p))"
    using b by (intro NewMetadataFactory_ok) (simp_all add: statefulset_broken_def missing_Nil_iff)
  with assms b show ?thesis
    by (auto simp: statefulset_def Let_def metadata_labels SelectorLabels_of label_name_def label_instance_def
        split: option.splits sum.splits)
qed

lemma deployment_labels:
  assumes "deployment verr chart p = Some (Inr (w, k))"
  shows "wl_LabelsSelector w = the (kd_selector k) \<and> selects (the (kd_selector k)) (the (kd_templateLabels k))"
proof -
  from assms have b: "deployment_broken p = []" by (auto simp: deployment_def split: list.splits)
  from assms show ?thesis
    by (auto simp: deployment_ok[OF b] selects_def label_name_def label_instance_def split: option.splits)
qed

lemma service_New_Inr: "service_New verr p = Inr s \<Longrightarrow> sv_selector s = sr_Selector p \<and> sv_ports s = sr_Ports p \<and> sv_props s = p"
  by (auto simp: service_New_def split: list.splits sum.splits)

definition service_props_of :: "workload \<Rightarrow> expose_service \<Rightarrow> service_port option list \<Rightarrow> service_props" where
  "service_props_of w opts ports =
     \<lparr>sr_Namespace = wl_Namespace w, sr_AppName = wl_AppName w, sr_AppInstance = wl_AppInstance w,
       sr_Name = (if es_Name opts = [] then wl_Name w else es_Name opts), sr_Selector = wl_LabelsSelector w,
       sr_ServiceType = es_ServiceType opts, sr_Ports = ports\<rparr>"

lemma service_New_iff:
  "service_New verr p =
     (if service_broken p = []
      then Inr \<lparr>sv_meta = K8sResourceMetadata (metadata_of (sr_Namespace p) (sr_AppName p) (sr_AppInstance p) (sr_Name p)),
          sv_type = sr_ServiceType p, sv_ports = sr_Ports p, sv_selector = sr_Selector p, sv_props = p\<rparr>
      else Inl (verr (service_broken p)))"
proof (cases "service_broken p = []")
  case True
  then have "NewMetadataFactory verr (metadata_of (sr_Namespace p) (sr_AppName p) (sr_AppInstance p) (sr_Name p))
      = Inr (metadata_of (sr_Namespace p) (sr_AppName p) (sr_AppInstance p) (sr_Name p))"
    by (intro NewMetadataFactory_ok) (simp_all add: service_broken_def missing_Nil_iff)
  with True show ?thesis by (simp add: service_New_def)
next
  case False
  then obtain b bs where "service_broken p = b # bs" by (cases "service_broken p") auto
  then show ?thesis by (simp add: service_New_def)
qed

lemma ExposeViaService_Some:
  "ExposeViaService verr w (Some opts) =
     map_option (\<lambda>ports. if service_broken (service_props_of w opts ports) = []
         then service_New verr (service_props_of w opts ports)
         else Inl (CErr (WrapErr ''failed to expose service'' (verr (service_broken (service_props_of w opts ports))))))
       (service_ports w opts)"
  by (cases "service_ports w opts")
    (simp_all add: ExposeViaService_def Let_def service_props_of_def[symmetric] service_New_iff)

lemma ExposeViaService_Inr:
  assumes "ExposeViaService verr w options = Some (Inr s)"
  shows "\<exists>opts. options = Some opts \<and> sv_selector s = wl_LabelsSelector w \<and> service_ports w opts = Some (sv_ports s)
     \<and> sr_Name (sv_props s) = (if es_Name opts = [] then wl_Name w else es_Name opts)"
proof (cases options)
  case (Some opts)
  with assms obtain ports where "service_ports w opts = Some ports" "service_New verr (service_props_of w opts ports) = Inr s"
    by (auto simp: ExposeViaService_Some split: if_splits)
  with Some service_New_Inr show ?thesis by (fastforce simp: service_props_of_def)
qed (use assms in \<open>simp add: ExposeViaService_def\<close>)

text \<open>
  Whoever is exposed is reached: the pods that a deployment or a stateful set creates carry the
  labels its own selector asks for, and a service that exposes the workload selects those pods.
\<close>

theorem exposed_pods_are_selected:
  assumes "deployment verr chart p = Some (Inr (w, k)) \<or> statefulset verr chart q = Some (Inr (w, k))"
    and "ExposeViaService verr w options = Some (Inr s)"
  shows "selects (the (kd_selector k)) (the (kd_templateLabels k)) \<and> selects (sv_selector s) (the (kd_templateLabels k))"
proof -
  have sel: "sv_selector s = wl_LabelsSelector w" using ExposeViaService_Inr[OF assms(2)] by blast
  show ?thesis
    using assms(1)
  proof
    assume "deployment verr chart p = Some (Inr (w, k))"
    with sel show ?thesis using deployment_labels by metis
  next
    assume "statefulset verr chart q = Some (Inr (w, k))"
    from statefulset_labels[OF this] sel SelectorLabels_of
    have l: "sv_selector s = the (kd_templateLabels k)" "kd_selector k = kd_templateLabels k"
      "kd_templateLabels k = Some [(label_instance, Some (ss_AppInstance q)), (label_name, Some (ss_AppName q))]"
      by (auto simp: SelectorLabels_of)
    then show ?thesis by (simp add: selects_def label_name_def label_instance_def)
  qed
qed

definition container_ports :: "workload \<Rightarrow> container_port list" where
  "container_ports w = concat (map (\<lambda>c. ct_Ports (the c)) (wl_Containers w))"

lemma service_ports_default:
  assumes "es_Ports opts = []" "None \<notin> set (wl_Containers w)"
  shows "service_ports w opts = Some (map port_of_container (container_ports w))"
  using assms by (simp add: service_ports_def those_total container_ports_def map_concat comp_def)

lemma deployment_fields:
  assumes "deployment verr chart p = Some (Inr (w, k))"
  shows "wl_Namespace w \<noteq> [] \<and> wl_AppName w \<noteq> [] \<and> wl_AppInstance w \<noteq> [] \<and> wl_Name w \<noteq> []
    \<and> None \<notin> set (wl_Containers w) \<and> wl_LabelsSelector w \<noteq> [] \<and> None \<notin> snd ` set (wl_LabelsSelector w)
    \<and> wl_Component w = chart"
proof -
  from assms have b: "deployment_broken p = []" by (auto simp: deployment_def split: list.splits)
  then have "dp_Namespace p \<noteq> []" "dp_AppName p \<noteq> []" "dp_AppInstance p \<noteq> []" "dp_Name p \<noteq> []"
    by (simp_all add: deployment_broken_def missing_Nil_iff)
  moreover have "None \<notin> set (dp_Containers p)"
    using assms ConvertContainers_None_iff[of "dp_Containers p"] by (auto simp: deployment_ok[OF b] split: option.splits)
  ultimately show ?thesis using assms by (auto simp: deployment_ok[OF b] split: option.splits)
qed

text \<open>
  Without explicit ports a deployment is exposed on exactly its containers' ports: as soon as
  a container has a port the service is created under the deployment's name, with one port for each
  container port, in the order of the containers.
\<close>

theorem service_has_container_ports:
  assumes "deployment verr chart p = Some (Inr (w, k))" "es_Ports opts = []" "es_ServiceType opts \<noteq> []"
    and "container_ports w \<noteq> []" "es_Name opts = []"
  shows "\<exists>s. ExposeViaService verr w (Some opts) = Some (Inr s) \<and> sr_Name (sv_props s) = wl_Name w
    \<and> map (\<lambda>q. map_option sp_Port q) (sv_ports s) = map (\<lambda>q. Some (Some (to_float64 (cpt_ContainerPort q)))) (container_ports w)"
proof -
  note f = deployment_fields[OF assms(1)]
  let ?ports = "map port_of_container (container_ports w)"
  have "None \<notin> set ?ports" by (auto simp: port_of_container_def)
  then have "service_broken (service_props_of w opts ?ports) = []"
    using f assms(3-5) by (auto simp: service_broken_def service_props_of_def missing_Nil_iff image_iff)
  then have "ExposeViaService verr w (Some opts) = Some (service_New verr (service_props_of w opts ?ports))"
    using service_ports_default[OF assms(2)] f by (simp add: ExposeViaService_Some)
  with \<open>service_broken (service_props_of w opts ?ports) = []\<close> show ?thesis
    using assms(5) by (simp add: service_New_iff service_props_of_def port_of_container_def comp_def)
qed

definition ingress_props_of :: "workload \<Rightarrow> expose_ingress \<Rightarrow> ingress_rule list \<Rightarrow> ingress_props" where
  "ingress_props_of w opts rules =
     \<lparr>ig_Namespace = wl_Namespace w, ig_AppName = wl_AppName w, ig_AppInstance = wl_AppInstance w,
       ig_Name = (if ei_Name opts = [] then wl_Name w @ ''-ingress'' else ei_Name opts), ig_Annotations = [],
       ig_IngressClassName = ei_IngressClassName opts, ig_Rules = rules\<rparr>"

lemma ingress_New_Inr:
  "ingress_New verr p = Inr i \<Longrightarrow> in_rules i = map kube_rule (ig_Rules p)
     \<and> in_class i = (if ig_IngressClassName p \<noteq> [] then Some (ig_IngressClassName p) else None)"
  by (auto simp: ingress_New_def split: list.splits sum.splits)

lemma ExposeViaIngress_Inr:
  assumes "ExposeViaIngress verr w path (Some opts) = Some (Inr (s, i))"
  obtains rules where
    "ExposeViaService verr w (Some \<lparr>es_Name = [], es_ServiceType = ''ClusterIP'', es_Ports = ei_Ports opts\<rparr>) = Some (Inr s)"
    "those (map (ingress_rule_for path (sr_Name (sv_props s))) (sv_ports s)) = Some rules"
    "ingress_New verr (ingress_props_of w opts rules) = Inr i"
proof -
  let ?sv = "ExposeViaService verr w (Some \<lparr>es_Name = [], es_ServiceType = ''ClusterIP'', es_Ports = ei_Ports opts\<rparr>)"
  have un: "ExposeViaIngress verr w path (Some opts) =
    (case ?sv of None \<Rightarrow> None
     | Some (Inl e) \<Rightarrow> Some (Inl (the (Wrapf (Some e) ''failed to expose service'')))
     | Some (Inr s) \<Rightarrow> map_option (\<lambda>rules. case ingress_New verr (ingress_props_of w opts rules) of
           Inl e \<Rightarrow> Inl (the (Wrapf (Some e) ''failed to create ingress'')) | Inr i \<Rightarrow> Inr (s, i))
         (those (map (ingress_rule_for path (sr_Name (sv_props s))) (sv_ports s))))"
    by (simp only: ExposeViaIngress_def ingress_props_of_def Let_def option.case)
  from assms obtain s' where s': "?sv = Some (Inr s')" unfolding un by (cases ?sv; cases "the ?sv") auto
  with assms obtain rules where r: "those (map (ingress_rule_for path (sr_Name (sv_props s'))) (sv_ports s')) = Some rules"
    "(case ingress_New verr (ingress_props_of w opts rules) of
        Inl e \<Rightarrow> Inl (the (Wrapf (Some e) ''failed to create ingress'')) | Inr i \<Rightarrow> Inr (s', i)) = Inr (s, i)"
    unfolding un by auto
  from r(2) have "ingress_New verr (ingress_props_of w opts rules) = Inr i" "s' = s" by (simp_all split: sum.splits)
  with r s' that show thesis by simp
qed

text \<open>
  An ingress routes to what is exposed: it has one rule for each port of the service that was
  created with it, each sending the path to that service on that port; an empty class name, which the
  options declare as required, is accepted and leaves the ingress without a class.
\<close>

theorem ingress_routes_to_service:
  assumes "ExposeViaIngress verr w path (Some opts) = Some (Inr (s, i))"
  shows "map ki_paths (in_rules i)
      = map (\<lambda>q. [(Some path, Some ''Prefix'', Some (sr_Name (sv_props s)), Some (to_float64 (the (sp_Port (the q)))))]) (sv_ports s)
    \<and> sr_Name (sv_props s) = wl_Name w
    \<and> in_class i = (if ei_IngressClassName opts = [] then None else Some (ei_IngressClassName opts))"
proof -
  from assms obtain rules where
    sv: "ExposeViaService verr w (Some \<lparr>es_Name = [], es_ServiceType = ''ClusterIP'', es_Ports = ei_Ports opts\<rparr>) = Some (Inr s)"
    and r: "those (map (ingress_rule_for path (sr_Name (sv_props s))) (sv_ports s)) = Some rules"
    and n: "ingress_New verr (ingress_props_of w opts rules) = Inr i"
    by (rule ExposeViaIngress_Inr)
  have rules: "rules = map (\<lambda>q. the (ingress_rule_for path (sr_Name (sv_props s)) q)) (sv_ports s)"
    using r by (auto simp: those_total split: if_splits)
  have "None \<notin> ingress_rule_for path (sr_Name (sv_props s)) ` set (sv_ports s)"
    using r by (simp add: those_total split: if_splits)
  then have nn: "ingress_rule_for path (sr_Name (sv_props s)) q \<noteq> None" if "q \<in> set (sv_ports s)" for q
    using that by force
  have "ki_paths (kube_rule (the (ingress_rule_for path (sr_Name (sv_props s)) q)))
      = [(Some path, Some ''Prefix'', Some (sr_Name (sv_props s)), Some (to_float64 (the (sp_Port (the q)))))]"
    if "q \<in> set (sv_ports s)" for q
    using nn[OF that] by (auto simp: ingress_rule_for_def kube_rule_def split: option.splits)
  with ingress_New_Inr[OF n] rules ExposeViaService_Inr[OF sv] show ?thesis by (auto simp: ingress_props_of_def)
qed

text \<open>
  Waiting for a rollout: when a plan applies the manifest of \<open>WaitForRollout\<close>, the shell runs
  \<open>kubectl rollout status\<close> on the workload's kind and instance, a failure aborts the plan, and the
  manifest depends on the workload's chart.
\<close>

theorem WaitForRollout_runs:
  assumes "re_testing env = False" "re_look_path env ActionKubectl = Inr path" "path \<noteq> []" "path \<noteq> ActionCmd"
  shows "\<exists>r. NewRunner env (Some (cc_manifest (WaitForRollout w))) = Inr r
    \<and> command_line r (cc_manifest (WaitForRollout w))
      = path @ '' rollout status '' @ wl_ResourceType w @ '' -l app.kubernetes.io/instance='' @ wl_AppInstance w @ '' --timeout=600s''
    \<and> m_onFailure (cc_manifest (WaitForRollout w)) = FailureAbort
    \<and> cc_dependencies (WaitForRollout w) = [wl_Component w]"
  using assms
  by (simp add: WaitForRollout_def csa_New_def NewRunner_def newWrappedRunner_def ActionCmd_def ActionKubectl_def
      command_line_def Compact_def FailureAbort_def Let_def)

section \<open>A concrete workload\<close>

definition demo_container :: container where
  "demo_container = \<lparr>ct_Name = ''node'', ct_Image = ''app:v1'', ct_ImagePullPolicy = [],
     ct_Ports = [\<lparr>cpt_Name = ''http'', cpt_Protocol = ''TCP'', cpt_ContainerPort = 6688\<rparr>], ct_Env = [],
     ct_Resources = None, ct_Command = [], ct_Args = [], ct_VolumeMounts = [], ct_UserID = 1000, ct_GroupID = 1000\<rparr>"

definition demo_deployment :: deployment_props where
  "demo_deployment = \<lparr>dp_Name = ''node-0'', dp_AppName = ''node'', dp_AppInstance = ''node-0'', dp_Namespace = ''ns'',
     dp_Containers = [Some demo_container], dp_Volumes = [], dp_PodFsGroup = 0\<rparr>"

abbreviation demo_verr :: validator_error where
  "demo_verr fs \<equiv> ErrText (join_with '','' fs)"

lemma demo_deployed:
  "\<exists>w k. deployment demo_verr ''c0'' demo_deployment = Some (Inr (w, k))
     \<and> container_ports w = ct_Ports demo_container \<and> wl_Name w = ''node-0''"
proof -
  have "deployment_broken demo_deployment = []"
    by (simp add: demo_deployment_def demo_container_def deployment_broken_def missing_def broken_containers_def)
  then show ?thesis
    by (simp add: deployment_ok demo_deployment_def ConvertContainers_def ConvertVolumes_def container_ports_def)
qed

lemma service_has_container_ports_witness:
  "\<exists>w k s. deployment demo_verr ''c0'' demo_deployment = Some (Inr (w, k))
     \<and> ExposeViaService demo_verr w (Some \<lparr>es_Name = [], es_ServiceType = ''ClusterIP'', es_Ports = []\<rparr>) = Some (Inr s)
     \<and> length (sv_ports s) = 1"
proof -
  from demo_deployed obtain w k where d: "deployment demo_verr ''c0'' demo_deployment = Some (Inr (w, k))"
    "container_ports w = ct_Ports demo_container" by blast
  from service_has_container_ports[OF d(1), of "\<lparr>es_Name = [], es_ServiceType = ''ClusterIP'', es_Ports = []\<rparr>"] d
  show ?thesis by (fastforce simp: demo_container_def dest: map_eq_imp_length_eq)
qed

lemma demo_service:
  "\<exists>w k s. deployment demo_verr ''c0'' demo_deployment = Some (Inr (w, k))
     \<and> ExposeViaService demo_verr w (Some \<lparr>es_Name = [], es_ServiceType = ''ClusterIP'', es_Ports = []\<rparr>) = Some (Inr s)
     \<and> sv_ports s = map port_of_container (ct_Ports demo_container)"
proof -
  from demo_deployed obtain w k where d: "deployment demo_verr ''c0'' demo_deployment = Some (Inr (w, k))"
    "container_ports w = ct_Ports demo_container" by blast
  note f = deployment_fields[OF d(1)]
  let ?o = "\<lparr>es_Name = [], es_ServiceType = ''ClusterIP'', es_Ports = []\<rparr>"
  have p: "service_ports w ?o = Some (map port_of_container (ct_Ports demo_container))"
    using service_ports_default[of ?o w] f d(2) by simp
  have "service_broken (service_props_of w ?o (map port_of_container (ct_Ports demo_container))) = []"
    using f by (auto simp: service_broken_def service_props_of_def missing_Nil_iff image_iff demo_container_def port_of_container_def)
  with p have "\<exists>s. ExposeViaService demo_verr w (Some ?o) = Some (Inr s) \<and> sv_ports s = map port_of_container (ct_Ports demo_container)"
    by (simp add: ExposeViaService_Some service_New_iff service_props_of_def)
  with d(1) show ?thesis by blast
qed

lemma exposed_pods_are_selected_witness:
  "\<exists>w k s. deployment demo_verr ''c0'' demo_deployment = Some (Inr (w, k))
     \<and> ExposeViaService demo_verr w (Some \<lparr>es_Name = [], es_ServiceType = ''ClusterIP'', es_Ports = []\<rparr>) = Some (Inr s)
     \<and> selects (sv_selector s) (the (kd_templateLabels k))"
  using demo_service exposed_pods_are_selected by metis

lemma ingress_routes_to_service_witness:
  "\<exists>w s i. ExposeViaIngress demo_verr w ''/api'' (Some \<lparr>ei_Name = [], ei_IngressClassName = [], ei_Ports = []\<rparr>) = Some (Inr (s, i))
     \<and> in_class i = None \<and> sr_Name (sv_props s) = wl_Name w"
proof -
  from demo_service obtain w k s where d: "deployment demo_verr ''c0'' demo_deployment = Some (Inr (w, k))"
    and s: "ExposeViaService demo_verr w (Some \<lparr>es_Name = [], es_ServiceType = ''ClusterIP'', es_Ports = []\<rparr>) = Some (Inr s)"
      "sv_ports s = map port_of_container (ct_Ports demo_container)" by blast
  note f = deployment_fields[OF d]
  have n: "sr_Name (sv_props s) = wl_Name w" using ExposeViaService_Inr[OF s(1)] by simp
  let ?rule = "\<lparr>ir_Host = ''*'', ir_PathType = ''Prefix'', ir_Path = ''/api'', ir_ServiceName = wl_Name w, ir_ServicePort = to_float64 6688\<rparr>"
  let ?p = "\<lparr>ig_Namespace = wl_Namespace w, ig_AppName = wl_AppName w, ig_AppInstance = wl_AppInstance w,
      ig_Name = wl_Name w @ ''-ingress'', ig_Annotations = [], ig_IngressClassName = [], ig_Rules = [?rule]\<rparr>"
  have "to_float64 6688 = 6688" by (rule to_float64_exact) (simp add: exact_def)
  then have "ingress_broken ?p = []"
    using f by (simp add: ingress_broken_def rule_broken_def missing_def)
  moreover have "NewMetadataFactory demo_verr (metadata_of (wl_Namespace w) (wl_AppName w) (wl_AppInstance w) (wl_Name w @ ''-ingress''))
     = Inr (metadata_of (wl_Namespace w) (wl_AppName w) (wl_AppInstance w) (wl_Name w @ ''-ingress''))"
    using f by (intro NewMetadataFactory_ok) simp_all
  ultimately obtain i where "ingress_New demo_verr ?p = Inr i" by (simp add: ingress_New_def)
  then have "ExposeViaIngress demo_verr w ''/api'' (Some \<lparr>ei_Name = [], ei_IngressClassName = [], ei_Ports = []\<rparr>) = Some (Inr (s, i))"
    using s n by (simp add: ExposeViaIngress_def demo_container_def port_of_container_def ingress_rule_for_def Let_def)
  with ingress_routes_to_service[OF this] show ?thesis by auto
qed

lemma WaitForRollout_runs_witness:
  "\<exists>r w. NewRunner \<lparr>re_testing = False, re_enable_exec = [], re_look_path = (\<lambda>p. Inr (''/bin/'' @ p))\<rparr>
      (Some (cc_manifest (WaitForRollout w))) = Inr r \<and> wl_Name w = ''node-0''
     \<and> m_onFailure (cc_manifest (WaitForRollout w)) = FailureAbort"
proof -
  from demo_deployed obtain w :: workload where "wl_Name w = ''node-0''" by blast
  moreover from WaitForRollout_runs[of "\<lparr>re_testing = False, re_enable_exec = [], re_look_path = (\<lambda>p. Inr (''/bin/'' @ p))\<rparr>" "''/bin/kubectl''" w]
  have "\<exists>r. NewRunner \<lparr>re_testing = False, re_enable_exec = [], re_look_path = (\<lambda>p. Inr (''/bin/'' @ p))\<rparr>
      (Some (cc_manifest (WaitForRollout w))) = Inr r \<and> m_onFailure (cc_manifest (WaitForRollout w)) = FailureAbort"
    by (auto simp: ActionKubectl_def ActionCmd_def)
  ultimately show ?thesis by blast
qed

end
