(* ===== verification/Values.thy ===== *)
theory Values
  imports Errors
begin

text \<open>
  Values of Helm charts: \<open>SetValueAtPath\<close> of internal/values_loaders.go, on the store the program
  mutates.  A Go value of type \<open>any\<close> is nil, a scalar, or a reference to a map or to a slice: a map is
  an address, a slice an address and a length, and the cells of an object are its entries.  The trees
  \<open>jval\<close> are the abstract values; the predicate \<open>tree\<close> relates both when no object is shared.
\<close>

section \<open>Trees and paths\<close>

text \<open>
  A value that is neither \<open>map[string]any\<close> nor \<open>[]any\<close> is a leaf: a string, a number, a boolean, and also a
  slice of strings and the maps of strings, which a step into them replaces.
\<close>

datatype scalar =
    SStr string | SInt int | SFloat string | SBool bool
  | SStrs "string list" | SStrMap "(string \<times> string) list" | SStrMaps "(string \<times> (string \<times> string) list) list"

text \<open>A step into a map or into a slice; the kind of an object.\<close>

datatype step = Field string | At nat

datatype kind = MapK | ArrK nat

datatype jval = JNil | JScalar scalar | JObj kind "step \<Rightarrow> jval option"

definition fits :: "step \<Rightarrow> jval \<Rightarrow> bool" where
  "fits s j = (case (s, j) of (Field _, JObj MapK _) \<Rightarrow> True | (At n, JObj (ArrK len) _) \<Rightarrow> n < len | _ \<Rightarrow> False)"

text \<open>The value a step is made in: a map, or a slice with room for the index.\<close>

definition nils :: "nat \<Rightarrow> step \<Rightarrow> jval option" where
  "nils n = (\<lambda>s. case s of At i \<Rightarrow> if i < n then Some JNil else None | Field _ \<Rightarrow> None)"

definition fit :: "step \<Rightarrow> jval \<Rightarrow> jval" where
  "fit s j =
     (case s of
        Field _ \<Rightarrow> (case j of JObj MapK c \<Rightarrow> JObj MapK c | _ \<Rightarrow> JObj MapK Map.empty)
      | At n \<Rightarrow>
          (case j of
             JObj (ArrK len) c \<Rightarrow> if len \<le> n then JObj (ArrK (n + 1)) (nils (n + 1) ++ c) else JObj (ArrK len) c
           | _ \<Rightarrow> JObj (ArrK (n + 1)) (nils (n + 1))))"

definition or_nil :: "jval option \<Rightarrow> jval" where
  "or_nil x = (case x of None \<Rightarrow> JNil | Some j \<Rightarrow> j)"

fun put :: "step list \<Rightarrow> jval \<Rightarrow> jval \<Rightarrow> jval" where
  "put [] v j = v"
| "put (s # ss) v j = (case fit s j of JObj k c \<Rightarrow> JObj k (c(s \<mapsto> put ss v (or_nil (c s)))) | x \<Rightarrow> x)"

definition cell :: "step \<Rightarrow> jval \<Rightarrow> jval option" where
  "cell s j = (if fits s j then (case j of JObj _ c \<Rightarrow> c s | _ \<Rightarrow> None) else None)"

fun look :: "step list \<Rightarrow> jval \<Rightarrow> jval option" where
  "look [] j = Some j"
| "look (s # ss) j = (case cell s j of None \<Rightarrow> None | Some x \<Rightarrow> look ss x)"

section \<open>The store\<close>

datatype hval = HNil | HScalar scalar | HRef kind nat

record heap =
  hp_cells :: "nat \<Rightarrow> step \<Rightarrow> hval option"
  hp_next :: nat

definition write_cell :: "heap \<Rightarrow> nat \<Rightarrow> step \<Rightarrow> hval \<Rightarrow> heap" where
  "write_cell h a s v = h\<lparr>hp_cells := (hp_cells h)(a := (hp_cells h a)(s \<mapsto> v))\<rparr>"

definition alloc :: "heap \<Rightarrow> (step \<Rightarrow> hval option) \<Rightarrow> heap \<times> nat" where
  "alloc h c = (h\<lparr>hp_cells := (hp_cells h)(hp_next h := c), hp_next := Suc (hp_next h)\<rparr>, hp_next h)"

definition hnils :: "nat \<Rightarrow> step \<Rightarrow> hval option" where
  "hnils n = (\<lambda>s. case s of At i \<Rightarrow> if i < n then Some HNil else None | Field _ \<Rightarrow> None)"

text \<open>
  Get or create the map in a cell, and the slice of a cell with room for an index: a value of
  another type is replaced, a slice that is too short is copied into a longer one.
\<close>

definition ensure_map :: "heap \<Rightarrow> nat \<Rightarrow> step \<Rightarrow> heap \<times> nat" where
  "ensure_map h a s =
     (case hp_cells h a s of
        Some (HRef MapK b) \<Rightarrow> (h, b)
      | _ \<Rightarrow> (case alloc h Map.empty of (h1, b) \<Rightarrow> (write_cell h1 a s (HRef MapK b), b)))"

definition ensure_arr :: "heap \<Rightarrow> nat \<Rightarrow> step \<Rightarrow> nat \<Rightarrow> heap \<times> nat" where
  "ensure_arr h a s idx =
     (case hp_cells h a s of
        Some (HRef (ArrK len) b) \<Rightarrow>
          if len \<le> idx
          then (case alloc h (hnils (idx + 1) ++ hp_cells h b) of
                  (h1, b1) \<Rightarrow> (write_cell h1 a s (HRef (ArrK (idx + 1)) b1), b1))
          else (h, b)
      | _ \<Rightarrow> (case alloc h (hnils (idx + 1)) of
                (h1, b1) \<Rightarrow> (write_cell h1 a s (HRef (ArrK (idx + 1)) b1), b1)))"

text \<open>
  A part of the path: a key, or a key with an index between brackets.  The index is what lies between
  the bracket and the last byte of the part; a part that ends at the bracket is a slice out of range,
  and a negative index is one in \<open>arr[idx]\<close> or \<open>make\<close>.
\<close>

datatype path_part = Key string | Index string nat | BadIndex | Panics

definition parse_part :: "string \<Rightarrow> path_part" where
  "parse_part part =
     (case first_index part CHR ''['' of
        None \<Rightarrow> Key part
      | Some idx \<Rightarrow>
          if length part - 1 < idx + 1 then Panics
          else
            (case atoi (take (length part - 1 - (idx + 1)) (drop (idx + 1) part)) of
               None \<Rightarrow> BadIndex
             | Some n \<Rightarrow> if n < 0 then Panics else Index (take idx part) (nat n)))"

text \<open>The loop over the parts; the result \<open>None\<close> is a panic.\<close>

fun set_parts :: "heap \<Rightarrow> nat \<Rightarrow> string list \<Rightarrow> hval \<Rightarrow> heap option" where
  "set_parts h current [] v = Some h"
| "set_parts h current [lastPart] v =
     (case parse_part lastPart of
        Key k \<Rightarrow> Some (write_cell h current (Field k) v)
      | Index k idx \<Rightarrow> (case ensure_arr h current (Field k) idx of (h1, arr) \<Rightarrow> Some (write_cell h1 arr (At idx) v))
      | BadIndex \<Rightarrow> Some h
      | Panics \<Rightarrow> None)"
| "set_parts h current (part # parts) v =
     (case parse_part part of
        Key k \<Rightarrow> (case ensure_map h current (Field k) of (h1, nxt) \<Rightarrow> set_parts h1 nxt parts v)
      | Index k idx \<Rightarrow>
          (case ensure_arr h current (Field k) idx of
             (h1, arr) \<Rightarrow> (case ensure_map h1 arr (At idx) of (h2, nxt) \<Rightarrow> set_parts h2 nxt parts v))
      | BadIndex \<Rightarrow> Some h
      | Panics \<Rightarrow> None)"

definition SetValueAtPath :: "heap \<Rightarrow> nat \<Rightarrow> string \<Rightarrow> hval \<Rightarrow> heap option" where
  "SetValueAtPath h m path v = set_parts h m (split_on CHR ''.'' path) v"

section \<open>Laws of the trees\<close>

lemma fits_fit [simp]: "fits s (fit s j)"
  by (auto simp: fits_def fit_def split: step.splits jval.splits kind.splits)

lemma fit_id: "fits s j \<Longrightarrow> fit s j = j"
  by (auto simp: fits_def fit_def split: step.splits jval.splits kind.splits)

lemma fitsE: "fits s j \<Longrightarrow> (\<And>k c. j = JObj k c \<Longrightarrow> thesis) \<Longrightarrow> thesis"
  by (auto simp: fits_def split: step.splits jval.splits)

text \<open>Two steps that branch off each other: two keys, or two indices.\<close>

definition branch :: "step \<Rightarrow> step \<Rightarrow> bool" where
  "branch s t = (case (s, t) of (Field k, Field l) \<Rightarrow> k \<noteq> l | (At i, At j) \<Rightarrow> i \<noteq> j | _ \<Rightarrow> False)"

lemma fits_upd: "fits t (JObj k (c(s \<mapsto> x))) = fits t (JObj k c)"
  by (auto simp: fits_def split: step.splits kind.splits)

lemma cell_fit:
  assumes "branch s t" "cell t j = Some x"
  shows "cell t (fit s j) = Some x"
  using assms
  by (auto simp: cell_def fits_def fit_def branch_def map_add_def split: if_splits step.splits jval.splits kind.splits)

lemma put_get: "look p (put p v j) = Some v"
proof (induction p arbitrary: j)
  case (Cons s ss)
  obtain k c where "fit s j = JObj k c" by (rule fitsE[OF fits_fit])
  with Cons fits_fit[of s j] show ?case by (simp add: cell_def fits_upd)
qed simp

lemma put_put: "put p w (put p v j) = put p w j"
proof (induction p arbitrary: j)
  case (Cons s ss)
  obtain k c where f: "fit s j = JObj k c" by (rule fitsE[OF fits_fit])
  have "fit s (JObj k (c(s \<mapsto> x))) = JObj k (c(s \<mapsto> x))" for x
    using fits_fit[of s j] f by (intro fit_id) (simp add: fits_upd)
  with Cons f show ?case by (simp add: or_nil_def)
qed simp

lemma put_frame:
  "branch s t \<Longrightarrow> look (p @ t # q) j = Some x \<Longrightarrow> look (p @ t # q) (put (p @ s # r) v j) = Some x"
proof (induction p arbitrary: j)
  case Nil
  then obtain y where y: "cell t j = Some y" "look q y = Some x" by (auto split: option.splits)
  obtain k c where f: "fit s j = JObj k c" by (rule fitsE[OF fits_fit])
  from cell_fit[OF Nil(1) y(1)] f have "fits t (JObj k c)" "c t = Some y" by (auto simp: cell_def split: if_splits)
  moreover have "s \<noteq> t" using Nil(1) by (auto simp: branch_def split: step.splits)
  ultimately show ?case using f y(2) by (simp add: cell_def fits_upd)
next
  case (Cons u p)
  then obtain y where y: "cell u j = Some y" "look (p @ t # q) y = Some x" by (auto split: option.splits)
  then obtain k c where j: "j = JObj k c" "fits u j" "c u = Some y"
    by (auto simp: cell_def split: if_splits jval.splits)
  with Cons.IH[OF Cons.prems(1) y(2)] show ?case by (simp add: fit_id or_nil_def cell_def fits_upd)
qed

text \<open>
  The laws of an update along a path: what was put is found, putting again replaces, and a path that
  branches off keeps its value.
\<close>

locale path_store =
  fixes upd :: "'p list \<Rightarrow> 'v \<Rightarrow> 'v \<Rightarrow> 'v"
    and get :: "'p list \<Rightarrow> 'v \<Rightarrow> 'v option"
    and br :: "'p \<Rightarrow> 'p \<Rightarrow> bool"
  assumes put_get: "get p (upd p v j) = Some v"
    and put_put: "upd p w (upd p v j) = upd p w j"
    and frame: "br s t \<Longrightarrow> get (p @ t # q) j = Some x \<Longrightarrow> get (p @ t # q) (upd (p @ s # r) v j) = Some x"
begin

text \<open>Several patches, none of them along another: all of them are found in the result.\<close>

definition independent :: "'p list \<Rightarrow> 'p list \<Rightarrow> bool" where
  "independent p q \<longleftrightarrow> (\<exists>c s t r u. br s t \<and> p = c @ s # r \<and> q = c @ t # u)"

lemma kept: "independent p q \<Longrightarrow> get q j = Some x \<Longrightarrow> get q (upd p v j) = Some x"
  using frame by (auto simp: independent_def)

lemma patches_found:
  assumes "pairwise (\<lambda>a b. independent (fst a) (fst b)) (set ps)" "distinct ps" "(p, v) \<in> set ps"
  shows "get p (fold (\<lambda>(q, w). upd q w) ps j) = Some v"
  using assms
proof (induction ps rule: rev_induct)
  case (snoc a ps)
  show ?case
  proof (cases "a = (p, v)")
    case True
    then show ?thesis by (simp add: put_get)
  next
    case False
    then have "(p, v) \<in> set ps" using snoc.prems(3) by simp
    then have "get p (fold (\<lambda>(q, w). upd q w) ps j) = Some v"
      using snoc.IH snoc.prems(1,2) by (auto simp: pairwise_insert)
    moreover have "independent (fst a) p"
      using pairwiseD[OF snoc.prems(1), of a "(p, v)"] False snoc.prems(3) by simp
    ultimately show ?thesis using kept by (simp add: case_prod_unfold)
  qed
qed simp

end

interpretation trees: path_store put look branch
  by unfold_locales (rule put_get, rule put_put, rule put_frame)

section \<open>Trees in the store\<close>

text \<open>
  \<open>tree H x y S\<close>: in the cells \<open>H\<close> the value \<open>x\<close> is the tree \<open>y\<close>, none of whose objects, which
  are at the addresses \<open>S\<close>, is referred to twice.
\<close>

inductive tree :: "(nat \<Rightarrow> step \<Rightarrow> hval option) \<Rightarrow> hval \<Rightarrow> jval \<Rightarrow> nat set \<Rightarrow> bool" for H where
  tree_nil: "tree H HNil JNil {}"
| tree_scalar: "tree H (HScalar s) (JScalar s) {}"
| tree_obj: "(\<And>s. H a s = None \<longleftrightarrow> c s = None) \<Longrightarrow> (\<And>s x y. H a s = Some x \<Longrightarrow> c s = Some y \<Longrightarrow> tree H x y (F s)) \<Longrightarrow>
    (\<And>s. H a s = None \<Longrightarrow> F s = {}) \<Longrightarrow> (\<And>s. a \<notin> F s) \<Longrightarrow> (\<And>s t z. z \<in> F s \<Longrightarrow> z \<in> F t \<Longrightarrow> s = t) \<Longrightarrow>
    tree H (HRef k a) (JObj k c) (insert a (\<Union>s. F s))"

inductive_cases tree_objE: "tree H (HRef k a) y S"
inductive_simps tree_atoms: "tree H HNil y S" "tree H (HScalar s) y S"

text \<open>The object at an address, with the addresses of each of its entries.\<close>

definition object :: "(nat \<Rightarrow> step \<Rightarrow> hval option) \<Rightarrow> nat \<Rightarrow> (step \<Rightarrow> jval option) \<Rightarrow> (step \<Rightarrow> nat set) \<Rightarrow> bool" where
  "object H a c F \<longleftrightarrow>
     (\<forall>s. H a s = None \<longleftrightarrow> c s = None) \<and> (\<forall>s x y. H a s = Some x \<longrightarrow> c s = Some y \<longrightarrow> tree H x y (F s))
     \<and> (\<forall>s. H a s = None \<longrightarrow> F s = {}) \<and> (\<forall>s. a \<notin> F s) \<and> (\<forall>s t z. z \<in> F s \<longrightarrow> z \<in> F t \<longrightarrow> s = t)"

lemma objectD:
  assumes "object H a c F"
  shows "H a s = None \<longleftrightarrow> c s = None" "H a s = Some x \<Longrightarrow> c s = Some y \<Longrightarrow> tree H x y (F s)"
    "H a s = None \<Longrightarrow> F s = {}" "a \<notin> F s" "z \<in> F s \<Longrightarrow> z \<in> F t \<Longrightarrow> s = t"
  using assms unfolding object_def by blast+

lemma objectI:
  "(\<And>s. H a s = None \<longleftrightarrow> c s = None) \<Longrightarrow> (\<And>s x y. H a s = Some x \<Longrightarrow> c s = Some y \<Longrightarrow> tree H x y (F s)) \<Longrightarrow>
    (\<And>s. H a s = None \<Longrightarrow> F s = {}) \<Longrightarrow> (\<And>s. a \<notin> F s) \<Longrightarrow> (\<And>s t z. z \<in> F s \<Longrightarrow> z \<in> F t \<Longrightarrow> s = t) \<Longrightarrow>
    object H a c F"
  unfolding object_def by blast

lemma tree_object: "tree H (HRef k a) (JObj k c) S \<longleftrightarrow> (\<exists>F. object H a c F \<and> S = insert a (\<Union>s. F s))"
proof
  assume "tree H (HRef k a) (JObj k c) S"
  then show "\<exists>F. object H a c F \<and> S = insert a (\<Union>s. F s)"
  proof (cases rule: tree.cases)
    case (tree_obj F)
    then have "object H a c F" by (intro objectI) blast+
    with tree_obj show ?thesis by blast
  qed
next
  assume "\<exists>F. object H a c F \<and> S = insert a (\<Union>s. F s)"
  then obtain F where F: "object H a c F" "S = insert a (\<Union>s. F s)" by blast
  show "tree H (HRef k a) (JObj k c) S"
    unfolding F(2) by (rule tree_obj) (use objectD[OF F(1)] in blast)+
qed

lemma tree_frame: "tree H x y S \<Longrightarrow> (\<And>z. z \<in> S \<Longrightarrow> H' z = H z) \<Longrightarrow> tree H' x y S"
proof (induction rule: tree.induct)
  case (tree_obj a c F k)
  then have a: "H' a = H a" by simp
  have "tree H' x y (F s)" if "H a s = Some x" "c s = Some y" for s x y
    using tree_obj.IH[OF that] tree_obj.prems by blast
  with tree_obj.hyps a show ?case by (intro tree.tree_obj) auto
qed (auto intro: tree.intros)

lemma object_frame:
  assumes "object H a c F" "H' a = H a" "\<And>s z. z \<in> F s \<Longrightarrow> H' z = H z"
  shows "object H' a c F"
proof (rule objectI)
  fix s x y assume "H' a s = Some x" "c s = Some y"
  then show "tree H' x y (F s)" using objectD(2)[OF assms(1)] assms(2,3) tree_frame by metis
qed (use objectD[OF assms(1)] assms(2) in auto)

lemma object_update:
  assumes "object H a c F" "H' a = (H a)(s \<mapsto> x)" "tree H' x y G" "a \<notin> G"
    and "\<And>t z. t \<noteq> s \<Longrightarrow> z \<in> F t \<Longrightarrow> z \<notin> G \<and> H' z = H z"
  shows "object H' a (c(s \<mapsto> y)) (F(s := G))"
proof (rule objectI)
  fix t x' y'
  assume "H' a t = Some x'" "(c(s \<mapsto> y)) t = Some y'"
  then show "tree H' x' y' ((F(s := G)) t)"
    using assms(2,3) assms(5)[of t] tree_frame[OF objectD(2)[OF assms(1)]] by (cases "t = s") auto
next
  fix t u z
  assume "z \<in> (F(s := G)) t" "z \<in> (F(s := G)) u"
  then show "t = u" using assms(5)[of t z] assms(5)[of u z] objectD(5)[OF assms(1)] by (auto split: if_splits)
qed (use objectD[OF assms(1)] assms(2,4) in \<open>auto split: if_splits\<close>)

lemma object_new:
  assumes "\<And>s. H a s = None \<longleftrightarrow> c s = None" "\<And>s x. H a s = Some x \<Longrightarrow> x = HNil \<and> c s = Some JNil"
  shows "object H a c (\<lambda>_. {})"
  by (rule objectI) (use assms in \<open>auto intro: tree_nil\<close>)

text \<open>The cell in which the next step is made.\<close>

definition ensure :: "heap \<Rightarrow> nat \<Rightarrow> step \<Rightarrow> step \<Rightarrow> heap \<times> nat" where
  "ensure h a s t = (case t of Field _ \<Rightarrow> ensure_map h a s | At n \<Rightarrow> ensure_arr h a s n)"

fun hput :: "heap \<Rightarrow> nat \<Rightarrow> step list \<Rightarrow> hval \<Rightarrow> heap" where
  "hput h a [] v = h"
| "hput h a [s] v = write_cell h a s v"
| "hput h a (s # t # ss) v = (case ensure h a s t of (h1, b) \<Rightarrow> hput h1 b (t # ss) v)"

text \<open>What a step may do to the store: below \<open>n\<close> it writes only the addresses of \<open>S\<close>.\<close>

definition within :: "heap \<Rightarrow> nat set \<Rightarrow> heap \<Rightarrow> nat set \<Rightarrow> bool" where
  "within h S h' S' \<longleftrightarrow> hp_next h \<le> hp_next h' \<and> S' \<subseteq> {..<hp_next h'} \<and> S' \<inter> {..<hp_next h} \<subseteq> S
     \<and> (\<forall>x < hp_next h. x \<notin> S \<longrightarrow> hp_cells h' x = hp_cells h x)"

lemma alloc_tree:
  assumes "object (hp_cells h) a c F" "insert a (\<Union>s. F s) \<subseteq> {..<hp_next h}"
    and "alloc h cs = (h1, b)" "object ((hp_cells h)(b := cs)) b c' F'" "\<And>t. F' t \<subseteq> F s"
  shows "\<exists>G. object (hp_cells (write_cell h1 a s (HRef k b))) a (c(s \<mapsto> JObj k c')) (F(s := G))
    \<and> within h (insert a (\<Union>s. F s)) (write_cell h1 a s (HRef k b)) (insert a (\<Union>t. (F(s := G)) t))"
proof -
  let ?G = "insert b (\<Union>t. F' t)" and ?h = "write_cell h1 a s (HRef k b)"
  have b: "b = hp_next h" "hp_cells h1 = (hp_cells h)(b := cs)" "hp_next h1 = Suc (hp_next h)"
    using assms(3) by (auto simp: alloc_def)
  have lt: "a < hp_next h" "\<And>t. F t \<subseteq> {..<hp_next h}" using assms(2) by auto
  have cells: "hp_cells ?h = (hp_cells h)(b := cs, a := (hp_cells h a)(s \<mapsto> HRef k b))"
    using b lt(1) by (auto simp: write_cell_def)
  have "tree ((hp_cells h)(b := cs)) (HRef k b) (JObj k c') ?G"
    using assms(4) by (auto simp: tree_object)
  moreover have a: "a \<notin> ?G" using lt(1) b(1) assms(5) objectD(4)[OF assms(1), of s] by auto
  ultimately have t: "tree (hp_cells ?h) (HRef k b) (JObj k c') ?G"
    by (elim tree_frame) (auto simp: cells)
  have "object (hp_cells ?h) a (c(s \<mapsto> JObj k c')) (F(s := ?G))"
  proof (rule object_update[OF assms(1) _ t a])
    show "hp_cells ?h a = (hp_cells h a)(s \<mapsto> HRef k b)" by (simp add: cells)
  next
    fix u z assume u: "u \<noteq> s" "z \<in> F u"
    then have "z < hp_next h" "z \<noteq> a" "z \<notin> F s"
      using lt(2)[of u] objectD(4,5)[OF assms(1)] by auto
    moreover from this have "z \<noteq> b" using b(1) by simp
    with \<open>z \<noteq> a\<close> have "hp_cells ?h z = hp_cells h z" unfolding cells by simp
    ultimately show "z \<notin> ?G \<and> hp_cells ?h z = hp_cells h z" using assms(5) b(1) by auto
  qed
  moreover have "within h (insert a (\<Union>s. F s)) ?h (insert a (\<Union>t. (F(s := ?G)) t))"
    unfolding within_def
  proof (intro conjI allI impI)
    show "hp_next h \<le> hp_next ?h" using b by (simp add: write_cell_def)
  next
    show "insert a (\<Union>t. (F(s := ?G)) t) \<subseteq> {..<hp_next ?h}"
      using b lt assms(5) by (fastforce simp: write_cell_def split: if_splits)
  next
    show "insert a (\<Union>t. (F(s := ?G)) t) \<inter> {..<hp_next h} \<subseteq> insert a (\<Union>s. F s)"
      using b(1) assms(5) by (auto split: if_splits)
  next
    fix x assume "x < hp_next h" "x \<notin> insert a (\<Union>s. F s)"
    then have "x \<noteq> b" "x \<noteq> a" using b(1) by auto
    then show "hp_cells ?h x = hp_cells h x" unfolding cells by simp
  qed
  ultimately show ?thesis by blast
qed

lemma object_entry:
  assumes "object H a c F" "H a s = Some x"
  obtains y where "c s = Some y" "tree H x y (F s)"
  using objectD(1,2)[OF assms(1)] assms(2) by (metis not_None_eq)

lemma within_refl: "S \<subseteq> {..<hp_next h} \<Longrightarrow> within h S h S"
  by (simp add: within_def)

lemma hnils_nils: "object H b (nils n) (\<lambda>_. {})" if "H b = hnils n"
  by (rule object_new) (auto simp: that hnils_def nils_def split: step.splits if_splits)

text \<open>An array that grows is a new object with the entries of the old one and nils.\<close>

lemma object_grow:
  assumes "object H a0 c0 F0" "H b = hnils n ++ H a0" "b \<notin> (\<Union>s. F0 s)"
  shows "object H b (nils n ++ c0) F0"
proof (rule objectI)
  fix s x y
  assume x: "H b s = Some x" and y: "(nils n ++ c0) s = Some y"
  show "tree H x y (F0 s)"
  proof (cases "H a0 s")
    case None
    then have "F0 s = {}" "hnils n s = Some x" "nils n s = Some y"
      using objectD(1,3)[OF assms(1), of s] x y assms(2) by (auto simp: map_add_def)
    then show ?thesis by (auto simp: hnils_def nils_def intro: tree_nil split: step.splits if_splits)
  next
    case (Some z)
    then obtain w where "c0 s = Some w" "tree H z w (F0 s)" using object_entry[OF assms(1)] by blast
    with Some x y assms(2) show ?thesis by (simp add: map_add_def)
  qed
next
  fix s show "H b s = None \<longleftrightarrow> (nils n ++ c0) s = None"
    using objectD(1)[OF assms(1), of s] assms(2)
    by (auto simp: map_add_def hnils_def nils_def split: step.splits option.splits)
next
  fix s assume "H b s = None"
  then show "F0 s = {}" using objectD(3)[OF assms(1), of s] assms(2) by (auto simp: map_add_def split: option.splits)
qed (use objectD(5)[OF assms(1)] assms(3) in auto)

lemma tree_ref: "tree H (HRef k b) y S \<Longrightarrow> \<exists>c. y = JObj k c" "tree H x (JObj k c) S \<Longrightarrow> \<exists>b. x = HRef k b"
  by (auto elim: tree.cases)

lemma ensure_tree:
  assumes "object (hp_cells h) a c F" "insert a (\<Union>s. F s) \<subseteq> {..<hp_next h}" "ensure h a s t = (h1, b)"
  shows "\<exists>k' c' G. fit t (or_nil (c s)) = JObj k' c' \<and> object (hp_cells h1) a (c(s \<mapsto> JObj k' c')) (F(s := G))
    \<and> hp_cells h1 a s = Some (HRef k' b) \<and> within h (insert a (\<Union>s. F s)) h1 (insert a (\<Union>u. (F(s := G)) u))"
proof -
  have keep: ?thesis if "hp_cells h a s = Some (HRef k' b)" "fits t (or_nil (c s))" "h1 = h" for k'
  proof -
    from object_entry[OF assms(1) that(1)] obtain y where y: "c s = Some y" "tree (hp_cells h) (HRef k' b) y (F s)" .
    then obtain c' where c': "y = JObj k' c'" using tree_ref(1) by blast
    with y(1) have "c(s \<mapsto> JObj k' c') = c" "F(s := F s) = F" by auto
    moreover have "fit t (or_nil (c s)) = JObj k' c'" using fit_id[OF that(2)] y(1) c' by (simp add: or_nil_def)
    ultimately show ?thesis using assms(1,2) that(1,3) within_refl by metis
  qed
  have fresh: ?thesis
    if al: "alloc h cs = (h1', b)" "h1 = write_cell h1' a s (HRef k' b)" "fit t (or_nil (c s)) = JObj k' c'"
      and ob: "object ((hp_cells h)(b := cs)) b c' F'" "\<And>u. F' u \<subseteq> F s" for cs h1' k' c' F'
  proof -
    from alloc_tree[OF assms(1,2) al(1) ob, of k'] al(2) obtain G where
      "object (hp_cells h1) a (c(s \<mapsto> JObj k' c')) (F(s := G))"
      "within h (insert a (\<Union>s. F s)) h1 (insert a (\<Union>t. (F(s := G)) t))" by blast
    moreover have "hp_cells h1 a s = Some (HRef k' b)" by (simp add: al(2) write_cell_def)
    ultimately show ?thesis using al(3) by blast
  qed
  have bl: "alloc h cs = (h1', b) \<Longrightarrow> b = hp_next h" for cs h1' by (simp add: alloc_def)
  have entry: "\<exists>y. c s = Some y \<and> tree (hp_cells h) x y (F s)" if "hp_cells h a s = Some x" for x
    using object_entry[OF assms(1) that] by metis
  have noentry: "\<exists>b0. hp_cells h a s = Some (HRef k' b0)" if "or_nil (c s) = JObj k' c0" for k' c0
  proof -
    from that have "c s = Some (JObj k' c0)" by (auto simp: or_nil_def split: option.splits)
    then obtain x where "hp_cells h a s = Some x" "tree (hp_cells h) x (JObj k' c0) (F s)"
      using objectD(1,2)[OF assms(1)] by (metis not_None_eq)
    with tree_ref(2) show ?thesis by blast
  qed
  show ?thesis
  proof (cases t)
    case (Field f)
    show ?thesis
    proof (cases "\<exists>b0. hp_cells h a s = Some (HRef MapK b0)")
      case True
      then obtain b0 where b0: "hp_cells h a s = Some (HRef MapK b0)" by blast
      with assms(3) Field have "h1 = h" "b = b0" by (simp_all add: ensure_def ensure_map_def)
      moreover obtain c0 where "c s = Some (JObj MapK c0)" using entry[OF b0] tree_ref(1) by metis
      then have "fits t (or_nil (c s))" using Field by (simp add: or_nil_def fits_def)
      ultimately show ?thesis using keep b0 by blast
    next
      case False
      then obtain h1' where al: "alloc h Map.empty = (h1', b)" "h1 = write_cell h1' a s (HRef MapK b)"
        using assms(3) Field
        by (auto simp: ensure_def ensure_map_def split: option.splits hval.splits kind.splits prod.splits)
      have "fit t (or_nil (c s)) = JObj MapK Map.empty"
        using False noentry[of MapK] Field by (auto simp: fit_def split: jval.splits kind.splits)
      then show ?thesis by (rule fresh[OF al, where F' = "\<lambda>_. {}"]) (auto intro: object_new)
    qed
  next
    case (At n)
    show ?thesis
    proof (cases "\<exists>len b0. hp_cells h a s = Some (HRef (ArrK len) b0)")
      case True
      then obtain len b0 where b0: "hp_cells h a s = Some (HRef (ArrK len) b0)" by blast
      from entry[OF b0] obtain c0 where c0: "c s = Some (JObj (ArrK len) c0)" "tree (hp_cells h) (HRef (ArrK len) b0) (JObj (ArrK len) c0) (F s)"
        using tree_ref(1) by metis
      then obtain F0 where F0: "object (hp_cells h) b0 c0 F0" "F s = insert b0 (\<Union>u. F0 u)" by (auto simp: tree_object)
      show ?thesis
      proof (cases "len \<le> n")
        case False
        with assms(3) At b0 have "h1 = h" "b = b0" by (simp_all add: ensure_def ensure_arr_def)
        with keep b0 c0(1) False At show ?thesis by (simp add: or_nil_def fits_def)
      next
        case True
        then obtain h1' where al: "alloc h (hnils (n + 1) ++ hp_cells h b0) = (h1', b)"
          "h1 = write_cell h1' a s (HRef (ArrK (n + 1)) b)"
          using assms(3) At b0 by (auto simp: ensure_def ensure_arr_def split: prod.splits)
        have lt: "F s \<subseteq> {..<hp_next h}" using assms(2) by auto
        have "fit t (or_nil (c s)) = JObj (ArrK (n + 1)) (nils (n + 1) ++ c0)"
          using True c0(1) At by (simp add: or_nil_def fit_def)
        moreover have "object ((hp_cells h)(b := hnils (n + 1) ++ hp_cells h b0)) b (nils (n + 1) ++ c0) F0"
        proof (rule object_grow)
          have "b \<noteq> b0" "b \<notin> F0 u" for u using F0(2) lt bl[OF al(1)] by auto
          then show "object ((hp_cells h)(b := hnils (n + 1) ++ hp_cells h b0)) b0 c0 F0"
            "((hp_cells h)(b := hnils (n + 1) ++ hp_cells h b0)) b
              = hnils (n + 1) ++ ((hp_cells h)(b := hnils (n + 1) ++ hp_cells h b0)) b0"
            "b \<notin> (\<Union>u. F0 u)"
            by (auto intro!: object_frame[OF F0(1)])
        qed
        ultimately show ?thesis by (rule fresh[OF al]) (use F0(2) in auto)
      qed
    next
      case False
      then obtain h1' where al: "alloc h (hnils (n + 1)) = (h1', b)" "h1 = write_cell h1' a s (HRef (ArrK (n + 1)) b)"
        using assms(3) At
        by (auto simp: ensure_def ensure_arr_def split: option.splits hval.splits kind.splits prod.splits)
      have "fit t (or_nil (c s)) = JObj (ArrK (n + 1)) (nils (n + 1))"
        using False noentry At by (auto simp: fit_def split: jval.splits kind.splits)
      then show ?thesis by (rule fresh[OF al, where F' = "\<lambda>_. {}"]) (auto intro: hnils_nils)
    qed
  qed
qed

lemma ensure_map_at [simp]: "ensure h a s (Field k) = ensure_map h a s" "ensure h a s (At n) = ensure_arr h a s n"
  by (simp_all add: ensure_def)

lemma fit_fit: "fit t (fit t j) = fit t j"
  by (simp add: fit_id)

lemma put_fit: "put (t # ss) v (fit t j) = put (t # ss) v j"
  by (simp add: fit_fit)

lemma hput_object:
  "object (hp_cells h) a c F \<Longrightarrow> insert a (\<Union>u. F u) \<subseteq> {..<hp_next h} \<Longrightarrow> fits s (JObj k c) \<Longrightarrow>
     tree (hp_cells h) v jv V \<Longrightarrow> V \<subseteq> {..<hp_next h} \<Longrightarrow> V \<inter> insert a (\<Union>u. F u) = {} \<Longrightarrow>
     \<exists>c' F'. put (s # ss) jv (JObj k c) = JObj k c' \<and> object (hp_cells (hput h a (s # ss) v)) a c' F'
       \<and> within h (insert a (\<Union>u. F u) \<union> V) (hput h a (s # ss) v) (insert a (\<Union>u. F' u))
       \<and> (\<forall>x < hp_next h. x \<notin> insert a (\<Union>u. F u) \<longrightarrow> hp_cells (hput h a (s # ss) v) x = hp_cells h x)"
proof (induction ss arbitrary: h a c F s k)
  case Nil
  let ?h = "write_cell h a s v"
  have cells: "hp_cells ?h = (hp_cells h)(a := (hp_cells h a)(s \<mapsto> v))" by (simp add: write_cell_def)
  have a: "a \<notin> V" "\<And>z. z \<in> V \<Longrightarrow> z \<notin> F u" for u using Nil.prems(6) by auto
  then have t: "tree (hp_cells ?h) v jv V" using Nil.prems(4) by (elim tree_frame) (auto simp: cells)
  have "object (hp_cells ?h) a (c(s \<mapsto> jv)) (F(s := V))"
    by (rule object_update[OF Nil.prems(1) _ t a(1)])
      (use a(2) objectD(4)[OF Nil.prems(1)] in \<open>auto simp: cells\<close>)
  moreover have "within h (insert a (\<Union>u. F u) \<union> V) ?h (insert a (\<Union>u. (F(s := V)) u))"
    using Nil.prems(2,5) by (fastforce simp: within_def cells write_cell_def split: if_splits)
  moreover have "put [s] jv (JObj k c) = JObj k (c(s \<mapsto> jv))" using Nil.prems(3) by (simp add: fit_id)
  moreover have "\<forall>x < hp_next h. x \<notin> insert a (\<Union>u. F u) \<longrightarrow> hp_cells ?h x = hp_cells h x" by (simp add: cells)
  ultimately show ?case unfolding hput.simps by blast
next
  case (Cons t ss)
  let ?S = "insert a (\<Union>u. F u)"
  obtain h1 b where e: "ensure h a s t = (h1, b)" by fastforce
  from ensure_tree[OF Cons.prems(1,2) e] obtain k' c' G where
    f: "fit t (or_nil (c s)) = JObj k' c'" and ob: "object (hp_cells h1) a (c(s \<mapsto> JObj k' c')) (F(s := G))"
    and ref: "hp_cells h1 a s = Some (HRef k' b)" and w: "within h ?S h1 (insert a (\<Union>u. (F(s := G)) u))" by blast
  have "tree (hp_cells h1) (HRef k' b) (JObj k' c') G" using objectD(2)[OF ob ref] by simp
  then obtain F1 where F1: "object (hp_cells h1) b c' F1" "G = insert b (\<Union>u. F1 u)" by (auto simp: tree_object)
  have G: "G \<subseteq> {..<hp_next h1}" "G \<inter> {..<hp_next h} \<subseteq> ?S" using w by (auto simp: within_def)
  have V: "V \<inter> G = {}" "V \<subseteq> {..<hp_next h1}" using Cons.prems(5,6) G(2) w by (auto simp: within_def)
  have tv: "tree (hp_cells h1) v jv V"
  proof (rule tree_frame[OF Cons.prems(4)])
    fix z assume "z \<in> V"
    then have "z < hp_next h" "z \<notin> ?S" using Cons.prems(5,6) by auto
    with w show "hp_cells h1 z = hp_cells h z" unfolding within_def by blast
  qed
  let ?h2 = "hput h1 b (t # ss) v"
  have "fits t (JObj k' c')" using f fits_fit by metis
  from Cons.IH[OF F1(1) _ this tv V(2)] G(1) V(1) F1(2) obtain c2 F2 where
    p2: "put (t # ss) jv (JObj k' c') = JObj k' c2" and o2: "object (hp_cells ?h2) b c2 F2"
    and w2: "within h1 (G \<union> V) ?h2 (insert b (\<Union>u. F2 u))"
    and same: "\<And>x. x < hp_next h1 \<Longrightarrow> x \<notin> G \<Longrightarrow> hp_cells ?h2 x = hp_cells h1 x" by blast
  let ?G2 = "insert b (\<Union>u. F2 u)"
  have t2: "tree (hp_cells ?h2) (HRef k' b) (JObj k' c2) ?G2" using o2 by (auto simp: tree_object)
  have a: "a < hp_next h1" "a \<notin> G" "a \<notin> V"
    using Cons.prems(2,6) w objectD(4)[OF ob, of s] by (auto simp: within_def)
  then have a2: "a \<notin> ?G2" using w2 by (auto simp: within_def)
  have other: "z \<notin> ?G2 \<and> hp_cells ?h2 z = hp_cells h1 z" if "u \<noteq> s" "z \<in> F u" for u z
  proof -
    have "z < hp_next h" "z \<notin> V" using that(2) Cons.prems(2,6) by auto
    moreover have "z \<notin> G" using objectD(5)[OF ob, of z u s] that by auto
    ultimately have "z < hp_next h1" "z \<notin> G \<union> V" using w by (auto simp: within_def)
    then show ?thesis using same[of z] w2 by (auto simp: within_def)
  qed
  have fin: "object (hp_cells ?h2) a (c(s \<mapsto> JObj k' c2)) (F(s := ?G2))"
  proof -
    have "hp_cells ?h2 a = (hp_cells h1 a)(s \<mapsto> HRef k' b)" using same[OF a(1,2)] ref by auto
    from object_update[OF ob this t2 a2] other show ?thesis by auto
  qed
  have wf: "within h (?S \<union> V) ?h2 (insert a (\<Union>u. (F(s := ?G2)) u))"
    unfolding within_def
  proof (intro conjI allI impI)
    show "hp_next h \<le> hp_next ?h2" using w w2 by (simp add: within_def)
  next
    have "insert a (\<Union>u. F u) \<subseteq> {..<hp_next ?h2}" using Cons.prems(2) w w2 by (fastforce simp: within_def)
    then show "insert a (\<Union>u. (F(s := ?G2)) u) \<subseteq> {..<hp_next ?h2}"
      using w2 by (auto simp: within_def split: if_splits)
  next
    have "z \<in> ?S \<union> V" if "z \<in> ?G2" "z < hp_next h" for z
    proof -
      have "z < hp_next h1" using that(2) w by (simp add: within_def)
      then have "z \<in> G \<union> V" using w2 that(1) unfolding within_def by blast
      then show ?thesis using G(2) that(2) by blast
    qed
    then show "insert a (\<Union>u. (F(s := ?G2)) u) \<inter> {..<hp_next h} \<subseteq> ?S \<union> V" by (auto split: if_splits)
  next
    fix x assume "x < hp_next h" "x \<notin> ?S \<union> V"
    then have "x < hp_next h1" "x \<notin> G" "hp_cells h1 x = hp_cells h x" using w G(2) by (auto simp: within_def)
    with same show "hp_cells ?h2 x = hp_cells h x" by simp
  qed
  have "put (s # t # ss) jv (JObj k c) = JObj k (c(s \<mapsto> JObj k' c2))"
    using Cons.prems(3) p2 f put_fit[of t ss jv "or_nil (c s)"] by (simp add: fit_id del: put.simps(2)) (simp add: fit_id)
  moreover have "hp_cells ?h2 x = hp_cells h x" if "x < hp_next h" "x \<notin> ?S" for x
  proof -
    have "x < hp_next h1" "x \<notin> G" "hp_cells h1 x = hp_cells h x" using that w G(2) by (auto simp: within_def)
    with same show ?thesis by simp
  qed
  ultimately show ?case using fin wf e by auto
qed

section \<open>SetValueAtPath implements the update\<close>

fun steps_of :: "string list \<Rightarrow> step list option" where
  "steps_of [] = Some []"
| "steps_of (part # parts) =
     (case (parse_part part, steps_of parts) of
        (Key k, Some ss) \<Rightarrow> Some (Field k # ss)
      | (Index k n, Some ss) \<Rightarrow> Some (Field k # At n # ss)
      | _ \<Rightarrow> None)"

definition path_steps :: "string \<Rightarrow> step list option" where
  "path_steps path = steps_of (split_on CHR ''.'' path)"

lemma steps_of_Field: "steps_of parts = Some ss \<Longrightarrow> parts \<noteq> [] \<Longrightarrow> \<exists>k ts. ss = Field k # ts"
  by (cases parts) (auto split: path_part.splits option.splits)

lemma set_parts_hput:
  "steps_of parts = Some ss \<Longrightarrow> parts \<noteq> [] \<Longrightarrow> set_parts h a parts v = Some (hput h a ss v)"
proof (induction h a parts v arbitrary: ss rule: set_parts.induct)
  case (2 h current lastPart v)
  then show ?case by (auto split: path_part.splits prod.splits)
next
  case (3 h current part p ps v)
  from 3(3) obtain ss' where ss': "steps_of (p # ps) = Some ss'"
    by (auto simp del: steps_of.simps(2) simp: steps_of.simps(2)[of part] split: path_part.splits option.splits)
  then obtain k ts where k: "ss' = Field k # ts" using steps_of_Field by blast
  from 3(3) ss' have ss: "(\<exists>f. parse_part part = Key f \<and> ss = Field f # ss')
      \<or> (\<exists>f n. parse_part part = Index f n \<and> ss = Field f # At n # ss')"
    by (auto simp del: steps_of.simps(2) simp: steps_of.simps(2)[of part] split: path_part.splits)
  then show ?case
  proof (elim disjE exE conjE)
    fix f assume f: "parse_part part = Key f" "ss = Field f # ss'"
    obtain h1 b where e: "ensure_map h current (Field f) = (h1, b)" by fastforce
    with 3(1)[OF f(1) e[symmetric] ss'] f k show ?case by simp
  next
    fix f n assume f: "parse_part part = Index f n" "ss = Field f # At n # ss'"
    obtain h1 arr where e1: "ensure_arr h current (Field f) n = (h1, arr)" by fastforce
    obtain h2 b where e2: "ensure_map h1 arr (At n) = (h2, b)" by fastforce
    with 3(2)[OF f(1) e1[symmetric] e2[symmetric] ss'] f e1 k show ?case by simp
  qed
qed simp

lemma path_steps_parts: "path_steps path = Some ss \<Longrightarrow> \<exists>k ts. ss = Field k # ts"
  unfolding path_steps_def using steps_of_Field[OF _ split_on_not_Nil] by blast

lemma SetValueAtPath_tree:
  assumes "tree (hp_cells h) (HRef MapK m) j S" "S \<subseteq> {..<hp_next h}"
    and "tree (hp_cells h) v jv V" "V \<subseteq> {..<hp_next h}" "V \<inter> S = {}"
    and "path_steps path = Some ss"
  shows "\<exists>h' S'. SetValueAtPath h m path v = Some h' \<and> tree (hp_cells h') (HRef MapK m) (put ss jv j) S'
    \<and> within h (S \<union> V) h' S' \<and> (\<forall>x < hp_next h. x \<notin> S \<longrightarrow> hp_cells h' x = hp_cells h x)"
proof -
  obtain c where j: "j = JObj MapK c" using tree_ref(1)[OF assms(1)] by blast
  with assms(1) obtain F where F: "object (hp_cells h) m c F" "S = insert m (\<Union>u. F u)" by (auto simp: tree_object)
  obtain k ts where ss: "ss = Field k # ts" using path_steps_parts[OF assms(6)] by blast
  have set: "SetValueAtPath h m path v = Some (hput h m ss v)"
    using assms(6) unfolding SetValueAtPath_def path_steps_def by (intro set_parts_hput) simp_all
  have "fits (Field k) (JObj MapK c)" by (simp add: fits_def)
  from hput_object[OF F(1) assms(2)[unfolded F(2)] this assms(3,4) assms(5)[unfolded F(2)], of ts] obtain c' F' where
    o: "put ss jv j = JObj MapK c'" "object (hp_cells (hput h m ss v)) m c' F'"
      "within h (S \<union> V) (hput h m ss v) (insert m (\<Union>u. F' u))"
      "\<forall>x < hp_next h. x \<notin> S \<longrightarrow> hp_cells (hput h m ss v) x = hp_cells h x"
    unfolding ss j F(2) by blast
  then have "tree (hp_cells (hput h m ss v)) (HRef MapK m) (put ss jv j) (insert m (\<Union>u. F' u))"
    by (auto simp: tree_object)
  with set o(3,4) show ?thesis by blast
qed

text \<open>
  C14.  Setting a value at a path implements the update of trees: on values without shared objects
  the map denotes afterwards the tree with the value put at the path, creating maps, extending
  slices and replacing values of another type on the way, the value is found there again, and no
  object outside the map has changed.
\<close>

theorem SetValueAtPath_refines:
  assumes "tree (hp_cells h) (HRef MapK m) j S" "S \<subseteq> {..<hp_next h}"
    and "tree (hp_cells h) v jv V" "V \<subseteq> {..<hp_next h}" "V \<inter> S = {}"
    and "path_steps path = Some ss"
  shows "\<exists>h' S'. SetValueAtPath h m path v = Some h' \<and> tree (hp_cells h') (HRef MapK m) (put ss jv j) S'
    \<and> look ss (put ss jv j) = Some jv \<and> (\<forall>x < hp_next h. x \<notin> S \<longrightarrow> hp_cells h' x = hp_cells h x)"
  using SetValueAtPath_tree[OF assms] trees.put_get by blast

definition empty_map_heap :: heap where
  "empty_map_heap = \<lparr>hp_cells = (\<lambda>_. Map.empty), hp_next = 1\<rparr>"

lemma empty_map_tree: "tree (hp_cells empty_map_heap) (HRef MapK 0) (JObj MapK Map.empty) {0}"
  unfolding tree_object by (intro exI[of _ "\<lambda>_. {}"] conjI object_new) (simp_all add: empty_map_heap_def)

lemma demo_path: "path_steps ''containers[1].image'' = Some [Field ''containers'', At 1, Field ''image'']"
  by (simp add: path_steps_def parse_part_def first_index_def atoi_def read_digits_def is_digit_def)

lemma SetValueAtPath_refines_witness:
  "\<exists>h'. SetValueAtPath empty_map_heap 0 ''containers[1].image'' (HScalar (SStr ''app'')) = Some h'
     \<and> look [Field ''containers'', At 1, Field ''image'']
         (put [Field ''containers'', At 1, Field ''image''] (JScalar (SStr ''app'')) (JObj MapK Map.empty)) = Some (JScalar (SStr ''app''))"
proof -
  have "tree (hp_cells empty_map_heap) (HScalar (SStr ''app'')) (JScalar (SStr ''app'')) {}" by (rule tree_scalar)
  from SetValueAtPath_refines[OF empty_map_tree _ this _ _ demo_path] show ?thesis
    by (auto simp: empty_map_heap_def)
qed

definition well_formed_part :: "string \<Rightarrow> bool" where
  "well_formed_part part = (case parse_part part of Key _ \<Rightarrow> True | Index _ _ \<Rightarrow> True | _ \<Rightarrow> False)"

lemma first_bad_Cons:
  "(\<exists>pre q post. part # rest = pre @ q # post \<and> list_all P pre \<and> Q q) \<longleftrightarrow>
     Q part \<or> (P part \<and> (\<exists>pre q post. rest = pre @ q # post \<and> list_all P pre \<and> Q q))"
  (is "?L \<longleftrightarrow> ?R")
proof
  assume ?L
  then obtain pre q post where "part # rest = pre @ q # post" "list_all P pre" "Q q" by blast
  then show ?R by (cases pre) auto
next
  assume ?R
  then show ?L
  proof
    assume "Q part"
    then have "part # rest = [] @ part # rest \<and> list_all P [] \<and> Q part" by simp
    then show ?L by blast
  next
    assume "P part \<and> (\<exists>pre q post. rest = pre @ q # post \<and> list_all P pre \<and> Q q)"
    then obtain pre q post where "part # rest = (part # pre) @ q # post \<and> list_all P (part # pre) \<and> Q q" by auto
    then show ?L by blast
  qed
qed

lemma set_parts_panics:
  "set_parts h a parts v = None \<longleftrightarrow>
     (\<exists>pre p post. parts = pre @ p # post \<and> list_all well_formed_part pre \<and> parse_part p = Panics)"
proof (induction h a parts v rule: set_parts.induct)
  case (2 h current lastPart v)
  show ?case unfolding first_bad_Cons by (auto split: path_part.splits prod.splits)
next
  case (3 h current part p ps v)
  show ?case
  proof (cases "parse_part part")
    case (Key k)
    obtain h1 b where e: "ensure_map h current (Field k) = (h1, b)" by fastforce
    have "well_formed_part part" using Key by (simp add: well_formed_part_def)
    with 3(1)[OF Key e[symmetric]] Key e show ?thesis by (subst first_bad_Cons) simp
  next
    case (Index k n)
    obtain h1 arr where e1: "ensure_arr h current (Field k) n = (h1, arr)" by fastforce
    obtain h2 b where e2: "ensure_map h1 arr (At n) = (h2, b)" by fastforce
    have "well_formed_part part" using Index by (simp add: well_formed_part_def)
    with 3(2)[OF Index e1[symmetric] e2[symmetric]] Index e1 e2 show ?thesis by (subst first_bad_Cons) simp
  qed (subst first_bad_Cons, simp add: well_formed_part_def)+
qed simp

text \<open>
  A path makes \<open>SetValueAtPath\<close> panic exactly when, after parts that are well-formed, it has a
  part that ends at its bracket or whose index is negative; a malformed index silently ends the update.
\<close>

theorem SetValueAtPath_panics_iff:
  "SetValueAtPath h m path v = None \<longleftrightarrow>
     (\<exists>pre p post. split_on CHR ''.'' path = pre @ p # post \<and> list_all well_formed_part pre \<and> parse_part p = Panics)"
  unfolding SetValueAtPath_def by (rule set_parts_panics)

end
