(* ===== verification/Loaders.thy ===== *)
theory Loaders
  imports Values FileHandler "HOL-Library.AList"
begin

text \<open>
  The loaders of chart values: \<open>EnvLoader\<close>, \<open>YAMLLoader\<close> and \<open>FileLoader\<close> of
  internal/values_loaders.go.  A loaded map is an association list with distinct keys.  Parsing
  floats and durations, the YAML decoder and the environment are parameters.
\<close>

section \<open>Environment variables\<close>

text \<open>
  \<open>strconv.ParseFloat\<close> and \<open>time.ParseDuration\<close>: the text of the number, the text of the duration's
  \<open>String\<close>.
\<close>

record parsers =
  pr_float :: "string \<Rightarrow> string option"
  pr_duration :: "string \<Rightarrow> string option"

definition ParseBool :: "string \<Rightarrow> bool option" where
  "ParseBool s =
     (if s \<in> {''1'', ''t'', ''T'', ''true'', ''TRUE'', ''True''} then Some True
      else if s \<in> {''0'', ''f'', ''F'', ''false'', ''FALSE'', ''False''} then Some False
      else None)"

definition JMap :: "(string \<times> jval) list \<Rightarrow> jval" where
  "JMap kvs = JObj MapK (\<lambda>s. case s of Field k \<Rightarrow> map_of kvs k | At _ \<Rightarrow> None)"

definition JArr :: "jval list \<Rightarrow> jval" where
  "JArr xs = JObj (ArrK (length xs)) (\<lambda>s. case s of At i \<Rightarrow> if i < length xs then Some (xs ! i) else None | Field _ \<Rightarrow> None)"

fun collect :: "(goerr + 'a) list \<Rightarrow> goerr + 'a list" where
  "collect [] = Inr []"
| "collect (Inl e # rs) = Inl e"
| "collect (Inr x # rs) = (case collect rs of Inl e \<Rightarrow> Inl e | Inr xs \<Rightarrow> Inr (x # xs))"

definition into_map :: "(string \<times> 'v) list \<Rightarrow> (string \<times> 'v) list" where
  "into_map kvs = fold (\<lambda>(k, v) m. AList.update k v m) kvs []"

lemma split_on_shorter: "d \<in> set s \<Longrightarrow> p \<in> set (split_on d s) \<Longrightarrow> length p < length s"
proof (induction s arbitrary: p)
  case (Cons c s)
  have le: "length q \<le> length s" if "q \<in> set (split_on d s)" for q
  proof (cases "d \<in> set s")
    case True
    with Cons.IH that show ?thesis by (auto intro: less_imp_le)
  next
    case False
    with that show ?thesis by (simp add: split_on_absent)
  qed
  show ?case
  proof (cases "c = d")
    case True
    with Cons.prems(2) le show ?thesis by (auto simp: le_imp_less_Suc)
  next
    case False
    with Cons.prems(1) have "d \<in> set s" by simp
    with Cons.IH have "length q < length s" if "q \<in> set (split_on d s)" for q using that by blast
    with Cons.prems(2) False show ?thesis by (cases "split_on d s") (fastforce intro: less_SucI)+
  qed
qed simp

lemma split_on_le: "p \<in> set (split_on d s) \<Longrightarrow> length p \<le> length s"
  using split_on_shorter[of d s p] by (cases "d \<in> set s") (auto simp: split_on_absent)

function parseValue :: "parsers \<Rightarrow> string \<Rightarrow> goerr + jval" where
  "parseValue pr value =
     (case atoi value of
        Some i \<Rightarrow> Inr (JScalar (SInt i))
      | None \<Rightarrow>
     (case pr_float pr value of
        Some f \<Rightarrow> Inr (JScalar (SFloat f))
      | None \<Rightarrow>
     (case pr_duration pr value of
        Some d \<Rightarrow> Inr (JScalar (SStr d))
      | None \<Rightarrow>
     (case ParseBool value of
        Some b \<Rightarrow> Inr (JScalar (SBool b))
      | None \<Rightarrow>
          if CHR '':'' \<in> set value then
            map_sum (\<lambda>e. e) (\<lambda>kvs. JMap (into_map kvs))
              (collect (concat (map
                (\<lambda>pair. case str_cut pair CHR '':'' of
                   None \<Rightarrow> []
                 | Some (k, v) \<Rightarrow> [map_sum (\<lambda>e. e) (Pair k) (parseValue pr v)])
                (split_on CHR '','' value))))
          else if CHR '','' \<in> set value then
            map_sum (\<lambda>e. e) JArr (collect (map (\<lambda>part. parseValue pr part) (split_on CHR '','' value)))
          else Inr (JScalar (SStr value))))))"
  by pat_completeness auto
termination
proof (relation "measure (\<lambda>(pr, value). length value)")
  fix q val pair x k v
  assume a: "pair \<in> set (split_on CHR '','' val)" "str_cut pair CHR '':'' = Some x" "(k, v) = x"
  then have "length v < length pair" using str_cut_Some[of pair "CHR '':''" k v] by auto
  with split_on_le[OF a(1)] show "((q, v), q, val) \<in> measure (\<lambda>(pr, value). length value)" by simp
next
  fix q val part
  assume "CHR '','' \<in> set val" "part \<in> set (split_on CHR '','' val)"
  then show "((q, part), q, val) \<in> measure (\<lambda>(pr, value). length value)" by (simp add: split_on_shorter)
qed simp

declare parseValue.simps [simp del]

text \<open>\<open>Values\<close> of an \<open>EnvLoader\<close> with the given prefix, on the environment \<open>environ\<close>.\<close>

fun env_values :: "parsers \<Rightarrow> string \<Rightarrow> string list \<Rightarrow> (string \<times> jval) list \<Rightarrow> goerr + (string \<times> jval) list" where
  "env_values pr prefix0 [] result = Inr result"
| "env_values pr prefix0 (envVar # envVars) result =
     (case str_cut envVar CHR ''='' of
        None \<Rightarrow> env_values pr prefix0 envVars result
      | Some (key, val) \<Rightarrow>
          if \<not> has_prefix key (prefix0 @ ''_'') then env_values pr prefix0 envVars result
          else
            (case parseValue pr val of
               Inl e \<Rightarrow> Inl (WrapErr (''parsing '' @ key) e)
             | Inr parsed \<Rightarrow>
                 env_values pr prefix0 envVars (AList.update (drop (length prefix0 + 1) key) parsed result)))"

definition EnvLoader_Values :: "parsers \<Rightarrow> string \<Rightarrow> string list \<Rightarrow> goerr + (string \<times> jval) list" where
  "EnvLoader_Values pr prefix0 environ = env_values pr prefix0 environ []"

section \<open>The YAML loader\<close>

text \<open>
  The decoder gives the map it filled and its error.  A loader is the map it has parsed.
\<close>

type_synonym yaml_loader = "(string \<times> jval) list"
type_synonym yaml_decoder = "string \<Rightarrow> (string \<times> jval) list \<times> goerr option"

definition NewYAMLLoader :: yaml_loader where "NewYAMLLoader = []"

text \<open>The reader: \<open>None\<close> is nil, an error stands for a reader that cannot be read.\<close>

definition YAML_Parse :: "yaml_decoder \<Rightarrow> yaml_loader \<Rightarrow> (goerr + string) option \<Rightarrow> goerr option \<times> yaml_loader" where
  "YAML_Parse dec y r =
     (case r of
        None \<Rightarrow> (Some (ErrText ''reader cannot be nil''), y)
      | Some rd \<Rightarrow>
          if 0 < length y then (Some (ErrText ''YAMLLoader already has parsed values, cannot parse again''), y)
          else
            (case rd of
               Inl e \<Rightarrow> (Wrapf (Some e) ''decoding YAML data'', y)
             | Inr text \<Rightarrow> (case dec text of (m, err) \<Rightarrow> (Wrapf err ''decoding YAML data'', m))))"

definition YAML_Values :: "yaml_loader \<Rightarrow> goerr + (string \<times> jval) list" where
  "YAML_Values y =
     (if length y = 0 then Inl (ErrText ''no values parsed, call Parse() first'') else Inr y)"

section \<open>The file loader\<close>

record 's file_loader =
  fl_file :: handler
  fl_parser :: 's
  fl_filePath :: string

text \<open>
  A nil file handler panics when the loader is created, since its name is asked for in any case:
  \<open>None\<close>.
\<close>

definition NewFileLoaderFromFS ::
    "handler option \<Rightarrow> string \<Rightarrow> 's option \<Rightarrow> (goerr + 's file_loader) option" where
  "NewFileLoaderFromFS fh path valuesFn =
     (case fh of
        None \<Rightarrow> None
      | Some h \<Rightarrow>
          Some (case valuesFn of
              None \<Rightarrow> Inl (the (Wrapf (Some (JoinErr [ErrText ''valuesFn cannot be nil'']))
                        (''creating FileLoader with path: '' @ HandlerName h)))
            | Some v \<Rightarrow> Inr \<lparr>fl_file = h, fl_parser = v, fl_filePath = path_Base path\<rparr>))"

definition NewFileLoader ::
    "nat \<Rightarrow> os_state \<Rightarrow> string \<Rightarrow> 's option \<Rightarrow> (os_state \<times> (goerr + 's file_loader)) option" where
  "NewFileLoader fuel os path valuesFn =
     (case NewHandler fuel os (path_Dir path) of
        None \<Rightarrow> None
      | Some (os', Inl e) \<Rightarrow> Some (os', Inl (WrapErr (''creating file handler for '' @ path_Dir path) e))
      | Some (os', Inr fh) \<Rightarrow> map_option (Pair os') (NewFileLoaderFromFS (Some fh) path valuesFn))"

definition HelmValuesFileName :: string where "HelmValuesFileName = ''values.yaml''"

definition NewHelmValuesLoader :: "nat \<Rightarrow> os_state \<Rightarrow> string \<Rightarrow> (os_state \<times> (goerr + yaml_loader file_loader)) option" where
  "NewHelmValuesLoader fuel os path =
     NewFileLoader fuel os (if has_suffix path HelmValuesFileName then path else path_Join [path, HelmValuesFileName])
       (Some NewYAMLLoader)"

text \<open>
  \<open>Values\<close> hands the opened file to the parser; a handler's error is a \<open>fs.PathError\<close> of the open.
  A directory opens, but cannot be read.
\<close>

definition FileLoader_Values ::
    "('s \<Rightarrow> (goerr + string) option \<Rightarrow> goerr option \<times> 's) \<Rightarrow> ('s \<Rightarrow> goerr + 'v) \<Rightarrow> os_state \<Rightarrow> 's file_loader
      \<Rightarrow> (goerr + 'v) \<times> 's file_loader" where
  "FileLoader_Values parse vals os f =
     (let p = fl_filePath f in
      if \<not> FileExists os (fl_file f) p then (Inl (ErrText (''file does not exist: '' @ p)), f)
      else if \<not> valid_path p then (Inl (ErrText (''invalid file path: '' @ p)), f)
      else
        (case handler_Open os (fl_file f) p of
           Inl e \<Rightarrow> (Inl (WrapErr (''attempting open with file '' @ quote p) e), f)
         | Inr n \<Rightarrow>
             (case parse (fl_parser f)
                 (Some (case n of FileN d \<Rightarrow> Inr d | DirN _ \<Rightarrow> Inl (ErrText ''is a directory''))) of
                (Some e, s) \<Rightarrow> (Inl (the (Wrapf (Some e) (''decoding values from file: '' @ p))), f\<lparr>fl_parser := s\<rparr>)
              | (None, s) \<Rightarrow>
                  (case vals s of
                     Inl e \<Rightarrow> (Inl (the (Wrapf (Some e) (''getting values from file: '' @ p))), f\<lparr>fl_parser := s\<rparr>)
                   | Inr v \<Rightarrow> (Inr v, f\<lparr>fl_parser := s\<rparr>)))))"

section \<open>What the environment gives\<close>

lemma collect_Inr: "list_all (\<lambda>r. \<not> is_err r) rs \<Longrightarrow> \<not> is_err (collect rs)"
  by (induction rs rule: collect.induct) (auto split: sum.splits)

lemma is_err_map_sum [simp]: "is_err (map_sum f g r) = is_err r"
  by (cases r) simp_all

lemma parseValue_ok: "\<not> is_err (parseValue pr s)"
proof (induction pr s rule: parseValue.induct)
  case (1 pr val)
  show ?case
  proof (cases "atoi val = None \<and> pr_float pr val = None \<and> pr_duration pr val = None \<and> ParseBool val = None")
    case False
    then show ?thesis by (subst parseValue.simps) (auto split: option.splits)
  next
    case True
    have v: "\<not> is_err (parseValue pr v)"
      if "CHR '':'' \<in> set val" "q \<in> set (split_on CHR '','' val)" "str_cut q CHR '':'' = Some (k, v)" for q k v
      by (rule "1.IH"(1)[OF _ _ _ _ that(1,2,3) refl]) (use True in simp_all)
    have m: "list_all (\<lambda>r. \<not> is_err r) (concat (map
          (\<lambda>pair. case str_cut pair CHR '':'' of None \<Rightarrow> []
             | Some (k, v) \<Rightarrow> [map_sum (\<lambda>e. e) (Pair k) (parseValue pr v)]) (split_on CHR '','' val)))"
      if "CHR '':'' \<in> set val"
      unfolding list_all_iff using v[OF that] by (auto split: option.splits dest: sym)
    have l: "list_all (\<lambda>r. \<not> is_err r) (map (\<lambda>part. parseValue pr part) (split_on CHR '','' val))"
      if "CHR '':'' \<notin> set val" "CHR '','' \<in> set val"
      unfolding list_all_iff using "1.IH"(2) True that by auto
    show ?thesis
      by (subst parseValue.simps) (use True m l in \<open>auto dest!: collect_Inr\<close>)
  qed
qed

text \<open>What one variable contributes under the prefix.\<close>

abbreviation env_entry :: "string \<Rightarrow> string \<Rightarrow> string \<Rightarrow> string" where
  "env_entry p k v \<equiv> p @ ''_'' @ k @ ''='' @ v"

lemma str_cut_entry:
  "str_cut e CHR ''='' = Some (p @ ''_'' @ k, v) \<longleftrightarrow> CHR ''='' \<notin> set (p @ k) \<and> e = env_entry p k v"
proof
  assume "str_cut e CHR ''='' = Some (p @ ''_'' @ k, v)"
  from str_cut_Some[OF this] show "CHR ''='' \<notin> set (p @ k) \<and> e = env_entry p k v" by auto
next
  assume "CHR ''='' \<notin> set (p @ k) \<and> e = env_entry p k v"
  then show "str_cut e CHR ''='' = Some (p @ ''_'' @ k, v)"
    using str_cut_append[of "CHR ''=''" "p @ ''_'' @ k" v] by simp
qed

definition parsed_value :: "parsers \<Rightarrow> string \<Rightarrow> jval" where
  "parsed_value pr s = (case parseValue pr s of Inr j \<Rightarrow> j)"

lemma parseValue_parsed: "parseValue pr s = Inr (parsed_value pr s)"
  using parseValue_ok[of pr s] by (cases "parseValue pr s") (simp_all add: parsed_value_def)

text \<open>The value an entry binds to the key, and the last variable that binds it.\<close>

definition env_key :: "string \<Rightarrow> string \<Rightarrow> string \<Rightarrow> string option" where
  "env_key p k e =
     (case str_cut e CHR ''='' of
        None \<Rightarrow> None
      | Some (key, v) \<Rightarrow> if key = p @ ''_'' @ k then Some v else None)"

lemma env_key_Some: "env_key p k e = Some v \<longleftrightarrow> CHR ''='' \<notin> set (p @ k) \<and> e = env_entry p k v"
  unfolding str_cut_entry[symmetric] by (auto simp: env_key_def split: option.splits)

fun env_last :: "parsers \<Rightarrow> string \<Rightarrow> string \<Rightarrow> string list \<Rightarrow> jval option" where
  "env_last pr p k [] = None"
| "env_last pr p k (e # es) =
     (case env_last pr p k es of
        Some j \<Rightarrow> Some j
      | None \<Rightarrow>
map_option (parsed_value pr) (env_key p k e))"

lemma env_last_skip: "env_key p k e = None \<Longrightarrow> env_last pr p k (e # es) = env_last pr p k es"
  by (simp split: option.split)

lemma has_prefix_drop: "has_prefix key (p @ ''_'') \<Longrightarrow> key = p @ ''_'' @ drop (length p + 1) key"
  unfolding has_prefix_def by (metis append.assoc append_take_drop_id length_append_singleton Suc_eq_plus1)

lemma has_prefix_entry [simp]: "has_prefix (p @ q @ k) (p @ q)"
  by (simp add: has_prefix_def)

lemma env_values_lookup:
  "\<exists>m. env_values pr p es r = Inr m \<and> (distinct (map fst r) \<longrightarrow> distinct (map fst m)) \<and>
     (\<forall>k. map_of m k = (case env_last pr p k es of Some j \<Rightarrow> Some j | None \<Rightarrow> map_of r k))"
proof (induction es arbitrary: r)
  case (Cons e es)
  show ?case
  proof (cases "str_cut e CHR ''=''")
    case None
    with Cons.IH[of r] show ?thesis by (simp add: env_last_skip env_key_def del: env_last.simps)
  next
    case (Some kv)
    obtain key v where kv: "kv = (key, v)" by (cases kv)
    show ?thesis
    proof (cases "has_prefix key (p @ ''_'')")
      case True
      let ?k = "drop (length p + 1) key"
      let ?r = "AList.update ?k (parsed_value pr v) r"
      from has_prefix_drop[OF True] have key: "key = p @ ''_'' @ ?k" .
      then have same: "key = p @ ''_'' @ k \<longleftrightarrow> ?k = k" for k by auto
      from Cons.IH[of ?r] obtain m where m: "env_values pr p es ?r = Inr m"
        "distinct (map fst ?r) \<longrightarrow> distinct (map fst m)"
        "\<And>k. map_of m k = (case env_last pr p k es of Some j \<Rightarrow> Some j | None \<Rightarrow> map_of ?r k)" by blast
      have "env_values pr p (e # es) r = Inr m"
        using Some True m(1) by (simp add: kv parseValue_parsed)
      moreover have "map_of m k = (case env_last pr p k (e # es) of Some j \<Rightarrow> Some j | None \<Rightarrow> map_of r k)" for k
        unfolding m(3) env_last.simps env_key_def Some kv option.case prod.case same
        by (auto simp: update_conv' split: option.split)
      ultimately show ?thesis using m(2) by (auto intro: distinct_update)
    next
      case False
      then have "key \<noteq> p @ ''_'' @ k" for k using has_prefix_entry[of p "''_''" k] by auto
      with Cons.IH[of r] False Some show ?thesis
        by (simp add: kv env_last_skip env_key_def del: env_last.simps)
    qed
  qed
qed simp

lemma env_last_Some:
  "env_last pr p k es = Some j \<longleftrightarrow> CHR ''='' \<notin> set (p @ k) \<and>
     (\<exists>before v after. es = before @ env_entry p k v # after \<and> j = parsed_value pr v \<and>
        (\<forall>v'. env_entry p k v' \<notin> set after))" (is "_ \<longleftrightarrow> ?last es")
proof (induction es)
  case (Cons e es)
  have none: "env_last pr p k es = None \<longleftrightarrow> (\<forall>x\<in>set es. env_key p k x = None)" for es
    by (induction es) (auto split: option.splits)
  show ?case
  proof (cases "env_last pr p k es")
    case None
    with none have n: "CHR ''='' \<notin> set (p @ k) \<Longrightarrow> env_entry p k v \<notin> set es" for v
      using env_key_Some[of p k "env_entry p k v" v] by force
    have "?last (e # es) \<longleftrightarrow> CHR ''='' \<notin> set (p @ k) \<and> (\<exists>v. e = env_entry p k v \<and> j = parsed_value pr v)"
    proof
      assume "?last (e # es)"
      then obtain b v a where h: "CHR ''='' \<notin> set (p @ k)" "e # es = b @ env_entry p k v # a" "j = parsed_value pr v"
        by blast
      show "CHR ''='' \<notin> set (p @ k) \<and> (\<exists>v. e = env_entry p k v \<and> j = parsed_value pr v)"
      proof (cases b)
        case (Cons x xs)
        with h(2) have "es = xs @ env_entry p k v # a" by simp
        then have "env_entry p k v \<in> set es" by (metis in_set_conv_decomp)
        with n[OF h(1)] show ?thesis by blast
      qed (use h in auto)
    next
      assume "CHR ''='' \<notin> set (p @ k) \<and> (\<exists>v. e = env_entry p k v \<and> j = parsed_value pr v)"
      then obtain v where v: "CHR ''='' \<notin> set (p @ k)" "e = env_entry p k v" "j = parsed_value pr v" by blast
      have "e # es = [] @ env_entry p k v # es" using v(2) by simp
      with v n show "?last (e # es)" by blast
    qed
    moreover have "env_last pr p k (e # es) = Some j \<longleftrightarrow> (\<exists>v. env_key p k e = Some v \<and> j = parsed_value pr v)"
      using None by auto
    ultimately show ?thesis unfolding env_key_Some by blast
  next
    case (Some j')
    with none[of es] obtain x v where "x \<in> set es" "env_key p k x = Some v" by auto
    then have v: "env_entry p k v \<in> set es" and good: "CHR ''='' \<notin> set (p @ k)"
      by (simp_all only: env_key_Some) blast+
    have "?last (e # es) \<longleftrightarrow> ?last es"
    proof
      assume "?last (e # es)"
      then obtain b w a where "e # es = b @ env_entry p k w # a" "j = parsed_value pr w"
        "\<forall>v'. env_entry p k v' \<notin> set a" by blast
      with v good show "?last es" by (cases b) auto
    next
      assume "?last es"
      then show "?last (e # es)" by (metis append_Cons)
    qed
    with Cons.IH Some show ?thesis by simp
  qed
qed simp

text \<open>
  C37. An environment loader never fails, whatever the variables hold, and its map has, under each key,
  the parsed value of the last variable named prefix underscore key; no other key is in the map.
\<close>
theorem EnvLoader_Values_last:
  "\<exists>m. EnvLoader_Values prs prefix0 environ = Inr m \<and> distinct (map fst m) \<and>
     (\<forall>k j. map_of m k = Some j \<longleftrightarrow> CHR ''='' \<notin> set (prefix0 @ k) \<and>
        (\<exists>before v after. environ = before @ env_entry prefix0 k v # after \<and> parseValue prs v = Inr j \<and>
           (\<forall>v'. env_entry prefix0 k v' \<notin> set after)))"
proof -
  from env_values_lookup[of prs prefix0 environ "[]"] obtain m where m: "env_values prs prefix0 environ [] = Inr m"
    "distinct (map fst m)" "\<And>k. map_of m k = env_last prs prefix0 k environ"
    by (auto simp: option.case_eq_if)
  have "parseValue prs v = Inr j \<longleftrightarrow> j = parsed_value prs v" for v j using parseValue_parsed[of prs v] by auto
  then show ?thesis
    by (intro exI[of _ m]) (simp only: EnvLoader_Values_def m env_last_Some simp_thms)
qed

section \<open>Parsers that parse once\<close>

text \<open>
  What \<open>FileLoader\<close> needs to know of a parser: once it has given values, it refuses to parse again
  and stays as it is.
\<close>

locale values_parser =
  fixes parse :: "'s \<Rightarrow> (goerr + string) option \<Rightarrow> goerr option \<times> 's"
    and vals :: "'s \<Rightarrow> goerr + 'v"
  assumes parse_once: "vals s = Inr v \<Longrightarrow> \<exists>e. parse s r = (Some e, s)"
begin

lemma loaded_parser: "FileLoader_Values parse vals os f = (Inr v, f') \<Longrightarrow> vals (fl_parser f') = Inr v"
  by (auto simp: FileLoader_Values_def Let_def split: if_splits sum.splits option.splits prod.splits)

lemma parsed_refuses:
  assumes "vals (fl_parser f) = Inr v"
  shows "\<exists>e. FileLoader_Values parse vals os f = (Inl e, f)"
proof -
  let ?r = "\<lambda>n. Some (case n of FileN d \<Rightarrow> Inr d | DirN _ \<Rightarrow> Inl (ErrText ''is a directory''))"
  have "\<exists>e. parse (fl_parser f) (?r n) = (Some e, fl_parser f)" for n by (rule parse_once[OF assms])
  then obtain e where e: "\<And>n. parse (fl_parser f) (?r n) = (Some (e n), fl_parser f)" by metis
  show ?thesis by (simp add: FileLoader_Values_def Let_def e split: sum.split)
qed

lemma loads_once:
  "FileLoader_Values parse vals os f = (Inr v, f') \<Longrightarrow> \<exists>e. FileLoader_Values parse vals os' f' = (Inl e, f')"
  by (rule parsed_refuses, rule loaded_parser)

end

interpretation yaml: values_parser "YAML_Parse dec" YAML_Values
  by unfold_locales (auto simp: YAML_Values_def YAML_Parse_def split: if_splits option.splits)

section \<open>Loading a values file\<close>

text \<open>
  C39. A new file loader over a YAML parser gives a map exactly when the file exists, its name is valid,
  the handler opens it as a regular file and its content decodes without error into a non-empty map;
  the map is then the decoded one.  A file that decodes to nothing is an error.
\<close>
theorem FileLoader_loads:
  assumes "fl_parser f = NewYAMLLoader"
  shows "fst (FileLoader_Values (YAML_Parse dec) YAML_Values os f) = Inr v \<longleftrightarrow>
     FileExists os (fl_file f) (fl_filePath f) \<and> valid_path (fl_filePath f) \<and>
     (\<exists>d. handler_Open os (fl_file f) (fl_filePath f) = Inr (FileN d) \<and> dec d = (v, None) \<and> v \<noteq> [])"
  using assms
  by (auto simp: FileLoader_Values_def Let_def NewYAMLLoader_def YAML_Parse_def YAML_Values_def
      split: sum.split fnode.split option.split prod.split)

definition demo_values_os :: os_state where
  "demo_values_os = \<lparr>os_tree = DirN [(''w'', DirN [(''values.yaml'', FileN ''replicas: 2'')])], os_cwd = ''/''\<rparr>"

definition demo_loader :: "yaml_loader file_loader" where
  "demo_loader = \<lparr>fl_file = demo_handler, fl_parser = NewYAMLLoader, fl_filePath = ''values.yaml''\<rparr>"

abbreviation demo_decoder :: yaml_decoder where
  "demo_decoder \<equiv> (\<lambda>s. ([(''replicas'', JScalar (SInt 2))], None))"

lemma demo_loads:
  "FileExists demo_values_os demo_handler ''values.yaml''" "valid_path ''values.yaml''"
  "handler_Open demo_values_os demo_handler ''values.yaml'' = Inr (FileN ''replicas: 2'')"
proof -
  show v: "valid_path ''values.yaml''"
    by (simp add: valid_path_def valid_utf8_def segments_ascii ascii_def rune_error_def)
  show "FileExists demo_values_os demo_handler ''values.yaml''"
    by (simp add: FileExists_def demo_handler_def demo_values_os_def root_lookup_def root_name_def
        root_tree_def abs_segs_def path_segs_def path_rooted_def)
  show "handler_Open demo_values_os demo_handler ''values.yaml'' = Inr (FileN ''replicas: 2'')"
    by (simp add: handler_Open_def fs_open_def v demo_handler_def demo_values_os_def
        root_tree_def abs_segs_def path_segs_def path_rooted_def)
qed

theorem FileLoader_loads_witness:
  "fst (FileLoader_Values (YAML_Parse demo_decoder) YAML_Values demo_values_os demo_loader)
     = Inr [(''replicas'', JScalar (SInt 2))]"
  by (subst FileLoader_loads) (simp_all add: demo_loader_def demo_loads)

text \<open>
  C40. A file loader gives its values once: after a successful \<open>Values\<close>, every later call on the same
  loader fails and leaves it as it is, whatever has become of the file.
\<close>
theorem FileLoader_once:
  assumes "FileLoader_Values (YAML_Parse dec) YAML_Values os f = (Inr v, f')"
  shows "\<exists>e. FileLoader_Values (YAML_Parse dec) YAML_Values os' f' = (Inl e, f')"
  using assms by (rule yaml.loads_once)

theorem FileLoader_once_witness:
  "\<exists>e. FileLoader_Values (YAML_Parse demo_decoder) YAML_Values demo_values_os
     (demo_loader\<lparr>fl_parser := [(''replicas'', JScalar (SInt 2))]\<rparr>)
   = (Inl e, demo_loader\<lparr>fl_parser := [(''replicas'', JScalar (SInt 2))]\<rparr>)"
  by (rule FileLoader_once[of _ demo_values_os demo_loader "[(''replicas'', JScalar (SInt 2))]"])
    (simp add: FileLoader_Values_def Let_def demo_loads demo_loader_def NewYAMLLoader_def YAML_Parse_def
      YAML_Values_def)

end
