(* ===== verification/Helm.thy ===== *)
theory Helm
  imports PlanService "HOL-Library.Sublist"
begin

text \<open>
  The Helm client, internal/adapter/helm: releases (defaults.go), chart types (chart.go), the commands
  of \<open>Client\<close> (helm.go) over the wrapped runner, and the package names of the generator (generator.go);
  with the versions of internal/core/domain/helm.go.  YAML decoding, validation and the shell are
  parameters.  The decorators of the client are in \<open>HelmRetry\<close>, the generation in \<open>HelmComponent\<close>.
\<close>

section \<open>Releases and versions\<close>

record release =
  rl_Name :: string
  rl_ReleaseName :: string
  rl_Repository :: string
  rl_Version :: string

record chart_version =
  cv_Name :: string
  cv_Version :: string

definition Latest :: "chart_version list \<Rightarrow> chart_version" where
  "Latest v = (if length v = 0 then \<lparr>cv_Name = [], cv_Version = []\<rparr> else v ! 0)"

fun IsValid :: "chart_version list \<Rightarrow> string \<Rightarrow> bool" where
  "IsValid [] version = False"
| "IsValid (entry # v) version = (cv_Version entry = version \<or> IsValid v version)"

definition IsOCI :: "release \<Rightarrow> bool" where
  "IsOCI r = (6 \<le> length (rl_Repository r) \<and> take 6 (rl_Repository r) = ''oci://'')"

definition ChartName :: "release \<Rightarrow> string" where
  "ChartName r = rl_ReleaseName r"

definition release_String :: "release \<Rightarrow> string" where
  "release_String r = path_Join [rl_ReleaseName r, rl_Name r]"

definition ChartVersion :: "release \<Rightarrow> chart_version" where
  "ChartVersion r = \<lparr>cv_Name = release_String r, cv_Version = rl_Version r\<rparr>"

definition PullRef :: "release \<Rightarrow> string" where
  "PullRef r = (if IsOCI r then rl_Repository r else release_String r)"

definition RepositoryURL :: "release \<Rightarrow> string" where
  "RepositoryURL r = rl_Repository r"

section \<open>The client\<close>

definition ActionHelm :: string where "ActionHelm = ''helm''"
definition HelmChartLatestVersion :: string where "HelmChartLatestVersion = ''latest''"
definition HelmChartTypeApplication :: string where "HelmChartTypeApplication = ''application''"

definition NewHelmRunner :: "runner_env \<Rightarrow> goerr + runner" where
  "NewHelmRunner env = newWrappedRunner env ActionHelm"

text \<open>
  What the client asks its environment: the tables, fuel, directory and random names of temporary
  directories, the shell, and the decoders of search results and of \<open>Chart.yaml\<close>.
\<close>

record 'k helm_env =
  he_tables :: unicode_tables
  he_fuel :: nat
  he_tmp :: string
  he_rnds :: "string list"
  he_write :: "'k world \<Rightarrow> string \<Rightarrow> 'k world \<times> goerr option"
  he_shell :: "'k world shell"
  he_versions :: "string \<Rightarrow> goerr + chart_version list"
  he_chart :: "string \<Rightarrow> goerr + string"
  he_validate :: "string \<Rightarrow> goerr option"

definition runCommand :: "'k helm_env \<Rightarrow> runner \<Rightarrow> string list \<Rightarrow> 'k world \<Rightarrow> 'k world \<times> (goerr + string)" where
  "runCommand env c args w =
     (case Execute (he_write env) (he_shell env) c w
         \<lparr>m_apiVersion = [], m_kind = [], m_onFailure = [], m_action = ActionHelm, m_args = args\<rparr> of
        (w', _, res) \<Rightarrow> (w', res))"

definition err_of :: "goerr + 'a \<Rightarrow> goerr option" where
  "err_of r = (case r of Inl e \<Rightarrow> Some e | Inr _ \<Rightarrow> None)"

definition AddRepo :: "'k helm_env \<Rightarrow> runner \<Rightarrow> release \<Rightarrow> 'k world \<Rightarrow> goerr option \<times> 'k world" where
  "AddRepo env c r w =
     (if IsOCI r then (Some (ErrText (''cannot helm add an OCI repository: '' @ release_String r)), w)
      else
        (case runCommand env c [''repo'', ''add'', ChartName r, RepositoryURL r] w of
           (w', res) \<Rightarrow> (err_of res, w')))"

definition UpdateRepo :: "'k helm_env \<Rightarrow> runner \<Rightarrow> release \<Rightarrow> 'k world \<Rightarrow> goerr option \<times> 'k world" where
  "UpdateRepo env c r w =
     (if IsOCI r then (Some (ErrText (''cannot helm update an OCI repository '' @ quote (release_String r))), w)
      else
        (case runCommand env c [''repo'', ''update'', ChartName r] w of
           (w', res) \<Rightarrow> (err_of res, w')))"

text \<open>The loop that deletes, from the last entry to the first, every entry with another name.\<close>

fun delete_others :: "string \<Rightarrow> nat \<Rightarrow> chart_version list \<Rightarrow> chart_version list" where
  "delete_others name 0 versions = versions"
| "delete_others name (Suc i) versions =
     delete_others name i
       (if cv_Name (versions ! i) \<noteq> name then take i versions @ drop (i + 1) versions else versions)"

definition searchRepo ::
    "'k helm_env \<Rightarrow> runner \<Rightarrow> release \<Rightarrow> bool \<Rightarrow> 'k world \<Rightarrow> 'k world \<times> (goerr + chart_version list)" where
  "searchRepo env c r allVersions w =
     (let args = [''search'', ''repo'', release_String r, ''--output'', ''yaml''];
          args = (if allVersions then args @ [''--versions''] else args) in
      case runCommand env c args w of
        (w', Inl e) \<Rightarrow> (w', Inl e)
      | (w', Inr out) \<Rightarrow>
          (case he_versions env out of
             Inl e \<Rightarrow> (w', Inl (WrapErr (''unmarshaling search results for '' @ quote (release_String r)) e))
           | Inr versions \<Rightarrow> (w', Inr (delete_others (release_String r) (length versions) versions))))"

definition ListVersions :: "'k helm_env \<Rightarrow> runner \<Rightarrow> release \<Rightarrow> 'k world \<Rightarrow> 'k world \<times> (goerr + chart_version list)" where
  "ListVersions env c r w = searchRepo env c r True w"

definition CurrentVersion :: "'k helm_env \<Rightarrow> runner \<Rightarrow> release \<Rightarrow> 'k world \<Rightarrow> 'k world \<times> (goerr + chart_version)" where
  "CurrentVersion env c r w =
     (case searchRepo env c r False w of
        (w', Inl e) \<Rightarrow> (w', Inl e)
      | (w', Inr versions) \<Rightarrow>
          if length versions = 0 then (w', Inl (ErrText (''no versions found for '' @ quote (release_String r))))
          else (w', Inr (versions ! 0)))"

definition LatestVersion :: "'k helm_env \<Rightarrow> runner \<Rightarrow> release \<Rightarrow> 'k world \<Rightarrow> 'k world \<times> (goerr + chart_version)" where
  "LatestVersion env c r w =
     (case searchRepo env c r True w of
        (w', Inl e) \<Rightarrow> (w', Inl e)
      | (w', Inr versions) \<Rightarrow> (w', Inr (Latest versions)))"

text \<open>\<open>PullRepo\<close>: the fuel is that of the file handlers.\<close>

definition pull_version :: "'k helm_env \<Rightarrow> runner \<Rightarrow> release \<Rightarrow> 'k world \<Rightarrow> 'k world \<times> (goerr + string)" where
  "pull_version env c r w =
     (let version = cv_Version (ChartVersion r) in
      if version = HelmChartLatestVersion \<or> version = [] then
        (case LatestVersion env c r w of
           (w', Inl e) \<Rightarrow> (w', Inl (WrapErr (''getting latest version for '' @ quote (release_String r)) e))
         | (w', Inr v) \<Rightarrow> (w', Inr (cv_Version v)))
      else (w, Inr version))"

definition PullRepo :: "'k helm_env \<Rightarrow> runner \<Rightarrow> release \<Rightarrow> 'k world \<Rightarrow> ('k world \<times> (goerr + handler)) option" where
  "PullRepo env c r w =
     (case NewTempHandler (he_tables env) (he_fuel env) (w_os w) (he_tmp env) (he_rnds env) (release_String r) of
        None \<Rightarrow> None
      | Some (os, Inl e) \<Rightarrow>
          Some (w\<lparr>w_os := os\<rparr>, Inl (WrapErr (''creating temporary file handler for '' @ quote (release_String r)) e))
      | Some (os, Inr fh) \<Rightarrow>
          (case pull_version env c r (w\<lparr>w_os := os\<rparr>) of
             (w1, Inl e) \<Rightarrow> Some (w1, Inl e)
           | (w1, Inr version) \<Rightarrow>
               (case runCommand env c [''pull'', PullRef r, ''--untar'', ''--untardir'', HandlerName fh,
                   ''--version'', version] w1 of
                  (w2, Inl e) \<Rightarrow> Some (w2, Inl (WrapErr (''pulling chart '' @ quote (release_String r)) e))
                | (w2, Inr _) \<Rightarrow>
                    map_option
                      (\<lambda>(os', res). (w2\<lparr>w_os := os'\<rparr>,
                         case res of
                           Inl e \<Rightarrow> Inl (the (Wrapf (Some e) (''pulling chart '' @ quote (release_String r))))
                         | Inr fh' \<Rightarrow> Inr fh'))
                      (NewHandler (he_fuel env) (w_os w2) (AbsPathFor fh [rl_Name r])))))"

definition VendorRepo :: "'k helm_env \<Rightarrow> runner \<Rightarrow> release \<Rightarrow> 'k world \<Rightarrow> ('k world \<times> (goerr + handler)) option" where
  "VendorRepo env c r w =
     (if IsOCI r then PullRepo env c r w
      else
        (case FirstErrorFns
            [\<lambda>w. (case AddRepo env c r w of
                    (e, w') \<Rightarrow> (Wrapf e (''adding Helm repo '' @ quote (release_String r)), w')),
             \<lambda>w. (case UpdateRepo env c r w of
                    (e, w') \<Rightarrow> (Wrapf e (''updating Helm repo '' @ quote (release_String r)), w'))] w of
           (Some e, w') \<Rightarrow> Some (w', Inl e)
         | (None, w') \<Rightarrow> PullRepo env c r w'))"

text \<open>
  The type of a chart, from its \<open>Chart.yaml\<close>; \<open>TemplateRepo\<close> reads the output of a failed command
  before it looks at the error, which is a nil dereference: \<open>None\<close>.
\<close>

definition Chart_Unmarshal :: "'k helm_env \<Rightarrow> os_state \<Rightarrow> handler \<Rightarrow> goerr + string" where
  "Chart_Unmarshal env os h =
     (case handler_Open os h ''Chart.yaml'' of
        Inl e \<Rightarrow> Inl (WrapErr ''opening chart file Chart.yaml'' e)
      | Inr n \<Rightarrow>
          (case (case n of FileN d \<Rightarrow> he_chart env d | DirN _ \<Rightarrow> Inl (ErrText ''is a directory'')) of
             Inl e \<Rightarrow> Inl (WrapErr ''decoding chart file Chart.yaml'' e)
           | Inr t \<Rightarrow>
               (let t = (if t = [] then HelmChartTypeApplication else t) in
                case he_validate env t of Some e \<Rightarrow> Inl e | None \<Rightarrow> Inr t)))"

definition TemplateRepo ::
    "'k helm_env \<Rightarrow> runner \<Rightarrow> release \<Rightarrow> handler \<Rightarrow> 'k world \<Rightarrow> ('k world \<times> (goerr + string)) option" where
  "TemplateRepo env c r reader w =
     (case Chart_Unmarshal env (w_os w) reader of
        Inl e \<Rightarrow> Some (w, Inl (WrapErr ''unmarshaling chart'' e))
      | Inr t \<Rightarrow>
          if t \<noteq> HelmChartTypeApplication then
            Some (w, Inl (ErrText ''cannot template helm chart, only application charts are supported''))
          else
            (case runCommand env c [''template'', ChartName r, HandlerName reader, ''-f'',
                AbsPathFor reader [''values.yaml'']] w of
               (w', Inl _) \<Rightarrow> None
             | (w', Inr out) \<Rightarrow> Some (w', Inr out)))"

section \<open>Searching\<close>

lemma delete_others_filter:
  "i \<le> length versions \<Longrightarrow>
     delete_others name i versions = filter (\<lambda>v. cv_Name v = name) (take i versions) @ drop i versions"
proof (induction name i versions rule: delete_others.induct)
  case (2 name i versions)
  let ?vs = "if cv_Name (versions ! i) \<noteq> name then take i versions @ drop (i + 1) versions else versions"
  have i: "i \<le> length ?vs" "take i ?vs = take i versions" using "2.prems" by auto
  have d: "drop i ?vs = (if cv_Name (versions ! i) = name then [versions ! i] else []) @ drop (Suc i) versions"
    using "2.prems" by (simp add: Cons_nth_drop_Suc)
  have "delete_others name (Suc i) versions = filter (\<lambda>v. cv_Name v = name) (take i versions) @ drop i ?vs"
    using "2.IH" i by simp
  then show ?case using "2.prems" d by (simp add: take_Suc_conv_app_nth)
qed simp

text \<open>
  C38. A search keeps exactly the versions whose name is the chart's, in the order of Helm's answer:
  the loop that deletes backwards in place is a filter.
\<close>
theorem searchRepo_filters:
  "searchRepo env c r allVersions w =
     (case runCommand env c ([''search'', ''repo'', release_String r, ''--output'', ''yaml'']
         @ (if allVersions then [''--versions''] else [])) w of
        (w', Inl e) \<Rightarrow> (w', Inl e)
      | (w', Inr out) \<Rightarrow>
          (w', map_sum (WrapErr (''unmarshaling search results for '' @ quote (release_String r)))
                 (filter (\<lambda>v. cv_Name v = release_String r)) (he_versions env out)))"
  by (simp add: searchRepo_def delete_others_filter split: prod.split sum.split)

section \<open>The commands of the client\<close>

definition runs_helm :: "runner \<Rightarrow> string \<Rightarrow> bool" where
  "runs_helm c path \<longleftrightarrow> c = WrappedRunner path \<and> path \<noteq> [] \<and> path \<noteq> ActionCmd"

text \<open>A shell that records the commands it is given.\<close>

definition recording :: "string list helm_env \<Rightarrow> bool" where
  "recording env \<longleftrightarrow> (\<forall>w l. w_cdk (fst (he_shell env w l)) = w_cdk w @ [l])"

lemma runCommand_records:
  assumes "runs_helm c path" "recording env" "args \<noteq> []" "hd args \<noteq> []"
  shows "w_cdk (fst (runCommand env c args w)) = w_cdk w @ [path @ '' '' @ join_with '' '' args]"
proof -
  obtain a as where a: "args = a # as" "a \<noteq> []" using assms(3,4) by (cases args) auto
  have ne: "join_with '' '' (a # as) \<noteq> []" using a(2) by (cases as) auto
  obtain w' out err where s: "he_shell env w (path @ '' '' @ join_with '' '' args) = (w', out, err)"
    by (cases "he_shell env w (path @ '' '' @ join_with '' '' args)") auto
  have "w_cdk w' = w_cdk w @ [path @ '' '' @ join_with '' '' args]"
    using assms(2) s unfolding recording_def by (metis fst_conv)
  moreover have "fst (runCommand env c args w) = w'"
    using assms(1) s a ne
    by (cases err) (simp_all add: runCommand_def runs_helm_def Execute_def WrappedRunner_Execute_def
        CmdRunner_Execute_def combinedOutput_def Compact_def Let_def)
  ultimately show ?thesis by simp
qed

text \<open>What vendoring runs: the repository is added and updated, the version looked up, the chart pulled.\<close>

definition search_lines :: "string \<Rightarrow> release \<Rightarrow> string list" where
  "search_lines path r =
     (if rl_Version r \<in> {[], ''latest''}
      then [path @ '' search repo '' @ release_String r @ '' --output yaml --versions''] else [])"

definition repo_lines :: "string \<Rightarrow> release \<Rightarrow> string list" where
  "repo_lines path r =
     (if IsOCI r then []
      else [path @ '' repo add '' @ rl_ReleaseName r @ '' '' @ rl_Repository r,
            path @ '' repo update '' @ rl_ReleaseName r])"

definition pull_line :: "string \<Rightarrow> release \<Rightarrow> string \<Rightarrow> string \<Rightarrow> string" where
  "pull_line path r dir version =
     path @ '' pull '' @ (if IsOCI r then rl_Repository r else release_String r)
     @ '' --untar --untardir '' @ dir @ '' --version '' @ version"

lemma NewHandler_total: "2 \<le> n \<Longrightarrow> \<exists>os' res. NewHandler n os root = Some (os', res)"
  using NewHandler_opens[of n os root] by blast

lemma NewTempHandler_total: "2 \<le> n \<Longrightarrow> \<exists>os' res. NewTempHandler U n os tmp rnds p = Some (os', res)"
  using NewHandler_total by (auto simp: NewTempHandler_def Let_def split: prod.split sum.split)

lemma searchRepo_records:
  assumes "runs_helm c path" "recording env"
  shows "w_cdk (fst (searchRepo env c r True w)) =
     w_cdk w @ [path @ '' search repo '' @ release_String r @ '' --output yaml --versions'']"
proof -
  have "w_cdk (fst (searchRepo env c r True w)) =
      w_cdk (fst (runCommand env c [''search'', ''repo'', release_String r, ''--output'', ''yaml'', ''--versions''] w))"
    by (simp add: searchRepo_def split: prod.split sum.split)
  with runCommand_records[OF assms, of "[''search'', ''repo'', release_String r, ''--output'', ''yaml'', ''--versions'']" w]
  show ?thesis by simp
qed

lemma pull_version_records:
  assumes "runs_helm c path" "recording env"
  shows "w_cdk (fst (pull_version env c r w)) = w_cdk w @ search_lines path r"
  using searchRepo_records[OF assms, of r w]
  by (auto simp: pull_version_def search_lines_def LatestVersion_def ChartVersion_def HelmChartLatestVersion_def
      Let_def split: prod.split sum.split)

lemma PullRepo_records:
  assumes "runs_helm c path" "recording env" "2 \<le> he_fuel env"
  shows "\<exists>w' res dir version. PullRepo env c r w = Some (w', res)
     \<and> (w_cdk w' = w_cdk w \<and> is_err res \<or> w_cdk w' = w_cdk w @ search_lines path r \<and> is_err res
        \<or> w_cdk w' = w_cdk w @ search_lines path r @ [pull_line path r dir version])"
proof -
  obtain os t where t: "NewTempHandler (he_tables env) (he_fuel env) (w_os w) (he_tmp env) (he_rnds env)
      (release_String r) = Some (os, t)" using NewTempHandler_total[OF assms(3)] by blast
  show ?thesis
  proof (cases t)
    case (Inl e)
    with t show ?thesis by (simp add: PullRepo_def)
  next
    case (Inr fh)
    obtain w1 v where v: "pull_version env c r (w\<lparr>w_os := os\<rparr>) = (w1, v)" by (cases "pull_version env c r (w\<lparr>w_os := os\<rparr>)")
    have w1: "w_cdk w1 = w_cdk w @ search_lines path r"
      using pull_version_records[OF assms(1,2), of r "w\<lparr>w_os := os\<rparr>"] v by simp
    show ?thesis
    proof (cases v)
      case (Inl e)
      with t Inr v w1 show ?thesis by (simp add: PullRepo_def)
    next
      case (Inr version)
      let ?args = "[''pull'', PullRef r, ''--untar'', ''--untardir'', HandlerName fh, ''--version'', version]"
      obtain w2 out where o: "runCommand env c ?args w1 = (w2, out)" by (cases "runCommand env c ?args w1")
      have "w_cdk w2 = w_cdk w1 @ [pull_line path r (HandlerName fh) version]"
        using runCommand_records[OF assms(1,2), of ?args w1] o by (simp add: pull_line_def PullRef_def)
      moreover obtain os' res where "NewHandler (he_fuel env) (w_os w2) (AbsPathFor fh [rl_Name r]) = Some (os', res)"
        using NewHandler_total[OF assms(3)] by blast
      ultimately show ?thesis using t \<open>t = Inr fh\<close> v Inr o w1
        by (cases out) (auto simp: PullRepo_def)
    qed
  qed
qed

lemma AddRepo_records:
  assumes "runs_helm c path" "recording env" "\<not> IsOCI r"
  shows "w_cdk (snd (AddRepo env c r w)) = w_cdk w @ [path @ '' repo add '' @ rl_ReleaseName r @ '' '' @ rl_Repository r]"
  using runCommand_records[OF assms(1,2), of "[''repo'', ''add'', ChartName r, RepositoryURL r]" w] assms(3)
  by (auto simp: AddRepo_def ChartName_def RepositoryURL_def split: prod.split)

lemma UpdateRepo_records:
  assumes "runs_helm c path" "recording env" "\<not> IsOCI r"
  shows "w_cdk (snd (UpdateRepo env c r w)) = w_cdk w @ [path @ '' repo update '' @ rl_ReleaseName r]"
  using runCommand_records[OF assms(1,2), of "[''repo'', ''update'', ChartName r]" w] assms(3)
  by (auto simp: UpdateRepo_def ChartName_def split: prod.split)

text \<open>
  C39. Vendoring a chart always returns; the commands it runs are, in this order, adding and updating the
  repository (only for a repository that is not OCI), looking the version up (only when none or
  the latest is asked for) and pulling the chart; it stops early only with an error.
\<close>
theorem VendorRepo_commands:
  assumes "runs_helm c path" "recording env" "2 \<le> he_fuel env"
  shows "\<exists>w' res cmds dir version. VendorRepo env c r w = Some (w', res) \<and> w_cdk w' = w_cdk w @ cmds
     \<and> prefix cmds (repo_lines path r @ search_lines path r @ [pull_line path r dir version])
     \<and> (is_err res \<or> cmds = repo_lines path r @ search_lines path r @ [pull_line path r dir version])"
proof -
  have pull: "\<exists>w' res cmds dir version. PullRepo env c r v = Some (w', res) \<and> w_cdk w' = w_cdk v @ cmds
     \<and> prefix cmds (search_lines path r @ [pull_line path r dir version])
     \<and> (is_err res \<or> cmds = search_lines path r @ [pull_line path r dir version])" for v
    using PullRepo_records[OF assms, of r v] by (elim exE) (auto simp: prefix_def; blast)
  show ?thesis
  proof (cases "IsOCI r")
    case True
    with pull[of w] show ?thesis by (simp add: VendorRepo_def repo_lines_def)
  next
    case False
    obtain e1 w1 where a: "AddRepo env c r w = (e1, w1)" by (cases "AddRepo env c r w")
    obtain e2 w2 where u: "UpdateRepo env c r w1 = (e2, w2)" by (cases "UpdateRepo env c r w1")
    note cdk = AddRepo_records[OF assms(1,2) False, of w] UpdateRepo_records[OF assms(1,2) False, of w1]
    show ?thesis
    proof (cases "e1 = None \<and> e2 = None")
      case True
      with a u False have "VendorRepo env c r w = PullRepo env c r w2" by (simp add: VendorRepo_def)
      moreover have "w_cdk w2 = w_cdk w @ repo_lines path r" using cdk a u False by (simp add: repo_lines_def)
      ultimately show ?thesis using pull[of w2] by (metis append.assoc same_prefix_prefix)
    next
      case errs: False
      have "\<exists>e w'. VendorRepo env c r w = Some (w', Inl e) \<and>
          (\<exists>cmds. w_cdk w' = w_cdk w @ cmds \<and> prefix cmds (repo_lines path r))"
        using errs a u cdk False by (cases e1; cases e2) (auto simp: VendorRepo_def repo_lines_def prefix_def)
      then show ?thesis by (metis is_err_simps(1) prefix_prefix)
    qed
  qed
qed

definition demo_helm :: "string list helm_env" where
  "demo_helm =
     \<lparr>he_tables = \<lparr>isSymbol = (\<lambda>r. r = 36), isMark = (\<lambda>_. False), isGraphic = (\<lambda>r. 32 \<le> r)\<rparr>, he_fuel = 2,
       he_tmp = ''/w'', he_rnds = [''1''], he_write = (\<lambda>w s. (w, None)),
       he_shell = (\<lambda>w l. (w\<lparr>w_cdk := w_cdk w @ [l]\<rparr>, [], None)), he_versions = (\<lambda>s. Inr []),
       he_chart = (\<lambda>s. Inr []), he_validate = (\<lambda>t. None)\<rparr>"

abbreviation demo_release :: release where
  "demo_release \<equiv> \<lparr>rl_Name = ''component-chart'', rl_ReleaseName = ''anvil'',
     rl_Repository = ''https://charts.devspace.sh'', rl_Version = ''0.9.1''\<rparr>"

theorem VendorRepo_commands_witness:
  "\<exists>w' res cmds dir version. VendorRepo demo_helm (WrappedRunner ''/bin/helm'') demo_release \<lparr>w_os = demo_os, w_cdk = []\<rparr>
       = Some (w', res) \<and> w_cdk w' = [] @ cmds
     \<and> prefix cmds ([''/bin/helm repo add anvil https://charts.devspace.sh'', ''/bin/helm repo update anvil'']
         @ [] @ [pull_line ''/bin/helm'' demo_release dir version])
     \<and> (is_err res \<or> cmds = [''/bin/helm repo add anvil https://charts.devspace.sh'', ''/bin/helm repo update anvil'']
         @ [] @ [pull_line ''/bin/helm'' demo_release dir version])"
  using VendorRepo_commands[of "WrappedRunner ''/bin/helm''" "''/bin/helm''" demo_helm demo_release
      "\<lparr>w_os = demo_os, w_cdk = []\<rparr>"]
  by (simp add: runs_helm_def ActionCmd_def recording_def demo_helm_def repo_lines_def search_lines_def IsOCI_def)

section \<open>Package names of the generator\<close>

text \<open>\<open>strings.ToValidUTF8\<close>: each run of invalid bytes becomes one replacement.\<close>

fun valid_runs :: "string \<Rightarrow> bool \<Rightarrow> (nat \<times> string) list \<Rightarrow> string" where
  "valid_runs rep bad [] = []"
| "valid_runs rep bad ((r, bs) # ss) =
     (if r = rune_error \<and> length bs = 1 then (if bad then [] else rep) @ valid_runs rep True ss
      else bs @ valid_runs rep False ss)"

definition package_rune :: "nat \<Rightarrow> nat" where
  "package_rune r = (if 97 \<le> r \<and> r \<le> 122 \<or> 48 \<le> r \<and> r \<le> 57 \<or> r = 95 then r else 95)"

definition normalizePackageName :: "string \<Rightarrow> string" where
  "normalizePackageName releaseName =
     (let name = trim_space releaseName;
          name = to_lower name;
          name = filter (\<lambda>c. c \<notin> {CHR ''-'', CHR '' '', CHR ''_''}) name;
          name = valid_runs ''_'' False (segments name);
          name = strings_map package_rune name
      in if name \<noteq> [] \<and> (byte (hd name) < 97 \<or> 122 < byte (hd name)) then ''pkg_'' @ name else name)"

lemma package_rune_lt: "package_rune r < 128"
  by (simp add: package_rune_def)

definition package_char :: "char \<Rightarrow> bool" where
  "package_char c = (97 \<le> byte c \<and> byte c \<le> 122 \<or> 48 \<le> byte c \<and> byte c \<le> 57 \<or> byte c = 95)"

lemma package_char_rune: "package_char (char_of (package_rune r))"
proof -
  have "byte (char_of (package_rune r)) = package_rune r" using package_rune_lt[of r] by simp
  then show ?thesis by (auto simp: package_char_def package_rune_def split: if_splits)
qed

text \<open>
  C39. The package name of a generated chart is empty or starts with a lower case letter and consists of
  lower case letters, digits and underscores, whatever bytes the release name holds.
\<close>
theorem normalizePackageName_identifier:
  "(normalizePackageName n = [] \<or> 97 \<le> byte (hd (normalizePackageName n)) \<and> byte (hd (normalizePackageName n)) \<le> 122)
    \<and> list_all package_char (normalizePackageName n)"
proof -
  have "list_all package_char (strings_map package_rune s)" for s
    by (auto simp: strings_map_ascii package_rune_lt list_all_iff package_char_rune)
  moreover have "list_all package_char ''pkg_''" by (simp add: package_char_def)
  ultimately show ?thesis by (simp add: normalizePackageName_def Let_def)
qed

end
