(* ===== verification/Charts.thy ===== *)
theory Charts
  imports Helm Values Workload "HOL-Library.List_Lexorder" "HOL-Library.Char_ord"
begin

text \<open>
  The Helm chart scalar, crib/scalar/helmchart/v1/helmchart.go, and the chart components that prepare its
  props, crib/scalar/charts/*/v1/component.go (six copies of one function).  The values live in the store
  of \<open>Values\<close>, the props are the caller's struct, which a component writes to.
\<close>

section \<open>The Helm chart scalar\<close>

text \<open>A values loader allocates its map in the store; a nil map is \<open>None\<close>.\<close>

record chart_props =
  cp_Name :: string
  cp_Chart :: string
  cp_Namespace :: string
  cp_ReleaseName :: string
  cp_Repo :: string
  cp_ValuesLoader :: "(heap \<Rightarrow> heap \<times> (goerr + nat option)) option"
  cp_Values :: "nat option"
  cp_Version :: string
  cp_ValuesPatches :: "string list list"
  cp_Flags :: "string list option"
  cp_WaitForReady :: bool

text \<open>A value of type \<open>crib.Props\<close>.\<close>

datatype props_arg = NilProps | ChartPropsOf chart_props | OtherProps string

record helm_props =
  hm_Chart :: string
  hm_Namespace :: string
  hm_ReleaseName :: string
  hm_Repo :: "string option"
  hm_Values :: "nat option"
  hm_Version :: string
  hm_HelmExecutable :: string
  hm_HelmFlags :: "string option list option"

definition helmProps :: "string \<Rightarrow> chart_props \<Rightarrow> helm_props" where
  "helmProps executable props =
     (let r = \<lparr>rl_Name = cp_Name props, rl_ReleaseName = cp_ReleaseName props, rl_Repository = cp_Repo props,
            rl_Version = cp_Version props\<rparr> in
      if IsOCI r then
        \<lparr>hm_Chart = PullRef r, hm_Namespace = cp_Namespace props, hm_ReleaseName = cp_ReleaseName props,
          hm_Repo = None, hm_Values = cp_Values props, hm_Version = cv_Version (ChartVersion r),
          hm_HelmExecutable = executable, hm_HelmFlags = PtrSlice (cp_Flags props)\<rparr>
      else
        \<lparr>hm_Chart = cp_Chart props, hm_Namespace = cp_Namespace props, hm_ReleaseName = cp_ReleaseName props,
          hm_Repo = Some (cp_Repo props), hm_Values = cp_Values props, hm_Version = cp_Version props,
          hm_HelmExecutable = executable, hm_HelmFlags = PtrSlice (cp_Flags props)\<rparr>)"

text \<open>
  What the scalar creates: its chart with the namespace and the common labels, the Helm deployment
  in it, a namespace it depends on, and the manifest that waits for its pods.
\<close>

record helm_chart =
  hx_id :: "string option"
  hx_Namespace :: string
  hx_Labels :: "(string \<times> string) list"
  hx_deployment :: "string option \<times> helm_props"
  hx_ns :: string
  hx_waitFor :: "csa_component option"

text \<open>
  The environment: where the Helm binary is, what the validator makes of the props, how they are
  encoded in resource names, and the message of the panic of \<open>cdk8s.NewHelm\<close>, if it panics.
\<close>

record chart_env =
  ce_binary :: "goerr + string"
  ce_validate :: "chart_props \<Rightarrow> goerr option"
  ce_encode :: "chart_props \<Rightarrow> encodable"
  ce_newHelm :: "helm_props \<Rightarrow> string option"

definition commonLabels :: "chart_props \<Rightarrow> (string \<times> string) list" where
  "commonLabels p =
     [(''helm.crib.sdk/chart'', cp_Chart p), (''helm.crib.sdk/namespace'', cp_Namespace p),
      (''helm.crib.sdk/release'', cp_ReleaseName p), (''helm.crib.sdk/name'', cp_Name p)]"

definition wait_args :: "chart_props \<Rightarrow> string list" where
  "wait_args p =
     [''wait'', ''-n'', cp_Namespace p, ''--for=condition=ready'', ''pod'',
      ''-l='' @ join_with '','' (sort (map (\<lambda>(label, v). label @ ''='' @ v) (commonLabels p))), ''--timeout=600s'']"

definition recovered :: "string \<Rightarrow> goerr" where
  "recovered r = JoinErr [ErrText (''failed to create helm chart: '' @ r)]"

definition helmchart_New :: "chart_env \<Rightarrow> props_arg \<Rightarrow> goerr + helm_chart" where
  "helmchart_New env props =
     (case props of
        ChartPropsOf p \<Rightarrow>
          (case join_errors [err_of (ce_binary env), ce_validate env p] of
             Some e \<Rightarrow> Inl e
           | None \<Rightarrow>
               (case ce_binary env of Inl e \<Rightarrow> Inl e | Inr prog \<Rightarrow>
                 (let cmdProps = helmProps prog p in
                  case ce_newHelm env cmdProps of
                    Some msg \<Rightarrow> Inl (recovered msg)
                  | None \<Rightarrow>
                      Inr \<lparr>hx_id = ResourceID ''sdk.HelmChart'' (ce_encode env p), hx_Namespace = cp_Namespace p,
                        hx_Labels = commonLabels p,
                        hx_deployment = (ResourceID (cp_Chart p) (ce_encode env p), cmdProps),
                        hx_ns = cp_Namespace p,
                        hx_waitFor =
                          (if cp_WaitForReady p then
                             Some ((csa_New \<lparr>cs_Namespace = cp_Namespace p, cs_OnFailure = ''abort'',
                                     cs_Action = ''kubectl'', cs_Args = wait_args p\<rparr>)
                               \<lparr>cc_dependencies := [cp_Chart p]\<rparr>)
                           else None)\<rparr>)))
      | _ \<Rightarrow> Inl (recovered ''type assertion failed''))"

section \<open>The chart components\<close>

record chart_ref =
  cr_Name :: string
  cr_ReleaseName :: string
  cr_Repository :: string
  cr_Version :: string
  cr_Values :: "nat option"

text \<open>
  A package of crib/scalar/charts: its name, its defaults, how it merges a map into the new values, and
  whether it applies the patches.  \<open>maps.Copy\<close> copies the top-level entries; a package that uses
  \<open>mergo.Merge\<close> has its effect as a parameter.
\<close>

record chart_package =
  pk_name :: string
  pk_defaults :: chart_ref
  pk_merge :: "heap \<Rightarrow> nat \<Rightarrow> nat option \<Rightarrow> heap"
  pk_patches :: bool

definition maps_Copy :: "heap \<Rightarrow> nat \<Rightarrow> nat option \<Rightarrow> heap" where
  "maps_Copy h dst src =
     (case src of
        None \<Rightarrow> h
      | Some m \<Rightarrow> h\<lparr>hp_cells := (hp_cells h)(dst := hp_cells h dst ++ hp_cells h m)\<rparr>)"

text \<open>The loop over the patches; a patch of fewer than two strings is an index out of range.\<close>

fun apply_patches :: "heap \<Rightarrow> nat \<Rightarrow> string list list \<Rightarrow> heap option" where
  "apply_patches h values [] = Some h"
| "apply_patches h values (patch # patches) =
     (case patch of
        path # v # _ \<Rightarrow>
          (case SetValueAtPath h values path (HScalar (SStr v)) of
             None \<Rightarrow> None
           | Some h' \<Rightarrow> apply_patches h' values patches)
      | _ \<Rightarrow> None)"

definition or_default :: "string \<Rightarrow> string \<Rightarrow> string" where
  "or_default v d = (if v = [] then d else v)"

definition fill_defaults :: "chart_ref \<Rightarrow> chart_props \<Rightarrow> chart_props" where
  "fill_defaults d p =
     p\<lparr>cp_Name := or_default (cp_Name p) (cr_Name d),
       cp_Namespace := or_default (cp_Namespace p) ''default'',
       cp_Chart := or_default (cp_Chart p) (cr_Name d),
       cp_ReleaseName := or_default (cp_ReleaseName p) (cr_ReleaseName d),
       cp_Repo := or_default (cp_Repo p) (cr_Repository d),
       cp_Version := or_default (cp_Version p) (cr_Version d)\<rparr>"

text \<open>The props with the values of the loader, or the error; the loader is dropped.\<close>

definition load_values :: "chart_package \<Rightarrow> heap \<Rightarrow> chart_props \<Rightarrow> heap \<times> (goerr + chart_props)" where
  "load_values pkg h p =
     (if cp_Values p \<noteq> None \<and> cp_ValuesLoader p \<noteq> None
      then (h, Inl (ErrText (''['' @ pk_name pkg @ ''] props cannot have both Values and ValuesLoader set'')))
      else
        (case cp_ValuesLoader p of
           None \<Rightarrow> (h, Inr p)
         | Some load \<Rightarrow>
             (case load h of
                (h', Inl e) \<Rightarrow> (h', Inl (WrapErr (''['' @ pk_name pkg @ ''] loading values'') e))
              | (h', Inr m) \<Rightarrow> (h', Inr (p\<lparr>cp_Values := m, cp_ValuesLoader := None\<rparr>)))))"

text \<open>
  The component: the store, the caller's struct as it was left, and the result; \<open>None\<close> is a panic (a nil
  pointer for nil props, or a patch that cannot be applied).
\<close>

definition Component ::
    "chart_env \<Rightarrow> chart_package \<Rightarrow> props_arg \<Rightarrow> heap \<Rightarrow> (heap \<times> props_arg \<times> (goerr + helm_chart)) option" where
  "Component env pkg props h =
     (case props of
        NilProps \<Rightarrow> None
      | OtherProps T \<Rightarrow>
          Some (h, props, Inl (ErrText (''['' @ pk_name pkg @ ''] props must be of type *helmchart.ChartProps, got '' @ T)))
      | ChartPropsOf p \<Rightarrow>
          (case load_values pkg h p of
             (h1, Inl e) \<Rightarrow> Some (h1, props, Inl e)
           | (h1, Inr p1) \<Rightarrow>
               (case alloc h1 Map.empty of (h2, values) \<Rightarrow>
                 (let d = pk_defaults pkg;
                      h3 = pk_merge pkg h2 values (cr_Values d);
                      h4 = pk_merge pkg h3 values (cp_Values p1);
                      p2 = fill_defaults d p1 in
                  map_option
                    (\<lambda>h5. (h5, ChartPropsOf p2, helmchart_New env (ChartPropsOf
                        \<lparr>cp_Name = cp_Name p2, cp_Chart = cp_Chart p2, cp_Namespace = cp_Namespace p2,
                          cp_ReleaseName = cp_ReleaseName p2, cp_Repo = cp_Repo p2, cp_ValuesLoader = None,
                          cp_Values = Some values, cp_Version = cp_Version p2, cp_ValuesPatches = [],
                          cp_Flags = cp_Flags p2, cp_WaitForReady = False\<rparr>)))
                    (if pk_patches pkg then apply_patches h4 values (cp_ValuesPatches p2) else Some h4)))))"

section \<open>Copying two maps into a new one\<close>

text \<open>The entries of a map that may be nil.\<close>

definition cells_of :: "(nat \<Rightarrow> step \<Rightarrow> hval option) \<Rightarrow> nat option \<Rightarrow> step \<Rightarrow> hval option" where
  "cells_of H m = (case m of None \<Rightarrow> Map.empty | Some a \<Rightarrow> H a)"

definition entries :: "heap \<Rightarrow> nat option \<Rightarrow> (step \<Rightarrow> jval option) \<Rightarrow> (step \<Rightarrow> nat set) \<Rightarrow> bool" where
  "entries h m c F \<longleftrightarrow>
     (case m of
        None \<Rightarrow> c = Map.empty \<and> F = (\<lambda>_. {})
      | Some a \<Rightarrow> object (hp_cells h) a c F \<and> insert a (\<Union>s. F s) \<subseteq> {..<hp_next h})"

lemma entriesD:
  assumes "entries h m c F"
  shows "cells_of (hp_cells h) m s = None \<longleftrightarrow> c s = None"
    "cells_of (hp_cells h) m s = Some x \<Longrightarrow> c s = Some y \<Longrightarrow> tree (hp_cells h) x y (F s)"
    "c s = None \<Longrightarrow> F s = {}" "F s \<subseteq> {..<hp_next h}" "z \<in> F s \<Longrightarrow> z \<in> F t \<Longrightarrow> s = t"
proof -
  have "(cells_of (hp_cells h) m s = None \<longleftrightarrow> c s = None)
     \<and> (cells_of (hp_cells h) m s = Some x \<longrightarrow> c s = Some y \<longrightarrow> tree (hp_cells h) x y (F s))
     \<and> (c s = None \<longrightarrow> F s = {}) \<and> F s \<subseteq> {..<hp_next h} \<and> (z \<in> F s \<longrightarrow> z \<in> F t \<longrightarrow> s = t)"
  proof (cases m)
    case None
    with assms show ?thesis by (simp add: entries_def cells_of_def)
  next
    case (Some a)
    with assms have o: "object (hp_cells h) a c F" and b: "insert a (\<Union>s. F s) \<subseteq> {..<hp_next h}"
      by (simp_all add: entries_def)
    have "F s \<subseteq> {..<hp_next h}" using b by blast
    then show ?thesis using objectD[OF o] Some by (simp add: cells_of_def)
  qed
  then show "cells_of (hp_cells h) m s = None \<longleftrightarrow> c s = None"
    "cells_of (hp_cells h) m s = Some x \<Longrightarrow> c s = Some y \<Longrightarrow> tree (hp_cells h) x y (F s)"
    "c s = None \<Longrightarrow> F s = {}" "F s \<subseteq> {..<hp_next h}" "z \<in> F s \<Longrightarrow> z \<in> F t \<Longrightarrow> s = t"
    by blast+
qed

definition copied :: "heap \<Rightarrow> nat option \<Rightarrow> nat option \<Rightarrow> heap" where
  "copied h d u = maps_Copy (maps_Copy (fst (alloc h Map.empty)) (hp_next h) d) (hp_next h) u"

lemma copied_cells:
  assumes "entries h d dc FD" "entries h u uc FU"
  shows "hp_cells (copied h d u) = (hp_cells h)(hp_next h := cells_of (hp_cells h) d ++ cells_of (hp_cells h) u)"
    and "hp_next (copied h d u) = Suc (hp_next h)"
proof -
  have "x \<noteq> hp_next h" if "d = Some x \<or> u = Some x" for x
    using that assms by (auto simp: entries_def)
  then show "hp_cells (copied h d u) = (hp_cells h)(hp_next h := cells_of (hp_cells h) d ++ cells_of (hp_cells h) u)"
    "hp_next (copied h d u) = Suc (hp_next h)"
    by (auto simp: copied_def alloc_def maps_Copy_def cells_of_def fun_eq_iff split: option.splits)
qed

definition joined :: "(step \<Rightarrow> jval option) \<Rightarrow> (step \<Rightarrow> nat set) \<Rightarrow> (step \<Rightarrow> nat set) \<Rightarrow> step \<Rightarrow> nat set" where
  "joined uc FD FU = (\<lambda>s. if uc s = None then FD s else FU s)"

lemma copied_object:
  assumes d: "entries h d dc FD" and u: "entries h u uc FU" and disj: "\<And>s t. FD s \<inter> FU t = {}"
  shows "object (hp_cells (copied h d u)) (hp_next h) (dc ++ uc) (joined uc FD FU)"
proof (rule objectI)
  note cells = copied_cells(1)[OF d u]
  have kept: "tree (hp_cells (copied h d u)) x y S" if "tree (hp_cells h) x y S" "S \<subseteq> {..<hp_next h}" for x y S
    using that by (elim tree_frame) (auto simp: cells)
  fix s
  show "hp_cells (copied h d u) (hp_next h) s = None \<longleftrightarrow> (dc ++ uc) s = None"
    using entriesD(1)[OF d, of s] entriesD(1)[OF u, of s] by (auto simp: cells map_add_def split: option.splits)
  show "hp_next h \<notin> joined uc FD FU s"
    using entriesD(4)[OF d, of s] entriesD(4)[OF u, of s] by (auto simp: joined_def)
  {
    assume "hp_cells (copied h d u) (hp_next h) s = None"
    then show "joined uc FD FU s = {}"
      using entriesD(1,3)[OF d, of s] entriesD(1)[OF u, of s]
      by (auto simp: cells joined_def map_add_def split: option.splits)
  next
    fix x y
    assume xy: "hp_cells (copied h d u) (hp_next h) s = Some x" "(dc ++ uc) s = Some y"
    show "tree (hp_cells (copied h d u)) x y (joined uc FD FU s)"
    proof (cases "uc s")
      case None
      with xy entriesD(1)[OF u, of s] have "tree (hp_cells h) x y (FD s)"
        by (intro entriesD(2)[OF d]) (auto simp: cells map_add_def split: option.splits)
      with kept entriesD(4)[OF d, of s] None show ?thesis by (simp add: joined_def)
    next
      case (Some y')
      with xy entriesD(1)[OF u, of s] have "tree (hp_cells h) x y (FU s)"
        by (intro entriesD(2)[OF u]) (auto simp: cells map_add_def split: option.splits)
      with kept entriesD(4)[OF u, of s] Some show ?thesis by (simp add: joined_def)
    qed
  }
  fix t z
  assume "z \<in> joined uc FD FU s" "z \<in> joined uc FD FU t"
  then show "s = t"
    using entriesD(5)[OF d, of z s t] entriesD(5)[OF u, of z s t] disj[of s t] disj[of t s]
    by (auto simp: joined_def split: if_splits)
qed

lemma copied_tree:
  assumes d: "entries h d dc FD" and u: "entries h u uc FU" and disj: "\<And>s t. FD s \<inter> FU t = {}"
  obtains S where "tree (hp_cells (copied h d u)) (HRef MapK (hp_next h)) (JObj MapK (dc ++ uc)) S"
    "S \<subseteq> {..<hp_next (copied h d u)}"
proof
  show "tree (hp_cells (copied h d u)) (HRef MapK (hp_next h)) (JObj MapK (dc ++ uc))
      (insert (hp_next h) (\<Union>s. joined uc FD FU s))"
    using copied_object[OF assms] by (auto simp: tree_object)
  have "joined uc FD FU s \<subseteq> {..<hp_next h}" for s
    using entriesD(4)[OF d, of s] entriesD(4)[OF u, of s] by (simp add: joined_def)
  then show "insert (hp_next h) (\<Union>s. joined uc FD FU s) \<subseteq> {..<hp_next (copied h d u)}"
    unfolding copied_cells(2)[OF d u] by fastforce
qed

section \<open>Applying patches\<close>

fun patch_steps :: "string list \<Rightarrow> (step list \<times> jval) option" where
  "patch_steps (path # v # _) = map_option (\<lambda>ss. (ss, JScalar (SStr v))) (path_steps path)"
| "patch_steps _ = None"

lemma apply_patches_tree:
  assumes "tree (hp_cells h) (HRef MapK m) j S" "S \<subseteq> {..<hp_next h}" "map patch_steps patches = map Some qs"
  shows "\<exists>h' S'. apply_patches h m patches = Some h' \<and>
     tree (hp_cells h') (HRef MapK m) (fold (\<lambda>(q, w). put q w) qs j) S' \<and> S' \<subseteq> {..<hp_next h'}"
  using assms
proof (induction patches arbitrary: h j S qs)
  case (Cons patch patches)
  then obtain q qs' where q: "patch_steps patch = Some q" "qs = q # qs'" "map patch_steps patches = map Some qs'" by auto
  from q(1) obtain path v rest ss where p: "patch = path # v # rest" "path_steps path = Some ss"
    "q = (ss, JScalar (SStr v))" by (cases patch rule: patch_steps.cases) auto
  have "tree (hp_cells h) (HScalar (SStr v)) (JScalar (SStr v)) {}" by (rule tree_scalar)
  from SetValueAtPath_tree[OF Cons.prems(1,2) this _ _ p(2)] obtain h1 S1 where h1:
    "SetValueAtPath h m path (HScalar (SStr v)) = Some h1"
    "tree (hp_cells h1) (HRef MapK m) (put ss (JScalar (SStr v)) j) S1" "S1 \<subseteq> {..<hp_next h1}"
    by (auto simp: within_def)
  from Cons.IH[OF h1(2,3) q(3)] h1(1) show ?case by (simp add: p q(2))
qed auto

section \<open>The values of a deployment\<close>

text \<open>The packages that copy maps, by their defaults, and those that merge them.\<close>

definition aptos_Component where
  "aptos_Component env d = Component env \<lparr>pk_name = ''aptos'', pk_defaults = d, pk_merge = maps_Copy, pk_patches = True\<rparr>"

definition jd_Component where
  "jd_Component env d = Component env \<lparr>pk_name = ''jd'', pk_defaults = d, pk_merge = maps_Copy, pk_patches = False\<rparr>"

definition postgres_Component where
  "postgres_Component env d =
     Component env \<lparr>pk_name = ''postgres'', pk_defaults = d, pk_merge = maps_Copy, pk_patches = False\<rparr>"

definition telepresence_Component where
  "telepresence_Component env d =
     Component env \<lparr>pk_name = ''telepresence'', pk_defaults = d, pk_merge = maps_Copy, pk_patches = False\<rparr>"

definition anvil_Component where
  "anvil_Component merge env d =
     Component env \<lparr>pk_name = ''anvil'', pk_defaults = d, pk_merge = merge, pk_patches = True\<rparr>"

definition otterscan_Component where
  "otterscan_Component merge env d =
     Component env \<lparr>pk_name = ''otterscan'', pk_defaults = d, pk_merge = merge, pk_patches = True\<rparr>"

definition deployed_values :: "helm_chart \<Rightarrow> nat option" where
  "deployed_values c = hm_Values (snd (hx_deployment c))"

text \<open>The struct handed to the scalar.\<close>

definition scalar_props :: "chart_props \<Rightarrow> nat \<Rightarrow> chart_props" where
  "scalar_props p values =
     \<lparr>cp_Name = cp_Name p, cp_Chart = cp_Chart p, cp_Namespace = cp_Namespace p, cp_ReleaseName = cp_ReleaseName p,
       cp_Repo = cp_Repo p, cp_ValuesLoader = None, cp_Values = Some values, cp_Version = cp_Version p,
       cp_ValuesPatches = [], cp_Flags = cp_Flags p, cp_WaitForReady = False\<rparr>"

lemma helmchart_New_ok:
  assumes "helmchart_New env (ChartPropsOf p) = Inr c"
  shows "deployed_values c = cp_Values p" "hx_waitFor c \<noteq> None \<longleftrightarrow> cp_WaitForReady p"
    "hx_ns c = cp_Namespace p" "hx_Namespace c = cp_Namespace p"
  using assms
  by (auto simp: helmchart_New_def deployed_values_def helmProps_def Let_def split: option.splits sum.splits if_splits)

lemma Component_copies:
  assumes "pk_merge pkg = maps_Copy" "cp_ValuesLoader p = None"
  shows "Component env pkg (ChartPropsOf p) h =
    map_option (\<lambda>h'. (h', ChartPropsOf (fill_defaults (pk_defaults pkg) p),
        helmchart_New env (ChartPropsOf (scalar_props (fill_defaults (pk_defaults pkg) p) (hp_next h)))))
      (if pk_patches pkg
       then apply_patches (copied h (cr_Values (pk_defaults pkg)) (cp_Values p)) (hp_next h) (cp_ValuesPatches p)
       else Some (copied h (cr_Values (pk_defaults pkg)) (cp_Values p)))"
  by (simp add: Component_def load_values_def assms copied_def alloc_def scalar_props_def fill_defaults_def Let_def)

text \<open>The values a component deploys, as a tree.\<close>

definition deploys :: "heap \<Rightarrow> jval \<Rightarrow> goerr + helm_chart \<Rightarrow> bool" where
  "deploys h j res =
     (case res of
        Inl e \<Rightarrow> True
      | Inr c \<Rightarrow> (\<exists>m S. deployed_values c = Some m \<and> tree (hp_cells h) (HRef MapK m) j S))"

lemma deploysI:
  "tree (hp_cells h) (HRef MapK m) j S \<Longrightarrow> deploys h j (helmchart_New env (ChartPropsOf (scalar_props p m)))"
  by (auto simp: deploys_def scalar_props_def dest!: helmchart_New_ok(1) split: sum.split)

lemma Component_tree:
  assumes "pk_merge pkg = maps_Copy" "cp_ValuesLoader p = None"
    and d: "entries h (cr_Values (pk_defaults pkg)) dc FD" and u: "entries h (cp_Values p) uc FU"
    and disj: "\<And>s t. FD s \<inter> FU t = {}"
    and ps: "map patch_steps (if pk_patches pkg then cp_ValuesPatches p else []) = map Some qs"
  shows "\<exists>h' p' res. Component env pkg (ChartPropsOf p) h = Some (h', p', res) \<and>
     deploys h' (fold (\<lambda>(q, w). put q w) qs (JObj MapK (dc ++ uc))) res"
proof -
  from copied_tree[OF d u disj] obtain S where
    S: "tree (hp_cells (copied h (cr_Values (pk_defaults pkg)) (cp_Values p))) (HRef MapK (hp_next h)) (JObj MapK (dc ++ uc)) S"
      "S \<subseteq> {..<hp_next (copied h (cr_Values (pk_defaults pkg)) (cp_Values p))}" by blast
  show ?thesis
  proof (cases "pk_patches pkg")
    case True
    from apply_patches_tree[OF S, of "cp_ValuesPatches p" qs] ps True show ?thesis
      by (auto simp: Component_copies[OF assms(1,2)] intro: deploysI)
  next
    case False
    with ps S(1) show ?thesis by (auto simp: Component_copies[OF assms(1,2)] intro: deploysI)
  qed
qed

text \<open>
  C18. The values the aptos chart is deployed with: the caller's top-level entries over the defaults, and
  then every patch put at its path, in the order of the list.
\<close>
theorem aptos_values:
  assumes "cp_ValuesLoader p = None"
    and "entries h (cr_Values d) dc FD" and "entries h (cp_Values p) uc FU" and "\<And>s t. FD s \<inter> FU t = {}"
    and "map patch_steps (cp_ValuesPatches p) = map Some qs"
  shows "\<exists>h' p' res. aptos_Component env d (ChartPropsOf p) h = Some (h', p', res) \<and>
     deploys h' (fold (\<lambda>(q, w). put q w) qs (JObj MapK (dc ++ uc))) res"
  unfolding aptos_Component_def by (rule Component_tree) (use assms in simp_all)

text \<open>Two maps in the store: the defaults with a nested map at 0 and 1, nothing of the caller's.\<close>

definition demo_chart_heap :: heap where
  "demo_chart_heap =
     \<lparr>hp_cells = (\<lambda>a. if a = 0 then [Field ''image'' \<mapsto> HRef MapK 1]
        else if a = 1 then [Field ''tag'' \<mapsto> HScalar (SStr ''v1'')] else Map.empty), hp_next = 2\<rparr>"

definition demo_ref :: chart_ref where
  "demo_ref = \<lparr>cr_Name = ''component-chart'', cr_ReleaseName = ''aptos'', cr_Repository = ''https://charts.devspace.sh'',
     cr_Version = ''0.9.1'', cr_Values = Some 0\<rparr>"

definition demo_chart_props :: "string list list \<Rightarrow> chart_props" where
  "demo_chart_props patches =
     \<lparr>cp_Name = ''aptos'', cp_Chart = [], cp_Namespace = [], cp_ReleaseName = [], cp_Repo = [], cp_ValuesLoader = None,
       cp_Values = None, cp_Version = [], cp_ValuesPatches = patches, cp_Flags = None, cp_WaitForReady = False\<rparr>"

definition demo_chart_env :: chart_env where
  "demo_chart_env =
     \<lparr>ce_binary = Inr ''/bin/helm'', ce_validate = (\<lambda>p. None),
       ce_encode = (\<lambda>p. nil_props), ce_newHelm = (\<lambda>p. None)\<rparr>"

abbreviation demo_image :: jval where
  "demo_image \<equiv> JObj MapK [Field ''tag'' \<mapsto> JScalar (SStr ''v1'')]"

definition demo_sets :: "step \<Rightarrow> nat set" where
  "demo_sets = (\<lambda>s. if s = Field ''image'' then {1} else {})"

lemma demo_defaults: "entries demo_chart_heap (Some 0) [Field ''image'' \<mapsto> demo_image] demo_sets"
proof -
  let ?H = "hp_cells demo_chart_heap"
  have "object ?H 1 [Field ''tag'' \<mapsto> JScalar (SStr ''v1'')] (\<lambda>_. {})"
    by (rule objectI) (auto simp: demo_chart_heap_def tree_atoms split: if_splits)
  then have t: "tree ?H (HRef MapK 1) demo_image {1}" by (auto simp: tree_object)
  have "object ?H 0 [Field ''image'' \<mapsto> demo_image] demo_sets"
    by (rule objectI) (use t in \<open>auto simp: demo_chart_heap_def demo_sets_def split: if_splits\<close>)
  moreover have "hp_next demo_chart_heap = 2" by (simp add: demo_chart_heap_def)
  ultimately show ?thesis by (auto simp: entries_def demo_sets_def)
qed

lemma demo_tag_path: "path_steps ''image.tag'' = Some [Field ''image'', Field ''tag'']"
  by (simp add: path_steps_def parse_part_def first_index_def)

theorem aptos_values_witness:
  "\<exists>h' p' res. aptos_Component demo_chart_env demo_ref (ChartPropsOf (demo_chart_props [[''image.tag'', ''v2'']]))
       demo_chart_heap = Some (h', p', res) \<and>
     deploys h' (put [Field ''image'', Field ''tag''] (JScalar (SStr ''v2'')) (JObj MapK [Field ''image'' \<mapsto> demo_image])) res"
proof -
  have "entries demo_chart_heap (cr_Values demo_ref) [Field ''image'' \<mapsto> demo_image] demo_sets"
    using demo_defaults by (simp add: demo_ref_def)
  from aptos_values[OF _ this, of "demo_chart_props [[''image.tag'', ''v2'']]" Map.empty "\<lambda>_. {}"
      "[([Field ''image'', Field ''tag''], JScalar (SStr ''v2''))]" demo_chart_env]
  show ?thesis by (simp add: demo_chart_props_def entries_def demo_tag_path)
qed

section \<open>Patches reach the defaults of the package\<close>

lemma SetValueAtPath_nested:
  assumes "path_steps path = Some (Field k # Field x # ss)" "hp_cells h m (Field k) = Some (HRef MapK b)"
  shows "SetValueAtPath h m path v = Some (hput h b (Field x # ss) v)"
proof -
  have "SetValueAtPath h m path v = Some (hput h m (Field k # Field x # ss) v)"
    using assms(1) unfolding SetValueAtPath_def path_steps_def by (intro set_parts_hput) simp_all
  with assms(2) show ?thesis by (simp add: ensure_map_def)
qed

lemma nested_put:
  assumes obj: "object (hp_cells h) a dc FD" "insert a (\<Union>s. FD s) \<subseteq> {..<hp_next h}"
    and cell: "hp_cells h a s = Some (HRef MapK b)" "dc s = Some (JObj MapK c)"
  shows "\<exists>F'. object (hp_cells (hput h b (Field x # ss) (HScalar v))) a
       (dc(s \<mapsto> put (Field x # ss) (JScalar v) (JObj MapK c))) F'
     \<and> insert a (\<Union>s. F' s) \<subseteq> {..<hp_next (hput h b (Field x # ss) (HScalar v))}"
proof -
  let ?h = "hput h b (Field x # ss) (HScalar v)"
  have "tree (hp_cells h) (HRef MapK b) (JObj MapK c) (FD s)" using objectD(2)[OF obj(1) cell] .
  then obtain F where F: "object (hp_cells h) b c F" "FD s = insert b (\<Union>u. F u)" by (auto simp: tree_object)
  have sub: "insert b (\<Union>u. F u) \<subseteq> {..<hp_next h}" using obj(2) F(2) by blast
  have "fits (Field x) (JObj MapK c)" by (simp add: fits_def)
  from hput_object[OF F(1) sub this tree_scalar[of _ v], where ss = ss] obtain c' F' where
    o: "put (Field x # ss) (JScalar v) (JObj MapK c) = JObj MapK c'" "object (hp_cells ?h) b c' F'"
      "within h (insert b (\<Union>u. F u)) ?h (insert b (\<Union>u. F' u))"
      "\<And>z. z < hp_next h \<Longrightarrow> z \<notin> FD s \<Longrightarrow> hp_cells ?h z = hp_cells h z"
    unfolding F(2) by auto
  let ?G = "insert b (\<Union>u. F' u)"
  have w: "?G \<subseteq> {..<hp_next ?h}" "?G \<inter> {..<hp_next h} \<subseteq> FD s" "hp_next h \<le> hp_next ?h"
    using o(3) unfolding within_def F(2) by (blast, blast, blast)
  have G: "?G \<subseteq> {..<hp_next ?h}" "z \<in> ?G \<Longrightarrow> z < hp_next h \<Longrightarrow> z \<in> FD s" "hp_next h \<le> hp_next ?h" for z
    using w by (blast, blast, blast)
  have a: "a < hp_next h" "a \<notin> FD s" using obj(2) objectD(4)[OF obj(1)] by auto
  have FDt: "z < hp_next h" "z \<notin> FD s" if "t \<noteq> s" "z \<in> FD t" for t z
    using that obj(2) objectD(5)[OF obj(1)] by blast+
  have "object (hp_cells ?h) a (dc(s \<mapsto> JObj MapK c')) (FD(s := ?G))"
  proof (rule object_update[OF obj(1)])
    show "hp_cells ?h a = (hp_cells h a)(s \<mapsto> HRef MapK b)" using o(4)[OF a] cell(1) by auto
    show "tree (hp_cells ?h) (HRef MapK b) (JObj MapK c') ?G" using o(2) by (auto simp: tree_object)
    show "a \<notin> ?G" using G(2) a by blast
    show "z \<notin> ?G \<and> hp_cells ?h z = hp_cells h z" if "t \<noteq> s" "z \<in> FD t" for t z
      using FDt[OF that] G(2) o(4) by blast
  qed
  moreover have "insert a (\<Union>t. (FD(s := ?G)) t) \<subseteq> {..<hp_next ?h}"
  proof -
    have "FD t \<subseteq> {..<hp_next ?h}" for t using obj(2) G(3) by fastforce
    with a(1) G(1,3) show ?thesis by auto
  qed
  ultimately show ?thesis unfolding o(1) by blast
qed

text \<open>What is below in the store keeps its entries when a map is copied.\<close>

lemma entries_copied:
  assumes "entries h (Some a) c F" "entries h d dc FD" "entries h u uc FU"
  shows "object (hp_cells (copied h d u)) a c F" "insert a (\<Union>s. F s) \<subseteq> {..<hp_next (copied h d u)}"
proof -
  have o: "object (hp_cells h) a c F" "insert a (\<Union>s. F s) \<subseteq> {..<hp_next h}" using assms(1) by (simp_all add: entries_def)
  then have "z \<noteq> hp_next h" if "z = a \<or> z \<in> F s" for z s using that by fastforce
  then show "object (hp_cells (copied h d u)) a c F"
    by (intro object_frame[OF o(1)]) (auto simp: copied_cells(1)[OF assms(2,3)])
  show "insert a (\<Union>s. F s) \<subseteq> {..<hp_next (copied h d u)}"
    using o(2) copied_cells(2)[OF assms(2,3)] by fastforce
qed

text \<open>
  C24. A patch below a nested map of the defaults is written into the defaults of the package, since the
  copy is shallow: the next deployment of the package, with no values and no patches of its own, is
  deployed with the patched values.
\<close>
theorem aptos_patch_leaks:
  assumes "cp_ValuesLoader p = None" "cp_ValuesPatches p = [[path, v]]" "path_steps path = Some (Field k # Field x # ss)"
    and d: "cr_Values d = Some a" "entries h (Some a) dc FD" "dc (Field k) = Some (JObj MapK c)"
    and u: "entries h (cp_Values p) uc FU" "uc (Field k) = None" and disj: "\<And>s t. FD s \<inter> FU t = {}"
    and q: "cp_ValuesLoader q = None" "cp_ValuesPatches q = []" "cp_Values q = None"
  shows "\<exists>h1 p1 r1 h2 p2 r2. aptos_Component env d (ChartPropsOf p) h = Some (h1, p1, r1) \<and>
     aptos_Component env d (ChartPropsOf q) h1 = Some (h2, p2, r2) \<and>
     deploys h2 (JObj MapK (dc(Field k \<mapsto> put (Field x # ss) (JScalar (SStr v)) (JObj MapK c)))) r2"
proof -
  let ?c = "copied h (Some a) (cp_Values p)"
  have o: "object (hp_cells h) a dc FD" using d(2) by (simp add: entries_def)
  obtain b where b: "hp_cells h a (Field k) = Some (HRef MapK b)"
    using objectD(1,2)[OF o, of "Field k"] d(3) tree_ref(2) by (metis option.distinct(1) not_None_eq)
  have none: "cells_of (hp_cells h) (cp_Values p) (Field k) = None" using entriesD(1)[OF u(1)] u(2) by blast
  let ?h = "hput ?c b (Field x # ss) (HScalar (SStr v))"
  have "a < hp_next h" using d(2) by (auto simp: entries_def)
  then have ca: "hp_cells ?c a (Field k) = Some (HRef MapK b)"
    and cm: "hp_cells ?c (hp_next h) (Field k) = Some (HRef MapK b)"
    using b none by (simp_all add: copied_cells(1)[OF d(2) u(1)] cells_of_def map_add_def)
  from nested_put[OF entries_copied[OF d(2) d(2) u(1)] ca d(3), of x ss "SStr v"] obtain F' where
    F': "entries ?h (Some a) (dc(Field k \<mapsto> put (Field x # ss) (JScalar (SStr v)) (JObj MapK c))) F'"
    by (auto simp: entries_def)
  have first: "aptos_Component env d (ChartPropsOf p) h = Some (?h, ChartPropsOf (fill_defaults d p),
      helmchart_New env (ChartPropsOf (scalar_props (fill_defaults d p) (hp_next h))))"
    unfolding aptos_Component_def
    by (simp add: Component_copies assms(1,2) d(1) SetValueAtPath_nested[OF assms(3) cm] del: hput.simps)
  have "\<exists>h2 p2 r2. aptos_Component env d (ChartPropsOf q) ?h = Some (h2, p2, r2) \<and>
     deploys h2 (fold (\<lambda>(q, w). put q w) [] (JObj MapK (dc(Field k \<mapsto> put (Field x # ss) (JScalar (SStr v)) (JObj MapK c)) ++ Map.empty))) r2"
    unfolding aptos_Component_def
    by (rule Component_tree[where FD = F' and FU = "\<lambda>_. {}"]) (use F' d(1) q in \<open>simp_all add: entries_def\<close>)
  with first show ?thesis by simp
qed

theorem aptos_patch_leaks_witness:
  "\<exists>h1 p1 r1 h2 p2 r2. aptos_Component demo_chart_env demo_ref (ChartPropsOf (demo_chart_props [[''image.tag'', ''v2'']]))
       demo_chart_heap = Some (h1, p1, r1) \<and>
     aptos_Component demo_chart_env demo_ref (ChartPropsOf (demo_chart_props [])) h1 = Some (h2, p2, r2) \<and>
     deploys h2 (JObj MapK [Field ''image'' \<mapsto> put [Field ''tag''] (JScalar (SStr ''v2'')) demo_image]) r2"
proof -
  let ?p = "demo_chart_props [[''image.tag'', ''v2'']]" and ?q = "demo_chart_props []"
  have p: "cp_ValuesLoader ?p = None" "cp_ValuesPatches ?p = [[''image.tag'', ''v2'']]"
    and q: "cp_ValuesLoader ?q = None" "cp_ValuesPatches ?q = []" "cp_Values ?q = None"
    and r: "cr_Values demo_ref = Some 0" and e: "entries demo_chart_heap (cp_Values ?p) Map.empty (\<lambda>_. {})"
    by (simp_all add: demo_chart_props_def demo_ref_def entries_def)
  from aptos_patch_leaks[OF p demo_tag_path r demo_defaults _ e _ _ q, of "[Field ''tag'' \<mapsto> JScalar (SStr ''v1'')]"
      demo_chart_env]
  show ?thesis by (simp del: put.simps)
qed

text \<open>
  CX. A chart component never waits for its pods: whatever the caller's \<open>WaitForReady\<close> says, the scalar it
  creates has no waiting manifest; and a package that does not apply patches deploys the same
  values with any patches.
\<close>
theorem Component_drops_props:
  "(case Component env pkg (ChartPropsOf p) h of Some (h', p', Inr c) \<Rightarrow> hx_waitFor c = None | _ \<Rightarrow> True) \<and>
   map_option (\<lambda>(h', p', r). (h', r)) (jd_Component env d (ChartPropsOf (p\<lparr>cp_ValuesPatches := patches\<rparr>)) h) =
   map_option (\<lambda>(h', p', r). (h', r)) (jd_Component env d (ChartPropsOf p) h)"
proof -
  have "hx_waitFor c = None" if "helmchart_New env (ChartPropsOf r) = Inr c" "\<not> cp_WaitForReady r" for r c
    using helmchart_New_ok(2)[OF that(1)] that(2) by blast
  moreover have "load_values pkg h (p\<lparr>cp_ValuesPatches := patches\<rparr>) =
      map_prod (\<lambda>h. h) (map_sum (\<lambda>e. e) (\<lambda>p. p\<lparr>cp_ValuesPatches := patches\<rparr>)) (load_values pkg h p)" for pkg
    by (simp add: load_values_def split: option.split prod.split sum.split)
  ultimately show ?thesis
    by (auto simp: Component_def jd_Component_def fill_defaults_def Let_def split: option.split prod.split sum.split)
qed

end
