(* ===== verification/ConfigMaps.thy ===== *)
theory ConfigMaps
  imports K8sDomain Loaders "HOL-Library.List_Lexorder" "HOL-Library.Char_ord"
begin

text \<open>
  The config map scalars: crib/scalar/k8s/configmap/v1 (configmap.go) and v2 (component.go, options.go,
  composite_mapper.go).  Components are pointers, which the mapper merges in place: the slice of
  components is the store, a pointer its index.  \<open>mergo.Merge\<close> and \<open>mergo.Map\<close> are parameters.
\<close>

section \<open>The first version\<close>

text \<open>A nil map of the props is \<open>None\<close>; the loader gives an error or its values.\<close>

record configmap_props =
  pm_DataLoader :: "(goerr + (string \<times> jval) list) option"
  pm_Data :: "(string \<times> string option) list option"
  pm_Namespace :: string
  pm_AppName :: string
  pm_AppInstance :: string
  pm_Name :: string

record kube_config_map =
  kcm_meta :: object_meta
  kcm_data :: "(string \<times> string option) list option"

text \<open>\<open>dry.MustAs[string]\<close> panics on a value that is not a string.\<close>

definition as_str :: "jval \<Rightarrow> string option" where
  "as_str j = (case j of JScalar (SStr s) \<Rightarrow> Some s | _ \<Rightarrow> None)"

definition strings_of :: "(string \<times> jval) list \<Rightarrow> (string \<times> string) list option" where
  "strings_of values = those (map (\<lambda>(k, v). map_option (Pair k) (as_str v)) values)"

definition loadData :: "configmap_props \<Rightarrow> (goerr option \<times> configmap_props) option" where
  "loadData props =
     (if pm_Data props \<noteq> None
      then Some (Some (ErrText ''cannot use both Data and DataLoader at the same time''), props)
      else
        (case pm_DataLoader props of
           None \<Rightarrow> None
         | Some (Inl e) \<Rightarrow> Some (Wrapf (Some e) ''failed to load data values'', props)
         | Some (Inr values) \<Rightarrow>
             map_option (\<lambda>kvs. (None, props\<lparr>pm_Data := Some (map (\<lambda>(k, v). (k, Some v)) kvs)\<rparr>)) (strings_of values)))"

definition configmap_missing :: "configmap_props \<Rightarrow> string list" where
  "configmap_missing p =
     missing [(''Namespace'', pm_Namespace p), (''AppName'', pm_AppName p), (''AppInstance'', pm_AppInstance p),
       (''Name'', pm_Name p)]"

definition configmap_New :: "validator_error \<Rightarrow> configmap_props \<Rightarrow> goerr + kube_config_map" where
  "configmap_New verr p =
     (case NewMetadataFactory verr
        \<lparr>mp_ExtraLabels = None, mp_ExtraAnnotations = None, mp_Namespace = pm_Namespace p,
          mp_ResourceName = pm_Name p, mp_AppName = pm_AppName p, mp_AppInstance = pm_AppInstance p\<rparr> of
        Inl e \<Rightarrow> Inl (the (Wrapf (Some e) ''failed to create default metadata for configmap''))
      | Inr f \<Rightarrow> Inr \<lparr>kcm_meta = K8sResourceMetadata f, kcm_data = pm_Data p\<rparr>)"

text \<open>
  The component function with the struct as it leaves it; nil props are replaced by empty ones when the
  component is created.
\<close>

definition configmap_Component ::
    "validator_error \<Rightarrow> configmap_props \<Rightarrow> ((goerr + kube_config_map) \<times> configmap_props) option" where
  "configmap_Component verr p =
     (case configmap_missing p of
        [] \<Rightarrow>
          (if pm_DataLoader p \<noteq> None then
             (case loadData p of
                None \<Rightarrow> None
              | Some (Some e, p') \<Rightarrow> Some (Inl e, p')
              | Some (None, p') \<Rightarrow> Some (configmap_New verr p', p'))
           else Some (configmap_New verr p, p))
      | fs \<Rightarrow> Some (Inl (verr fs), p))"

section \<open>The second version\<close>

record cm_component =
  cm_Name :: string
  cm_Namespace :: string
  cm_Data :: "(string \<times> string) list option"
  cm_AppName :: string
  cm_AppInstance :: string

record mergo =
  mg_component :: "cm_component \<Rightarrow> cm_component \<Rightarrow> goerr option \<times> cm_component"
  mg_data :: "(string \<times> string) list option \<Rightarrow> (string \<times> string) list \<Rightarrow> goerr option \<times> (string \<times> string) list option"

text \<open>An option sets up a component; \<open>None\<close> is a panic.\<close>

type_synonym configmap_opt = "cm_component \<Rightarrow> (goerr option \<times> cm_component) option"

definition WithComponentOverride :: "mergo \<Rightarrow> cm_component \<Rightarrow> configmap_opt" where
  "WithComponentOverride mg component c = Some (mg_component mg c component)"

definition WithName :: "string \<Rightarrow> configmap_opt" where
  "WithName name c = Some (if name = [] then (Some (ErrText ''name cannot be empty''), c) else (None, c\<lparr>cm_Name := name\<rparr>))"

definition WithNamespace :: "string \<Rightarrow> configmap_opt" where
  "WithNamespace ns c =
     Some (if ns = [] then (Some (ErrText ''namespace cannot be empty''), c) else (None, c\<lparr>cm_Namespace := ns\<rparr>))"

definition WithData :: "mergo \<Rightarrow> (string \<times> string) list option \<Rightarrow> configmap_opt" where
  "WithData mg data c =
     (case data of
        None \<Rightarrow> Some (Some (ErrText ''data cannot be nil''), c)
      | Some kvs \<Rightarrow>
          (case mg_data mg (cm_Data c) kvs of
             (err, d) \<Rightarrow> Some (Wrapf err (''merging data into ConfigMap '' @ quote (cm_Name c) @ '' failed''), c\<lparr>cm_Data := d\<rparr>)))"

definition WithValuesLoader :: "(goerr + (string \<times> jval) list) option \<Rightarrow> configmap_opt" where
  "WithValuesLoader loader c =
     (case loader of
        None \<Rightarrow> Some (Some (ErrText ''values loader cannot be nil''), c)
      | Some (Inl e) \<Rightarrow> Some (Some (WrapErr ''loading values'' e), c)
      | Some (Inr values) \<Rightarrow>
          map_option
            (\<lambda>kvs. (None, c\<lparr>cm_Data := Some (fold (\<lambda>(k, v). AList.update k v) kvs (case cm_Data c of None \<Rightarrow> [] | Some d \<Rightarrow> d))\<rparr>))
            (strings_of values))"

definition WithAppName :: "string \<Rightarrow> configmap_opt" where
  "WithAppName a c = Some (if a = [] then (Some (ErrText ''app name cannot be empty''), c) else (None, c\<lparr>cm_AppName := a\<rparr>))"

definition WithAppInstance :: "string \<Rightarrow> configmap_opt" where
  "WithAppInstance a c =
     Some (if a = [] then (Some (ErrText ''app instance cannot be empty''), c) else (None, c\<lparr>cm_AppInstance := a\<rparr>))"

text \<open>\<open>newScalar\<close> drops the errors of the options.\<close>

fun apply_opts :: "configmap_opt list \<Rightarrow> cm_component \<Rightarrow> cm_component option" where
  "apply_opts [] c = Some c"
| "apply_opts (opt # opts) c = (case opt c of None \<Rightarrow> None | Some (_, c') \<Rightarrow> apply_opts opts c')"

definition newScalar :: "string \<Rightarrow> configmap_opt list \<Rightarrow> cm_component option" where
  "newScalar name opts =
     apply_opts opts \<lparr>cm_Name = name, cm_Namespace = [], cm_Data = None, cm_AppName = [], cm_AppInstance = []\<rparr>"

definition cm_missing :: "cm_component \<Rightarrow> string list" where
  "cm_missing c =
     missing [(''Name'', cm_Name c), (''Namespace'', cm_Namespace c), (''AppName'', cm_AppName c),
       (''AppInstance'', cm_AppInstance c)]"

definition cm_Apply :: "validator_error \<Rightarrow> cm_component \<Rightarrow> goerr + kube_config_map" where
  "cm_Apply verr c =
     (case cm_missing c of
        [] \<Rightarrow>
          (case NewMetadataFactory verr
             \<lparr>mp_ExtraLabels = None, mp_ExtraAnnotations = None, mp_Namespace = cm_Namespace c,
               mp_ResourceName = cm_Name c, mp_AppName = cm_AppName c, mp_AppInstance = cm_AppInstance c\<rparr> of
             Inl e \<Rightarrow> Inl e
           | Inr f \<Rightarrow> Inr \<lparr>kcm_meta = K8sResourceMetadata f, kcm_data = PtrMapping (cm_Data c)\<rparr>)
      | fs \<Rightarrow> Inl (verr fs))"

section \<open>The mapper\<close>

type_synonym cm_ident = "string \<times> string"

definition ident_of :: "cm_component \<Rightarrow> cm_ident" where
  "ident_of c = (cm_Name c, cm_Namespace c)"

definition ident_String :: "cm_ident \<Rightarrow> string" where
  "ident_String i = fst i @ ''/'' @ snd i"

text \<open>The format \<open>%q\<close> of a slice of strings.\<close>

definition quote_list :: "string list \<Rightarrow> string" where
  "quote_list xs = ''['' @ join_with '' '' (map quote xs) @ '']''"

definition data_of :: "cm_component \<Rightarrow> (string \<times> string) list" where
  "data_of c = (case cm_Data c of None \<Rightarrow> [] | Some d \<Rightarrow> d)"

definition calculateDiff :: "cm_ident \<Rightarrow> (string \<times> string) list \<Rightarrow> (string \<times> string) list \<Rightarrow> goerr option" where
  "calculateDiff i m1 m2 =
     (let m1Keys = sort (map fst m1);
          m2Keys = sort (map fst m2);
          diff = filter (\<lambda>k. k \<in> set m1Keys) m2Keys in
      if length diff = 0 then None
      else Some (ErrText (''configmap '' @ quote (ident_String i) @ '' cannot override conflicting keys: ''
             @ quote_list (sort diff))))"

text \<open>The state of the first loop: the components, the first component of each identifier, the errors.\<close>

type_synonym mapper = "cm_component list \<times> (cm_ident \<times> nat) list \<times> goerr option"

definition map_step :: "mergo \<Rightarrow> nat \<Rightarrow> mapper \<Rightarrow> mapper" where
  "map_step mg i st =
     (case st of (cs, componentMap, errs) \<Rightarrow>
        let c = cs ! i; ident = ident_of c in
        (case map_of componentMap ident of
           None \<Rightarrow> (cs, AList.update ident i componentMap, errs)
         | Some j \<Rightarrow>
             (case calculateDiff ident (data_of (cs ! j)) (data_of c) of
                Some e \<Rightarrow> (cs, componentMap, join_errors [errs, Some e])
              | None \<Rightarrow>
                  (case mg_component mg (cs ! j) c of
                     (Some e, m) \<Rightarrow>
                       (cs[j := m], componentMap,
                        join_errors [errs, Some (WrapErr (''merging ConfigMap '' @ quote (ident_String ident)) e)])
                   | (None, m) \<Rightarrow> (cs[j := m], componentMap, errs)))))"

text \<open>The last loop: the component of each identifier where the identifier occurs first; nil if there is none.\<close>

fun collect_components ::
    "cm_component list \<Rightarrow> (cm_ident \<times> nat) list \<Rightarrow> cm_ident set \<Rightarrow> cm_component list \<Rightarrow> cm_component option list" where
  "collect_components cs componentMap seen [] = []"
| "collect_components cs componentMap seen (c # rest) =
     (if ident_of c \<in> seen then collect_components cs componentMap seen rest
      else map_option ((!) cs) (map_of componentMap (ident_of c))
        # collect_components cs componentMap (insert (ident_of c) seen) rest)"

definition mapComponents :: "mergo \<Rightarrow> cm_component list \<Rightarrow> goerr + cm_component option list" where
  "mapComponents mg components =
     (case fold (map_step mg) [0..<length components] (components, [], None) of
        (cs, componentMap, Some e) \<Rightarrow> Inl e
      | (cs, componentMap, None) \<Rightarrow>
          if length componentMap = 0 then Inr [] else Inr (collect_components cs componentMap {} cs))"

text \<open>Nil config maps and nil components are skipped; the options of the mapper come last.\<close>

fun createComponents :: "mergo \<Rightarrow> configmap_opt list \<Rightarrow> cm_component option list \<Rightarrow> cm_component list option" where
  "createComponents mg opts [] = Some []"
| "createComponents mg opts (None # cms) = createComponents mg opts cms"
| "createComponents mg opts (Some component # cms) =
     (case newScalar (cm_Name component) (WithComponentOverride mg component # opts) of
        None \<Rightarrow> None
      | Some nc \<Rightarrow> map_option ((#) nc) (createComponents mg opts cms))"

text \<open>Applying a nil component is a nil dereference.\<close>

fun apply_components :: "validator_error \<Rightarrow> cm_component option list \<Rightarrow> (goerr + kube_config_map list) option" where
  "apply_components verr [] = Some (Inr [])"
| "apply_components verr (None # cs) = None"
| "apply_components verr (Some c # cs) =
     (case cm_Apply verr c of
        Inl e \<Rightarrow> Some (Inl e)
      | Inr k \<Rightarrow> map_option (map_sum (\<lambda>e. e) ((#) k)) (apply_components verr cs))"

definition Mapper_Apply ::
    "validator_error \<Rightarrow> mergo \<Rightarrow> configmap_opt list \<Rightarrow> cm_component option list \<Rightarrow> (goerr + kube_config_map list) option" where
  "Mapper_Apply verr mg opts cms =
     (if length cms = 0 then Some (Inr [])
      else
        (case createComponents mg opts cms of
           None \<Rightarrow> None
         | Some ccs \<Rightarrow>
             (case mapComponents mg ccs of
                Inl e \<Rightarrow> Some (Inl (WrapErr ''mapping ConfigMaps'' e))
              | Inr mapped \<Rightarrow> apply_components verr mapped)))"

section \<open>What the mapper makes of its components\<close>

text \<open>
  What is documented of \<open>mergo.Merge\<close> with override on these structs: it does not fail, a value that is not
  empty replaces, maps are merged and the new entries win.
\<close>

definition override_merge :: "mergo \<Rightarrow> bool" where
  "override_merge mg \<longleftrightarrow>
     (\<forall>a b. fst (mg_component mg a b) = None \<and>
        (let m = snd (mg_component mg a b) in
         cm_Name m = (if cm_Name b = [] then cm_Name a else cm_Name b) \<and>
         cm_Namespace m = (if cm_Namespace b = [] then cm_Namespace a else cm_Namespace b) \<and>
         cm_AppName m = (if cm_AppName b = [] then cm_AppName a else cm_AppName b) \<and>
         cm_AppInstance m = (if cm_AppInstance b = [] then cm_AppInstance a else cm_AppInstance b) \<and>
         map_of (data_of m) = map_of (data_of a) ++ map_of (data_of b)))"

lemma override_mergeD:
  assumes "override_merge mg"
  shows "\<exists>w. mg_component mg a b = (None, w) \<and> map_of (data_of w) = map_of (data_of a) ++ map_of (data_of b) \<and>
    (ident_of a = ident_of b \<longrightarrow> ident_of w = ident_of a)"
proof -
  have "fst (mg_component mg a b) = None" using assms unfolding override_merge_def by blast
  moreover obtain w where w: "w = snd (mg_component mg a b)" by blast
  moreover have "cm_Name w = (if cm_Name b = [] then cm_Name a else cm_Name b)"
    "cm_Namespace w = (if cm_Namespace b = [] then cm_Namespace a else cm_Namespace b)"
    "map_of (data_of w) = map_of (data_of a) ++ map_of (data_of b)"
    using assms unfolding override_merge_def Let_def w by blast+
  ultimately show ?thesis by (intro exI[of _ w]) (simp add: prod_eq_iff ident_of_def)
qed

definition uniq :: "'a list \<Rightarrow> 'a list" where
  "uniq xs = rev (remdups (rev xs))"

lemma uniq_simps [simp]: "uniq [] = []" "uniq (xs @ [x]) = (if x \<in> set xs then uniq xs else uniq xs @ [x])"
  by (simp_all add: uniq_def)

lemma set_uniq [simp]: "set (uniq xs) = set xs" "distinct (uniq xs)"
  by (simp_all add: uniq_def)

abbreviation disjoint_data :: "cm_component \<Rightarrow> cm_component \<Rightarrow> bool" where
  "disjoint_data a b \<equiv> ident_of a = ident_of b \<longrightarrow> set (map fst (data_of a)) \<inter> set (map fst (data_of b)) = {}"

definition conflict_free :: "cm_component list \<Rightarrow> bool" where
  "conflict_free cs = sorted_wrt disjoint_data cs"

definition union_data :: "cm_ident \<Rightarrow> cm_component list \<Rightarrow> (string \<rightharpoonup> string)" where
  "union_data i cs = map_of (concat (map data_of (filter (\<lambda>c. ident_of c = i) cs)))"

lemma dom_union_data: "dom (union_data i cs) = (\<Union>c \<in> {c \<in> set cs. ident_of c = i}. set (map fst (data_of c)))"
  by (auto simp: union_data_def dom_map_of_conv_image_fst)

lemma union_data_snoc:
  "union_data i (cs @ [c]) = (if ident_of c = i then map_of (data_of c) ++ union_data i cs else union_data i cs)"
  by (simp add: union_data_def)

lemma update_new: "map_of al k = None \<Longrightarrow> AList.update k v al = al @ [(k, v)]"
  by (induction al) (auto split: if_splits)

lemma calculateDiff_None: "calculateDiff i m1 m2 = None \<longleftrightarrow> set (map fst m1) \<inter> set (map fst m2) = {}"
proof -
  have "calculateDiff i m1 m2 = None \<longleftrightarrow> filter (\<lambda>k. k \<in> set (map fst m1)) (sort (map fst m2)) = []"
    by (simp add: calculateDiff_def Let_def)
  also have "\<dots> \<longleftrightarrow> (\<forall>k \<in> set (map fst m2). k \<notin> set (map fst m1))" unfolding filter_empty_conv set_sort ..
  finally show ?thesis by blast
qed

text \<open>The state after \<open>i\<close> components that do not conflict.\<close>

definition mapped :: "cm_component list \<Rightarrow> nat \<Rightarrow> cm_component list \<Rightarrow> (cm_ident \<times> nat) list \<Rightarrow> bool" where
  "mapped ccs i cs cmap \<longleftrightarrow> map ident_of cs = map ident_of ccs \<and> (\<forall>l. i \<le> l \<longrightarrow> l < length ccs \<longrightarrow> cs ! l = ccs ! l) \<and>
     map fst cmap = uniq (map ident_of (take i ccs)) \<and>
     (\<forall>ident j. map_of cmap ident = Some j \<longrightarrow> j < i \<and> ident_of (ccs ! j) = ident \<and>
        map_of (data_of (cs ! j)) = union_data ident (take i ccs))"

lemma map_step_mapped:
  assumes mg: "override_merge mg" and i: "i < length ccs" and m: "mapped ccs i cs cmap"
    and free: "conflict_free (take i ccs)" and step: "map_step mg i (cs, cmap, None) = (cs', cmap', errs)"
  shows "if conflict_free (take (Suc i) ccs) then errs = None \<and> mapped ccs (Suc i) cs' cmap' else errs \<noteq> None"
proof -
  let ?c = "ccs ! i"
  have take: "take (Suc i) ccs = take i ccs @ [?c]" using i by (rule take_Suc_conv_app_nth)
  have c: "cs ! i = ?c" and len: "length cs = length ccs" and ids: "map ident_of cs = map ident_of ccs"
    and keys: "map fst cmap = uniq (map ident_of (take i ccs))"
    and data: "\<And>ident j. map_of cmap ident = Some j \<Longrightarrow> j < i \<and> ident_of (ccs ! j) = ident \<and>
        map_of (data_of (cs ! j)) = union_data ident (take i ccs)"
    and later: "\<And>l. i \<le> l \<Longrightarrow> l < length ccs \<Longrightarrow> cs ! l = ccs ! l"
    using m i unfolding mapped_def by (auto dest: map_eq_imp_length_eq)
  have known: "map_of cmap (ident_of ?c) = None \<longleftrightarrow> ident_of ?c \<notin> ident_of ` set (take i ccs)"
    using arg_cong[OF keys, of set] by (simp add: map_of_eq_None_iff)
  have free': "conflict_free (take (Suc i) ccs) \<longleftrightarrow> (\<forall>a \<in> set (take i ccs). disjoint_data a ?c)"
    using free by (simp add: take conflict_free_def sorted_wrt_append)
  show ?thesis
  proof (cases "map_of cmap (ident_of ?c)")
    case None
    then have other: "ident_of a \<noteq> ident_of ?c" if "a \<in> set (take i ccs)" for a using known that by (metis image_eqI)
    have "conflict_free (take (Suc i) ccs)" unfolding free' using other by blast
    moreover have new: "cs' = cs" "cmap' = cmap @ [(ident_of ?c, i)]" "errs = None"
      using step None c by (simp_all add: map_step_def Let_def update_new)
    have "mapped ccs (Suc i) cs' cmap'"
      unfolding mapped_def new
    proof (intro conjI allI impI)
      show "map fst (cmap @ [(ident_of ?c, i)]) = uniq (map ident_of (take (Suc i) ccs))"
        using keys known None by (simp add: take)
      fix ident j assume j: "map_of (cmap @ [(ident_of ?c, i)]) ident = Some j"
      have "j < Suc i \<and> ident_of (ccs ! j) = ident \<and> map_of (data_of (cs ! j)) = union_data ident (take (Suc i) ccs)"
      proof (cases "map_of cmap ident")
        case (Some j')
        then have "ident \<noteq> ident_of ?c" using None by auto
        with Some j data[OF Some] show ?thesis by (simp add: take union_data_snoc)
      next
        case n: None
        then have e: "ident = ident_of ?c" "j = i" using j by (auto simp: map_add_def split: if_splits)
        have "dom (union_data ident (take i ccs)) = {}" unfolding dom_union_data e using other by blast
        with e c show ?thesis by (simp add: take union_data_snoc)
      qed
      then show "j < Suc i" "ident_of (ccs ! j) = ident" "map_of (data_of (cs ! j)) = union_data ident (take (Suc i) ccs)"
        by simp_all
    qed (use ids later in auto)
    ultimately show ?thesis using new(3) by simp
  next
    case (Some j)
    note j = data[OF Some]
    have dj: "set (map fst (data_of (cs ! j))) = (\<Union>a \<in> {a \<in> set (take i ccs). ident_of a = ident_of ?c}. set (map fst (data_of a)))"
      using arg_cong[of _ _ dom, OF conjunct2[OF conjunct2[OF j]]] by (simp add: dom_union_data dom_map_of_conv_image_fst)
    have diff: "calculateDiff (ident_of ?c) (data_of (cs ! j)) (data_of ?c) = None \<longleftrightarrow> conflict_free (take (Suc i) ccs)"
      unfolding calculateDiff_None dj free' by blast
    show ?thesis
    proof (cases "calculateDiff (ident_of ?c) (data_of (cs ! j)) (data_of ?c)")
      case (Some e)
      with step \<open>map_of cmap (ident_of ?c) = _\<close> c diff show ?thesis by (auto simp: map_step_def Let_def)
    next
      case None
      have jl: "j < length cs" "j < i" "ident_of (ccs ! j) = ident_of ?c" using j i len by auto
      have idj: "ident_of (cs ! j) = ident_of (ccs ! j)" using arg_cong[OF ids, of "\<lambda>xs. xs ! j"] jl(1) len by simp
      obtain w where w: "mg_component mg (cs ! j) ?c = (None, w)"
        "map_of (data_of w) = map_of (data_of (cs ! j)) ++ map_of (data_of ?c)" "ident_of w = ident_of (ccs ! j)"
        using override_mergeD[OF mg, of "cs ! j" ?c] idj jl(3) by auto
      have st: "cs' = cs[j := w]" "cmap' = cmap" "errs = None"
        using step \<open>map_of cmap (ident_of ?c) = _\<close> None w(1) c by (simp_all add: map_step_def Let_def)
      have old: "ident_of ?c \<in> set (map ident_of (take i ccs))" using known \<open>map_of cmap (ident_of ?c) = _\<close> by auto
      have "dom (map_of (data_of (cs ! j))) \<inter> dom (map_of (data_of ?c)) = {}"
        using None unfolding calculateDiff_None by (simp add: dom_map_of_conv_image_fst)
      with w(2) j have wd: "map_of (data_of w) = union_data (ident_of ?c) (take (Suc i) ccs)"
        by (simp add: take union_data_snoc map_add_comm)
      have "mapped ccs (Suc i) cs' cmap'"
        unfolding mapped_def st
      proof (intro conjI allI impI)
        show "map ident_of (cs[j := w]) = map ident_of ccs" 
          using ids w(3) idj jl(1) unfolding map_update by (metis list_update_id nth_map)
        show "map fst cmap = uniq (map ident_of (take (Suc i) ccs))" using keys old by (simp add: take)
        fix ident k assume k: "map_of cmap ident = Some k"
        have "k < Suc i \<and> ident_of (ccs ! k) = ident \<and> map_of (data_of (cs[j := w] ! k)) = union_data ident (take (Suc i) ccs)"
        proof (cases "ident = ident_of ?c")
          case True
          with k \<open>map_of cmap (ident_of ?c) = _\<close> jl wd show ?thesis by simp
        next
          case False
          with data[OF k] jl(3) have "k \<noteq> j" by auto
          with data[OF k] False show ?thesis by (simp add: take union_data_snoc)
        qed
        then show "k < Suc i" "ident_of (ccs ! k) = ident"
          "map_of (data_of (cs[j := w] ! k)) = union_data ident (take (Suc i) ccs)" by simp_all
      qed (use later jl in \<open>auto simp: nth_list_update\<close>)
      with diff None st(3) show ?thesis by simp
    qed
  qed
qed

lemma map_step_fails: "errs \<noteq> None \<Longrightarrow> \<exists>cs' cmap' errs'. map_step mg i (cs, cmap, errs) = (cs', cmap', errs') \<and> errs' \<noteq> None"
  by (auto simp: map_step_def Let_def join_errors_None_iff split: option.splits prod.splits)

lemma fold_map_step:
  assumes mg: "override_merge mg" and n: "n \<le> length ccs"
  shows "\<exists>cs cmap errs. fold (map_step mg) [0..<n] (ccs, [], None) = (cs, cmap, errs) \<and>
     (if conflict_free (take n ccs) then errs = None \<and> mapped ccs n cs cmap else errs \<noteq> None)"
  using n
proof (induction n)
  case 0
  then show ?case by (simp add: conflict_free_def mapped_def)
next
  case (Suc n)
  then obtain cs cmap errs where f: "fold (map_step mg) [0..<n] (ccs, [], None) = (cs, cmap, errs)"
    "if conflict_free (take n ccs) then errs = None \<and> mapped ccs n cs cmap else errs \<noteq> None" by auto
  obtain cs' cmap' errs' where s: "map_step mg n (cs, cmap, errs) = (cs', cmap', errs')"
    by (cases "map_step mg n (cs, cmap, errs)") auto
  have fs: "fold (map_step mg) [0..<Suc n] (ccs, [], None) = (cs', cmap', errs')" using f(1) s by simp
  show ?case
  proof (cases "conflict_free (take n ccs)")
    case True
    with f(2) have "mapped ccs n cs cmap" "errs = None" by simp_all
    with map_step_mapped[OF mg _ this(1) True] s Suc.prems fs show ?thesis by auto
  next
    case False
    have "\<not> conflict_free (take (Suc n) ccs)"
    proof
      assume "conflict_free (take (Suc n) ccs)"
      then have "conflict_free (take n (take (Suc n) ccs))" unfolding conflict_free_def by (rule sorted_wrt_take)
      with False show False by simp
    qed
    moreover have "errs' \<noteq> None" using map_step_fails[of errs mg n cs cmap] False f(2) s by auto
    ultimately show ?thesis using fs by simp
  qed
qed

lemma remdups_snoc: "remdups (ys @ [x]) = filter (\<lambda>y. y \<noteq> x) (remdups ys) @ [x]"
  by (induction ys) auto

lemma uniq_Cons: "uniq (x # xs) = x # filter (\<lambda>y. y \<noteq> x) (uniq xs)"
  by (simp add: uniq_def remdups_snoc rev_filter)

lemma collect_components_map:
  "collect_components cs cmap seen rest =
     map (\<lambda>i. map_option ((!) cs) (map_of cmap i)) (filter (\<lambda>i. i \<notin> seen) (uniq (map ident_of rest)))"
proof (induction cs cmap seen rest rule: collect_components.induct)
  case (2 cs cmap seen c rest)
  show ?case
  proof (cases "ident_of c \<in> seen")
    case True
    then have "filter (\<lambda>i. i \<notin> seen) (filter (\<lambda>y. y \<noteq> ident_of c) (uniq (map ident_of rest)))
        = filter (\<lambda>i. i \<notin> seen) (uniq (map ident_of rest))"
      unfolding filter_filter by (intro filter_cong) auto
    with 2(1) True show ?thesis by (simp add: uniq_Cons)
  next
    case False
    have "filter (\<lambda>i. i \<notin> seen) (filter (\<lambda>y. y \<noteq> ident_of c) (uniq (map ident_of rest)))
        = filter (\<lambda>i. i \<notin> insert (ident_of c) seen) (uniq (map ident_of rest))"
      unfolding filter_filter by (intro filter_cong) auto
    with 2(2) False show ?thesis by (simp add: uniq_Cons)
  qed
qed simp

text \<open>
  C35. Mapping config maps succeeds exactly when no two components with one name and namespace share a key.
  Then there is one component for each name and namespace, in the order of their first occurrence, and
  its data are the data of all components with that name and namespace.
\<close>
theorem mapComponents_merges:
  assumes "override_merge mg"
  shows "case mapComponents mg ccs of
      Inl e \<Rightarrow> \<not> conflict_free ccs
    | Inr rs \<Rightarrow> conflict_free ccs \<and> (\<exists>cs. rs = map Some cs \<and> map ident_of cs = uniq (map ident_of ccs) \<and>
        list_all (\<lambda>c. map_of (data_of c) = union_data (ident_of c) ccs) cs)"
proof -
  obtain cs cmap errs where f: "fold (map_step mg) [0..<length ccs] (ccs, [], None) = (cs, cmap, errs)"
    "if conflict_free ccs then errs = None \<and> mapped ccs (length ccs) cs cmap else errs \<noteq> None"
    using fold_map_step[OF assms, of "length ccs" ccs] by auto
  show ?thesis
  proof (cases "conflict_free ccs")
    case False
    with f show ?thesis by (auto simp: mapComponents_def)
  next
    case True
    with f(2) have m: "map ident_of cs = map ident_of ccs" "map fst cmap = uniq (map ident_of ccs)" "errs = None"
      and d: "\<And>ident j. map_of cmap ident = Some j \<Longrightarrow> j < length ccs \<and> ident_of (ccs ! j) = ident \<and>
        map_of (data_of (cs ! j)) = union_data ident ccs"
      by (auto simp: mapped_def)
    have len: "length cs = length ccs" using m(1) by (rule map_eq_imp_length_eq)
    define rs where "rs = map (\<lambda>i. cs ! the (map_of cmap i)) (uniq (map ident_of ccs))"
    have each: "\<exists>j. map_of cmap i = Some j \<and> ident_of (cs ! j) = i \<and> map_of (data_of (cs ! j)) = union_data i ccs"
      if "i \<in> set (uniq (map ident_of ccs))" for i
    proof -
      from that obtain j where j: "map_of cmap i = Some j" using m(2) by (metis map_of_eq_None_iff not_Some_eq set_map)
      with d[OF j] arg_cong[OF m(1), of "\<lambda>xs. xs ! j"] len show ?thesis by auto
    qed
    have "mapComponents mg ccs = Inr (map Some rs)"
    proof (cases "ccs = []")
      case True
      with f m(2,3) show ?thesis by (simp add: mapComponents_def rs_def)
    next
      case False
      then have "length cmap \<noteq> 0" using arg_cong[OF m(2), of set] by auto
      with f(1) m each have "mapComponents mg ccs = Inr (map (\<lambda>i. map_option ((!) cs) (map_of cmap i)) (uniq (map ident_of ccs)))"
        by (simp add: mapComponents_def collect_components_map)
      moreover have "map (\<lambda>i. map_option ((!) cs) (map_of cmap i)) (uniq (map ident_of ccs)) = map Some rs"
        unfolding rs_def map_map by (rule map_cong[OF refl]) (use each in fastforce)
      ultimately show ?thesis by simp
    qed
    moreover have "map ident_of rs = uniq (map ident_of ccs)"
      unfolding rs_def map_map by (rule map_idI) (use each in fastforce)
    moreover have "list_all (\<lambda>c. map_of (data_of c) = union_data (ident_of c) ccs) rs"
      unfolding rs_def list_all_iff set_map using each by (metis (no_types, lifting) imageE option.sel)
    ultimately show ?thesis using True by auto
  qed
qed

definition demo_mergo :: mergo where
  "demo_mergo =
     \<lparr>mg_component = (\<lambda>a b. (None,
        \<lparr>cm_Name = (if cm_Name b = [] then cm_Name a else cm_Name b),
          cm_Namespace = (if cm_Namespace b = [] then cm_Namespace a else cm_Namespace b),
          cm_Data = Some (data_of b @ data_of a),
          cm_AppName = (if cm_AppName b = [] then cm_AppName a else cm_AppName b),
          cm_AppInstance = (if cm_AppInstance b = [] then cm_AppInstance a else cm_AppInstance b)\<rparr>)),
      mg_data = (\<lambda>d kvs. (None, Some (kvs @ (case d of None \<Rightarrow> [] | Some d \<Rightarrow> d))))\<rparr>"

definition demo_cm :: "string \<Rightarrow> string \<Rightarrow> cm_component" where
  "demo_cm name k =
     \<lparr>cm_Name = name, cm_Namespace = ''ns'', cm_Data = Some [(k, ''1'')], cm_AppName = ''app'', cm_AppInstance = ''app-0''\<rparr>"

theorem mapComponents_merges_witness:
  "\<exists>cs. mapComponents demo_mergo [demo_cm ''a'' ''x'', demo_cm ''b'' ''x'', demo_cm ''a'' ''y''] = Inr (map Some cs) \<and>
     map ident_of cs = [(''a'', ''ns''), (''b'', ''ns'')]"
proof -
  have mg: "override_merge demo_mergo" by (simp add: override_merge_def demo_mergo_def data_of_def)
  have free: "conflict_free [demo_cm ''a'' ''x'', demo_cm ''b'' ''x'', demo_cm ''a'' ''y'']"
    by (simp add: conflict_free_def demo_cm_def ident_of_def data_of_def)
  have "uniq (map ident_of [demo_cm ''a'' ''x'', demo_cm ''b'' ''x'', demo_cm ''a'' ''y'']) = [(''a'', ''ns''), (''b'', ''ns'')]"
    by (simp add: uniq_Cons demo_cm_def ident_of_def)
  with mapComponents_merges[OF mg, of "[demo_cm ''a'' ''x'', demo_cm ''b'' ''x'', demo_cm ''a'' ''y'']"] free
  show ?thesis by (auto split: sum.splits)
qed

section \<open>The data loader of the first version\<close>

text \<open>
  C40. A component of the first version with a data loader works once: it stores the loaded data in the
  caller's struct beside the loader, and applying the component again is the error for both.
\<close>
theorem configmap_Component_once:
  assumes "configmap_Component verr p = Some (Inr k, p')" "pm_DataLoader p = Some l"
  shows "configmap_Component verr p' = Some (Inl (ErrText ''cannot use both Data and DataLoader at the same time''), p')"
proof -
  from assms obtain kvs where p': "p' = p\<lparr>pm_Data := Some (map (\<lambda>(k, v). (k, Some v)) kvs)\<rparr>" and ok: "configmap_missing p = []"
    by (auto simp: configmap_Component_def loadData_def split: list.splits option.splits sum.splits if_splits prod.splits)
  have "configmap_missing p' = []" using ok by (simp add: p' configmap_missing_def)
  then show ?thesis using assms(2) by (simp add: configmap_Component_def loadData_def p')
qed

definition demo_configmap :: configmap_props where
  "demo_configmap =
     \<lparr>pm_DataLoader = Some (Inr [(''k'', JScalar (SStr ''v''))]), pm_Data = None, pm_Namespace = ''ns'', pm_AppName = ''app'',
       pm_AppInstance = ''app-0'', pm_Name = ''cm''\<rparr>"

theorem configmap_Component_once_witness:
  "\<exists>k p'. configmap_Component (\<lambda>fs. ErrText ''missing'') demo_configmap = Some (Inr k, p') \<and>
     configmap_Component (\<lambda>fs. ErrText ''missing'') p' =
       Some (Inl (ErrText ''cannot use both Data and DataLoader at the same time''), p')"
proof -
  have "\<exists>k p'. configmap_Component (\<lambda>fs. ErrText ''missing'') demo_configmap = Some (Inr k, p')"
    by (simp add: configmap_Component_def configmap_missing_def missing_def demo_configmap_def loadData_def strings_of_def
        as_str_def configmap_New_def NewMetadataFactory_def)
  then obtain k p' where a: "configmap_Component (\<lambda>fs. ErrText ''missing'') demo_configmap = Some (Inr k, p')" by blast
  have "pm_DataLoader demo_configmap = Some (Inr [(''k'', JScalar (SStr ''v''))])" by (simp add: demo_configmap_def)
  from configmap_Component_once[OF a this] a show ?thesis by blast
qed

end
