(* ===== verification/Indent.thy ===== *)
theory Indent
  imports GoStrings
begin

text \<open>
  \<open>RemoveIndentation\<close> of internal/core/common/dry/string.go, with which the composites write
  scripts and configuration files as indented literals.
\<close>

definition LF :: char where "LF = CHR 0x0A"
definition TAB :: char where "TAB = CHR 0x09"

definition blank_line :: "string \<Rightarrow> bool" where
  "blank_line l = (trim_space l = [])"

definition is_indent :: "char \<Rightarrow> bool" where
  "is_indent c = (c = CHR '' '' \<or> c = TAB)"

text \<open>The loop that counts the leading blanks and tabs of a line.\<close>

fun indent_of :: "string \<Rightarrow> nat" where
  "indent_of [] = 0"
| "indent_of (c # cs) = (if is_indent c then Suc (indent_of cs) else 0)"

text \<open>The least indentation so far (\<open>None\<close> is the code's -1), over the lines that are not blank.\<close>

fun min_indent :: "nat option \<Rightarrow> string list \<Rightarrow> nat option" where
  "min_indent m [] = m"
| "min_indent m (l # ls) =
     (if blank_line l then min_indent m ls
      else
        (case m of
           None \<Rightarrow> min_indent (Some (indent_of l)) ls
         | Some n \<Rightarrow> min_indent (Some (if indent_of l < n then indent_of l else n)) ls))"

text \<open>The loop over a line: how much was removed, and the offset at which it stopped.\<close>

fun strip_loop :: "nat \<Rightarrow> nat \<Rightarrow> nat \<Rightarrow> string \<Rightarrow> nat \<times> nat" where
  "strip_loop m removed k [] = (removed, 0)"
| "strip_loop m removed k (c # cs) =
     (if m \<le> removed then (removed, k)
      else if \<not> is_indent c then (removed, k)
      else strip_loop m (Suc removed) (Suc k) cs)"

definition strip_line :: "nat \<Rightarrow> string \<Rightarrow> string" where
  "strip_line m line =
     (if blank_line line then []
      else
        (case strip_loop m 0 0 line of
           (removed, j) \<Rightarrow> let j = (if removed < m then length line else j) in drop j line))"

text \<open>The lines without the blank ones at both ends.\<close>

definition core_lines :: "string list \<Rightarrow> string list" where
  "core_lines ls = rev (dropWhile blank_line (rev (dropWhile blank_line ls)))"

definition RemoveIndentation :: "string \<Rightarrow> string" where
  "RemoveIndentation s =
     (let ls = core_lines (split_on LF s) in
      if ls = [] then []
      else
        (case min_indent None ls of
           None \<Rightarrow> join_with [LF] (map (strip_line 0) ls)
         | Some m \<Rightarrow> join_with [LF] (map (strip_line m) ls)))"

section \<open>Exactly the common indentation is removed\<close>

lemma indent_takeWhile: "indent_of l = length (takeWhile is_indent l)"
  by (induction l) auto

lemma indent_only_blank: "list_all is_indent l \<Longrightarrow> blank_line l"
proof -
  assume a: "list_all is_indent l"
  have sp: "is_space_rune (byte c)" "byte c < 128" if "is_indent c" for c
    using that by (auto simp: is_indent_def TAB_def is_space_rune_def)
  from a sp have "ascii l" by (auto simp: ascii_def list_all_iff)
  then have "segments l = map (\<lambda>c. (byte c, [c])) l" by (rule segments_ascii)
  moreover have "dropWhile (\<lambda>x. is_space_rune (fst x)) (map (\<lambda>c. (byte c, [c])) l) = []"
    using a sp by (auto simp: dropWhile_eq_Nil_conv list_all_iff)
  ultimately show ?thesis by (simp only: blank_line_def trim_space_def rev.simps dropWhile.simps list.map concat.simps)
qed

lemma strip_loop_indent:
  "m \<le> removed + indent_of l \<Longrightarrow> removed \<le> m \<Longrightarrow> m - removed < length l \<Longrightarrow>
     strip_loop m removed k l = (m, k + (m - removed))"
proof (induction m removed k l rule: strip_loop.induct)
  case (2 m removed k c cs)
  show ?case
  proof (cases "removed = m")
    case False
    with 2 have "is_indent c" by (cases "is_indent c") auto
    with 2 False show ?thesis by auto
  qed simp
qed simp

lemma strip_line_drop:
  assumes "\<not> blank_line l" "m \<le> indent_of l"
  shows "strip_line m l = drop m l"
proof -
  have "indent_of l < length l"
  proof (rule ccontr)
    assume "\<not> indent_of l < length l"
    then have "length (takeWhile is_indent l) = length l"
      using length_takeWhile_le[of is_indent l] by (simp add: indent_takeWhile)
    then have "takeWhile is_indent l = l" by (metis append.right_neutral append_eq_conv_conj takeWhile_eq_take take_all_iff le_refl)
    then have "list_all is_indent l" by (auto simp: list_all_iff takeWhile_eq_all_conv)
    with assms(1) indent_only_blank show False by blast
  qed
  with assms show ?thesis using strip_loop_indent[of m 0 l 0] by (simp add: strip_line_def)
qed

abbreviation text_lines :: "string list \<Rightarrow> string list" where
  "text_lines ls \<equiv> filter (\<lambda>l. \<not> blank_line l) ls"

lemma Min_min: "finite S \<Longrightarrow> Min (insert (min n k) S) = Min (insert n (insert k S))" for n k :: nat
  by (cases "S = {}") (simp_all add: min.assoc)

lemma min_indent_Min:
  "min_indent m ls = (if text_lines ls = [] then m
     else Some (Min (set_option m \<union> indent_of ` set (text_lines ls))))"
proof (induction m ls rule: min_indent.induct)
  case (2 m l ls)
  define T where T: "T = text_lines ls"
  show ?case
  proof (cases "blank_line l")
    case True
    with 2(1) show ?thesis by simp
  next
    case False
    then have cons: "text_lines (l # ls) = l # T" by (simp add: T)
    show ?thesis
    proof (cases m)
      case None
      have "min_indent (Some (indent_of l)) ls = Some (Min (insert (indent_of l) (indent_of ` set T)))"
        using 2(2)[OF False None] by (cases "T = []") (simp_all add: T[symmetric])
      with None False show ?thesis unfolding cons by simp
    next
      case (Some n)
      have "(if indent_of l < n then indent_of l else n) = min n (indent_of l)" by auto
      then have "min_indent (Some (if indent_of l < n then indent_of l else n)) ls
          = Some (Min (insert (min n (indent_of l)) (indent_of ` set T)))"
        using 2(3)[OF False Some] by (cases "T = []") (simp_all add: T[symmetric] del: Min_insert)
      with Some False show ?thesis unfolding cons by (simp add: Min_min insert_commute del: Min_insert)
    qed
  qed
qed simp

lemma core_lines_not_blank: "core_lines ls \<noteq> [] \<Longrightarrow> \<exists>l \<in> set (core_lines ls). \<not> blank_line l"
proof -
  assume "core_lines ls \<noteq> []"
  then have "dropWhile blank_line (rev (dropWhile blank_line ls)) \<noteq> []" by (simp add: core_lines_def)
  from hd_dropWhile[OF this] hd_in_set[OF this] show ?thesis by (auto simp: core_lines_def)
qed

lemma RemoveIndentation_min:
  "RemoveIndentation s =
     (let ls = core_lines (split_on LF s); m = Min (indent_of ` set (text_lines ls)) in
      join_with [LF] (map (\<lambda>l. if blank_line l then [] else drop m l) ls))"
proof (cases "core_lines (split_on LF s)")
  case Nil
  then show ?thesis by (simp add: RemoveIndentation_def)
next
  case (Cons a as)
  let ?ls = "core_lines (split_on LF s)"
  let ?m = "Min (indent_of ` set (text_lines ?ls))"
  have ls: "(?ls = []) = False" using Cons by simp
  have ne: "text_lines ?ls \<noteq> []" using core_lines_not_blank[of "split_on LF s"] Cons by (auto simp: filter_empty_conv)
  have "strip_line ?m l = (if blank_line l then [] else drop ?m l)" if "l \<in> set ?ls" for l
  proof (cases "blank_line l")
    case True
    then show ?thesis by (simp add: strip_line_def)
  next
    case False
    with that have "indent_of l \<in> indent_of ` set (text_lines ?ls)" by simp
    then have "?m \<le> indent_of l" by (rule Min_le[rotated]) simp
    with strip_line_drop[OF False] False show ?thesis by simp
  qed
  then have "map (strip_line ?m) ?ls = map (\<lambda>l. if blank_line l then [] else drop ?m l) ?ls" by simp
  moreover have "min_indent None ?ls = Some ?m" using ne by (simp add: min_indent_Min)
  ultimately have "RemoveIndentation s = join_with [LF] (map (\<lambda>l. if blank_line l then [] else drop ?m l) ?ls)"
    using ls by (simp only: RemoveIndentation_def Let_def if_False option.case)
  then show ?thesis by (simp only: Let_def)
qed

text \<open>
  CX. From every line of the text, without the blank lines at both ends, exactly the least indentation of
  a line that is not blank is removed; blank lines become empty.
\<close>
theorem RemoveIndentation_spec:
  "RemoveIndentation s =
     (let ls = core_lines (split_on LF s); m = Min (indent_of ` set (text_lines ls)) in
      join_with [LF] (map (\<lambda>l. if blank_line l then [] else drop m l) ls))"
  by (rule RemoveIndentation_min)

section \<open>Literals of several lines\<close>

text \<open>The lines of a literal that is indented by tabs.\<close>

definition literal :: "(nat \<times> string) list \<Rightarrow> string" where
  "literal ls = join_with [LF] (map (\<lambda>(n, s). replicate n TAB @ s) ls)"

definition DQ :: string where "DQ = [CHR 0x22]"

definition QU :: string where "QU = [CHR 0x27]"

definition printable :: "string \<Rightarrow> bool" where
  "printable s \<longleftrightarrow> list_all (\<lambda>c. 32 \<le> byte c \<and> byte c < 127) s"

text \<open>The rows of a literal without the blank ones at both ends, and the lines they become.\<close>

fun blank_row :: "nat \<times> string \<Rightarrow> bool" where "blank_row (k, s) \<longleftrightarrow> s = []"

definition core_rows :: "(nat \<times> string) list \<Rightarrow> (nat \<times> string) list" where
  "core_rows rows = rev (dropWhile blank_row (rev (dropWhile blank_row rows)))"

definition good_rows :: "(nat \<times> string) list \<Rightarrow> bool" where
  "good_rows rows \<longleftrightarrow> core_rows rows \<noteq> [] \<and>
     list_all (\<lambda>(k, s). s = [] \<or> (fst (hd (core_rows rows)) \<le> k \<and> hd s \<noteq> CHR '' '' \<and> printable s)) rows"

definition row_lines :: "(nat \<times> string) list \<Rightarrow> string list" where
  "row_lines rows = map (\<lambda>(k, s). if s = [] then [] else replicate (k - fst (hd (core_rows rows))) TAB @ s) (core_rows rows)"

abbreviation row_text :: "nat \<times> string \<Rightarrow> string" where "row_text \<equiv> \<lambda>(k, s). replicate k TAB @ s"

lemma blank_line_ascii:
  assumes "ascii l"
  shows "blank_line l \<longleftrightarrow> list_all (\<lambda>c. is_space_rune (byte c)) l"
proof -
  let ?p = "\<lambda>c. is_space_rune (byte c)"
  have seg: "segments l = map (\<lambda>c. (byte c, [c])) l" using assms by (rule segments_ascii)
  have "trim_space l = rev (dropWhile ?p (rev (dropWhile ?p l)))"
    unfolding trim_space_def seg by (simp add: dropWhile_map rev_map comp_def)
  then have "blank_line l \<longleftrightarrow> (\<forall>c \<in> set (dropWhile ?p l). ?p c)"
    by (simp only: blank_line_def rev_is_Nil_conv dropWhile_eq_Nil_conv set_rev)
  also have "\<dots> \<longleftrightarrow> dropWhile ?p l = []"
  proof
    assume a: "\<forall>c \<in> set (dropWhile ?p l). ?p c"
    show "dropWhile ?p l = []"
    proof (rule ccontr)
      assume n: "dropWhile ?p l \<noteq> []"
      with hd_dropWhile[OF n] a show False by (meson hd_in_set)
    qed
  qed (simp only: list.set ball_empty)
  finally show ?thesis by (simp add: dropWhile_eq_Nil_conv list_all_iff)
qed

lemma blank_row_text:
  assumes "s \<noteq> [] \<longrightarrow> hd s \<noteq> CHR '' '' \<and> printable s"
  shows "blank_line (replicate k TAB @ s) \<longleftrightarrow> s = []"
proof (cases "s = []")
  case True
  then show ?thesis by (simp add: indent_only_blank list_all_iff is_indent_def)
next
  case False
  with assms have p: "printable s" "hd s \<noteq> CHR '' ''" by simp_all
  then have "ascii (replicate k TAB @ s)" by (auto simp: ascii_def printable_def list_all_iff TAB_def)
  moreover have "32 \<le> byte (hd s)" "byte (hd s) < 127" using p False by (auto simp: printable_def list_all_iff)
  moreover have "byte (hd s) \<noteq> byte (CHR '' '')" using p(2) by (metis char_of_char)
  ultimately have "ascii (replicate k TAB @ s)" "\<not> is_space_rune (byte (hd s))" by (auto simp: is_space_rune_def)
  with False show ?thesis by (auto simp: blank_line_ascii list_all_iff intro!: bexI[of _ "hd s"])
qed

lemma blank_row_text':
  "(case r of (k, s) \<Rightarrow> s \<noteq> [] \<longrightarrow> hd s \<noteq> CHR '' '' \<and> printable s) \<Longrightarrow> blank_line (row_text r) \<longleftrightarrow> blank_row r"
  by (cases r) (simp add: blank_row_text)

lemma indent_row:
  assumes "s \<noteq> []" "hd s \<noteq> CHR '' ''" "printable s"
  shows "indent_of (replicate k TAB @ s) = k"
proof -
  have "indent_of s = 0"
    using assms by (cases s) (auto simp: is_indent_def TAB_def printable_def)
  then show ?thesis by (induction k) (simp_all add: is_indent_def)
qed

lemma core_lines_rows:
  assumes "list_all (\<lambda>(k, s). s \<noteq> [] \<longrightarrow> hd s \<noteq> CHR '' '' \<and> printable s) rows"
  shows "core_lines (map row_text rows) = map row_text (core_rows rows)"
proof -
  have d: "dropWhile blank_line (map row_text xs) = map row_text (dropWhile blank_row xs)" if "set xs \<subseteq> set rows" for xs
  proof -
    have "blank_line (row_text r) \<longleftrightarrow> blank_row r" if "r \<in> set rows" for r
      using that assms by (intro blank_row_text') (auto simp: list_all_iff)
    with that show ?thesis by (induction xs) auto
  qed
  have "set (dropWhile blank_row rows) \<subseteq> set rows" by (auto dest: set_dropWhileD)
  then show ?thesis unfolding core_lines_def core_rows_def using d[of rows] d[of "rev (dropWhile blank_row rows)"]
    by (simp add: rev_map)
qed

text \<open>The lines of an indented literal whose first line that is not blank has the least indentation.\<close>

lemma literal_lines:
  assumes "good_rows rows"
  shows "split_on LF (RemoveIndentation (literal rows)) = row_lines rows"
proof -
  let ?n = "fst (hd (core_rows rows))"
  have ok: "list_all (\<lambda>(k, s). s \<noteq> [] \<longrightarrow> hd s \<noteq> CHR '' '' \<and> printable s) rows" and ne: "core_rows rows \<noteq> []"
    and rows: "\<And>k s. (k, s) \<in> set rows \<Longrightarrow> s \<noteq> [] \<Longrightarrow> ?n \<le> k \<and> hd s \<noteq> CHR '' '' \<and> printable s"
    using assms by (auto simp: good_rows_def list_all_iff)
  have sub: "set (core_rows rows) \<subseteq> set rows" by (auto simp: core_rows_def dest!: set_dropWhileD)
  have lf: "LF \<notin> set (row_text r)" if "r \<in> set rows" for r
  proof (cases r)
    case (Pair k s)
    have "LF \<notin> set s"
    proof (cases "s = []")
      case False
      with rows that Pair have "printable s" by blast
      then show ?thesis by (auto simp: printable_def list_all_iff LF_def)
    qed simp
    with Pair show ?thesis by (auto simp: LF_def TAB_def)
  qed
  have ne': "rows \<noteq> []" using ne by (auto simp: core_rows_def)
  have split: "split_on LF (literal rows) = map row_text rows"
    unfolding literal_def using ne' lf by (intro split_on_join) auto
  have core: "core_lines (split_on LF (literal rows)) = map row_text (core_rows rows)"
    unfolding split using ok by (rule core_lines_rows)
  let ?ys = "dropWhile blank_row rows"
  have "?ys = core_rows rows @ rev (takeWhile blank_row (rev ?ys))"
    by (metis core_rows_def rev_append rev_rev_ident takeWhile_dropWhile_id)
  with ne have "?ys \<noteq> []" "hd ?ys = hd (core_rows rows)" by (metis append_is_Nil_conv, metis hd_append2)
  with hd_dropWhile[of blank_row rows] have hd: "\<not> blank_row (hd (core_rows rows))" by simp
  have blank: "blank_line (row_text r) \<longleftrightarrow> blank_row r" if "r \<in> set rows" for r
    using that ok by (intro blank_row_text') (auto simp: list_all_iff)
  have ind: "indent_of (row_text r) = fst r" if "r \<in> set rows" "\<not> blank_row r" for r
  proof (cases r)
    case (Pair k s)
    with that rows[of k s] show ?thesis by (simp add: indent_row)
  qed
  let ?ls = "map row_text (core_rows rows)"
  have Min: "Min (indent_of ` set (text_lines ?ls)) = ?n"
  proof (rule Min_eqI)
    show "?n \<le> y" if "y \<in> indent_of ` set (text_lines ?ls)" for y
      using that sub rows blank ind by (fastforce simp: subset_iff)
    have "hd (core_rows rows) \<in> set (core_rows rows)" using ne by simp
    then have h: "hd (core_rows rows) \<in> set rows" "row_text (hd (core_rows rows)) \<in> set ?ls" using sub by (blast, simp)
    with blank[OF h(1)] hd have "row_text (hd (core_rows rows)) \<in> set (text_lines ?ls)" by simp
    moreover have "?n = indent_of (row_text (hd (core_rows rows)))" using ind[OF h(1) hd] by simp
    ultimately show "?n \<in> indent_of ` set (text_lines ?ls)" by (rule rev_image_eqI)
  qed simp
  have line: "(if blank_line l then [] else drop ?n l) = (\<lambda>(k, s). if s = [] then [] else replicate (k - ?n) TAB @ s) r"
    if "r \<in> set rows" "l = row_text r" for r l
  proof (cases r)
    case (Pair k s)
    with that rows[of k s] blank[OF that(1)] show ?thesis by simp
  qed
  have "RemoveIndentation (literal rows) = join_with [LF] (map (\<lambda>l. if blank_line l then [] else drop ?n l) ?ls)"
    by (simp only: RemoveIndentation_min core Let_def Min)
  also have "map (\<lambda>l. if blank_line l then [] else drop ?n l) ?ls = row_lines rows"
    unfolding row_lines_def map_map comp_def by (rule map_cong[OF refl line]) (use sub in auto)
  finally have "split_on LF (RemoveIndentation (literal rows)) = split_on LF (join_with [LF] (row_lines rows))" by simp
  also have "\<dots> = row_lines rows"
  proof (rule split_on_join)
    show "row_lines rows \<noteq> []" using ne by (simp add: row_lines_def)
    show "\<forall>p \<in> set (row_lines rows). LF \<notin> set p"
    proof
      fix p assume "p \<in> set (row_lines rows)"
      then obtain k s where r: "(k, s) \<in> set (core_rows rows)" "p = (if s = [] then [] else replicate (k - ?n) TAB @ s)"
        by (auto simp: row_lines_def)
      with sub lf[of "(k, s)"] have "LF \<notin> set s" by auto
      with r(2) show "LF \<notin> set p" by (simp add: LF_def TAB_def)
    qed
  qed
  finally show ?thesis .
qed

lemma literal_line: "good_rows rows \<Longrightarrow> l \<in> set (row_lines rows) \<Longrightarrow> l \<in> set (split_on LF (RemoveIndentation (literal rows)))"
  by (simp add: literal_lines)

end
