(* ===== verification/Literals.thy ===== *)
theory Literals
  imports Charts
begin

text \<open>
  Map literals of the composites and what the charts make of them: a composite of crib/composite writes the
  values of a chart as a literal \<open>map[string]any\<close>, which is allocated in the store of \<open>Values\<close> and handed to a
  chart component of \<open>Charts\<close>.  \<open>chart_deploys_literal\<close> says which values are deployed.
\<close>

section \<open>Allocation of a literal\<close>

text \<open>A map literal of the source, and its allocation in the store: the values first, then the map.\<close>

datatype lit = LScalar scalar | LMap "(string \<times> lit) list"

definition hmap :: "(string \<times> hval) list \<Rightarrow> step \<Rightarrow> hval option" where
  "hmap kvs = (\<lambda>s. case s of Field k \<Rightarrow> map_of kvs k | At _ \<Rightarrow> None)"

fun alloc_lit :: "heap \<Rightarrow> lit \<Rightarrow> heap \<times> hval"
and alloc_lits :: "heap \<Rightarrow> (string \<times> lit) list \<Rightarrow> heap \<times> (string \<times> hval) list"
where
  "alloc_lit h (LScalar s) = (h, HScalar s)"
| "alloc_lit h (LMap kvs) =
     (case alloc_lits h kvs of (h1, hvs) \<Rightarrow> (case alloc h1 (hmap hvs) of (h2, a) \<Rightarrow> (h2, HRef MapK a)))"
| "alloc_lits h [] = (h, [])"
| "alloc_lits h ((k, l) # kvs) =
     (case alloc_lit h l of (h1, v) \<Rightarrow> (case alloc_lits h1 kvs of (h2, hvs) \<Rightarrow> (h2, (k, v) # hvs)))"

definition new_map :: "heap \<Rightarrow> (string \<times> lit) list \<Rightarrow> heap \<times> nat" where
  "new_map h kvs = (case alloc_lits h kvs of (h1, hvs) \<Rightarrow> alloc h1 (hmap hvs))"

abbreviation lstr :: "string \<Rightarrow> lit" where "lstr s \<equiv> LScalar (SStr s)"

definition chart_props_for :: "string \<Rightarrow> string \<Rightarrow> nat \<Rightarrow> chart_props" where
  "chart_props_for ns release values =
     \<lparr>cp_Name = [], cp_Chart = [], cp_Namespace = ns, cp_ReleaseName = release, cp_Repo = [], cp_ValuesLoader = None,
       cp_Values = Some values, cp_Version = [], cp_ValuesPatches = [], cp_Flags = None, cp_WaitForReady = False\<rparr>"

section \<open>The tree of a literal\<close>

definition jmap :: "(string \<times> jval) list \<Rightarrow> step \<Rightarrow> jval option" where
  "jmap kvs = (\<lambda>s. case s of Field k \<Rightarrow> map_of kvs k | At _ \<Rightarrow> None)"

fun lit_val :: "lit \<Rightarrow> jval" where
  "lit_val (LScalar s) = JScalar s"
| "lit_val (LMap kvs) = JObj MapK (jmap (map (\<lambda>(k, l). (k, lit_val l)) kvs))"

fun wf_lit :: "lit \<Rightarrow> bool" where
  "wf_lit (LScalar s) \<longleftrightarrow> True"
| "wf_lit (LMap kvs) \<longleftrightarrow> distinct (map fst kvs) \<and> list_all (\<lambda>(k, l). wf_lit l) kvs"

lemma jmap_Field [simp]: "jmap kvs (Field k) = map_of kvs k"
  by (simp add: jmap_def)

text \<open>What an allocation may do: fresh objects, the old ones as they were.\<close>

definition grows :: "heap \<Rightarrow> heap \<Rightarrow> bool" where
  "grows h h' \<longleftrightarrow> hp_next h \<le> hp_next h' \<and> (\<forall>x < hp_next h. hp_cells h' x = hp_cells h x)"

lemma grows_trans: "grows h1 h2 \<Longrightarrow> grows h2 h3 \<Longrightarrow> grows h1 h3"
  by (auto simp: grows_def)

lemma grows_tree: "grows h h' \<Longrightarrow> tree (hp_cells h) x y S \<Longrightarrow> S \<subseteq> {..<hp_next h} \<Longrightarrow> tree (hp_cells h') x y S"
  by (elim tree_frame) (auto simp: grows_def)

text \<open>
  The entries of a literal: each value is a tree of fresh objects, and no two share one; \<open>F\<close> gives the
  objects of each key.
\<close>

definition entries_ok :: "heap \<Rightarrow> nat \<Rightarrow> (string \<times> hval) list \<Rightarrow> (string \<times> lit) list \<Rightarrow> (string \<Rightarrow> nat set) \<Rightarrow> bool" where
  "entries_ok h n hvs kvs F \<longleftrightarrow> map fst hvs = map fst kvs \<and>
     (\<forall>k v l. map_of hvs k = Some v \<longrightarrow> map_of kvs k = Some l \<longrightarrow> tree (hp_cells h) v (lit_val l) (F k)) \<and>
     (\<forall>k. F k \<subseteq> {n..<hp_next h}) \<and> (\<forall>k. map_of kvs k = None \<longrightarrow> F k = {}) \<and>
     (\<forall>k l z. z \<in> F k \<longrightarrow> z \<in> F l \<longrightarrow> k = l)"

lemma map_of_lit_val: "map_of (map (\<lambda>(k, l). (k, lit_val l)) kvs) k = map_option lit_val (map_of kvs k)"
  by (induction kvs) auto

lemma entries_ok_object:
  assumes ok: "entries_ok h n hvs kvs F" and a: "alloc h (hmap hvs) = (h', a)"
  shows "object (hp_cells h') a (jmap (map (\<lambda>(k, l). (k, lit_val l)) kvs)) (\<lambda>s. case s of Field k \<Rightarrow> F k | At _ \<Rightarrow> {})"
    "grows h h'" "a = hp_next h" "hp_next h' = Suc (hp_next h)"
proof -
  have n: "a = hp_next h" "hp_next h' = Suc (hp_next h)" "hp_cells h' = (hp_cells h)(a := hmap hvs)"
    using a by (auto simp: alloc_def)
  show g: "grows h h'" by (auto simp: grows_def n)
  have keys: "map_of hvs k = None \<longleftrightarrow> map_of kvs k = None" for k
    using ok unfolding entries_ok_def map_of_eq_None_iff by (metis set_map)
  have bound: "F k \<subseteq> {..<hp_next h}" for k using ok by (fastforce simp: entries_ok_def)
  show "object (hp_cells h') a (jmap (map (\<lambda>(k, l). (k, lit_val l)) kvs)) (\<lambda>s. case s of Field k \<Rightarrow> F k | At _ \<Rightarrow> {})"
  proof (rule objectI)
    fix s x y assume s: "hp_cells h' a s = Some x" "jmap (map (\<lambda>(k, l). (k, lit_val l)) kvs) s = Some y"
    then obtain k l where "s = Field k" "map_of hvs k = Some x" "map_of kvs k = Some l" "y = lit_val l"
      by (cases s) (auto simp: n hmap_def jmap_def map_of_lit_val)
    with ok have "tree (hp_cells h) x y (F k)" by (auto simp: entries_ok_def)
    then show "tree (hp_cells h') x y (case s of Field k \<Rightarrow> F k | At _ \<Rightarrow> {})"
      using grows_tree[OF g] bound \<open>s = Field k\<close> by simp
  next
    fix s t z
    assume "z \<in> (case s of Field k \<Rightarrow> F k | At _ \<Rightarrow> {})" "z \<in> (case t of Field k \<Rightarrow> F k | At _ \<Rightarrow> {})"
    then show "s = t" using ok by (auto simp: entries_ok_def split: step.splits)
  next
    fix s show "hp_cells h' a s = None \<longleftrightarrow> jmap (map (\<lambda>(k, l). (k, lit_val l)) kvs) s = None"
      using keys by (cases s) (auto simp: n hmap_def jmap_def map_of_lit_val)
  next
    fix s assume "hp_cells h' a s = None"
    then show "(case s of Field k \<Rightarrow> F k | At _ \<Rightarrow> {}) = {}"
      using ok keys by (cases s) (auto simp: n hmap_def entries_ok_def)
  next
    fix s show "a \<notin> (case s of Field k \<Rightarrow> F k | At _ \<Rightarrow> {})" using bound by (cases s) (auto simp: n)
  qed
qed (use a in \<open>auto simp: alloc_def\<close>)

lemma alloc_lit_tree:
  "wf_lit l \<Longrightarrow> alloc_lit h l = (h', v) \<Longrightarrow>
     grows h h' \<and> (\<exists>S. tree (hp_cells h') v (lit_val l) S \<and> S \<subseteq> {hp_next h..<hp_next h'})"
  "distinct (map fst kvs) \<Longrightarrow> list_all (\<lambda>(k, l). wf_lit l) kvs \<Longrightarrow> alloc_lits h kvs = (h1, hvs) \<Longrightarrow>
     grows h h1 \<and> (\<exists>F. entries_ok h1 (hp_next h) hvs kvs F)"
proof (induction h l and h kvs arbitrary: h' v and h1 hvs rule: alloc_lit_alloc_lits.induct)
  case (1 h s)
  then show ?case by (auto simp: grows_def intro: tree_scalar)
next
  case (2 h kvs)
  obtain h1 hvs where a1: "alloc_lits h kvs = (h1, hvs)" by (cases "alloc_lits h kvs")
  obtain h2 a where a2: "alloc h1 (hmap hvs) = (h2, a)" by (cases "alloc h1 (hmap hvs)")
  from 2 a1 obtain F where F: "grows h h1" "entries_ok h1 (hp_next h) hvs kvs F" by auto
  note o = entries_ok_object[OF F(2) a2]
  let ?S = "insert a (\<Union>s. case s of Field k \<Rightarrow> F k | At _ \<Rightarrow> {})"
  have "tree (hp_cells h2) (HRef MapK a) (lit_val (LMap kvs)) ?S" using o(1) by (auto simp: tree_object)
  moreover have "F k \<subseteq> {hp_next h..<hp_next h1}" for k using F(2) by (simp add: entries_ok_def)
  then have "?S \<subseteq> {hp_next h..<hp_next h2}"
    using F(1) o(3,4) by (fastforce simp: grows_def split: step.splits)
  moreover have "h' = h2" "v = HRef MapK a" using 2(3) a1 a2 by simp_all
  moreover have "grows h h2" using F(1) o(2) by (rule grows_trans)
  ultimately show ?case by blast
next
  case (3 h)
  then show ?case by (auto simp: grows_def entries_ok_def intro: exI[of _ "\<lambda>_. {}"])
next
  case (4 h k l kvs)
  obtain h2 v where a1: "alloc_lit h l = (h2, v)" by (cases "alloc_lit h l")
  obtain h3 rest where a2: "alloc_lits h2 kvs = (h3, rest)" by (cases "alloc_lits h2 kvs")
  have e: "h1 = h3" "hvs = (k, v) # rest" using 4(5) a1 a2 by simp_all
  from 4(1)[OF _ a1] 4(4) obtain S where S: "grows h h2" "tree (hp_cells h2) v (lit_val l) S" "S \<subseteq> {hp_next h..<hp_next h2}" by auto
  from 4(2)[OF a1[symmetric] _ _ a2] 4(3,4) obtain F where F: "grows h2 h3" "entries_ok h3 (hp_next h2) rest kvs F" by auto
  have k: "map_of kvs k = None" using 4(3) by (simp add: map_of_eq_None_iff)
  have t: "tree (hp_cells h3) v (lit_val l) S" using grows_tree[OF F(1) S(2)] S(3) by fastforce
  have b: "F m \<subseteq> {hp_next h2..<hp_next h3}" for m using F(2) by (simp add: entries_ok_def)
  have "entries_ok h3 (hp_next h) hvs ((k, l) # kvs) (F(k := S))"
    unfolding entries_ok_def
  proof (intro conjI allI impI)
    fix m n z assume "z \<in> (F(k := S)) m" "z \<in> (F(k := S)) n"
    then show "m = n" using b[of m] b[of n] S(3) F(2) by (fastforce simp: entries_ok_def split: if_splits)
  next
    fix m show "(F(k := S)) m \<subseteq> {hp_next h..<hp_next h3}"
      using b[of m] S(1,3) F(1) by (fastforce simp: grows_def split: if_splits)
  qed (use F(2) t e in \<open>auto simp: entries_ok_def split: if_splits\<close>)
  moreover have "grows h h3" using S(1) F(1) by (rule grows_trans)
  ultimately show ?case unfolding e(1) by blast
qed

lemma new_map_entries:
  assumes "wf_lit (LMap kvs)" "new_map h kvs = (h', m)"
  obtains F where "entries h' (Some m) (jmap (map (\<lambda>(k, l). (k, lit_val l)) kvs)) F" "\<And>s. F s \<inter> {..<hp_next h} = {}"
    "grows h h'"
proof -
  obtain h1 hvs where a: "alloc_lits h kvs = (h1, hvs)" by (cases "alloc_lits h kvs")
  with alloc_lit_tree(2)[OF _ _ a] assms(1) obtain G where G: "grows h h1" "entries_ok h1 (hp_next h) hvs kvs G" by auto
  have al: "alloc h1 (hmap hvs) = (h', m)" using assms(2) a by (simp add: new_map_def)
  note o = entries_ok_object[OF G(2) al]
  let ?F = "\<lambda>s. case s of Field k \<Rightarrow> G k | At _ \<Rightarrow> {}"
  have b: "?F s \<subseteq> {hp_next h..<hp_next h1}" for s using G(2) by (cases s) (auto simp: entries_ok_def)
  then have "insert m (\<Union>s. ?F s) \<subseteq> {..<hp_next h'}" using o(3,4) by fastforce
  then have "entries h' (Some m) (jmap (map (\<lambda>(k, l). (k, lit_val l)) kvs)) ?F" using o(1) by (simp add: entries_def)
  moreover have "?F s \<inter> {..<hp_next h} = {}" for s using b[of s] by auto
  moreover have "grows h h'" using G(1) o(2) by (rule grows_trans)
  ultimately show thesis by (rule that)
qed

lemma entries_frame:
  assumes "entries h m c F" "\<And>x. x < hp_next h \<Longrightarrow> hp_cells h' x = hp_cells h x" "hp_next h \<le> hp_next h'"
  shows "entries h' m c F"
proof (cases m)
  case (Some a)
  with assms(1) have o: "object (hp_cells h) a c F" "insert a (\<Union>s. F s) \<subseteq> {..<hp_next h}" by (simp_all add: entries_def)
  then have "object (hp_cells h') a c F" by (intro object_frame[OF o(1)]) (use assms(2) in auto)
  moreover have "insert a (\<Union>s. F s) \<subseteq> {..<hp_next h'}" using o(2) assms(3) by fastforce
  ultimately show ?thesis using Some by (simp add: entries_def)
qed (use assms(1) in \<open>simp add: entries_def\<close>)

lemma look_Field: "look [Field a] (JObj MapK c) = c (Field a)"
  "c (Field a) = Some y \<Longrightarrow> look (Field a # q) (JObj MapK c) = look q y"
  by (simp_all add: cell_def fits_def split: option.split)


section \<open>A chart with literal values\<close>

text \<open>
  A component that copies maps and applies no patches deploys the entries of the literal over those of its
  defaults, in the namespace it is given.
\<close>

lemma chart_deploys_literal:
  assumes pkg: "pk_merge pkg = maps_Copy" "\<not> pk_patches pkg" and d: "entries h (cr_Values (pk_defaults pkg)) dc FD"
    and l: "wf_lit (LMap kvs)" "new_map h kvs = (h1, m)"
    and p: "cp_ValuesLoader p = None" "cp_Values p = Some m" "cp_Namespace p \<noteq> []"
    and comp: "Component env pkg (ChartPropsOf p) h1 = Some (h', props, Inr c)"
  shows "\<exists>v S. deployed_values c = Some v \<and>
    tree (hp_cells h') (HRef MapK v) (JObj MapK (dc ++ jmap (map (\<lambda>(k, l). (k, lit_val l)) kvs))) S \<and>
    hx_ns c = cp_Namespace p"
proof -
  from new_map_entries[OF l] obtain F where F: "entries h1 (Some m) (jmap (map (\<lambda>(k, l). (k, lit_val l)) kvs)) F"
    "\<And>s. F s \<inter> {..<hp_next h} = {}" "grows h h1" by blast
  have "FD s \<inter> F t = {}" for s t using entriesD(4)[OF d, of s] F(2)[of t] by blast
  moreover have "entries h1 (cr_Values (pk_defaults pkg)) dc FD"
    using d by (rule entries_frame) (use F(3) in \<open>simp_all add: grows_def\<close>)
  ultimately have "deploys h' (JObj MapK (dc ++ jmap (map (\<lambda>(k, l). (k, lit_val l)) kvs))) (Inr c)"
    using Component_tree[where pkg = pkg and p = p and h = h1 and qs = "[]" and FU = F and env = env] F(1) comp pkg p by simp
  moreover have "hx_ns c = cp_Namespace p"
    using comp helmchart_New_ok(3) p(3)
    by (auto simp: Component_copies[OF pkg(1) p(1)] pkg(2) fill_defaults_def scalar_props_def or_default_def)
  ultimately show ?thesis by (auto simp: deploys_def)
qed

end
