(* ===== verification/ChainlinkNode.thy ===== *)
theory ChainlinkNode
  imports Literals ConfigMaps Indent
begin

text \<open>
  The Chainlink node composite, crib/composite/chainlink/node/v1/chainlinknode.go, over the chart, config
  map and service scalars, with the
  secret scalar of crib/scalar/k8s/secret/v1/secret.go.  What the validator makes of the props (it also
  fills the defaults of the tags) and the cdk8s constructs are parameters or the records given to them.
\<close>

section \<open>Secrets\<close>

record secret_props =
  se_StringData :: "(string \<times> string option) list"
  se_Immutable :: "bool option"
  se_Name :: string
  se_Namespace :: string
  se_Type :: string

record kube_secret =
  ksec_Name :: "string option"
  ksec_Namespace :: "string option"
  ksec_Type :: "string option"
  ksec_StringData :: "(string \<times> string option) list"
  ksec_Immutable :: "bool option"

text \<open>
  \<open>Validate\<close> fills the default type; a name or namespace that is missing and a nil datum are errors.
\<close>

definition secret_defaults :: "secret_props \<Rightarrow> secret_props" where
  "secret_defaults p = (if se_Type p = [] then p\<lparr>se_Type := ''Opaque''\<rparr> else p)"

definition secret_broken :: "secret_props \<Rightarrow> string list" where
  "secret_broken p =
     (if None \<in> set (map snd (se_StringData p)) then [''StringData''] else [])
     @ missing [(''Name'', se_Name p), (''Namespace'', se_Namespace p), (''Type'', se_Type p)]"

definition secret_New :: "validator_error \<Rightarrow> secret_props \<Rightarrow> goerr + kube_secret" where
  "secret_New verr p0 =
     (let p = secret_defaults p0 in
      case secret_broken p of
        [] \<Rightarrow>
          Inr \<lparr>ksec_Name = Some (se_Name p), ksec_Namespace = Some (se_Namespace p), ksec_Type = Some (se_Type p),
            ksec_StringData = se_StringData p, ksec_Immutable = se_Immutable p\<rparr>
      | fs \<Rightarrow> Inl (verr fs))"

section \<open>The node\<close>

definition defaultLogin :: string where "defaultLogin = ''admin@chain.link''"
definition defaultPassword :: string where "defaultPassword = ''staticlongpassword''"
definition defaultAPIPort :: int where "defaultAPIPort = 6688"
definition defaultP2PPort :: int where "defaultP2PPort = 5001"

record node_props =
  np_Namespace :: string
  np_AppInstanceName :: string
  np_Image :: string
  np_ImagePullPolicy :: string
  np_Command :: "string list"
  np_Args :: "string list"
  np_EnvVars :: "(string \<times> string) list"
  np_Config :: string
  np_ConfigOverrides :: "(string \<times> string) list"
  np_SecretsOverrides :: "(string \<times> string) list"
  np_Limits :: "(string \<times> string) list"
  np_Requests :: "(string \<times> string) list"
  np_DatabaseURL :: string
  np_Ports :: "container_port list"
  np_Replicas :: int

record postgres_info =
  pgi_ReleaseName :: string
  pgi_DatabaseURL :: string
  pgi_Username :: string
  pgi_Password :: string
  pgi_Database :: string
  pgi_SuperUser :: string
  pgi_SuperUserPassword :: string

text \<open>The volumes of the pod: a config map or a secret under a name.\<close>

datatype volume_source = FromConfigMap string | FromSecret string

record node_deployment =
  nd_Name :: string
  nd_Namespace :: string
  nd_Labels :: "(string \<times> string option) list"
  nd_Replicas :: int
  nd_MatchLabels :: "(string \<times> string option) list"
  nd_PodLabels :: "(string \<times> string option) list"
  nd_InitContainer :: k8s_container
  nd_Container :: k8s_container
  nd_Volumes :: "(string \<times> volume_source) list"

record node_result =
  nr_Postgres :: "postgres_info option"
  nr_APICredentials :: "string \<times> string"
  nr_nodeName :: string
  nr_namespace :: string
  nr_apiPort :: int
  nr_P2PPort :: int
  nr_chart :: "helm_chart option"
  nr_secret :: kube_secret
  nr_configMap :: kube_config_map
  nr_deployment :: node_deployment
  nr_service :: kube_service

definition APIUrl :: "node_result \<Rightarrow> string" where
  "APIUrl r = ClusterLocalServiceURL ''http'' (nr_nodeName r) (nr_namespace r) (nr_apiPort r)"

definition HostName :: "node_result \<Rightarrow> string" where
  "HostName r = ClusterLocalServiceURL [] (nr_nodeName r) (nr_namespace r) 0"

definition convertToK8sPorts :: "container_port list \<Rightarrow> k8s_container_port list" where
  "convertToK8sPorts ports = map convert_port ports"

definition with_default_ports :: "node_props \<Rightarrow> node_props" where
  "with_default_ports p =
     (if length (np_Ports p) = 0 then
        p\<lparr>np_Ports := [\<lparr>cpt_Name = ''api'', cpt_Protocol = ''TCP'', cpt_ContainerPort = defaultAPIPort\<rparr>,
            \<lparr>cpt_Name = ''p2pv2'', cpt_Protocol = ''TCP'', cpt_ContainerPort = defaultP2PPort\<rparr>]\<rparr>
      else p)"

definition postgres_values :: "string \<Rightarrow> string \<Rightarrow> string \<Rightarrow> (string \<times> lit) list" where
  "postgres_values release username database =
     [(''fullnameOverride'', lstr release),
      (''auth'', LMap
        [(''enablePostgresUser'', LScalar (SBool True)), (''postgresPassword'', lstr defaultPassword),
         (''username'', lstr username), (''password'', lstr defaultPassword), (''database'', lstr database)]),
      (''primary'', LMap [(''persistence'', LMap [(''enabled'', LScalar (SBool False))])])]"

definition database_url :: "string \<Rightarrow> string \<Rightarrow> string \<Rightarrow> string \<Rightarrow> string" where
  "database_url username password host database =
     ''postgresql://'' @ username @ '':'' @ password @ ''@'' @ host @ '':5432/'' @ database @ ''?sslmode=disable''"

text \<open>
  The database of a node: the one of the URL, or a new one.  The inner result is an error, or the URL with what
  was created; a panic of the chart component is \<open>None\<close>.
\<close>

definition node_database ::
    "chart_env \<Rightarrow> chart_ref \<Rightarrow> node_props \<Rightarrow> heap \<Rightarrow> (heap \<times> (goerr + string \<times> (postgres_info \<times> helm_chart) option)) option" where
  "node_database env d p h =
     (if np_DatabaseURL p \<noteq> [] then Some (h, Inr (np_DatabaseURL p, None))
      else
        (let release = np_AppInstanceName p @ ''-postgres''; username = np_AppInstanceName p; database = np_AppInstanceName p in
         case new_map h (postgres_values release username database) of
           (h1, values) \<Rightarrow>
             map_option
               (\<lambda>(h2, _, res). (h2, case res of
                  Inl e \<Rightarrow> Inl (WrapErr ''failed to create PostgreSQL component'' e)
                | Inr c \<Rightarrow>
                    (let url = database_url username defaultPassword release database in
                     Inr (url, Some (\<lparr>pgi_ReleaseName = release, pgi_DatabaseURL = url, pgi_Username = username,
                       pgi_Password = defaultPassword, pgi_Database = database, pgi_SuperUser = ''postgres'',
                       pgi_SuperUserPassword = defaultPassword\<rparr>, c)))))
               (postgres_Component env d (ChartPropsOf (chart_props_for (np_Namespace p) release values)) h1)))"

definition config_dir :: string where "config_dir = ''/chainlink/config/''"
definition secrets_dir :: string where "secrets_dir = ''/chainlink/secrets/''"

definition node_args :: "node_props \<Rightarrow> string list" where
  "node_args p =
     [''-c'', config_dir @ ''config.toml'']
     @ concat (map (\<lambda>filename. [''-c'', config_dir @ filename]) (sort (map fst (np_ConfigOverrides p))))
     @ [''-s'', secrets_dir @ ''secrets.toml'']
     @ concat (map (\<lambda>filename. [''-s'', secrets_dir @ filename]) (sort (map fst (np_SecretsOverrides p))))
     @ [''node'', ''start'', ''-a'', secrets_dir @ ''apicredentials'']"

definition secretsTOML :: "string \<Rightarrow> string" where
  "secretsTOML url = RemoveIndentation (literal
     [(0, []), (2, ''[Password]''), (2, ''Keystore = '' @ DQ @ ''keystorepassword'' @ DQ),
      (2, ''VRF = '' @ DQ @ ''vrfpassword'' @ DQ), (0, []), (2, ''[Database]''), (2, ''URL = '' @ DQ @ url @ DQ), (1, [])])"

text \<open>Assignments into a map, in the order of the loop.\<close>

definition assign_all :: "(string \<times> 'v) list \<Rightarrow> (string \<times> 'v) list \<Rightarrow> (string \<times> 'v) list" where
  "assign_all kvs m = fold (\<lambda>(k, v). AList.update k v) kvs m"

definition secret_data :: "node_props \<Rightarrow> string \<Rightarrow> (string \<times> string option) list" where
  "secret_data p url =
     assign_all (map (\<lambda>(k, v). (k, Some v)) (np_SecretsOverrides p))
       [(''apicredentials'', Some (defaultLogin @ [LF] @ defaultPassword)), (''secrets.toml'', Some (secretsTOML url))]"

definition config_data :: "node_props \<Rightarrow> (string \<times> string option) list" where
  "config_data p = assign_all (map (\<lambda>(k, v). (k, Some v)) (np_ConfigOverrides p)) [(''config.toml'', Some (np_Config p))]"

definition node_labels :: "node_props \<Rightarrow> (string \<times> string option) list" where
  "node_labels p = [(label_name, Some ''chainlink''), (label_instance, Some (np_AppInstanceName p))]"

definition node_env :: "node_props \<Rightarrow> k8s_env_var list" where
  "node_env p =
     map (\<lambda>key. \<lparr>ke_Name = Some key, ke_Value = Some (case map_of (np_EnvVars p) key of Some v \<Rightarrow> v | None \<Rightarrow> [])\<rparr>)
       (sort (map fst (np_EnvVars p)))"

definition quantities :: "(string \<times> string) list \<Rightarrow> (string \<times> quantity) list option" where
  "quantities m = Some (map (\<lambda>(k, v). (k, Quantity_FromString v)) m)"

definition uid_1000 :: k8s_security_context where
  "uid_1000 = \<lparr>ks_RunAsUser = Some 1000, ks_RunAsGroup = Some 1000, ks_RunAsNonRoot = Some True\<rparr>"

definition read_only_mount :: "string \<Rightarrow> string \<Rightarrow> k8s_volume_mount" where
  "read_only_mount name path = \<lparr>km_Name = Some name, km_MountPath = Some path, km_ReadOnly = Some True\<rparr>"

definition BS :: string where "BS = [CHR 0x5C]"

definition wait_for_db :: string where
  "wait_for_db = RemoveIndentation (literal
     [(0, []), (8, ''set -e''), (8, ''echo '' @ DQ @ ''Waiting for database to be ready...'' @ DQ), (8, []),
      (8, ''# Extract database URL from secrets.toml''),
      (8, ''DB_URL=$(grep -A 10 '' @ [CHR 0x27] @ BS @ ''[Database'' @ BS @ '']'' @ [CHR 0x27]
        @ '' /chainlink/secrets/secrets.toml | grep '' @ [CHR 0x27] @ ''URL'' @ [CHR 0x27] @ '' | sed '' @ [CHR 0x27]
        @ ''s/.*URL = '' @ DQ @ BS @ ''([^'' @ DQ @ '']*'' @ BS @ '')'' @ DQ @ ''.*/'' @ BS @ ''1/'' @ [CHR 0x27] @ '')''),
      (8, []), (8, ''if [ -z '' @ DQ @ ''$DB_URL'' @ DQ @ '' ]; then''),
      (9, ''echo '' @ DQ @ ''Error: Could not extract database URL from secrets.toml'' @ DQ), (9, ''exit 1''), (8, ''fi''),
      (8, []), (8, ''echo '' @ DQ @ ''Database URL extracted: $DB_URL'' @ DQ), (8, []),
      (8, ''# Wait for database to be ready''), (8, ''until pg_isready -d '' @ DQ @ ''$DB_URL'' @ DQ @ ''; do''),
      (9, ''echo '' @ DQ @ ''Database is not ready. Waiting 2 seconds...'' @ DQ), (9, ''sleep 2''), (8, ''done''), (8, []),
      (8, ''echo '' @ DQ @ ''Database is ready!'' @ DQ), (8, [])])"

definition init_container :: k8s_container where
  "init_container =
     \<lparr>kc_Name = Some ''wait-for-db'',
       kc_Image = Some ''docker.io/bitnami/postgresql@sha256:6bea1699d088605204841b889fb79d7572030a36ec5731e736d73cd33018cc03'',
       kc_ImagePullPolicy = Some ''IfNotPresent'', kc_Command = PtrSlice (Some [''/bin/bash'', ''-c'']),
       kc_Args = PtrSlice (Some [wait_for_db]), kc_Ports = None, kc_Env = None,
       kc_VolumeMounts = Some [read_only_mount ''secrets'' ''/chainlink/secrets''], kc_Resources = None,
       kc_SecurityContext = uid_1000\<rparr>"

definition node_container :: "node_props \<Rightarrow> k8s_container" where
  "node_container p =
     (let command = (if 0 < length (np_Command p) then np_Command p else [''chainlink'']);
          args = (if 0 < length (np_Args p) then np_Args p else node_args p) in
      \<lparr>kc_Name = Some ''chainlink'', kc_Image = Some (np_Image p), kc_ImagePullPolicy = Some (np_ImagePullPolicy p),
        kc_Command = PtrSlice (Some command), kc_Args = PtrSlice (Some args), kc_Ports = Some (convertToK8sPorts (np_Ports p)),
        kc_Env = Some (node_env p),
        kc_VolumeMounts = Some [read_only_mount ''config'' ''/chainlink/config'', read_only_mount ''secrets'' ''/chainlink/secrets''],
        kc_Resources = Some \<lparr>kr_Limits = quantities (np_Limits p), kr_Requests = quantities (np_Requests p)\<rparr>,
        kc_SecurityContext = uid_1000\<rparr>)"

definition node_deployment_of :: "node_props \<Rightarrow> node_deployment" where
  "node_deployment_of p =
     \<lparr>nd_Name = np_AppInstanceName p, nd_Namespace = np_Namespace p, nd_Labels = node_labels p,
       nd_Replicas = to_float64 (np_Replicas p), nd_MatchLabels = node_labels p, nd_PodLabels = node_labels p,
       nd_InitContainer = init_container, nd_Container = node_container p,
       nd_Volumes = [(''config'', FromConfigMap (np_AppInstanceName p @ ''-config'')),
         (''secrets'', FromSecret (np_AppInstanceName p @ ''-file''))]\<rparr>"

definition node_service_ports :: "node_props \<Rightarrow> service_port option list" where
  "node_service_ports p =
     map (\<lambda>port. Some \<lparr>sp_Name = Some (cpt_Name port), sp_Port = Some (to_float64 (cpt_ContainerPort port)),
         sp_Protocol = Some (cpt_Protocol port), sp_NodePort = None,
         sp_TargetPort = Some (show_int (to_float64 (cpt_ContainerPort port)))\<rparr>) (np_Ports p)"

text \<open>The loop over the ports: the last port of each name wins.\<close>

fun result_ports :: "container_port list \<Rightarrow> int \<times> int \<Rightarrow> int \<times> int" where
  "result_ports [] acc = acc"
| "result_ports (port # ports) (api, p2p) =
     (let api = (if cpt_Name port = ''api'' then cpt_ContainerPort port else api);
          p2p = (if cpt_Name port = ''p2pv2'' then cpt_ContainerPort port else p2p) in
      result_ports ports (api, p2p))"

definition node_secret :: "validator_error \<Rightarrow> node_props \<Rightarrow> string \<Rightarrow> goerr + kube_secret" where
  "node_secret verr p url =
     secret_New verr \<lparr>se_StringData = secret_data p url, se_Immutable = None, se_Name = np_AppInstanceName p @ ''-file'',
       se_Namespace = np_Namespace p, se_Type = []\<rparr>"

definition node_configMap :: "validator_error \<Rightarrow> node_props \<Rightarrow> goerr + kube_config_map" where
  "node_configMap verr p =
     configmap_New verr \<lparr>pm_DataLoader = None, pm_Data = Some (config_data p), pm_Namespace = np_Namespace p,
       pm_AppName = ''chainlink'', pm_AppInstance = np_AppInstanceName p, pm_Name = np_AppInstanceName p @ ''-config''\<rparr>"

definition node_service :: "validator_error \<Rightarrow> node_props \<Rightarrow> goerr + kube_service" where
  "node_service verr p =
     service_New verr \<lparr>sr_Namespace = np_Namespace p, sr_AppName = ''chainlink'', sr_AppInstance = np_AppInstanceName p,
       sr_Name = np_AppInstanceName p, sr_Selector = node_labels p, sr_ServiceType = ''ClusterIP'',
       sr_Ports = node_service_ports p\<rparr>"

text \<open>What follows the database.\<close>

definition node_objects ::
    "validator_error \<Rightarrow> node_props \<Rightarrow> string \<times> (postgres_info \<times> helm_chart) option \<Rightarrow> goerr + node_result" where
  "node_objects verr p db =
     (case node_secret verr p (fst db) of
        Inl e \<Rightarrow> Inl e
      | Inr secret \<Rightarrow>
          (case node_configMap verr p of
             Inl e \<Rightarrow> Inl e
           | Inr cm \<Rightarrow>
               (case node_service verr p of
                  Inl e \<Rightarrow> Inl e
                | Inr svc \<Rightarrow>
                    Inr \<lparr>nr_Postgres = map_option fst (snd db), nr_APICredentials = (defaultLogin, defaultPassword),
                      nr_nodeName = np_AppInstanceName p, nr_namespace = np_Namespace p,
                      nr_apiPort = fst (result_ports (np_Ports p) (defaultAPIPort, defaultP2PPort)),
                      nr_P2PPort = snd (result_ports (np_Ports p) (defaultAPIPort, defaultP2PPort)),
                      nr_chart = map_option snd (snd db), nr_secret = secret, nr_configMap = cm,
                      nr_deployment = node_deployment_of p, nr_service = svc\<rparr>)))"

definition chainlinkNode ::
    "validator_error \<Rightarrow> chart_env \<Rightarrow> chart_ref \<Rightarrow> node_props \<Rightarrow> heap \<Rightarrow> (heap \<times> (goerr + node_result)) option" where
  "chainlinkNode verr env d p0 h =
     (let p = with_default_ports p0 in
      map_option (\<lambda>(h', db). (h', case db of Inl e \<Rightarrow> Inl e | Inr url_pg \<Rightarrow> node_objects verr p url_pg))
        (node_database env d p h))"

text \<open>
  The component: the validator gives an error, or the props with the defaults of the tags.
\<close>

definition node_Component ::
    "(node_props \<Rightarrow> goerr + node_props) \<Rightarrow> validator_error \<Rightarrow> chart_env \<Rightarrow> chart_ref \<Rightarrow> node_props \<Rightarrow> heap
      \<Rightarrow> (heap \<times> (goerr + node_result)) option" where
  "node_Component valid verr env d p h =
     (case valid p of Inl e \<Rightarrow> Some (h, Inl e) | Inr p' \<Rightarrow> chainlinkNode verr env d p' h)"

section \<open>What a node is given\<close>

lemma node_objects_ok:
  assumes "node_objects verr p db = Inr r"
  shows "ksec_StringData (nr_secret r) = secret_data p (fst db)" "ksec_Name (nr_secret r) = Some (np_AppInstanceName p @ ''-file'')"
    "kcm_data (nr_configMap r) = Some (config_data p)" "om_Name (kcm_meta (nr_configMap r)) = Some (np_AppInstanceName p @ ''-config'')"
    "nr_deployment r = node_deployment_of p" "nr_chart r = map_option snd (snd db)" "nr_Postgres r = map_option fst (snd db)"
    "sv_ports (nr_service r) = node_service_ports p" "sv_selector (nr_service r) = node_labels p"
    "om_Name (sv_meta (nr_service r)) = Some (np_AppInstanceName p)" "om_Namespace (sv_meta (nr_service r)) = Some (np_Namespace p)"
    "nr_apiPort r = fst (result_ports (np_Ports p) (defaultAPIPort, defaultP2PPort))"
    "nr_APICredentials r = (defaultLogin, defaultPassword)"
    "nr_namespace r = np_Namespace p" "nr_nodeName r = np_AppInstanceName p"
proof -
  obtain sec cm svc where n: "node_secret verr p (fst db) = Inr sec" "node_configMap verr p = Inr cm" "node_service verr p = Inr svc"
    using assms by (auto simp: node_objects_def split: sum.splits)
  then have r: "r = \<lparr>nr_Postgres = map_option fst (snd db), nr_APICredentials = (defaultLogin, defaultPassword),
      nr_nodeName = np_AppInstanceName p, nr_namespace = np_Namespace p,
      nr_apiPort = fst (result_ports (np_Ports p) (defaultAPIPort, defaultP2PPort)),
      nr_P2PPort = snd (result_ports (np_Ports p) (defaultAPIPort, defaultP2PPort)),
      nr_chart = map_option snd (snd db), nr_secret = sec, nr_configMap = cm,
      nr_deployment = node_deployment_of p, nr_service = svc\<rparr>"
    using assms by (simp add: node_objects_def)
  show "ksec_StringData (nr_secret r) = secret_data p (fst db)" "ksec_Name (nr_secret r) = Some (np_AppInstanceName p @ ''-file'')"
    using n(1) by (auto simp: r node_secret_def secret_New_def secret_defaults_def Let_def split: list.splits)
  show "kcm_data (nr_configMap r) = Some (config_data p)" "om_Name (kcm_meta (nr_configMap r)) = Some (np_AppInstanceName p @ ''-config'')"
    using n(2) by (auto simp: r node_configMap_def configmap_New_def NewMetadataFactory_def K8sResourceMetadata_def Let_def
        split: sum.splits list.splits)
  show "sv_ports (nr_service r) = node_service_ports p" "sv_selector (nr_service r) = node_labels p"
    "om_Name (sv_meta (nr_service r)) = Some (np_AppInstanceName p)" "om_Namespace (sv_meta (nr_service r)) = Some (np_Namespace p)"
    using n(3) by (auto simp: r node_service_def service_New_def NewMetadataFactory_def K8sResourceMetadata_def metadata_of_def
        missing_Nil_iff Let_def split: list.splits sum.splits if_splits)
  show "nr_deployment r = node_deployment_of p" "nr_chart r = map_option snd (snd db)" "nr_Postgres r = map_option fst (snd db)"
    "nr_apiPort r = fst (result_ports (np_Ports p) (defaultAPIPort, defaultP2PPort))"
    "nr_APICredentials r = (defaultLogin, defaultPassword)"
    "nr_namespace r = np_Namespace p" "nr_nodeName r = np_AppInstanceName p"
    by (simp_all add: r)
qed

lemma chainlinkNode_ok:
  assumes "chainlinkNode verr env d p0 h = Some (h', Inr r)"
  obtains db where "node_database env d (with_default_ports p0) h = Some (h', Inr db)"
    "node_objects verr (with_default_ports p0) db = Inr r"
proof -
  from assms obtain db where "node_database env d (with_default_ports p0) h = Some (h', db)"
    "(case db of Inl e \<Rightarrow> Inl e | Inr url_pg \<Rightarrow> node_objects verr (with_default_ports p0) url_pg) = Inr r"
    by (auto simp: chainlinkNode_def Let_def)
  then show thesis using that by (cases db) auto
qed

lemma with_default_ports_simps [simp]:
  "np_AppInstanceName (with_default_ports p) = np_AppInstanceName p" "np_Namespace (with_default_ports p) = np_Namespace p"
  "np_Args (with_default_ports p) = np_Args p" "np_ConfigOverrides (with_default_ports p) = np_ConfigOverrides p"
  "np_SecretsOverrides (with_default_ports p) = np_SecretsOverrides p"
  "np_DatabaseURL (with_default_ports p) = np_DatabaseURL p"
  by (simp_all add: with_default_ports_def)

text \<open>The values that follow a flag on a command line.\<close>

fun flag_values :: "string \<Rightarrow> string list \<Rightarrow> string list" where
  "flag_values f (a # b # rest) = (if a = f then b # flag_values f rest else flag_values f (b # rest))"
| "flag_values f _ = []"

definition absolute :: "string \<Rightarrow> bool" where
  "absolute dir \<longleftrightarrow> dir \<noteq> [] \<and> hd dir = slash"

lemma dirs_absolute [simp]: "absolute config_dir" "absolute secrets_dir"
  by (simp_all add: absolute_def config_dir_def secrets_dir_def)

lemma flag_values_cons:
  "flag_values f (f # v # rest) = v # flag_values f rest"
  "g \<noteq> f \<Longrightarrow> flag_values f (g # rest) = flag_values f rest"
  "absolute dir \<Longrightarrow> f \<noteq> [] \<Longrightarrow> hd f \<noteq> slash \<Longrightarrow> flag_values f ((dir @ k) # rest) = flag_values f rest"
proof -
  show skip: "flag_values f (g # rest) = flag_values f rest" if "g \<noteq> f" for g
    using that by (cases rest) auto
  show "flag_values f ((dir @ k) # rest) = flag_values f rest" if "absolute dir" "f \<noteq> []" "hd f \<noteq> slash"
    using that by (intro skip) (auto simp: absolute_def)
qed simp

lemma flag_values_files:
  assumes "absolute dir" "f \<noteq> []" "hd f \<noteq> slash"
  shows "flag_values f (concat (map (\<lambda>k. [f, dir @ k]) ks) @ rest) = map ((@) dir) ks @ flag_values f rest"
    "g \<noteq> f \<Longrightarrow> flag_values f (concat (map (\<lambda>k. [g, dir @ k]) ks) @ rest) = flag_values f rest"
  using assms by (induction ks) (simp_all add: flag_values_cons del: flag_values.simps)

lemma node_args_files:
  "flag_values ''-c'' (node_args p) = map ((@) config_dir) (''config.toml'' # sort (map fst (np_ConfigOverrides p)))"
  "flag_values ''-s'' (node_args p) = map ((@) secrets_dir) (''secrets.toml'' # sort (map fst (np_SecretsOverrides p)))"
  "flag_values ''-a'' (node_args p) = [secrets_dir @ ''apicredentials'']"
  by (simp_all add: node_args_def flag_values_files flag_values_cons del: flag_values.simps(1))

lemma assign_all_keys: "fst ` set (assign_all kvs m) = fst ` set kvs \<union> fst ` set m"
proof (induction kvs arbitrary: m)
  case (Cons kv kvs)
  obtain k v where "kv = (k, v)" by (cases kv)
  with Cons[of "AList.update k v m"] show ?case by (auto simp: assign_all_def dom_update)
qed (simp add: assign_all_def)

text \<open>
  C29. A node that runs its own arguments finds every file it is told to read: the configuration files on its
  command line are exactly the entries of its config map, the main one first and the overrides in
  lexicographic order, its secrets files and its credentials file are exactly the entries of its secret, and
  the volumes mounted at these directories are that config map and that secret.
\<close>
theorem node_files_exist:
  assumes "chainlinkNode verr env d p h = Some (h', Inr r)" "np_Args p = []"
  shows "\<exists>args data. kc_Args (nd_Container (nr_deployment r)) = Some (map Some args) \<and> kcm_data (nr_configMap r) = Some data \<and>
     flag_values ''-c'' args = map ((@) config_dir) (''config.toml'' # sort (map fst (np_ConfigOverrides p))) \<and>
     set (flag_values ''-c'' args) = (@) config_dir ` fst ` set data \<and>
     set (flag_values ''-s'' args @ flag_values ''-a'' args)
       = (@) secrets_dir ` fst ` set (ksec_StringData (nr_secret r)) \<and>
     kc_VolumeMounts (nd_Container (nr_deployment r))
       = Some [read_only_mount ''config'' ''/chainlink/config'', read_only_mount ''secrets'' ''/chainlink/secrets''] \<and>
     map_of (nd_Volumes (nr_deployment r)) ''config'' = map_option FromConfigMap (om_Name (kcm_meta (nr_configMap r))) \<and>
     map_of (nd_Volumes (nr_deployment r)) ''secrets'' = map_option FromSecret (ksec_Name (nr_secret r))"
proof -
  from chainlinkNode_ok[OF assms(1)] obtain db where "node_objects verr (with_default_ports p) db = Inr r" .
  note r = node_objects_ok[OF this]
  have c: "kc_Args (nd_Container (nr_deployment r)) = Some (map Some (node_args (with_default_ports p)))"
    by (simp add: r(5) node_deployment_of_def node_container_def assms(2) PtrSlice_def Let_def)
  have k: "fst ` set (config_data (with_default_ports p)) = set (''config.toml'' # sort (map fst (np_ConfigOverrides p)))"
    "fst ` set (secret_data (with_default_ports p) (fst db))
      = set (''secrets.toml'' # sort (map fst (np_SecretsOverrides p))) \<union> {''apicredentials''}"
    by (auto simp: config_data_def secret_data_def assign_all_keys image_image case_prod_unfold)
  show ?thesis
    unfolding r(1-4) c k
    by (intro exI[of _ "node_args (with_default_ports p)"] exI[of _ "config_data (with_default_ports p)"])
      (simp add: k node_args_files r(5) node_deployment_of_def node_container_def Let_def insert_commute)
qed

section \<open>The database of a node\<close>

definition auth_values :: "string \<Rightarrow> string \<Rightarrow> jval" where
  "auth_values username database =
     JObj MapK (jmap [(''enablePostgresUser'', JScalar (SBool True)), (''postgresPassword'', JScalar (SStr defaultPassword)),
       (''username'', JScalar (SStr username)), (''password'', JScalar (SStr defaultPassword)),
       (''database'', JScalar (SStr database))])"

lemma postgres_values_lits:
  "wf_lit (LMap (postgres_values release username database))"
  "map_of (map (\<lambda>(k, l). (k, lit_val l)) (postgres_values release username database)) ''auth'' = Some (auth_values username database)"
  "map_of (map (\<lambda>(k, l). (k, lit_val l)) (postgres_values release username database)) ''fullnameOverride''
     = Some (JScalar (SStr release))"
  by (simp_all add: postgres_values_def auth_values_def)

lemma assign_all_lookup:
  "map_of (assign_all kvs m) k = (if k \<in> fst ` set kvs then map_of (rev kvs) k else map_of m k)"
proof (induction kvs arbitrary: m)
  case (Cons kv kvs)
  obtain a b where kv: "kv = (a, b)" by (cases kv)
  have "map_of (assign_all (kv # kvs) m) k = map_of (assign_all kvs (AList.update a b m)) k" by (simp add: assign_all_def kv)
  also have "\<dots> = (if k \<in> fst ` set kvs then map_of (rev kvs) k else map_of (AList.update a b m) k)" by (rule Cons.IH)
  also have "\<dots> = (if k \<in> fst ` set (kv # kvs) then map_of (rev (kv # kvs)) k else map_of m k)"
  proof (cases "k \<in> fst ` set kvs")
    case True
    then have "map_of (rev kvs) k \<noteq> None" by (auto simp: map_of_eq_None_iff)
    with True show ?thesis by (auto simp: kv map_add_def split: option.split)
  next
    case False
    then have "map_of (rev kvs) k = None" by (auto simp: map_of_eq_None_iff)
    with False show ?thesis by (cases "k = a") (auto simp: kv map_add_def update_conv')
  qed
  finally show ?case .
qed (simp add: assign_all_def)

lemma node_objects_namespace: "node_objects verr p db = Inr r \<Longrightarrow> np_Namespace p \<noteq> []"
  by (auto simp: node_objects_def node_service_def service_New_def service_broken_def missing_def split: sum.splits list.splits)

text \<open>
  C27. A node without a database of its own gets one: the URL in its secret names the host, user, password and
  database that the values of the deployed PostgreSQL chart create, whatever the defaults of the chart
  are, and the chart is deployed to the namespace of the node.
\<close>
theorem node_database_matches:
  assumes node: "chainlinkNode verr env d p h = Some (h', Inr r)" and url: "np_DatabaseURL p = []"
    and d: "entries h (cr_Values d) dc FD" and s: "''secrets.toml'' \<notin> fst ` set (np_SecretsOverrides p)"
  shows "\<exists>c m S j host user pw db. nr_chart r = Some c \<and> deployed_values c = Some m \<and> tree (hp_cells h') (HRef MapK m) j S \<and>
     look [Field ''fullnameOverride''] j = Some (JScalar (SStr host)) \<and>
     look [Field ''auth'', Field ''username''] j = Some (JScalar (SStr user)) \<and>
     look [Field ''auth'', Field ''password''] j = Some (JScalar (SStr pw)) \<and>
     look [Field ''auth'', Field ''database''] j = Some (JScalar (SStr db)) \<and>
     map_of (ksec_StringData (nr_secret r)) ''secrets.toml'' = Some (Some (secretsTOML (database_url user pw host db))) \<and>
     hx_ns c = nr_namespace r"
proof -
  let ?p = "with_default_ports p" and ?rel = "np_AppInstanceName p @ ''-postgres''" and ?u = "np_AppInstanceName p"
  from chainlinkNode_ok[OF node] obtain db where db: "node_database env d ?p h = Some (h', Inr db)" "node_objects verr ?p db = Inr r" .
  note r = node_objects_ok[OF db(2)]
  obtain h1 m where pv: "new_map h (postgres_values ?rel ?u ?u) = (h1, m)" by (cases "new_map h (postgres_values ?rel ?u ?u)")
  let ?cp = "chart_props_for (np_Namespace p) ?rel m" and ?vals = "map (\<lambda>(k, l). (k, lit_val l)) (postgres_values ?rel ?u ?u)"
  let ?comp = "postgres_Component env d (ChartPropsOf ?cp) h1"
  note nd = node_database_def[of env d ?p h] Let_def pv url
  obtain h2 props res where c3: "?comp = Some (h2, props, res)" using db(1) by (cases ?comp) (auto simp: nd)
  obtain c pg where comp: "?comp = Some (h', props, Inr c)" and dbv: "db = (database_url ?u defaultPassword ?rel ?u, Some (pg, c))"
    using db(1) c3 by (cases res) (auto simp: nd)
  have ns: "np_Namespace p \<noteq> []" using node_objects_namespace[OF db(2)] by simp
  obtain v S where v: "deployed_values c = Some v" "tree (hp_cells h') (HRef MapK v) (JObj MapK (dc ++ jmap ?vals)) S"
    "hx_ns c = np_Namespace p"
    using chart_deploys_literal[OF _ _ _ postgres_values_lits(1) pv _ _ _ comp[unfolded postgres_Component_def], of dc FD] d ns
    by (auto simp: chart_props_for_def)
  have au: "(dc ++ jmap ?vals) (Field ''auth'') = Some (auth_values ?u ?u)"
    "(dc ++ jmap ?vals) (Field ''fullnameOverride'') = Some (JScalar (SStr ?rel))"
    by (simp_all add: postgres_values_lits map_add_def)
  have "map_of (ksec_StringData (nr_secret r)) ''secrets.toml'' = Some (Some (secretsTOML (fst db)))"
    using s unfolding r(1) secret_data_def by (simp add: assign_all_lookup image_image case_prod_unfold)
  then show ?thesis
    using v au by (intro exI[of _ c] exI[of _ v] exI[of _ S] exI[of _ "JObj MapK (dc ++ jmap ?vals)"])
      (simp add: r(6,14) dbv look_Field auth_values_def del: look.simps)
qed

section \<open>The service of a node\<close>

lemma result_ports_api:
  "fst (result_ports ports acc) = (case filter (\<lambda>p. cpt_Name p = ''api'') ports of [] \<Rightarrow> fst acc | ps \<Rightarrow> cpt_ContainerPort (last ps))"
proof (induction ports acc rule: result_ports.induct)
  case (2 port ports api p2p)
  then show ?case by (cases "filter (\<lambda>p. cpt_Name p = ''api'') ports") (auto simp: Let_def)
qed simp

text \<open>
  C38. The address of the API that a node reports is served: when the node has a port named api, or none
  configured at all, the service of the address has that port, the container of the pods exposes it, and
  the pods carry the labels the service selects.
\<close>
theorem node_api_served:
  assumes node: "chainlinkNode verr env d p h = Some (h', Inr r)"
    and api: "np_Ports p = [] \<or> ''api'' \<in> cpt_Name ` set (np_Ports p)"
  shows "\<exists>sp kp ports. APIUrl r = ''http://'' @ nr_nodeName r @ ''.'' @ nr_namespace r @ ''.svc.cluster.local''
         @ (if nr_apiPort r \<noteq> 0 then '':'' @ show_int (nr_apiPort r) else []) \<and>
     om_Name (sv_meta (nr_service r)) = Some (nr_nodeName r) \<and> om_Namespace (sv_meta (nr_service r)) = Some (nr_namespace r) \<and>
     Some sp \<in> set (sv_ports (nr_service r)) \<and> sp_Name sp = Some ''api'' \<and> sp_Port sp = Some (to_float64 (nr_apiPort r)) \<and>
     kc_Ports (nd_Container (nr_deployment r)) = Some ports \<and> kp \<in> set ports \<and>
     kp_ContainerPort kp = Some (to_float64 (nr_apiPort r)) \<and>
     sv_selector (nr_service r) = nd_PodLabels (nr_deployment r)"
proof -
  let ?p = "with_default_ports p"
  from chainlinkNode_ok[OF node] obtain db where "node_objects verr ?p db = Inr r" .
  note r = node_objects_ok[OF this]
  have "filter (\<lambda>p. cpt_Name p = ''api'') (np_Ports ?p) \<noteq> []"
    using api by (auto simp: with_default_ports_def filter_empty_conv)
  then obtain port where port: "port \<in> set (np_Ports ?p)" "cpt_Name port = ''api''" "nr_apiPort r = cpt_ContainerPort port"
    unfolding r(12) result_ports_api using last_in_set[of "filter (\<lambda>p. cpt_Name p = ''api'') (np_Ports ?p)"]
    by (auto split: list.split)
  let ?sp = "\<lparr>sp_Name = Some (cpt_Name port), sp_Port = Some (to_float64 (cpt_ContainerPort port)),
         sp_Protocol = Some (cpt_Protocol port), sp_NodePort = None,
         sp_TargetPort = Some (show_int (to_float64 (cpt_ContainerPort port)))\<rparr>"
  have "Some ?sp \<in> set (sv_ports (nr_service r))" unfolding r(8) using port(1) by (simp add: node_service_ports_def)
  moreover have "kc_Ports (nd_Container (nr_deployment r)) = Some (map convert_port (np_Ports ?p))"
    by (simp add: r(5) node_deployment_of_def node_container_def convertToK8sPorts_def Let_def)
  moreover have "convert_port port \<in> set (map convert_port (np_Ports ?p))" using port(1) by simp
  moreover have "kp_ContainerPort (convert_port port) = Some (to_float64 (nr_apiPort r))" using port(3) by (simp add: convert_port_def)
  moreover have "sv_selector (nr_service r) = nd_PodLabels (nr_deployment r)" by (simp add: r(5,9) node_deployment_of_def)
  moreover have "APIUrl r = ''http://'' @ nr_nodeName r @ ''.'' @ nr_namespace r @ ''.svc.cluster.local''
         @ (if nr_apiPort r \<noteq> 0 then '':'' @ show_int (nr_apiPort r) else [])"
    by (simp add: APIUrl_def ClusterLocalServiceURL_def)
  ultimately show ?thesis using r(10,11,14,15) port(2,3)
    by (intro exI[of _ ?sp] exI[of _ "convert_port port"] exI[of _ "map convert_port (np_Ports ?p)"]) simp
qed

section \<open>A concrete node\<close>

definition demo_node :: "string \<Rightarrow> node_props" where
  "demo_node url =
     \<lparr>np_Namespace = ''ns'', np_AppInstanceName = ''node-0'', np_Image = ''chainlink:v2'', np_ImagePullPolicy = ''IfNotPresent'',
       np_Command = [], np_Args = [], np_EnvVars = [], np_Config = ''x'', np_ConfigOverrides = [(''b.toml'', ''y''), (''a.toml'', ''z'')],
       np_SecretsOverrides = [(''s.toml'', ''w'')], np_Limits = [], np_Requests = [], np_DatabaseURL = url, np_Ports = [],
       np_Replicas = 1\<rparr>"

lemma set_update: "set (AList.update a b m) \<subseteq> insert (a, b) (set m)"
  by (induction m) auto

lemma demo_node_objects: "\<exists>r. node_objects verr (with_default_ports (demo_node url)) db = Inr r"
proof -
  let ?p = "with_default_ports (demo_node url)"
  have "None \<notin> snd ` set (assign_all kvs m)" if "None \<notin> snd ` set kvs" "None \<notin> snd ` set m"
    for kvs m :: "(string \<times> string option) list"
    using that
  proof (induction kvs arbitrary: m)
    case (Cons kv kvs)
    obtain a b where "kv = (a, b)" by (cases kv)
    moreover have "None \<notin> snd ` set (AList.update a b m)"
      using Cons.prems calculation set_update[of a b m] by auto
    ultimately show ?case using Cons by (simp add: assign_all_def)
  qed (simp add: assign_all_def)
  from this[of "[(''s.toml'', Some ''w'')]" "[(''apicredentials'', Some (defaultLogin @ [LF] @ defaultPassword)), (''secrets.toml'', Some (secretsTOML (fst db)))]"]
  have sec: "None \<notin> snd ` set (secret_data ?p (fst db))"
    by (simp add: secret_data_def) (simp add: demo_node_def)
  have n: "np_AppInstanceName (demo_node url) = ''node-0''" "np_Namespace (demo_node url) = ''ns''" by (simp_all add: demo_node_def)
  obtain s where "node_secret verr ?p (fst db) = Inr s"
    using sec by (auto simp: node_secret_def secret_New_def secret_broken_def secret_defaults_def missing_def Let_def n)
  moreover obtain c where "node_configMap verr ?p = Inr c"
    by (auto simp: node_configMap_def configmap_New_def NewMetadataFactory_def missing_def n)
  moreover have "node_service_ports ?p \<noteq> []" "None \<notin> set (node_service_ports ?p)"
    by (auto simp: node_service_ports_def with_default_ports_def demo_node_def)
  then obtain v where "node_service verr ?p = Inr v"
    by (auto simp: node_service_def service_New_def service_broken_def NewMetadataFactory_def metadata_of_def missing_def n
        node_labels_def)
  ultimately show ?thesis by (simp add: node_objects_def)
qed

lemma demo_node_runs: "\<exists>h' r. chainlinkNode verr demo_chart_env demo_ref (demo_node url) demo_chart_heap = Some (h', Inr r)"
proof -
  let ?p = "with_default_ports (demo_node url)"
  have "\<exists>h' db. node_database demo_chart_env demo_ref ?p demo_chart_heap = Some (h', Inr db)"
  proof (cases "url = []")
    case True
    obtain h1 m where pv: "new_map demo_chart_heap (postgres_values ''node-0-postgres'' ''node-0'' ''node-0'') = (h1, m)"
      by (cases "new_map demo_chart_heap (postgres_values ''node-0-postgres'' ''node-0'' ''node-0'')")
    have "\<exists>h2 q c. postgres_Component demo_chart_env demo_ref (ChartPropsOf (chart_props_for ''ns'' ''node-0-postgres'' m)) h1
        = Some (h2, q, Inr c)"
      by (simp add: postgres_Component_def Component_copies chart_props_for_def helmchart_New_def demo_chart_env_def
          err_of_def Let_def)
    then obtain h2 q c where "postgres_Component demo_chart_env demo_ref (ChartPropsOf (chart_props_for ''ns'' ''node-0-postgres'' m)) h1
        = Some (h2, q, Inr c)" by blast
    with pv True show ?thesis by (simp add: node_database_def demo_node_def Let_def)
  qed (simp add: node_database_def demo_node_def)
  then obtain h' db where "node_database demo_chart_env demo_ref ?p demo_chart_heap = Some (h', Inr db)" by blast
  moreover obtain r where "node_objects verr ?p db = Inr r" using demo_node_objects by blast
  ultimately show ?thesis by (simp add: chainlinkNode_def Let_def)
qed

theorem node_files_exist_witness:
  "\<exists>h' r args. chainlinkNode (\<lambda>fs. ErrText ''missing'') demo_chart_env demo_ref (demo_node ''postgresql://db'') demo_chart_heap
       = Some (h', Inr r) \<and> kc_Args (nd_Container (nr_deployment r)) = Some (map Some args) \<and>
     length (flag_values ''-c'' args) = 3"
proof -
  obtain h' r where n: "chainlinkNode (\<lambda>fs. ErrText ''missing'') demo_chart_env demo_ref (demo_node ''postgresql://db'') demo_chart_heap
       = Some (h', Inr r)" using demo_node_runs by blast
  have "np_Args (demo_node ''postgresql://db'') = []" by (simp add: demo_node_def)
  from node_files_exist[OF n this] obtain args where a: "kc_Args (nd_Container (nr_deployment r)) = Some (map Some args)"
    "flag_values ''-c'' args = map ((@) config_dir)
      (''config.toml'' # sort (map fst (np_ConfigOverrides (demo_node ''postgresql://db''))))" by blast
  then have "length (flag_values ''-c'' args) = 3" by (simp only: a(2)) (simp add: demo_node_def)
  with n a(1) show ?thesis by blast
qed

theorem node_database_matches_witness:
  "\<exists>h' r c m. chainlinkNode (\<lambda>fs. ErrText ''missing'') demo_chart_env demo_ref (demo_node []) demo_chart_heap = Some (h', Inr r) \<and>
     nr_chart r = Some c \<and> deployed_values c = Some m \<and> hx_ns c = nr_namespace r"
proof -
  obtain h' r where n: "chainlinkNode (\<lambda>fs. ErrText ''missing'') demo_chart_env demo_ref (demo_node []) demo_chart_heap
       = Some (h', Inr r)" using demo_node_runs by blast
  have "entries demo_chart_heap (cr_Values demo_ref) [Field ''image'' \<mapsto> demo_image] demo_sets"
    using demo_defaults by (simp add: demo_ref_def)
  from node_database_matches[OF n _ this] n show ?thesis by (auto simp: demo_node_def)
qed

theorem node_api_served_witness:
  "\<exists>h' r sp. chainlinkNode (\<lambda>fs. ErrText ''missing'') demo_chart_env demo_ref (demo_node ''postgresql://db'') demo_chart_heap
       = Some (h', Inr r) \<and> Some sp \<in> set (sv_ports (nr_service r)) \<and> sp_Port sp = Some (to_float64 (nr_apiPort r))"
proof -
  obtain h' r where n: "chainlinkNode (\<lambda>fs. ErrText ''missing'') demo_chart_env demo_ref (demo_node ''postgresql://db'') demo_chart_heap
       = Some (h', Inr r)" using demo_node_runs by blast
  from node_api_served[OF n] n show ?thesis by (simp add: demo_node_def) blast
qed

end
