(* ===== verification/NodeSet.thy ===== *)
theory NodeSet
  imports ChainlinkNode
begin

text \<open>
  The node set composite, crib/composite/chainlink/nodeset/v1/nodeset.go: one PostgreSQL for several Chainlink
  nodes.  The props hold pointers to the props of the nodes, which validation writes to: the structs live in a
  store from addresses to props, a nil pointer is \<open>None\<close> and its use a panic, the outer result \<open>None\<close>.
\<close>

section \<open>Props and validation\<close>

record nodeset_props =
  st_Namespace :: string
  st_PostgresReleaseName :: string
  st_PostgresPassword :: string
  st_PostgresResources :: "(string \<times> (string \<times> string) list) list"
  st_NodeProps :: "nat option list option"
  st_Size :: int

type_synonym node_store = "nat \<Rightarrow> node_props"

text \<open>
  What the libraries do to the props of a node: setting the defaults of the tags, and the validation of the
  props with its error.
\<close>

record node_checks =
  nk_fill :: "node_props \<Rightarrow> node_props"
  nk_Validate :: "node_props \<Rightarrow> node_props \<times> goerr option"

definition nodeset_defaults :: "nodeset_props \<Rightarrow> nodeset_props" where
  "nodeset_defaults p =
     p\<lparr>st_PostgresReleaseName := or_default (st_PostgresReleaseName p) ''shared-postgres'',
       st_PostgresPassword := or_default (st_PostgresPassword p) ''postgres''\<rparr>"

definition nodeset_broken :: "nodeset_props \<Rightarrow> string list" where
  "nodeset_broken p =
     missing [(''Namespace'', st_Namespace p)] @ (if st_NodeProps p = None then [''NodeProps''] else [])
     @ (if st_Size p < 1 then [''Size''] else [])"

definition node_ptrs :: "nodeset_props \<Rightarrow> nat option list" where
  "node_ptrs p = (case st_NodeProps p of None \<Rightarrow> [] | Some ps \<Rightarrow> ps)"

definition fill_nodes :: "node_checks \<Rightarrow> nat option list \<Rightarrow> node_store \<Rightarrow> node_store" where
  "fill_nodes k ptrs s = fold (\<lambda>x s. case x of None \<Rightarrow> s | Some a \<Rightarrow> s(a := nk_fill k (s a))) ptrs s"

text \<open>The loop over the nodes, from index \<open>i\<close>: the namespace is written into the struct of the caller.\<close>

fun set_nodes :: "node_checks \<Rightarrow> string \<Rightarrow> nat \<Rightarrow> nat option list \<Rightarrow> node_store \<Rightarrow> (node_store \<times> goerr option) option" where
  "set_nodes k ns i [] s = Some (s, None)"
| "set_nodes k ns i (None # ptrs) s = None"
| "set_nodes k ns i (Some a # ptrs) s =
     (if np_Namespace (s a) \<noteq> [] then
        Some (s, Some (ErrText (''NodeProps['' @ show_nat i @ ''].Namespace must be empty to allow automatic propagation'')))
      else
        (case nk_Validate k ((s a)\<lparr>np_Namespace := ns\<rparr>) of
           (p, Some e) \<Rightarrow> Some (s(a := p), Some e)
         | (p, None) \<Rightarrow> set_nodes k ns (Suc i) ptrs (s(a := p))))"

definition nodeset_Validate ::
    "validator_error \<Rightarrow> node_checks \<Rightarrow> nodeset_props \<Rightarrow> node_store \<Rightarrow> ((nodeset_props \<times> node_store) \<times> goerr option) option" where
  "nodeset_Validate verr k p0 s0 =
     (let p = nodeset_defaults p0; s = fill_nodes k (node_ptrs p) s0 in
      case nodeset_broken p of
        [] \<Rightarrow>
          (if int (length (node_ptrs p)) \<noteq> st_Size p then
             Some ((p, s), Some (ErrText (''NodeProps length ('' @ show_nat (length (node_ptrs p)) @ '') must match Size (''
               @ show_int (st_Size p) @ '')'')))
           else map_option (\<lambda>(s', e). ((p, s'), e)) (set_nodes k (st_Namespace p) 0 (node_ptrs p) s))
      | fs \<Rightarrow> Some ((p, s), Some (verr fs)))"

section \<open>The composite\<close>

definition set_dbName :: "nat \<Rightarrow> string" where "set_dbName i = ''chainlink_node_'' @ show_nat i"
definition set_username :: "nat \<Rightarrow> string" where "set_username i = ''chainlink_user_'' @ show_nat i"
definition set_password :: "nat \<Rightarrow> string" where "set_password i = ''chainlink_pass_'' @ show_nat i"

definition sql_statements :: "nat \<Rightarrow> string list" where
  "sql_statements i =
     [''CREATE USER '' @ set_username i @ '' WITH PASSWORD '' @ QU @ set_password i @ QU @ '';'',
      ''CREATE DATABASE '' @ set_dbName i @ '' OWNER '' @ set_username i @ '';'',
      ''GRANT ALL PRIVILEGES ON DATABASE '' @ set_dbName i @ '' TO '' @ set_username i @ '';'']"

definition generateInitSQL :: "nodeset_props \<Rightarrow> string" where
  "generateInitSQL p = join_with [LF] (concat (map sql_statements [0..<nat (st_Size p)]))"

definition nodeset_values :: "nodeset_props \<Rightarrow> (string \<times> lit) list" where
  "nodeset_values p =
     [(''fullnameOverride'', lstr (st_PostgresReleaseName p)),
      (''auth'', LMap [(''enablePostgresUser'', LScalar (SBool True)), (''postgresPassword'', lstr (st_PostgresPassword p))]),
      (''primary'', LMap
        ([(''persistence'', LMap [(''enabled'', LScalar (SBool False))]),
          (''initdb'', LMap [(''scripts'', LScalar (SStrMap [(''init.sql'', generateInitSQL p)]))])]
         @ (if 0 < length (st_PostgresResources p) then [(''resources'', LScalar (SStrMaps (st_PostgresResources p)))] else [])))]"

text \<open>The loop that creates the nodes, each from a copy of its props with a URL of its own.\<close>

fun create_nodes ::
    "validator_error \<Rightarrow> node_checks \<Rightarrow> chart_env \<Rightarrow> chart_ref \<Rightarrow> string \<Rightarrow> nat \<Rightarrow> nat option list \<Rightarrow> node_store \<Rightarrow> heap
      \<Rightarrow> (heap \<times> (goerr + node_result list)) option" where
  "create_nodes verr k env d host i [] s h = Some (h, Inr [])"
| "create_nodes verr k env d host i (None # ptrs) s h = None"
| "create_nodes verr k env d host i (Some a # ptrs) s h =
     (let dbURL = database_url (set_username i) (set_password i) host (set_dbName i);
          valid = (\<lambda>q. case nk_Validate k q of (q', None) \<Rightarrow> Inr q' | (_, Some e) \<Rightarrow> Inl e) in
      case node_Component valid verr env d ((s a)\<lparr>np_DatabaseURL := dbURL\<rparr>) h of
        None \<Rightarrow> None
      | Some (h1, Inl e) \<Rightarrow> Some (h1, Inl (WrapErr (''failed to create Chainlink node '' @ show_nat i) e))
      | Some (h1, Inr r) \<Rightarrow>
          map_option (\<lambda>(h2, res). (h2, map_sum (\<lambda>e. e) (\<lambda>rs. r # rs) res))
            (create_nodes verr k env d host (Suc i) ptrs s h1))"

definition nodeset_wait :: "nodeset_props \<Rightarrow> csa_props" where
  "nodeset_wait p =
     \<lparr>cs_Namespace = st_Namespace p, cs_OnFailure = ''abort'', cs_Action = ''kubectl'',
       cs_Args = [''wait'', ''-n'', st_Namespace p, ''--for=condition=ready'', ''pod'',
         ''-l=app.kubernetes.io/name=chainlink'', ''--timeout=600s'']\<rparr>"

text \<open>The result, with the chart of the database and the waiting manifest with the nodes it depends on.\<close>

record nodeset_result =
  sn_Nodes :: "node_result list"
  sn_chart :: helm_chart
  sn_wait :: csa_component
  sn_wait_deps :: "node_result list"

definition nodeSet ::
    "validator_error \<Rightarrow> node_checks \<Rightarrow> chart_env \<Rightarrow> chart_ref \<Rightarrow> nodeset_props \<Rightarrow> node_store \<Rightarrow> heap
      \<Rightarrow> (heap \<times> (goerr + nodeset_result)) option" where
  "nodeSet verr k env d p s h =
     (case new_map h (nodeset_values p) of
        (h1, values) \<Rightarrow>
          (case postgres_Component env d (ChartPropsOf (chart_props_for (st_Namespace p) (st_PostgresReleaseName p) values)) h1 of
             None \<Rightarrow> None
           | Some (h2, _, Inl e) \<Rightarrow> Some (h2, Inl (WrapErr ''failed to create PostgreSQL component'' e))
           | Some (h2, _, Inr c) \<Rightarrow>
               map_option
                 (\<lambda>(h3, res). (h3, map_sum (\<lambda>e. e)
                    (\<lambda>rs. \<lparr>sn_Nodes = rs, sn_chart = c, sn_wait = csa_New (nodeset_wait p), sn_wait_deps = rs\<rparr>) res))
                 (create_nodes verr k env d (st_PostgresReleaseName p) 0 (node_ptrs p) s h2)))"

definition nodeset_Component ::
    "validator_error \<Rightarrow> node_checks \<Rightarrow> chart_env \<Rightarrow> chart_ref \<Rightarrow> nodeset_props \<Rightarrow> node_store \<Rightarrow> heap
      \<Rightarrow> ((nodeset_props \<times> node_store) \<times> heap \<times> (goerr + nodeset_result)) option" where
  "nodeset_Component verr k env d p s h =
     (case nodeset_Validate verr k p s of
        None \<Rightarrow> None
      | Some ((p', s'), Some e) \<Rightarrow> Some ((p', s'), h, Inl e)
      | Some ((p', s'), None) \<Rightarrow> map_option (\<lambda>r. ((p', s'), r)) (nodeSet verr k env d p' s' h))"

section \<open>Validation works once\<close>

text \<open>No step of the libraries writes a namespace: no tag of the props gives it a default.\<close>

definition keeps_namespace :: "node_checks \<Rightarrow> bool" where
  "keeps_namespace k \<longleftrightarrow> (\<forall>q. np_Namespace (nk_fill k q) = np_Namespace q \<and> np_Namespace (fst (nk_Validate k q)) = np_Namespace q)"

lemma fill_nodes_namespace: "keeps_namespace k \<Longrightarrow> np_Namespace (fill_nodes k ptrs s a) = np_Namespace (s a)"
proof (induction ptrs arbitrary: s)
  case (Cons x ptrs)
  then show ?case by (cases x) (simp_all add: fill_nodes_def keeps_namespace_def)
qed (simp add: fill_nodes_def)

text \<open>What the loop leaves behind: every node had no namespace, and has the one of the set.\<close>

lemma set_nodes_ok:
  assumes "set_nodes k ns i ptrs s = Some (s', None)" "keeps_namespace k"
  shows "None \<notin> set ptrs \<and> (ns \<noteq> [] \<longrightarrow> distinct ptrs) \<and>
    (\<forall>a. Some a \<in> set ptrs \<longrightarrow> np_Namespace (s' a) = ns \<and> (ns \<noteq> [] \<longrightarrow> np_Namespace (s a) = [])) \<and>
    (\<forall>a. Some a \<notin> set ptrs \<longrightarrow> s' a = s a)"
  using assms(1)
proof (induction ptrs arbitrary: i s)
  case (Cons x ptrs)
  then obtain a where x: "x = Some a" by (cases x) auto
  with Cons.prems obtain p where p: "np_Namespace (s a) = []" "nk_Validate k ((s a)\<lparr>np_Namespace := ns\<rparr>) = (p, None)"
    "set_nodes k ns (Suc i) ptrs (s(a := p)) = Some (s', None)"
    by (auto split: if_splits prod.splits option.splits)
  have "np_Namespace (fst (nk_Validate k ((s a)\<lparr>np_Namespace := ns\<rparr>))) = ns" using assms(2) by (simp add: keeps_namespace_def)
  then have ns: "np_Namespace p = ns" by (simp add: p(2))
  note IH = Cons.IH[OF p(3)]
  show ?case
  proof (intro conjI allI impI)
    show "None \<notin> set (x # ptrs)" using IH x by simp
    have new: "Some a \<notin> set ptrs" if "ns \<noteq> []"
    proof
      assume "Some a \<in> set ptrs"
      with IH that have "np_Namespace ((s(a := p)) a) = []" by blast
      with ns that show False by simp
    qed
    then show "distinct (x # ptrs)" if "ns \<noteq> []" using IH x that by simp
    fix b
    show "np_Namespace (s' b) = ns" if "Some b \<in> set (x # ptrs)"
      using IH that ns x by (cases "Some b \<in> set ptrs") auto
    show "np_Namespace (s b) = []" if "Some b \<in> set (x # ptrs)" "ns \<noteq> []"
    proof (cases "b = a")
      case False
      with that x have "Some b \<in> set ptrs" by simp
      with IH that(2) have "np_Namespace ((s(a := p)) b) = []" by blast
      with False show ?thesis by simp
    qed (use p(1) in simp)
    show "s' b = s b" if "Some b \<notin> set (x # ptrs)" using IH that x by auto
  qed
qed simp

lemma nodeset_defaults_idem [simp]: "nodeset_defaults (nodeset_defaults p) = nodeset_defaults p"
  by (simp add: nodeset_defaults_def or_default_def)

lemma nodeset_Validate_ok:
  assumes "nodeset_Validate verr k p s = Some ((p', s'), None)"
  shows "p' = nodeset_defaults p" "nodeset_broken p' = []" "int (length (node_ptrs p')) = st_Size p'"
    "set_nodes k (st_Namespace p') 0 (node_ptrs p') (fill_nodes k (node_ptrs p') s) = Some (s', None)"
proof -
  show p: "p' = nodeset_defaults p"
    using assms by (auto simp: nodeset_Validate_def Let_def split: list.splits if_splits)
  from assms show "nodeset_broken p' = []" "int (length (node_ptrs p')) = st_Size p'"
    "set_nodes k (st_Namespace p') 0 (node_ptrs p') (fill_nodes k (node_ptrs p') s) = Some (s', None)"
    unfolding p by (auto simp: nodeset_Validate_def Let_def split: list.splits if_splits)
qed

text \<open>
  C39. Validating a node set is not repeatable: the first success needs a struct of its own for every node and
  writes the namespace of the set into each, so that a second validation of the same props, with the same
  validator, is refused at the first node.
\<close>
theorem nodeset_validates_once:
  assumes "nodeset_Validate verr k p s = Some ((p', s'), None)" "keeps_namespace k"
  shows "distinct (node_ptrs p) \<and> int (length (node_ptrs p)) = st_Size p \<and>
    (\<forall>x \<in> set (node_ptrs p). \<exists>a. x = Some a \<and> np_Namespace (s a) = [] \<and> np_Namespace (s' a) = st_Namespace p) \<and>
    (\<exists>s''. nodeset_Validate verr k p' s' =
       Some ((p', s''), Some (ErrText (''NodeProps['' @ show_nat 0 @ ''].Namespace must be empty to allow automatic propagation''))))"
proof -
  note v = nodeset_Validate_ok[OF assms(1)]
  have same: "node_ptrs p' = node_ptrs p" "st_Size p' = st_Size p" "st_Namespace p' = st_Namespace p"
    by (simp_all add: v(1) nodeset_defaults_def node_ptrs_def)
  have ns: "st_Namespace p \<noteq> []" "1 \<le> st_Size p"
    using v(2) unfolding nodeset_broken_def same by (auto simp: missing_def split: if_splits)
  note n = set_nodes_ok[OF v(4) assms(2), unfolded same]
  from v(3) ns(2) obtain x ptrs where xs: "node_ptrs p = x # ptrs" unfolding same by (cases "node_ptrs p") auto
  with n obtain a where x: "x = Some a" by (cases x) auto
  have "np_Namespace (fill_nodes k (node_ptrs p) s' a) \<noteq> []"
    using fill_nodes_namespace[OF assms(2)] n ns(1) xs x by simp
  then have "set_nodes k (st_Namespace p) 0 (node_ptrs p) (fill_nodes k (node_ptrs p) s') = Some (fill_nodes k (node_ptrs p) s',
      Some (ErrText (''NodeProps['' @ show_nat 0 @ ''].Namespace must be empty to allow automatic propagation'')))"
    unfolding xs x by (simp del: show_nat.simps)
  moreover have "nodeset_defaults p' = p'" by (simp add: v(1))
  ultimately have again: "nodeset_Validate verr k p' s' = Some ((p', fill_nodes k (node_ptrs p) s'),
      Some (ErrText (''NodeProps['' @ show_nat 0 @ ''].Namespace must be empty to allow automatic propagation'')))"
    using v(2,3) by (simp add: nodeset_Validate_def Let_def same del: show_nat.simps)
  have "\<exists>a. y = Some a \<and> np_Namespace (s a) = [] \<and> np_Namespace (s' a) = st_Namespace p" if "y \<in> set (node_ptrs p)" for y
  proof -
    from n that obtain b where "y = Some b" by (cases y) auto
    with n that ns(1) show ?thesis using fill_nodes_namespace[OF assms(2), of "node_ptrs p" s b] by auto
  qed
  with again n ns(1) v(3) show ?thesis unfolding same by blast
qed

section \<open>The databases of the nodes\<close>

text \<open>The validator keeps what a node is configured with, apart from its defaults.\<close>

definition keeps_database :: "node_checks \<Rightarrow> bool" where
  "keeps_database k \<longleftrightarrow> (\<forall>q. np_DatabaseURL (fst (nk_Validate k q)) = np_DatabaseURL q \<and>
     np_SecretsOverrides (fst (nk_Validate k q)) = np_SecretsOverrides q)"

lemma node_with_url:
  assumes "chainlinkNode verr env d p h = Some (h', Inr r)" "np_DatabaseURL p \<noteq> []"
    and "''secrets.toml'' \<notin> fst ` set (np_SecretsOverrides p)"
  shows "h' = h" "map_of (ksec_StringData (nr_secret r)) ''secrets.toml'' = Some (Some (secretsTOML (np_DatabaseURL p)))"
proof -
  from chainlinkNode_ok[OF assms(1)] obtain db where db: "node_database env d (with_default_ports p) h = Some (h', Inr db)"
    "node_objects verr (with_default_ports p) db = Inr r" .
  have e: "h' = h" "fst db = np_DatabaseURL p" using db(1) assms(2) by (auto simp: node_database_def)
  show "h' = h" by (rule e)
  show "map_of (ksec_StringData (nr_secret r)) ''secrets.toml'' = Some (Some (secretsTOML (np_DatabaseURL p)))"
    using assms(3) unfolding node_objects_ok(1)[OF db(2)] secret_data_def
    by (simp add: e assign_all_lookup image_image case_prod_unfold)
qed

lemma database_url_not_Nil [simp]: "database_url u w host db \<noteq> []"
  by (simp add: database_url_def)

lemma create_nodes_ok:
  assumes "create_nodes verr k env d host i ptrs s h = Some (h', Inr rs)" "keeps_database k"
    and "\<forall>a. Some a \<in> set ptrs \<longrightarrow> ''secrets.toml'' \<notin> fst ` set (np_SecretsOverrides (s a))"
  shows "h' = h \<and> length rs = length ptrs \<and> (\<forall>j < length rs. map_of (ksec_StringData (nr_secret (rs ! j))) ''secrets.toml''
    = Some (Some (secretsTOML (database_url (set_username (i + j)) (set_password (i + j)) host (set_dbName (i + j))))))"
  using assms(1,3)
proof (induction ptrs arbitrary: i h rs)
  case (Cons x ptrs)
  then obtain a where x: "x = Some a" by (cases x) auto
  let ?url = "database_url (set_username i) (set_password i) host (set_dbName i)"
  let ?q = "(s a)\<lparr>np_DatabaseURL := ?url\<rparr>"
  let ?valid = "\<lambda>q. case nk_Validate k q of (q', None) \<Rightarrow> Inr q' | (_, Some e) \<Rightarrow> Inl e"
  from Cons.prems(1) obtain h1 r rs' where c: "node_Component ?valid verr env d ?q h = Some (h1, Inr r)"
    "create_nodes verr k env d host (Suc i) ptrs s h1 = Some (h', Inr rs')" "rs = r # rs'"
    unfolding x by (auto simp: Let_def map_sum_eq_Inr split: option.splits sum.splits)
  then obtain q where q: "nk_Validate k ?q = (q, None)" "chainlinkNode verr env d q h = Some (h1, Inr r)"
    by (auto simp: node_Component_def split: sum.splits prod.splits option.splits)
  have "np_DatabaseURL (fst (nk_Validate k ?q)) = ?url" "np_SecretsOverrides (fst (nk_Validate k ?q)) = np_SecretsOverrides (s a)"
    using assms(2) by (simp_all add: keeps_database_def)
  then have k: "np_DatabaseURL q = ?url" "np_SecretsOverrides q = np_SecretsOverrides (s a)" by (simp_all add: q(1))
  note n = node_with_url[OF q(2)]
  have n1: "h1 = h" "map_of (ksec_StringData (nr_secret r)) ''secrets.toml'' = Some (Some (secretsTOML ?url))"
    using n Cons.prems(2) k x by simp_all
  have IH: "h' = h1 \<and> length rs' = length ptrs \<and> (\<forall>j < length rs'. map_of (ksec_StringData (nr_secret (rs' ! j))) ''secrets.toml''
    = Some (Some (secretsTOML (database_url (set_username (Suc i + j)) (set_password (Suc i + j)) host (set_dbName (Suc i + j))))))"
    using Cons.prems(2) by (intro Cons.IH[OF c(2)]) simp
  have "map_of (ksec_StringData (nr_secret (rs ! j))) ''secrets.toml''
      = Some (Some (secretsTOML (database_url (set_username (i + j)) (set_password (i + j)) host (set_dbName (i + j)))))"
    if "j < length rs" for j
    using that n1(2) IH by (cases j) (simp_all add: c(3))
  with IH n1(1) c(3) show ?case by simp
qed simp

lemma digits_LF: "LF \<notin> set (show_nat n)"
  by (rule show_nat_no_char) (simp add: LF_def is_digit_def)

lemma sql_lines:
  assumes "i < nat (st_Size p)"
  shows "set (sql_statements i) \<subseteq> set (split_on LF (generateInitSQL p))"
proof -
  let ?ls = "concat (map sql_statements [0..<nat (st_Size p)])"
  have "LF \<notin> set l" if "l \<in> set ?ls" for l
    using that digits_LF by (auto simp: sql_statements_def set_username_def set_password_def set_dbName_def QU_def LF_def)
  moreover have "?ls \<noteq> []" using assms by (auto simp: sql_statements_def intro!: bexI[of _ i])
  ultimately have "split_on LF (generateInitSQL p) = ?ls"
    unfolding generateInitSQL_def by (intro split_on_join) auto
  with assms show ?thesis by auto
qed

lemma set_dbName_inj: "inj set_dbName"
  by (rule injI) (auto simp: set_dbName_def dest: show_nat_inject)

lemma nodeset_values_lits:
  "wf_lit (LMap (nodeset_values p))"
  "map_of (map (\<lambda>(k, l). (k, lit_val l)) (nodeset_values p)) ''fullnameOverride'' = Some (JScalar (SStr (st_PostgresReleaseName p)))"
  "\<exists>c. map_of (map (\<lambda>(k, l). (k, lit_val l)) (nodeset_values p)) ''primary'' = Some (JObj MapK c) \<and>
     c (Field ''initdb'') = Some (JObj MapK (jmap [(''scripts'', JScalar (SStrMap [(''init.sql'', generateInitSQL p)]))]))"
  by (simp_all add: nodeset_values_def)

text \<open>
  C8. Every node of a set has a database: the URL in the secret of node \<open>i\<close> has the name of the deployed PostgreSQL
  as its host, and its user, password and database are the ones the script that PostgreSQL is deployed with
  creates and grants; no two nodes share a database, and the set waits for all of its nodes.
\<close>
theorem nodeset_databases_created:
  assumes set: "nodeSet verr k env d p s h = Some (h', Inr r)" and k: "keeps_database k"
    and d: "entries h (cr_Values d) dc FD" and ns: "st_Namespace p \<noteq> []" "int (length (node_ptrs p)) = st_Size p"
    and o: "\<forall>a. Some a \<in> set (node_ptrs p) \<longrightarrow> ''secrets.toml'' \<notin> fst ` set (np_SecretsOverrides (s a))"
  shows "\<exists>v S j host sql user pw db. deployed_values (sn_chart r) = Some v \<and> tree (hp_cells h') (HRef MapK v) j S \<and>
     look [Field ''fullnameOverride''] j = Some (JScalar (SStr host)) \<and>
     look [Field ''primary'', Field ''initdb'', Field ''scripts''] j = Some (JScalar (SStrMap [(''init.sql'', sql)])) \<and>
     int (length (sn_Nodes r)) = st_Size p \<and> inj db \<and> sn_wait_deps r = sn_Nodes r \<and>
     (\<forall>i < length (sn_Nodes r).
        map_of (ksec_StringData (nr_secret (sn_Nodes r ! i))) ''secrets.toml''
          = Some (Some (secretsTOML (database_url (user i) (pw i) host (db i)))) \<and>
        {''CREATE USER '' @ user i @ '' WITH PASSWORD '' @ QU @ pw i @ QU @ '';'',
         ''CREATE DATABASE '' @ db i @ '' OWNER '' @ user i @ '';'',
         ''GRANT ALL PRIVILEGES ON DATABASE '' @ db i @ '' TO '' @ user i @ '';''} \<subseteq> set (split_on LF sql))"
proof -
  let ?host = "st_PostgresReleaseName p" and ?vals = "map (\<lambda>(k, l). (k, lit_val l)) (nodeset_values p)"
  obtain h1 m where m: "new_map h (nodeset_values p) = (h1, m)" by (cases "new_map h (nodeset_values p)")
  let ?comp = "postgres_Component env d (ChartPropsOf (chart_props_for (st_Namespace p) ?host m)) h1"
  from set obtain h2 props c rs where c: "?comp = Some (h2, props, Inr c)"
    "create_nodes verr k env d ?host 0 (node_ptrs p) s h2 = Some (h', Inr rs)" "sn_Nodes r = rs" "sn_chart r = c" "sn_wait_deps r = rs"
    by (auto simp: nodeSet_def m map_sum_eq_Inr split: option.splits sum.splits)
  note n = create_nodes_ok[OF c(2) k o]
  obtain v S where v: "deployed_values c = Some v" "tree (hp_cells h2) (HRef MapK v) (JObj MapK (dc ++ jmap ?vals)) S"
    using chart_deploys_literal[OF _ _ _ nodeset_values_lits(1) m _ _ _ c(1)[unfolded postgres_Component_def], of dc FD] d ns(1)
    by (auto simp: chart_props_for_def)
  from nodeset_values_lits(3)[of p] obtain pc where pc: "map_of ?vals ''primary'' = Some (JObj MapK pc)"
    "pc (Field ''initdb'') = Some (JObj MapK (jmap [(''scripts'', JScalar (SStrMap [(''init.sql'', generateInitSQL p)]))]))" by blast
  have l: "look [Field ''fullnameOverride''] (JObj MapK (dc ++ jmap ?vals)) = Some (JScalar (SStr ?host))"
    "look [Field ''primary'', Field ''initdb'', Field ''scripts''] (JObj MapK (dc ++ jmap ?vals))
      = Some (JScalar (SStrMap [(''init.sql'', generateInitSQL p)]))"
    using nodeset_values_lits(2)[of p] pc by (simp_all add: look_Field map_add_def del: look.simps)
  have sql: "set (sql_statements i) \<subseteq> set (split_on LF (generateInitSQL p))" if "i < length rs" for i
    using sql_lines[of i p] that n ns(2) by simp
  show ?thesis
  proof (intro exI conjI allI impI)
    show "deployed_values (sn_chart r) = Some v" using v(1) c(4) by simp
    show "tree (hp_cells h') (HRef MapK v) (JObj MapK (dc ++ jmap ?vals)) S" using v(2) n by simp
    show "look [Field ''fullnameOverride''] (JObj MapK (dc ++ jmap ?vals)) = Some (JScalar (SStr ?host))" by (rule l(1))
    show "look [Field ''primary'', Field ''initdb'', Field ''scripts''] (JObj MapK (dc ++ jmap ?vals))
      = Some (JScalar (SStrMap [(''init.sql'', generateInitSQL p)]))" by (rule l(2))
    show "int (length (sn_Nodes r)) = st_Size p" using n ns(2) c(3) by simp
    show "inj set_dbName" by (rule set_dbName_inj)
    show "sn_wait_deps r = sn_Nodes r" using c(3,5) by simp
    fix i
    assume "i < length (sn_Nodes r)"
    then have i: "i < length rs" using c(3) by simp
    then show "map_of (ksec_StringData (nr_secret (sn_Nodes r ! i))) ''secrets.toml''
        = Some (Some (secretsTOML (database_url (set_username i) (set_password i) ?host (set_dbName i))))"
      using n c(3) by simp
    show "{''CREATE USER '' @ set_username i @ '' WITH PASSWORD '' @ QU @ set_password i @ QU @ '';'',
         ''CREATE DATABASE '' @ set_dbName i @ '' OWNER '' @ set_username i @ '';'',
         ''GRANT ALL PRIVILEGES ON DATABASE '' @ set_dbName i @ '' TO '' @ set_username i @ '';''}
        \<subseteq> set (split_on LF (generateInitSQL p))"
      using sql[OF i] unfolding sql_statements_def list.set .
  qed
qed

section \<open>A concrete set\<close>

definition demo_checks :: node_checks where
  "demo_checks = \<lparr>nk_fill = (\<lambda>q. q), nk_Validate = (\<lambda>q. (q, None))\<rparr>"

definition demo_set :: nodeset_props where
  "demo_set = \<lparr>st_Namespace = ''ns'', st_PostgresReleaseName = ''pg'', st_PostgresPassword = [], st_PostgresResources = [],
     st_NodeProps = Some [Some 0, Some 1], st_Size = 2\<rparr>"

lemma demo_checks_keep: "keeps_namespace demo_checks" "keeps_database demo_checks"
  by (simp_all add: keeps_namespace_def keeps_database_def demo_checks_def)

theorem nodeset_validates_once_witness:
  "\<exists>p s. nodeset_Validate (\<lambda>fs. ErrText ''missing'') demo_checks demo_set (\<lambda>_. (demo_node [])\<lparr>np_Namespace := []\<rparr>) = Some ((p, s), None) \<and>
     (\<exists>s' e. nodeset_Validate (\<lambda>fs. ErrText ''missing'') demo_checks p s = Some ((p, s'), Some e))"
proof -
  obtain p s where v: "nodeset_Validate (\<lambda>fs. ErrText ''missing'') demo_checks demo_set (\<lambda>_. (demo_node [])\<lparr>np_Namespace := []\<rparr>)
      = Some ((p, s), None)"
    by (simp add: nodeset_Validate_def nodeset_broken_def nodeset_defaults_def demo_set_def demo_checks_def missing_def node_ptrs_def
        fill_nodes_def)
  from nodeset_validates_once[OF v demo_checks_keep(1)] v show ?thesis by blast
qed

lemma demo_node_url: "\<exists>r. chainlinkNode verr demo_chart_env demo_ref (demo_node (u # url)) h = Some (h, Inr r)"
proof -
  let ?p = "with_default_ports (demo_node (u # url))"
  have "np_DatabaseURL (demo_node (u # url)) = u # url" by (simp add: demo_node_def)
  then have "node_database demo_chart_env demo_ref ?p h = Some (h, Inr (u # url, None))" by (simp add: node_database_def)
  moreover obtain r where "node_objects verr ?p (u # url, None) = Inr r" using demo_node_objects by blast
  ultimately show ?thesis by (simp add: chainlinkNode_def Let_def)
qed

lemma demo_nodes_created:
  "\<exists>rs. create_nodes verr demo_checks demo_chart_env demo_ref host i (map Some as) (\<lambda>_. demo_node []) h = Some (h, Inr rs)"
proof (induction as arbitrary: i)
  case (Cons a as)
  let ?url = "database_url (set_username i) (set_password i) host (set_dbName i)"
  obtain u url where u: "?url = u # url" by (simp add: database_url_def)
  have q: "(demo_node [])\<lparr>np_DatabaseURL := ?url\<rparr> = demo_node (u # url)" by (simp add: demo_node_def u)
  obtain r where "chainlinkNode verr demo_chart_env demo_ref (demo_node (u # url)) h = Some (h, Inr r)" using demo_node_url by blast
  moreover from Cons obtain rs where "create_nodes verr demo_checks demo_chart_env demo_ref host (Suc i) (map Some as) (\<lambda>_. demo_node []) h
      = Some (h, Inr rs)" by blast
  ultimately show ?case by (simp add: q node_Component_def demo_checks_def)
qed simp

theorem nodeset_databases_created_witness:
  "\<exists>h r v. nodeSet (\<lambda>fs. ErrText ''missing'') demo_checks demo_chart_env demo_ref demo_set (\<lambda>_. demo_node []) demo_chart_heap
       = Some (h, Inr r) \<and> deployed_values (sn_chart r) = Some v \<and> length (sn_Nodes r) = 2"
proof -
  let ?verr = "\<lambda>fs. ErrText ''missing''"
  obtain h1 m where m: "new_map demo_chart_heap (nodeset_values demo_set) = (h1, m)"
    by (cases "new_map demo_chart_heap (nodeset_values demo_set)")
  have "\<exists>h2 q c. postgres_Component demo_chart_env demo_ref (ChartPropsOf (chart_props_for ''ns'' ''pg'' m)) h1 = Some (h2, q, Inr c)"
    by (simp add: postgres_Component_def Component_copies chart_props_for_def helmchart_New_def demo_chart_env_def
        err_of_def Let_def)
  then obtain h2 q c where c: "postgres_Component demo_chart_env demo_ref (ChartPropsOf (chart_props_for ''ns'' ''pg'' m)) h1
      = Some (h2, q, Inr c)" by blast
  have ptrs: "node_ptrs demo_set = map Some [0, 1]" by (simp add: node_ptrs_def demo_set_def)
  from demo_nodes_created[of ?verr "''pg''" 0 "[0, 1]" h2] obtain rs where
    "create_nodes ?verr demo_checks demo_chart_env demo_ref ''pg'' 0 (node_ptrs demo_set) (\<lambda>_. demo_node []) h2 = Some (h2, Inr rs)"
    unfolding ptrs by blast
  with c m have "\<exists>h r. nodeSet ?verr demo_checks demo_chart_env demo_ref demo_set (\<lambda>_. demo_node []) demo_chart_heap = Some (h, Inr r)"
    by (simp add: nodeSet_def demo_set_def)
  then obtain h r where set: "nodeSet ?verr demo_checks demo_chart_env demo_ref demo_set (\<lambda>_. demo_node []) demo_chart_heap = Some (h, Inr r)"
    by blast
  have d: "entries demo_chart_heap (cr_Values demo_ref) [Field ''image'' \<mapsto> demo_image] demo_sets"
    using demo_defaults by (simp add: demo_ref_def)
  have s: "''secrets.toml'' \<notin> fst ` set (np_SecretsOverrides (demo_node []))" by (simp add: demo_node_def)
  have n: "st_Namespace demo_set \<noteq> []" "int (length (node_ptrs demo_set)) = st_Size demo_set"
    by (simp_all add: ptrs) (simp_all add: demo_set_def)
  from nodeset_databases_created[OF set demo_checks_keep(2) d n] s obtain v where
    "deployed_values (sn_chart r) = Some v" "int (length (sn_Nodes r)) = st_Size demo_set" by blast
  moreover from this(2) have "length (sn_Nodes r) = 2" by (simp add: demo_set_def)
  ultimately show ?thesis using set by blast
qed

end
