(* ===== verification/HelmRetry.thy ===== *)
theory HelmRetry
  imports Helm
begin

text \<open>
  The decorators of the Helm client, internal/adapter/helm/helm_timeout_gen.go and helm_retry_gen.go, and the
  client that \<open>NewClient\<close> of internal/adapter/helm/helm.go builds with them: every operation is given a
  deadline of its own, and is tried again after a tick while it fails and the context of the caller lives.
\<close>

section \<open>Contexts and clocks\<close>

text \<open>
  A context has a deadline or none.  The clock is the environment's: the present, and what the wait of the retry
  loop sees first, the tick (\<open>True\<close>) or the end of the context (\<open>False\<close>).
\<close>

record go_context =
  cx_deadline :: "int option"

record 'w go_clock =
  ck_now :: "'w \<Rightarrow> int"
  ck_wait :: "go_context \<Rightarrow> 'w \<Rightarrow> 'w \<times> bool"

definition WithTimeout :: "'w go_clock \<Rightarrow> go_context \<Rightarrow> int \<Rightarrow> 'w \<Rightarrow> go_context" where
  "WithTimeout ck ctx d w =
     ctx\<lparr>cx_deadline := Some (case cx_deadline ctx of None \<Rightarrow> ck_now ck w + d | Some t \<Rightarrow> min t (ck_now ck w + d))\<rparr>"

section \<open>The interface of the client\<close>

text \<open>An operation gives the error or the result; \<open>None\<close> is a panic.\<close>

record 'w helm_client =
  hc_AddRepo :: "go_context \<Rightarrow> release \<Rightarrow> 'w \<Rightarrow> ('w \<times> goerr option) option"
  hc_CurrentVersion :: "go_context \<Rightarrow> release \<Rightarrow> 'w \<Rightarrow> ('w \<times> (goerr + chart_version)) option"
  hc_LatestVersion :: "go_context \<Rightarrow> release \<Rightarrow> 'w \<Rightarrow> ('w \<times> (goerr + chart_version)) option"
  hc_ListVersions :: "go_context \<Rightarrow> release \<Rightarrow> 'w \<Rightarrow> ('w \<times> (goerr + chart_version list)) option"
  hc_PullRepo :: "go_context \<Rightarrow> release \<Rightarrow> 'w \<Rightarrow> ('w \<times> (goerr + handler)) option"
  hc_TemplateRepo :: "go_context \<Rightarrow> release \<Rightarrow> handler \<Rightarrow> 'w \<Rightarrow> ('w \<times> (goerr + string)) option"
  hc_UpdateRepo :: "go_context \<Rightarrow> release \<Rightarrow> 'w \<Rightarrow> ('w \<times> goerr option) option"
  hc_VendorRepo :: "go_context \<Rightarrow> release \<Rightarrow> 'w \<Rightarrow> ('w \<times> (goerr + handler)) option"

section \<open>Timeouts\<close>

record timeout_config =
  tc_AddRepo :: int
  tc_CurrentVersion :: int
  tc_LatestVersion :: int
  tc_ListVersions :: int
  tc_PullRepo :: int
  tc_TemplateRepo :: int
  tc_UpdateRepo :: int
  tc_VendorRepo :: int

definition limited :: "'w go_clock \<Rightarrow> int \<Rightarrow> go_context \<Rightarrow> 'w \<Rightarrow> go_context" where
  "limited ck d ctx w = (if 0 < d then WithTimeout ck ctx d w else ctx)"

definition timeout_AddRepo :: "'w go_clock \<Rightarrow> timeout_config \<Rightarrow> 'w helm_client \<Rightarrow> go_context \<Rightarrow> release \<Rightarrow> 'w \<Rightarrow> ('w \<times> goerr option) option" where
  "timeout_AddRepo ck cfg base ctx r w = hc_AddRepo base (limited ck (tc_AddRepo cfg) ctx w) r w"

definition timeout_CurrentVersion :: "'w go_clock \<Rightarrow> timeout_config \<Rightarrow> 'w helm_client \<Rightarrow> go_context \<Rightarrow> release \<Rightarrow> 'w \<Rightarrow> ('w \<times> (goerr + chart_version)) option" where
  "timeout_CurrentVersion ck cfg base ctx r w = hc_CurrentVersion base (limited ck (tc_CurrentVersion cfg) ctx w) r w"

definition timeout_LatestVersion :: "'w go_clock \<Rightarrow> timeout_config \<Rightarrow> 'w helm_client \<Rightarrow> go_context \<Rightarrow> release \<Rightarrow> 'w \<Rightarrow> ('w \<times> (goerr + chart_version)) option" where
  "timeout_LatestVersion ck cfg base ctx r w = hc_LatestVersion base (limited ck (tc_LatestVersion cfg) ctx w) r w"

definition timeout_ListVersions :: "'w go_clock \<Rightarrow> timeout_config \<Rightarrow> 'w helm_client \<Rightarrow> go_context \<Rightarrow> release \<Rightarrow> 'w \<Rightarrow> ('w \<times> (goerr + chart_version list)) option" where
  "timeout_ListVersions ck cfg base ctx r w = hc_ListVersions base (limited ck (tc_ListVersions cfg) ctx w) r w"

definition timeout_PullRepo :: "'w go_clock \<Rightarrow> timeout_config \<Rightarrow> 'w helm_client \<Rightarrow> go_context \<Rightarrow> release \<Rightarrow> 'w \<Rightarrow> ('w \<times> (goerr + handler)) option" where
  "timeout_PullRepo ck cfg base ctx r w = hc_PullRepo base (limited ck (tc_PullRepo cfg) ctx w) r w"

definition timeout_TemplateRepo :: "'w go_clock \<Rightarrow> timeout_config \<Rightarrow> 'w helm_client \<Rightarrow> go_context \<Rightarrow> release \<Rightarrow> handler \<Rightarrow> 'w \<Rightarrow> ('w \<times> (goerr + string)) option" where
  "timeout_TemplateRepo ck cfg base ctx r reader w = hc_TemplateRepo base (limited ck (tc_TemplateRepo cfg) ctx w) r reader w"

definition timeout_UpdateRepo :: "'w go_clock \<Rightarrow> timeout_config \<Rightarrow> 'w helm_client \<Rightarrow> go_context \<Rightarrow> release \<Rightarrow> 'w \<Rightarrow> ('w \<times> goerr option) option" where
  "timeout_UpdateRepo ck cfg base ctx r w = hc_UpdateRepo base (limited ck (tc_UpdateRepo cfg) ctx w) r w"

definition timeout_VendorRepo :: "'w go_clock \<Rightarrow> timeout_config \<Rightarrow> 'w helm_client \<Rightarrow> go_context \<Rightarrow> release \<Rightarrow> 'w \<Rightarrow> ('w \<times> (goerr + handler)) option" where
  "timeout_VendorRepo ck cfg base ctx r w = hc_VendorRepo base (limited ck (tc_VendorRepo cfg) ctx w) r w"

definition NewHelmClientWithTimeout :: "'w go_clock \<Rightarrow> 'w helm_client \<Rightarrow> timeout_config \<Rightarrow> 'w helm_client" where
  "NewHelmClientWithTimeout ck base cfg =
     \<lparr>hc_AddRepo = timeout_AddRepo ck cfg base,
       hc_CurrentVersion = timeout_CurrentVersion ck cfg base,
       hc_LatestVersion = timeout_LatestVersion ck cfg base,
       hc_ListVersions = timeout_ListVersions ck cfg base,
       hc_PullRepo = timeout_PullRepo ck cfg base,
       hc_TemplateRepo = timeout_TemplateRepo ck cfg base,
       hc_UpdateRepo = timeout_UpdateRepo ck cfg base,
       hc_VendorRepo = timeout_VendorRepo ck cfg base\<rparr>"

section \<open>Retries\<close>

text \<open>
  The loop, with the number of retries that are left; the ticker panics on an interval that is not positive.
\<close>

fun retry_loop :: "('w \<Rightarrow> 'w \<times> bool) \<Rightarrow> ('w \<Rightarrow> ('w \<times> 'r) option) \<Rightarrow> ('r \<Rightarrow> bool) \<Rightarrow> nat \<Rightarrow> 'w \<Rightarrow> 'r \<Rightarrow> ('w \<times> 'r) option" where
  "retry_loop wait op failed 0 w r = Some (w, r)"
| "retry_loop wait op failed (Suc n) w r =
     (if \<not> failed r then Some (w, r)
      else
        (case wait w of
           (w1, False) \<Rightarrow> Some (w1, r)
         | (w1, True) \<Rightarrow> (case op w1 of None \<Rightarrow> None | Some (w2, r2) \<Rightarrow> retry_loop wait op failed n w2 r2)))"

definition retrying ::
    "int \<Rightarrow> int \<Rightarrow> ('w \<Rightarrow> 'w \<times> bool) \<Rightarrow> ('r \<Rightarrow> bool) \<Rightarrow> ('w \<Rightarrow> ('w \<times> 'r) option) \<Rightarrow> 'w \<Rightarrow> ('w \<times> 'r) option" where
  "retrying retryCount interval wait failed op w =
     (case op w of
        None \<Rightarrow> None
      | Some (w1, r) \<Rightarrow>
          if \<not> failed r \<or> retryCount < 1 then Some (w1, r)
          else if interval \<le> 0 then None
          else retry_loop wait op failed (nat retryCount) w1 r)"

text \<open>The two kinds of results: an error or nil, and an error or a value.\<close>

definition some_err :: "goerr option \<Rightarrow> bool" where "some_err e \<longleftrightarrow> e \<noteq> None"

definition retry_AddRepo :: "'w go_clock \<Rightarrow> int \<Rightarrow> int \<Rightarrow> 'w helm_client \<Rightarrow> go_context \<Rightarrow> release \<Rightarrow> 'w \<Rightarrow> ('w \<times> goerr option) option" where
  "retry_AddRepo ck retryCount interval base ctx r = retrying retryCount interval (ck_wait ck ctx) some_err (hc_AddRepo base ctx r)"

definition retry_CurrentVersion :: "'w go_clock \<Rightarrow> int \<Rightarrow> int \<Rightarrow> 'w helm_client \<Rightarrow> go_context \<Rightarrow> release \<Rightarrow> 'w \<Rightarrow> ('w \<times> (goerr + chart_version)) option" where
  "retry_CurrentVersion ck retryCount interval base ctx r = retrying retryCount interval (ck_wait ck ctx) is_err (hc_CurrentVersion base ctx r)"

definition retry_LatestVersion :: "'w go_clock \<Rightarrow> int \<Rightarrow> int \<Rightarrow> 'w helm_client \<Rightarrow> go_context \<Rightarrow> release \<Rightarrow> 'w \<Rightarrow> ('w \<times> (goerr + chart_version)) option" where
  "retry_LatestVersion ck retryCount interval base ctx r = retrying retryCount interval (ck_wait ck ctx) is_err (hc_LatestVersion base ctx r)"

definition retry_ListVersions :: "'w go_clock \<Rightarrow> int \<Rightarrow> int \<Rightarrow> 'w helm_client \<Rightarrow> go_context \<Rightarrow> release \<Rightarrow> 'w \<Rightarrow> ('w \<times> (goerr + chart_version list)) option" where
  "retry_ListVersions ck retryCount interval base ctx r = retrying retryCount interval (ck_wait ck ctx) is_err (hc_ListVersions base ctx r)"

definition retry_PullRepo :: "'w go_clock \<Rightarrow> int \<Rightarrow> int \<Rightarrow> 'w helm_client \<Rightarrow> go_context \<Rightarrow> release \<Rightarrow> 'w \<Rightarrow> ('w \<times> (goerr + handler)) option" where
  "retry_PullRepo ck retryCount interval base ctx r = retrying retryCount interval (ck_wait ck ctx) is_err (hc_PullRepo base ctx r)"

definition retry_TemplateRepo :: "'w go_clock \<Rightarrow> int \<Rightarrow> int \<Rightarrow> 'w helm_client \<Rightarrow> go_context \<Rightarrow> release \<Rightarrow> handler \<Rightarrow> 'w \<Rightarrow> ('w \<times> (goerr + string)) option" where
  "retry_TemplateRepo ck retryCount interval base ctx r reader = retrying retryCount interval (ck_wait ck ctx) is_err (hc_TemplateRepo base ctx r reader)"

definition retry_UpdateRepo :: "'w go_clock \<Rightarrow> int \<Rightarrow> int \<Rightarrow> 'w helm_client \<Rightarrow> go_context \<Rightarrow> release \<Rightarrow> 'w \<Rightarrow> ('w \<times> goerr option) option" where
  "retry_UpdateRepo ck retryCount interval base ctx r = retrying retryCount interval (ck_wait ck ctx) some_err (hc_UpdateRepo base ctx r)"

definition retry_VendorRepo :: "'w go_clock \<Rightarrow> int \<Rightarrow> int \<Rightarrow> 'w helm_client \<Rightarrow> go_context \<Rightarrow> release \<Rightarrow> 'w \<Rightarrow> ('w \<times> (goerr + handler)) option" where
  "retry_VendorRepo ck retryCount interval base ctx r = retrying retryCount interval (ck_wait ck ctx) is_err (hc_VendorRepo base ctx r)"

definition NewHelmClientWithRetry :: "'w go_clock \<Rightarrow> 'w helm_client \<Rightarrow> int \<Rightarrow> int \<Rightarrow> 'w helm_client" where
  "NewHelmClientWithRetry ck base retryCount interval =
     \<lparr>hc_AddRepo = retry_AddRepo ck retryCount interval base,
       hc_CurrentVersion = retry_CurrentVersion ck retryCount interval base,
       hc_LatestVersion = retry_LatestVersion ck retryCount interval base,
       hc_ListVersions = retry_ListVersions ck retryCount interval base,
       hc_PullRepo = retry_PullRepo ck retryCount interval base,
       hc_TemplateRepo = retry_TemplateRepo ck retryCount interval base,
       hc_UpdateRepo = retry_UpdateRepo ck retryCount interval base,
       hc_VendorRepo = retry_VendorRepo ck retryCount interval base\<rparr>"

section \<open>The client\<close>

text \<open>
  The client of \<open>Helm\<close> behind the interface; its commands run in an environment that depends on the context.
\<close>

definition base_client :: "(go_context \<Rightarrow> 'k helm_env) \<Rightarrow> runner \<Rightarrow> 'k world helm_client" where
  "base_client env c =
     \<lparr>hc_AddRepo = (\<lambda>ctx r w. case AddRepo (env ctx) c r w of (e, w') \<Rightarrow> Some (w', e)),
       hc_CurrentVersion = (\<lambda>ctx r w. Some (CurrentVersion (env ctx) c r w)),
       hc_LatestVersion = (\<lambda>ctx r w. Some (LatestVersion (env ctx) c r w)),
       hc_ListVersions = (\<lambda>ctx r w. Some (ListVersions (env ctx) c r w)),
       hc_PullRepo = (\<lambda>ctx. PullRepo (env ctx) c),
       hc_TemplateRepo = (\<lambda>ctx. TemplateRepo (env ctx) c),
       hc_UpdateRepo = (\<lambda>ctx r w. case UpdateRepo (env ctx) c r w of (e, w') \<Rightarrow> Some (w', e)),
       hc_VendorRepo = (\<lambda>ctx. VendorRepo (env ctx) c)\<rparr>"

definition second :: int where "second = 1000000000"

definition client_timeouts :: timeout_config where
  "client_timeouts =
     \<lparr>tc_AddRepo = second * 30, tc_CurrentVersion = second * 30, tc_LatestVersion = second * 30,
       tc_ListVersions = second * 30, tc_PullRepo = second * 30, tc_TemplateRepo = 0, tc_UpdateRepo = second * 30,
       tc_VendorRepo = second * 90\<rparr>"

definition NewClient ::
    "'k world go_clock \<Rightarrow> (go_context \<Rightarrow> 'k helm_env) \<Rightarrow> runner_env \<Rightarrow> goerr + 'k world helm_client" where
  "NewClient ck env renv =
     (case NewHelmRunner renv of
        Inl e \<Rightarrow> Inl e
      | Inr c \<Rightarrow> Inr (NewHelmClientWithRetry ck (NewHelmClientWithTimeout ck (base_client env c) client_timeouts) 5 (second * 5)))"

section \<open>The attempts of an operation\<close>

text \<open>
  The specification of the retries: the results of the attempts, oldest first, and the world after the last; a
  further attempt needs a failure and a tick.
\<close>

inductive tries ::
    "('w \<Rightarrow> 'w \<times> bool) \<Rightarrow> ('r \<Rightarrow> bool) \<Rightarrow> ('w \<Rightarrow> ('w \<times> 'r) option) \<Rightarrow> 'w \<Rightarrow> 'r list \<Rightarrow> 'w \<Rightarrow> bool"
  for wait failed op w where
  first: "op w = Some (w1, r) \<Longrightarrow> tries wait failed op w [r] w1"
| again: "tries wait failed op w rs w1 \<Longrightarrow> failed (last rs) \<Longrightarrow> wait w1 = (w2, True) \<Longrightarrow> op w2 = Some (w3, r)
    \<Longrightarrow> tries wait failed op w (rs @ [r]) w3"

lemma tries_not_Nil: "tries wait failed op w rs w1 \<Longrightarrow> rs \<noteq> []"
  by (induction rule: tries.induct) auto

lemma tries_failed: "tries wait failed op w rs w1 \<Longrightarrow> list_all failed (butlast rs)"
proof (induction rule: tries.induct)
  case (again rs w1 w2 w3 r)
  then have "list_all failed (butlast rs @ [last rs])" by simp
  moreover have "butlast rs @ [last rs] = rs" using tries_not_Nil[OF again.hyps(1)] by simp
  ultimately show ?case by (simp only: butlast_snoc)
qed simp

lemma retry_loop_stops [simp]: "\<not> failed r \<Longrightarrow> retry_loop wait op failed n w r = Some (w, r)"
  by (cases n) simp_all

lemma tries_retrying:
  assumes "tries wait failed op w rs w1" "length rs \<le> Suc (nat n)" "0 < i"
  shows "retrying n i wait failed op w = retry_loop wait op failed (Suc (nat n) - length rs) w1 (last rs)"
  using assms(1,2)
proof (induction rule: tries.induct)
  case (first w1 r)
  with assms(3) show ?case by (auto simp: retrying_def)
next
  case (again rs w1 w2 w3 r)
  then have "Suc (nat n) - length rs = Suc (nat n - length rs)" by simp
  with again show ?case by simp
qed

text \<open>How a run of attempts ends.\<close>

definition tries_end ::
    "('w \<Rightarrow> 'w \<times> bool) \<Rightarrow> ('r \<Rightarrow> bool) \<Rightarrow> nat \<Rightarrow> 'r list \<Rightarrow> 'w \<Rightarrow> 'w \<Rightarrow> bool" where
  "tries_end wait failed m rs w1 w' \<longleftrightarrow>
     (length rs \<le> m \<and> \<not> failed (last rs) \<and> w' = w1) \<or> (length rs = m \<and> w' = w1) \<or>
     (length rs < m \<and> failed (last rs) \<and> wait w1 = (w', False))"

lemma retry_loop_tries:
  assumes "retry_loop wait op failed n w1 (last rs) = Some (w', r)" "tries wait failed op w rs w1"
  shows "\<exists>rs' w2. tries wait failed op w rs' w2 \<and> r = last rs' \<and> tries_end wait failed (length rs + n) rs' w2 w'"
  using assms
proof (induction n arbitrary: rs w1)
  case (Suc n)
  show ?case
  proof (cases "failed (last rs)")
    case failed: True
    obtain w2 b where w2: "wait w1 = (w2, b)" by (cases "wait w1")
    show ?thesis
    proof (cases b)
      case True
      with Suc.prems(1) failed w2 obtain w3 r2 where o: "op w2 = Some (w3, r2)"
        "retry_loop wait op failed n w3 (last (rs @ [r2])) = Some (w', r)" by (auto split: option.splits)
      have "tries wait failed op w (rs @ [r2]) w3" 
        by (rule tries.again[OF Suc.prems(2) failed _ o(1)]) (use w2 True in simp)
      from Suc.IH[OF o(2) this] show ?thesis by simp
    next
      case False
      with Suc.prems failed w2 show ?thesis by (intro exI[of _ rs] exI[of _ w1]) (simp add: tries_end_def)
    qed
  next
    case False
    with Suc.prems show ?thesis by (intro exI[of _ rs] exI[of _ w1]) (simp add: tries_end_def)
  qed
qed (auto simp: tries_end_def)

text \<open>
  C40. Retrying an operation returns exactly what its attempts give: attempts follow each other while they fail and
  the ticker, not the end of the context, wakes the loop; the result is that of the last attempt, which
  succeeded, or was the last one allowed, or was followed by the end of the context.
\<close>
theorem retrying_spec:
  assumes "0 < i"
  shows "retrying n i wait failed op w = Some (w', r) \<longleftrightarrow>
    (\<exists>rs w1. tries wait failed op w rs w1 \<and> list_all failed (butlast rs) \<and> r = last rs
       \<and> tries_end wait failed (Suc (nat n)) rs w1 w')"
proof
  assume r: "retrying n i wait failed op w = Some (w', r)"
  then obtain w1 r1 where o: "op w = Some (w1, r1)" by (auto simp: retrying_def split: option.splits)
  then have t: "tries wait failed op w [r1] w1" by (rule tries.first)
  from r tries_retrying[OF t _ assms, of n] have "retry_loop wait op failed (nat n) w1 (last [r1]) = Some (w', r)" by simp
  from retry_loop_tries[OF this t] show "\<exists>rs w1. tries wait failed op w rs w1 \<and> list_all failed (butlast rs) \<and> r = last rs
       \<and> tries_end wait failed (Suc (nat n)) rs w1 w'" by (auto dest: tries_failed)
next
  assume "\<exists>rs w1. tries wait failed op w rs w1 \<and> list_all failed (butlast rs) \<and> r = last rs
       \<and> tries_end wait failed (Suc (nat n)) rs w1 w'"
  then obtain rs w1 where t: "tries wait failed op w rs w1" "r = last rs" "tries_end wait failed (Suc (nat n)) rs w1 w'" by blast
  then have l: "length rs \<le> Suc (nat n)" by (auto simp: tries_end_def)
  have "retry_loop wait op failed (Suc (nat n) - length rs) w1 (last rs) = Some (w', r)"
  proof (cases "Suc (nat n) - length rs")
    case 0
    with t(2,3) l show ?thesis by (auto simp: tries_end_def)
  next
    case (Suc m)
    with t(2,3) show ?thesis by (auto simp: tries_end_def)
  qed
  with tries_retrying[OF t(1) l assms] show "retrying n i wait failed op w = Some (w', r)" by simp
qed

theorem retrying_spec_witness:
  "\<exists>rs w1. tries (\<lambda>w. (w, True)) some_err (\<lambda>w. Some (w + 1, if w < 2 then Some (ErrText ''x'') else None)) (0::nat) rs w1
     \<and> list_all some_err (butlast rs) \<and> None = last rs
     \<and> tries_end (\<lambda>w. (w, True)) some_err (Suc (nat 5)) rs w1 (3::nat)"
proof -
  have "retrying 5 1 (\<lambda>w. (w, True)) some_err (\<lambda>w. Some (w + 1, if w < 2 then Some (ErrText ''x'') else None)) (0::nat)
      = Some (3, None)"
    by (simp add: retrying_def some_err_def eval_nat_numeral)
  then show ?thesis by (subst (asm) retrying_spec) simp_all
qed

section \<open>How long an operation takes\<close>

lemma tries_time:
  fixes now :: "'w \<Rightarrow> int"
  assumes "tries wait failed op w rs w1"
    and op: "\<And>w w' r. op w = Some (w', r) \<Longrightarrow> now w' \<le> now w + d"
    and wait: "\<And>w w' b. wait w = (w', b) \<Longrightarrow> now w' \<le> now w + i"
  shows "now w1 \<le> now w + int (length rs) * d + int (length rs - 1) * i"
  using assms(1)
proof (induction rule: tries.induct)
  case (again rs w1 w2 w3 r)
  have "0 < length rs" using tries_not_Nil[OF again.hyps(1)] by simp
  then have "int (length (rs @ [r]) - 1) = int (length rs - 1) + 1" by (simp add: of_nat_diff Suc_leI)
  moreover have "int (length (rs @ [r])) = int (length rs) + 1" by simp
  ultimately have "int (length (rs @ [r])) * d + int (length (rs @ [r]) - 1) * i
      = int (length rs) * d + int (length rs - 1) * i + d + i" by (simp only: distrib_right)
  with again.IH wait[OF again.hyps(3)] op[OF again.hyps(4)] show ?case by simp
qed (use op in simp)

lemma retrying_time:
  fixes now :: "'w \<Rightarrow> int"
  assumes r: "retrying n i wait failed op w = Some (w', r)" and i: "0 < i" and d: "0 \<le> d"
    and op: "\<And>w w' r. op w = Some (w', r) \<Longrightarrow> now w' \<le> now w + d"
    and wait: "\<And>w w' b. wait w = (w', b) \<Longrightarrow> now w' \<le> now w + i"
  shows "now w' \<le> now w + (1 + int (nat n)) * d + int (nat n) * i"
proof -
  obtain rs w1 where t: "tries wait failed op w rs w1" "tries_end wait failed (Suc (nat n)) rs w1 w'"
  proof -
    from r obtain v q where o: "op w = Some (v, q)" by (auto simp: retrying_def split: option.splits)
    then have f: "tries wait failed op w [q] v" by (rule tries.first)
    from r tries_retrying[OF f _ i, of n] have "retry_loop wait op failed (nat n) v (last [q]) = Some (w', r)" by simp
    from retry_loop_tries[OF this f] show thesis using that by auto
  qed
  have ne: "rs \<noteq> []" using tries_not_Nil[OF t(1)] .
  have "now w' \<le> now w + int (length rs) * d + int (nat n) * i"
  proof (cases "w' = w1")
    case True
    have "length rs \<le> Suc (nat n)" using t(2) by (auto simp: tries_end_def)
    then have "int (length rs - 1) * i \<le> int (nat n) * i" using i by (intro mult_right_mono) auto
    with True tries_time[OF t(1) op wait] show ?thesis by fastforce
  next
    case False
    then have e: "length rs < Suc (nat n)" "wait w1 = (w', False)" using t(2) by (auto simp: tries_end_def)
    have "int (length rs - 1) * i + i = int (length rs) * i" using ne by (cases rs) (simp_all add: algebra_simps)
    moreover have "int (length rs) * i \<le> int (nat n) * i" using e(1) i by (intro mult_right_mono) auto
    ultimately show ?thesis using tries_time[OF t(1) op wait] wait[OF e(2)] by fastforce
  qed
  moreover have "int (length rs) * d \<le> (1 + int (nat n)) * d"
    using t(2) d by (intro mult_right_mono) (auto simp: tries_end_def)
  ultimately show ?thesis by linarith
qed

text \<open>
  What the deadline of a context is worth: a command of Helm is killed at its deadline, so that an operation of
  the base client ends then at the latest, if it has not before.
\<close>

definition keeps_deadline :: "('w \<Rightarrow> int) \<Rightarrow> (go_context \<Rightarrow> 'w \<Rightarrow> ('w \<times> 'r) option) \<Rightarrow> bool" where
  "keeps_deadline now op \<longleftrightarrow>
     (\<forall>ctx w w' r t. op ctx w = Some (w', r) \<longrightarrow> cx_deadline ctx = Some t \<longrightarrow> now w' \<le> max (now w) t)"

lemma limited_op_time:
  assumes "keeps_deadline (ck_now ck) op" "op (limited ck d ctx w) w = Some (w', r)" "0 < d"
  shows "ck_now ck w' \<le> ck_now ck w + d"
proof -
  obtain t where t: "cx_deadline (limited ck d ctx w) = Some t" "t \<le> ck_now ck w + d"
    using assms(3) by (simp add: limited_def WithTimeout_def split: option.split)
  with assms(1,2) have "ck_now ck w' \<le> max (ck_now ck w) t" unfolding keeps_deadline_def by blast
  with t(2) assms(3) show ?thesis by simp
qed

text \<open>The ticker wakes the loop after one interval at the latest.\<close>

definition ticks :: "'w go_clock \<Rightarrow> int \<Rightarrow> go_context \<Rightarrow> bool" where
  "ticks ck i ctx \<longleftrightarrow> (\<forall>w w' b. ck_wait ck ctx w = (w', b) \<longrightarrow> ck_now ck w' \<le> ck_now ck w + i)"

lemma limited_retrying_time:
  assumes k: "keeps_deadline (ck_now ck) op" and d: "0 < d" "0 < i" and t: "ticks ck i ctx"
    and r: "retrying n i (ck_wait ck ctx) failed (\<lambda>w. op (limited ck d ctx w) w) w = Some (w', r)"
  shows "ck_now ck w' \<le> ck_now ck w + (1 + int (nat n)) * d + int (nat n) * i"
proof (rule retrying_time[OF r d(2)])
  show "ck_now ck w' \<le> ck_now ck w + d" if "op (limited ck d ctx w) w = Some (w', r)" for w w' r
    using limited_op_time[OF k that d(1)] .
  show "ck_now ck w' \<le> ck_now ck w + i" if "ck_wait ck ctx w = (w', b)" for w w' b
    using t that by (simp add: ticks_def)
qed (use d in simp)

lemma NewClient_ops:
  assumes "NewHelmRunner renv = Inr c" "NewClient ck env renv = Inr cl"
  shows "hc_AddRepo cl ctx r = retrying 5 (second * 5) (ck_wait ck ctx) some_err
      (\<lambda>w. hc_AddRepo (base_client env c) (limited ck (second * 30) ctx w) r w)"
    "hc_VendorRepo cl ctx r = retrying 5 (second * 5) (ck_wait ck ctx) is_err
      (\<lambda>w. hc_VendorRepo (base_client env c) (limited ck (second * 90) ctx w) r w)"
proof -
  have cl: "cl = NewHelmClientWithRetry ck (NewHelmClientWithTimeout ck (base_client env c) client_timeouts) 5 (second * 5)"
    using assms by (simp add: NewClient_def)
  show "hc_AddRepo cl ctx r = retrying 5 (second * 5) (ck_wait ck ctx) some_err
      (\<lambda>w. hc_AddRepo (base_client env c) (limited ck (second * 30) ctx w) r w)"
    "hc_VendorRepo cl ctx r = retrying 5 (second * 5) (ck_wait ck ctx) is_err
      (\<lambda>w. hc_VendorRepo (base_client env c) (limited ck (second * 90) ctx w) r w)"
    by (simp_all add: cl NewHelmClientWithRetry_def NewHelmClientWithTimeout_def client_timeouts_def fun_eq_iff
        retry_AddRepo_def timeout_AddRepo_def[abs_def] retry_VendorRepo_def timeout_VendorRepo_def[abs_def])
qed

text \<open>
  C19. The client answers in bounded time, whatever Helm does: when a command ends by its deadline and the ticker
  ticks every five seconds, adding a repository returns within 205 seconds and vendoring a chart within 565, with
  all retries, and also when the caller's context has no deadline.
\<close>
theorem client_bounded:
  assumes c: "NewHelmRunner renv = Inr c" and new: "NewClient ck env renv = Inr cl"
    and wait: "ticks ck (second * 5) ctx"
    and add: "keeps_deadline (ck_now ck) (\<lambda>ctx. hc_AddRepo (base_client env c) ctx r)"
    and vendor: "keeps_deadline (ck_now ck) (\<lambda>ctx. hc_VendorRepo (base_client env c) ctx r)"
  shows "(\<forall>w w' e. hc_AddRepo cl ctx r w = Some (w', e) \<longrightarrow> ck_now ck w' \<le> ck_now ck w + 205 * second) \<and>
    (\<forall>w w' res. hc_VendorRepo cl ctx r w = Some (w', res) \<longrightarrow> ck_now ck w' \<le> ck_now ck w + 565 * second)"
proof (intro conjI allI impI)
  have s: "0 < second * 5" "0 < second * 30" "0 < second * 90" by (simp_all add: second_def)
  note ops = NewClient_ops[OF c new]
  fix w w'
  show "ck_now ck w' \<le> ck_now ck w + 205 * second" if "hc_AddRepo cl ctx r w = Some (w', e)" for e
    using limited_retrying_time[OF add s(2,1) wait that[unfolded ops]] by simp
  show "ck_now ck w' \<le> ck_now ck w + 565 * second" if "hc_VendorRepo cl ctx r w = Some (w', res)" for res
    using limited_retrying_time[OF vendor s(3,1) wait that[unfolded ops]] by simp
qed

section \<open>Success after failures\<close>

text \<open>The world at the start of each attempt, when the loop goes on.\<close>

fun at_attempt :: "('w \<Rightarrow> 'w \<times> bool) \<Rightarrow> ('w \<Rightarrow> ('w \<times> 'r) option) \<Rightarrow> nat \<Rightarrow> 'w \<Rightarrow> 'w" where
  "at_attempt wait op 0 w = w"
| "at_attempt wait op (Suc k) w = (case op w of None \<Rightarrow> w | Some (w1, r) \<Rightarrow> at_attempt wait op k (fst (wait w1)))"

lemma retry_loop_succeeds:
  assumes "k \<le> n" "\<forall>w. snd (wait w)" "\<forall>w. op w \<noteq> None" "\<not> failed (snd (the (op (at_attempt wait op k (fst (wait w))))))"
  shows "\<exists>w' r'. retry_loop wait op failed (Suc n) w r = Some (w', r') \<and> \<not> failed r'"
  using assms(1,4)
proof (induction k arbitrary: n w r)
  case 0
  obtain w1 where w1: "wait w = (w1, True)" using assms(2) by (metis prod.collapse)
  obtain w2 r2 where "op w1 = Some (w2, r2)" using assms(3) by (metis option.exhaust prod.collapse)
  with 0 w1 show ?case by simp
next
  case (Suc k)
  then obtain m where n: "n = Suc m" "k \<le> m" by (cases n) auto
  obtain w1 where w1: "wait w = (w1, True)" using assms(2) by (metis prod.collapse)
  obtain w2 r2 where o: "op w1 = Some (w2, r2)" using assms(3) by (metis option.exhaust prod.collapse)
  have "\<not> failed (snd (the (op (at_attempt wait op k (fst (wait w2))))))" using Suc.prems(2) w1 o by simp
  from Suc.IH[OF n(2) this, of r2] have IH: "\<exists>w' r'. retry_loop wait op failed (Suc m) w2 r2 = Some (w', r') \<and> \<not> failed r'" .
  show ?case
  proof (cases "failed r")
    case True
    have "retry_loop wait op failed (Suc n) w r = retry_loop wait op failed (Suc m) w2 r2"
      using w1 o n(1) True by (simp del: retry_loop.simps(2) add: retry_loop.simps(2)[of _ _ _ "Suc m" w r])
    with IH show ?thesis by simp
  qed simp
qed

text \<open>
  C20. A repository is added in the end: when the context of the caller lives and one of the six attempts the client
  makes would succeed, the client reports success, not the error of an earlier attempt.
\<close>
theorem client_perseveres:
  assumes c: "NewHelmRunner renv = Inr c" and new: "NewClient ck env renv = Inr cl"
    and live: "\<forall>w. snd (ck_wait ck ctx w)"
    and a: "attempt = (\<lambda>w. hc_AddRepo (base_client env c) (limited ck (second * 30) ctx w) r w)"
    and k: "k \<le> 5" "snd (the (attempt (at_attempt (ck_wait ck ctx) attempt k w))) = None"
  shows "\<exists>w'. hc_AddRepo cl ctx r w = Some (w', None)"
proof -
  have cl: "hc_AddRepo cl ctx r w = retrying 5 (second * 5) (ck_wait ck ctx) some_err attempt w"
    by (simp add: NewClient_ops[OF c new] a)
  have tot: "\<forall>w. attempt w \<noteq> None" by (simp add: a base_client_def split: prod.split)
  obtain w1 q where o: "attempt w = Some (w1, q)" using tot by (metis option.exhaust prod.collapse)
  have "\<exists>w' r'. hc_AddRepo cl ctx r w = Some (w', r') \<and> \<not> some_err r'"
  proof (cases k)
    case 0
    with k(2) o show ?thesis by (simp add: cl retrying_def some_err_def)
  next
    case (Suc j)
    have ok: "\<not> some_err (snd (the (attempt (at_attempt (ck_wait ck ctx) attempt j (fst (ck_wait ck ctx w1))))))"
      using k(2) o Suc by (simp add: some_err_def)
    have "j \<le> 4" using k(1) Suc by simp
    from retry_loop_succeeds[where failed = some_err and op = attempt and wait = "ck_wait ck ctx" and k = j and n = 4 and w = w1,
        OF this live tot ok, of q] obtain w' r' where l: "retry_loop (ck_wait ck ctx) attempt some_err (Suc 4) w1 q = Some (w', r')"
      "\<not> some_err r'" by blast
    have five: "nat 5 = Suc 4" by simp
    have "retrying 5 (second * 5) (ck_wait ck ctx) some_err attempt w = (if \<not> some_err q then Some (w1, q) else Some (w', r'))"
      using l(1) unfolding retrying_def o five by (simp del: retry_loop.simps add: second_def)
    with l(2) show ?thesis unfolding cl by (cases "some_err q") auto
  qed
  then show ?thesis by (simp add: some_err_def)
qed

section \<open>A shell that is down for a while\<close>

text \<open>The world counts the time; commands take none and fail before the first tick.\<close>

definition flaky :: "int helm_env" where
  "flaky =
     \<lparr>he_tables = \<lparr>isSymbol = (\<lambda>r. r = 36), isMark = (\<lambda>_. False), isGraphic = (\<lambda>r. 32 \<le> r)\<rparr>, he_fuel = 2,
       he_tmp = ''/w'', he_rnds = [''1''], he_write = (\<lambda>w s. (w, None)),
       he_shell = (\<lambda>w l. (w, [], if w_cdk w = 0 then Some (ErrText ''down'') else None)), he_versions = (\<lambda>s. Inr []),
       he_chart = (\<lambda>s. Inr []), he_validate = (\<lambda>t. None)\<rparr>"

definition flaky_clock :: "int world go_clock" where
  "flaky_clock = \<lparr>ck_now = w_cdk, ck_wait = (\<lambda>ctx w. (w\<lparr>w_cdk := w_cdk w + second * 5\<rparr>, True))\<rparr>"

definition echo_env :: runner_env where
  "echo_env = \<lparr>re_testing = True, re_enable_exec = [], re_look_path = (\<lambda>s. Inr s)\<rparr>"

lemma flaky_runCommand: "fst (runCommand flaky (WrappedRunner path) args w) = w"
  by (simp add: runCommand_def Execute_def WrappedRunner_Execute_def CmdRunner_Execute_def combinedOutput_def flaky_def Let_def
      split: prod.splits sum.splits option.splits if_splits)

lemma flaky_pull_version: "fst (pull_version flaky (WrappedRunner path) r w) = w"
proof -
  have "fst (searchRepo flaky (WrappedRunner path) r all w) = w" for all
    using flaky_runCommand by (auto simp: searchRepo_def Let_def split: prod.splits sum.splits) (metis fst_conv)+
  then show ?thesis
    by (auto simp: pull_version_def LatestVersion_def Let_def split: prod.splits sum.splits) (metis fst_conv)+
qed

lemma flaky_Add: "AddRepo flaky (WrappedRunner path) r w = (e, w') \<Longrightarrow> w' = w"
  using flaky_runCommand by (auto simp: AddRepo_def split: prod.splits if_splits) (metis fst_conv)+

lemma flaky_Update: "UpdateRepo flaky (WrappedRunner path) r w = (e, w') \<Longrightarrow> w' = w"
  using flaky_runCommand by (auto simp: UpdateRepo_def split: prod.splits if_splits) (metis fst_conv)+

lemma flaky_Pull:
  assumes "PullRepo flaky (WrappedRunner path) r w = Some (w', res)"
  shows "w_cdk w' = w_cdk w"
proof -
  have p: "w1 = v" if "pull_version flaky (WrappedRunner path) r v = (w1, x)" for v w1 x
    using flaky_pull_version[of path r v] that by simp
  have c: "w1 = v" if "runCommand flaky (WrappedRunner path) args v = (w1, x)" for v w1 args x
    using flaky_runCommand[of path args v] that by simp
  from assms show ?thesis
    apply (auto simp: PullRepo_def split: option.split_asm prod.split_asm sum.split_asm dest!: p c)
    subgoal for os fh os' res' by (cases res') auto
    done
qed

lemma flaky_Vendor:
  assumes "VendorRepo flaky (WrappedRunner path) r w = Some (w', res)"
  shows "w_cdk w' = w_cdk w"
  using assms flaky_Pull
  by (auto simp: VendorRepo_def split: if_splits prod.splits option.splits dest!: flaky_Add flaky_Update)

lemma flaky_base:
  "hc_AddRepo (base_client (\<lambda>_. flaky) (WrappedRunner path)) ctx r v = Some (v', e) \<Longrightarrow> w_cdk v' = w_cdk v"
  "hc_VendorRepo (base_client (\<lambda>_. flaky) (WrappedRunner path)) ctx r v = Some (v', res) \<Longrightarrow> w_cdk v' = w_cdk v"
  by (auto simp: base_client_def split: prod.splits dest: flaky_Add flaky_Vendor)

lemma flaky_client: "NewHelmRunner echo_env = Inr (WrappedRunner ''echo helm'')"
  by (simp add: NewHelmRunner_def newWrappedRunner_def echo_env_def ActionHelm_def)

lemma flaky_clock_live: "ticks flaky_clock (second * 5) ctx" "snd (ck_wait flaky_clock ctx v)"
  by (auto simp: ticks_def flaky_clock_def)

theorem client_bounded_witness:
  "\<exists>cl. NewClient flaky_clock (\<lambda>_. flaky) echo_env = Inr cl \<and>
     (case hc_VendorRepo cl \<lparr>cx_deadline = None\<rparr> demo_release \<lparr>w_os = demo_os, w_cdk = 0\<rparr> of
        None \<Rightarrow> True | Some (w', res) \<Rightarrow> w_cdk w' \<le> 565 * second)"
proof -
  obtain cl where cl: "NewClient flaky_clock (\<lambda>_. flaky) echo_env = Inr cl" by (simp add: NewClient_def flaky_client)
  have "keeps_deadline (ck_now flaky_clock) (\<lambda>ctx. hc_AddRepo (base_client (\<lambda>_. flaky) (WrappedRunner ''echo helm'')) ctx demo_release)"
    "keeps_deadline (ck_now flaky_clock) (\<lambda>ctx. hc_VendorRepo (base_client (\<lambda>_. flaky) (WrappedRunner ''echo helm'')) ctx demo_release)"
    using flaky_base by (fastforce simp: keeps_deadline_def flaky_clock_def)+
  from client_bounded[OF flaky_client cl flaky_clock_live(1) this, of "\<lparr>cx_deadline = None\<rparr>"]
  have "hc_VendorRepo cl \<lparr>cx_deadline = None\<rparr> demo_release w = Some (w', res) \<Longrightarrow> w_cdk w' \<le> w_cdk w + 565 * second" for w w' res
    by (simp add: flaky_clock_def)
  with cl show ?thesis by (fastforce split: option.split prod.split)
qed

theorem client_perseveres_witness:
  "\<exists>cl w'. NewClient flaky_clock (\<lambda>_. flaky) echo_env = Inr cl \<and>
     hc_AddRepo cl \<lparr>cx_deadline = None\<rparr> demo_release \<lparr>w_os = demo_os, w_cdk = 0\<rparr> = Some (w', None)"
proof -
  obtain cl where cl: "NewClient flaky_clock (\<lambda>_. flaky) echo_env = Inr cl" by (simp add: NewClient_def flaky_client)
  let ?attempt = "\<lambda>w. hc_AddRepo (base_client (\<lambda>_. flaky) (WrappedRunner ''echo helm''))
      (limited flaky_clock (second * 30) \<lparr>cx_deadline = None\<rparr> w) demo_release w"
  have add: "?attempt v = Some (v, if w_cdk v = 0 then snd (the (?attempt v)) else None)" for v
  proof -
    obtain e v' where e: "AddRepo flaky (WrappedRunner ''echo helm'') demo_release v = (e, v')" by fastforce
    then have "v' = v" by (rule flaky_Add)
    moreover have "e = None" if "w_cdk v \<noteq> 0"
      using that e by (auto simp: AddRepo_def IsOCI_def runCommand_def Execute_def WrappedRunner_Execute_def CmdRunner_Execute_def
          combinedOutput_def flaky_def err_of_def Let_def)
    ultimately show ?thesis using e by (simp add: base_client_def)
  qed
  let ?w = "\<lparr>w_os = demo_os, w_cdk = 0\<rparr> :: int world"
  have "at_attempt (ck_wait flaky_clock \<lparr>cx_deadline = None\<rparr>) ?attempt 1 ?w = ?w\<lparr>w_cdk := second * 5\<rparr>"
    using add[of ?w] by (auto simp: flaky_clock_def split: option.split)
  then have "snd (the (?attempt (at_attempt (ck_wait flaky_clock \<lparr>cx_deadline = None\<rparr>) ?attempt 1 ?w))) = None"
    using add[of "?w\<lparr>w_cdk := second * 5\<rparr>"] by (simp add: second_def)
  from client_perseveres[OF flaky_client cl _ refl _ this] flaky_clock_live(2) cl show ?thesis by auto
qed

end
