(* ===== verification/Bootstrap.thy ===== *)
theory Bootstrap
  imports Charts PlanService
begin

text \<open>
  The bootstrap components: the validation of the client-side apply scalar, the Docker registry and kind scalars of
  crib/scalar/bootstrap with the scripts they install, and the AWS and kind composites of
  crib/composite/bootstrap.  A composite is the list of the parts it creates with the dependencies between
  them; what its parts are applied in is any order that respects the dependencies.
\<close>

section \<open>Parts and dependencies\<close>

text \<open>
  \<open>(i, j)\<close> stands for a call that makes part \<open>i\<close> depend on part \<open>j\<close>; \<open>co_result\<close> is the part that is returned.
\<close>

record 'p composed =
  co_parts :: "'p list"
  co_deps :: "(nat \<times> nat) list"
  co_result :: nat

fun before :: "nat \<Rightarrow> nat \<Rightarrow> nat list \<Rightarrow> bool" where
  "before j i [] \<longleftrightarrow> False"
| "before j i (x # xs) \<longleftrightarrow> (if x = j then i \<in> set xs else before j i xs)"

definition keeps_deps :: "(nat \<times> nat) list \<Rightarrow> nat list \<Rightarrow> bool" where
  "keeps_deps deps order \<longleftrightarrow> list_all (\<lambda>(i, j). before j i order) deps"

text \<open>An order of application: every part once.\<close>

definition applies :: "'p composed \<Rightarrow> nat list \<Rightarrow> bool" where
  "applies c order \<longleftrightarrow> distinct order \<and> set order = {..<length (co_parts c)} \<and> keeps_deps (co_deps c) order"

lemma before_nth: "before j i xs \<Longrightarrow> \<exists>a b. a < b \<and> b < length xs \<and> xs ! a = j \<and> xs ! b = i"
proof (induction xs)
  case (Cons x xs)
  show ?case
  proof (cases "x = j")
    case True
    with Cons.prems obtain b where "b < length xs" "xs ! b = i" by (auto simp: in_set_conv_nth)
    with True show ?thesis by (intro exI[of _ 0] exI[of _ "Suc b"]) simp
  next
    case False
    with Cons obtain a b where "a < b" "b < length xs" "xs ! a = j" "xs ! b = i" by auto
    then show ?thesis by (intro exI[of _ "Suc a"] exI[of _ "Suc b"]) simp
  qed
qed simp

lemma applies_before:
  assumes "applies c order" "(i, j) \<in> set (co_deps c)"
  shows "before j i order"
  using assms by (auto simp: applies_def keeps_deps_def list_all_iff)

text \<open>Parts that depend on each other in a chain can be applied in one order only.\<close>

lemma chain_order:
  assumes "distinct xs" "set xs = {..<n}" "\<And>i. Suc i < n \<Longrightarrow> before i (Suc i) xs"
  shows "xs = [0..<n]"
proof -
  have len: "length xs = n" using assms(1,2) by (metis card_lessThan distinct_card)
  define pos where "pos i = (THE a. a < length xs \<and> xs ! a = i)" for i
  have pos: "pos i < n" "xs ! pos i = i" if "i < n" for i
  proof -
    have "i \<in> set xs" using that assms(2) by simp
    then have "\<exists>!a. a < length xs \<and> xs ! a = i" using assms(1) by (metis in_set_conv_nth nth_eq_iff_index_eq)
    then have "pos i < length xs \<and> xs ! pos i = i" unfolding pos_def by (rule theI')
    then show "pos i < n" "xs ! pos i = i" using len by simp_all
  qed
  have step: "pos i < pos (Suc i)" if i: "Suc i < n" for i
  proof -
    obtain a b where "a < b" "b < length xs" "xs ! a = i" "xs ! b = Suc i" using before_nth[OF assms(3)[OF i]] by blast
    moreover have "pos i < length xs" "xs ! pos i = i" "pos (Suc i) < length xs" "xs ! pos (Suc i) = Suc i"
      using pos[of i] pos[of "Suc i"] i len by simp_all
    ultimately have "pos i = a" "pos (Suc i) = b"
      using assms(1) nth_eq_iff_index_eq[of xs] by (metis dual_order.strict_trans)+
    with \<open>a < b\<close> show ?thesis by simp
  qed
  have up: "i \<le> pos i" if "i < n" for i
    using that by (induction i) (use step in fastforce)+
  have down: "pos i + (n - i) \<le> n" if "i < n" for i
    using that
  proof (induction "n - i" arbitrary: i)
    case (Suc m)
    show ?case
    proof (cases "Suc i < n")
      case True
      with Suc have "pos (Suc i) + (n - Suc i) \<le> n" by simp
      with step[OF True] True show ?thesis by simp
    next
      case False
      with Suc.prems pos(1)[of i] show ?thesis by simp
    qed
  qed simp
  show ?thesis
  proof (rule nth_equalityI)
    show "length xs = length [0..<n]" by (simp add: len)
    fix i assume "i < length xs"
    then have "i < n" by (simp add: len)
    with up[of i] down[of i] have "pos i = i" by linarith
    with pos[OF \<open>i < n\<close>] \<open>i < n\<close> show "xs ! i = [0..<n] ! i" by simp
  qed
qed

section \<open>Validation of client-side applies\<close>

text \<open>The rules of the props; \<open>label\<close> is the rule for DNS labels.  Only \<open>Component\<close> checks them, \<open>New\<close> does not.\<close>

definition csa_defaults :: "csa_props \<Rightarrow> csa_props" where
  "csa_defaults p = p\<lparr>cs_OnFailure := or_default (cs_OnFailure p) ''abort''\<rparr>"

definition csa_actions :: "string list" where
  "csa_actions = [''cmd'', ''cribctl'', ''docker'', ''kind'', ''kubectl'', ''task'']"

definition csa_broken :: "(string \<Rightarrow> bool) \<Rightarrow> csa_props \<Rightarrow> string list" where
  "csa_broken label p =
     (if cs_Namespace p \<noteq> [] \<and> (63 < length (cs_Namespace p) \<or> \<not> label (cs_Namespace p)) then [''Namespace''] else [])
     @ (if cs_OnFailure p \<in> {''continue'', ''abort''} then [] else [''OnFailure''])
     @ (if cs_Action p \<in> set csa_actions then [] else [''Action''])"

definition csa_Component :: "validator_error \<Rightarrow> (string \<Rightarrow> bool) \<Rightarrow> csa_props \<Rightarrow> goerr + csa_component" where
  "csa_Component verr label p0 =
     (let p = csa_defaults p0 in
      case csa_broken label p of [] \<Rightarrow> Inr (csa_New p) | fs \<Rightarrow> Inl (verr fs))"

abbreviation apply_props :: "string \<Rightarrow> string \<Rightarrow> string list \<Rightarrow> csa_props" where
  "apply_props ns action args \<equiv> \<lparr>cs_Namespace = ns, cs_OnFailure = ''abort'', cs_Action = action, cs_Args = args\<rparr>"

section \<open>AWS\<close>

record aws_props =
  aw_Profile :: string
  aw_Cluster :: string
  aw_Namespace :: string

definition aws_broken :: "aws_props \<Rightarrow> string list" where
  "aws_broken p = missing [(''Profile'', aw_Profile p), (''Cluster'', aw_Cluster p), (''Namespace'', aw_Namespace p)]"

definition awsComposite :: "aws_props \<Rightarrow> csa_component composed" where
  "awsComposite p =
     \<lparr>co_parts =
        [csa_New (apply_props [] ''aws'' [''sso'', ''login'', ''--profile'', aw_Profile p]),
         csa_New (apply_props [] ''kubectx'' [aw_Cluster p]),
         csa_New (apply_props [] ''kubens'' [aw_Namespace p])],
       co_deps = [(1, 0), (2, 1)], co_result = 2\<rparr>"

definition aws_Component :: "validator_error \<Rightarrow> aws_props \<Rightarrow> goerr + csa_component composed" where
  "aws_Component verr p = (case aws_broken p of [] \<Rightarrow> Inr (awsComposite p) | fs \<Rightarrow> Inl (verr fs))"

section \<open>Embedded scripts\<close>

text \<open>
  The \<open>init\<close> functions of the registry and kind packages: the embedded files are copied to a fresh temporary
  directory and the script made executable; \<open>chmod\<close> is the operating system's.  The result is the store of files
  and the path of the script.
\<close>

definition install_script ::
    "string \<Rightarrow> unicode_tables \<Rightarrow> nat \<Rightarrow> string \<Rightarrow> string list \<Rightarrow> (os_state \<Rightarrow> string \<Rightarrow> os_state \<times> goerr option)
      \<Rightarrow> string \<Rightarrow> string \<Rightarrow> fnode \<Rightarrow> os_state \<Rightarrow> (os_state \<times> string) outcome" where
  "install_script what U fuel tmp rnds chmod dir script f os =
     (case NewTempHandler U fuel os tmp rnds dir of
        None \<Rightarrow> OutOfFuel
      | Some (os1, Inl e) \<Rightarrow> Panic (''failed to create file handler for '' @ what)
      | Some (os1, Inr fh) \<Rightarrow>
          (case CopyDir os1 (NewReadOnlyFS f) fh of
             LoopPanic \<Rightarrow> Panic ''range function continued iteration after function for loop body returned false''
           | LoopDone (Some e, os2) \<Rightarrow> Panic (''failed to copy '' @ what)
           | LoopDone (None, os2) \<Rightarrow>
               (case chmod os2 (AbsPathFor fh [script]) of
                  (os3, Some e) \<Rightarrow> Panic (''failed to make '' @ what @ '' executable'')
                | (os3, None) \<Rightarrow> Ret (os3, AbsPathFor fh [script]))))"

definition registry_init where
  "registry_init U fuel tmp rnds chmod f os =
     install_script ''registry script'' U fuel tmp rnds chmod ''registry'' ''registry.sh'' f os"

text \<open>The package of kind has two paths, of which \<open>init\<close> sets the second only.\<close>

record kind_paths =
  kp_defaultsPath :: string
  kp_scriptPath :: string

definition kind_init where
  "kind_init U fuel tmp rnds chmod f os =
     (case install_script ''kind script'' U fuel tmp rnds chmod ''kind'' ''kind.sh'' f os of
        Ret (os', path) \<Rightarrow> Ret (os', \<lparr>kp_defaultsPath = [], kp_scriptPath = path\<rparr>)
      | Panic msg \<Rightarrow> Panic msg
      | OutOfFuel \<Rightarrow> OutOfFuel)"

section \<open>The Docker registry and kind\<close>

definition dockerRegistry :: "string \<Rightarrow> string \<Rightarrow> string \<Rightarrow> csa_component" where
  "dockerRegistry scriptPath name port =
     csa_New (apply_props DefaultNamespace ActionCmd [''REGISTRY_NAME='' @ name, ''REGISTRY_PORT='' @ port, scriptPath])"

definition registry_Component :: "validator_error \<Rightarrow> string \<Rightarrow> string \<Rightarrow> string \<Rightarrow> goerr + csa_component" where
  "registry_Component verr scriptPath name port =
     (case missing [(''Name'', name), (''Port'', port)] of
        [] \<Rightarrow> Inr (dockerRegistry scriptPath name port) | fs \<Rightarrow> Inl (verr fs))"

definition kindCluster :: "kind_paths \<Rightarrow> string \<Rightarrow> csa_component" where
  "kindCluster k name =
     csa_New (apply_props DefaultNamespace ActionCmd
       [''KIND_CONFIG_FILE='' @ kp_defaultsPath k, ''KIND_CLUSTER_NAME='' @ name, kp_scriptPath k])"

definition kind_scalar_Component :: "validator_error \<Rightarrow> kind_paths \<Rightarrow> string \<Rightarrow> goerr + csa_component" where
  "kind_scalar_Component verr k name =
     (case missing [(''Name'', name)] of [] \<Rightarrow> Inr (kindCluster k name) | fs \<Rightarrow> Inl (verr fs))"

definition kindComposite :: "validator_error \<Rightarrow> string \<Rightarrow> kind_paths \<Rightarrow> string \<Rightarrow> goerr + csa_component composed" where
  "kindComposite verr registryScript k name =
     (case registry_Component verr registryScript (name @ ''-registry'') ''5001'' of
        Inl e \<Rightarrow> Inl e
      | Inr registry \<Rightarrow>
          (case kind_scalar_Component verr k name of
             Inl e \<Rightarrow> Inl e
           | Inr cluster \<Rightarrow>
               Inr \<lparr>co_parts = [registry, cluster,
                   csa_New (apply_props ''default'' ''kubectl'' [''config'', ''use-context'', ''kind-'' @ name])],
                 co_deps = [(1, 0), (2, 1)], co_result = 2\<rparr>))"

definition kind_Component :: "validator_error \<Rightarrow> string \<Rightarrow> kind_paths \<Rightarrow> string \<Rightarrow> goerr + csa_component composed" where
  "kind_Component verr registryScript k name =
     (case missing [(''Name'', name)] of [] \<Rightarrow> kindComposite verr registryScript k name | fs \<Rightarrow> Inl (verr fs))"

section \<open>What the composites apply\<close>

text \<open>The command of a part with the arguments the runner is given.\<close>

definition commands :: "csa_component composed \<Rightarrow> nat list \<Rightarrow> string list list" where
  "commands c order = map (\<lambda>i. cc_Args (co_parts c ! i)) order"

lemma csa_New_simps [simp]:
  "cc_Args (csa_New p) = cs_Action p # cs_Args p" "cc_namespace (csa_New p) = cs_Namespace p"
  "cc_dependencies (csa_New p) = []" "m_onFailure (cc_manifest (csa_New p)) = cs_OnFailure p"
  "m_action (cc_manifest (csa_New p)) = cs_Action p" "m_args (cc_manifest (csa_New p)) = cs_Args p"
  by (simp_all add: csa_New_def)

lemma three_in_order:
  assumes "applies c order" "length (co_parts c) = 3" "co_deps c = [(1, 0), (2, 1)]"
  shows "order = [0, 1, 2]"
proof -
  have "order = [0..<3]"
  proof (rule chain_order)
    show "distinct order" "set order = {..<3}" using assms(1,2) by (simp_all add: applies_def)
    show "before i (Suc i) order" if "Suc i < 3" for i
    proof -
      have "i = 0 \<or> i = 1" using that by auto
      then have "(Suc i, i) \<in> set (co_deps c)" by (auto simp: assms(3))
      with assms(1) show ?thesis by (rule applies_before)
    qed
  qed
  also have "[0..<3] = [0, 1, 2]" by (simp add: upt_rec)
  finally show ?thesis .
qed

text \<open>
  CX. Whatever order respecting its dependencies the parts of the AWS composite are applied in, the user logs in
  first, then the cluster is selected, then the namespace; none of the three manifests passes the validation
  the client-side apply component itself makes, since its rule for actions does not know them.
\<close>
theorem aws_in_order:
  assumes "aws_Component verr p = Inr c" "applies c order"
  shows "commands c order = [[''aws'', ''sso'', ''login'', ''--profile'', aw_Profile p], [''kubectx'', aw_Cluster p],
      [''kubens'', aw_Namespace p]]
    \<and> list_all (\<lambda>m. m_onFailure (cc_manifest m) = ''abort'') (co_parts c)
    \<and> list_all (\<lambda>m. is_err (csa_Component verr label \<lparr>cs_Namespace = cc_namespace m, cs_OnFailure = m_onFailure (cc_manifest m),
         cs_Action = m_action (cc_manifest m), cs_Args = m_args (cc_manifest m)\<rparr>)) (co_parts c)"
proof -
  have c: "c = awsComposite p" using assms(1) by (auto simp: aws_Component_def split: list.splits)
  have "order = [0, 1, 2]" using assms(2) by (rule three_in_order) (simp_all add: c awsComposite_def)
  then show ?thesis
    by (simp add: c awsComposite_def commands_def csa_Component_def csa_defaults_def or_default_def csa_broken_def csa_actions_def Let_def)
qed

theorem aws_in_order_witness:
  "\<exists>c. aws_Component (\<lambda>fs. ErrText ''missing'') \<lparr>aw_Profile = ''dev'', aw_Cluster = ''main'', aw_Namespace = ''me''\<rparr> = Inr c \<and>
     commands c [0, 1, 2] = [[''aws'', ''sso'', ''login'', ''--profile'', ''dev''], [''kubectx'', ''main''], [''kubens'', ''me'']]"
proof -
  let ?p = "\<lparr>aw_Profile = ''dev'', aw_Cluster = ''main'', aw_Namespace = ''me''\<rparr>"
  have c: "aws_Component (\<lambda>fs. ErrText ''missing'') ?p = Inr (awsComposite ?p)" by (simp add: aws_Component_def aws_broken_def missing_def)
  have "applies (awsComposite ?p) [0, 1, 2]" by (auto simp: applies_def keeps_deps_def awsComposite_def)
  from aws_in_order[OF c this] c show ?thesis by simp
qed

text \<open>The script is where \<open>init\<close> says, with its embedded content.\<close>

lemma script_path:
  assumes "h_root h = Some r" "path_rooted r" "simple_seg script"
  shows "abs_segs os (AbsPathFor h [script]) = abs_segs os r @ [script]" "path_rooted (AbsPathFor h [script])"
proof -
  have j: "path_Join [script] = script" using path_Join_simple[of "[script]"] assms(3) by simp
  have r: "r \<noteq> []" "hd r = slash" using assms(2) by (auto simp: path_rooted_def)
  have "path_Join [r, script] = path_Clean (r @ slash # script)" using r(1) by (simp add: path_Join_def)
  then have a: "AbsPathFor h [script] = path_Join [r, script]" using assms(1) j by (simp add: AbsPathFor_def path_Clean_idem)
  show "abs_segs os (AbsPathFor h [script]) = abs_segs os r @ [script]"
    using abs_segs_join[OF assms(2), of "[script]" os] assms(3) by (simp add: a path_str_def)
  have "path_rooted (r @ slash # script)" using r by (simp add: path_rooted_def)
  then show "path_rooted (AbsPathFor h [script])"
    using \<open>path_Join [r, script] = path_Clean (r @ slash # script)\<close> by (simp add: a path_Clean_def path_rooted_def)
qed

lemma install_script_ok:
  assumes tmp: "tmp = slash # join_with [slash] ts" "list_all simple_seg ts" "dir_at (os_tree os) ts"
    and rnd: "rnd \<noteq> []" "slash \<notin> set rnd" "\<And>d. walk (os_tree os) (ts @ [d @ ''-'' @ rnd]) = Inl (Sentinel ErrNotExist)"
    and f: "wf_node (DirN es)" "\<forall>q \<in> dom (file_at (DirN es)). valid_utf8 (path_str q)" "simple_seg script"
      "file_at (DirN es) [script] = Some content"
    and chmod: "chmod = (\<lambda>os p. (os, None))"
  shows "\<exists>os' path. install_script what U (Suc n) tmp (rnd # rnds) chmod dir script (DirN es) os = Ret (os', path) \<and>
    path_rooted path \<and> file_at (os_tree os') (abs_segs os' path) = Some content"
proof -
  obtain os1 h r where h: "NewTempHandler U (Suc n) os tmp (rnd # rnds) dir = Some (os1, Inr h)" "h_root h = Some r"
    "path_rooted r" "empty_dir (os_tree os1) (abs_segs os1 r)"
    using NewTempHandler_fresh[OF tmp rnd] by blast
  obtain os2 where c: "CopyDir os1 (NewReadOnlyFS (DirN es)) h = LoopDone (None, os2)"
    "\<And>q. file_at (os_tree os2) (abs_segs os1 r @ q) = file_at (DirN es) q"
    using CopyDir_into_empty[OF h(2-4) f(1,2)] by blast
  have "abs_segs os2 (AbsPathFor h [script]) = abs_segs os1 r @ [script]"
    using script_path(1)[OF h(2,3) f(3)] h(3) by (simp add: abs_segs_def)
  with c(2)[of "[script]"] f(4) have "file_at (os_tree os2) (abs_segs os2 (AbsPathFor h [script])) = Some content" by simp
  moreover have "install_script what U (Suc n) tmp (rnd # rnds) chmod dir script (DirN es) os = Ret (os2, AbsPathFor h [script])"
    by (simp add: install_script_def h(1) c(1) chmod)
  ultimately show ?thesis using script_path(2)[OF h(2,3) f(3)] by blast
qed

text \<open>
  C30. The kind composite of a program that has started creates the registry, then the cluster, then selects its
  context, in every order that respects its dependencies; the script of the cluster is the embedded one, at an
  absolute path, but the variable for its configuration file is always empty, so that the embedded
  configuration is never used.
\<close>
theorem kind_in_order:
  assumes "tmp = slash # join_with [slash] ts" "list_all simple_seg ts" "dir_at (os_tree os) ts"
    and "rnd \<noteq> []" "slash \<notin> set rnd" "\<And>d. walk (os_tree os) (ts @ [d @ ''-'' @ rnd]) = Inl (Sentinel ErrNotExist)"
    and "wf_node (DirN es)" "\<forall>q \<in> dom (file_at (DirN es)). valid_utf8 (path_str q)"
      "file_at (DirN es) [''kind.sh''] = Some content"
    and "chmod = (\<lambda>os p. (os, None))" and name: "name \<noteq> []"
  shows "\<exists>os' k. kind_init U (Suc n) tmp (rnd # rnds) chmod (DirN es) os = Ret (os', k) \<and>
    file_at (os_tree os') (abs_segs os' (kp_scriptPath k)) = Some content \<and> path_rooted (kp_scriptPath k) \<and>
    (\<forall>rs order c. kind_Component verr rs k name = Inr c \<longrightarrow> applies c order \<longrightarrow>
      commands c order =
        [[''cmd'', ''REGISTRY_NAME='' @ name @ ''-registry'', ''REGISTRY_PORT=5001'', rs],
         [''cmd'', ''KIND_CONFIG_FILE='', ''KIND_CLUSTER_NAME='' @ name, kp_scriptPath k],
         [''kubectl'', ''config'', ''use-context'', ''kind-'' @ name]])"
proof -
  have "simple_seg ''kind.sh''" by (simp add: simple_seg_def)
  from install_script_ok[OF assms(1-8) this assms(9,10)] obtain os' path where
    i: "install_script ''kind script'' U (Suc n) tmp (rnd # rnds) chmod ''kind'' ''kind.sh'' (DirN es) os = Ret (os', path)"
    "path_rooted path" "file_at (os_tree os') (abs_segs os' path) = Some content" by blast
  let ?k = "\<lparr>kp_defaultsPath = [], kp_scriptPath = path\<rparr>"
  have k: "kind_init U (Suc n) tmp (rnd # rnds) chmod (DirN es) os = Ret (os', ?k)" by (simp add: kind_init_def i(1))
  have "commands c order =
        [[''cmd'', ''REGISTRY_NAME='' @ name @ ''-registry'', ''REGISTRY_PORT=5001'', rs],
         [''cmd'', ''KIND_CONFIG_FILE='', ''KIND_CLUSTER_NAME='' @ name, path],
         [''kubectl'', ''config'', ''use-context'', ''kind-'' @ name]]"
    if "kind_Component verr rs ?k name = Inr c" "applies c order" for rs order c
  proof -
    have c: "c = \<lparr>co_parts = [dockerRegistry rs (name @ ''-registry'') ''5001'', kindCluster ?k name,
        csa_New (apply_props ''default'' ''kubectl'' [''config'', ''use-context'', ''kind-'' @ name])],
        co_deps = [(1, 0), (2, 1)], co_result = 2\<rparr>"
      using that(1) name by (simp add: kind_Component_def kindComposite_def registry_Component_def kind_scalar_Component_def missing_def)
    have "order = [0, 1, 2]" using that(2) by (rule three_in_order) (simp_all add: c)
    then show ?thesis by (simp add: c commands_def dockerRegistry_def kindCluster_def ActionCmd_def)
  qed
  with k i(2,3) show ?thesis by (intro exI[of _ os'] exI[of _ ?k]) simp
qed

theorem kind_in_order_witness:
  "\<exists>os' k. kind_init \<lparr>isSymbol = (\<lambda>r. r = 36), isMark = (\<lambda>_. False), isGraphic = (\<lambda>r. 32 \<le> r)\<rparr> (Suc 1) ''/w'' [''123''] (\<lambda>os p. (os, None))
       (DirN [(''kind.sh'', FileN ''#!/bin/bash'')]) demo_os = Ret (os', k) \<and>
     file_at (os_tree os') (abs_segs os' (kp_scriptPath k)) = Some ''#!/bin/bash'' \<and> path_rooted (kp_scriptPath k)"
proof -
  have w: "wf_node (DirN [(''kind.sh'', FileN ''#!/bin/bash'')])" by (simp add: simple_seg_def)
  have "walk_files [] (DirN [(''kind.sh'', FileN ''#!/bin/bash'')]) = [[''kind.sh'']]" by simp
  then have "dom (file_at (DirN [(''kind.sh'', FileN ''#!/bin/bash'')])) = {[''kind.sh'']}"
    using set_walk_files[OF w, of "[]"] by (auto simp: dom_def)
  then have "\<forall>q \<in> dom (file_at (DirN [(''kind.sh'', FileN ''#!/bin/bash'')])). valid_utf8 (path_str q)"
    by (simp add: path_str_def valid_utf8_def segments_ascii ascii_def rune_error_def)
  moreover have "file_at (DirN [(''kind.sh'', FileN ''#!/bin/bash'')]) [''kind.sh''] = Some ''#!/bin/bash''" by (simp add: file_at_def)
  moreover have "dir_at (os_tree demo_os) [''w'']" "\<And>d. walk (os_tree demo_os) ([''w''] @ [d @ ''-'' @ ''123'']) = Inl (Sentinel ErrNotExist)"
    "''/w'' = slash # join_with [slash] [''w'']" "list_all simple_seg [''w'']" "slash \<notin> set ''123''"
    by (simp_all add: demo_os_def simple_seg_def dir_at_def)
  ultimately show ?thesis
    using kind_in_order[where ts = "[''w'']" and tmp = "''/w''" and os = demo_os and rnd = "''123''" and name = "''a''"
        and chmod = "\<lambda>os p. (os, None)" and n = 1 and rnds = "[]" and content = "''#!/bin/bash''", OF _ _ _ _ _ _ w]
    by (metis (no_types, lifting) list.distinct(1))
qed

end
