(* ===== verification/Rbac.thy ===== *)
theory Rbac
  imports Workload
begin

text \<open>
  The access control scalars: crib/scalar/k8s/role/v1, rolebinding/v1 and serviceaccount/v1, and what the rules
  of a role allow.
\<close>

section \<open>Roles\<close>

record policy_rule =
  pr_ApiGroups :: "string option list option"
  pr_Resources :: "string option list option"
  pr_Verbs :: "string option list option"
  pr_ResourceNames :: "string option list option"

record role_props =
  ro_Namespace :: string
  ro_AppName :: string
  ro_AppInstance :: string
  ro_Name :: string
  ro_Rules :: "policy_rule option list"

record kube_role =
  kro_meta :: object_meta
  kro_rules :: "policy_rule option list option"
  kro_props :: role_props

definition role_broken :: "role_props \<Rightarrow> string list" where
  "role_broken p =
     missing [(''Namespace'', ro_Namespace p), (''AppName'', ro_AppName p), (''AppInstance'', ro_AppInstance p),
       (''Name'', ro_Name p)]
     @ (if ro_Rules p = [] \<or> None \<in> set (ro_Rules p) then [''Rules''] else [])"

definition role_New :: "validator_error \<Rightarrow> role_props \<Rightarrow> goerr + kube_role" where
  "role_New verr p =
     (case role_broken p of
        [] \<Rightarrow>
          (case NewMetadataFactory verr (metadata_of (ro_Namespace p) (ro_AppName p) (ro_AppInstance p) (ro_Name p)) of
             Inl e \<Rightarrow> Inl (the (Wrapf (Some e) ''failed to create default metadata for role''))
           | Inr f \<Rightarrow> Inr \<lparr>kro_meta = K8sResourceMetadata f, kro_rules = Some (ro_Rules p), kro_props = p\<rparr>)
      | fs \<Rightarrow> Inl (verr fs))"

definition role_Name :: "kube_role \<Rightarrow> string" where "role_Name r = ro_Name (kro_props r)"

section \<open>Role bindings\<close>

record role_ref =
  rr_ApiGroup :: "string option"
  rr_Kind :: "string option"
  rr_Name :: "string option"

record subject =
  sj_Kind :: "string option"
  sj_Name :: "string option"
  sj_Namespace :: "string option"

record role_binding_props =
  rb_Namespace :: string
  rb_AppName :: string
  rb_AppInstance :: string
  rb_Name :: string
  rb_RoleRef :: "role_ref option"
  rb_Subjects :: "subject option list"

record kube_role_binding =
  krb_meta :: object_meta
  krb_roleRef :: "role_ref option"
  krb_subjects :: "subject option list option"
  krb_props :: role_binding_props

definition role_binding_broken :: "role_binding_props \<Rightarrow> string list" where
  "role_binding_broken p =
     missing [(''Namespace'', rb_Namespace p), (''AppName'', rb_AppName p), (''AppInstance'', rb_AppInstance p),
       (''Name'', rb_Name p)]
     @ (if rb_RoleRef p = None then [''RoleRef''] else [])
     @ (if rb_Subjects p = [] \<or> None \<in> set (rb_Subjects p) then [''Subjects''] else [])"

definition role_binding_New :: "validator_error \<Rightarrow> role_binding_props \<Rightarrow> goerr + kube_role_binding" where
  "role_binding_New verr p =
     (case role_binding_broken p of
        [] \<Rightarrow>
          (case NewMetadataFactory verr (metadata_of (rb_Namespace p) (rb_AppName p) (rb_AppInstance p) (rb_Name p)) of
             Inl e \<Rightarrow> Inl (the (Wrapf (Some e) ''failed to create default metadata for rolebinding''))
           | Inr f \<Rightarrow> Inr \<lparr>krb_meta = K8sResourceMetadata f, krb_roleRef = rb_RoleRef p, krb_subjects = Some (rb_Subjects p),
               krb_props = p\<rparr>)
      | fs \<Rightarrow> Inl (verr fs))"

definition role_binding_Name :: "kube_role_binding \<Rightarrow> string" where "role_binding_Name r = rb_Name (krb_props r)"

section \<open>Service accounts\<close>

record service_account_props =
  sa_AutomountServiceAccountToken :: "bool option"
  sa_Namespace :: string
  sa_AppName :: string
  sa_AppInstance :: string
  sa_Name :: string
  sa_Secrets :: "string list"
  sa_ImagePullSecrets :: "string list"

text \<open>A reference is the name it holds; a variable of a loop is a new one in every iteration.\<close>

record kube_service_account =
  ksa_meta :: object_meta
  ksa_secrets :: "string option list option"
  ksa_imagePullSecrets :: "string option list option"
  ksa_automount :: "bool option"
  ksa_props :: service_account_props

definition service_account_broken :: "service_account_props \<Rightarrow> string list" where
  "service_account_broken p =
     missing [(''Namespace'', sa_Namespace p), (''AppName'', sa_AppName p), (''AppInstance'', sa_AppInstance p),
       (''Name'', sa_Name p)]"

definition references :: "string list \<Rightarrow> string option list option" where
  "references xs = (if 0 < length xs then Some (map Some xs) else None)"

definition service_account_New :: "validator_error \<Rightarrow> service_account_props \<Rightarrow> goerr + kube_service_account" where
  "service_account_New verr p =
     (case service_account_broken p of
        [] \<Rightarrow>
          (case NewMetadataFactory verr (metadata_of (sa_Namespace p) (sa_AppName p) (sa_AppInstance p) (sa_Name p)) of
             Inl e \<Rightarrow> Inl (the (Wrapf (Some e) ''failed to create default metadata for role''))
           | Inr f \<Rightarrow> Inr \<lparr>ksa_meta = K8sResourceMetadata f, ksa_secrets = references (sa_Secrets p),
               ksa_imagePullSecrets = references (sa_ImagePullSecrets p),
               ksa_automount = sa_AutomountServiceAccountToken p, ksa_props = p\<rparr>)
      | fs \<Rightarrow> Inl (verr fs))"

definition GetServiceAccountName :: "kube_service_account \<Rightarrow> string" where
  "GetServiceAccountName a = sa_Name (ksa_props a)"

definition GetNamespace :: "kube_service_account \<Rightarrow> string" where
  "GetNamespace a = sa_Namespace (ksa_props a)"

section \<open>Outcomes\<close>

lemma role_New_iff:
  "role_New verr p =
     (if role_broken p = []
      then Inr \<lparr>kro_meta = K8sResourceMetadata (metadata_of (ro_Namespace p) (ro_AppName p) (ro_AppInstance p) (ro_Name p)),
        kro_rules = Some (ro_Rules p), kro_props = p\<rparr>
      else Inl (verr (role_broken p)))"
proof (cases "role_broken p")
  case Nil
  then have "NewMetadataFactory verr (metadata_of (ro_Namespace p) (ro_AppName p) (ro_AppInstance p) (ro_Name p))
      = Inr (metadata_of (ro_Namespace p) (ro_AppName p) (ro_AppInstance p) (ro_Name p))"
    by (intro NewMetadataFactory_ok) (simp_all add: role_broken_def missing_Nil_iff)
  with Nil show ?thesis by (simp add: role_New_def)
qed (simp add: role_New_def)

lemma role_binding_New_iff:
  "role_binding_New verr p =
     (if role_binding_broken p = []
      then Inr \<lparr>krb_meta = K8sResourceMetadata (metadata_of (rb_Namespace p) (rb_AppName p) (rb_AppInstance p) (rb_Name p)),
        krb_roleRef = rb_RoleRef p, krb_subjects = Some (rb_Subjects p), krb_props = p\<rparr>
      else Inl (verr (role_binding_broken p)))"
proof (cases "role_binding_broken p")
  case Nil
  then have "NewMetadataFactory verr (metadata_of (rb_Namespace p) (rb_AppName p) (rb_AppInstance p) (rb_Name p))
      = Inr (metadata_of (rb_Namespace p) (rb_AppName p) (rb_AppInstance p) (rb_Name p))"
    by (intro NewMetadataFactory_ok) (simp_all add: role_binding_broken_def missing_Nil_iff)
  with Nil show ?thesis by (simp add: role_binding_New_def)
qed (simp add: role_binding_New_def)

lemma service_account_New_iff:
  "service_account_New verr p =
     (if service_account_broken p = []
      then Inr \<lparr>ksa_meta = K8sResourceMetadata (metadata_of (sa_Namespace p) (sa_AppName p) (sa_AppInstance p) (sa_Name p)),
        ksa_secrets = references (sa_Secrets p), ksa_imagePullSecrets = references (sa_ImagePullSecrets p),
        ksa_automount = sa_AutomountServiceAccountToken p, ksa_props = p\<rparr>
      else Inl (verr (service_account_broken p)))"
proof (cases "service_account_broken p")
  case Nil
  then have "NewMetadataFactory verr (metadata_of (sa_Namespace p) (sa_AppName p) (sa_AppInstance p) (sa_Name p))
      = Inr (metadata_of (sa_Namespace p) (sa_AppName p) (sa_AppInstance p) (sa_Name p))"
    by (intro NewMetadataFactory_ok) (simp_all add: service_account_broken_def missing_Nil_iff)
  with Nil show ?thesis by (simp add: service_account_New_def)
qed (simp add: service_account_New_def)

section \<open>What is allowed\<close>

text \<open>
  The authorisation of Kubernetes over one role and one binding in a namespace: a rule that names the group, the
  resource, the verb, and, when it lists names, the object.
\<close>

definition lists :: "string option list option \<Rightarrow> string \<Rightarrow> bool" where
  "lists xs x \<longleftrightarrow> (case xs of None \<Rightarrow> False | Some xs \<Rightarrow> Some x \<in> set xs)"

definition rule_allows :: "policy_rule \<Rightarrow> string \<Rightarrow> string \<Rightarrow> string \<Rightarrow> string \<Rightarrow> bool" where
  "rule_allows r grp res obj verb \<longleftrightarrow> lists (pr_ApiGroups r) grp \<and> lists (pr_Resources r) res \<and> lists (pr_Verbs r) verb \<and>
     (pr_ResourceNames r = None \<or> lists (pr_ResourceNames r) obj)"

definition allowed ::
    "kube_role \<Rightarrow> kube_role_binding \<Rightarrow> string \<times> string \<Rightarrow> string \<Rightarrow> string \<Rightarrow> string \<Rightarrow> string \<Rightarrow> string \<Rightarrow> bool" where
  "allowed r bind account ns grp res obj verb \<longleftrightarrow>
     om_Namespace (kro_meta r) = Some ns \<and> om_Namespace (krb_meta bind) = Some ns \<and>
     (case krb_roleRef bind of None \<Rightarrow> False
      | Some ref \<Rightarrow> rr_Kind ref = Some ''Role'' \<and> rr_Name ref = om_Name (kro_meta r)) \<and>
     (case krb_subjects bind of None \<Rightarrow> False
      | Some ss \<Rightarrow> \<exists>s. Some s \<in> set ss \<and> sj_Kind s = Some ''ServiceAccount'' \<and>
          sj_Namespace s = Some (fst account) \<and> sj_Name s = Some (snd account)) \<and>
     (case kro_rules r of None \<Rightarrow> False | Some rs \<Rightarrow> \<exists>x. Some x \<in> set rs \<and> rule_allows x grp res obj verb)"

end
