(* ===== verification/Builds.thy ===== *)
theory Builds
  imports Bootstrap ConfigMaps Rbac
begin

text \<open>
  What a composite of crib/composite builds: its parts in the order they are created, with the dependencies the
  composite adds between them, and the sequencing of component functions that may fail or panic.
\<close>

section \<open>Building a composite\<close>

text \<open>
  The parts that were created so far, with their dependencies.  A construct is the list of the parts in it, and a
  call of \<open>AddDependency\<close> makes every part of one construct depend on every part of the other.
\<close>

datatype part =
    HelmPart helm_chart | ApplyPart csa_component | ConfigPart kube_config_map
  | PodsPart kube_pods | ServicePart kube_service | IngressPart kube_ingress
  | RolePart kube_role | BindingPart kube_role_binding | AccountPart kube_service_account

record build =
  bd_parts :: "part list"
  bd_deps :: "(nat \<times> nat) list"

definition add_part :: "part \<Rightarrow> build \<Rightarrow> build \<times> nat list" where
  "add_part x b = (b\<lparr>bd_parts := bd_parts b @ [x]\<rparr>, [length (bd_parts b)])"

definition depend :: "nat list \<Rightarrow> nat list \<Rightarrow> build \<Rightarrow> build" where
  "depend is js b = b\<lparr>bd_deps := bd_deps b @ List.product is js\<rparr>"

text \<open>The outcome of a component function that works on the store and on the composite it is called in.\<close>

type_synonym 'a built = "(heap \<times> build \<times> (goerr + 'a)) option"

definition and_then :: "'a built \<Rightarrow> (goerr \<Rightarrow> goerr) \<Rightarrow> (heap \<Rightarrow> build \<Rightarrow> 'a \<Rightarrow> 'b built) \<Rightarrow> 'b built" where
  "and_then x wrap f =
     (case x of
        None \<Rightarrow> None
      | Some (h, b, Inl e) \<Rightarrow> Some (h, b, Inl (wrap e))
      | Some (h, b, Inr a) \<Rightarrow> f h b a)"

definition chart_part :: "(heap \<times> props_arg \<times> (goerr + helm_chart)) option \<Rightarrow> build \<Rightarrow> nat list built" where
  "chart_part x b =
     (case x of
        None \<Rightarrow> None
      | Some (h, _, Inl e) \<Rightarrow> Some (h, b, Inl e)
      | Some (h, _, Inr c) \<Rightarrow> (case add_part (HelmPart c) b of (b', k) \<Rightarrow> Some (h, b', Inr k)))"

abbreviation empty_build :: build where "empty_build \<equiv> \<lparr>bd_parts = [], bd_deps = []\<rparr>"

text \<open>A workload, its service and its ingress; a construct is named by its position.\<close>

definition chart_id :: "build \<Rightarrow> string" where
  "chart_id b = show_nat (length (bd_parts b))"

definition wrapped :: "string \<Rightarrow> goerr \<Rightarrow> goerr" where
  "wrapped msg e = the (Wrapf (Some e) msg)"

definition pods_part :: "(goerr + workload \<times> kube_pods) option \<Rightarrow> heap \<Rightarrow> build \<Rightarrow> (nat list \<times> workload) built" where
  "pods_part x h b =
     (case x of
        None \<Rightarrow> None
      | Some (Inl e) \<Rightarrow> Some (h, b, Inl e)
      | Some (Inr (w, k)) \<Rightarrow> (case add_part (PodsPart k) b of (b', i) \<Rightarrow> Some (h, b', Inr (i, w))))"

definition service_part :: "(goerr + kube_service) option \<Rightarrow> heap \<Rightarrow> build \<Rightarrow> nat list built" where
  "service_part x h b =
     (case x of
        None \<Rightarrow> None
      | Some (Inl e) \<Rightarrow> Some (h, b, Inl e)
      | Some (Inr s) \<Rightarrow> (case add_part (ServicePart s) b of (b', i) \<Rightarrow> Some (h, b', Inr i)))"

definition ingress_part :: "(goerr + kube_service \<times> kube_ingress) option \<Rightarrow> heap \<Rightarrow> build \<Rightarrow> nat list built" where
  "ingress_part x h b =
     (case x of
        None \<Rightarrow> None
      | Some (Inl e) \<Rightarrow> Some (h, b, Inl e)
      | Some (Inr (s, g)) \<Rightarrow>
          (case add_part (ServicePart s) b of (b', i) \<Rightarrow>
            (case add_part (IngressPart g) b' of (b'', j) \<Rightarrow> Some (h, b'', Inr (i @ j)))))"

definition wait_for_pods :: "string \<Rightarrow> string list \<Rightarrow> csa_component" where
  "wait_for_pods ns labels =
     csa_New (apply_props ns ''kubectl''
       [''wait'', ''-n'', ns, ''--for=condition=ready'', ''pod'', ''-l='' @ join_with '','' labels, ''--timeout=600s''])"

section \<open>What a step adds\<close>

lemma and_then_Inr:
  "and_then x wrap f = Some (h', b', Inr y) \<longleftrightarrow> (\<exists>h b a. x = Some (h, b, Inr a) \<and> f h b a = Some (h', b', Inr y))"
  by (auto simp: and_then_def split: option.splits prod.splits sum.splits)

lemma chart_part_ok:
  assumes "chart_part x b = Some (h, b', Inr k)"
  shows "\<exists>c. b' = b\<lparr>bd_parts := bd_parts b @ [HelmPart c]\<rparr> \<and> k = [length (bd_parts b)]"
  using assms by (auto simp: chart_part_def add_part_def split: option.splits prod.splits sum.splits)

lemma wrapped_eq [simp]: "wrapped msg e = CErr (WrapErr msg e)"
  by (simp add: wrapped_def Wrapf_def Wrap_def)

lemma pods_part_Inr:
  "pods_part x h b = Some (h', b', Inr (i, w)) \<longleftrightarrow>
     (\<exists>k. x = Some (Inr (w, k)) \<and> h' = h \<and> b' = b\<lparr>bd_parts := bd_parts b @ [PodsPart k]\<rparr> \<and> i = [length (bd_parts b)])"
  by (auto simp: pods_part_def add_part_def split: option.splits sum.splits)

lemma service_part_Inr:
  "service_part x h b = Some (h', b', Inr i) \<longleftrightarrow>
     (\<exists>s. x = Some (Inr s) \<and> h' = h \<and> b' = b\<lparr>bd_parts := bd_parts b @ [ServicePart s]\<rparr> \<and> i = [length (bd_parts b)])"
  by (auto simp: service_part_def add_part_def split: option.splits sum.splits)

lemma ingress_part_Inr:
  "ingress_part x h b = Some (h', b', Inr i) \<longleftrightarrow>
     (\<exists>s g. x = Some (Inr (s, g)) \<and> h' = h \<and> b' = b\<lparr>bd_parts := bd_parts b @ [ServicePart s, IngressPart g]\<rparr> \<and>
       i = [length (bd_parts b), Suc (length (bd_parts b))])"
  by (auto simp: ingress_part_def add_part_def split: option.splits sum.splits)

text \<open>The parts no dependency leads to: manifests that wait for a node.\<close>

fun is_apply :: "part \<Rightarrow> bool" where
  "is_apply (ApplyPart m) \<longleftrightarrow> True"
| "is_apply _ \<longleftrightarrow> False"

section \<open>The order of the parts\<close>

lemma before_iff_nth:
  assumes "distinct xs"
  shows "before j i xs \<longleftrightarrow> (\<exists>a b. a < b \<and> b < length xs \<and> xs ! a = j \<and> xs ! b = i)"
proof
  assume "\<exists>a b. a < b \<and> b < length xs \<and> xs ! a = j \<and> xs ! b = i"
  then obtain a b where "a < b" "b < length xs" "xs ! a = j" "xs ! b = i" by blast
  with assms show "before j i xs"
  proof (induction xs arbitrary: a b)
    case (Cons x xs)
    show ?case
    proof (cases a)
      case 0
      with Cons.prems show ?thesis by (cases b) auto
    next
      case (Suc a')
      then obtain b' where "b = Suc b'" using Cons.prems(2) by (cases b) auto
      with Cons Suc have "before j i xs" "j \<in> set xs" by auto
      with Cons.prems(1) show ?thesis by auto
    qed
  qed simp
qed (rule before_nth)

lemma before_trans:
  assumes "distinct xs" "before i j xs" "before j k xs"
  shows "before i k xs"
proof -
  from assms(2,3) obtain a b c d where "a < b" "b < length xs" "xs ! a = i" "xs ! b = j" "c < d" "d < length xs" "xs ! c = j" "xs ! d = k"
    unfolding before_iff_nth[OF assms(1)] by blast
  moreover from this have "b = c" using assms(1) by (metis nth_eq_iff_index_eq order.strict_trans)
  ultimately show ?thesis unfolding before_iff_nth[OF assms(1)] by (metis order.strict_trans)
qed

text \<open>The parts can be applied in the order they were created in.\<close>

lemma ordered_creation:
  assumes "list_all (\<lambda>(i, j). j < i \<and> i < length (bd_parts b)) (bd_deps b)"
  shows "keeps_deps (bd_deps b) [0..<length (bd_parts b)]"
  using assms by (fastforce simp: keeps_deps_def list_all_iff before_iff_nth)

end
