(* ===== verification/Blockchains.thy ===== *)
theory Blockchains
  imports Builds Indent
begin

text \<open>
  The sandbox composites of crib/composite/sandbox: blockchain nodes, explorers, their network information and
  the composite of several chains (blockchain/node, explorer, networkinfo, chains), and the JD sandbox
  (chainlink/jd).  They deploy the charts of \<open>Charts\<close>; the store of the values is passed along, the outer result
  \<open>None\<close> is a panic.
\<close>

text \<open>The packages: their defaults, and the merge of those that use \<open>mergo\<close>.\<close>

record packages =
  pg_env :: chart_env
  pg_anvil :: chart_ref
  pg_aptos :: chart_ref
  pg_otterscan :: chart_ref
  pg_jd :: chart_ref
  pg_postgres :: chart_ref
  pg_merge :: "heap \<Rightarrow> nat \<Rightarrow> nat option \<Rightarrow> heap"

section \<open>Blockchain nodes\<close>

definition BlockchainTypeAnvil :: string where "BlockchainTypeAnvil = ''anvil''"
definition BlockchainTypeAptos :: string where "BlockchainTypeAptos = ''aptos''"

record bc_node =
  bn_Values :: "nat option"
  bn_Namespace :: string
  bn_ReleaseName :: string
  bn_Type :: string
  bn_ChainID :: string
  bn_ValuesPatches :: "string list list"

definition bc_node_Validate :: "bc_node \<Rightarrow> goerr option" where
  "bc_node_Validate p =
     (if bn_Type p = [] then Some (ErrText ''blockchain type must be specified'')
      else if bn_Type p \<noteq> BlockchainTypeAnvil \<and> bn_Type p \<noteq> BlockchainTypeAptos then
        Some (ErrText (''invalid blockchain type: '' @ bn_Type p @ '', must be one of: '' @ BlockchainTypeAnvil @ '', '' @ BlockchainTypeAptos))
      else if bn_ChainID p = [] then Some (ErrText ''chain ID must be specified'')
      else None)"

definition sandbox_chart_props :: "string \<Rightarrow> string \<Rightarrow> nat option \<Rightarrow> string list list \<Rightarrow> chart_props" where
  "sandbox_chart_props ns release values patches =
     \<lparr>cp_Name = [], cp_Chart = [], cp_Namespace = ns, cp_ReleaseName = release, cp_Repo = [], cp_ValuesLoader = None,
       cp_Values = values, cp_Version = [], cp_ValuesPatches = patches, cp_Flags = None, cp_WaitForReady = False\<rparr>"

definition devspace_labels :: "string \<Rightarrow> string list" where
  "devspace_labels release = [''app.kubernetes.io/component='' @ release, ''app.kubernetes.io/name=devspace-app'']"

definition CreateNode :: "packages \<Rightarrow> string \<Rightarrow> chart_props \<Rightarrow> heap \<Rightarrow> build \<Rightarrow> nat list built" where
  "CreateNode g t cp h b =
     (if t = BlockchainTypeAnvil then chart_part (anvil_Component (pg_merge g) (pg_env g) (pg_anvil g) (ChartPropsOf cp) h) b
      else if t = BlockchainTypeAptos then chart_part (aptos_Component (pg_env g) (pg_aptos g) (ChartPropsOf cp) h) b
      else Some (h, b, Inl (ErrText (''unsupported blockchain type: '' @ t))))"

definition blockchainNode :: "packages \<Rightarrow> bc_node \<Rightarrow> heap \<Rightarrow> build \<Rightarrow> nat list built" where
  "blockchainNode g p h b =
     and_then (CreateNode g (bn_Type p) (sandbox_chart_props (bn_Namespace p) (bn_ReleaseName p) (bn_Values p) (bn_ValuesPatches p)) h b)
       (\<lambda>e. e)
       (\<lambda>h b k.
         case add_part (ApplyPart (wait_for_pods (bn_Namespace p) (devspace_labels (bn_ReleaseName p)))) b of
           (b', w) \<Rightarrow> Some (h, depend w k b', Inr k))"

definition bc_node_Component :: "packages \<Rightarrow> bc_node \<Rightarrow> heap \<Rightarrow> build \<Rightarrow> nat list built" where
  "bc_node_Component g p h b = (case bc_node_Validate p of Some e \<Rightarrow> Some (h, b, Inl e) | None \<Rightarrow> blockchainNode g p h b)"

section \<open>Explorers\<close>

definition ExplorerTypeOtterscan :: string where "ExplorerTypeOtterscan = ''otterscan''"
definition ExplorerTypeBlockscout :: string where "ExplorerTypeBlockscout = ''blockscout''"

record explorer =
  xp_Namespace :: string
  xp_ReleaseName :: string
  xp_Type :: string
  xp_Values :: "nat option"
  xp_ValuesPatches :: "string list list"

definition explorer_broken :: "explorer \<Rightarrow> string list" where
  "explorer_broken p = (if xp_Type p \<in> {ExplorerTypeOtterscan, ExplorerTypeBlockscout} then [] else [''Type''])"

definition CreateExplorer :: "packages \<Rightarrow> string \<Rightarrow> chart_props \<Rightarrow> heap \<Rightarrow> build \<Rightarrow> nat list built" where
  "CreateExplorer g t cp h b =
     (if t = ExplorerTypeOtterscan then
        chart_part (otterscan_Component (pg_merge g) (pg_env g) (pg_otterscan g) (ChartPropsOf cp) h) b
      else if t = ExplorerTypeBlockscout then
        Some (h, b, Inl (ErrText ''blockscout explorer type is not yet implemented''))
      else Some (h, b, Inl (ErrText (''unsupported explorer type: '' @ t))))"

text \<open>The chart that is returned holds the explorer and the manifest that waits for it.\<close>

definition blockchainExplorer :: "validator_error \<Rightarrow> packages \<Rightarrow> explorer \<Rightarrow> heap \<Rightarrow> build \<Rightarrow> nat list built" where
  "blockchainExplorer verr g p h b =
     (case explorer_broken p of
        [] \<Rightarrow>
          and_then (CreateExplorer g (xp_Type p)
              (sandbox_chart_props (xp_Namespace p) (xp_ReleaseName p) (xp_Values p) (xp_ValuesPatches p)) h b)
            (\<lambda>e. e)
            (\<lambda>h b k.
              case add_part (ApplyPart (wait_for_pods (xp_Namespace p) (devspace_labels (xp_ReleaseName p)))) b of
                (b', w) \<Rightarrow> Some (h, depend w k b', Inr (k @ w)))
      | fs \<Rightarrow> Some (h, b, Inl (verr fs)))"

definition explorer_Component :: "validator_error \<Rightarrow> packages \<Rightarrow> explorer \<Rightarrow> heap \<Rightarrow> build \<Rightarrow> nat list built" where
  "explorer_Component verr g p h b =
     (case explorer_broken p of [] \<Rightarrow> blockchainExplorer verr g p h b | fs \<Rightarrow> Some (h, b, Inl (verr fs)))"

section \<open>Network information\<close>

definition network_toml :: "bc_node \<Rightarrow> string" where
  "network_toml p =
     RemoveIndentation (literal
       [(0, []), (3, ''[[EVM]]''), (3, ''ChainID = '' @ DQ @ bn_ChainID p @ DQ), (0, []), (3, ''[[EVM.Nodes]]''),
        (3, ''Name = '' @ QU @ bn_ChainID p @ ''_primary_chainlink_local'' @ QU),
        (3, ''HTTPURL = '' @ DQ @ ''http://'' @ bn_ReleaseName p @ ''.'' @ bn_Namespace p @ ''.svc.cluster.local:8545'' @ DQ),
        (3, ''WSURL = '' @ DQ @ ''ws://'' @ bn_ReleaseName p @ ''.'' @ bn_Namespace p @ ''.svc.cluster.local:8545'' @ DQ), (2, [])])"

definition network_props :: "bc_node \<Rightarrow> configmap_props" where
  "network_props p =
     \<lparr>pm_DataLoader = None, pm_Data = Some [(''01-network-'' @ bn_ReleaseName p @ ''.toml'', Some (network_toml p))],
       pm_Namespace = bn_Namespace p, pm_AppName = ''blockchain-networks'', pm_AppInstance = ''blockchain-networks-instance'',
       pm_Name = ''network-anvil-'' @ bn_ChainID p\<rparr>"

definition networkInfo :: "validator_error \<Rightarrow> bc_node \<Rightarrow> heap \<Rightarrow> build \<Rightarrow> nat list built" where
  "networkInfo verr p h b =
     (case configmap_Component verr (network_props p) of
        None \<Rightarrow> None
      | Some (Inl e, _) \<Rightarrow> Some (h, b, Inl (WrapErr ''failed to create configmap'' e))
      | Some (Inr cm, _) \<Rightarrow> (case add_part (ConfigPart cm) b of (b', k) \<Rightarrow> Some (h, b', Inr k)))"

definition networkInfo_Component :: "validator_error \<Rightarrow> bc_node option \<Rightarrow> heap \<Rightarrow> build \<Rightarrow> nat list built" where
  "networkInfo_Component verr np h b =
     (case np of
        None \<Rightarrow> Some (h, b, Inl (ErrText ''node props cannot be nil''))
      | Some p \<Rightarrow>
          (case bc_node_Validate p of
             Some e \<Rightarrow> Some (h, b, Inl (WrapErr ''invalid node props'' e))
           | None \<Rightarrow> networkInfo verr p h b))"

section \<open>Several chains\<close>

text \<open>Pointers may be nil; a slice that is nil differs from an empty one for the rules.\<close>

record chain_config =
  bx_Explorer :: "explorer option"
  bx_NodeSet :: "bc_node option list option"

definition bx_nodes :: "chain_config \<Rightarrow> bc_node option list" where
  "bx_nodes c = (case bx_NodeSet c of None \<Rightarrow> [] | Some ns \<Rightarrow> ns)"

definition chains_broken :: "chain_config option list \<Rightarrow> string list" where
  "chains_broken configs =
     concat (map (\<lambda>c. case c of
         None \<Rightarrow> []
       | Some c \<Rightarrow> (case bx_Explorer c of None \<Rightarrow> [] | Some x \<Rightarrow> explorer_broken x)
           @ (if bx_NodeSet c = None then [''NodeSet''] else [])) configs)"

fun check_nodes :: "nat \<Rightarrow> nat \<Rightarrow> bc_node option list \<Rightarrow> goerr option" where
  "check_nodes i j [] = None"
| "check_nodes i j (None # ns) =
     Some (ErrText (''blockchain config '' @ show_nat i @ '', node '' @ show_nat j @ '': node props cannot be nil''))"
| "check_nodes i j (Some p # ns) =
     (case bc_node_Validate p of
        Some e \<Rightarrow> Some (WrapErr (''blockchain config '' @ show_nat i @ '', node '' @ show_nat j) e)
      | None \<Rightarrow> check_nodes i (Suc j) ns)"

text \<open>A nil config is dereferenced: \<open>None\<close>.\<close>

fun check_configs :: "nat \<Rightarrow> chain_config option list \<Rightarrow> goerr option option" where
  "check_configs i [] = Some None"
| "check_configs i (None # cs) = None"
| "check_configs i (Some c # cs) =
     (if length (bx_nodes c) = 0 then
        Some (Some (ErrText (''blockchain config '' @ show_nat i @ '': node set cannot be empty'')))
      else
        (case check_nodes i 0 (bx_nodes c) of
           Some e \<Rightarrow> Some (Some e)
         | None \<Rightarrow> check_configs (Suc i) cs))"

definition chains_Validate :: "validator_error \<Rightarrow> chain_config option list \<Rightarrow> goerr option option" where
  "chains_Validate verr configs =
     (case chains_broken configs of [] \<Rightarrow> check_configs 0 configs | fs \<Rightarrow> Some (Some (verr fs)))"

text \<open>The loop over the nodes of a chain, with the components that were created so far.\<close>

fun create_set ::
    "validator_error \<Rightarrow> packages \<Rightarrow> nat \<Rightarrow> explorer option \<Rightarrow> nat \<Rightarrow> bc_node option list \<Rightarrow> heap \<Rightarrow> build \<Rightarrow> nat list list
      \<Rightarrow> nat list list built" where
  "create_set verr g i ex j [] h b all = Some (h, b, Inr all)"
| "create_set verr g i ex j (None # ns) h b all = None"
| "create_set verr g i ex j (Some p # ns) h b all =
     and_then (bc_node_Component g p h b)
       (WrapErr (''failed to create blockchain '' @ show_nat i @ '', node '' @ show_nat j))
       (\<lambda>h b k.
         case (ex, j) of
           (Some x, 0) \<Rightarrow>
             and_then (explorer_Component verr g x h b)
               (WrapErr (''failed to create explorer for blockchain '' @ show_nat i))
               (\<lambda>h b e. create_set verr g i ex (Suc j) ns h (depend e k b) (all @ [k, e]))
         | _ \<Rightarrow> create_set verr g i ex (Suc j) ns h b (all @ [k]))"

fun create_chains ::
    "validator_error \<Rightarrow> packages \<Rightarrow> nat \<Rightarrow> chain_config option list \<Rightarrow> heap \<Rightarrow> build \<Rightarrow> nat list list \<Rightarrow> nat list list built" where
  "create_chains verr g i [] h b all = Some (h, b, Inr all)"
| "create_chains verr g i (None # cs) h b all = None"
| "create_chains verr g i (Some c # cs) h b all =
     and_then (create_set verr g i (bx_Explorer c) 0 (bx_nodes c) h b all)
       (\<lambda>e. e)
       (\<lambda>h b all.
         case bx_nodes c of
           [] \<Rightarrow> None
         | n # _ \<Rightarrow>
             and_then (networkInfo_Component verr n h b)
               (WrapErr (''failed to create network info for blockchain '' @ show_nat i @ '', node '' @ show_nat 0))
               (\<lambda>h b k. create_chains verr g (Suc i) cs h b (all @ [k])))"

datatype processing_mode = Sequential | Parallel

definition chain_deps :: "nat list list \<Rightarrow> build \<Rightarrow> build" where
  "chain_deps all b = fold (\<lambda>i. depend (all ! i) (all ! (i - 1))) [1..<length all] b"

text \<open>The chart of the chains, as the components created in it, in order.\<close>

definition blockchains ::
    "validator_error \<Rightarrow> packages \<Rightarrow> processing_mode \<Rightarrow> chain_config option list \<Rightarrow> heap \<Rightarrow> build \<Rightarrow> nat list list built" where
  "blockchains verr g mode configs h b =
     and_then (create_chains verr g 0 configs h b [])
       (\<lambda>e. e)
       (\<lambda>h b all. Some (h, if mode = Sequential \<and> 1 < length all then chain_deps all b else b, Inr all))"

definition chains_Component ::
    "validator_error \<Rightarrow> packages \<Rightarrow> (processing_mode \<Rightarrow> processing_mode) list \<Rightarrow> chain_config option list \<Rightarrow> heap \<Rightarrow> build
      \<Rightarrow> nat list list built" where
  "chains_Component verr g opts configs h b =
     (case chains_Validate verr configs of
        None \<Rightarrow> None
      | Some (Some e) \<Rightarrow> Some (h, b, Inl e)
      | Some None \<Rightarrow> blockchains verr g (fold (\<lambda>opt. opt) opts Sequential) configs h b)"

definition ParallelProcessing :: "processing_mode \<Rightarrow> processing_mode" where
  "ParallelProcessing m = Parallel"

section \<open>The JD sandbox\<close>

record sandbox_jd =
  sj_JD_Namespace :: string
  sj_JD_ReleaseName :: string
  sj_JD_Values :: "nat option"
  sj_JD_ValuesPatches :: "string list list"
  sj_DB_Namespace :: string
  sj_DB_ReleaseName :: string
  sj_DB_Values :: "nat option"
  sj_DB_ValuesPatches :: "string list list"

definition sandbox_jd_composite :: "packages \<Rightarrow> sandbox_jd \<Rightarrow> heap \<Rightarrow> build \<Rightarrow> nat list built" where
  "sandbox_jd_composite g p h b =
     and_then (chart_part (postgres_Component (pg_env g) (pg_postgres g) (ChartPropsOf
         (sandbox_chart_props (sj_DB_Namespace p) (sj_DB_ReleaseName p) (sj_DB_Values p) (sj_DB_ValuesPatches p))) h) b)
       (\<lambda>e. e)
       (\<lambda>h b pg.
         case add_part (ApplyPart (wait_for_pods (sj_DB_Namespace p)
             [''statefulset.kubernetes.io/pod-name='' @ sj_DB_ReleaseName p @ ''-0'', ''app.kubernetes.io/name=postgresql''])) b of
           (b, waitForDB) \<Rightarrow>
             and_then (chart_part (jd_Component (pg_env g) (pg_jd g) (ChartPropsOf
                 (sandbox_chart_props (sj_DB_Namespace p) (sj_JD_ReleaseName p) (sj_JD_Values p) (sj_JD_ValuesPatches p))) h) b)
               (\<lambda>e. e)
               (\<lambda>h b jd.
                 case add_part (ApplyPart (wait_for_pods (sj_JD_Namespace p) (devspace_labels (sj_JD_ReleaseName p)))) b of
                   (b, waitForJD) \<Rightarrow>
                     Some (h, depend waitForJD jd (depend jd waitForDB (depend waitForDB pg b)), Inr waitForJD)))"

section \<open>What a step adds\<close>

lemma node_ok:
  assumes "bc_node_Component g p h b = Some (h', b', Inr k)"
  shows "\<exists>c w. bd_parts b' = bd_parts b @ [HelmPart c, ApplyPart w] \<and>
      bd_deps b' = bd_deps b @ [(Suc (length (bd_parts b)), length (bd_parts b))] \<and> k = [length (bd_parts b)]"
  using assms
  by (auto simp: bc_node_Component_def blockchainNode_def and_then_Inr CreateNode_def add_part_def depend_def
      dest!: chart_part_ok split: option.splits if_splits)

lemma explorer_ok:
  assumes "explorer_Component verr g p h b = Some (h', b', Inr k)"
  shows "\<exists>c w. bd_parts b' = bd_parts b @ [HelmPart c, ApplyPart w] \<and>
      bd_deps b' = bd_deps b @ [(Suc (length (bd_parts b)), length (bd_parts b))] \<and> k = [length (bd_parts b), Suc (length (bd_parts b))]"
  using assms
  by (auto simp: explorer_Component_def blockchainExplorer_def and_then_Inr CreateExplorer_def add_part_def depend_def
      dest!: chart_part_ok split: list.splits if_splits)

lemma network_ok:
  assumes "networkInfo_Component verr np h b = Some (h', b', Inr k)"
  shows "\<exists>cm. bd_parts b' = bd_parts b @ [ConfigPart cm] \<and> bd_deps b' = bd_deps b \<and> k = [length (bd_parts b)]"
  using assms
  by (auto simp: networkInfo_Component_def networkInfo_def add_part_def split: option.splits prod.splits sum.splits)

text \<open>
  The invariant of the loops: a dependency goes to a part that was created earlier, and the components are created
  one after the other.
\<close>

definition ordered_build :: "build \<Rightarrow> nat list list \<Rightarrow> bool" where
  "ordered_build b all \<longleftrightarrow> list_all (\<lambda>(i, j). j < i \<and> i < length (bd_parts b)) (bd_deps b) \<and>
     sorted_wrt (<) (concat all) \<and> list_all (\<lambda>i. i < length (bd_parts b)) (concat all) \<and> [] \<notin> set all"

definition quiet :: "build \<Rightarrow> nat list list \<Rightarrow> bool" where
  "quiet b all \<longleftrightarrow> list_all (\<lambda>(i, j). \<not> is_apply (bd_parts b ! j)) (bd_deps b) \<and>
     list_all (\<lambda>i. \<not> is_apply (bd_parts b ! i)) (concat all)"

lemma ordered_grow:
  assumes "ordered_build b all" "n = length (bd_parts b)"
    and "bd_parts b' = bd_parts b @ xs" "set (bd_deps b') \<subseteq> set (bd_deps b) \<union> {(i, j). j < i \<and> i < n + length xs}"
    and "sorted_wrt (<) (concat ks)" "[] \<notin> set ks" "list_all (\<lambda>i. n \<le> i \<and> i < n + length xs) (concat ks)"
  shows "ordered_build b' (all @ ks)"
  unfolding ordered_build_def list_all_iff
proof (intro conjI ballI)
  have o: "j < i \<and> i < n" if "(i, j) \<in> set (bd_deps b)" for i j
    using assms(1,2) that by (auto simp: ordered_build_def list_all_iff)
  show "case x of (i, j) \<Rightarrow> j < i \<and> i < length (bd_parts b')" if "x \<in> set (bd_deps b')" for x
    using that assms(2-4) o by fastforce
  have c: "i < n" if "i \<in> set (concat all)" for i using assms(1,2) that by (auto simp: ordered_build_def list_all_iff)
  show "i < length (bd_parts b')" if "i \<in> set (concat (all @ ks))" for i
    using that c[of i] assms(2,3,7) by (fastforce simp: list_all_iff)
  have "i < j" if "i \<in> set (concat all)" "j \<in> set (concat ks)" for i j
    using c[OF that(1)] that(2) assms(7) by (fastforce simp: list_all_iff)
  then show "sorted_wrt (<) (concat (all @ ks))"
    using assms(1,5) by (simp only: concat_append sorted_wrt_append) (simp add: ordered_build_def)
  show "[] \<notin> set (all @ ks)" using assms(1,6) by (auto simp: ordered_build_def)
qed

lemma quiet_grow:
  assumes "quiet b all" "ordered_build b all" "n = length (bd_parts b)"
    and "bd_parts b' = bd_parts b @ xs" "set (bd_deps b') \<subseteq> set (bd_deps b) \<union> UNIV \<times> {n}" "set (concat ks) \<subseteq> {n}"
    and "xs \<noteq> []" "\<not> is_apply (hd xs)"
  shows "quiet b' (all @ ks)"
proof -
  have n: "bd_parts b' ! n = hd xs" using assms(3,4,7) by (simp add: nth_append hd_conv_nth)
  have old: "bd_parts b' ! i = bd_parts b ! i" if "i < n" for i using that assms(3,4) by (simp add: nth_append)
  have "\<not> is_apply (bd_parts b' ! j)" if "(i, j) \<in> set (bd_deps b')" for i j
  proof (cases "j = n")
    case False
    with that assms(5) have "(i, j) \<in> set (bd_deps b)" by blast
    with assms(1-3) old[of j] show ?thesis by (fastforce simp: quiet_def ordered_build_def list_all_iff)
  qed (simp add: n assms(8))
  moreover have "\<not> is_apply (bd_parts b' ! i)" if "i \<in> set (concat (all @ ks))" for i
  proof (cases "i = n")
    case False
    with that assms(6) have "i \<in> set (concat all)" by auto
    with assms(1-3) old[of i] show ?thesis by (fastforce simp: quiet_def ordered_build_def list_all_iff)
  qed (simp add: n assms(8))
  ultimately show ?thesis unfolding quiet_def list_all_iff by auto
qed

lemma create_set_ordered:
  assumes "create_set verr g i ex j ns h b all = Some (h', b', Inr all')" "ordered_build b all"
  shows "ordered_build b' all' \<and> (ex = None \<longrightarrow> quiet b all \<longrightarrow> quiet b' all')"
  using assms
proof (induction ns arbitrary: j h b all)
  case (Cons x ns)
  then obtain p where x: "x = Some p" by (cases x) auto
  from Cons.prems(1) obtain h1 b1 k where k: "bc_node_Component g p h b = Some (h1, b1, Inr k)"
    unfolding x by (auto simp: and_then_Inr)
  from node_ok[OF k] obtain c w where b1: "bd_parts b1 = bd_parts b @ [HelmPart c, ApplyPart w]"
      "bd_deps b1 = bd_deps b @ [(Suc (length (bd_parts b)), length (bd_parts b))]" and kn: "k = [length (bd_parts b)]" by blast
  have o1: "ordered_build b1 (all @ [k])"
    by (rule ordered_grow[OF Cons.prems(2) refl, where xs = "[HelmPart c, ApplyPart w]"]) (auto simp: b1 kn)
  have q1: "quiet b1 (all @ [k])" if "quiet b all"
    by (rule quiet_grow[OF that Cons.prems(2) refl, where xs = "[HelmPart c, ApplyPart w]"]) (auto simp: b1 kn)
  show ?case
  proof (cases "\<exists>y. ex = Some y \<and> j = 0")
    case True
    then obtain y where y: "ex = Some y" "j = 0" by blast
    from Cons.prems(1) k obtain h2 b2 e where e: "explorer_Component verr g y h1 b1 = Some (h2, b2, Inr e)"
      "create_set verr g i ex (Suc j) ns h2 (depend e k b2) (all @ [k, e]) = Some (h', b', Inr all')"
      unfolding x y by (auto simp: and_then_Inr)
    from explorer_ok[OF e(1)] obtain c' w' where b2: "bd_parts b2 = bd_parts b1 @ [HelmPart c', ApplyPart w']"
        "bd_deps b2 = bd_deps b1 @ [(Suc (length (bd_parts b1)), length (bd_parts b1))]"
      and en: "e = [length (bd_parts b1), Suc (length (bd_parts b1))]" by blast
    have "ordered_build (depend e k b2) ((all @ [k]) @ [e])"
      by (rule ordered_grow[OF o1 refl, where xs = "[HelmPart c', ApplyPart w']"]) (auto simp: b2 en kn b1 depend_def)
    from Cons.IH[OF e(2)] this y(1) show ?thesis by simp
  next
    case False
    with Cons.prems(1) k have "create_set verr g i ex (Suc j) ns h1 b1 (all @ [k]) = Some (h', b', Inr all')"
      unfolding x by (auto simp: and_then_Inr split: option.splits nat.splits)
    from Cons.IH[OF this o1] q1 show ?thesis by blast
  qed
qed simp

lemma create_chains_ordered:
  assumes "create_chains verr g i cs h b all = Some (h', b', Inr all')" "ordered_build b all"
  shows "ordered_build b' all' \<and> (list_all (\<lambda>c. \<forall>d. c = Some d \<longrightarrow> bx_Explorer d = None) cs \<longrightarrow> quiet b all \<longrightarrow> quiet b' all')"
  using assms
proof (induction cs arbitrary: i h b all)
  case (Cons x cs)
  then obtain c where x: "x = Some c" by (cases x) auto
  from Cons.prems(1) obtain n rest where n: "bx_nodes c = n # rest" unfolding x by (cases "bx_nodes c") (auto simp: and_then_Inr)
  from Cons.prems(1) obtain h1 b1 all1 h2 b2 k where s:
    "create_set verr g i (bx_Explorer c) 0 (bx_nodes c) h b all = Some (h1, b1, Inr all1)"
    "networkInfo_Component verr n h1 b1 = Some (h2, b2, Inr k)"
    "create_chains verr g (Suc i) cs h2 b2 (all1 @ [k]) = Some (h', b', Inr all')"
    unfolding x by (auto simp: and_then_Inr n)
  from network_ok[OF s(2)] obtain cm where b2: "bd_parts b2 = bd_parts b1 @ [ConfigPart cm]" "bd_deps b2 = bd_deps b1" "k = [length (bd_parts b1)]" by blast
  note o1 = create_set_ordered[OF s(1) Cons.prems(2)]
  have "ordered_build b2 (all1 @ [k])"
    by (rule ordered_grow[OF conjunct1[OF o1] refl, where xs = "[ConfigPart cm]"]) (auto simp: b2)
  moreover have "quiet b2 (all1 @ [k])" if "quiet b1 all1"
    by (rule quiet_grow[OF that conjunct1[OF o1] refl, where xs = "[ConfigPart cm]"]) (auto simp: b2)
  ultimately show ?case using Cons.IH[OF s(3)] o1 x by auto
qed simp

lemma deps_chain_deps:
  "bd_parts (chain_deps all b) = bd_parts b"
  "set (bd_deps (chain_deps all b)) = set (bd_deps b) \<union> (\<Union>m \<in> {1..<length all}. set (all ! m) \<times> set (all ! (m - 1)))"
proof -
  have "bd_parts (fold (\<lambda>i. depend (all ! i) (all ! (i - 1))) ms b) = bd_parts b \<and>
    set (bd_deps (fold (\<lambda>i. depend (all ! i) (all ! (i - 1))) ms b))
      = set (bd_deps b) \<union> (\<Union>m \<in> set ms. set (all ! m) \<times> set (all ! (m - 1)))" for ms
    by (induction ms arbitrary: b) (auto simp: depend_def)
  then show "bd_parts (chain_deps all b) = bd_parts b"
    "set (bd_deps (chain_deps all b)) = set (bd_deps b) \<union> (\<Union>m \<in> {1..<length all}. set (all ! m) \<times> set (all ! (m - 1)))"
    by (auto simp: chain_deps_def)
qed

section \<open>The order of the chains\<close>

lemma sequential_all:
  assumes b: "\<And>m i j. Suc m < length all \<Longrightarrow> i \<in> set (all ! m) \<Longrightarrow> j \<in> set (all ! Suc m) \<Longrightarrow> before i j order"
    and "[] \<notin> set all" "distinct order" "m < n" "n < length all" "i \<in> set (all ! m)" "j \<in> set (all ! n)"
  shows "before i j order"
  using assms(4-7)
proof (induction n arbitrary: j)
  case (Suc n)
  show ?case
  proof (cases "m = n")
    case False
    have "all ! n \<noteq> []" using assms(2) Suc.prems(2) by (metis Suc_lessD nth_mem)
    then obtain x where x: "x \<in> set (all ! n)" by (cases "all ! n") auto
    have "before i x order" using Suc False x by simp
    with b[OF Suc.prems(2) x Suc.prems(4)] show ?thesis using before_trans[OF assms(3)] by blast
  qed (use b Suc.prems in auto)
qed simp

text \<open>
  C13. Several chains in the sequential mode: the parts can always be applied, in the order of their creation, and
  every order that respects the dependencies applies all of one component before anything of the next; but
  without explorers nothing waits for the pods of a node: no part depends on a manifest that waits.
\<close>
theorem chains_sequential:
  assumes "chains_Component verr g [] configs h empty_build = Some (h', b, Inr all)"
  shows "keeps_deps (bd_deps b) [0..<length (bd_parts b)] \<and>
    (\<forall>order m n i j. distinct order \<longrightarrow> keeps_deps (bd_deps b) order \<longrightarrow> m < n \<longrightarrow> n < length all \<longrightarrow>
       i \<in> set (all ! m) \<longrightarrow> j \<in> set (all ! n) \<longrightarrow> before i j order) \<and>
    ((\<forall>c. Some c \<in> set configs \<longrightarrow> bx_Explorer c = None) \<longrightarrow> list_all (\<lambda>(i, j). \<not> is_apply (bd_parts b ! j)) (bd_deps b))"
proof -
  from assms obtain b1 where b1: "create_chains verr g 0 configs h empty_build [] = Some (h', b1, Inr all)"
    "b = (if 1 < length all then chain_deps all b1 else b1)"
    by (auto simp: chains_Component_def blockchains_def and_then_Inr split: option.splits)
  have "ordered_build empty_build []" "quiet empty_build []" by (simp_all add: ordered_build_def quiet_def)
  with create_chains_ordered[OF b1(1)] have o: "ordered_build b1 all"
    and q: "(\<forall>c. Some c \<in> set configs \<longrightarrow> bx_Explorer c = None) \<Longrightarrow> quiet b1 all"
    by (auto simp: list_all_iff)
  have parts: "bd_parts b = bd_parts b1" by (simp add: b1(2) deps_chain_deps)
  have deps: "set (bd_deps b) = set (bd_deps b1) \<union> (\<Union>m \<in> {1..<length all}. set (all ! m) \<times> set (all ! (m - 1)))"
    by (simp add: b1(2) deps_chain_deps)
  have inc: "i < j \<and> j < length (bd_parts b1)" if "Suc m < length all" "i \<in> set (all ! m)" "j \<in> set (all ! Suc m)" for m i j
  proof -
    have "all = take (Suc m) all @ drop (Suc m) all" by simp
    then have "concat all = concat (take (Suc m) all) @ concat (drop (Suc m) all)" by (metis concat_append)
    moreover have "sorted_wrt (<) (concat all)" using o by (simp add: ordered_build_def)
    moreover have "all ! m \<in> set (take (Suc m) all)" using that(1) by (simp add: take_Suc_conv_app_nth)
    moreover have "all ! Suc m \<in> set (drop (Suc m) all)" using that(1) by (simp flip: Cons_nth_drop_Suc)
    ultimately have "i < j" using that(2,3) by (auto simp: sorted_wrt_append)
    moreover have "j \<in> set (concat all)" using that(1,3) by auto
    ultimately show ?thesis using o by (auto simp: ordered_build_def list_all_iff)
  qed
  have "j < i \<and> i < length (bd_parts b)" if "(i, j) \<in> set (bd_deps b)" for i j
  proof (cases "(i, j) \<in> set (bd_deps b1)")
    case False
    with that deps obtain m where m: "m \<in> {1..<length all}" "i \<in> set (all ! m)" "j \<in> set (all ! (m - 1))" by blast
    then obtain l where "m = Suc l" by (cases m) auto
    with m inc[of l j i] show ?thesis by (simp add: parts)
  qed (use o parts in \<open>auto simp: ordered_build_def list_all_iff\<close>)
  then have "keeps_deps (bd_deps b) [0..<length (bd_parts b)]"
    by (intro ordered_creation) (auto simp: list_all_iff)
  moreover have "before i j order" if "distinct order" "keeps_deps (bd_deps b) order" "m < n" "n < length all"
      "i \<in> set (all ! m)" "j \<in> set (all ! n)" for order m n i j
  proof (rule sequential_all[OF _ _ that(1,3-6)])
    show "[] \<notin> set all" using o by (simp add: ordered_build_def)
    fix m i j assume "Suc m < length all" "i \<in> set (all ! m)" "j \<in> set (all ! Suc m)"
    then have "(j, i) \<in> set (bd_deps b)" unfolding deps by (intro UnI2 UN_I[of "Suc m"]) auto
    with that(2) show "before i j order" by (auto simp: keeps_deps_def list_all_iff)
  qed
  moreover have "list_all (\<lambda>(i, j). \<not> is_apply (bd_parts b ! j)) (bd_deps b)" if "\<forall>c. Some c \<in> set configs \<longrightarrow> bx_Explorer c = None"
  proof -
    have "\<not> is_apply (bd_parts b1 ! j)" if "j \<in> set (all ! (m - 1))" "m \<in> {1..<length all}" for j m
    proof -
      have "j \<in> set (concat all)" using that by (auto intro!: bexI[of _ "all ! (m - 1)"])
      with q \<open>\<forall>c. Some c \<in> set configs \<longrightarrow> bx_Explorer c = None\<close> show ?thesis by (auto simp: quiet_def list_all_iff)
    qed
    moreover have "\<not> is_apply (bd_parts b1 ! j)" if "(i, j) \<in> set (bd_deps b1)" for i j
      using q \<open>\<forall>c. Some c \<in> set configs \<longrightarrow> bx_Explorer c = None\<close> that by (fastforce simp: quiet_def list_all_iff)
    ultimately show ?thesis unfolding list_all_iff deps parts by blast
  qed
  ultimately show ?thesis by blast
qed

section \<open>The order of the JD sandbox\<close>

text \<open>
  C32. The JD sandbox is applied in one order only: the database, the wait for it, JD, the wait for JD, each wait
  after the pods it selects; JD itself is deployed to the namespace of the database, while its wait watches
  the namespace configured for JD.
\<close>
theorem sandbox_jd_in_order:
  assumes "sandbox_jd_composite g p h empty_build = Some (h', b, Inr k)"
  shows "\<exists>pg jd. bd_parts b =
      [HelmPart pg,
       ApplyPart (wait_for_pods (sj_DB_Namespace p)
         [''statefulset.kubernetes.io/pod-name='' @ sj_DB_ReleaseName p @ ''-0'', ''app.kubernetes.io/name=postgresql'']),
       HelmPart jd, ApplyPart (wait_for_pods (sj_JD_Namespace p) (devspace_labels (sj_JD_ReleaseName p)))] \<and>
    hx_ns pg = or_default (sj_DB_Namespace p) ''default'' \<and> hx_ns jd = or_default (sj_DB_Namespace p) ''default'' \<and>
    (\<forall>order. distinct order \<longrightarrow> set order = {..<length (bd_parts b)} \<longrightarrow> (keeps_deps (bd_deps b) order \<longleftrightarrow> order = [0, 1, 2, 3]))"
proof -
  from assms obtain h1 b1 pgk h2 b2 jdk where s:
    "chart_part (postgres_Component (pg_env g) (pg_postgres g) (ChartPropsOf
         (sandbox_chart_props (sj_DB_Namespace p) (sj_DB_ReleaseName p) (sj_DB_Values p) (sj_DB_ValuesPatches p))) h) empty_build
      = Some (h1, b1, Inr pgk)"
    "chart_part (jd_Component (pg_env g) (pg_jd g) (ChartPropsOf
         (sandbox_chart_props (sj_DB_Namespace p) (sj_JD_ReleaseName p) (sj_JD_Values p) (sj_JD_ValuesPatches p))) h1)
       (b1\<lparr>bd_parts := bd_parts b1 @ [ApplyPart (wait_for_pods (sj_DB_Namespace p)
         [''statefulset.kubernetes.io/pod-name='' @ sj_DB_ReleaseName p @ ''-0'', ''app.kubernetes.io/name=postgresql''])]\<rparr>)
      = Some (h2, b2, Inr jdk)"
    "b = depend [length (bd_parts b2)] jdk (depend jdk [length (bd_parts b1)] (depend [length (bd_parts b1)] pgk
        (b2\<lparr>bd_parts := bd_parts b2 @ [ApplyPart (wait_for_pods (sj_JD_Namespace p) (devspace_labels (sj_JD_ReleaseName p)))]\<rparr>)))"
    by (auto simp: sandbox_jd_composite_def and_then_Inr add_part_def)
  have ns: "hx_ns c = or_default ns ''default''"
    if "chart_part (Component env pkg (ChartPropsOf (sandbox_chart_props ns rel vs ps)) hh) bb = Some (hh', bb', Inr kk)"
      "bd_parts bb' = bd_parts bb @ [HelmPart c]" "pk_merge pkg = maps_Copy" for env pkg ns rel vs ps hh bb hh' bb' c kk
    using that Component_copies[OF that(3), of "sandbox_chart_props ns rel vs ps" env hh] helmchart_New_ok(3)
    by (auto simp: chart_part_def add_part_def sandbox_chart_props_def fill_defaults_def scalar_props_def
        split: option.splits prod.splits sum.splits if_splits)
  from chart_part_ok[OF s(1)] obtain pg where pg: "b1 = empty_build\<lparr>bd_parts := bd_parts empty_build @ [HelmPart pg]\<rparr>" "pgk = [0]" by auto
  from chart_part_ok[OF s(2)] obtain jd where jd: "b2 = (b1\<lparr>bd_parts := bd_parts b1 @ [ApplyPart (wait_for_pods (sj_DB_Namespace p)
         [''statefulset.kubernetes.io/pod-name='' @ sj_DB_ReleaseName p @ ''-0'', ''app.kubernetes.io/name=postgresql''])]\<rparr>)
       \<lparr>bd_parts := bd_parts (b1\<lparr>bd_parts := bd_parts b1 @ [ApplyPart (wait_for_pods (sj_DB_Namespace p)
         [''statefulset.kubernetes.io/pod-name='' @ sj_DB_ReleaseName p @ ''-0'', ''app.kubernetes.io/name=postgresql''])]\<rparr>) @ [HelmPart jd]\<rparr>"
    "jdk = [2]" by (auto simp: pg)
  have "hx_ns pg = or_default (sj_DB_Namespace p) ''default''" by (rule ns[OF s(1)[unfolded postgres_Component_def]]) (simp_all add: pg)
  moreover have "hx_ns jd = or_default (sj_DB_Namespace p) ''default''"
    by (rule ns[OF s(2)[unfolded jd_Component_def]]) (simp_all add: jd)
  moreover have deps: "bd_deps b = [(1, 0), (2, 1), (3, 2)]" by (simp add: s(3) jd pg depend_def)
  have "order = [0, 1, 2, 3]" if o: "distinct order" "set order = {..<4}" "keeps_deps (bd_deps b) order" for order
  proof -
    have "order = [0..<4]"
    proof (rule chain_order[OF o(1,2)])
      show "before i (Suc i) order" if "Suc i < 4" for i
      proof -
        have "i = 0 \<or> i = 1 \<or> i = 2" using that by auto
        with o(3) show ?thesis by (auto simp: keeps_deps_def deps numeral_3_eq_3 numeral_2_eq_2)
      qed
    qed
    then show ?thesis by (simp add: upt_rec)
  qed
  moreover have "keeps_deps (bd_deps b) [0, 1, 2, 3]" by (simp add: keeps_deps_def deps)
  ultimately show ?thesis by (intro exI[of _ pg] exI[of _ jd]) (auto simp: s(3) jd pg depend_def)
qed

section \<open>Concrete chains\<close>

definition demo_packages :: packages where
  "demo_packages = \<lparr>pg_env = demo_chart_env, pg_anvil = demo_ref, pg_aptos = demo_ref, pg_otterscan = demo_ref, pg_jd = demo_ref,
     pg_postgres = demo_ref, pg_merge = (\<lambda>h a b. h)\<rparr>"

definition demo_bc_node :: "string \<Rightarrow> bc_node" where
  "demo_bc_node chain = \<lparr>bn_Values = None, bn_Namespace = ''ns'', bn_ReleaseName = ''anvil-'' @ chain, bn_Type = ''anvil'', bn_ChainID = chain,
     bn_ValuesPatches = []\<rparr>"

lemma demo_bc_node_created:
  "chain \<noteq> [] \<Longrightarrow> \<exists>h' b' k. bc_node_Component demo_packages (demo_bc_node chain) h b = Some (h', b', Inr k)"
  by (simp add: bc_node_Component_def bc_node_Validate_def demo_bc_node_def blockchainNode_def CreateNode_def BlockchainTypeAnvil_def
      demo_packages_def anvil_Component_def Component_def load_values_def sandbox_chart_props_def alloc_def and_then_def chart_part_def
      helmchart_New_def demo_chart_env_def err_of_def add_part_def Let_def fill_defaults_def)

lemma demo_network_created:
  "chain \<noteq> [] \<Longrightarrow> \<exists>b' k. networkInfo_Component verr (Some (demo_bc_node chain)) h b = Some (h, b', Inr k)"
  by (simp add: networkInfo_Component_def bc_node_Validate_def demo_bc_node_def BlockchainTypeAnvil_def networkInfo_def
      configmap_Component_def configmap_missing_def network_props_def configmap_New_def NewMetadataFactory_def missing_def add_part_def)

definition demo_chains :: "chain_config option list" where
  "demo_chains = map (\<lambda>chain. Some \<lparr>bx_Explorer = None, bx_NodeSet = Some [Some (demo_bc_node chain)]\<rparr>) [''1337'', ''2337'']"

theorem chains_sequential_witness:
  "\<exists>h b all. chains_Component (\<lambda>fs. ErrText ''missing'') demo_packages [] demo_chains demo_chart_heap empty_build = Some (h, b, Inr all) \<and>
     keeps_deps (bd_deps b) [0..<length (bd_parts b)] \<and> list_all (\<lambda>(i, j). \<not> is_apply (bd_parts b ! j)) (bd_deps b)"
proof -
  let ?verr = "\<lambda>fs. ErrText ''missing''"
  have "\<exists>h' b' all'. create_chains ?verr demo_packages i (map (\<lambda>chain. Some \<lparr>bx_Explorer = None, bx_NodeSet = Some [Some (demo_bc_node chain)]\<rparr>) cs)
      h b all = Some (h', b', Inr all')" if "[] \<notin> set cs" for i cs h b all
    using that
  proof (induction cs arbitrary: i h b all)
    case (Cons chain cs)
    obtain h1 b1 k where n: "bc_node_Component demo_packages (demo_bc_node chain) h b = Some (h1, b1, Inr k)"
      using demo_bc_node_created Cons.prems by fastforce
    obtain b2 k2 where w: "networkInfo_Component ?verr (Some (demo_bc_node chain)) h1 b1 = Some (h1, b2, Inr k2)"
      using demo_network_created Cons.prems by fastforce
    from Cons show ?case by (simp add: and_then_def n w bx_nodes_def)
  qed simp
  from this[of "[''1337'', ''2337'']" 0 demo_chart_heap empty_build "[]"] obtain h' b' all' where
    "create_chains ?verr demo_packages 0 demo_chains demo_chart_heap empty_build [] = Some (h', b', Inr all')"
    by (auto simp: demo_chains_def)
  moreover have "chains_Validate ?verr demo_chains = Some None"
    by (simp add: chains_Validate_def chains_broken_def demo_chains_def bx_nodes_def bc_node_Validate_def demo_bc_node_def BlockchainTypeAnvil_def)
  ultimately obtain b all where c: "chains_Component ?verr demo_packages [] demo_chains demo_chart_heap empty_build = Some (h', b, Inr all)"
    by (simp add: chains_Component_def blockchains_def and_then_def)
  have "\<forall>c. Some c \<in> set demo_chains \<longrightarrow> bx_Explorer c = None" by (auto simp: demo_chains_def)
  with chains_sequential[OF c] c show ?thesis by blast
qed

theorem sandbox_jd_in_order_witness:
  "\<exists>h b k pg. sandbox_jd_composite demo_packages \<lparr>sj_JD_Namespace = ''jd-ns'', sj_JD_ReleaseName = ''jd'', sj_JD_Values = None,
       sj_JD_ValuesPatches = [], sj_DB_Namespace = ''db-ns'', sj_DB_ReleaseName = ''db'', sj_DB_Values = None, sj_DB_ValuesPatches = []\<rparr>
       demo_chart_heap empty_build = Some (h, b, Inr k) \<and>
     bd_parts b ! 2 = HelmPart pg \<and> hx_ns pg = ''db-ns'' \<and>
     bd_parts b ! 3 = ApplyPart (wait_for_pods ''jd-ns'' (devspace_labels ''jd''))"
proof -
  let ?p = "\<lparr>sj_JD_Namespace = ''jd-ns'', sj_JD_ReleaseName = ''jd'', sj_JD_Values = None,
       sj_JD_ValuesPatches = [], sj_DB_Namespace = ''db-ns'', sj_DB_ReleaseName = ''db'', sj_DB_Values = None, sj_DB_ValuesPatches = []\<rparr>"
  have "\<exists>h b k. sandbox_jd_composite demo_packages ?p demo_chart_heap empty_build = Some (h, b, Inr k)"
    by (simp add: sandbox_jd_composite_def demo_packages_def postgres_Component_def jd_Component_def Component_def load_values_def
        sandbox_chart_props_def alloc_def and_then_def chart_part_def helmchart_New_def demo_chart_env_def err_of_def add_part_def
        Let_def fill_defaults_def)
  then obtain h b k where s: "sandbox_jd_composite demo_packages ?p demo_chart_heap empty_build = Some (h, b, Inr k)" by blast
  from sandbox_jd_in_order[OF s] s show ?thesis by (fastforce simp: or_default_def)
qed

end
