(* ===== verification/JD.thy ===== *)
theory JD
  imports Builds Images ChainlinkNode
begin

text \<open>
  The job distributor, crib/composite/chainlink/jd/v1/jd.go: a PostgreSQL chart, the manifest that waits for it, and
  a deployment with its service.  The rule \<open>hexadecimal\<close> of the validator library is the parameter \<open>hexa\<close>.
\<close>

section \<open>Props\<close>

definition grpcServicePort :: int where "grpcServicePort = 42242"
definition wsRPCServicePort :: int where "wsRPCServicePort = 8080"
definition wsrpcHealthCheckPort :: int where "wsrpcHealthCheckPort = 8081"

record jd_props =
  jp_Image :: string
  jp_CSAEncryptionKey :: string
  jp_AppInstanceName :: string
  jp_Namespace :: string
  jp_DB_Values :: "nat option"
  jp_DB_ValuesPatches :: "string list list"
  jp_WaitForRollout :: bool

record jd_result =
  jr_namespace :: string
  jr_appInstanceName :: string

definition GRPCHostURL :: "jd_result \<Rightarrow> string" where
  "GRPCHostURL r = ClusterLocalServiceURL [] (jr_appInstanceName r) (jr_namespace r) grpcServicePort"

definition WSRPCHostURL :: "jd_result \<Rightarrow> string" where
  "WSRPCHostURL r = ClusterLocalServiceURL [] (jr_appInstanceName r) (jr_namespace r) wsRPCServicePort"

definition jd_defaults :: "jd_props \<Rightarrow> jd_props" where
  "jd_defaults p = p\<lparr>jp_AppInstanceName := or_default (jp_AppInstanceName p) ''jd''\<rparr>"

definition jd_broken :: "(string \<Rightarrow> bool) \<Rightarrow> jd_props \<Rightarrow> string list" where
  "jd_broken hexa p =
     (if jp_Image p \<noteq> [] \<and> validateImageURI (Some (jp_Image p)) then [] else [''Image''])
     @ (if jp_CSAEncryptionKey p \<noteq> [] \<and> hexa (jp_CSAEncryptionKey p) \<and> length (runes (jp_CSAEncryptionKey p)) = 64
        then [] else [''CSAEncryptionKey''])
     @ missing [(''Namespace'', jp_Namespace p)]"

definition dbInstanceName :: "jd_props \<Rightarrow> string" where
  "dbInstanceName p = jp_AppInstanceName p @ ''-db''"

section \<open>The application\<close>

definition jd_env :: "jd_props \<Rightarrow> env_var list" where
  "jd_env p =
     [\<lparr>ev_Name = ''ENVIRONMENT'', ev_Value = ''development''\<rparr>,
      \<lparr>ev_Name = ''DATABASE_URL'',
        ev_Value = ''postgresql://chainlink:JGVgp7M2Emcg7Av8KKVUgMZb@'' @ dbInstanceName p @ '':5432/chainlink?sslmode=disable''\<rparr>,
      \<lparr>ev_Name = ''CSA_KEY_ENCRYPTION_SECRET'', ev_Value = jp_CSAEncryptionKey p\<rparr>,
      \<lparr>ev_Name = ''SERVER_ENABLE_REFLECTION'', ev_Value = ''true''\<rparr>]"

definition jd_ports :: "(string \<times> int) list" where
  "jd_ports = [(''grpc'', grpcServicePort), (''wsrpc'', wsRPCServicePort), (''wsrpc-health'', wsrpcHealthCheckPort)]"

definition jd_container :: "jd_props \<Rightarrow> container" where
  "jd_container p =
     \<lparr>ct_Name = ''app'', ct_Image = jp_Image p, ct_ImagePullPolicy = ''IfNotPresent'',
       ct_Ports = map (\<lambda>(name, port). \<lparr>cpt_Name = name, cpt_Protocol = ''TCP'', cpt_ContainerPort = port\<rparr>) jd_ports,
       ct_Env = jd_env p,
       ct_Resources = Some \<lparr>rs_Limits = [(''cpu'', ''1500m''), (''memory'', ''2048Mi'')],
         rs_Requests = [(''cpu'', ''1000m''), (''memory'', ''512Mi'')]\<rparr>,
       ct_Command = [], ct_Args = [], ct_VolumeMounts = [], ct_UserID = 1000, ct_GroupID = 1000\<rparr>"

definition jd_deployment :: "jd_props \<Rightarrow> deployment_props" where
  "jd_deployment p =
     \<lparr>dp_Name = jp_AppInstanceName p, dp_AppName = ''jd'', dp_AppInstance = jp_AppInstanceName p,
       dp_Namespace = jp_Namespace p, dp_Containers = [Some (jd_container p)], dp_Volumes = [], dp_PodFsGroup = 0\<rparr>"

definition jd_service_ports :: "service_port option list" where
  "jd_service_ports =
     map (\<lambda>(name, port). Some \<lparr>sp_Name = Some name, sp_Port = Some port, sp_Protocol = Some ''TCP'', sp_NodePort = None,
       sp_TargetPort = Some (show_int port)\<rparr>) jd_ports"

definition jdApp :: "validator_error \<Rightarrow> jd_props \<Rightarrow> heap \<Rightarrow> build \<Rightarrow> workload built" where
  "jdApp verr p h b =
     and_then (pods_part (deployment verr (chart_id b) (jd_deployment p)) h b) (wrapped ''error creating jd deployment'')
       (\<lambda>h b (i, w).
         and_then (service_part (ExposeViaService verr w
             (Some \<lparr>es_Name = [], es_ServiceType = ''ClusterIP'', es_Ports = jd_service_ports\<rparr>)) h b)
           (wrapped ''error exposing jd service'')
           (\<lambda>h b s.
             if jp_WaitForRollout p then (case add_part (ApplyPart (WaitForRollout w)) b of (b, x) \<Rightarrow> Some (h, depend x i b, Inr w))
             else Some (h, b, Inr w)))"

section \<open>The database\<close>

text \<open>The chart and the manifest that waits for it.\<close>

definition AddPostgresWithWait :: "chart_env \<Rightarrow> chart_ref \<Rightarrow> jd_props \<Rightarrow> heap \<Rightarrow> build \<Rightarrow> (nat list \<times> nat list) built" where
  "AddPostgresWithWait env d p h b =
     (case new_map h [(''fullnameOverride'', lstr (dbInstanceName p))] of
        (h, values) \<Rightarrow>
          and_then (chart_part (postgres_Component env d
              (ChartPropsOf (chart_props_for (jp_Namespace p) (dbInstanceName p) values)) h) b)
            (wrapped ''error creating jd postgres'')
            (\<lambda>h b pg.
              case add_part (ApplyPart (wait_for_pods (jp_Namespace p)
                  [''statefulset.kubernetes.io/pod-name='' @ dbInstanceName p @ ''-0'', ''app.kubernetes.io/name=postgresql''])) b of
                (b, waitForDB) \<Rightarrow> Some (h, depend waitForDB pg b, Inr (pg, waitForDB))))"

definition jdComposite ::
    "validator_error \<Rightarrow> (string \<Rightarrow> bool) \<Rightarrow> chart_env \<Rightarrow> chart_ref \<Rightarrow> jd_props \<Rightarrow> heap \<Rightarrow> build \<Rightarrow> jd_result built" where
  "jdComposite verr hexa env d p0 h b =
     (let p = jd_defaults p0 in
      case jd_broken hexa p of
        [] \<Rightarrow>
          and_then (AddPostgresWithWait env d p h b) (wrapped ''failed to create postgres subcomponent'')
            (\<lambda>h b _.
              and_then (jdApp verr p h b) (wrapped ''failed to create jd app component'')
                (\<lambda>h b _. Some (h, b, Inr \<lparr>jr_namespace = jp_Namespace p, jr_appInstanceName = jp_AppInstanceName p\<rparr>)))
      | fs \<Rightarrow> Some (h, b, Inl (verr fs)))"

section \<open>What is built\<close>

definition jd_wait :: "jd_props \<Rightarrow> csa_component" where
  "jd_wait p = wait_for_pods (jp_Namespace p)
     [''statefulset.kubernetes.io/pod-name='' @ dbInstanceName p @ ''-0'', ''app.kubernetes.io/name=postgresql'']"

abbreviation jd_service_options :: expose_service where
  "jd_service_options \<equiv> \<lparr>es_Name = [], es_ServiceType = ''ClusterIP'', es_Ports = jd_service_ports\<rparr>"

lemma jdApp_ok:
  assumes "jdApp verr p h b = Some (h', b', Inr w)"
  shows "\<exists>k s. deployment verr (chart_id b) (jd_deployment p) = Some (Inr (w, k)) \<and>
    ExposeViaService verr w (Some jd_service_options) = Some (Inr s) \<and> h' = h \<and>
    bd_parts b' = bd_parts b @ [PodsPart k, ServicePart s] @ (if jp_WaitForRollout p then [ApplyPart (WaitForRollout w)] else []) \<and>
    bd_deps b' = bd_deps b @ (if jp_WaitForRollout p then [(Suc (Suc (length (bd_parts b))), length (bd_parts b))] else [])"
proof -
  from assms obtain h1 b1 i w1 h2 b2 j where
    1: "pods_part (deployment verr (chart_id b) (jd_deployment p)) h b = Some (h1, b1, Inr (i, w1))"
    and 3: "service_part (ExposeViaService verr w1 (Some jd_service_options)) h1 b1 = Some (h2, b2, Inr j)"
    and 4: "(if jp_WaitForRollout p then (case add_part (ApplyPart (WaitForRollout w1)) b2 of (b, x) \<Rightarrow> Some (h2, depend x i b, Inr w1))
          else Some (h2, b2, Inr w1)) = Some (h', b', Inr w :: goerr + workload)"
    unfolding jdApp_def by (simp only: and_then_Inr split_paired_Ex prod.case) blast
  from 1 obtain k where k: "deployment verr (chart_id b) (jd_deployment p) = Some (Inr (w1, k))" "h1 = h"
    "b1 = b\<lparr>bd_parts := bd_parts b @ [PodsPart k]\<rparr>" "i = [length (bd_parts b)]" unfolding pods_part_Inr by blast
  from 3 obtain s where s: "ExposeViaService verr w1 (Some jd_service_options) = Some (Inr s)" "h2 = h1"
    "b2 = b1\<lparr>bd_parts := bd_parts b1 @ [ServicePart s]\<rparr>" unfolding service_part_Inr by blast
  have "w = w1" "h' = h" using 4 k(2) s(2) by (auto simp: add_part_def split: if_splits)
  with k s 4 show ?thesis by (intro exI[of _ k] exI[of _ s]) (auto simp: add_part_def depend_def split: if_splits)
qed

lemma jd_built:
  assumes "jdComposite verr hexa env d p0 h empty_build = Some (h', b, Inr r)" "p = jd_defaults p0"
  shows "\<exists>h1 m q c chart w k s. jd_broken hexa p = [] \<and>
    new_map h [(''fullnameOverride'', lstr (dbInstanceName p))] = (h1, m) \<and>
    postgres_Component env d (ChartPropsOf (chart_props_for (jp_Namespace p) (dbInstanceName p) m)) h1 = Some (h', q, Inr c) \<and>
    deployment verr chart (jd_deployment p) = Some (Inr (w, k)) \<and>
    ExposeViaService verr w (Some jd_service_options) = Some (Inr s) \<and>
    bd_parts b = [HelmPart c, ApplyPart (jd_wait p), PodsPart k, ServicePart s]
      @ (if jp_WaitForRollout p then [ApplyPart (WaitForRollout w)] else []) \<and>
    bd_deps b = [(1, 0)] @ (if jp_WaitForRollout p then [(4, 2)] else []) \<and>
    r = \<lparr>jr_namespace = jp_Namespace p, jr_appInstanceName = jp_AppInstanceName p\<rparr>"
proof -
  from assms have ok: "jd_broken hexa p = []" by (auto simp: jdComposite_def Let_def split: list.splits)
  obtain h1 m where m: "new_map h [(''fullnameOverride'', lstr (dbInstanceName p))] = (h1, m)"
    by (cases "new_map h [(''fullnameOverride'', lstr (dbInstanceName p))]")
  from assms ok obtain h2 b2 u h3 b3 w3 where
    db: "AddPostgresWithWait env d p h empty_build = Some (h2, b2, Inr u)" and app: "jdApp verr p h2 b2 = Some (h3, b3, Inr w3)"
    and e: "h' = h3" "b = b3" "r = \<lparr>jr_namespace = jp_Namespace p, jr_appInstanceName = jp_AppInstanceName p\<rparr>"
    by (auto simp: jdComposite_def Let_def and_then_Inr)
  from db m obtain q c where c: "postgres_Component env d (ChartPropsOf (chart_props_for (jp_Namespace p) (dbInstanceName p) m)) h1
      = Some (h2, q, Inr c)" and b2: "bd_parts b2 = [HelmPart c, ApplyPart (jd_wait p)]" "bd_deps b2 = [(1, 0)]"
    by (auto simp: AddPostgresWithWait_def and_then_Inr chart_part_def add_part_def depend_def jd_wait_def
        split: option.splits prod.splits sum.splits)
  from jdApp_ok[OF app] obtain k s where w: "deployment verr (chart_id b2) (jd_deployment p) = Some (Inr (w3, k))"
    "ExposeViaService verr w3 (Some jd_service_options) = Some (Inr s)"
    "h3 = h2" "bd_parts b3 = bd_parts b2 @ [PodsPart k, ServicePart s] @ (if jp_WaitForRollout p then [ApplyPart (WaitForRollout w3)] else [])"
    "bd_deps b3 = bd_deps b2 @ (if jp_WaitForRollout p then [(Suc (Suc (length (bd_parts b2))), length (bd_parts b2))] else [])"
    by blast
  have "4 = Suc (Suc (Suc (Suc 0)))" "2 = Suc (Suc 0)" by simp_all
  with ok m c w b2 e show ?thesis by (auto simp del: wrapped_eq)
qed

lemma deployment_meta:
  assumes "deployment verr chart p = Some (Inr (w, k))"
  shows "om_Namespace (kd_meta k) = Some (dp_Namespace p)" "ConvertContainers (dp_Containers p) = Some (kd_containers k)"
    "wl_Name w = dp_Name p" "wl_Namespace w = dp_Namespace p" "wl_Containers w = dp_Containers p" "wl_AppInstance w = dp_AppInstance p"
proof -
  from assms have b: "deployment_broken p = []" by (auto simp: deployment_def split: list.splits)
  show "om_Namespace (kd_meta k) = Some (dp_Namespace p)" "ConvertContainers (dp_Containers p) = Some (kd_containers k)"
    "wl_Name w = dp_Name p" "wl_Namespace w = dp_Namespace p" "wl_Containers w = dp_Containers p" "wl_AppInstance w = dp_AppInstance p"
    using assms by (auto simp: deployment_ok[OF b] K8sResourceMetadata_def metadata_of_def Let_def split: option.splits)
qed

lemma jd_container_converted:
  assumes "deployment verr chart (jd_deployment p) = Some (Inr (w, k))"
  shows "kd_containers k = Some [convert_container (jd_container p)]"
  using deployment_meta(2)[OF assms] by (simp add: jd_deployment_def ConvertContainers_def)

lemma jd_service:
  assumes "deployment verr chart (jd_deployment p) = Some (Inr (w, k))" "ExposeViaService verr w (Some jd_service_options) = Some (Inr s)"
  shows "sv_ports s = jd_service_ports" "sv_selector s = wl_LabelsSelector w"
    "om_Name (sv_meta s) = Some (jp_AppInstanceName p)" "om_Namespace (sv_meta s) = Some (jp_Namespace p)"
proof -
  have l: "service_ports w jd_service_options = Some jd_service_ports" by (simp add: service_ports_def jd_service_ports_def jd_ports_def)
  from ExposeViaService_Inr[OF assms(2)] show "sv_ports s = jd_service_ports" "sv_selector s = wl_LabelsSelector w" using l by simp_all
  note f = deployment_fields[OF assms(1)] and m = deployment_meta[OF assms(1)]
  have "wl_Name w = jp_AppInstanceName p" "wl_Namespace w = jp_Namespace p" using m by (simp_all add: jd_deployment_def)
  with assms(2) f show "om_Name (sv_meta s) = Some (jp_AppInstanceName p)" "om_Namespace (sv_meta s) = Some (jp_Namespace p)"
    by (auto simp: ExposeViaService_Some l service_New_iff service_props_of_def K8sResourceMetadata_def metadata_of_def Let_def
        split: if_splits)
qed

lemma jd_values_lit: "wf_lit (LMap [(''fullnameOverride'', lstr x)])" by simp

section \<open>The database of JD\<close>

text \<open>
  C31. JD reaches its database: with the credentials of the defaults of the chart (user \<open>chainlink\<close>, its password and
  database), the PostgreSQL that is deployed has the name, user, password and database of the URL that the
  container of JD is given, and is deployed to the namespace of its pods.  But nothing makes JD wait for it: there is an order that respects the
  dependencies and starts the pods first; and what the props say of the database is not used.
\<close>
theorem jd_reaches_database:
  assumes jd: "jdComposite verr hexa env d p h empty_build = Some (h', b, Inr r)" and d: "entries h (cr_Values d) dc FD"
    and auth: "dc (Field ''auth'') = Some (JObj MapK auth)" "auth (Field ''username'') = Some (JScalar (SStr ''chainlink''))"
      "auth (Field ''password'') = Some (JScalar (SStr ''JGVgp7M2Emcg7Av8KKVUgMZb''))"
      "auth (Field ''database'') = Some (JScalar (SStr ''chainlink''))"
  shows "\<exists>c k kc v S j host user pw database. bd_parts b ! 0 = HelmPart c \<and> bd_parts b ! 2 = PodsPart k \<and> kd_containers k = Some [kc] \<and>
     deployed_values c = Some v \<and> tree (hp_cells h') (HRef MapK v) j S \<and>
     look [Field ''fullnameOverride''] j = Some (JScalar (SStr host)) \<and>
     look [Field ''auth'', Field ''username''] j = Some (JScalar (SStr user)) \<and>
     look [Field ''auth'', Field ''password''] j = Some (JScalar (SStr pw)) \<and>
     look [Field ''auth'', Field ''database''] j = Some (JScalar (SStr database)) \<and>
     (\<exists>es. kc_Env kc = Some es \<and> \<lparr>ke_Name = Some ''DATABASE_URL'', ke_Value = Some (database_url user pw host database)\<rparr> \<in> set es) \<and>
     om_Namespace (kd_meta k) = Some (hx_ns c) \<and>
     (\<exists>order. distinct order \<and> set order = {..<length (bd_parts b)} \<and> keeps_deps (bd_deps b) order \<and> before 2 1 order) \<and>
     (\<forall>vs ps. jdComposite verr hexa env d (p\<lparr>jp_DB_Values := vs, jp_DB_ValuesPatches := ps\<rparr>) h empty_build = Some (h', b, Inr r))"
proof -
  let ?p = "jd_defaults p"
  from jd_built[OF jd refl] obtain h1 m q c chart w k s where m: "new_map h [(''fullnameOverride'', lstr (dbInstanceName ?p))] = (h1, m)"
    and c: "postgres_Component env d (ChartPropsOf (chart_props_for (jp_Namespace ?p) (dbInstanceName ?p) m)) h1 = Some (h', q, Inr c)"
    and w: "deployment verr chart (jd_deployment ?p) = Some (Inr (w, k))"
    and ok: "jd_broken hexa ?p = []" and parts: "bd_parts b ! 0 = HelmPart c" "bd_parts b ! 2 = PodsPart k"
      "length (bd_parts b) = (if jp_WaitForRollout ?p then 5 else 4)"
      "bd_deps b = [(1, 0)] @ (if jp_WaitForRollout ?p then [(4, 2)] else [])" by auto
  have "set ([0, 2, 3, 1] @ (if jp_WaitForRollout ?p then [4] else [])) = {..<length (bd_parts b)}" unfolding parts(3) by auto
  then have order: "\<exists>order. distinct order \<and> set order = {..<length (bd_parts b)} \<and> keeps_deps (bd_deps b) order \<and> before 2 1 order"
    using parts(4) by (intro exI[of _ "[0, 2, 3, 1] @ (if jp_WaitForRollout ?p then [4] else [])"]) (auto simp: keeps_deps_def)
  have ns: "jp_Namespace ?p \<noteq> []" using ok by (simp add: jd_broken_def missing_def split: if_splits)
  let ?j = "JObj MapK (dc ++ jmap [(''fullnameOverride'', JScalar (SStr (dbInstanceName ?p)))])"
  obtain v S where v: "deployed_values c = Some v" "tree (hp_cells h') (HRef MapK v) ?j S" "hx_ns c = jp_Namespace ?p"
    using chart_deploys_literal[OF _ _ _ jd_values_lit m _ _ _ c[unfolded postgres_Component_def], of dc FD] d ns
    by (auto simp: chart_props_for_def)
  have l: "look [Field ''fullnameOverride''] ?j = Some (JScalar (SStr (dbInstanceName ?p)))"
    "look [Field ''auth'', Field ''username''] ?j = Some (JScalar (SStr ''chainlink''))"
    "look [Field ''auth'', Field ''password''] ?j = Some (JScalar (SStr ''JGVgp7M2Emcg7Av8KKVUgMZb''))"
    "look [Field ''auth'', Field ''database''] ?j = Some (JScalar (SStr ''chainlink''))"
    using auth by (simp_all add: look_Field map_add_def del: look.simps)
  have same: "jdComposite verr hexa env d (p\<lparr>jp_DB_Values := vs, jp_DB_ValuesPatches := ps\<rparr>) h empty_build
      = jdComposite verr hexa env d p h empty_build" for vs ps
    by (simp add: jdComposite_def jd_defaults_def jd_broken_def dbInstanceName_def AddPostgresWithWait_def jdApp_def jd_deployment_def
        jd_container_def jd_env_def Let_def cong: list.case_cong)
  have "\<lparr>ke_Name = Some ''DATABASE_URL'', ke_Value = Some (database_url ''chainlink'' ''JGVgp7M2Emcg7Av8KKVUgMZb'' (dbInstanceName ?p) ''chainlink'')\<rparr>
      \<in> set (map convert_env (jd_env ?p))"
    by (simp add: jd_env_def convert_env_def database_url_def)
  moreover have "kc_Env (convert_container (jd_container ?p)) = Some (map convert_env (jd_env ?p))"
    by (simp add: convert_container_def jd_container_def jd_env_def)
  ultimately have env: "\<exists>es. kc_Env (convert_container (jd_container ?p)) = Some es \<and> \<lparr>ke_Name = Some ''DATABASE_URL'',
      ke_Value = Some (database_url ''chainlink'' ''JGVgp7M2Emcg7Av8KKVUgMZb'' (dbInstanceName ?p) ''chainlink'')\<rparr> \<in> set es" by blast
  have kc: "kd_containers k = Some [convert_container (jd_container ?p)]" by (rule jd_container_converted[OF w])
  have kns: "om_Namespace (kd_meta k) = Some (hx_ns c)" using deployment_meta(1)[OF w] v(3) by (simp add: jd_deployment_def)
  have unused: "\<forall>vs ps. jdComposite verr hexa env d (p\<lparr>jp_DB_Values := vs, jp_DB_ValuesPatches := ps\<rparr>) h empty_build = Some (h', b, Inr r)"
    by (simp only: same jd) simp
  show ?thesis
    by (intro exI[of _ c] exI[of _ k] exI[of _ "convert_container (jd_container ?p)"] exI[of _ v] exI[of _ S] exI[of _ ?j]
        exI[of _ "dbInstanceName ?p"] exI[of _ "''chainlink''"] exI[of _ "''JGVgp7M2Emcg7Av8KKVUgMZb''"] conjI)
      (fact parts v l env kc kns order unused)+
qed

section \<open>The address of JD\<close>

lemma jd_port_texts: "show_nat 42242 = ''42242''" "show_nat 8080 = ''8080''" "show_nat 8081 = ''8081''"
  by (simp_all add: show_nat.simps char_of_eq_iff)

text \<open>Creating the application cannot fail once the props are valid.\<close>

lemma jdApp_total:
  assumes "jp_Namespace p \<noteq> []" "jp_AppInstanceName p \<noteq> []"
  shows "\<exists>b' w. jdApp verr p h b = Some (h, b', Inr w)"
proof -
  have "deployment_broken (jd_deployment p) = []"
    using assms by (simp add: deployment_broken_def jd_deployment_def jd_container_def broken_containers_def missing_Nil_iff)
  then obtain w k where w: "deployment verr (chart_id b) (jd_deployment p) = Some (Inr (w, k))"
    by (simp add: deployment_ok ConvertContainers_def ConvertVolumes_def jd_deployment_def)
  have l: "service_ports w jd_service_options = Some jd_service_ports" by (simp add: service_ports_def jd_service_ports_def jd_ports_def)
  have "service_broken (service_props_of w jd_service_options jd_service_ports) = []"
    using deployment_fields[OF w]
    by (auto simp: service_broken_def service_props_of_def missing_Nil_iff jd_service_ports_def jd_ports_def image_iff)
  then obtain s where s: "ExposeViaService verr w (Some jd_service_options) = Some (Inr s)"
    by (simp add: ExposeViaService_Some l service_New_iff)
  show ?thesis by (simp add: jdApp_def w s pods_part_def service_part_def add_part_def and_then_def)
qed

text \<open>
  CX. The URLs of JD lead to its container: each has the name and namespace of the service as its host and a port
  of the service, which selects the pods of JD and forwards the port to a port their container has.
\<close>
theorem jd_served:
  assumes jd: "jdComposite verr hexa env d p h empty_build = Some (h', b, Inr r)"
  shows "\<exists>k s kc ps name ns. bd_parts b ! 2 = PodsPart k \<and> bd_parts b ! 3 = ServicePart s \<and> kd_containers k = Some [kc] \<and>
     kc_Ports kc = Some ps \<and> om_Name (sv_meta s) = Some name \<and> om_Namespace (sv_meta s) = Some ns \<and>
     selects (sv_selector s) (the (kd_templateLabels k)) \<and>
     GRPCHostURL r = name @ ''.'' @ ns @ ''.svc.cluster.local:42242'' \<and> WSRPCHostURL r = name @ ''.'' @ ns @ ''.svc.cluster.local:8080'' \<and>
     list_all (\<lambda>port. \<exists>q c. Some q \<in> set (sv_ports s) \<and> sp_Port q = Some port \<and> sp_TargetPort q = Some (show_int port) \<and>
       c \<in> set ps \<and> kp_ContainerPort c = Some port) [42242, 8080, 8081]"
proof -
  let ?p = "jd_defaults p"
  from jd_built[OF jd refl] obtain chart w k s where w: "deployment verr chart (jd_deployment ?p) = Some (Inr (w, k))"
    "ExposeViaService verr w (Some jd_service_options) = Some (Inr s)"
    and parts: "bd_parts b ! 2 = PodsPart k" "bd_parts b ! 3 = ServicePart s"
    and r: "r = \<lparr>jr_namespace = jp_Namespace ?p, jr_appInstanceName = jp_AppInstanceName ?p\<rparr>" by auto
  have sel: "selects (sv_selector s) (the (kd_templateLabels k))" using deployment_labels[OF w(1)] jd_service(2)[OF w] by simp
  have f: "to_float64 42242 = 42242" "to_float64 8080 = 8080" "to_float64 8081 = 8081"
    by (rule to_float64_exact; simp add: exact_def)+
  have ports: "kc_Ports (convert_container (jd_container ?p)) = Some (map (\<lambda>(name, port). \<lparr>kp_Name = Some name,
      kp_ContainerPort = Some (to_float64 port), kp_Protocol = Some ''TCP''\<rparr>) jd_ports)"
    by (simp add: convert_container_def jd_container_def jd_ports_def convert_port_def)
  have url: "GRPCHostURL r = jp_AppInstanceName ?p @ ''.'' @ jp_Namespace ?p @ ''.svc.cluster.local:42242''"
    "WSRPCHostURL r = jp_AppInstanceName ?p @ ''.'' @ jp_Namespace ?p @ ''.svc.cluster.local:8080''"
    by (simp_all add: GRPCHostURL_def WSRPCHostURL_def r ClusterLocalServiceURL_def grpcServicePort_def wsRPCServicePort_def show_int_def
        jd_port_texts)
  have "list_all (\<lambda>port. \<exists>q c. Some q \<in> set (sv_ports s) \<and> sp_Port q = Some port \<and> sp_TargetPort q = Some (show_int port) \<and>
       c \<in> set (map (\<lambda>(name, port). \<lparr>kp_Name = Some name, kp_ContainerPort = Some (to_float64 port), kp_Protocol = Some ''TCP''\<rparr>) jd_ports) \<and>
       kp_ContainerPort c = Some port) [42242, 8080, 8081]"
    by (simp add: jd_service(1)[OF w] jd_service_ports_def jd_ports_def f grpcServicePort_def wsRPCServicePort_def wsrpcHealthCheckPort_def
        ex_disj_distrib conj_disj_distribL conj_disj_distribR del: show_int_def)
  with parts jd_container_converted[OF w(1)] ports jd_service(3,4)[OF w] sel url show ?thesis by blast
qed

section \<open>A concrete JD\<close>

definition demo_jd :: jd_props where
  "demo_jd = \<lparr>jp_Image = ''jd:v1'', jp_CSAEncryptionKey = replicate 64 CHR ''a'', jp_AppInstanceName = [], jp_Namespace = ''ns'',
     jp_DB_Values = None, jp_DB_ValuesPatches = [], jp_WaitForRollout = True\<rparr>"

definition demo_pg_heap :: "heap \<times> nat" where
  "demo_pg_heap = new_map \<lparr>hp_cells = (\<lambda>_ _. None), hp_next = 0\<rparr>
     [(''auth'', LMap [(''username'', lstr ''chainlink''), (''password'', lstr ''JGVgp7M2Emcg7Av8KKVUgMZb''), (''database'', lstr ''chainlink'')])]"

definition demo_pg :: chart_ref where
  "demo_pg = demo_ref\<lparr>cr_Values := Some (snd demo_pg_heap)\<rparr>"

lemma demo_jd_valid: "jd_broken (\<lambda>_. True) (jd_defaults demo_jd) = []"
proof -
  have t: "trim_space ''jd:v1'' = ''jd:v1''" by (rule trim_space_ascii) (simp_all add: ascii_def is_space_rune_def)
  have "validateImageURI (Some ''jd:v1'')"
    by (simp add: validator_defs t runes_ascii segments_ascii ascii_def contains_def last_index_def str_cut_def)
  moreover have "length (runes (replicate n CHR ''a'')) = n" for n by (simp add: runes_ascii ascii_def)
  ultimately show ?thesis by (simp add: jd_broken_def jd_defaults_def demo_jd_def missing_def or_default_def)
qed

lemma demo_jd_built:
  "\<exists>h b r. jdComposite verr (\<lambda>_. True) demo_chart_env demo_pg demo_jd h0 empty_build = Some (h, b, Inr r)"
proof -
  let ?p = "jd_defaults demo_jd"
  have p: "jp_Namespace ?p \<noteq> []" "jp_AppInstanceName ?p \<noteq> []" by (simp_all add: jd_defaults_def demo_jd_def or_default_def)
  obtain h1 m where m: "new_map h0 [(''fullnameOverride'', lstr (dbInstanceName ?p))] = (h1, m)"
    by (cases "new_map h0 [(''fullnameOverride'', lstr (dbInstanceName ?p))]")
  have "\<exists>h2 q c. postgres_Component demo_chart_env demo_pg (ChartPropsOf (chart_props_for ns rel m)) h1 = Some (h2, q, Inr c)" for ns rel
    by (simp add: postgres_Component_def Component_copies chart_props_for_def helmchart_New_def demo_chart_env_def err_of_def Let_def)
  then obtain h2 q c where
    "postgres_Component demo_chart_env demo_pg (ChartPropsOf (chart_props_for (jp_Namespace ?p) (dbInstanceName ?p) m)) h1 = Some (h2, q, Inr c)"
    by blast
  then obtain b2 u where "AddPostgresWithWait demo_chart_env demo_pg ?p h0 empty_build = Some (h2, b2, Inr u)"
    by (simp add: AddPostgresWithWait_def m and_then_def chart_part_def add_part_def)
  moreover from jdApp_total[OF p] obtain b3 w where "jdApp verr ?p h2 b2 = Some (h2, b3, Inr w)" by blast
  ultimately show ?thesis by (simp add: jdComposite_def Let_def demo_jd_valid and_then_def)
qed

theorem jd_served_witness:
  "\<exists>h b r. jdComposite (\<lambda>fs. ErrText ''missing'') (\<lambda>_. True) demo_chart_env demo_pg demo_jd (fst demo_pg_heap) empty_build = Some (h, b, Inr r) \<and>
     (\<exists>name ns. GRPCHostURL r = name @ ''.'' @ ns @ ''.svc.cluster.local:42242'')"
proof -
  from demo_jd_built obtain h b r where
    j: "jdComposite (\<lambda>fs. ErrText ''missing'') (\<lambda>_. True) demo_chart_env demo_pg demo_jd (fst demo_pg_heap) empty_build = Some (h, b, Inr r)"
    by blast
  from jd_served[OF j] j show ?thesis by blast
qed

theorem jd_reaches_database_witness:
  "\<exists>h b r k kc es user pw host database. jdComposite (\<lambda>fs. ErrText ''missing'') (\<lambda>_. True) demo_chart_env demo_pg demo_jd (fst demo_pg_heap) empty_build
       = Some (h, b, Inr r) \<and> bd_parts b ! 2 = PodsPart k \<and> kd_containers k = Some [kc] \<and> kc_Env kc = Some es \<and>
     \<lparr>ke_Name = Some ''DATABASE_URL'', ke_Value = Some (database_url user pw host database)\<rparr> \<in> set es"
proof -
  let ?kvs = "[(''auth'', LMap [(''username'', lstr ''chainlink''), (''password'', lstr ''JGVgp7M2Emcg7Av8KKVUgMZb''), (''database'', lstr ''chainlink'')])]"
  from demo_jd_built obtain h b r where
    j: "jdComposite (\<lambda>fs. ErrText ''missing'') (\<lambda>_. True) demo_chart_env demo_pg demo_jd (fst demo_pg_heap) empty_build = Some (h, b, Inr r)"
    by blast
  have "wf_lit (LMap ?kvs)" "new_map \<lparr>hp_cells = (\<lambda>_ _. None), hp_next = 0\<rparr> ?kvs = (fst demo_pg_heap, snd demo_pg_heap)"
    by (simp_all add: demo_pg_heap_def)
  from new_map_entries[OF this] obtain F where
    "entries (fst demo_pg_heap) (cr_Values demo_pg) (jmap (map (\<lambda>(k, l). (k, lit_val l)) ?kvs)) F"
    by (auto simp: demo_pg_def)
  from jd_reaches_database[OF j this, of "jmap [(''username'', JScalar (SStr ''chainlink'')),
      (''password'', JScalar (SStr ''JGVgp7M2Emcg7Av8KKVUgMZb'')), (''database'', JScalar (SStr ''chainlink''))]"]
  obtain k kc host user pw database es where parts: "bd_parts b ! 2 = PodsPart k" "kd_containers k = Some [kc]" "kc_Env kc = Some es"
    "\<lparr>ke_Name = Some ''DATABASE_URL'', ke_Value = Some (database_url user pw host database)\<rparr> \<in> set es" by auto
  with j show ?thesis by blast
qed

end
