(* ===== verification/Anvil.thy ===== *)
theory Anvil
  imports Builds Indent
begin

text \<open>
  The Anvil blockchain, crib/composite/blockchain/anvil/v1/anvil.go: a deployment or a stateful set, exposed by a
  service or by an ingress.
\<close>

section \<open>Props and options\<close>

definition servicePort :: int where "servicePort = 8545"

record anvil_props =
  al_Namespace :: string
  al_ChainID :: string
  al_ingress :: bool
  al_persistence :: bool

record anvil_result =
  ar_namespace :: string
  ar_appInstanceName :: string

definition UseIngress :: "anvil_props \<Rightarrow> anvil_props" where "UseIngress p = p\<lparr>al_ingress := True\<rparr>"

definition UsePersistence :: "anvil_props \<Rightarrow> anvil_props" where "UsePersistence p = p\<lparr>al_persistence := True\<rparr>"

definition RPCWebsocketURL :: "anvil_result \<Rightarrow> string" where
  "RPCWebsocketURL r = ClusterLocalServiceURL ''ws'' (ar_appInstanceName r) (ar_namespace r) servicePort"

definition RPCHTTPURL :: "anvil_result \<Rightarrow> string" where
  "RPCHTTPURL r = ClusterLocalServiceURL ''http'' (ar_appInstanceName r) (ar_namespace r) servicePort"

section \<open>The workload\<close>

definition anvil_command :: string where
  "anvil_command =
     (let run = ''  anvil --host ${ANVIL_HOST} --port ${ANVIL_PORT} --chain-id ${ANVIL_CHAIN_ID} --block-time ${ANVIL_BLOCK_TIME}''
        @ '' --dump-state ${ANVIL_STATE_PATH}'' in
      join_with [LF]
        [''if [ ! -f ${ANVIL_STATE_PATH} ]; then'', ''  echo '' @ DQ @ ''No state found, creating new state'' @ DQ, run,
         ''else'', ''  echo '' @ DQ @ ''State found, loading state'' @ DQ, run @ '' --load-state ${ANVIL_STATE_PATH}'', ''fi''])"

definition anvil_env :: "anvil_props \<Rightarrow> env_var list" where
  "anvil_env p =
     map (\<lambda>(k, v). \<lparr>ev_Name = k, ev_Value = v\<rparr>)
       [(''ANVIL_CHAIN_ID'', al_ChainID p), (''ANVIL_HOST'', ''0.0.0.0''), (''ANVIL_PORT'', ''8545''), (''ANVIL_BLOCK_TIME'', ''1''),
        (''ANVIL_STATE_PATH'', ''/data/anvil/anvil_state.json'')]"

definition anvil_container :: "anvil_props \<Rightarrow> container" where
  "anvil_container p =
     \<lparr>ct_Name = ''blockchain'', ct_Image = ''ghcr.io/foundry-rs/foundry:latest'', ct_ImagePullPolicy = ''Always'',
       ct_Ports = [\<lparr>cpt_Name = ''rpc'', cpt_Protocol = ''TCP'', cpt_ContainerPort = servicePort\<rparr>], ct_Env = anvil_env p,
       ct_Resources = Some \<lparr>rs_Limits = [(''cpu'', ''1500m''), (''memory'', ''2048Mi'')],
         rs_Requests = [(''cpu'', ''1000m''), (''memory'', ''512Mi'')]\<rparr>,
       ct_Command = [''sh'', ''-c''], ct_Args = [anvil_command], ct_VolumeMounts = [], ct_UserID = 1000, ct_GroupID = 1000\<rparr>"

definition anvil_name :: "anvil_props \<Rightarrow> string" where
  "anvil_name p = ''anvil-'' @ al_ChainID p"

definition anvil_statefulset :: "anvil_props \<Rightarrow> statefulset_props" where
  "anvil_statefulset p =
     \<lparr>ss_Name = anvil_name p, ss_AppName = ''anvil'', ss_Namespace = al_Namespace p, ss_AppInstance = anvil_name p,
       ss_Containers = [Some (anvil_container p)], ss_Volumes = [], ss_VolumeClaimTemplates = []\<rparr>"

definition anvil_deployment :: "anvil_props \<Rightarrow> deployment_props" where
  "anvil_deployment p =
     \<lparr>dp_Name = anvil_name p, dp_AppName = ''anvil'', dp_AppInstance = anvil_name p, dp_Namespace = al_Namespace p,
       dp_Containers = [Some (anvil_container p)], dp_Volumes = [], dp_PodFsGroup = 0\<rparr>"

definition anvil_ports :: "service_port option list" where
  "anvil_ports =
     [Some \<lparr>sp_Name = None, sp_Port = Some 8545, sp_Protocol = Some ''TCP'', sp_NodePort = None, sp_TargetPort = Some (show_int 8545)\<rparr>]"

definition exposeService :: "validator_error \<Rightarrow> anvil_props \<Rightarrow> workload \<Rightarrow> heap \<Rightarrow> build \<Rightarrow> nat list built" where
  "exposeService verr p w h b =
     (if al_ingress p then
        and_then (ingress_part (ExposeViaIngress verr w ''/''
            (Some \<lparr>ei_Name = [], ei_IngressClassName = ''example-ingress'', ei_Ports = anvil_ports\<rparr>)) h b)
          (wrapped ''error exposing anvil ingress'') (\<lambda>h b k. Some (h, b, Inr k))
      else
        and_then (service_part (ExposeViaService verr w
            (Some \<lparr>es_Name = [], es_ServiceType = ''ClusterIP'', es_Ports = anvil_ports\<rparr>)) h b)
          (wrapped ''error exposing anvil service'') (\<lambda>h b k. Some (h, b, Inr k)))"

definition anvil_workload :: "validator_error \<Rightarrow> anvil_props \<Rightarrow> heap \<Rightarrow> build \<Rightarrow> (nat list \<times> workload) built" where
  "anvil_workload verr p h b =
     (if al_persistence p then
        and_then (pods_part (statefulset verr (chart_id b) (anvil_statefulset p)) h b)
          (wrapped ''error creating anvil statefulset component'') (\<lambda>h b w. Some (h, b, Inr w))
      else
        and_then (pods_part (deployment verr (chart_id b) (anvil_deployment p)) h b)
          (wrapped ''error creating anvil deployment'') (\<lambda>h b w. Some (h, b, Inr w)))"

definition anvil_blockchain :: "validator_error \<Rightarrow> anvil_props \<Rightarrow> heap \<Rightarrow> build \<Rightarrow> anvil_result built" where
  "anvil_blockchain verr p h b =
     and_then (anvil_workload verr p h b) (\<lambda>e. e)
       (\<lambda>h b (i, w).
         and_then (exposeService verr p w h b) (\<lambda>e. e)
           (\<lambda>h b _. Some (h, b, Inr \<lparr>ar_namespace = al_Namespace p, ar_appInstanceName = anvil_name p\<rparr>)))"

text \<open>The props may be nil; the options are applied to them, and they are not validated.\<close>

definition with_options :: "anvil_props option \<Rightarrow> (anvil_props \<Rightarrow> anvil_props) list \<Rightarrow> anvil_props" where
  "with_options props opts =
     fold (\<lambda>opt. opt) opts
       (case props of Some p \<Rightarrow> p | None \<Rightarrow> \<lparr>al_Namespace = [], al_ChainID = [], al_ingress = False, al_persistence = False\<rparr>)"

definition anvil_composite ::
    "validator_error \<Rightarrow> anvil_props option \<Rightarrow> (anvil_props \<Rightarrow> anvil_props) list \<Rightarrow> heap \<Rightarrow> build \<Rightarrow> anvil_result built" where
  "anvil_composite verr props opts h b = anvil_blockchain verr (with_options props opts) h b"

section \<open>The two workloads\<close>

lemma anvil_name_not_Nil [simp]: "anvil_name p \<noteq> []"
  by (simp add: anvil_name_def)

lemma anvil_port_exact: "to_float64 8545 = 8545"
  by (rule to_float64_exact) (simp add: exact_def)

text \<open>What the deployment and the stateful set have in common.\<close>

definition anvil_pods :: "anvil_props \<Rightarrow> workload \<Rightarrow> kube_pods \<Rightarrow> bool" where
  "anvil_pods p w k \<longleftrightarrow> wl_Name w = anvil_name p \<and> wl_Namespace w = al_Namespace p \<and> wl_AppName w = ''anvil'' \<and>
     wl_AppInstance w = anvil_name p \<and> wl_LabelsSelector w = the (kd_selector k) \<and>
     selects (the (kd_selector k)) (the (kd_templateLabels k)) \<and>
     kd_selector k = Some [(label_instance, Some (anvil_name p)), (label_name, Some ''anvil'')] \<and>
     kd_containers k = Some [convert_container (anvil_container p)] \<and> kd_volumes k = None \<and> kd_claims k = None \<and>
     kd_serviceName k = (if al_persistence p then Some (anvil_name p) else None)"

lemma anvil_containers: "ConvertContainers [Some (anvil_container p)] = Some (Some [convert_container (anvil_container p)])"
  by (simp add: ConvertContainers_def)

lemma anvil_no_broken: "broken_containers [Some (anvil_container p)] = []"
  by (simp add: broken_containers_def anvil_container_def)

lemma anvil_deployed:
  assumes "al_Namespace p \<noteq> []" "\<not> al_persistence p"
  shows "\<exists>w k. deployment verr chart (anvil_deployment p) = Some (Inr (w, k)) \<and> anvil_pods p w k"
proof -
  have "deployment_broken (anvil_deployment p) = []"
    using assms by (simp add: deployment_broken_def anvil_deployment_def anvil_no_broken missing_Nil_iff)
  then have "\<exists>w k. deployment verr chart (anvil_deployment p) = Some (Inr (w, k)) \<and> anvil_pods p w k"
    using assms by (simp add: deployment_ok anvil_deployment_def anvil_containers ConvertVolumes_def anvil_pods_def selects_def
        label_name_def label_instance_def)
  then show ?thesis .
qed

lemma anvil_statefulset_ok:
  assumes "al_Namespace p \<noteq> []" "al_persistence p"
  shows "\<exists>w k. statefulset verr chart (anvil_statefulset p) = Some (Inr (w, k)) \<and> anvil_pods p w k"
proof -
  have "statefulset_broken (anvil_statefulset p) = []"
    using assms by (simp add: statefulset_broken_def anvil_statefulset_def anvil_no_broken broken_claims_def missing_Nil_iff)
  moreover have "NewMetadataFactory verr (metadata_of (al_Namespace p) ''anvil'' (anvil_name p) (anvil_name p))
      = Inr (metadata_of (al_Namespace p) ''anvil'' (anvil_name p) (anvil_name p))"
    using assms by (intro NewMetadataFactory_ok) simp_all
  ultimately show ?thesis
    using assms by (simp add: statefulset_def anvil_statefulset_def anvil_containers ConvertVolumes_def anvil_pods_def selects_def
        ConvertVolumeClaimTemplates_def metadata_labels SelectorLabels_of label_name_def label_instance_def Let_def)
qed

section \<open>How it is exposed\<close>

definition anvil_exposed :: "anvil_props \<Rightarrow> workload \<Rightarrow> kube_service \<Rightarrow> bool" where
  "anvil_exposed p w s \<longleftrightarrow> sv_ports s = anvil_ports \<and> sv_selector s = wl_LabelsSelector w \<and>
     om_Name (sv_meta s) = Some (anvil_name p) \<and> om_Namespace (sv_meta s) = Some (al_Namespace p) \<and>
     sr_Name (sv_props s) = anvil_name p"

lemma anvil_service:
  assumes "anvil_pods p w k" "al_Namespace p \<noteq> []"
  shows "\<exists>s. ExposeViaService verr w (Some \<lparr>es_Name = [], es_ServiceType = ''ClusterIP'', es_Ports = anvil_ports\<rparr>) = Some (Inr s) \<and>
    anvil_exposed p w s"
proof -
  let ?o = "\<lparr>es_Name = [], es_ServiceType = ''ClusterIP'', es_Ports = anvil_ports\<rparr>"
  have l: "service_ports w ?o = Some anvil_ports" by (simp add: service_ports_def anvil_ports_def)
  have "service_broken (service_props_of w ?o anvil_ports) = []"
    using assms by (auto simp: service_broken_def service_props_of_def missing_Nil_iff anvil_ports_def anvil_pods_def)
  then show ?thesis
    using assms by (simp add: ExposeViaService_Some l service_New_iff service_props_of_def K8sResourceMetadata_def metadata_of_def
        anvil_pods_def anvil_exposed_def Let_def)
qed

lemma anvil_ingress:
  assumes "anvil_pods p w k" "al_Namespace p \<noteq> []"
  shows "\<exists>s g. ExposeViaIngress verr w ''/'' (Some \<lparr>ei_Name = [], ei_IngressClassName = ''example-ingress'', ei_Ports = anvil_ports\<rparr>)
      = Some (Inr (s, g)) \<and> anvil_exposed p w s \<and> in_class g = Some ''example-ingress'' \<and>
      map ki_paths (in_rules g) = [[(Some ''/'', Some ''Prefix'', Some (anvil_name p), Some 8545)]]"
proof -
  from anvil_service[OF assms] obtain s where
    s: "ExposeViaService verr w (Some \<lparr>es_Name = [], es_ServiceType = ''ClusterIP'', es_Ports = anvil_ports\<rparr>) = Some (Inr s)"
      "anvil_exposed p w s" by blast
  let ?rule = "\<lparr>ir_Host = ''*'', ir_PathType = ''Prefix'', ir_Path = ''/'', ir_ServiceName = anvil_name p, ir_ServicePort = 8545\<rparr>"
  let ?p = "\<lparr>ig_Namespace = wl_Namespace w, ig_AppName = wl_AppName w, ig_AppInstance = wl_AppInstance w,
      ig_Name = wl_Name w @ ''-ingress'', ig_Annotations = [], ig_IngressClassName = ''example-ingress'', ig_Rules = [?rule]\<rparr>"
  have "ingress_broken ?p = []"
    using assms by (simp add: ingress_broken_def rule_broken_def missing_def anvil_pods_def)
  moreover have "NewMetadataFactory verr (metadata_of (wl_Namespace w) (wl_AppName w) (wl_AppInstance w) (wl_Name w @ ''-ingress''))
     = Inr (metadata_of (wl_Namespace w) (wl_AppName w) (wl_AppInstance w) (wl_Name w @ ''-ingress''))"
    using assms by (intro NewMetadataFactory_ok) (simp_all add: anvil_pods_def)
  ultimately obtain g where g: "ingress_New verr ?p = Inr g" by (simp add: ingress_New_def)
  have "sr_Name (sv_props s) = anvil_name p" "sv_ports s = anvil_ports" using s(2) by (simp_all add: anvil_exposed_def)
  then have "ExposeViaIngress verr w ''/'' (Some \<lparr>ei_Name = [], ei_IngressClassName = ''example-ingress'', ei_Ports = anvil_ports\<rparr>)
      = Some (Inr (s, g))"
    using s g by (simp add: ExposeViaIngress_def anvil_ports_def ingress_rule_for_def Let_def)
  with s(2) ingress_New_Inr[OF g] show ?thesis
    by (intro exI[of _ s] exI[of _ g]) (simp add: kube_rule_def anvil_port_exact)
qed

text \<open>
  What an Anvil chain promises to its clients: its URLs lead to a port of the service, the service selects the pods and
  sends the port to the one the process in the container listens on, the chain has the id of the props, and an
  ingress, if there is one, routes every path to the service.
\<close>

definition anvil_serves :: "anvil_props \<Rightarrow> build \<Rightarrow> anvil_result \<Rightarrow> bool" where
  "anvil_serves p b r \<longleftrightarrow>
     (\<exists>k s kc es name ns q c. take 2 (bd_parts b) = [PodsPart k, ServicePart s] \<and> kd_containers k = Some [kc] \<and> kc_Env kc = Some es \<and>
        om_Name (sv_meta s) = Some name \<and> om_Namespace (sv_meta s) = Some ns \<and>
        selects (sv_selector s) (the (kd_templateLabels k)) \<and>
        RPCHTTPURL r = ''http://'' @ name @ ''.'' @ ns @ ''.svc.cluster.local:8545'' \<and>
        RPCWebsocketURL r = ''ws://'' @ name @ ''.'' @ ns @ ''.svc.cluster.local:8545'' \<and>
        sv_ports s = [Some q] \<and> sp_Port q = Some 8545 \<and> sp_TargetPort q = Some ''8545'' \<and>
        kc_Ports kc = Some [c] \<and> kp_ContainerPort c = Some 8545 \<and>
        \<lparr>ke_Name = Some ''ANVIL_PORT'', ke_Value = Some ''8545''\<rparr> \<in> set es \<and>
        \<lparr>ke_Name = Some ''ANVIL_CHAIN_ID'', ke_Value = Some (al_ChainID p)\<rparr> \<in> set es \<and>
        (if al_ingress p then \<exists>g. drop 2 (bd_parts b) = [IngressPart g] \<and>
           map ki_paths (in_rules g) = [[(Some ''/'', Some ''Prefix'', Some name, Some 8545)]]
         else drop 2 (bd_parts b) = []))"

lemma anvil_text_port: "show_nat 8545 = ''8545''"
  by (simp add: show_nat.simps char_of_eq_iff)

lemma anvil_servesI:
  assumes "anvil_pods p w k" "anvil_exposed p w s" "r = \<lparr>ar_namespace = al_Namespace p, ar_appInstanceName = anvil_name p\<rparr>"
    and "bd_parts b = [PodsPart k, ServicePart s] @ rest"
    and "if al_ingress p then \<exists>g. rest = [IngressPart g] \<and>
           map ki_paths (in_rules g) = [[(Some ''/'', Some ''Prefix'', Some (anvil_name p), Some 8545)]] else rest = []"
  shows "anvil_serves p b r"
proof -
  let ?kc = "convert_container (anvil_container p)"
  have "kc_Env ?kc = Some (map convert_env (anvil_env p))"
    by (simp add: convert_container_def anvil_container_def anvil_env_def)
  moreover have "\<lparr>ke_Name = Some ''ANVIL_PORT'', ke_Value = Some ''8545''\<rparr> \<in> set (map convert_env (anvil_env p))"
    "\<lparr>ke_Name = Some ''ANVIL_CHAIN_ID'', ke_Value = Some (al_ChainID p)\<rparr> \<in> set (map convert_env (anvil_env p))"
    by (simp_all add: anvil_env_def convert_env_def)
  moreover have "\<exists>c. kc_Ports ?kc = Some [c] \<and> kp_ContainerPort c = Some 8545"
    by (simp add: convert_container_def anvil_container_def convert_port_def servicePort_def anvil_port_exact)
  moreover have "\<exists>q. sv_ports s = [Some q] \<and> sp_Port q = Some 8545 \<and> sp_TargetPort q = Some ''8545''"
    using assms(2) by (simp add: anvil_exposed_def anvil_ports_def show_int_def anvil_text_port)
  moreover have "RPCHTTPURL r = ''http://'' @ anvil_name p @ ''.'' @ al_Namespace p @ ''.svc.cluster.local:8545''"
    "RPCWebsocketURL r = ''ws://'' @ anvil_name p @ ''.'' @ al_Namespace p @ ''.svc.cluster.local:8545''"
    by (simp_all add: RPCHTTPURL_def RPCWebsocketURL_def assms(3) ClusterLocalServiceURL_def servicePort_def show_int_def anvil_text_port)
  moreover have "selects (sv_selector s) (the (kd_templateLabels k))"
    using assms(1,2) unfolding anvil_exposed_def anvil_pods_def by metis
  moreover have "kd_containers k = Some [?kc]" using assms(1) by (simp add: anvil_pods_def)
  moreover have "take 2 (bd_parts b) = [PodsPart k, ServicePart s]" "drop 2 (bd_parts b) = rest" by (simp_all add: assms(4))
  ultimately show ?thesis
    using assms(2,5) unfolding anvil_serves_def anvil_exposed_def by blast
qed

lemma anvil_needs_namespace:
  assumes "al_Namespace p = []"
  shows "\<exists>e. anvil_workload verr p h b = Some (h, b, Inl e)"
  using assms
  by (simp add: anvil_workload_def statefulset_def deployment_def statefulset_broken_def deployment_broken_def anvil_statefulset_def
      anvil_deployment_def missing_def pods_part_def and_then_def)

text \<open>
  C25. The Anvil composite is total: whatever the props and options, it does not panic, it fails exactly when the
  namespace is missing (a chain without an id is accepted), and otherwise the chain serves its clients.
  But persistence is not what its documentation promises: the stateful set claims no volume and has none mounted.
\<close>
theorem anvil_total:
  "case anvil_composite verr props opts h empty_build of
      None \<Rightarrow> False
    | Some (h', b, Inl e) \<Rightarrow> al_Namespace (with_options props opts) = []
    | Some (h', b, Inr r) \<Rightarrow> al_Namespace (with_options props opts) \<noteq> [] \<and> h' = h \<and> anvil_serves (with_options props opts) b r \<and>
        (\<exists>k rest kc. bd_parts b = PodsPart k # rest \<and> kd_containers k = Some [kc] \<and>
           kd_volumes k = None \<and> kd_claims k = None \<and> kc_VolumeMounts kc = None)"
proof -
  let ?p = "with_options props opts"
  show ?thesis
  proof (cases "al_Namespace ?p = []")
    case True
    with anvil_needs_namespace[of ?p verr h empty_build] show ?thesis
      by (auto simp: anvil_composite_def anvil_blockchain_def and_then_def)
  next
    case False
    have "\<exists>w k. anvil_workload verr ?p h empty_build = Some (h, empty_build\<lparr>bd_parts := [PodsPart k]\<rparr>, Inr ([0], w)) \<and> anvil_pods ?p w k"
    proof (cases "al_persistence ?p")
      case True
      with anvil_statefulset_ok[OF False True, of verr "chart_id empty_build"] show ?thesis
        by (auto simp: anvil_workload_def pods_part_def add_part_def and_then_def)
    next
      case np: False
      with anvil_deployed[OF False np, of verr "chart_id empty_build"] show ?thesis
        by (auto simp: anvil_workload_def pods_part_def add_part_def and_then_def)
    qed
    then obtain w k where w: "anvil_workload verr ?p h empty_build = Some (h, empty_build\<lparr>bd_parts := [PodsPart k]\<rparr>, Inr ([0], w))"
      and k: "anvil_pods ?p w k" by blast
    let ?b = "\<lparr>bd_parts = [PodsPart k], bd_deps = []\<rparr>" and ?r = "\<lparr>ar_namespace = al_Namespace ?p, ar_appInstanceName = anvil_name ?p\<rparr>"
    have "\<exists>b s rest i. exposeService verr ?p w h ?b = Some (h, b, Inr i) \<and> bd_parts b = [PodsPart k, ServicePart s] @ rest \<and>
      anvil_exposed ?p w s \<and> (if al_ingress ?p then \<exists>g. rest = [IngressPart g] \<and>
           map ki_paths (in_rules g) = [[(Some ''/'', Some ''Prefix'', Some (anvil_name ?p), Some 8545)]] else rest = [])"
    proof (cases "al_ingress ?p")
      case True
      with anvil_ingress[OF k False, of verr] show ?thesis
        by (fastforce simp: exposeService_def ingress_part_def add_part_def and_then_def)
    next
      case ni: False
      with anvil_service[OF k False, of verr] show ?thesis
        by (fastforce simp: exposeService_def service_part_def add_part_def and_then_def)
    qed
    then obtain b s rest i where b: "exposeService verr ?p w h ?b = Some (h, b, Inr i)" "bd_parts b = [PodsPart k, ServicePart s] @ rest"
      "anvil_exposed ?p w s" "if al_ingress ?p then \<exists>g. rest = [IngressPart g] \<and>
           map ki_paths (in_rules g) = [[(Some ''/'', Some ''Prefix'', Some (anvil_name ?p), Some 8545)]] else rest = []" by blast
    have "anvil_composite verr props opts h empty_build = Some (h, b, Inr ?r)"
      using b(1) by (simp add: anvil_composite_def anvil_blockchain_def w and_then_def)
    moreover have "anvil_serves ?p b ?r" by (rule anvil_servesI[OF k b(3) refl b(2,4)])
    moreover have "kc_VolumeMounts (convert_container (anvil_container ?p)) = None"
      by (simp add: convert_container_def anvil_container_def)
    ultimately show ?thesis using False k b(2) by (simp add: anvil_pods_def)
  qed
qed

end
