(* ===== verification/Telepresence.thy ===== *)
theory Telepresence
  imports Builds Literals
begin

text \<open>
  The Telepresence composite, crib/composite/cluster-services/telepresence/v1/telepresence.go: the access control of
  the traffic manager, its chart, and the manifests that wait for it and connect to it.
\<close>

section \<open>Access control\<close>

definition scalar_part :: "('a \<Rightarrow> part) \<Rightarrow> goerr + 'a \<Rightarrow> heap \<Rightarrow> build \<Rightarrow> nat list built" where
  "scalar_part mk x h b =
     (case x of Inl e \<Rightarrow> Some (h, b, Inl e) | Inr a \<Rightarrow> (case add_part (mk a) b of (b', i) \<Rightarrow> Some (h, b', Inr i)))"

text \<open>The groups, resources and verbs of each rule, with the names it is limited to.\<close>

definition manager_rules :: "string \<Rightarrow> (string list \<times> string list \<times> string list \<times> string list option) list" where
  "manager_rules ns =
     [([''''], [''services''], [''create'', ''update''], None),
      ([''''], [''services'', ''pods''], [''list'', ''get'', ''watch''], None),
      ([''''], [''pods/log''], [''get''], None),
      ([''''], [''configmaps''], [''list'', ''get'', ''watch''], Some [''traffic-manager'']),
      ([''apps''], [''deployments'', ''replicasets'', ''statefulsets''], [''get'', ''list'', ''watch''], None),
      ([''events.k8s.io''], [''events''], [''get'', ''watch''], None),
      ([''''], [''namespaces''], [''get''], Some [ns])]"

definition policy_rule_of :: "string list \<times> string list \<times> string list \<times> string list option \<Rightarrow> policy_rule" where
  "policy_rule_of r =
     (case r of (groups, ress, verbs, names) \<Rightarrow>
       \<lparr>pr_ApiGroups = PtrSlice (Some groups), pr_Resources = PtrSlice (Some ress), pr_Verbs = PtrSlice (Some verbs),
         pr_ResourceNames = (case names of None \<Rightarrow> None | Some xs \<Rightarrow> PtrSlice (Some xs))\<rparr>)"

definition manager_role :: "string \<Rightarrow> role_props" where
  "manager_role ns =
     \<lparr>ro_Namespace = ns, ro_AppName = ''traffic-manager'', ro_AppInstance = ''traffic-manager'', ro_Name = ''traffic-manager'',
       ro_Rules = map (\<lambda>r. Some (policy_rule_of r)) (manager_rules ns)\<rparr>"

definition manager_binding :: "string \<Rightarrow> role_binding_props" where
  "manager_binding ns =
     \<lparr>rb_Namespace = ns, rb_AppName = ''traffic-manager'', rb_AppInstance = ''traffic-manager'', rb_Name = ''traffic-manager'',
       rb_RoleRef = Some \<lparr>rr_ApiGroup = Some ''rbac.authorization.k8s.io'', rr_Kind = Some ''Role'', rr_Name = Some ''traffic-manager''\<rparr>,
       rb_Subjects = [Some \<lparr>sj_Kind = Some ''ServiceAccount'', sj_Name = Some ''traffic-manager'', sj_Namespace = Some ns\<rparr>]\<rparr>"

definition manager_account :: "string \<Rightarrow> service_account_props" where
  "manager_account ns =
     \<lparr>sa_AutomountServiceAccountToken = None, sa_Namespace = ns, sa_AppName = ''traffic-manager'',
       sa_AppInstance = ''traffic-manager'', sa_Name = ''traffic-manager'', sa_Secrets = [], sa_ImagePullSecrets = []\<rparr>"

definition CreateNamespaceLocalRBACs :: "validator_error \<Rightarrow> string \<Rightarrow> heap \<Rightarrow> build \<Rightarrow> unit built" where
  "CreateNamespaceLocalRBACs verr ns h b =
     and_then (scalar_part RolePart (role_New verr (manager_role ns)) h b) (wrapped ''failed to create Role'')
       (\<lambda>h b _.
         and_then (scalar_part BindingPart (role_binding_New verr (manager_binding ns)) h b) (wrapped ''failed to create RoleBinding'')
           (\<lambda>h b _.
             and_then (scalar_part AccountPart (service_account_New verr (manager_account ns)) h b)
               (wrapped ''failed to create ServiceAccount'') (\<lambda>h b _. Some (h, b, Inr ()))))"

section \<open>The composite\<close>

record telepresence_props =
  tp_Namespace :: string
  tp_QuitBeforeRunning :: bool

definition telepresence_broken :: "telepresence_props \<Rightarrow> string list" where
  "telepresence_broken p = missing [(''Namespace'', tp_Namespace p)]"

definition telepresence_values :: "string \<Rightarrow> (string \<times> lit) list" where
  "telepresence_values ns =
     [(''namespaces'', LScalar (SStrs [ns])), (''managerRbac'', LMap [(''create'', LScalar (SBool False))]),
      (''agentInjector'', LMap [(''enabled'', LScalar (SBool False))])]"

definition telepresence_wait :: "string \<Rightarrow> csa_component" where
  "telepresence_wait ns =
     csa_New \<lparr>cs_Namespace = ns, cs_OnFailure = ''abort'', cs_Action = ''kubectl'',
       cs_Args = [''wait'', ''-n'', ns, ''--for=condition=available'', ''deployment'',
         ''-l='' @ join_with '','' [''app=traffic-manager'', ''telepresence=manager''], ''--timeout=600s'']\<rparr>"

definition telepresence_quit :: "string \<Rightarrow> csa_component" where
  "telepresence_quit ns =
     csa_New \<lparr>cs_Namespace = ns, cs_OnFailure = ''abort'', cs_Action = ''telepresence'', cs_Args = [''quit'', ''--stop-daemons'']\<rparr>"

definition telepresence_connect :: "string \<Rightarrow> csa_component" where
  "telepresence_connect ns =
     csa_New \<lparr>cs_Namespace = ''default'', cs_OnFailure = ''abort'', cs_Action = ''telepresence'',
       cs_Args = [''connect'', ''--namespace'', ns, ''--mapped-namespaces'', ns, ''--manager-namespace'', ns]\<rparr>"

definition telepresenceComposite ::
    "validator_error \<Rightarrow> chart_env \<Rightarrow> chart_ref \<Rightarrow> telepresence_props \<Rightarrow> heap \<Rightarrow> build \<Rightarrow> nat list built" where
  "telepresenceComposite verr env d p h b =
     and_then (CreateNamespaceLocalRBACs verr (tp_Namespace p) h b) (wrapped ''failed to create custom RBACs for traffic-manager'')
       (\<lambda>h b _.
         case new_map h (telepresence_values (tp_Namespace p)) of
           (h, values) \<Rightarrow>
             and_then (chart_part (telepresence_Component env d (ChartPropsOf
                 ((chart_props_for (tp_Namespace p) ''traffic-manager'' values)\<lparr>cp_Flags := Some [''--skip-tests'', ''--no-hooks'']\<rparr>)) h) b)
               (\<lambda>e. e)
               (\<lambda>h b telepresence.
                 case add_part (ApplyPart (telepresence_wait (tp_Namespace p))) b of
                   (b, wait) \<Rightarrow>
                     (let b = (if tp_QuitBeforeRunning p then
                         (case add_part (ApplyPart (telepresence_quit (tp_Namespace p))) b of (b, q) \<Rightarrow> depend telepresence q b)
                       else b) in
                      case add_part (ApplyPart (telepresence_connect (tp_Namespace p))) b of
                        (b, connect) \<Rightarrow> Some (h, depend connect wait (depend wait telepresence b), Inr connect))))"

definition telepresence_composite_Component ::
    "validator_error \<Rightarrow> chart_env \<Rightarrow> chart_ref \<Rightarrow> telepresence_props \<Rightarrow> heap \<Rightarrow> build \<Rightarrow> nat list built" where
  "telepresence_composite_Component verr env d p h b =
     (case telepresence_broken p of [] \<Rightarrow> telepresenceComposite verr env d p h b | fs \<Rightarrow> Some (h, b, Inl (verr fs)))"

section \<open>What the traffic manager may do\<close>

lemma scalar_part_Inr:
  "scalar_part mk x h b = Some (h', b', Inr i) \<longleftrightarrow>
     (\<exists>a. x = Inr a \<and> h' = h \<and> b' = b\<lparr>bd_parts := bd_parts b @ [mk a]\<rparr> \<and> i = [length (bd_parts b)])"
  by (auto simp: scalar_part_def add_part_def split: sum.splits)

lemma rbac_ok:
  assumes "CreateNamespaceLocalRBACs verr ns h b = Some (h', b', Inr u)"
  shows "\<exists>r rb sa. role_New verr (manager_role ns) = Inr r \<and> role_binding_New verr (manager_binding ns) = Inr rb \<and>
    service_account_New verr (manager_account ns) = Inr sa \<and>
    h' = h \<and> bd_parts b' = bd_parts b @ [RolePart r, BindingPart rb, AccountPart sa] \<and> bd_deps b' = bd_deps b"
  using assms unfolding CreateNamespaceLocalRBACs_def and_then_Inr scalar_part_Inr by fastforce

lemma lists_PtrSlice [simp]: "lists (PtrSlice (Some xs)) x \<longleftrightarrow> x \<in> set xs"
  by (auto simp: lists_def PtrSlice_def)

lemma PtrSlice_Some [simp]: "PtrSlice (Some xs) \<noteq> None"
  by (simp add: PtrSlice_def)

lemma manager_rule_allows:
  "rule_allows (policy_rule_of (gs, rs, vs, names)) g r obj v \<longleftrightarrow>
     g \<in> set gs \<and> r \<in> set rs \<and> v \<in> set vs \<and> (case names of None \<Rightarrow> True | Some xs \<Rightarrow> obj \<in> set xs)"
  by (auto simp: rule_allows_def policy_rule_of_def split: option.splits)

text \<open>What the rules of the role allow.\<close>

definition may_do :: "string \<Rightarrow> string \<Rightarrow> string \<Rightarrow> string \<Rightarrow> string \<Rightarrow> bool" where
  "may_do ns grp res obj verb \<longleftrightarrow>
     grp = [] \<and> res = ''services'' \<and> verb \<in> {''create'', ''update'', ''list'', ''get'', ''watch''}
     \<or> grp = [] \<and> res = ''pods'' \<and> verb \<in> {''list'', ''get'', ''watch''}
     \<or> grp = [] \<and> res = ''pods/log'' \<and> verb = ''get''
     \<or> grp = [] \<and> res = ''configmaps'' \<and> verb \<in> {''list'', ''get'', ''watch''} \<and> obj = ''traffic-manager''
     \<or> grp = ''apps'' \<and> res \<in> {''deployments'', ''replicasets'', ''statefulsets''} \<and> verb \<in> {''get'', ''list'', ''watch''}
     \<or> grp = ''events.k8s.io'' \<and> res = ''events'' \<and> verb \<in> {''get'', ''watch''}
     \<or> grp = [] \<and> res = ''namespaces'' \<and> verb = ''get'' \<and> obj = ns"

lemma rules_allow:
  "(\<exists>q \<in> set [([e], [sv], [cr, up], None), ([e], [sv, po], [li, ge, wa], None), ([e], [lo], [ge], None),
        ([e], [cm], [li, ge, wa], Some [tm]), ([ap], [de, rs, ss], [ge, li, wa], None), ([ev], [es], [ge, wa], None),
        ([e], [nm], [ge], Some [ns])]. rule_allows (policy_rule_of q) grp res obj verb) \<longleftrightarrow>
     grp = e \<and> res = sv \<and> verb \<in> {cr, up, li, ge, wa} \<or> grp = e \<and> res = po \<and> verb \<in> {li, ge, wa}
     \<or> grp = e \<and> res = lo \<and> verb = ge \<or> grp = e \<and> res = cm \<and> verb \<in> {li, ge, wa} \<and> obj = tm
     \<or> grp = ap \<and> res \<in> {de, rs, ss} \<and> verb \<in> {ge, li, wa} \<or> grp = ev \<and> res = es \<and> verb \<in> {ge, wa}
     \<or> grp = e \<and> res = nm \<and> verb = ge \<and> obj = ns"
  by (simp add: manager_rule_allows) argo

lemma manager_may_do:
  "(\<exists>q \<in> set (manager_rules ns). rule_allows (policy_rule_of q) grp res obj verb) \<longleftrightarrow> may_do ns grp res obj verb"
  unfolding may_do_def manager_rules_def by (rule rules_allow)

text \<open>
  C22. The access control of the traffic manager is confined to its namespace: the service account that is created is the
  only one that is allowed anything, in that namespace only, and what it may do is to create, change and watch
  services, watch pods and workloads, read logs, events, its own config map and the namespace.
\<close>
theorem telepresence_confined:
  assumes "CreateNamespaceLocalRBACs verr ns h b = Some (h', b', Inr u)"
  shows "\<exists>r rb sa. bd_parts b' = bd_parts b @ [RolePart r, BindingPart rb, AccountPart sa] \<and>
    (\<forall>account ns' grp res obj verb. allowed r rb account ns' grp res obj verb \<longleftrightarrow>
       account = (GetNamespace sa, GetServiceAccountName sa) \<and> ns' = ns \<and> GetNamespace sa = ns \<and>
       (grp = [] \<and> res = ''services'' \<and> verb \<in> {''create'', ''update'', ''list'', ''get'', ''watch''}
        \<or> grp = [] \<and> res = ''pods'' \<and> verb \<in> {''list'', ''get'', ''watch''}
        \<or> grp = [] \<and> res = ''pods/log'' \<and> verb = ''get''
        \<or> grp = [] \<and> res = ''configmaps'' \<and> verb \<in> {''list'', ''get'', ''watch''} \<and> obj = ''traffic-manager''
        \<or> grp = ''apps'' \<and> res \<in> {''deployments'', ''replicasets'', ''statefulsets''} \<and> verb \<in> {''get'', ''list'', ''watch''}
        \<or> grp = ''events.k8s.io'' \<and> res = ''events'' \<and> verb \<in> {''get'', ''watch''}
        \<or> grp = [] \<and> res = ''namespaces'' \<and> verb = ''get'' \<and> obj = ns))"
proof -
  from rbac_ok[OF assms] obtain r rb sa where n: "role_New verr (manager_role ns) = Inr r" "role_binding_New verr (manager_binding ns) = Inr rb"
    "service_account_New verr (manager_account ns) = Inr sa" "bd_parts b' = bd_parts b @ [RolePart r, BindingPart rb, AccountPart sa]"
    by blast
  have sa: "GetNamespace sa = ns" "GetServiceAccountName sa = ''traffic-manager''"
    using n(3) by (auto simp: service_account_New_iff manager_account_def GetNamespace_def GetServiceAccountName_def split: if_splits)
  have r: "om_Namespace (kro_meta r) = Some ns" "om_Name (kro_meta r) = Some ''traffic-manager''"
    "kro_rules r = Some (map (\<lambda>r. Some (policy_rule_of r)) (manager_rules ns))"
    using n(1) by (auto simp: role_New_iff manager_role_def K8sResourceMetadata_def metadata_of_def Let_def split: if_splits)
  have rb: "om_Namespace (krb_meta rb) = Some ns" "krb_roleRef rb = rb_RoleRef (manager_binding ns)"
    "krb_subjects rb = Some (rb_Subjects (manager_binding ns))"
    using n(2) by (auto simp: role_binding_New_iff manager_binding_def K8sResourceMetadata_def metadata_of_def Let_def split: if_splits)
  have rules: "(\<exists>x. Some x \<in> set (map (\<lambda>r. Some (policy_rule_of r)) (manager_rules ns)) \<and> rule_allows x grp res obj verb) \<longleftrightarrow>
      (\<exists>q \<in> set (manager_rules ns). rule_allows (policy_rule_of q) grp res obj verb)" for grp res obj verb
    by auto
  have "allowed r rb account ns' grp res obj verb \<longleftrightarrow> ns' = ns \<and> account = (ns, ''traffic-manager'') \<and>
      (\<exists>q \<in> set (manager_rules ns). rule_allows (policy_rule_of q) grp res obj verb)" for account ns' grp res obj verb
    unfolding allowed_def r(3) option.case rules
    by (cases account) (auto simp: r(1,2) rb manager_binding_def)
  then have "allowed r rb account ns' grp res obj verb \<longleftrightarrow>
       account = (GetNamespace sa, GetServiceAccountName sa) \<and> ns' = ns \<and> GetNamespace sa = ns \<and> may_do ns grp res obj verb"
    for account ns' grp res obj verb
    by (auto simp: sa manager_may_do)
  then show ?thesis
    using n(4) unfolding may_do_def by blast
qed

section \<open>The order of the composite\<close>

text \<open>
  C35. Telepresence is applied in one order: a session that is to be quit is quit before the chart of the traffic
  manager is applied, then the manifest that waits for it, then the one that connects to it; the chart does not
  create cluster-wide access control.  But nothing orders the chart after the role, the binding and the account.
\<close>
theorem telepresence_in_order:
  assumes tp: "telepresence_composite_Component verr env d p h empty_build = Some (h', b, Inr k)" and d: "entries h (cr_Values d) dc FD"
  shows "\<exists>r rb sa c v S j. bd_parts b = [RolePart r, BindingPart rb, AccountPart sa, HelmPart c, ApplyPart (telepresence_wait (tp_Namespace p))]
        @ (if tp_QuitBeforeRunning p then [ApplyPart (telepresence_quit (tp_Namespace p))] else [])
        @ [ApplyPart (telepresence_connect (tp_Namespace p))] \<and>
      deployed_values c = Some v \<and> tree (hp_cells h') (HRef MapK v) j S \<and> hx_ns c = tp_Namespace p \<and>
      look [Field ''managerRbac'', Field ''create''] j = Some (JScalar (SBool False)) \<and>
      look [Field ''namespaces''] j = Some (JScalar (SStrs [tp_Namespace p])) \<and>
      (\<forall>order. distinct order \<longrightarrow> (keeps_deps (bd_deps b) order \<longleftrightarrow>
         before 3 4 order \<and> before 4 (length (bd_parts b) - 1) order \<and> (if tp_QuitBeforeRunning p then before 5 3 order else True)))"
proof -
  let ?ns = "tp_Namespace p"
  have ns: "?ns \<noteq> []" and tc: "telepresenceComposite verr env d p h empty_build = Some (h', b, Inr k)"
    using tp by (auto simp: telepresence_composite_Component_def telepresence_broken_def missing_def split: list.splits if_splits)
  obtain h1 m where m: "new_map h (telepresence_values ?ns) = (h1, m)" by (cases "new_map h (telepresence_values ?ns)")
  let ?cp = "(chart_props_for ?ns ''traffic-manager'' m)\<lparr>cp_Flags := Some [''--skip-tests'', ''--no-hooks'']\<rparr>"
  from tc obtain h0 b1 u where rb: "CreateNamespaceLocalRBACs verr ?ns h empty_build = Some (h0, b1, Inr u)"
    unfolding telepresenceComposite_def and_then_Inr by blast
  from rbac_ok[OF rb] obtain r rb' sa where b1: "h0 = h" "bd_parts b1 = [RolePart r, BindingPart rb', AccountPart sa]" "bd_deps b1 = []" by auto
  from tc m b1(1) obtain h2 b2 j where c: "chart_part (telepresence_Component env d (ChartPropsOf ?cp) h1) b1 = Some (h2, b2, Inr j)"
    and b: "h' = h2" "bd_parts b = bd_parts b2 @ [ApplyPart (telepresence_wait ?ns)]
        @ (if tp_QuitBeforeRunning p then [ApplyPart (telepresence_quit ?ns)] else []) @ [ApplyPart (telepresence_connect ?ns)]"
      "bd_deps b = bd_deps b2 @ (if tp_QuitBeforeRunning p then List.product j [Suc (length (bd_parts b2))] else [])
        @ List.product [length (bd_parts b2)] j
        @ [(if tp_QuitBeforeRunning p then Suc (Suc (length (bd_parts b2))) else Suc (length (bd_parts b2)), length (bd_parts b2))]"
    by (auto simp: telepresenceComposite_def and_then_Inr rb add_part_def depend_def Let_def split: if_splits)
  from c obtain q x where x: "telepresence_Component env d (ChartPropsOf ?cp) h1 = Some (h2, q, Inr x)"
    "b2 = b1\<lparr>bd_parts := bd_parts b1 @ [HelmPart x]\<rparr>" "j = [3]"
    by (auto simp: chart_part_def add_part_def b1(2) split: option.splits prod.splits sum.splits)
  have l: "wf_lit (LMap (telepresence_values ?ns))" by (simp add: telepresence_values_def)
  let ?vals = "map (\<lambda>(k, l). (k, lit_val l)) (telepresence_values ?ns)"
  obtain v S where v: "deployed_values x = Some v" "tree (hp_cells h2) (HRef MapK v) (JObj MapK (dc ++ jmap ?vals)) S" "hx_ns x = ?ns"
    using chart_deploys_literal[OF _ _ _ l m _ _ _ x(1)[unfolded telepresence_Component_def], of dc FD] d ns
    by (auto simp: chart_props_for_def)
  have looks: "look [Field ''managerRbac'', Field ''create''] (JObj MapK (dc ++ jmap ?vals)) = Some (JScalar (SBool False))"
    "look [Field ''namespaces''] (JObj MapK (dc ++ jmap ?vals)) = Some (JScalar (SStrs [?ns]))"
    by (simp_all add: look_Field telepresence_values_def map_add_def del: look.simps)
  have parts: "bd_parts b = [RolePart r, BindingPart rb', AccountPart sa, HelmPart x, ApplyPart (telepresence_wait ?ns)]
        @ (if tp_QuitBeforeRunning p then [ApplyPart (telepresence_quit ?ns)] else []) @ [ApplyPart (telepresence_connect ?ns)]"
    by (simp add: b(2) x(2) b1(2))
  have "bd_deps b = (if tp_QuitBeforeRunning p then [(3, 5)] else []) @ [(4, 3), (length (bd_parts b) - 1, 4)]"
    by (simp add: parts) (simp add: b(3) x(2,3) b1(2,3))
  then have "keeps_deps (bd_deps b) order \<longleftrightarrow> before 3 4 order \<and> before 4 (length (bd_parts b) - 1) order \<and>
      (if tp_QuitBeforeRunning p then before 5 3 order else True)" if "distinct order" for order
    by (auto simp: keeps_deps_def)
  then show ?thesis
    using parts v looks b(1)
    by (intro exI[of _ r] exI[of _ rb'] exI[of _ sa] exI[of _ x] exI[of _ v] exI[of _ S] exI[of _ "JObj MapK (dc ++ jmap ?vals)"] conjI)
      simp_all
qed

section \<open>A concrete traffic manager\<close>

lemma rbac_total:
  assumes "ns \<noteq> []"
  shows "\<exists>b'. CreateNamespaceLocalRBACs verr ns h b = Some (h, b', Inr ())"
proof -
  have "role_broken (manager_role ns) = []"
    using assms by (auto simp: role_broken_def manager_role_def manager_rules_def missing_def)
  moreover have "role_binding_broken (manager_binding ns) = []" "service_account_broken (manager_account ns) = []"
    using assms by (simp_all add: role_binding_broken_def manager_binding_def service_account_broken_def manager_account_def missing_def)
  ultimately show ?thesis
    by (simp add: CreateNamespaceLocalRBACs_def role_New_iff role_binding_New_iff service_account_New_iff scalar_part_def add_part_def
        and_then_def)
qed

theorem telepresence_confined_witness:
  "\<exists>b' r rb sa. CreateNamespaceLocalRBACs (\<lambda>fs. ErrText ''missing'') ''dev'' demo_chart_heap empty_build = Some (demo_chart_heap, b', Inr ()) \<and>
     bd_parts b' = [RolePart r, BindingPart rb, AccountPart sa] \<and>
     allowed r rb (''dev'', ''traffic-manager'') ''dev'' [] ''pods'' ''p'' ''get'' \<and>
     \<not> allowed r rb (''dev'', ''traffic-manager'') ''dev'' [] ''secrets'' ''p'' ''get'' \<and>
     \<not> allowed r rb (''dev'', ''traffic-manager'') ''prod'' [] ''pods'' ''p'' ''get''"
proof -
  obtain b' where b: "CreateNamespaceLocalRBACs (\<lambda>fs. ErrText ''missing'') ''dev'' demo_chart_heap empty_build = Some (demo_chart_heap, b', Inr ())"
    using rbac_total[of "''dev''"] by fastforce
  from telepresence_confined[OF b] obtain r rb sa where p: "bd_parts b' = [RolePart r, BindingPart rb, AccountPart sa]"
    and a: "\<And>account ns' grp res obj verb. allowed r rb account ns' grp res obj verb \<longleftrightarrow>
       account = (GetNamespace sa, GetServiceAccountName sa) \<and> ns' = ''dev'' \<and> GetNamespace sa = ''dev'' \<and>
       (grp = [] \<and> res = ''services'' \<and> verb \<in> {''create'', ''update'', ''list'', ''get'', ''watch''}
        \<or> grp = [] \<and> res = ''pods'' \<and> verb \<in> {''list'', ''get'', ''watch''}
        \<or> grp = [] \<and> res = ''pods/log'' \<and> verb = ''get''
        \<or> grp = [] \<and> res = ''configmaps'' \<and> verb \<in> {''list'', ''get'', ''watch''} \<and> obj = ''traffic-manager''
        \<or> grp = ''apps'' \<and> res \<in> {''deployments'', ''replicasets'', ''statefulsets''} \<and> verb \<in> {''get'', ''list'', ''watch''}
        \<or> grp = ''events.k8s.io'' \<and> res = ''events'' \<and> verb \<in> {''get'', ''watch''}
        \<or> grp = [] \<and> res = ''namespaces'' \<and> verb = ''get'' \<and> obj = ''dev'')" by auto
  from rbac_ok[OF b] p have "service_account_New (\<lambda>fs. ErrText ''missing'') (manager_account ''dev'') = Inr sa" by auto
  then have "GetNamespace sa = ''dev''" "GetServiceAccountName sa = ''traffic-manager''"
    by (auto simp: service_account_New_iff manager_account_def GetNamespace_def GetServiceAccountName_def split: if_splits)
  with b p show ?thesis by (simp add: a)
qed

theorem telepresence_in_order_witness:
  "\<exists>h b k. telepresence_composite_Component (\<lambda>fs. ErrText ''missing'') demo_chart_env demo_ref
       \<lparr>tp_Namespace = ''dev'', tp_QuitBeforeRunning = True\<rparr> demo_chart_heap empty_build = Some (h, b, Inr k) \<and>
     \<not> keeps_deps (bd_deps b) [0, 1, 2, 3, 4, 5, 6] \<and> keeps_deps (bd_deps b) [5, 3, 4, 0, 1, 2, 6]"
proof -
  let ?verr = "\<lambda>fs. ErrText ''missing''" and ?p = "\<lparr>tp_Namespace = ''dev'', tp_QuitBeforeRunning = True\<rparr>"
  obtain b1 where b1: "CreateNamespaceLocalRBACs ?verr ''dev'' demo_chart_heap empty_build = Some (demo_chart_heap, b1, Inr ())"
    using rbac_total[of "''dev''"] by fastforce
  obtain h1 m where m: "new_map demo_chart_heap (telepresence_values ''dev'') = (h1, m)"
    by (cases "new_map demo_chart_heap (telepresence_values ''dev'')")
  let ?cp = "(chart_props_for ''dev'' ''traffic-manager'' m)\<lparr>cp_Flags := Some [''--skip-tests'', ''--no-hooks'']\<rparr>"
  have "\<exists>h2 q c. telepresence_Component demo_chart_env demo_ref (ChartPropsOf ?cp) h1 = Some (h2, q, Inr c)"
    by (simp add: telepresence_Component_def Component_copies chart_props_for_def helmchart_New_def demo_chart_env_def err_of_def Let_def)
  then obtain h2 q c where "telepresence_Component demo_chart_env demo_ref (ChartPropsOf ?cp) h1 = Some (h2, q, Inr c)" by blast
  with b1 m have "\<exists>h b k. telepresence_composite_Component ?verr demo_chart_env demo_ref ?p demo_chart_heap empty_build = Some (h, b, Inr k)"
    by (simp add: telepresence_composite_Component_def telepresence_broken_def missing_def telepresenceComposite_def and_then_def
        chart_part_def add_part_def Let_def)
  then obtain h b k where t: "telepresence_composite_Component ?verr demo_chart_env demo_ref ?p demo_chart_heap empty_build = Some (h, b, Inr k)"
    by blast
  have "entries demo_chart_heap (cr_Values demo_ref) [Field ''image'' \<mapsto> demo_image] demo_sets"
    using demo_defaults by (simp add: demo_ref_def)
  from telepresence_in_order[OF t this] obtain r rb sa c where
    "bd_parts b = [RolePart r, BindingPart rb, AccountPart sa, HelmPart c, ApplyPart (telepresence_wait ''dev''),
        ApplyPart (telepresence_quit ''dev''), ApplyPart (telepresence_connect ''dev'')]"
    "\<And>order. distinct order \<Longrightarrow> keeps_deps (bd_deps b) order \<longleftrightarrow>
         before 3 4 order \<and> before 4 (length (bd_parts b) - 1) order \<and> before 5 3 order" by auto
  with t show ?thesis by (intro exI[of _ h] exI[of _ b] exI[of _ k]) simp
qed

end
