(* ===== verification/Doctor.thy ===== *)
theory Doctor
  imports GoStrings Errors Indent "HOL-Library.List_Lexorder" "HOL-Library.Char_ord"
begin

text \<open>
  The diagnosis of the tools cribctl needs, internal/adapter/cribctl/doctor.go.  Searching the path, running a
  command, and the libraries expr and semver are parameters; the scanner and the regular expression are those of
  the standard library.  The spinner only animates the terminal and is left out.
\<close>

section \<open>Dependencies\<close>

record dependency =
  dn_Name :: string
  dn_VersionMatcher :: string
  dn_VersionCommand :: "string list"
  dn_Optional :: bool

text \<open>The values an expression may have, as far as the code tells them apart.\<close>

datatype expr_value = ExprNil | ExprBool bool | ExprOther

record doctor_env =
  de_look :: "string \<Rightarrow> goerr + string"
  de_output :: "string list \<Rightarrow> goerr + string"
  de_semver :: "string \<Rightarrow> bool"
  de_compile :: "string \<Rightarrow> goerr option"
  de_run :: "string \<Rightarrow> goerr + expr_value"

definition at_least :: "string \<Rightarrow> string" where
  "at_least v = QU @ ''%s'' @ QU @ ''>='' @ QU @ v @ QU"

definition cribDependencies :: "dependency list" where
  "cribDependencies =
     [\<lparr>dn_Name = ''kubectl'', dn_VersionMatcher = [], dn_VersionCommand = [], dn_Optional = False\<rparr>,
      \<lparr>dn_Name = ''helm'', dn_VersionMatcher = at_least ''3.18.4'',
        dn_VersionCommand = [''helm'', ''version'', ''--template'', ''{{.Version}}''], dn_Optional = False\<rparr>,
      \<lparr>dn_Name = ''task'', dn_VersionMatcher = at_least ''3.40.0'', dn_VersionCommand = [''task'', ''--version''], dn_Optional = False\<rparr>,
      \<lparr>dn_Name = ''kind'', dn_VersionMatcher = at_least ''0.20.0'', dn_VersionCommand = [''kind'', ''--version''], dn_Optional = False\<rparr>,
      \<lparr>dn_Name = ''telepresence'', dn_VersionMatcher = [], dn_VersionCommand = [], dn_Optional = False\<rparr>,
      \<lparr>dn_Name = ''node'', dn_VersionMatcher = QU @ ''%s'' @ QU @ ''=='' @ QU @ ''22.17.0'' @ QU,
        dn_VersionCommand = [''node'', ''-v''], dn_Optional = False\<rparr>,
      \<lparr>dn_Name = ''asdf'', dn_VersionMatcher = at_least ''0.15.0'', dn_VersionCommand = [''asdf'', ''--version''], dn_Optional = True\<rparr>,
      \<lparr>dn_Name = ''go'', dn_VersionMatcher = at_least ''1.24.0'', dn_VersionCommand = [''go'', ''version''], dn_Optional = False\<rparr>]"

text \<open>What \<open>init\<close> has validated: \<open>expr\<close> is the rule of that name; the panic is the result False.\<close>

definition dependency_valid :: "(string \<Rightarrow> bool) \<Rightarrow> dependency \<Rightarrow> bool" where
  "dependency_valid expr d \<longleftrightarrow> dn_Name d \<noteq> [] \<and> (dn_VersionMatcher d \<noteq> [] \<longrightarrow> expr (dn_VersionMatcher d)) \<and>
     (dn_VersionMatcher d \<noteq> [] \<longrightarrow> dn_VersionCommand d \<noteq> []) \<and> [] \<notin> set (dn_VersionCommand d)"

definition doctor_init :: "(string \<Rightarrow> bool) \<Rightarrow> bool" where
  "doctor_init expr \<longleftrightarrow> list_all (dependency_valid expr) cribDependencies"

section \<open>Words and versions\<close>

text \<open>
  \<open>bufio.ScanWords\<close> with the buffer of a scanner, 64 kB: the words, and whether the scanner stopped at one that is too
  long.
\<close>

definition max_token :: nat where "max_token = 65536"

definition skip_space :: "string \<Rightarrow> string" where
  "skip_space s = concat (map snd (dropWhile (\<lambda>x. is_space_rune (fst x)) (segments s)))"

definition word_of :: "string \<Rightarrow> string" where
  "word_of s = concat (map snd (takeWhile (\<lambda>x. \<not> is_space_rune (fst x)) (segments s)))"

lemma skip_space_length: "length (skip_space s) \<le> length s"
proof -
  have "concat (map snd (segments s)) = s" by (rule concat_segments)
  moreover have "length (concat (map snd (dropWhile P xs))) \<le> length (concat (map snd xs))" for P and xs :: "(nat \<times> string) list"
    by (induction xs) auto
  ultimately show ?thesis unfolding skip_space_def by metis
qed

function scan_words :: "string \<Rightarrow> string list \<times> bool" where
  "scan_words s =
     (let s' = skip_space s; w = word_of (take max_token s') in
      if s' = [] \<or> w = [] then ([], False)
      else if max_token \<le> length w then ([], True)
      else (case scan_words (drop (length w) s') of (ws, long) \<Rightarrow> (w # ws, long)))"
  by pat_completeness auto
termination
proof (relation "measure length")
  fix s s' w
  assume a: "s' = skip_space s" "w = word_of (take max_token s')" "\<not> (s' = [] \<or> w = [])"
  have "length s' \<le> length s" using skip_space_length a(1) by simp
  moreover have "0 < length w" "0 < length s'" using a(3) by simp_all
  ultimately have "length s' - length w < length s" by linarith
  then show "(drop (length w) s', s) \<in> measure length" by simp
qed simp

declare scan_words.simps [simp del]

text \<open>\<open>\d+\.\d+(?:\.\d+)?\<close> at the start of a string, the empty string when it does not match there, and anywhere in it.\<close>

definition digits_of :: "string \<Rightarrow> string" where "digits_of s = takeWhile is_digit s"

definition match_version :: "string \<Rightarrow> string" where
  "match_version s =
     (let a = digits_of s in
      case drop (length a) s of
        [] \<Rightarrow> []
      | c # r \<Rightarrow>
          (let b = digits_of r in
           if a = [] \<or> c \<noteq> CHR ''.'' \<or> b = [] then []
           else
             (case drop (length b) r of
                [] \<Rightarrow> a @ ''.'' @ b
              | c' # r' \<Rightarrow>
                  (if c' = CHR ''.'' \<and> digits_of r' \<noteq> [] then a @ ''.'' @ b @ ''.'' @ digits_of r' else a @ ''.'' @ b))))"

fun find_version :: "string \<Rightarrow> string" where
  "find_version [] = []"
| "find_version (c # cs) = (if match_version (c # cs) \<noteq> [] then match_version (c # cs) else find_version cs)"

fun first_version :: "(string \<Rightarrow> bool) \<Rightarrow> string list \<Rightarrow> string" where
  "first_version sv [] = []"
| "first_version sv (word # ws) =
     (let w = find_version word in
      if w = [] then first_version sv ws
      else
        (let w = (if is_digit (hd w) then CHR ''v'' # w else w) in
         if sv w then tl w else first_version sv ws))"

definition extractVersion :: "doctor_env \<Rightarrow> string \<Rightarrow> goerr + string" where
  "extractVersion env out =
     (case scan_words out of
        (ws, long) \<Rightarrow>
          (let v = first_version (de_semver env) ws in
           if v \<noteq> [] then Inr v
           else if long then Inl (WrapErr ''failed to scan output'' (ErrText ''bufio.Scanner: token too long''))
           else Inl (ErrText (''could not extract a valid version from output: '' @ out))))"

section \<open>The checks\<close>

text \<open>\<open>fmt.Sprintf\<close> with a format whose only verb is one \<open>%s\<close>.\<close>

definition sprintf_s :: "string \<Rightarrow> string \<Rightarrow> string" where
  "sprintf_s fmt v =
     (case str_index ''%s'' fmt of
        Some i \<Rightarrow> take i fmt @ v @ drop (i + 2) fmt
      | None \<Rightarrow> fmt @ ''%!(EXTRA string='' @ v @ '')'')"

definition validateVersion :: "doctor_env \<Rightarrow> dependency \<Rightarrow> string \<Rightarrow> goerr option" where
  "validateVersion env d version =
     (if dn_VersionMatcher d = [] then None
      else
        (let matcher = sprintf_s (dn_VersionMatcher d) version in
         case de_compile env matcher of
           Some e \<Rightarrow> Some (WrapErr (''failed to compile version matcher '' @ quote matcher) e)
         | None \<Rightarrow>
             (case de_run env matcher of
                Inl e \<Rightarrow> Some (WrapErr (''failed to evaluate version matcher '' @ quote matcher) e)
              | Inr res \<Rightarrow>
                  (if res = ExprBool True then None
                   else Some (ErrText (''installed version '' @ quote version @ '' does not match required version matcher '' @ quote matcher))))))"

definition ok_mark :: string where "ok_mark = [CHR 0xE2, CHR 0x9C, CHR 0x85]"
definition fail_mark :: string where "fail_mark = [CHR 0xE2, CHR 0x9D, CHR 0x8C]"
definition warn_mark :: string where "warn_mark = [CHR 0xE2, CHR 0x9A, CHR 0xA0, CHR 0xEF, CHR 0xB8, CHR 0x8F]"

definition checkAvailability :: "doctor_env \<Rightarrow> dependency \<Rightarrow> string \<times> goerr option" where
  "checkAvailability env d =
     (case de_look env (dn_Name d) of
        Inr bin \<Rightarrow> (''  '' @ ok_mark @ '' Found at '' @ bin @ [LF], None)
      | Inl _ \<Rightarrow>
          (if dn_Optional d then (''  '' @ warn_mark @ ''  Not found.'' @ [LF], Some (Sentinel ErrDependencyNotFound))
           else (''  '' @ fail_mark @ '' Not found!'' @ [LF], Some (Sentinel ErrDependencyNotFound))))"

definition checkVersion :: "doctor_env \<Rightarrow> dependency \<Rightarrow> string" where
  "checkVersion env d =
     (if length (dn_VersionCommand d) = 0 then []
      else
        (case de_output env (dn_VersionCommand d) of
           Inl e \<Rightarrow> ''  '' @ fail_mark @ '' Failed to get version: '' @ error_text e @ [LF]
         | Inr out \<Rightarrow>
             (case extractVersion env out of
                Inl e \<Rightarrow> ''  '' @ fail_mark @ '' Could not determine version from output: '' @ error_text e @ [LF]
              | Inr version \<Rightarrow>
                  (case validateVersion env d version of
                     None \<Rightarrow> ''  '' @ ok_mark @ '' Found version '' @ version @ [LF]
                   | Some e \<Rightarrow>
                       (let wanted = sprintf_s (dn_VersionMatcher d) version in
                        if dn_Optional d then
                          ''  '' @ warn_mark @ ''  '' @ dn_Name d @ '' is optional but should be upgraded: (have) '' @ wanted @ '' (need)'' @ [LF]
                        else ''  '' @ fail_mark @ '' Needs upgrading: (have) '' @ wanted @ '' (need)'' @ [LF])))))"

definition dependency_report :: "doctor_env \<Rightarrow> dependency \<Rightarrow> string" where
  "dependency_report env d =
     sprintf_s (if dn_Optional d then ''%s (optional)'' else ''%s'') (dn_Name d) @ [LF] @
     (case checkAvailability env d of
        (t, err) \<Rightarrow> t @ (if err = None \<and> dn_VersionMatcher d \<noteq> [] then checkVersion env d else []))"

text \<open>What is written to the standard error; the command itself returns nothing.\<close>

definition DoctorCommand :: "doctor_env \<Rightarrow> string" where
  "DoctorCommand env = concat (map (dependency_report env) cribDependencies)"

section \<open>The regular expression\<close>

text \<open>The language of the expression.\<close>

definition digits :: "string \<Rightarrow> bool" where
  "digits x \<longleftrightarrow> x \<noteq> [] \<and> list_all is_digit x"

definition version_text :: "string \<Rightarrow> bool" where
  "version_text v \<longleftrightarrow> (\<exists>a b. digits a \<and> digits b \<and> (v = a @ ''.'' @ b \<or> (\<exists>c. digits c \<and> v = a @ ''.'' @ b @ ''.'' @ c)))"

lemma not_digit_dot [simp]: "\<not> is_digit CHR ''.''"
  by (simp add: is_digit_def)

lemma digits_of_prefix: "list_all is_digit a \<Longrightarrow> digits_of (a @ q) = a @ digits_of q"
  by (induction a) (simp_all add: digits_of_def)

lemma digits_of_stop [simp]: "digits_of (CHR ''.'' # q) = []" "digits_of [] = []"
  by (simp_all add: digits_of_def)

lemma digits_of_digits: "digits_of s \<noteq> [] \<Longrightarrow> digits (digits_of s)"
  by (auto simp: digits_def digits_of_def list_all_iff dest: set_takeWhileD)

lemma digits_of_rest: "drop (length (digits_of s)) s = t \<Longrightarrow> s = digits_of s @ t"
  by (metis digits_of_def dropWhile_eq_drop takeWhile_dropWhile_id)

lemma match_version_sound:
  assumes "match_version s \<noteq> []"
  shows "version_text (match_version s) \<and> (\<exists>q. s = match_version s @ q)"
proof -
  let ?a = "digits_of s"
  from assms obtain c r where r: "drop (length ?a) s = c # r" by (auto simp: match_version_def Let_def split: list.splits)
  let ?b = "digits_of r"
  from assms r have c: "?a \<noteq> []" "c = CHR ''.''" "?b \<noteq> []" by (auto simp: match_version_def Let_def split: if_splits)
  have s: "s = ?a @ ''.'' @ r" using digits_of_rest[OF r] c(2) by simp
  have da: "digits ?a" "digits ?b" using c digits_of_digits by blast+
  show ?thesis
  proof (cases "\<exists>r'. drop (length ?b) r = CHR ''.'' # r' \<and> digits_of r' \<noteq> []")
    case True
    then obtain r' where r': "drop (length ?b) r = CHR ''.'' # r'" "digits_of r' \<noteq> []" by blast
    have m: "match_version s = ?a @ ''.'' @ ?b @ ''.'' @ digits_of r'" using r r' c by (simp add: match_version_def)
    obtain q where q: "r' = digits_of r' @ q" using digits_of_rest by blast
    have "r = ?b @ CHR ''.'' # r'" using r'(1) by (rule digits_of_rest)
    with q have "r = ?b @ CHR ''.'' # digits_of r' @ q" by argo
    with s have "s = ?a @ ''.'' @ ?b @ CHR ''.'' # digits_of r' @ q" by argo
    then have "s = match_version s @ q" unfolding m by simp
    moreover have "version_text (match_version s)"
      unfolding version_text_def m using da digits_of_digits[OF r'(2)] by blast
    ultimately show ?thesis by blast
  next
    case False
    have m: "match_version s = ?a @ ''.'' @ ?b"
    proof (cases "drop (length ?b) r")
      case Nil
      with r c show ?thesis by (simp add: match_version_def)
    next
      case (Cons c' r')
      with False have "\<not> (c' = CHR ''.'' \<and> digits_of r' \<noteq> [])" by blast
      with Cons r c show ?thesis by (simp add: match_version_def Let_def)
    qed
    obtain q where q: "r = ?b @ q" using digits_of_rest by blast
    with s have "s = ?a @ ''.'' @ ?b @ q" by argo
    then have "s = match_version s @ q" unfolding m by simp
    moreover have "version_text (match_version s)" unfolding version_text_def m using da by blast
    ultimately show ?thesis by blast
  qed
qed

lemma match_version_greedy:
  assumes "version_text v"
  shows "match_version (v @ q) \<noteq> [] \<and> length v \<le> length (match_version (v @ q))"
proof -
  from assms obtain a b where ab: "digits a" "digits b" and v: "v = a @ ''.'' @ b \<or> (\<exists>c. digits c \<and> v = a @ ''.'' @ b @ ''.'' @ c)"
    by (auto simp: version_text_def)
  note d = ab[unfolded digits_def]
  from v show ?thesis
  proof
    assume v: "v = a @ ''.'' @ b"
    then have "digits_of (v @ q) = a" using d by (simp add: digits_of_prefix)
    moreover have "drop (length a) (v @ q) = CHR ''.'' # b @ q" by (simp add: v)
    moreover have "digits_of (b @ q) = b @ digits_of q" using d by (simp add: digits_of_prefix)
    ultimately show ?thesis using d by (auto simp: match_version_def Let_def v split: list.splits)
  next
    assume "\<exists>c. digits c \<and> v = a @ ''.'' @ b @ ''.'' @ c"
    then obtain c where c: "digits c" "v = a @ ''.'' @ b @ ''.'' @ c" by blast
    then have "digits_of (v @ q) = a" using d by (simp add: digits_of_prefix)
    moreover have "drop (length a) (v @ q) = CHR ''.'' # b @ CHR ''.'' # c @ q" by (simp add: c)
    moreover have "digits_of (b @ CHR ''.'' # c @ q) = b" using d by (simp add: digits_of_prefix)
    moreover have "digits_of (c @ q) = c @ digits_of q" using c(1) by (simp add: digits_def digits_of_prefix)
    ultimately show ?thesis using d c(1) by (auto simp: match_version_def c digits_def)
  qed
qed

text \<open>
  C39. The search for a version is the leftmost, longest match of \<open>\d+\.\d+(?:\.\d+)?\<close>: it finds nothing exactly when no
  part of the word is in the language of the expression, and what it finds is in it, starts no later than any
  other part that is, and is the longest that starts there.
\<close>
theorem find_version_matches:
  "(find_version w = [] \<longleftrightarrow> (\<forall>p v q. w = p @ v @ q \<longrightarrow> \<not> version_text v)) \<and>
   (find_version w \<noteq> [] \<longrightarrow> (\<exists>p q. w = p @ find_version w @ q \<and> version_text (find_version w) \<and>
      (\<forall>p' v q'. w = p' @ v @ q' \<longrightarrow> version_text v \<longrightarrow>
         length p \<le> length p' \<and> (length p = length p' \<longrightarrow> length v \<le> length (find_version w)))))"
proof (induction w)
  case Nil
  then show ?case by (simp add: version_text_def)
next
  case (Cons c cs)
  show ?case
  proof (cases "match_version (c # cs) = []")
    case False
    then have f: "find_version (c # cs) = match_version (c # cs)" by simp
    from match_version_sound[OF False] obtain q where q: "version_text (match_version (c # cs))" "c # cs = match_version (c # cs) @ q" by blast
    have g: "length v \<le> length (match_version (c # cs))" if "c # cs = v @ q'" "version_text v" for v q'
      using match_version_greedy[OF that(2), of q'] that(1) by simp
    let ?m = "match_version (c # cs)"
    have "c # cs = [] @ ?m @ q" using q(2) by simp
    then have none: "?m = [] \<longleftrightarrow> (\<forall>p v q. c # cs = p @ v @ q \<longrightarrow> \<not> version_text v)" using q(1) False by blast
    have "length ([]::string) \<le> length p' \<and> (length ([]::string) = length p' \<longrightarrow> length v \<le> length ?m)"
      if "c # cs = p' @ v @ q'" "version_text v" for p' v q'
      using g[of v q'] that by simp
    with \<open>c # cs = [] @ ?m @ q\<close> q(1) have "\<exists>p q. c # cs = p @ ?m @ q \<and> version_text ?m \<and>
      (\<forall>p' v q'. c # cs = p' @ v @ q' \<longrightarrow> version_text v \<longrightarrow>
         length p \<le> length p' \<and> (length p = length p' \<longrightarrow> length v \<le> length ?m))" by blast
    with none show ?thesis unfolding f by blast
  next
    case True
    then have f: "find_version (c # cs) = find_version cs" by simp
    have tail: "\<exists>p''. p' = c # p'' \<and> cs = p'' @ v @ q'" if "c # cs = p' @ v @ q'" "version_text v" for p' v q'
      using match_version_greedy[OF that(2), of q'] that True by (cases p') auto
    have "(\<exists>p v q. c # cs = p @ v @ q \<and> version_text v) \<longleftrightarrow> (\<exists>p v q. cs = p @ v @ q \<and> version_text v)"
    proof
      assume "\<exists>p v q. cs = p @ v @ q \<and> version_text v"
      then obtain p v q where "c # cs = (c # p) @ v @ q" "version_text v" by auto
      then show "\<exists>p v q. c # cs = p @ v @ q \<and> version_text v" by blast
    qed (use tail in blast)
    with Cons.IH have none: "find_version cs = [] \<longleftrightarrow> (\<forall>p v q. c # cs = p @ v @ q \<longrightarrow> \<not> version_text v)" by blast
    have "\<exists>p q. c # cs = p @ find_version cs @ q \<and> version_text (find_version cs) \<and>
      (\<forall>p' v q'. c # cs = p' @ v @ q' \<longrightarrow> version_text v \<longrightarrow>
         length p \<le> length p' \<and> (length p = length p' \<longrightarrow> length v \<le> length (find_version cs)))" if "find_version cs \<noteq> []"
    proof -
      from Cons.IH that obtain p q where p: "cs = p @ find_version cs @ q" "version_text (find_version cs)"
        "\<forall>p' v q'. cs = p' @ v @ q' \<longrightarrow> version_text v \<longrightarrow>
         length p \<le> length p' \<and> (length p = length p' \<longrightarrow> length v \<le> length (find_version cs))" by blast
      have "length (c # p) \<le> length p' \<and> (length (c # p) = length p' \<longrightarrow> length v \<le> length (find_version cs))"
        if "c # cs = p' @ v @ q'" "version_text v" for p' v q'
      proof -
        from tail[OF that] obtain p'' where "p' = c # p''" "cs = p'' @ v @ q'" by blast
        with p(3) that(2) show ?thesis by auto
      qed
      moreover have "c # cs = (c # p) @ find_version cs @ q" using p(1) by simp
      ultimately show ?thesis using p(2) by blast
    qed
    with none show ?thesis unfolding f by blast
  qed
qed

section \<open>The version of a tool\<close>

lemma version_text_hd: "version_text v \<Longrightarrow> v \<noteq> [] \<and> is_digit (hd v)"
  by (auto simp: version_text_def digits_def neq_Nil_conv)

lemma find_version_text: "find_version w \<noteq> [] \<Longrightarrow> version_text (find_version w)"
  by (induction w) (auto split: if_splits dest: match_version_sound)

lemma first_version_Cons:
  "first_version sv (w # ws) =
     (if find_version w \<noteq> [] \<and> sv (CHR ''v'' # find_version w) then find_version w else first_version sv ws)"
  using find_version_text[of w] version_text_hd[of "find_version w"] by (auto simp: Let_def)

lemma first_version_iff:
  assumes "v \<noteq> []"
  shows "first_version sv ws = v \<longleftrightarrow> (\<exists>us w rest. ws = us @ w # rest \<and> v = find_version w \<and> sv (CHR ''v'' # v) \<and>
     list_all (\<lambda>u. find_version u = [] \<or> \<not> sv (CHR ''v'' # find_version u)) us)"
proof (induction ws)
  case Nil
  then show ?case using assms by simp
next
  case (Cons x ws)
  show ?case
  proof (cases "find_version x \<noteq> [] \<and> sv (CHR ''v'' # find_version x)")
    case True
    have first: "us = [] \<and> w = x" if "x # ws = us @ w # rest" "list_all (\<lambda>u. find_version u = [] \<or> \<not> sv (CHR ''v'' # find_version u)) us" for us w rest
      using that True by (cases us) auto
    have eq: "first_version sv (x # ws) = find_version x" unfolding first_version_Cons using True by simp
    show ?thesis
    proof
      assume "first_version sv (x # ws) = v"
      then show "\<exists>us w rest. x # ws = us @ w # rest \<and> v = find_version w \<and> sv (CHR ''v'' # v) \<and>
          list_all (\<lambda>u. find_version u = [] \<or> \<not> sv (CHR ''v'' # find_version u)) us"
        using True eq by (intro exI[of _ "[]"] exI[of _ x] exI[of _ ws]) simp
    next
      assume "\<exists>us w rest. x # ws = us @ w # rest \<and> v = find_version w \<and> sv (CHR ''v'' # v) \<and>
          list_all (\<lambda>u. find_version u = [] \<or> \<not> sv (CHR ''v'' # find_version u)) us"
      then obtain us w rest where w: "x # ws = us @ w # rest" "v = find_version w"
        "list_all (\<lambda>u. find_version u = [] \<or> \<not> sv (CHR ''v'' # find_version u)) us" by (elim exE conjE)
      from first[OF w(1,3)] w(2) eq show "first_version sv (x # ws) = v" by simp
    qed
  next
    case False
    then have "first_version sv (x # ws) = first_version sv ws" unfolding first_version_Cons by auto
    moreover have "(\<exists>us w rest. x # ws = us @ w # rest \<and> v = find_version w \<and> sv (CHR ''v'' # v) \<and>
        list_all (\<lambda>u. find_version u = [] \<or> \<not> sv (CHR ''v'' # find_version u)) us) \<longleftrightarrow>
      (\<exists>us w rest. ws = us @ w # rest \<and> v = find_version w \<and> sv (CHR ''v'' # v) \<and>
        list_all (\<lambda>u. find_version u = [] \<or> \<not> sv (CHR ''v'' # find_version u)) us)" (is "?l \<longleftrightarrow> ?r")
    proof
      assume ?l
      then obtain us w rest where u: "x # ws = us @ w # rest" "v = find_version w" "sv (CHR ''v'' # v)"
        "list_all (\<lambda>u. find_version u = [] \<or> \<not> sv (CHR ''v'' # find_version u)) us" by blast
      then obtain us' where "us = x # us'" using False assms by (cases us) auto
      with u show ?r by (intro exI[of _ us'] exI[of _ w] exI[of _ rest]) simp
    next
      assume ?r
      then obtain us w rest where "ws = us @ w # rest" "v = find_version w" "sv (CHR ''v'' # v)"
        "list_all (\<lambda>u. find_version u = [] \<or> \<not> sv (CHR ''v'' # find_version u)) us" by blast
      with False show ?l by (intro exI[of _ "x # us"] exI[of _ w] exI[of _ rest]) auto
    qed
    ultimately show ?thesis using Cons.IH by simp
  qed
qed

text \<open>
  C40. The version of a tool is taken from its output: it is the match of the expression in the first word that has one
  which, with a \<open>v\<close> before it, is a semantic version; there is an error exactly when no word has one.
\<close>
theorem extractVersion_first:
  "(extractVersion env out = Inr v \<longleftrightarrow>
     (\<exists>us w rest. fst (scan_words out) = us @ w # rest \<and> v = find_version w \<and> v \<noteq> [] \<and> de_semver env (CHR ''v'' # v) \<and>
        list_all (\<lambda>u. find_version u = [] \<or> \<not> de_semver env (CHR ''v'' # find_version u)) us)) \<and>
   (is_err (extractVersion env out) \<longleftrightarrow>
     list_all (\<lambda>u. find_version u = [] \<or> \<not> de_semver env (CHR ''v'' # find_version u)) (fst (scan_words out)))"
proof -
  obtain ws long where w: "scan_words out = (ws, long)" by (cases "scan_words out")
  have e: "extractVersion env out = Inr v \<longleftrightarrow> v \<noteq> [] \<and> first_version (de_semver env) ws = v"
    unfolding extractVersion_def w prod.case Let_def
    by (cases "first_version (de_semver env) ws = []"; cases long) auto
  have "first_version (de_semver env) ws = [] \<longleftrightarrow>
      list_all (\<lambda>u. find_version u = [] \<or> \<not> de_semver env (CHR ''v'' # find_version u)) ws" for ws
  proof (induction ws)
    case (Cons x ws)
    then show ?case unfolding first_version_Cons by auto
  qed simp
  then have "is_err (extractVersion env out) \<longleftrightarrow>
      list_all (\<lambda>u. find_version u = [] \<or> \<not> de_semver env (CHR ''v'' # find_version u)) ws"
    unfolding extractVersion_def w prod.case Let_def
    by (cases "first_version (de_semver env) ws = []"; cases long) auto
  moreover have "extractVersion env out = Inr v \<longleftrightarrow>
     (\<exists>us w rest. ws = us @ w # rest \<and> v = find_version w \<and> v \<noteq> [] \<and> de_semver env (CHR ''v'' # v) \<and>
        list_all (\<lambda>u. find_version u = [] \<or> \<not> de_semver env (CHR ''v'' # find_version u)) us)"
    unfolding e using first_version_iff[of v "de_semver env" ws] by blast
  ultimately show ?thesis unfolding w fst_conv by blast
qed

section \<open>The comparison of versions\<close>

text \<open>
  The documented meaning of \<open>>=\<close> on two string literals, here of versions, which need no escapes: the order of Go's strings,
  by bytes.
\<close>

definition compares_strings :: "doctor_env \<Rightarrow> bool" where
  "compares_strings env \<longleftrightarrow> (\<forall>a b. version_text a \<longrightarrow> version_text b \<longrightarrow>
     de_compile env (QU @ a @ QU @ ''>='' @ QU @ b @ QU) = None \<and>
     de_run env (QU @ a @ QU @ ''>='' @ QU @ b @ QU) = Inr (ExprBool (b \<le> a)))"

lemma sprintf_at_least: "sprintf_s (at_least m) v = QU @ v @ QU @ ''>='' @ QU @ m @ QU"
  by (simp add: sprintf_s_def at_least_def QU_def)

lemma validate_compares:
  assumes "compares_strings env" "dn_VersionMatcher d = at_least m" "version_text m" "version_text v"
  shows "validateVersion env d v = None \<longleftrightarrow> m \<le> v"
proof -
  have "dn_VersionMatcher d \<noteq> []" using assms(2) by (simp add: at_least_def QU_def)
  with assms show ?thesis by (simp add: validateVersion_def sprintf_at_least compares_strings_def Let_def)
qed

text \<open>The number that digits stand for, and the version that numbers stand for.\<close>

definition number :: "string \<Rightarrow> nat" where
  "number s = foldl (\<lambda>n c. 10 * n + (byte c - 48)) 0 s"

definition dotted :: "string list \<Rightarrow> string" where "dotted ns = join_with ''.'' ns"

definition components :: "string list \<Rightarrow> bool" where
  "components ns \<longleftrightarrow> length ns \<in> {2, 3} \<and> list_all digits ns"

lemma dotted_version:
  assumes "components ns" shows "version_text (dotted ns)"
proof -
  from assms consider a b where "ns = [a, b]" "digits a" "digits b" | a b c where "ns = [a, b, c]" "digits a" "digits b" "digits c"
    by (auto simp: components_def numeral_2_eq_2 numeral_3_eq_3 length_Suc_conv)
  then show ?thesis
  proof cases
    case 1
    then show ?thesis unfolding version_text_def dotted_def by (intro exI[of _ a] exI[of _ b]) simp
  next
    case 2
    then show ?thesis unfolding version_text_def dotted_def by (intro exI[of _ a] exI[of _ b] conjI disjI2 exI[of _ c]) simp_all
  qed
qed

lemma number_foldl: "foldl (\<lambda>n c. 10 * n + (byte c - 48)) k s = k * 10 ^ length s + number s"
proof (induction s arbitrary: k)
  case (Cons c s)
  have "number (c # s) = (byte c - 48) * 10 ^ length s + number s"
    using Cons.IH[of "byte c - 48"] by (simp add: number_def)
  with Cons.IH[of "10 * k + (byte c - 48)"] show ?case by (simp add: algebra_simps)
qed (simp add: number_def)

lemma number_Cons: "number (c # s) = (byte c - 48) * 10 ^ length s + number s"
  using number_foldl[of "byte c - 48" s] by (simp add: number_def)

lemma number_bound: "list_all is_digit s \<Longrightarrow> number s < 10 ^ length s"
proof (induction s)
  case (Cons c s)
  then have "byte c - 48 \<le> 9" "number s < 10 ^ length s" by (auto simp: is_digit_def)
  then have "(byte c - 48) * 10 ^ length s + number s < 9 * 10 ^ length s + 10 ^ length s"
    by (intro add_le_less_mono mult_le_mono1)
  then show ?case by (simp add: number_Cons)
qed (simp add: number_def)

lemma digits_order:
  assumes "length s = length t" "list_all is_digit s" "list_all is_digit t"
  shows "(s < t \<longleftrightarrow> number s < number t) \<and> (s = t \<longleftrightarrow> number s = number t)"
  using assms
proof (induction s t rule: list_induct2)
  case (Cons c s d t)
  let ?m = "10 ^ length t"
  have b: "number s < ?m" "number t < ?m" using number_bound[of s] number_bound[of t] Cons by simp_all
  have l: "number (c # s) = (byte c - 48) * ?m + number s" using Cons.hyps by (simp add: number_Cons)
  have r: "number (d # t) = (byte d - 48) * ?m + number t" by (rule number_Cons)
  consider "byte c < byte d" | "byte d < byte c" | "c = d" by (metis nat_neq_iff of_char_eq_iff)
  then show ?case
  proof cases
    case 1
    then have "Suc (byte c - 48) \<le> byte d - 48" using Cons.prems by (auto simp: is_digit_def)
    then have "Suc (byte c - 48) * ?m \<le> (byte d - 48) * ?m" by (rule mult_le_mono1)
    with b l r have "number (c # s) < number (d # t)" by simp
    with 1 show ?thesis by (auto simp: less_char_def)
  next
    case 2
    then have "Suc (byte d - 48) \<le> byte c - 48" using Cons.prems by (auto simp: is_digit_def)
    then have "Suc (byte d - 48) * ?m \<le> (byte c - 48) * ?m" by (rule mult_le_mono1)
    with b l r have "number (d # t) < number (c # s)" by simp
    with 2 show ?thesis by (auto simp: less_char_def)
  next
    case 3
    with Cons show ?thesis by (simp add: l number_Cons)
  qed
qed simp

lemma lex_append: "length a = length b \<Longrightarrow> a @ (x :: string) \<le> b @ y \<longleftrightarrow> a < b \<or> a = b \<and> x \<le> y"
  by (induction a b rule: list_induct2) auto

lemma same_width_order:
  assumes "map length ms = map length ns" "list_all digits ms" "list_all digits ns"
  shows "dotted ms \<le> dotted ns \<longleftrightarrow> map number ms \<le> map number ns"
  using assms
proof (induction ms arbitrary: ns)
  case (Cons a ms)
  then obtain b ns' where ns: "ns = b # ns'" "length a = length b" "map length ms = map length ns'" by (auto simp: Cons_eq_map_conv)
  have ab: "(a < b \<longleftrightarrow> number a < number b) \<and> (a = b \<longleftrightarrow> number a = number b)"
    using Cons.prems ns by (intro digits_order) (simp_all add: digits_def)
  have tl: "dotted ms \<le> dotted ns' \<longleftrightarrow> map number ms \<le> map number ns'" using Cons ns by simp
  have l: "length ms = length ns'" using map_eq_imp_length_eq[OF ns(3)] .
  show ?case
  proof (cases "ms = []")
    case True
    with l ab lex_append[OF ns(2), of "[]" "[]"] show ?thesis by (simp add: ns(1) dotted_def)
  next
    case False
    with l have "ns' \<noteq> []" by auto
    with False have "dotted (a # ms) = a @ CHR ''.'' # dotted ms" "dotted (b # ns') = b @ CHR ''.'' # dotted ns'"
      by (cases ms; cases ns'; simp add: dotted_def)+
    with lex_append[OF ns(2), of "CHR ''.'' # dotted ms" "CHR ''.'' # dotted ns'"] ab tl show ?thesis by (simp add: ns(1))
  qed
qed (simp add: dotted_def)

text \<open>
  C15. The versions are compared as strings, not as versions.  When the numbers of the installed version have as many digits as
  those asked for, that is the comparison of versions; otherwise it need not be: doctor reports a kind 0.3.0 as good, which is too
  old for the \<open>0.20.0\<close> it asks for, and tells the user of 0.100.0, which is newer, to upgrade.
\<close>
theorem doctor_compares_strings:
  assumes "compares_strings env"
  shows "(\<forall>d ms ns. dn_VersionMatcher d = at_least (dotted ms) \<longrightarrow> components ms \<longrightarrow> components ns \<longrightarrow> map length ms = map length ns \<longrightarrow>
      (validateVersion env d (dotted ns) = None \<longleftrightarrow> map number ms \<le> map number ns)) \<and>
    (\<exists>kind. kind \<in> set cribDependencies \<and> dn_Name kind = ''kind'' \<and> dn_VersionMatcher kind = at_least (dotted [''0'', ''20'', ''0'']) \<and>
      (\<forall>out. de_output env [''kind'', ''--version''] = Inr out \<longrightarrow>
        (extractVersion env out = Inr ''0.3.0'' \<longrightarrow> checkVersion env kind = ''  '' @ ok_mark @ '' Found version 0.3.0'' @ [LF]) \<and>
        (extractVersion env out = Inr ''0.100.0'' \<longrightarrow>
           checkVersion env kind = ''  '' @ fail_mark @ '' Needs upgrading: (have) '' @ QU @ ''0.100.0'' @ QU @ ''>='' @ QU @ ''0.20.0'' @ QU @
             '' (need)'' @ [LF])))"
proof -
  let ?kind = "\<lparr>dn_Name = ''kind'', dn_VersionMatcher = at_least ''0.20.0'', dn_VersionCommand = [''kind'', ''--version''], dn_Optional = False\<rparr>"
  have "components [''0'', ''20'', ''0'']" "components [''0'', ''3'', ''0'']" "components [''0'', ''100'', ''0'']"
    by (simp_all add: components_def digits_def is_digit_def)
  note versions = this[THEN dotted_version, unfolded dotted_def, simplified]
  note kind = validate_compares[OF assms, of ?kind "''0.20.0''", simplified]
  have old: "validateVersion env ?kind ''0.3.0'' = None"
    using kind[OF versions(1,2)] by (simp add: less_eq_char_def less_char_def)
  have new: "validateVersion env ?kind ''0.100.0'' \<noteq> None"
    using kind[OF versions(1,3)] by (simp add: less_eq_char_def less_char_def)
  have "?kind \<in> set cribDependencies" by (simp add: cribDependencies_def)
  moreover have "checkVersion env ?kind = ''  '' @ ok_mark @ '' Found version 0.3.0'' @ [LF]"
    if "de_output env [''kind'', ''--version''] = Inr out" "extractVersion env out = Inr ''0.3.0''" for out
    using that old by (simp add: checkVersion_def)
  moreover have "checkVersion env ?kind = ''  '' @ fail_mark @ '' Needs upgrading: (have) '' @ QU @ ''0.100.0'' @ QU @ ''>='' @ QU @ ''0.20.0'' @ QU @
      '' (need)'' @ [LF]"
    if "de_output env [''kind'', ''--version''] = Inr out" "extractVersion env out = Inr ''0.100.0''" for out
    using that new by (auto simp: checkVersion_def sprintf_at_least Let_def)
  moreover have "validateVersion env d (dotted ns) = None \<longleftrightarrow> map number ms \<le> map number ns"
    if "dn_VersionMatcher d = at_least (dotted ms)" "components ms" "components ns" "map length ms = map length ns" for d ms ns
    using validate_compares[OF assms that(1) dotted_version[OF that(2)] dotted_version[OF that(3)]] same_width_order[OF that(4)] that(2,3)
    by (simp add: components_def)
  ultimately show ?thesis by (intro conjI allI impI exI[of _ ?kind]) (simp_all add: dotted_def)
qed

text \<open>An evaluator that compares the strings between the quotes, for a witness.\<close>

definition demo_eval :: "string \<Rightarrow> goerr + expr_value" where
  "demo_eval s =
     (case split_on CHR 0x27 s of
        [_, a, _, b, _] \<Rightarrow> Inr (ExprBool (b \<le> a))
      | _ \<Rightarrow> Inr ExprNil)"

definition demo_doctor :: doctor_env where
  "demo_doctor = \<lparr>de_look = (\<lambda>n. Inr (''/bin/'' @ n)), de_output = (\<lambda>_. Inr ''kind 0.3.0''), de_semver = (\<lambda>_. True),
     de_compile = (\<lambda>_. None), de_run = demo_eval\<rparr>"

lemma split_on_plain: "c \<notin> set a \<Longrightarrow> split_on c (a @ c # r) = a # split_on c r"
  by (induction a) auto

lemma split_on_none: "c \<notin> set a \<Longrightarrow> split_on c a = [a]"
  by (induction a) auto

lemma demo_doctor_compares: "compares_strings demo_doctor"
proof -
  have q: "CHR 0x27 \<notin> set v" if "version_text v" for v
  proof -
    have "CHR 0x27 \<notin> set x" if "digits x" for x using that by (auto simp: digits_def list_all_iff is_digit_def)
    with that show ?thesis by (auto simp: version_text_def)
  qed
  have "demo_eval (QU @ a @ QU @ ''>='' @ QU @ b @ QU) = Inr (ExprBool (b \<le> a))" if "version_text a" "version_text b" for a b
  proof -
    have e: "QU @ a @ QU @ ''>='' @ QU @ b @ QU = CHR 0x27 # (a @ CHR 0x27 # (''>='' @ CHR 0x27 # (b @ CHR 0x27 # [])))"
      by (simp add: QU_def)
    have "split_on CHR 0x27 (QU @ a @ QU @ ''>='' @ QU @ b @ QU) = [[], a, ''>='', b, []]"
      unfolding e using that[THEN q] by (simp add: split_on_plain)
    then show ?thesis by (simp add: demo_eval_def)
  qed
  then show ?thesis by (simp add: compares_strings_def demo_doctor_def)
qed

lemma demo_doctor_extracts: "extractVersion demo_doctor ''kind 0.3.0'' = Inr ''0.3.0''"
proof -
  note defs = skip_space_def word_of_def segments_ascii ascii_def is_space_rune_def max_token_def
  have nil: "scan_words [] = ([], False)" by (subst scan_words.simps) (simp add: skip_space_def segments.simps)
  have one: "scan_words '' 0.3.0'' = ([''0.3.0''], False)" by (subst scan_words.simps) (simp add: defs nil)
  have "scan_words ''kind 0.3.0'' = ([''kind'', ''0.3.0''], False)" by (subst scan_words.simps) (simp add: defs one)
  then show ?thesis
    by (simp add: extractVersion_def match_version_def digits_of_def is_digit_def demo_doctor_def)
qed

theorem doctor_compares_strings_witness:
  "\<exists>kind. kind \<in> set cribDependencies \<and> dn_Name kind = ''kind'' \<and>
     checkVersion demo_doctor kind = ''  '' @ ok_mark @ '' Found version 0.3.0'' @ [LF]"
proof -
  have "de_output demo_doctor [''kind'', ''--version''] = Inr ''kind 0.3.0''" by (simp add: demo_doctor_def)
  with doctor_compares_strings[OF demo_doctor_compares] demo_doctor_extracts show ?thesis by blast
qed

text \<open>The table of the dependencies passes the validation when the library accepts its expressions.\<close>

lemma doctor_init_ok: "(\<And>e. expr e) \<Longrightarrow> doctor_init expr"
  by (simp add: doctor_init_def cribDependencies_def dependency_valid_def)

end
