(* ===== verification/Cribctl.thy ===== *)
theory Cribctl
  imports PlanService Indent "HOL-Library.List_Lexorder" "HOL-Library.Char_ord"
begin

text \<open>
  The plan commands of cribctl: the registry of contrib/plan_registry.go, the operations of
  internal/adapter/cribctl/plan.go and the commands of cmd/cribctl/cmd/plan.go, plan_apply.go and plan_preview.go,
  over the plan service.  The terminal (writing a message, asking for confirmation) is a parameter; Cobra validates
  the arguments of a command, runs the hooks from the root to the command, then the command, and exits with 1
  when one of them returns an error, as it documents.
\<close>

section \<open>The registry of plans\<close>

text \<open>A function that returns a plan: a store with the address of the plan in it, or nil; it may panic.\<close>

type_synonym ('k, 'f) plan_fn =
  "'k world \<Rightarrow> ((('k cfun, 'f iresolver) heap \<times> ptr) option \<times> 'k world) outcome"

type_synonym ('k, 'f) registry = "(string \<times> ('k, 'f) plan_fn) list"

fun register_plans :: "('k, 'f) plan_fn list \<Rightarrow> ('k, 'f) registry \<Rightarrow> 'k world \<Rightarrow> (('k, 'f) registry \<times> 'k world) outcome" where
  "register_plans [] m w = Ret (m, w)"
| "register_plans (plan # plans) m w =
     (case plan w of
        OutOfFuel \<Rightarrow> OutOfFuel
      | Panic msg \<Rightarrow> Panic msg
      | Ret (None, w) \<Rightarrow> Panic ''nil pointer dereference''
      | Ret (Some (h, p), w) \<Rightarrow>
          (let name = p_name (h p) in
           if name = [] then Panic ''Plans must have their name populated!''
           else if name \<in> fst ` set m then Panic (''Plan '' @ name @ '' has already been registered!'')
           else register_plans plans (m @ [(name, plan)]) w))"

definition registered_plan ::
    "('k, 'f) registry \<Rightarrow> string \<Rightarrow> 'k world \<Rightarrow> ((('k cfun, 'f iresolver) heap \<times> ptr) option \<times> 'k world) outcome" where
  "registered_plan m name w =
     (case map_of m name of
        None \<Rightarrow> Panic (''Plan '' @ name @ '' is not registered!'')
      | Some plan \<Rightarrow> plan w)"

definition Plans :: "('k, 'f) registry \<Rightarrow> string list" where
  "Plans m = sort (map fst m)"

section \<open>Preview and application\<close>

text \<open>What a command takes from outside.\<close>

record ('k, 'f) cli =
  cl_plans :: "('k, 'f) registry"
  cl_sort :: "('f iresolver \<Rightarrow> int) \<Rightarrow> 'f iresolver list \<Rightarrow> 'f iresolver list"
  cl_name_resolver :: 'f
  cl_synth :: "'f app_plan \<Rightarrow> 'k world \<Rightarrow> 'k world"
  cl_fuel :: nat
  cl_env :: "'k environment"
  cl_tyname :: "construct \<Rightarrow> string"
  cl_render :: "tree \<Rightarrow> string"
  cl_write :: "string \<Rightarrow> 'k world \<Rightarrow> goerr option \<times> 'k world"
  cl_confirm :: "string \<Rightarrow> 'k world \<Rightarrow> (goerr + bool) \<times> 'k world"

definition plans_message :: "('k, 'f) registry \<Rightarrow> string" where
  "plans_message m = [LF, LF] @ ''Available plans:'' @ [LF] @ ''- '' @ join_with ([LF] @ ''- '') (Plans m) @ [LF, LF]"

definition ValidatePlanArgs :: "('k, 'f) registry \<Rightarrow> string \<Rightarrow> string list \<Rightarrow> 'k world \<Rightarrow> (goerr option \<times> 'k world) outcome" where
  "ValidatePlanArgs m command args w =
     (case args of
        [name] \<Rightarrow>
          (case registered_plan m name w of
             OutOfFuel \<Rightarrow> OutOfFuel
           | Panic _ \<Rightarrow>
               Ret (Some (ErrText (command @ '': no plan found with name '' @ quote name @ ''. '' @ plans_message m)), w)
           | Ret (_, w) \<Rightarrow> Ret (None, w))
      | _ \<Rightarrow>
          Ret (Some (ErrText (command @ '': command requires exactly one argument: the name of the plan. '' @ plans_message m)), w))"

definition create_plan where
  "create_plan c fh name w =
     (case registered_plan (cl_plans c) name w of
        OutOfFuel \<Rightarrow> OutOfFuel
      | Panic msg \<Rightarrow> Panic msg
      | Ret (None, w) \<Rightarrow> Ret (w, Inl (ErrText (''no plan found with name '' @ name)))
      | Ret (Some (h, p), w) \<Rightarrow>
          (case CreatePlan (cl_sort c) (cl_name_resolver c) (cl_synth c) (cl_fuel c) fh True h p w of
             OutOfFuel \<Rightarrow> OutOfFuel
           | Panic msg \<Rightarrow> Panic msg
           | Ret (h', w, Inl e) \<Rightarrow> Ret (w, Inl (WrapErr ''failed to create plan'' e))
           | Ret (h', w, Inr appPlan) \<Rightarrow> Ret (w, Inr (h', appPlan))))"

definition PreviewPlan :: "('k, 'f) cli \<Rightarrow> handler \<Rightarrow> string \<Rightarrow> 'k world \<Rightarrow> ('k world \<times> (goerr + string \<times> string)) outcome" where
  "PreviewPlan c fh name w =
     (case create_plan c fh name w of
        OutOfFuel \<Rightarrow> OutOfFuel
      | Panic msg \<Rightarrow> Panic msg
      | Ret (w, Inl e) \<Rightarrow> Ret (w, Inl e)
      | Ret (w, Inr (h, appPlan)) \<Rightarrow>
          (case Preview (cl_tyname c) (cl_render c) h (ap_RootPlan appPlan) w of
             (preview, w) \<Rightarrow> Ret (w, Inr (preview, HandlerName fh))))"

definition ApplyPlan :: "('k, 'f) cli \<Rightarrow> handler \<Rightarrow> string \<Rightarrow> 'k world \<Rightarrow> ('k world \<times> goerr option) outcome" where
  "ApplyPlan c fh name w =
     (case create_plan c fh name w of
        OutOfFuel \<Rightarrow> OutOfFuel
      | Panic msg \<Rightarrow> Panic msg
      | Ret (w, Inl e) \<Rightarrow> Ret (w, Some e)
      | Ret (w, Inr (_, appPlan)) \<Rightarrow>
          (case AppPlan_Apply (cl_env c) fh appPlan w of
             (Inl e, w) \<Rightarrow> Ret (w, Some e)
           | (Inr _, w) \<Rightarrow> Ret (w, None)))"

section \<open>The commands\<close>

text \<open>At which of its returns the command \<open>apply\<close> ended.\<close>

datatype apply_stop =
    NotWritten
  | PreviewFailed goerr
  | ConfirmFailed goerr
  | Cancelled
  | ApplyFailed goerr
  | Applied

definition say :: "('k, 'f) cli \<Rightarrow> string \<Rightarrow> 'k world \<Rightarrow> ('k world \<Rightarrow> (apply_stop \<times> 'k world) outcome) \<Rightarrow> (apply_stop \<times> 'k world) outcome" where
  "say c msg w f = (case cl_write c msg w of (None, w) \<Rightarrow> f w | (Some _, w) \<Rightarrow> Ret (NotWritten, w))"

text \<open>A last message: whether it can be written makes no difference.\<close>

definition say_end :: "('k, 'f) cli \<Rightarrow> string \<Rightarrow> apply_stop \<Rightarrow> 'k world \<Rightarrow> (apply_stop \<times> 'k world) outcome" where
  "say_end c msg e w = (case cl_write c msg w of (_, w) \<Rightarrow> Ret (e, w))"

definition confirmed_apply :: "('k, 'f) cli \<Rightarrow> handler \<Rightarrow> string \<Rightarrow> 'k world \<Rightarrow> (apply_stop \<times> 'k world) outcome" where
  "confirmed_apply c fh name w =
     say c ([LF] @ ''Applying plan '' @ quote name @ ''...'' @ [LF]) w (\<lambda>w.
       case ApplyPlan c fh name w of
         OutOfFuel \<Rightarrow> OutOfFuel
       | Panic msg \<Rightarrow> Panic msg
       | Ret (w, Some e) \<Rightarrow> say_end c (''Error applying plan: '' @ error_text e @ [LF]) (ApplyFailed e) w
       | Ret (w, None) \<Rightarrow> say_end c (''Successfully applied plan: '' @ name @ [LF]) Applied w)"

text \<open>The confirmation, which \<open>--yes\<close> skips.\<close>

definition ask_apply :: "('k, 'f) cli \<Rightarrow> bool \<Rightarrow> handler \<Rightarrow> string \<Rightarrow> 'k world \<Rightarrow> (apply_stop \<times> 'k world) outcome" where
  "ask_apply c autoAccept fh name w =
     (if autoAccept then say c ([LF] @ ''Auto-accepting (--yes flag provided)...'' @ [LF]) w (confirmed_apply c fh name)
      else
        (case cl_confirm c name w of
           (Inl e, w) \<Rightarrow> say_end c (''Error during confirmation: '' @ error_text e @ [LF]) (ConfirmFailed e) w
         | (Inr confirmed, w) \<Rightarrow>
             (if \<not> confirmed then say_end c (''Plan application cancelled.'' @ [LF]) Cancelled w
              else confirmed_apply c fh name w)))"

definition apply_run :: "('k, 'f) cli \<Rightarrow> bool \<Rightarrow> handler \<Rightarrow> string \<Rightarrow> 'k world \<Rightarrow> (apply_stop \<times> 'k world) outcome" where
  "apply_run c autoAccept fh name w =
     say c (''Previewing plan '' @ quote name @ ''...'' @ [LF, LF]) w (\<lambda>w.
       case PreviewPlan c fh name w of
         OutOfFuel \<Rightarrow> OutOfFuel
       | Panic msg \<Rightarrow> Panic msg
       | Ret (w, Inl e) \<Rightarrow> say_end c (''Error previewing plan: '' @ error_text e @ [LF]) (PreviewFailed e) w
       | Ret (w, Inr (preview, _)) \<Rightarrow> say c (preview @ [LF]) w (ask_apply c autoAccept fh name))"

definition preview_run :: "('k, 'f) cli \<Rightarrow> bool \<Rightarrow> handler \<Rightarrow> string \<Rightarrow> 'k world \<Rightarrow> (goerr option \<times> 'k world) outcome" where
  "preview_run c render_dir_set fh name w =
     (case PreviewPlan c fh name w of
        OutOfFuel \<Rightarrow> OutOfFuel
      | Panic msg \<Rightarrow> Panic msg
      | Ret (w, Inl e) \<Rightarrow> Ret (Some (WrapErr ''previewing plan'' e), w)
      | Ret (w, Inr (preview, outputDir)) \<Rightarrow>
          (case cl_write c (''Plan DAG Preview for '' @ name @ '':'' @ [LF, LF] @ preview @ [LF]) w of
             (Some e, w) \<Rightarrow> Ret (Some (WrapErr ''writing preview output'' e), w)
           | (None, w) \<Rightarrow>
               (if render_dir_set then
                  (case cl_write c ([LF] @ ''Generated files dumped to: '' @ outputDir @ [LF]) w of
                     (Some e, w) \<Rightarrow> Ret (Some (WrapErr ''writing output directory info'' e), w)
                   | (None, w) \<Rightarrow> Ret (None, w))
                else Ret (None, w))))"

text \<open>
  The hook of \<open>plan\<close> that makes the handler is the parameter \<open>mk\<close>; the result is the exit status, with the end of
  the command when it was run.
\<close>

definition plan_apply_command ::
    "('k, 'f) cli \<Rightarrow> bool \<Rightarrow> ('k world \<Rightarrow> (goerr + handler) \<times> 'k world) \<Rightarrow> string list \<Rightarrow> 'k world
      \<Rightarrow> (nat \<times> apply_stop option \<times> 'k world) outcome" where
  "plan_apply_command c autoAccept mk args w =
     (case ValidatePlanArgs (cl_plans c) ''apply'' args w of
        OutOfFuel \<Rightarrow> OutOfFuel
      | Panic msg \<Rightarrow> Panic msg
      | Ret (Some e, w) \<Rightarrow> Ret (1, None, w)
      | Ret (None, w) \<Rightarrow>
          (case mk w of
             (Inl e, w) \<Rightarrow> Ret (1, None, w)
           | (Inr fh, w) \<Rightarrow>
               (case apply_run c autoAccept fh (hd args) w of
                  OutOfFuel \<Rightarrow> OutOfFuel
                | Panic msg \<Rightarrow> Panic msg
                | Ret (e, w) \<Rightarrow> Ret (0, Some e, w))))"

definition plan_preview_command ::
    "('k, 'f) cli \<Rightarrow> bool \<Rightarrow> ('k world \<Rightarrow> (goerr + handler) \<times> 'k world) \<Rightarrow> string list \<Rightarrow> 'k world
      \<Rightarrow> (nat \<times> 'k world) outcome" where
  "plan_preview_command c render_dir_set mk args w =
     (case ValidatePlanArgs (cl_plans c) ''preview'' args w of
        OutOfFuel \<Rightarrow> OutOfFuel
      | Panic msg \<Rightarrow> Panic msg
      | Ret (Some e, w) \<Rightarrow> Ret (1, w)
      | Ret (None, w) \<Rightarrow>
          (case mk w of
             (Inl e, w) \<Rightarrow> Ret (1, w)
           | (Inr fh, w) \<Rightarrow>
               (case preview_run c render_dir_set fh (hd args) w of
                  OutOfFuel \<Rightarrow> OutOfFuel
                | Panic msg \<Rightarrow> Panic msg
                | Ret (Some e, w) \<Rightarrow> Ret (1, w)
                | Ret (None, w) \<Rightarrow> Ret (0, w))))"

section \<open>The registry\<close>

lemma register_plans_keys:
  "register_plans fs m w = Ret (m', w') \<Longrightarrow> distinct (map fst m) \<Longrightarrow> [] \<notin> fst ` set m \<Longrightarrow>
     distinct (map fst m') \<and> [] \<notin> fst ` set m' \<and> map snd m' = map snd m @ fs"
proof (induction fs arbitrary: m w)
  case (Cons f fs)
  from Cons.prems(1) obtain h p w1 where f: "f w = Ret (Some (h, p), w1)" "p_name (h p) \<noteq> []" "p_name (h p) \<notin> fst ` set m"
    "register_plans fs (m @ [(p_name (h p), f)]) w1 = Ret (m', w')"
    by (auto simp: Let_def split: outcome.splits option.splits prod.splits if_splits)
  from Cons.IH[OF f(4)] Cons.prems(2,3) f(2,3) show ?case by (simp add: image_iff)
qed simp

text \<open>
  CX. The registry of plans: when the initialisation does not panic, the plans are registered under distinct names that
  are not empty, in their order; the list of the available plans is sorted and complete, and asking for a plan
  runs the function that was registered, or panics when there is none.
\<close>
theorem registry_complete:
  assumes "register_plans fs [] w = Ret (m, w')"
  shows "map snd m = fs \<and> [] \<notin> set (Plans m) \<and> sorted (Plans m) \<and> distinct (Plans m) \<and> length (Plans m) = length fs \<and>
    (\<forall>i < length fs. registered_plan m (fst (m ! i)) = fs ! i) \<and>
    (\<forall>name v. name \<notin> set (Plans m) \<longrightarrow> registered_plan m name v = Panic (''Plan '' @ name @ '' is not registered!''))"
proof -
  from register_plans_keys[OF assms] have k: "distinct (map fst m)" "[] \<notin> fst ` set m" "map snd m = fs" by simp_all
  then have "length m = length fs" by (metis length_map)
  have "registered_plan m (fst (m ! i)) = fs ! i" if "i < length fs" for i
  proof -
    have "(fst (m ! i), snd (m ! i)) \<in> set m" using that \<open>length m = length fs\<close> by simp
    then have "map_of m (fst (m ! i)) = Some (snd (m ! i))" using k(1) by simp
    moreover have "snd (m ! i) = fs ! i" using k(3) that \<open>length m = length fs\<close> by (metis nth_map)
    ultimately show ?thesis by (simp add: registered_plan_def fun_eq_iff)
  qed
  moreover have "registered_plan m name v = Panic (''Plan '' @ name @ '' is not registered!'')" if "name \<notin> set (Plans m)" for name v
  proof -
    have "map_of m name = None" using that by (simp add: Plans_def map_of_eq_None_iff)
    then show ?thesis by (simp add: registered_plan_def)
  qed
  ultimately show ?thesis using k \<open>length m = length fs\<close> by (simp add: Plans_def)
qed

section \<open>What is applied\<close>

lemma same_but_env:
  "create_plan (c\<lparr>cl_env := env\<rparr>) fh name w = create_plan c fh name w"
  "PreviewPlan (c\<lparr>cl_env := env\<rparr>) fh name w = PreviewPlan c fh name w"
proof -
  have s: "cl_sort (c\<lparr>cl_env := env\<rparr>) = cl_sort c" "cl_name_resolver (c\<lparr>cl_env := env\<rparr>) = cl_name_resolver c"
    "cl_synth (c\<lparr>cl_env := env\<rparr>) = cl_synth c" "cl_fuel (c\<lparr>cl_env := env\<rparr>) = cl_fuel c" "cl_plans (c\<lparr>cl_env := env\<rparr>) = cl_plans c"
    "cl_tyname (c\<lparr>cl_env := env\<rparr>) = cl_tyname c" "cl_render (c\<lparr>cl_env := env\<rparr>) = cl_render c" by simp_all
  show c: "create_plan (c\<lparr>cl_env := env\<rparr>) fh name w = create_plan c fh name w" by (simp only: create_plan_def s)
  show "PreviewPlan (c\<lparr>cl_env := env\<rparr>) fh name w = PreviewPlan c fh name w" by (simp only: PreviewPlan_def c s)
qed

lemma say_env: "(\<And>w. f w = g w) \<Longrightarrow> say (c\<lparr>cl_env := env\<rparr>) msg w f = say c msg w g"
  by (simp add: say_def split: prod.splits option.splits)

lemma say_end_eq: "say_end (c\<lparr>cl_env := env\<rparr>) = say_end c" "say_end c msg e w = Ret (e, snd (cl_write c msg w))"
  by (simp_all add: say_end_def fun_eq_iff split: prod.splits)

lemma say_Ret:
  "say c msg w f = Ret (e, w') \<longleftrightarrow>
     (\<exists>w1. cl_write c msg w = (None, w1) \<and> f w1 = Ret (e, w')) \<or> (\<exists>x. cl_write c msg w = (Some x, w') \<and> e = NotWritten)"
  by (auto simp: say_def split: prod.splits option.splits)

text \<open>The ends after which the cluster may have been changed.\<close>

fun reached_cluster :: "apply_stop \<Rightarrow> bool" where
  "reached_cluster Applied \<longleftrightarrow> True"
| "reached_cluster (ApplyFailed e) \<longleftrightarrow> True"
| "reached_cluster _ \<longleftrightarrow> False"

definition applied_plan :: "('k, 'f) cli \<Rightarrow> handler \<Rightarrow> string \<Rightarrow> apply_stop \<Rightarrow> bool" where
  "applied_plan c fh name e \<longleftrightarrow> (\<exists>w1 w2 r. ApplyPlan c fh name w1 = Ret (w2, r) \<and> e = (case r of None \<Rightarrow> Applied | Some x \<Rightarrow> ApplyFailed x))"

lemma applied_reached: "applied_plan c fh name e \<Longrightarrow> reached_cluster e"
  by (auto simp: applied_plan_def split: option.splits)

text \<open>Each part of the command stops before the cluster, whatever the environment, or has applied the plan.\<close>

lemma say_cases:
  assumes "say c msg w f = Ret (e, w')"
    and "\<And>w1. f w1 = Ret (e, w') \<Longrightarrow> (\<not> reached_cluster e \<and> (\<forall>env. g env w1 = Ret (e, w'))) \<or> P"
  shows "(\<not> reached_cluster e \<and> (\<forall>env. say (c\<lparr>cl_env := env\<rparr>) msg w (g env) = Ret (e, w'))) \<or> P"
proof (cases "cl_write c msg w")
  case w: (Pair r w1)
  show ?thesis
  proof (cases r)
    case None
    with w assms(1) have "f w1 = Ret (e, w')" by (simp add: say_def)
    with assms(2)[OF this] w None show ?thesis by (auto simp: say_def)
  qed (use w assms(1) in \<open>auto simp: say_def\<close>)
qed

lemma confirmed_cases:
  assumes "confirmed_apply c fh name w = Ret (e, w')"
  shows "(\<not> reached_cluster e \<and> (\<forall>env. confirmed_apply (c\<lparr>cl_env := env\<rparr>) fh name w = Ret (e, w'))) \<or> applied_plan c fh name e"
  unfolding confirmed_apply_def
proof (rule say_cases[OF assms[unfolded confirmed_apply_def]])
  fix w1
  assume "(case ApplyPlan c fh name w1 of OutOfFuel \<Rightarrow> OutOfFuel | Panic msg \<Rightarrow> Panic msg
      | Ret (w, Some e) \<Rightarrow> say_end c (''Error applying plan: '' @ error_text e @ [LF]) (ApplyFailed e) w
      | Ret (w, None) \<Rightarrow> say_end c (''Successfully applied plan: '' @ name @ [LF]) Applied w) = Ret (e, w')"
  then have "applied_plan c fh name e"
    unfolding applied_plan_def say_end_eq by (auto split: outcome.splits prod.splits option.splits)
  then show "(\<not> reached_cluster e \<and> (\<forall>env. (case ApplyPlan (c\<lparr>cl_env := env\<rparr>) fh name w1 of OutOfFuel \<Rightarrow> OutOfFuel
      | Panic msg \<Rightarrow> Panic msg
      | Ret (w, Some e) \<Rightarrow> say_end (c\<lparr>cl_env := env\<rparr>) (''Error applying plan: '' @ error_text e @ [LF]) (ApplyFailed e) w
      | Ret (w, None) \<Rightarrow> say_end (c\<lparr>cl_env := env\<rparr>) (''Successfully applied plan: '' @ name @ [LF]) Applied w) = Ret (e, w')))
    \<or> applied_plan c fh name e" ..
qed

lemma ask_cases:
  assumes "ask_apply c autoAccept fh name w = Ret (e, w')"
  shows "(\<not> reached_cluster e \<and> (\<forall>env. ask_apply (c\<lparr>cl_env := env\<rparr>) autoAccept fh name w = Ret (e, w'))) \<or>
    (applied_plan c fh name e \<and> (autoAccept \<or> (\<exists>w3 w4. cl_confirm c name w3 = (Inr True, w4))))"
proof (cases autoAccept)
  case True
  with assms have "say c ([LF] @ ''Auto-accepting (--yes flag provided)...'' @ [LF]) w (confirmed_apply c fh name) = Ret (e, w')"
    by (simp add: ask_apply_def)
  from say_cases[OF this, of "\<lambda>env. confirmed_apply (c\<lparr>cl_env := env\<rparr>) fh name", OF confirmed_cases] True
  show ?thesis by (simp add: ask_apply_def)
next
  case False
  show ?thesis
  proof (cases "cl_confirm c name w")
    case y: (Pair r w4)
    show ?thesis
    proof (cases "r = Inr True")
      case True
      then have "confirmed_apply c fh name w4 = Ret (e, w')" using assms y False by (simp add: ask_apply_def)
      with confirmed_cases[OF this] y False True show ?thesis by (auto simp: ask_apply_def)
    next
      case no: False
      with y False assms show ?thesis by (cases r) (auto simp: ask_apply_def say_end_eq)
    qed
  qed
qed

text \<open>
  The way to the cluster, one world after the other: the announcement is written, the preview is made and written, the user agrees
  or \<open>--yes\<close> is acknowledged, the application is announced and the plan applied.
\<close>

definition way_to_cluster ::
    "('k, 'f) cli \<Rightarrow> bool \<Rightarrow> handler \<Rightarrow> string \<Rightarrow> 'k world \<Rightarrow> apply_stop \<Rightarrow> 'k world \<Rightarrow> bool" where
  "way_to_cluster c autoAccept fh name w e w' \<longleftrightarrow> (\<exists>w1 w2 preview dir w3 w4 w5 w6 r.
     cl_write c (''Previewing plan '' @ quote name @ ''...'' @ [LF, LF]) w = (None, w1) \<and>
     PreviewPlan c fh name w1 = Ret (w2, Inr (preview, dir)) \<and>
     cl_write c (preview @ [LF]) w2 = (None, w3) \<and>
     (if autoAccept then cl_write c ([LF] @ ''Auto-accepting (--yes flag provided)...'' @ [LF]) w3 = (None, w4)
      else cl_confirm c name w3 = (Inr True, w4)) \<and>
     cl_write c ([LF] @ ''Applying plan '' @ quote name @ ''...'' @ [LF]) w4 = (None, w5) \<and>
     ApplyPlan c fh name w5 = Ret (w6, r) \<and>
     (case r of
        None \<Rightarrow> e = Applied \<and> w' = snd (cl_write c (''Successfully applied plan: '' @ name @ [LF]) w6)
      | Some x \<Rightarrow> e = ApplyFailed x \<and> w' = snd (cl_write c (''Error applying plan: '' @ error_text x @ [LF]) w6)))"

lemma confirmed_way:
  assumes "confirmed_apply c fh name w4 = Ret (e, w')" "reached_cluster e"
  obtains w5 w6 r where "cl_write c ([LF] @ ''Applying plan '' @ quote name @ ''...'' @ [LF]) w4 = (None, w5)"
    "ApplyPlan c fh name w5 = Ret (w6, r)"
    "case r of None \<Rightarrow> e = Applied \<and> w' = snd (cl_write c (''Successfully applied plan: '' @ name @ [LF]) w6)
      | Some x \<Rightarrow> e = ApplyFailed x \<and> w' = snd (cl_write c (''Error applying plan: '' @ error_text x @ [LF]) w6)"
  using assms unfolding confirmed_apply_def say_Ret say_end_eq
  by (fastforce split: outcome.splits prod.splits option.splits)

lemma ask_way:
  assumes "ask_apply c autoAccept fh name w3 = Ret (e, w')" "reached_cluster e"
  obtains w4 where "if autoAccept then cl_write c ([LF] @ ''Auto-accepting (--yes flag provided)...'' @ [LF]) w3 = (None, w4)
      else cl_confirm c name w3 = (Inr True, w4)"
    "confirmed_apply c fh name w4 = Ret (e, w')"
proof (cases autoAccept)
  case True
  with assms that show ?thesis by (auto simp: ask_apply_def say_Ret)
next
  case False
  with assms that show ?thesis by (auto simp: ask_apply_def say_end_eq split: prod.splits sum.splits if_splits)
qed

lemma apply_way:
  assumes "apply_run c autoAccept fh name w = Ret (e, w')" "reached_cluster e"
  shows "way_to_cluster c autoAccept fh name w e w'"
proof -
  from assms obtain w1 where 1: "cl_write c (''Previewing plan '' @ quote name @ ''...'' @ [LF, LF]) w = (None, w1)"
    "(case PreviewPlan c fh name w1 of OutOfFuel \<Rightarrow> OutOfFuel | Panic msg \<Rightarrow> Panic msg
       | Ret (w, Inl e) \<Rightarrow> say_end c (''Error previewing plan: '' @ error_text e @ [LF]) (PreviewFailed e) w
       | Ret (w, Inr (preview, _)) \<Rightarrow> say c (preview @ [LF]) w (ask_apply c autoAccept fh name)) = Ret (e, w')"
    unfolding apply_run_def say_Ret by auto
  then obtain w2 preview dir where 2: "PreviewPlan c fh name w1 = Ret (w2, Inr (preview, dir))"
    "say c (preview @ [LF]) w2 (ask_apply c autoAccept fh name) = Ret (e, w')"
    using assms(2) by (auto simp: say_end_eq split: outcome.splits prod.splits sum.splits)
  then obtain w3 where 3: "cl_write c (preview @ [LF]) w2 = (None, w3)" "ask_apply c autoAccept fh name w3 = Ret (e, w')"
    using assms(2) unfolding say_Ret by auto
  from ask_way[OF 3(2) assms(2)] obtain w4 where
    4: "if autoAccept then cl_write c ([LF] @ ''Auto-accepting (--yes flag provided)...'' @ [LF]) w3 = (None, w4)
      else cl_confirm c name w3 = (Inr True, w4)" "confirmed_apply c fh name w4 = Ret (e, w')" .
  from confirmed_way[OF 4(2) assms(2)] obtain w5 w6 r where
    5: "cl_write c ([LF] @ ''Applying plan '' @ quote name @ ''...'' @ [LF]) w4 = (None, w5)" "ApplyPlan c fh name w5 = Ret (w6, r)"
      "case r of None \<Rightarrow> e = Applied \<and> w' = snd (cl_write c (''Successfully applied plan: '' @ name @ [LF]) w6)
        | Some x \<Rightarrow> e = ApplyFailed x \<and> w' = snd (cl_write c (''Error applying plan: '' @ error_text x @ [LF]) w6)" .
  show ?thesis
    unfolding way_to_cluster_def
    by (intro exI[of _ w1] exI[of _ w2] exI[of _ preview] exI[of _ dir] exI[of _ w3] exI[of _ w4] exI[of _ w5] exI[of _ w6] exI[of _ r])
      (intro conjI 1(1) 2(1) 3(1) 4(1) 5)
qed

text \<open>
  C16. A plan is applied only on demand: when \<open>cribctl plan apply\<close> comes to the application, then by way of a preview that
  succeeded and was shown, and of \<open>--yes\<close> or a confirmation, in this order; if it ends anywhere else, it behaves the same
  whatever shell and programs the application would have used, so the cluster was not touched.
\<close>
theorem apply_on_demand:
  assumes "apply_run c autoAccept fh name w = Ret (e, w')"
  shows "if reached_cluster e then way_to_cluster c autoAccept fh name w e w'
    else \<forall>env. apply_run (c\<lparr>cl_env := env\<rparr>) autoAccept fh name w = Ret (e, w')"
proof -
  let ?after = "\<lambda>c w. case PreviewPlan c fh name w of OutOfFuel \<Rightarrow> OutOfFuel | Panic msg \<Rightarrow> Panic msg
       | Ret (w, Inl e) \<Rightarrow> say_end c (''Error previewing plan: '' @ error_text e @ [LF]) (PreviewFailed e) w
       | Ret (w, Inr (preview, _)) \<Rightarrow> say c (preview @ [LF]) w (ask_apply c autoAccept fh name)"
  let ?P = "applied_plan c fh name e \<and> (autoAccept \<or> (\<exists>w3 w4. cl_confirm c name w3 = (Inr True, w4))) \<and>
    (\<exists>w1 w2 preview. PreviewPlan c fh name w1 = Ret (w2, Inr preview))"
  have after: "(\<not> reached_cluster e \<and> (\<forall>env. ?after (c\<lparr>cl_env := env\<rparr>) w1 = Ret (e, w'))) \<or> ?P" if "?after c w1 = Ret (e, w')" for w1
  proof (cases "PreviewPlan c fh name w1")
    case (Ret y)
    then obtain w2 res where p: "PreviewPlan c fh name w1 = Ret (w2, res)" by (cases y) auto
    show ?thesis
    proof (cases res)
      case (Inr out)
      then obtain preview dir where q: "PreviewPlan c fh name w1 = Ret (w2, Inr (preview, dir))" using p by (cases out) auto
      with that have "say c (preview @ [LF]) w2 (ask_apply c autoAccept fh name) = Ret (e, w')" by simp
      from say_cases[OF this, of "\<lambda>env. ask_apply (c\<lparr>cl_env := env\<rparr>) autoAccept fh name", OF ask_cases] q
      show ?thesis by (auto simp: same_but_env)
    qed (use that p in \<open>auto simp: same_but_env say_end_eq\<close>)
  qed (use that in simp_all)
  from say_cases[OF assms[unfolded apply_run_def], of "\<lambda>env. ?after (c\<lparr>cl_env := env\<rparr>)", OF after]
  show ?thesis using applied_reached apply_way[OF assms] unfolding apply_run_def by (auto split: if_splits)
qed

section \<open>Exit statuses\<close>

text \<open>
  C23. The exit status of \<open>cribctl plan apply\<close> hides failures: once its arguments are valid and the directory is there,
  the status is 0 however it ends, even when the preview or the application failed, where \<open>cribctl plan preview\<close>
  exits with 1.
\<close>
theorem apply_hides_failures:
  assumes "registered_plan (cl_plans c) name w = Ret (x, w1)" "mk w1 = (Inr fh, w2)"
  shows "(\<forall>yes code e w'. plan_apply_command c yes mk [name] w = Ret (code, e, w') \<longrightarrow>
        code = 0 \<and> (\<exists>end. e = Some end \<and> apply_run c yes fh name w2 = Ret (end, w'))) \<and>
    (\<forall>err w3. PreviewPlan c fh name w2 = Ret (w3, Inl err) \<longrightarrow> plan_preview_command c dir mk [name] w = Ret (1, w3))"
  using assms
  by (auto simp: plan_apply_command_def plan_preview_command_def ValidatePlanArgs_def preview_run_def split: outcome.splits)

section \<open>A concrete registry\<close>

definition bad_heap :: "(nat list cfun, string iresolver) PlanDag.heap" where
  "bad_heap _ = \<lparr>p_name = ''bad'', p_namespace = DefaultNamespace, p_components = [\<lambda>w. ((None, Some (ErrText ''boom'')), w)],
     p_childPlans = [], p_childFuncs = [], p_resolvers = []\<rparr>"

definition demo_plan_fns :: "(nat list, string) plan_fn list" where
  "demo_plan_fns = [\<lambda>w. Ret (Some (svc_heap, 0), w), \<lambda>w. Ret (Some (bad_heap, 0), w)]"

definition demo_cli :: "(nat list, string) cli" where
  "demo_cli = \<lparr>cl_plans = [(''root'', \<lambda>w. Ret (Some (svc_heap, 0), w)), (''bad'', \<lambda>w. Ret (Some (bad_heap, 0), w))],
     cl_sort = sort_key, cl_name_resolver = ''name'', cl_synth = (\<lambda>_ w. w), cl_fuel = 4, cl_env = svc_env,
     cl_tyname = (\<lambda>_. ''*X''), cl_render = (\<lambda>_. ''tree''), cl_write = (\<lambda>_ w. (None, w)), cl_confirm = (\<lambda>_ w. (Inr False, w))\<rparr>"

lemma demo_cli_write: "cl_write demo_cli m w = (None, w)"
  by (simp add: demo_cli_def)

theorem registry_complete_witness:
  "\<exists>m w'. register_plans demo_plan_fns [] svc_world = Ret (m, w') \<and> Plans m = [''bad'', ''root''] \<and> sorted (Plans m)"
proof -
  have r: "register_plans demo_plan_fns [] svc_world = Ret (cl_plans demo_cli, svc_world)"
    by (simp add: demo_plan_fns_def demo_cli_def svc_heap_def svc_plan_def bad_heap_def)
  have "Plans (cl_plans demo_cli) = [''bad'', ''root'']"
    by (simp add: Plans_def demo_cli_def less_char_def less_eq_char_def)
  with registry_complete[OF r] r show ?thesis by blast
qed

lemma bad_create: "create_plan demo_cli fh ''bad'' w = Ret (w, Inl (WrapErr ''failed to create plan'' (JoinErr [ErrText ''boom''])))"
proof -
  have "\<exists>b. Build 4 bad_heap 0 = Done b"
    by (simp add: Build_def init_build_def build_step_defs bad_heap_def eval_nat_numeral)
  then obtain b where b: "Build 4 bad_heap 0 = Done b" by blast
  have "reach bad_heap 0 \<subseteq> {0}" by (rule reach_least) (simp_all add: bad_heap_def)
  then have u: "unique_names bad_heap 0" unfolding unique_names_def by (rule inj_on_subset[rotated]) simp
  obtain app where a: "createApp sort_key ''name'' fh bad_heap 0 = Some app"
    by (simp add: createApp_def app_resolvers_def Resolvers_def bad_heap_def)
  have "run_all (plan_cfuns bad_heap 0) w = ([(None, Some (ErrText ''boom''))], w)"
    by (simp add: plan_cfuns_def bad_heap_def)
  then show ?thesis
    using CreatePlan_built[OF a b u, of "\<lambda>_ w. w" w]
    by (simp add: create_plan_def demo_cli_def registered_plan_def joined_def errors_of_def join_errors_def)
qed

theorem apply_hides_failures_witness:
  "\<exists>e. plan_apply_command demo_cli True (\<lambda>w. (Inr svc_fh, w)) [''bad''] svc_world = Ret (0, Some (PreviewFailed e), svc_world) \<and>
     plan_preview_command demo_cli False (\<lambda>w. (Inr svc_fh, w)) [''bad''] svc_world = Ret (1, svc_world)"
proof -
  have r: "registered_plan (cl_plans demo_cli) ''bad'' svc_world = Ret (Some (bad_heap, 0), svc_world)"
    by (simp add: registered_plan_def demo_cli_def)
  have m: "(\<lambda>w :: nat list world. (Inr svc_fh :: goerr + handler, w)) svc_world = (Inr svc_fh, svc_world)" by simp
  obtain e where p: "PreviewPlan demo_cli svc_fh ''bad'' svc_world = Ret (svc_world, Inl e)"
    using bad_create[of svc_fh svc_world] by (simp add: PreviewPlan_def)
  then have run: "apply_run demo_cli True svc_fh ''bad'' svc_world = Ret (PreviewFailed e, svc_world)"
    by (simp add: apply_run_def say_def say_end_def demo_cli_write)
  then obtain code x w where c: "plan_apply_command demo_cli True (\<lambda>w. (Inr svc_fh, w)) [''bad''] svc_world = Ret (code, x, w)"
    using r by (simp add: plan_apply_command_def ValidatePlanArgs_def)
  note h = apply_hides_failures[where mk = "\<lambda>w. (Inr svc_fh, w)", OF r m]
  from h c run have "code = 0 \<and> x = Some (PreviewFailed e) \<and> w = svc_world" by fastforce
  moreover from h p have "plan_preview_command demo_cli False (\<lambda>w. (Inr svc_fh, w)) [''bad''] svc_world = Ret (1, svc_world)" by blast
  ultimately show ?thesis using c by blast
qed

theorem apply_on_demand_witness:
  "\<exists>e. apply_run demo_cli False svc_fh ''bad'' svc_world = Ret (PreviewFailed e, svc_world) \<and>
     (\<forall>env. apply_run (demo_cli\<lparr>cl_env := env\<rparr>) False svc_fh ''bad'' svc_world = Ret (PreviewFailed e, svc_world))"
proof -
  obtain e where p: "PreviewPlan demo_cli svc_fh ''bad'' svc_world = Ret (svc_world, Inl e)"
    using bad_create[of svc_fh svc_world] by (simp add: PreviewPlan_def)
  then have run: "apply_run demo_cli False svc_fh ''bad'' svc_world = Ret (PreviewFailed e, svc_world)"
    by (simp add: apply_run_def say_def say_end_def demo_cli_write)
  from apply_on_demand[OF run] run show ?thesis by auto
qed

end
