(* ===== verification/Mempools.thy ===== *)
theory Mempools
  imports Errors
begin

text \<open>
  The buffer pool, internal/adapter/mempools/mempools.go, and the functions that use it: \<open>BufferedReader.ReadFile\<close>
  (internal/adapter/filehandler/buffered_reader.go), \<open>combinedOutput\<close> and the echo runner
  (internal/adapter/clientsideapply/cmd.go, echo.go) and \<open>UnmarshalDocument\<close> (internal/core/domain/manifest.go).
  The other theories take the bytes these functions return as values; here they are slices of arrays that a
  later user of the same buffer writes to.
\<close>

section \<open>Buffers\<close>

text \<open>
  A \<open>bytes.Buffer\<close> of the standard library: the address of its array (\<open>None\<close> is the nil slice), the offset
  of what is not read yet and the length of the slice.  The capacity is the length of the array.
\<close>

record buffer =
  bf_array :: "nat option"
  bf_off :: nat
  bf_len :: nat

text \<open>The memory: the arrays, the buffers, and those of them that are in the pool.\<close>

record memory =
  mem_arrays :: "nat \<Rightarrow> string"
  mem_next :: nat
  mem_buffers :: "nat \<Rightarrow> buffer"
  mem_count :: nat
  mem_pool :: "nat list"

text \<open>A slice of bytes.\<close>

record slice =
  sl_array :: "nat option"
  sl_start :: nat
  sl_len :: nat

definition array_of :: "memory \<Rightarrow> nat option \<Rightarrow> string" where
  "array_of m a = (case a of None \<Rightarrow> [] | Some a \<Rightarrow> mem_arrays m a)"

definition slice_bytes :: "memory \<Rightarrow> slice \<Rightarrow> string" where
  "slice_bytes m s = take (sl_len s) (drop (sl_start s) (array_of m (sl_array s)))"

definition bcap :: "memory \<Rightarrow> nat \<Rightarrow> nat" where
  "bcap m b = length (array_of m (bf_array (mem_buffers m b)))"

definition Bytes :: "memory \<Rightarrow> nat \<Rightarrow> slice" where
  "Bytes m b =
     (let B = mem_buffers m b in \<lparr>sl_array = bf_array B, sl_start = bf_off B, sl_len = bf_len B - bf_off B\<rparr>)"

definition unread :: "memory \<Rightarrow> nat \<Rightarrow> string" where
  "unread m b = slice_bytes m (Bytes m b)"

definition set_buffer :: "nat \<Rightarrow> buffer \<Rightarrow> memory \<Rightarrow> memory" where
  "set_buffer b B m = m\<lparr>mem_buffers := (mem_buffers m)(b := B)\<rparr>"

definition Reset :: "nat \<Rightarrow> memory \<Rightarrow> memory" where
  "Reset b m = set_buffer b ((mem_buffers m b)\<lparr>bf_off := 0, bf_len := 0\<rparr>) m"

text \<open>Replacing the bytes from position \<open>i\<close> on.\<close>

definition poke :: "nat \<Rightarrow> string \<Rightarrow> string \<Rightarrow> string" where
  "poke i xs arr = take i arr @ xs @ drop (i + length xs) arr"

definition new_array :: "nat \<Rightarrow> buffer \<Rightarrow> string \<Rightarrow> memory \<Rightarrow> memory" where
  "new_array b B arr m =
     set_buffer b (B\<lparr>bf_array := Some (mem_next m)\<rparr>)
       (m\<lparr>mem_arrays := (mem_arrays m)(mem_next m := arr), mem_next := mem_next m + 1\<rparr>)"

text \<open>
  \<open>grow\<close>, up to the reslicing: room for \<open>n\<close> more bytes, in the array the buffer has, after sliding the bytes down,
  or in a new array, whose capacity the run time rounds up by \<open>slack\<close>.
\<close>

definition zeros :: "nat \<Rightarrow> string" where
  "zeros n = replicate n (CHR 0x00)"

definition grow :: "(nat \<Rightarrow> nat) \<Rightarrow> nat \<Rightarrow> nat \<Rightarrow> memory \<Rightarrow> memory" where
  "grow slack b n m =
     (let m = (if bf_len (mem_buffers m b) - bf_off (mem_buffers m b) = 0 \<and> bf_off (mem_buffers m b) \<noteq> 0 then Reset b m else m);
          B = mem_buffers m b; data = unread m b; len = length data; c = bcap m b in
      if n \<le> c - bf_len B then m
      else if bf_array B = None \<and> n \<le> 64 then new_array b (B\<lparr>bf_off := 0, bf_len := 0\<rparr>) (zeros 64) m
      else if int n \<le> int (c div 2) - int len then
        set_buffer b (B\<lparr>bf_off := 0, bf_len := len\<rparr>)
          (case bf_array B of None \<Rightarrow> m | Some a \<Rightarrow> m\<lparr>mem_arrays := (mem_arrays m)(a := poke 0 data (mem_arrays m a))\<rparr>)
      else
        (let need = len + (bf_off B + n); c' = (if need < 2 * (c - bf_off B) then 2 * (c - bf_off B) else need) in
         new_array b (B\<lparr>bf_off := 0, bf_len := len\<rparr>) (data @ zeros (c' + slack c' - len)) m))"

text \<open>Bytes behind the end of a buffer that has room for them.\<close>

definition fill :: "nat \<Rightarrow> string \<Rightarrow> memory \<Rightarrow> memory" where
  "fill b xs m =
     (let B = mem_buffers m b in
      case bf_array B of
        None \<Rightarrow> m
      | Some a \<Rightarrow>
          set_buffer b (B\<lparr>bf_len := bf_len B + length xs\<rparr>)
            (m\<lparr>mem_arrays := (mem_arrays m)(a := poke (bf_len B) xs (mem_arrays m a))\<rparr>))"

definition Write :: "(nat \<Rightarrow> nat) \<Rightarrow> nat \<Rightarrow> string \<Rightarrow> memory \<Rightarrow> memory" where
  "Write slack b p m =
     (if length p \<le> bcap m b - bf_len (mem_buffers m b) then fill b p m else fill b p (grow slack b (length p) m))"

text \<open>\<open>ReadFrom\<close>, of a reader that fills the space it is offered, as a file does.\<close>

definition MinRead :: nat where "MinRead = 512"

function ReadFrom :: "(nat \<Rightarrow> nat) \<Rightarrow> nat \<Rightarrow> string \<Rightarrow> memory \<Rightarrow> memory" where
  "ReadFrom slack b s m =
     (let m = grow slack b MinRead m; k = bcap m b - bf_len (mem_buffers m b) in
      if s = [] \<or> k = 0 then m else ReadFrom slack b (drop k s) (fill b (take k s) m))"
  by pat_completeness auto
termination
proof (relation "measure (\<lambda>(_, _, s, _). length s)", simp)
  fix slack :: "nat \<Rightarrow> nat" and b k :: nat and s :: string and m M :: memory
  assume "M = grow slack b MinRead m" "k = bcap M b - bf_len (mem_buffers M b)" "\<not> (s = [] \<or> k = 0)"
  then show "((slack, b, drop k s, fill b (take k s) M), slack, b, s, m) \<in> measure (\<lambda>(_, _, s, _). length s)"
    by (cases s) auto
qed
declare ReadFrom.simps [simp del]

section \<open>The pool\<close>

text \<open>
  \<open>Get\<close>: \<open>sync.Pool\<close> hands out any buffer that was put into it, or a new one; which it is, is an argument.
\<close>

definition pool_Get :: "nat option \<Rightarrow> memory \<Rightarrow> nat \<times> memory" where
  "pool_Get pick m =
     (case pick of
        Some b \<Rightarrow>
          (if b \<in> set (mem_pool m) then (b, Reset b (m\<lparr>mem_pool := remove1 b (mem_pool m)\<rparr>))
           else (mem_count m, Reset (mem_count m) (set_buffer (mem_count m) \<lparr>bf_array = None, bf_off = 0, bf_len = 0\<rparr>
                  (m\<lparr>mem_count := mem_count m + 1\<rparr>))))
      | None \<Rightarrow> (mem_count m, Reset (mem_count m) (set_buffer (mem_count m) \<lparr>bf_array = None, bf_off = 0, bf_len = 0\<rparr>
                  (m\<lparr>mem_count := mem_count m + 1\<rparr>))))"

definition pool_put :: "nat \<Rightarrow> memory \<Rightarrow> memory" where
  "pool_put b m = m\<lparr>mem_pool := mem_pool m @ [b]\<rparr>"

section \<open>Its users\<close>

text \<open>
  \<open>BufferedReader.ReadFile\<close>: the file is an error when it cannot be opened, otherwise the bytes that can be read with the
  error that ends the copy and the one of closing the file.
\<close>

definition pooled_ReadFile ::
    "(nat \<Rightarrow> nat) \<Rightarrow> nat option \<Rightarrow> goerr + string \<times> goerr option \<times> goerr option \<Rightarrow> memory
      \<Rightarrow> (slice option \<times> goerr option) \<times> memory" where
  "pooled_ReadFile slack pick file m =
     (case file of
        Inl e \<Rightarrow> ((None, Some e), m)
      | Inr (content, copy_err, close_err) \<Rightarrow>
          (case pool_Get pick m of
             (b, m) \<Rightarrow>
               (let m = ReadFrom slack b content m in
                case copy_err of
                  Some e \<Rightarrow> ((None, join_errors [Some e, close_err]), pool_put b m)
                | None \<Rightarrow> ((Some (Bytes m b), join_errors [None, close_err]), pool_put b m))))"

text \<open>\<open>combinedOutput\<close>: the pieces are what the command writes.\<close>

definition pooled_output ::
    "(nat \<Rightarrow> nat) \<Rightarrow> nat option \<Rightarrow> string list \<Rightarrow> string \<Rightarrow> goerr option \<Rightarrow> memory \<Rightarrow> (goerr + slice) \<times> memory" where
  "pooled_output slack pick pieces args err m =
     (case pool_Get pick m of
        (b, m) \<Rightarrow>
          (let m = fold (Write slack b) pieces m in
           (case Wrapf err (''running command '' @ quote args) of Some e \<Rightarrow> Inl e | None \<Rightarrow> Inr (Bytes m b), pool_put b m)))"

text \<open>\<open>UnmarshalDocument\<close> returns an iterator over its buffer, which it has given back by then.\<close>

definition UnmarshalDocument :: "(nat \<Rightarrow> nat) \<Rightarrow> nat option \<Rightarrow> string \<Rightarrow> memory \<Rightarrow> nat \<times> memory" where
  "UnmarshalDocument slack pick raw m =
     (case pool_Get pick m of (b, m) \<Rightarrow> (b, pool_put b (Write slack b raw m)))"

text \<open>The iteration: \<open>dec\<close> stands for the YAML decoder on what is in the buffer when it starts.\<close>

definition documents :: "(string \<Rightarrow> 'd list) \<Rightarrow> nat \<Rightarrow> memory \<Rightarrow> 'd list" where
  "documents dec b m = dec (unread m b)"

section \<open>What an operation on a buffer touches\<close>

definition buffer_ok :: "nat \<Rightarrow> memory \<Rightarrow> bool" where
  "buffer_ok b m \<longleftrightarrow>
     bf_off (mem_buffers m b) \<le> bf_len (mem_buffers m b) \<and> bf_len (mem_buffers m b) \<le> bcap m b \<and>
     (\<forall>a. bf_array (mem_buffers m b) = Some a \<longrightarrow> a < mem_next m)"

definition touches :: "nat \<Rightarrow> memory \<Rightarrow> memory \<Rightarrow> bool" where
  "touches b m m' \<longleftrightarrow>
     mem_pool m' = mem_pool m \<and> mem_count m' = mem_count m \<and> mem_next m \<le> mem_next m' \<and>
     (\<forall>b'. b' \<noteq> b \<longrightarrow> mem_buffers m' b' = mem_buffers m b') \<and>
     (\<forall>a < mem_next m. bf_array (mem_buffers m b) \<noteq> Some a \<longrightarrow> mem_arrays m' a = mem_arrays m a) \<and>
     (bf_array (mem_buffers m' b) = bf_array (mem_buffers m b) \<or>
      (\<exists>a \<ge> mem_next m. bf_array (mem_buffers m' b) = Some a))"

lemma touches_refl [simp]: "touches b m m"
  by (simp add: touches_def)

lemma touches_trans: "touches b m m1 \<Longrightarrow> touches b m1 m2 \<Longrightarrow> touches b m m2"
  unfolding touches_def by (smt (verit, ccfv_threshold) leD option.inject order_less_le_trans order_trans)

lemma length_poke [simp]: "i + length xs \<le> length arr \<Longrightarrow> length (poke i xs arr) = length arr"
  by (simp add: poke_def)

lemma buffer_set [simp]: "mem_buffers (set_buffer b B m) = (mem_buffers m)(b := B)"
  "mem_arrays (set_buffer b B m) = mem_arrays m" "mem_next (set_buffer b B m) = mem_next m"
  "mem_pool (set_buffer b B m) = mem_pool m" "mem_count (set_buffer b B m) = mem_count m"
  by (simp_all add: set_buffer_def)

lemmas mem_defs = bcap_def array_of_def unread_def Bytes_def slice_bytes_def Let_def

lemma Reset_spec:
  assumes "buffer_ok b m"
  shows "touches b m (Reset b m) \<and> buffer_ok b (Reset b m) \<and> unread (Reset b m) b = [] \<and> bcap (Reset b m) b = bcap m b"
  using assms by (auto simp: Reset_def touches_def buffer_ok_def mem_defs split: option.split)

lemma fill_spec:
  assumes "buffer_ok b m" "length xs \<le> bcap m b - bf_len (mem_buffers m b)"
  shows "touches b m (fill b xs m) \<and> buffer_ok b (fill b xs m) \<and> unread (fill b xs m) b = unread m b @ xs \<and>
    bcap (fill b xs m) b = bcap m b"
proof (cases "bf_array (mem_buffers m b)")
  case None
  with assms show ?thesis by (auto simp: fill_def mem_defs)
next
  case (Some a)
  with assms have "bf_len (mem_buffers m b) + length xs \<le> length (mem_arrays m a)" "bf_off (mem_buffers m b) \<le> bf_len (mem_buffers m b)"
    by (auto simp: buffer_ok_def mem_defs)
  with Some assms(1) show ?thesis
    by (auto simp: fill_def touches_def buffer_ok_def mem_defs poke_def drop_take)
qed

lemma unread_length: "buffer_ok b m \<Longrightarrow> length (unread m b) = bf_len (mem_buffers m b) - bf_off (mem_buffers m b)"
  by (auto simp: buffer_ok_def mem_defs split: option.splits)

lemma new_array_spec:
  assumes "buffer_ok b m" "bf_off B = 0" "bf_len B \<le> length arr" "take (bf_len B) arr = unread m b"
  shows "touches b m (new_array b B arr m) \<and> buffer_ok b (new_array b B arr m) \<and> unread (new_array b B arr m) b = unread m b \<and>
    bcap (new_array b B arr m) b = length arr \<and> bf_len (mem_buffers (new_array b B arr m) b) = bf_len B"
  using assms by (auto simp: new_array_def touches_def buffer_ok_def mem_defs)

lemma slide_spec:
  assumes "buffer_ok b m" "B = mem_buffers m b" "data = unread m b"
    "m' = set_buffer b (B\<lparr>bf_off := 0, bf_len := length data\<rparr>)
       (case bf_array B of None \<Rightarrow> m | Some a \<Rightarrow> m\<lparr>mem_arrays := (mem_arrays m)(a := poke 0 data (mem_arrays m a))\<rparr>)"
  shows "touches b m m' \<and> buffer_ok b m' \<and> unread m' b = data \<and> bcap m' b = bcap m b"
proof (cases "bf_array B")
  case None
  with assms have "data = []" by (auto simp: mem_defs)
  with None assms show ?thesis by (auto simp: touches_def buffer_ok_def mem_defs)
next
  case (Some a)
  from unread_length[OF assms(1)] assms Some have "length data \<le> length (mem_arrays m a)"
    by (auto simp: buffer_ok_def bcap_def array_of_def)
  with Some assms(1,2,4) show ?thesis by (auto simp: touches_def buffer_ok_def bcap_def array_of_def unread_def Bytes_def slice_bytes_def Let_def poke_def)
qed

definition recovered_space :: "nat \<Rightarrow> memory \<Rightarrow> memory" where
  "recovered_space b m =
     (if bf_len (mem_buffers m b) - bf_off (mem_buffers m b) = 0 \<and> bf_off (mem_buffers m b) \<noteq> 0 then Reset b m else m)"

lemma recovered_spec:
  assumes "buffer_ok b m"
  shows "touches b m (recovered_space b m) \<and> buffer_ok b (recovered_space b m) \<and> unread (recovered_space b m) b = unread m b"
  using Reset_spec[OF assms] unread_length[OF assms] assms by (auto simp: recovered_space_def)

lemma grow_spec:
  assumes "buffer_ok b m"
  shows "touches b m (grow slack b n m) \<and> buffer_ok b (grow slack b n m) \<and> unread (grow slack b n m) b = unread m b \<and>
    n \<le> bcap (grow slack b n m) b - bf_len (mem_buffers (grow slack b n m) b)"
proof -
  define M where "M = recovered_space b m"
  define B where "B = mem_buffers M b"
  define data where "data = unread M b"
  define c where "c = bcap M b"
  from recovered_spec[OF assms] have M: "touches b m M" "buffer_ok b M" "data = unread m b" by (simp_all add: M_def data_def)
  have g: "grow slack b n m =
     (if n \<le> c - bf_len B then M
      else if bf_array B = None \<and> n \<le> 64 then new_array b (B\<lparr>bf_off := 0, bf_len := 0\<rparr>) (zeros 64) M
      else if int n \<le> int (c div 2) - int (length data) then
        set_buffer b (B\<lparr>bf_off := 0, bf_len := length data\<rparr>)
          (case bf_array B of None \<Rightarrow> M | Some a \<Rightarrow> M\<lparr>mem_arrays := (mem_arrays M)(a := poke 0 data (mem_arrays M a))\<rparr>)
      else
        (let need = length data + (bf_off B + n); c' = (if need < 2 * (c - bf_off B) then 2 * (c - bf_off B) else need) in
         new_array b (B\<lparr>bf_off := 0, bf_len := length data\<rparr>) (data @ zeros (c' + slack c' - length data)) M))"
    unfolding grow_def recovered_space_def[symmetric] M_def[symmetric] Let_def B_def data_def c_def ..
  consider (room) "n \<le> c - bf_len B"
    | (small) "\<not> n \<le> c - bf_len B" "bf_array B = None" "n \<le> 64"
    | (slide) "\<not> n \<le> c - bf_len B" "\<not> (bf_array B = None \<and> n \<le> 64)" "int n \<le> int (c div 2) - int (length data)"
    | (fresh) "\<not> n \<le> c - bf_len B" "\<not> (bf_array B = None \<and> n \<le> 64)" "\<not> int n \<le> int (c div 2) - int (length data)"
    by meson
  then show ?thesis
  proof cases
    case room
    then show ?thesis unfolding g using M by (simp add: data_def B_def c_def)
  next
    case small
    from small(2) have "data = []" by (auto simp: data_def B_def mem_defs)
    with small g new_array_spec[OF M(2), of "B\<lparr>bf_off := 0, bf_len := 0\<rparr>" "zeros 64"] M touches_trans[OF M(1)] show ?thesis
      by (simp add: data_def zeros_def)
  next
    case slide
    have "grow slack b n m = set_buffer b (B\<lparr>bf_off := 0, bf_len := length data\<rparr>)
       (case bf_array B of None \<Rightarrow> M | Some a \<Rightarrow> M\<lparr>mem_arrays := (mem_arrays M)(a := poke 0 data (mem_arrays M a))\<rparr>)"
      unfolding g by (simp only: slide if_False if_True)
    note s = slide_spec[OF M(2) B_def data_def this]
    have "bf_len (mem_buffers (grow slack b n m) b) = length data" unfolding g by (simp only: slide if_False if_True) simp
    with s slide(3) M touches_trans[OF M(1)] show ?thesis by (auto simp: c_def)
  next
    case fresh
    define c' where "c' = (if length data + (bf_off B + n) < 2 * (c - bf_off B) then 2 * (c - bf_off B) else length data + (bf_off B + n))"
    have "grow slack b n m = new_array b (B\<lparr>bf_off := 0, bf_len := length data\<rparr>) (data @ zeros (c' + slack c' - length data)) M"
      unfolding g c'_def by (simp only: fresh if_False Let_def)
    moreover have "length data + n \<le> c'" by (auto simp: c'_def)
    ultimately show ?thesis
      using new_array_spec[OF M(2), of "B\<lparr>bf_off := 0, bf_len := length data\<rparr>" "data @ zeros (c' + slack c' - length data)"]
        M touches_trans[OF M(1)] by (simp add: data_def zeros_def)
  qed
qed

lemma Write_spec:
  assumes "buffer_ok b m"
  shows "touches b m (Write slack b p m) \<and> buffer_ok b (Write slack b p m) \<and> unread (Write slack b p m) b = unread m b @ p"
  using fill_spec[OF assms, of p] grow_spec[OF assms, of slack "length p"] fill_spec[of b "grow slack b (length p) m" p]
    touches_trans[of b m "grow slack b (length p) m"]
  by (auto simp: Write_def)

lemma ReadFrom_spec:
  "buffer_ok b m \<Longrightarrow>
   touches b m (ReadFrom slack b s m) \<and> buffer_ok b (ReadFrom slack b s m) \<and> unread (ReadFrom slack b s m) b = unread m b @ s"
proof (induction slack b s m rule: ReadFrom.induct)
  case (1 slack b s m)
  define M where "M = grow slack b MinRead m"
  define k where "k = bcap M b - bf_len (mem_buffers M b)"
  from grow_spec[OF 1(2), of slack MinRead] have M: "touches b m M" "buffer_ok b M" "unread M b = unread m b" "MinRead \<le> k"
    by (simp_all add: M_def k_def)
  then have "k \<noteq> 0" by (simp add: MinRead_def)
  have r: "ReadFrom slack b s m = (if s = [] \<or> k = 0 then M else ReadFrom slack b (drop k s) (fill b (take k s) M))"
    by (subst ReadFrom.simps) (simp add: M_def k_def Let_def)
  show ?case
  proof (cases "s = []")
    case True
    with r M show ?thesis by simp
  next
    case False
    from fill_spec[OF M(2), of "take k s"] have f: "touches b M (fill b (take k s) M)" "buffer_ok b (fill b (take k s) M)"
      "unread (fill b (take k s) M) b = unread m b @ take k s" by (simp_all add: k_def M(3))
    from 1(1)[OF M_def k_def _ f(2)] False \<open>k \<noteq> 0\<close> r f(3)
    show ?thesis using touches_trans[OF M(1) touches_trans[OF f(1)]] by simp
  qed
qed

section \<open>Who may use a buffer\<close>

text \<open>
  The buffers \<open>H\<close> are in use: they were handed out and not put back yet.  No two buffers share an array.
\<close>

definition mem_ok :: "memory \<Rightarrow> nat set \<Rightarrow> bool" where
  "mem_ok m H \<longleftrightarrow>
     distinct (mem_pool m) \<and> set (mem_pool m) \<inter> H = {} \<and> set (mem_pool m) \<union> H \<subseteq> {..<mem_count m} \<and>
     (\<forall>b. buffer_ok b m) \<and> (\<forall>b \<ge> mem_count m. bf_array (mem_buffers m b) = None) \<and>
     (\<forall>b b' a. bf_array (mem_buffers m b) = Some a \<longrightarrow> bf_array (mem_buffers m b') = Some a \<longrightarrow> b = b')"

lemma touches_others:
  assumes "touches b m m'" "mem_ok m H" "b' \<noteq> b"
  shows "mem_buffers m' b' = mem_buffers m b' \<and> array_of m' (bf_array (mem_buffers m b')) = array_of m (bf_array (mem_buffers m b'))"
proof (cases "bf_array (mem_buffers m b')")
  case None
  with assms show ?thesis by (simp add: touches_def array_of_def)
next
  case (Some a)
  with assms(2,3) have "a < mem_next m" "bf_array (mem_buffers m b) \<noteq> Some a"
    by (auto simp: mem_ok_def buffer_ok_def)
  with assms(1,3) Some show ?thesis by (simp add: touches_def array_of_def)
qed

lemma touches_unread: "touches b m m' \<Longrightarrow> mem_ok m H \<Longrightarrow> b' \<noteq> b \<Longrightarrow> unread m' b' = unread m b'"
  using touches_others[of b m m' H b'] by (simp add: unread_def Bytes_def slice_bytes_def Let_def)

lemma touches_ok:
  assumes t: "touches b m m'" and ok: "mem_ok m H" and b: "buffer_ok b m'" "b < mem_count m"
  shows "mem_ok m' H"
proof -
  from ok have m: "\<And>b. buffer_ok b m" "\<And>b b' a. bf_array (mem_buffers m b) = Some a \<Longrightarrow> bf_array (mem_buffers m b') = Some a \<Longrightarrow> b = b'"
    by (simp_all add: mem_ok_def)
  have "buffer_ok b' m'" for b'
  proof (cases "b' = b")
    case False
    with touches_others[OF t ok False] m(1)[of b'] t show ?thesis by (auto simp: buffer_ok_def bcap_def touches_def)
  qed (use b in simp)
  moreover have "b1 = b2" if "bf_array (mem_buffers m' b1) = Some a" "bf_array (mem_buffers m' b2) = Some a" for b1 b2 a
  proof -
    have other: False if "b2 \<noteq> b" "bf_array (mem_buffers m' b) = Some a" "bf_array (mem_buffers m' b2) = Some a" for b2
    proof -
      from that t have b2: "bf_array (mem_buffers m b2) = Some a" by (simp add: touches_def)
      with m(1)[of b2] have "a < mem_next m" by (simp add: buffer_ok_def)
      with t that(2) have "bf_array (mem_buffers m b) = Some a" by (auto simp: touches_def)
      from m(2)[OF this b2] that(1) show False by simp
    qed
    show ?thesis
    proof (cases "b1 = b \<or> b2 = b")
      case True
      with other that show ?thesis by metis
    next
      case False
      with that t have "bf_array (mem_buffers m b1) = Some a" "bf_array (mem_buffers m b2) = Some a" by (simp_all add: touches_def)
      from m(2)[OF this] show ?thesis .
    qed
  qed
  moreover have "bf_array (mem_buffers m' b') = None" if "mem_count m \<le> b'" for b'
    using that t ok b(2) unfolding touches_def mem_ok_def by auto
  ultimately show ?thesis using t ok by (auto simp: mem_ok_def touches_def)
qed

text \<open>An operation that appends bytes to a buffer: its laws, and what they give for the memory.\<close>

locale buffer_op =
  fixes op :: "nat \<Rightarrow> string \<Rightarrow> memory \<Rightarrow> memory"
  assumes appends: "buffer_ok b m \<Longrightarrow> touches b m (op b p m) \<and> buffer_ok b (op b p m) \<and> unread (op b p m) b = unread m b @ p"
begin

lemma keeps: "mem_ok m H \<Longrightarrow> b < mem_count m \<Longrightarrow> mem_ok (op b p m) H"
  using appends[of b m p] touches_ok[of b m "op b p m" H] by (auto simp: mem_ok_def)

lemma same_pool: "mem_ok m H \<Longrightarrow> mem_pool (op b p m) = mem_pool m \<and> mem_count (op b p m) = mem_count m"
  using appends[of b m p] by (auto simp: mem_ok_def touches_def)

lemma appended: "mem_ok m H \<Longrightarrow> unread (op b p m) b' = (if b' = b then unread m b @ p else unread m b')"
  using appends[of b m p] touches_unread[of b m "op b p m" H b'] by (auto simp: mem_ok_def)

end

interpretation writes: buffer_op "Write slack" for slack
  by unfold_locales (rule Write_spec)

interpretation reads: buffer_op "\<lambda>b. ReadFrom slack b" for slack
  by unfold_locales (rule ReadFrom_spec)

lemma array_of_same [simp]: "array_of (m\<lparr>mem_pool := p\<rparr>) = array_of m" "array_of (m\<lparr>mem_count := n\<rparr>) = array_of m"
  "array_of (set_buffer b B m) = array_of m"
  by (simp_all add: array_of_def fun_eq_iff split: option.split)

lemma put_ok: "mem_ok m H \<Longrightarrow> b \<in> H \<Longrightarrow> mem_ok (pool_put b m) (H - {b})"
  by (auto simp: mem_ok_def pool_put_def buffer_ok_def bcap_def)

lemma put_unread [simp]: "unread (pool_put b m) b' = unread m b'" "slice_bytes (pool_put b m) s = slice_bytes m s"
  by (simp_all add: pool_put_def unread_def Bytes_def slice_bytes_def Let_def)

lemma Get_spec:
  assumes "mem_ok m H" "pool_Get pick m = (b, m')"
  shows "mem_ok m' (insert b H) \<and> b \<notin> H \<and> unread m' b = [] \<and> (\<forall>b'. b' \<noteq> b \<longrightarrow> unread m' b' = unread m b')"
proof -
  have new: "?thesis" if "b = mem_count m" "m' = Reset b (set_buffer b \<lparr>bf_array = None, bf_off = 0, bf_len = 0\<rparr> (m\<lparr>mem_count := mem_count m + 1\<rparr>))"
    using assms(1) that by (auto simp: mem_ok_def Reset_def buffer_ok_def bcap_def unread_def Bytes_def slice_bytes_def Let_def)
  have old: "?thesis" if "b \<in> set (mem_pool m)" "m' = Reset b (m\<lparr>mem_pool := remove1 b (mem_pool m)\<rparr>)"
    using assms(1) that by (auto simp: mem_ok_def Reset_def buffer_ok_def bcap_def unread_def Bytes_def slice_bytes_def Let_def)
  show ?thesis
    using assms(2) new old by (auto simp: pool_Get_def split: option.splits if_splits)
qed

section \<open>The discipline of the pool\<close>

text \<open>
  The uses of the pool that keep to its rule: the buffers in use are handed out by \<open>Get\<close>, only they are written to,
  and they are given back once.
\<close>

inductive pool_step :: "memory \<times> nat set \<Rightarrow> memory \<times> nat set \<Rightarrow> bool" where
  Taken: "pool_Get pick m = (b, m') \<Longrightarrow> pool_step (m, H) (m', insert b H)"
| Written: "b \<in> H \<Longrightarrow> pool_step (m, H) (Write slack b p m, H)"
| ReadInto: "b \<in> H \<Longrightarrow> pool_step (m, H) (ReadFrom slack b p m, H)"
| Given: "b \<in> H \<Longrightarrow> pool_step (m, H) (pool_put b m, H - {b})"

inductive_cases pool_stepE: "pool_step (m, H) (m', H')"

definition empty_memory :: memory where
  "empty_memory = \<lparr>mem_arrays = \<lambda>_. [], mem_next = 0,
     mem_buffers = \<lambda>_. \<lparr>bf_array = None, bf_off = 0, bf_len = 0\<rparr>, mem_count = 0, mem_pool = []\<rparr>"

inductive pool_run :: "memory \<times> nat set \<Rightarrow> bool" where
  Start: "pool_run (empty_memory, {})"
| Step: "pool_run s \<Longrightarrow> pool_step s s' \<Longrightarrow> pool_run s'"

lemma used_below: "mem_ok m H \<Longrightarrow> b \<in> H \<Longrightarrow> b < mem_count m"
  by (auto simp: mem_ok_def)

lemma pool_step_ok:
  assumes "pool_step (m, H) (m', H')" "mem_ok m H"
  shows "mem_ok m' H'"
  using assms
  by (elim pool_stepE) (auto dest: Get_spec put_ok intro!: writes.keeps reads.keeps intro: used_below)

lemma pool_run_ok: "pool_run s \<Longrightarrow> mem_ok (fst s) (snd s)"
proof (induction rule: pool_run.induct)
  case Start
  show ?case by (simp add: empty_memory_def mem_ok_def buffer_ok_def)
next
  case (Step s s')
  with pool_step_ok[of "fst s" "snd s" "fst s'" "snd s'"] show ?case by simp
qed

text \<open>
  C17. As long as its users keep to the rule of the pool, a buffer that is handed out is in nobody's use and empty,
  and what its user writes to it changes the bytes of no other buffer.
\<close>
theorem pool_exclusive:
  assumes "pool_run (m, H)" "pool_Get pick m = (b, m')"
  shows "b \<notin> H \<and> unread m' b = [] \<and>
    (\<forall>b' slack p. unread (Write slack b p m') b' = (if b' = b then p else unread m b'))"
proof -
  from Get_spec[OF pool_run_ok[OF assms(1), simplified] assms(2)]
  have "mem_ok m' (insert b H)" "b \<notin> H" "unread m' b = []" "\<forall>b'. b' \<noteq> b \<longrightarrow> unread m' b' = unread m b'" by auto
  then show ?thesis by (simp add: writes.appended)
qed

section \<open>Bytes after their buffer was given back\<close>

lemma grow_off: "bf_off (mem_buffers m b) = 0 \<Longrightarrow> bf_off (mem_buffers (grow slack b n m) b) = 0"
  by (simp add: grow_def new_array_def Let_def)

lemma fill_off [simp]: "bf_off (mem_buffers (fill b xs m) b) = bf_off (mem_buffers m b)"
  by (simp add: fill_def Let_def split: option.split)

lemma ReadFrom_off: "bf_off (mem_buffers m b) = 0 \<Longrightarrow> bf_off (mem_buffers (ReadFrom slack b s m) b) = 0"
proof (induction slack b s m rule: ReadFrom.induct)
  case (1 slack b s m)
  with 1 show ?case by (subst ReadFrom.simps) (simp add: Let_def grow_off)
qed

lemma Get_off: "pool_Get pick m = (b, m') \<Longrightarrow> bf_off (mem_buffers m' b) = 0"
  by (auto simp: pool_Get_def Reset_def split: option.splits if_splits)

lemma ReadFrom_room:
  "buffer_ok b m \<Longrightarrow> MinRead \<le> bcap (ReadFrom slack b s m) b - bf_len (mem_buffers (ReadFrom slack b s m) b)"
proof (induction slack b s m rule: ReadFrom.induct)
  case (1 slack b s m)
  define M where "M = grow slack b MinRead m"
  define k where "k = bcap M b - bf_len (mem_buffers M b)"
  from grow_spec[OF 1(2), of slack MinRead] have M: "buffer_ok b M" "MinRead \<le> k" by (simp_all add: M_def k_def)
  have r: "ReadFrom slack b s m = (if s = [] \<or> k = 0 then M else ReadFrom slack b (drop k s) (fill b (take k s) M))"
    by (subst ReadFrom.simps) (simp add: M_def k_def Let_def)
  from fill_spec[OF M(1), of "take k s"] have "buffer_ok b (fill b (take k s) M)" by (simp add: k_def)
  with 1(1)[OF M_def k_def] M(2) show ?case unfolding r by (auto simp: k_def)
qed

lemma ReadFrom_in_place:
  assumes "bf_array (mem_buffers m b) = Some a" "bf_off (mem_buffers m b) = 0" "bf_len (mem_buffers m b) = 0"
    "length s + MinRead \<le> length (mem_arrays m a)" "s \<noteq> []"
  shows "ReadFrom slack b s m = fill b s m"
proof -
  have room: "grow slack b MinRead m = m" if "bf_array (mem_buffers m b) = Some a" "bf_off (mem_buffers m b) = 0"
    "bf_len (mem_buffers m b) + MinRead \<le> length (mem_arrays m a)" for m
    using that by (simp add: grow_def bcap_def array_of_def Let_def)
  have c: "bcap m b - bf_len (mem_buffers m b) = length (mem_arrays m a)" using assms by (simp add: bcap_def array_of_def)
  have "ReadFrom slack b s m = ReadFrom slack b [] (fill b s m)"
    using assms(4,5) room[OF assms(1,2)] assms(3) c by (subst ReadFrom.simps) (auto simp: Let_def)
  also have "\<dots> = grow slack b MinRead (fill b s m)" by (subst ReadFrom.simps) (simp add: Let_def)
  also have "\<dots> = fill b s m" using assms by (intro room) (simp_all add: fill_def Let_def)
  finally show ?thesis .
qed

text \<open>
  C21. The bytes that \<open>ReadFile\<close> returns are the content of the file, but only until the buffer is handed out again:
  after the next read into the same buffer, of a file that is not longer, the first slice holds the content of the
  second file and then what is left of its own.
\<close>
theorem ReadFile_overwritten:
  assumes "pool_run (m, H)" "pooled_ReadFile slack pick (Inr (c1, None, None)) m = ((Some s1, None), m1)"
    "length c2 \<le> length c1" "c2 \<noteq> []"
    "pooled_ReadFile slack (Some (last (mem_pool m1))) (Inr (c2, None, None)) m1 = ((Some s2, None), m2)"
  shows "slice_bytes m1 s1 = c1 \<and> slice_bytes m2 s2 = c2 \<and> slice_bytes m2 s1 = c2 @ drop (length c2) c1"
proof -
  obtain b m' where g: "pool_Get pick m = (b, m')" by fastforce
  from Get_spec[OF pool_run_ok[OF assms(1), simplified] g] have m': "mem_ok m' (insert b H)" "b \<notin> H" "unread m' b = []" by auto
  define M where "M = ReadFrom slack b c1 m'"
  from assms(2) g have s1: "s1 = Bytes M b" "m1 = pool_put b M" by (auto simp: pooled_ReadFile_def Let_def M_def)
  have "mem_ok M (insert b H)" using m'(1) unfolding M_def by (rule reads.keeps) (use m'(1) in \<open>auto simp: mem_ok_def\<close>)
  have ok1: "mem_ok m1 H" using put_ok[OF \<open>mem_ok M (insert b H)\<close>, of b] m'(2) s1 by simp
  have c1: "unread M b = c1" using reads.appended[OF m'(1), of slack b c1 b] m'(3) by (simp add: M_def)
  from ReadFrom_room[of b m' slack c1] m'(1) have room: "MinRead \<le> bcap M b - bf_len (mem_buffers M b)"
    by (simp add: M_def mem_ok_def)
  then obtain a where arr: "bf_array (mem_buffers M b) = Some a" by (cases "bf_array (mem_buffers M b)") (auto simp: bcap_def array_of_def MinRead_def)
  have s: "sl_start s1 = 0" "sl_array s1 = Some a" "sl_len s1 = length c1" "bf_len (mem_buffers M b) = length c1"
    using ReadFrom_off[OF Get_off[OF g], of slack c1] c1 unread_length[of b M] \<open>mem_ok M (insert b H)\<close> arr
    by (simp_all add: s1 M_def[symmetric] Bytes_def Let_def mem_ok_def)
  with room arr assms(3) have fits: "length c2 + MinRead \<le> length (mem_arrays m1 a)"
    by (simp add: bcap_def array_of_def s1 pool_put_def MinRead_def)
  have last: "last (mem_pool m1) = b" by (simp add: s1 pool_put_def)
  define R where "R = Reset b (m1\<lparr>mem_pool := remove1 b (mem_pool m1)\<rparr>)"
  have get: "pool_Get (Some b) m1 = (b, R)" by (simp add: pool_Get_def R_def s1 pool_put_def)
  from Get_spec[OF ok1 get] have R: "mem_ok R (insert b H)" "unread R b = []" by auto
  have a: "bf_array (mem_buffers R b) = Some a" "bf_off (mem_buffers R b) = 0" "bf_len (mem_buffers R b) = 0"
    "mem_arrays R = mem_arrays m1" "bf_array (mem_buffers M b) = Some a"
    using arr s1 by (simp_all add: R_def Reset_def Bytes_def Let_def pool_put_def)
  have fill: "ReadFrom slack b c2 R = fill b c2 R" using a fits assms(4) by (intro ReadFrom_in_place) simp_all
  with assms(5) get last have m2: "m2 = pool_put b (fill b c2 R)" "s2 = Bytes (fill b c2 R) b"
    by (auto simp: pooled_ReadFile_def Let_def)
  have "slice_bytes m2 s2 = unread R b @ c2"
    using reads.appended[OF R(1), of slack b c2 b] by (simp add: m2 fill unread_def)
  moreover have "slice_bytes m1 s1 = c1" using c1 by (simp add: s1 unread_def)
  moreover have "slice_bytes m2 s1 = c2 @ drop (length c2) c1"
  proof -
    from s \<open>slice_bytes m1 s1 = c1\<close> have "take (length c1) (mem_arrays m1 a) = c1" by (simp add: slice_bytes_def array_of_def)
    moreover have "mem_arrays m2 a = c2 @ drop (length c2) (mem_arrays m1 a)"
      using a by (simp add: m2 pool_put_def fill_def Let_def poke_def)
    ultimately show ?thesis using s assms(3) drop_take[of "length c2" "length c1" "mem_arrays m1 a"] by (simp add: slice_bytes_def array_of_def)
  qed
  ultimately show ?thesis using R(2) by simp
qed

text \<open>Two reads of the empty pool: the second one takes the buffer of the first.\<close>

lemma empty_Get: "pool_Get None empty_memory = (0, Reset 0 (set_buffer 0 \<lparr>bf_array = None, bf_off = 0, bf_len = 0\<rparr> (empty_memory\<lparr>mem_count := 1\<rparr>)))"
  by (simp add: pool_Get_def empty_memory_def)

theorem pool_exclusive_witness:
  "\<exists>b m'. pool_Get None empty_memory = (b, m') \<and> b \<notin> ({} :: nat set) \<and> unread (Write (\<lambda>_. 0) b ''x'' m') b = ''x''"
  using pool_exclusive[OF Start empty_Get] empty_Get by simp

theorem ReadFile_overwritten_witness:
  "\<exists>s1 m1 s2 m2. pooled_ReadFile (\<lambda>_. 0) None (Inr (''hello'', None, None)) empty_memory = ((Some s1, None), m1) \<and>
     pooled_ReadFile (\<lambda>_. 0) (Some (last (mem_pool m1))) (Inr (''abc'', None, None)) m1 = ((Some s2, None), m2) \<and>
     slice_bytes m1 s1 = ''hello'' \<and> slice_bytes m2 s2 = ''abc'' \<and> slice_bytes m2 s1 = ''abclo''"
proof -
  obtain s1 m1 where 1: "pooled_ReadFile (\<lambda>_. 0) None (Inr (''hello'', None, None)) empty_memory = ((Some s1, None), m1)"
    by (simp add: pooled_ReadFile_def empty_Get Let_def)
  obtain s2 m2 where 2: "pooled_ReadFile (\<lambda>_. 0) (Some (last (mem_pool m1))) (Inr (''abc'', None, None)) m1 = ((Some s2, None), m2)"
    by (cases "pool_Get (Some (last (mem_pool m1))) m1") (simp add: pooled_ReadFile_def Let_def)
  from ReadFile_overwritten[OF Start 1 _ _ 2] 1 2 show ?thesis by auto
qed

text \<open>
  C40. What \<open>UnmarshalDocument\<close> returns decodes its document only if the iteration comes before any other use of the pool:
  its buffer is back in the pool by then, and once somebody else has taken the buffer and written to it, the
  iteration decodes what was written instead.
\<close>
theorem UnmarshalDocument_loses:
  assumes "pool_run (m, H)" "UnmarshalDocument slack pick raw m = (b, m1)" "pool_Get (Some b) m1 = (b', m2)"
  shows "documents dec b m1 = dec raw \<and> b' = b \<and> documents dec b (Write slack b' p m2) = dec p"
proof -
  obtain b0 m0 where g: "pool_Get pick m = (b0, m0)" by fastforce
  from Get_spec[OF pool_run_ok[OF assms(1), simplified] g] have m0: "mem_ok m0 (insert b0 H)" "b0 \<notin> H" "unread m0 b0 = []" by auto
  define W where "W = Write slack b0 raw m0"
  from assms(2) g have b: "b0 = b" "m1 = pool_put b W" by (auto simp: UnmarshalDocument_def W_def)
  have "mem_ok W (insert b H)" using m0(1) unfolding W_def b(1) by (rule writes.keeps) (use m0(1) b in \<open>auto simp: mem_ok_def\<close>)
  from put_ok[OF this, of b] m0(2) b have ok: "mem_ok m1 H" by simp
  have "b' = b" using assms(3) by (auto simp: b pool_Get_def pool_put_def)
  moreover have "unread m1 b = raw" using writes.appended[OF m0(1), of slack b0 raw b0] m0(3) by (simp add: b W_def)
  moreover have "unread (Write slack b' p m2) b' = p"
    using Get_spec[OF ok assms(3)] by (auto simp: writes.appended)
  ultimately show ?thesis by (simp add: documents_def)
qed

theorem UnmarshalDocument_loses_witness:
  "\<exists>b m1 m2. UnmarshalDocument (\<lambda>_. 0) None ''a: 1'' empty_memory = (b, m1) \<and> pool_Get (Some b) m1 = (b, m2) \<and>
     documents (\<lambda>s. [s]) b m1 = [''a: 1''] \<and> documents (\<lambda>s. [s]) b (Write (\<lambda>_. 0) b ''x'' m2) = [''x'']"
proof -
  obtain b m1 where 1: "UnmarshalDocument (\<lambda>_. 0) None ''a: 1'' empty_memory = (b, m1)" by fastforce
  obtain b' m2 where 2: "pool_Get (Some b) m1 = (b', m2)" by fastforce
  from UnmarshalDocument_loses[OF Start 1 2, of "\<lambda>s. [s]" "''x''"] 1 2 show ?thesis by auto
qed

lemma writes_appended:
  "mem_ok m H \<Longrightarrow> b < mem_count m \<Longrightarrow> unread (fold (Write slack b) pieces m) b = unread m b @ concat pieces"
proof (induction pieces arbitrary: m)
  case (Cons p pieces)
  from writes.keeps[OF Cons.prems] Cons.IH[of "Write slack b p m"] writes.same_pool[OF Cons.prems(1), of slack b p]
  show ?case using Cons.prems by (simp add: writes.appended[OF Cons.prems(1)])
qed simp

text \<open>The output of a command is what it wrote, as long as nobody takes the buffer.\<close>
theorem pooled_output_concat:
  assumes "pool_run (m, H)" "pooled_output slack pick pieces args err m = (Inr s, m')"
  shows "slice_bytes m' s = concat pieces"
proof -
  obtain b M where g: "pool_Get pick m = (b, M)" by fastforce
  from Get_spec[OF pool_run_ok[OF assms(1), simplified] g] have M: "mem_ok M (insert b H)" "unread M b = []" by auto
  with writes_appended[OF M(1) used_below[OF M(1)], of b slack pieces] assms(2) g show ?thesis
    by (auto simp: pooled_output_def Let_def unread_def split: option.splits)
qed

end
