(* ===== verification/HelmComponent.thy ===== *)
theory HelmComponent
  imports HelmRetry Loaders Indent
begin

text \<open>
  The command that generates a chart component: the arguments of \<open>cribctl helm create-component\<close>
  (cmd/cribctl/cmd/helm_create_component.go), the pipeline of internal/adapter/cribctl/helm_create_component.go and
  the generator of internal/adapter/helm (generator.go, and \<open>Save\<close> of defaults.go).  The template engine, the
  formatter, the YAML library and the validator are parameters.
\<close>

section \<open>The arguments\<close>

text \<open>
  The scheme of a URL, as the standard library finds it: \<open>None\<close> when the scheme is missing before a colon.
\<close>

definition scheme_letter :: "char \<Rightarrow> bool" where
  "scheme_letter c \<longleftrightarrow> 97 \<le> byte c \<and> byte c \<le> 122 \<or> 65 \<le> byte c \<and> byte c \<le> 90"

definition scheme_other :: "char \<Rightarrow> bool" where
  "scheme_other c \<longleftrightarrow> 48 \<le> byte c \<and> byte c \<le> 57 \<or> c \<in> {CHR ''+'', CHR ''-'', CHR ''.''}"

fun scheme_of :: "string \<Rightarrow> string \<Rightarrow> string option" where
  "scheme_of acc [] = Some []"
| "scheme_of acc (c # cs) =
     (if scheme_letter c then scheme_of (acc @ [c]) cs
      else if scheme_other c then (if acc = [] then Some [] else scheme_of (acc @ [c]) cs)
      else if c = CHR '':'' then (if acc = [] then None else Some acc)
      else Some [])"

text \<open>\<open>url.Parse\<close>, as far as its scheme; \<open>bad\<close> tells which strings the rest of the parser refuses.\<close>

definition url_scheme :: "(string \<Rightarrow> bool) \<Rightarrow> string \<Rightarrow> string option" where
  "url_scheme bad s =
     (if bad s then None
      else map_option to_lower (scheme_of [] (case str_cut s (CHR ''#'') of None \<Rightarrow> s | Some (u, _) \<Rightarrow> u)))"

text \<open>The loop that tells the release from the name.\<close>

fun pick_args :: "string list \<Rightarrow> string \<times> string \<Rightarrow> string \<times> string" where
  "pick_args [] (name, releaseStr) = (name, releaseStr)"
| "pick_args (arg # args) (name, releaseStr) =
     (if contains arg ''@'' then pick_args args (name, arg) else pick_args args (arg, releaseStr))"

definition cross :: string where "cross = [CHR 0xE2, CHR 0x9D, CHR 0x8C]"

definition errInvalidArgs :: goerr where "errInvalidArgs = ErrText ''invalid arguments''"

definition arg_problems :: "string \<Rightarrow> string \<Rightarrow> string \<Rightarrow> string \<Rightarrow> string list" where
  "arg_problems name releaseStr repo scheme =
     (if releaseStr = [] then [''  '' @ cross @ ''  create-component requires a release in the format <release>@<url>'' @ [LF]] else []) @
     (if name = [] then [''  '' @ cross @ ''  create-component requires a name for the component.'' @ [LF]] else []) @
     (if scheme \<noteq> ''oci'' \<and> scheme \<noteq> ''https''
      then [''  '' @ cross @ ''  Only repositories beginning with oci or https are supported. Got: '' @ quote repo @ [LF]] else [])"

text \<open>
  \<open>Args\<close>: the error and the release it fills in.  A repository that is not a URL is reported, and then the nil URL is
  asked for its scheme.
\<close>

definition create_Args ::
    "('w \<Rightarrow> goerr option \<times> 'w) \<Rightarrow> (string \<Rightarrow> 'w \<Rightarrow> goerr option \<times> 'w) \<Rightarrow> (string \<Rightarrow> bool) \<Rightarrow> string list \<Rightarrow> 'w
      \<Rightarrow> ((goerr option \<times> release option) \<times> 'w) outcome" where
  "create_Args help write bad args w =
     (if length args = 0 then (case help w of (e, w) \<Rightarrow> Ret ((join_errors [e, Some errInvalidArgs], None), w))
      else if length args \<noteq> 2 then
        (case write (cross @ ''  create-component requires exactly two arguments: <name> and <release>@<url>'' @ [LF, LF]) w of
           (Some e, w) \<Rightarrow> Ret ((Some e, None), w)
         | (None, w) \<Rightarrow> Ret ((Some errInvalidArgs, None), w))
      else
        (case pick_args args ([], []) of
           (name, releaseStr) \<Rightarrow>
             (let (release, repo) = (case str_cut releaseStr (CHR ''@'') of None \<Rightarrow> (releaseStr, []) | Some p \<Rightarrow> p) in
              case url_scheme bad repo of
                None \<Rightarrow> Panic ''nil pointer dereference''
              | Some scheme \<Rightarrow>
                  (let problems = arg_problems name releaseStr repo scheme;
                       err = fold (\<lambda>_ err. join_errors [err, Some errInvalidArgs]) problems None;
                       r = \<lparr>rl_Name = release, rl_ReleaseName = name, rl_Repository = repo, rl_Version = []\<rparr> in
                   if problems = [] then Ret ((FirstError [err], Some r), w)
                   else
                     (case write (''Input Errors:'' @ [LF, LF] @ concat problems @ [LF, LF]) w of
                        (Some e, w) \<Rightarrow> Ret ((Some e, Some r), w)
                      | (None, w) \<Rightarrow> Ret ((FirstError [err], Some r), w))))))"

text \<open>The output directory, from the flags of the command.\<close>

definition create_outdir :: "string \<Rightarrow> string \<Rightarrow> release \<Rightarrow> string" where
  "create_outdir saveto scalar_version r =
     path_Join [if saveto = [] then ''crib/scalar/charts'' else saveto, rl_ReleaseName r,
       if scalar_version = [] then ''v1'' else scalar_version] @ ''/''"

text \<open>Which arguments are accepted.\<close>

lemma contains_at: "contains s ''@'' \<longleftrightarrow> CHR ''@'' \<in> set s"
  by (induction s) (auto simp: contains_def split: if_splits)

lemma problems_err:
  "ps \<noteq> [] \<Longrightarrow> FirstError [fold (\<lambda>_ err. join_errors [err, Some errInvalidArgs]) ps e0] \<noteq> None"
proof (induction ps arbitrary: e0)
  case (Cons p ps)
  show ?case
  proof (cases "ps = []")
    case True
    then show ?thesis by (cases e0) (simp_all add: Wrap_def)
  next
    case False
    with Cons.IH[OF False, of "join_errors [e0, Some errInvalidArgs]"] show ?thesis by simp
  qed
qed simp

text \<open>What the loop and the cut make of two arguments.\<close>

definition named_release :: "string list \<Rightarrow> string \<Rightarrow> string \<Rightarrow> string \<Rightarrow> bool" where
  "named_release args name release repo \<longleftrightarrow>
     (args = [name, release @ ''@'' @ repo] \<or> args = [release @ ''@'' @ repo, name]) \<and>
     CHR ''@'' \<notin> set name \<and> CHR ''@'' \<notin> set release"

lemma named_pick: "named_release args name release repo \<Longrightarrow> pick_args args ([], []) = (name, release @ ''@'' @ repo)"
  by (auto simp: named_release_def contains_at)

lemma pick_named:
  assumes "length args = 2" "pick_args args ([], []) = (name, releaseStr)" "name \<noteq> []" "releaseStr \<noteq> []"
  shows "\<exists>release repo. named_release args name release repo \<and> str_cut releaseStr (CHR ''@'') = Some (release, repo)"
proof -
  from assms(1) obtain a b where args: "args = [a, b]" by (auto simp: numeral_2_eq_2 length_Suc_conv)
  from assms(2-4) args have at: "CHR ''@'' \<in> set releaseStr" "CHR ''@'' \<notin> set name" "args = [name, releaseStr] \<or> args = [releaseStr, name]"
    by (auto simp: contains_at split: if_splits)
  then obtain release repo where c: "str_cut releaseStr (CHR ''@'') = Some (release, repo)" by (auto simp: str_cut_def)
  from str_cut_Some[OF this] at have "named_release args name release repo" by (auto simp: named_release_def)
  with c show ?thesis by blast
qed

text \<open>
  CX. The command accepts exactly two arguments, in either order: a name without an at sign and a release with a
  repository behind its first at sign, whose scheme is oci or https; it then takes them apart as documented.  The
  name of the chart may be empty.
\<close>
theorem create_Args_accepts:
  "(\<exists>w'. create_Args help write bad args w = Ret ((None, Some r), w')) \<longleftrightarrow>
   (\<exists>name release repo. named_release args name release repo \<and> name \<noteq> [] \<and>
      url_scheme bad repo \<in> {Some ''oci'', Some ''https''} \<and>
      r = \<lparr>rl_Name = release, rl_ReleaseName = name, rl_Repository = repo, rl_Version = []\<rparr>)" (is "?L \<longleftrightarrow> ?R")
proof
  assume ?R
  then obtain name release repo where n: "named_release args name release repo" "name \<noteq> []"
    "url_scheme bad repo \<in> {Some ''oci'', Some ''https''}"
    "r = \<lparr>rl_Name = release, rl_ReleaseName = name, rl_Repository = repo, rl_Version = []\<rparr>" by auto
  then have "length args = 2" "CHR ''@'' \<notin> set release" by (auto simp: named_release_def)
  with n named_pick[OF n(1)] show ?L
    by (auto simp: create_Args_def str_cut_append arg_problems_def Let_def)
next
  assume ?L
  then obtain w' where r: "create_Args help write bad args w = Ret ((None, Some r), w')" by blast
  then have len: "length args = 2"
    by (auto simp: create_Args_def split: prod.splits option.splits if_splits)
  obtain name releaseStr where p: "pick_args args ([], []) = (name, releaseStr)" by fastforce
  obtain release repo where c: "(case str_cut releaseStr (CHR ''@'') of None \<Rightarrow> (releaseStr, []) | Some p \<Rightarrow> p) = (release, repo)" by fastforce
  from r len p c obtain scheme where s: "url_scheme bad repo = Some scheme"
    by (auto simp: create_Args_def Let_def split: option.splits)
  have none: "arg_problems name releaseStr repo scheme = []"
  proof (rule ccontr)
    assume "arg_problems name releaseStr repo scheme \<noteq> []"
    with problems_err[OF this, of None] r len p c s show False
      by (auto simp: create_Args_def Let_def split: prod.splits option.splits)
  qed
  with r len p c s have "r = \<lparr>rl_Name = release, rl_ReleaseName = name, rl_Repository = repo, rl_Version = []\<rparr>"
    by (simp add: create_Args_def Let_def)
  moreover from none have "releaseStr \<noteq> []" "name \<noteq> []" "scheme = ''oci'' \<or> scheme = ''https''"
    by (auto simp: arg_problems_def split: if_splits)
  moreover from pick_named[OF len p \<open>name \<noteq> []\<close> \<open>releaseStr \<noteq> []\<close>] c have "named_release args name release repo" by auto
  ultimately show ?R using s by blast
qed

text \<open>CX. A repository that starts with a colon is no URL, and the command panics on it instead of reporting the error.\<close>
theorem create_Args_panics:
  assumes "CHR ''@'' \<notin> set name" "CHR ''@'' \<notin> set release"
  shows "create_Args help write bad [name, release @ ''@:'' @ rest] w = Panic ''nil pointer dereference''"
proof -
  have "url_scheme bad (CHR '':'' # rest) = None"
    by (auto simp: url_scheme_def str_cut_def scheme_letter_def scheme_other_def)
  with assms show ?thesis
    using str_cut_append[of "CHR ''@''" release "CHR '':'' # rest"] by (simp add: create_Args_def contains_at Let_def)
qed

theorem create_Args_panics_witness:
  "create_Args (\<lambda>w. (None, w)) (\<lambda>s w. (None, w)) (\<lambda>_. False) [''aptos'', ''chart'' @ ''@:'' @ ''//charts''] () = Panic ''nil pointer dereference''"
  by (rule create_Args_panics) simp_all

section \<open>The generator\<close>

record chart_defaults =
  df_Values :: "(string \<times> jval) list"
  df_Release :: release
  df_Version :: string

record template_opts =
  to_Defaults :: chart_defaults
  to_PackageName :: string
  to_DefaultsFile :: string

record generator =
  ge_fh :: handler
  ge_opts :: template_opts

text \<open>
  What the generator takes from outside: the names of the parsed templates in the order the pool runs them, their
  execution, the formatter, the encoder (what it has written, and its error), the validator.
\<close>

record generator_env =
  gn_templates :: "string list"
  gn_execute :: "string \<Rightarrow> template_opts \<Rightarrow> goerr + string"
  gn_format :: "string \<Rightarrow> goerr + string"
  gn_encode :: "chart_defaults \<Rightarrow> string \<times> goerr option"
  gn_encode_values :: "(string \<times> jval) list \<Rightarrow> string \<times> goerr option"
  gn_valid :: "chart_defaults \<Rightarrow> goerr option"

definition HelmDefaultsFileName :: string where "HelmDefaultsFileName = ''chart.defaults.yaml''"

definition NewGenerator :: "nat \<Rightarrow> os_state \<Rightarrow> chart_defaults \<Rightarrow> string \<Rightarrow> (os_state \<times> (goerr + generator)) option" where
  "NewGenerator fuel os d outdir =
     (case NewHandler fuel os outdir of
        None \<Rightarrow> None
      | Some (os, Inl e) \<Rightarrow> Some (os, Inl (WrapErr ''creating file handler'' e))
      | Some (os, Inr fh) \<Rightarrow>
          Some (os, Inr \<lparr>ge_fh = fh, ge_opts = \<lparr>to_Defaults = d, to_PackageName = [], to_DefaultsFile = HelmDefaultsFileName\<rparr>\<rparr>))"

text \<open>\<open>Save\<close> of defaults.go, on the defaults of the generator.\<close>

definition Save :: "generator_env \<Rightarrow> chart_defaults \<Rightarrow> handler \<Rightarrow> os_state \<Rightarrow> goerr option \<times> os_state" where
  "Save env d h os =
     (case gn_valid env d of
        Some e \<Rightarrow> (Some (WrapErr ''validating chart defaults'' e), os)
      | None \<Rightarrow>
          (case gn_encode env d of
             (bytes, err) \<Rightarrow>
               (case create_write os h HelmDefaultsFileName bytes of
                  Inl e \<Rightarrow> (Some (WrapErr (''creating chart defaults file '' @ HelmDefaultsFileName) e), os)
                | Inr os \<Rightarrow> (join_errors [err, None], os))))"

text \<open>
  \<open>Unmarshal\<close> of defaults.go; \<open>decode\<close> decodes into the struct it is given.  The validator runs on whatever was decoded, and
  the first error is returned.
\<close>

definition Defaults_Unmarshal ::
    "(string \<Rightarrow> chart_defaults \<Rightarrow> goerr option \<times> chart_defaults) \<Rightarrow> generator_env \<Rightarrow> os_state \<Rightarrow> handler \<Rightarrow> chart_defaults
      \<Rightarrow> goerr option \<times> chart_defaults" where
  "Defaults_Unmarshal decode env os h d =
     (case handler_Open os h HelmDefaultsFileName of
        Inl e \<Rightarrow> (Some (WrapErr (''opening chart file '' @ quote ''Chart.yaml'') e), d)
      | Inr n \<Rightarrow>
          (case (case n of FileN bytes \<Rightarrow> decode bytes d | DirN _ \<Rightarrow> (Some (ErrText ''is a directory''), d)) of
             (err, d) \<Rightarrow> (join_errors [FirstError [err, gn_valid env d], None], d)))"

definition CopyValues :: "generator_env \<Rightarrow> generator \<Rightarrow> os_state \<Rightarrow> goerr option \<times> os_state" where
  "CopyValues env g os =
     (case gn_encode_values env (df_Values (to_Defaults (ge_opts g))) of
        (bytes, err) \<Rightarrow>
          (case create_write os (ge_fh g) (path_Join [''testdata'', HelmValuesFileName]) bytes of
             Inl e \<Rightarrow> (Some (WrapErr ''creating values file'' e), os)
           | Inr os \<Rightarrow> (join_errors [err, None], os)))"

definition rendered_file :: "string \<Rightarrow> string" where
  "rendered_file name = replace_all ''.gotemplate'' ''.go'' name"

definition render :: "generator_env \<Rightarrow> generator \<Rightarrow> string \<Rightarrow> os_state \<Rightarrow> goerr option \<times> os_state" where
  "render env g name os =
     (case gn_execute env name (ge_opts g) of
        Inl e \<Rightarrow> (Some (WrapErr ''rendering template'' e), os)
      | Inr text \<Rightarrow>
          (case gn_format env text of
             Inl e \<Rightarrow> (Some (WrapErr ''formatting generated code'' e), os)
           | Inr src \<Rightarrow>
               (case create_write os (ge_fh g) (rendered_file name) src of
                  Inl e \<Rightarrow> (Some (WrapErr (''creating file '' @ quote (rendered_file name)) e), os)
                | Inr os \<Rightarrow> (None, os))))"

text \<open>The pool runs every template and joins the errors.\<close>

fun render_all :: "generator_env \<Rightarrow> generator \<Rightarrow> string list \<Rightarrow> os_state \<Rightarrow> goerr option list \<times> os_state" where
  "render_all env g [] os = ([], os)"
| "render_all env g (t # ts) os =
     (if \<not> has_suffix t ''.gotemplate'' then render_all env g ts os
      else
        (case render env g t os of
           (e, os) \<Rightarrow> (case render_all env g ts os of (es, os) \<Rightarrow> (e # es, os))))"

definition Render :: "generator_env \<Rightarrow> generator \<Rightarrow> os_state \<Rightarrow> goerr option \<times> os_state" where
  "Render env g os =
     (if rl_ReleaseName (df_Release (to_Defaults (ge_opts g))) = []
      then (Some (ErrText ''release name is required for template rendering''), os)
      else (case render_all env g (gn_templates env) os of (es, os) \<Rightarrow> (join_errors es, os)))"

definition named_package :: "generator \<Rightarrow> generator" where
  "named_package g =
     g\<lparr>ge_opts := (ge_opts g)\<lparr>to_PackageName := normalizePackageName (rl_ReleaseName (df_Release (to_Defaults (ge_opts g))))\<rparr>\<rparr>"

definition Generate :: "generator_env \<Rightarrow> generator \<Rightarrow> os_state \<Rightarrow> goerr option \<times> os_state" where
  "Generate env g os =
     (let g = named_package g in
      FirstErrorFns
        [\<lambda>os. MkdirAll os (ge_fh g) ''testdata'',
         Render env g,
         Save env (to_Defaults (ge_opts g)) (ge_fh g),
         CopyValues env g] os)"

section \<open>The command\<close>

record 'k create_env =
  cr_client :: "'k world helm_client"
  cr_ctx :: go_context
  cr_fuel :: nat
  cr_valid :: "release \<Rightarrow> string \<Rightarrow> goerr option"
  cr_decode :: yaml_decoder
  cr_gen :: generator_env

text \<open>The struct \<open>CreateHelmComponent\<close>, apart from its client, with the state of the world.\<close>

record 'k create_state =
  cs_reader :: "handler option"
  cs_release :: release
  cs_values :: "(string \<times> jval) list"
  cs_outdir :: string
  cs_world :: "'k world"

text \<open>\<open>FirstErrorFns\<close> over steps that may panic or run out of fuel.\<close>

fun first_error :: "('s \<Rightarrow> (goerr option \<times> 's) option) list \<Rightarrow> 's \<Rightarrow> (goerr option \<times> 's) option" where
  "first_error [] s = Some (None, s)"
| "first_error (check # checks) s =
     (case check s of
        None \<Rightarrow> None
      | Some (Some e, s) \<Rightarrow> Some (Wrap (Some e), s)
      | Some (None, s) \<Rightarrow> first_error checks s)"

definition create_Validate :: "'k create_env \<Rightarrow> 'k create_state \<Rightarrow> (goerr option \<times> 'k create_state) option" where
  "create_Validate env s = Some (cr_valid env (cs_release s) (cs_outdir s), s)"

definition vendorChart :: "'k create_env \<Rightarrow> 'k create_state \<Rightarrow> (goerr option \<times> 'k create_state) option" where
  "vendorChart env s =
     (case hc_VendorRepo (cr_client env) (cr_ctx env) (cs_release s) (cs_world s) of
        None \<Rightarrow> None
      | Some (w, Inl e) \<Rightarrow> Some (Wrapf (Some e) ''vendoring Helm Chart'', s\<lparr>cs_world := w, cs_reader := None\<rparr>)
      | Some (w, Inr reader) \<Rightarrow> Some (None, s\<lparr>cs_world := w, cs_reader := Some reader\<rparr>))"

definition checkVersion :: "'k create_env \<Rightarrow> 'k create_state \<Rightarrow> (goerr option \<times> 'k create_state) option" where
  "checkVersion env s =
     (let needVersion = (rl_Version (cs_release s) = [] \<or> rl_Version (cs_release s) = ''latest'') in
      if \<not> needVersion then Some (None, s)
      else
        (case hc_LatestVersion (cr_client env) (cr_ctx env) (cs_release s) (cs_world s) of
           None \<Rightarrow> None
         | Some (w, Inl e) \<Rightarrow>
             Some (Some (WrapErr (''getting latest version for '' @ quote (release_String (cs_release s))) e), s\<lparr>cs_world := w\<rparr>)
         | Some (w, Inr version) \<Rightarrow>
             Some (None, s\<lparr>cs_world := w, cs_release := (cs_release s)\<lparr>rl_Version := cv_Version version\<rparr>\<rparr>)))"

definition readValues :: "'k create_env \<Rightarrow> 'k create_state \<Rightarrow> (goerr option \<times> 'k create_state) option" where
  "readValues env s =
     (case cs_reader s of
        None \<Rightarrow> None
      | Some reader \<Rightarrow>
          (case NewHandler (cr_fuel env) (w_os (cs_world s)) (HandlerName reader) of
             None \<Rightarrow> None
           | Some (os, Inl e) \<Rightarrow> Some (Some (WrapErr ''creating file loader'' e), s\<lparr>cs_world := (cs_world s)\<lparr>w_os := os\<rparr>\<rparr>)
           | Some (os, Inr nfh) \<Rightarrow>
               (case NewFileLoaderFromFS (Some nfh) HelmValuesFileName (Some NewYAMLLoader) of
                  None \<Rightarrow> None
                | Some (Inl e) \<Rightarrow> Some (Some (WrapErr ''creating values file loader'' e), s\<lparr>cs_world := (cs_world s)\<lparr>w_os := os\<rparr>\<rparr>)
                | Some (Inr loader) \<Rightarrow>
                    (case FileLoader_Values (YAML_Parse (cr_decode env)) YAML_Values os loader of
                       (Inl e, _) \<Rightarrow> Some (Wrapf (Some e) (''reading values file for '' @ quote (rl_Name (cs_release s))),
                                       s\<lparr>cs_world := (cs_world s)\<lparr>w_os := os\<rparr>, cs_values := []\<rparr>)
                     | (Inr values, _) \<Rightarrow> Some (None, s\<lparr>cs_world := (cs_world s)\<lparr>w_os := os\<rparr>, cs_values := values\<rparr>)))))"

definition generateComponent :: "'k create_env \<Rightarrow> 'k create_state \<Rightarrow> (goerr option \<times> 'k create_state) option" where
  "generateComponent env s =
     (case NewGenerator (cr_fuel env) (w_os (cs_world s))
         \<lparr>df_Values = cs_values s, df_Release = cs_release s, df_Version = []\<rparr> (cs_outdir s) of
        None \<Rightarrow> None
      | Some (os, Inl e) \<Rightarrow>
          Some (Some (WrapErr ''initializing component generator'' e), s\<lparr>cs_world := (cs_world s)\<lparr>w_os := os\<rparr>\<rparr>)
      | Some (os, Inr gen) \<Rightarrow>
          (case Generate (cr_gen env) gen os of
             (e, os) \<Rightarrow> Some (e, s\<lparr>cs_world := (cs_world s)\<lparr>w_os := os\<rparr>\<rparr>)))"

definition create_Run :: "'k create_env \<Rightarrow> 'k create_state \<Rightarrow> (goerr option \<times> 'k create_state) option" where
  "create_Run env s =
     (case first_error [create_Validate env, vendorChart env, checkVersion env, readValues env, generateComponent env] s of
        None \<Rightarrow> None
      | Some (Some e, s) \<Rightarrow>
          Some (Some (WrapErr (''creating CRIB-SDK Helm Scalar Component '' @ quote (rl_Name (cs_release s))) e), s)
      | Some (None, s) \<Rightarrow> Some (None, s))"

section \<open>What is generated\<close>

text \<open>The path of a file below the root of a handler.\<close>

definition below :: "string \<Rightarrow> string list" where
  "below name = (case root_name name of Inl _ \<Rightarrow> [] | Inr ss \<Rightarrow> ss)"

definition written :: "string list \<Rightarrow> (string \<times> string) list \<Rightarrow> (string list \<Rightarrow> string option) \<Rightarrow> string list \<Rightarrow> string option" where
  "written base files = fold (\<lambda>(name, bytes) m. m(base @ below name := Some bytes)) files"

lemma written_append: "written base (xs @ ys) m = written base ys (written base xs m)"
  by (simp add: written_def)

lemma written_nil [simp]: "written base [] m = m"
  by (simp add: written_def)

lemma create_write_written:
  assumes "create_write os h name bytes = Inr os'" "h_root h = Some r"
  shows "file_at (os_tree os') = written (abs_segs os r) [(name, bytes)] (file_at (os_tree os)) \<and> os_cwd os' = os_cwd os"
proof -
  from assms obtain ss where "root_name name = Inr ss" by (auto simp: create_write_def split: sum.splits)
  from create_write_files[OF assms this] this show ?thesis by (simp add: written_def below_def)
qed

text \<open>The source that a template renders to.\<close>

definition source_of :: "generator_env \<Rightarrow> generator \<Rightarrow> string \<Rightarrow> string option" where
  "source_of env g t =
     (case gn_execute env t (ge_opts g) of
        Inl _ \<Rightarrow> None
      | Inr text \<Rightarrow> (case gn_format env text of Inl _ \<Rightarrow> None | Inr src \<Rightarrow> Some src))"

definition source_files :: "generator_env \<Rightarrow> generator \<Rightarrow> string list \<Rightarrow> (string \<times> string) list" where
  "source_files env g ts =
     map (\<lambda>t. (rendered_file t, the (source_of env g t))) (filter (\<lambda>t. has_suffix t ''.gotemplate'') ts)"

definition generated_files :: "generator_env \<Rightarrow> generator \<Rightarrow> (string \<times> string) list" where
  "generated_files env g =
     source_files env g (gn_templates env) @
     [(HelmDefaultsFileName, fst (gn_encode env (to_Defaults (ge_opts g)))),
      (path_Join [''testdata'', HelmValuesFileName], fst (gn_encode_values env (df_Values (to_Defaults (ge_opts g)))))]"

lemma render_ok:
  assumes "render env g t os = (None, os')" "h_root (ge_fh g) = Some r"
  shows "source_of env g t \<noteq> None \<and> os_cwd os' = os_cwd os \<and>
    file_at (os_tree os') = written (abs_segs os r) [(rendered_file t, the (source_of env g t))] (file_at (os_tree os))"
  using assms by (auto simp: render_def source_of_def split: sum.splits dest: create_write_written)

lemma same_cwd: "os_cwd os' = os_cwd os \<Longrightarrow> abs_segs os' r = abs_segs os r"
  by (simp add: abs_segs_def)

lemma render_all_ok:
  assumes "render_all env g ts os = (es, os')" "\<forall>e \<in> set es. e = None" "h_root (ge_fh g) = Some r"
  shows "(\<forall>t \<in> set ts. has_suffix t ''.gotemplate'' \<longrightarrow> source_of env g t \<noteq> None) \<and> os_cwd os' = os_cwd os \<and>
    file_at (os_tree os') = written (abs_segs os r) (source_files env g ts) (file_at (os_tree os))"
  using assms
proof (induction ts arbitrary: os es)
  case Nil
  then show ?case by (simp add: written_def source_files_def)
next
  case (Cons t ts)
  show ?case
  proof (cases "has_suffix t ''.gotemplate''")
    case False
    with Cons show ?thesis by (simp add: source_files_def)
  next
    case True
    with Cons.prems(1,2) obtain os1 es1 where 1: "render env g t os = (None, os1)" "render_all env g ts os1 = (es1, os')" "\<forall>e \<in> set es1. e = None"
      by (auto split: prod.splits)
    have "source_files env g (t # ts) = [(rendered_file t, the (source_of env g t))] @ source_files env g ts"
      using True by (simp add: source_files_def)
    with Cons.IH[OF 1(2,3) Cons.prems(3)] render_ok[OF 1(1) Cons.prems(3)] same_cwd[of os1 os r]
    show ?thesis by (simp only: written_append) simp
  qed
qed

lemma generate_footprint:
  assumes "Generate env g os = (None, os')" "h_root (ge_fh g) = Some r"
  shows "file_at (os_tree os') = written (abs_segs os r) (generated_files env (named_package g)) (file_at (os_tree os)) \<and>
    rl_ReleaseName (df_Release (to_Defaults (ge_opts g))) \<noteq> [] \<and> gn_valid env (to_Defaults (ge_opts g)) = None \<and>
    (\<forall>t \<in> set (gn_templates env). has_suffix t ''.gotemplate'' \<longrightarrow> source_of env (named_package g) t \<noteq> None) \<and>
    os_cwd os' = os_cwd os"
proof -
  define G where "G = named_package g"
  have G: "ge_fh G = ge_fh g" "to_Defaults (ge_opts G) = to_Defaults (ge_opts g)" by (simp_all add: G_def named_package_def)
  from assms(1) obtain os1 os2 os3 where s: "MkdirAll os (ge_fh G) ''testdata'' = (None, os1)" "Render env G os1 = (None, os2)"
    "Save env (to_Defaults (ge_opts G)) (ge_fh G) os2 = (None, os3)" "CopyValues env G os3 = (None, os')"
    by (auto simp: Generate_def Let_def G_def split: prod.splits option.splits)
  note 1 = MkdirAll_files[OF s(1)]
  from s(2) obtain es where es: "render_all env G (gn_templates env) os1 = (es, os2)" "\<forall>e \<in> set es. e = None"
    "rl_ReleaseName (df_Release (to_Defaults (ge_opts G))) \<noteq> []"
    by (auto simp: Render_def join_errors_None_iff split: prod.splits if_splits)
  from assms(2) G have r: "h_root (ge_fh G) = Some r" by simp
  note 2 = render_all_ok[OF es(1,2) r]
  from s(3) have 3: "create_write os2 (ge_fh G) HelmDefaultsFileName (fst (gn_encode env (to_Defaults (ge_opts G)))) = Inr os3"
    "gn_valid env (to_Defaults (ge_opts G)) = None"
    by (auto simp: Save_def split: prod.splits option.splits sum.splits)
  from s(4) have 4: "create_write os3 (ge_fh G) (path_Join [''testdata'', HelmValuesFileName])
      (fst (gn_encode_values env (df_Values (to_Defaults (ge_opts G))))) = Inr os'"
    by (auto simp: CopyValues_def split: prod.splits sum.splits)
  note w = create_write_written[OF 3(1) r] create_write_written[OF 4 r]
  have "abs_segs os3 r = abs_segs os r" "abs_segs os2 r = abs_segs os r" "abs_segs os1 r = abs_segs os r"
    using 1 2 w by (simp_all add: abs_segs_def)
  then have "file_at (os_tree os') = written (abs_segs os r) (generated_files env G) (file_at (os_tree os))"
    using 1 2 w unfolding generated_files_def
    by (simp add: written_append[of _ _ "[_, _]"] written_append[of _ "[_]" "[_]", simplified])
  with es(3) 3(2) 1 2 w show ?thesis by (simp add: G_def named_package_def)
qed

lemmas generate_cwd = generate_footprint[THEN conjunct2, THEN conjunct2, THEN conjunct2, THEN conjunct2]

text \<open>
  C34. A successful generation writes, below the root of its handler, the sources the templates render to with the
  package name filled in, the defaults and the values, and no other file in the whole file system; it needs a
  release name, defaults that are valid and templates that all render.
\<close>
theorem Generate_files:
  assumes "Generate env g os = (None, os')" "h_root (ge_fh g) = Some r"
  shows "file_at (os_tree os') = written (abs_segs os r) (generated_files env (named_package g)) (file_at (os_tree os)) \<and>
    rl_ReleaseName (df_Release (to_Defaults (ge_opts g))) \<noteq> [] \<and> gn_valid env (to_Defaults (ge_opts g)) = None \<and>
    (\<forall>t \<in> set (gn_templates env). has_suffix t ''.gotemplate'' \<longrightarrow> source_of env (named_package g) t \<noteq> None)"
  using generate_footprint[OF assms] by blast

lemma first_error_None:
  "first_error (c # cs) s = Some (None, s') \<longleftrightarrow> (\<exists>s1. c s = Some (None, s1) \<and> first_error cs s1 = Some (None, s'))"
  by (auto simp: Wrap_def split: option.splits)

lemma NewHandler_root: "NewHandler n os root = Some (os', Inr h) \<Longrightarrow> h_root h = Some root \<and> os_cwd os' = os_cwd os"
  by (induction n os root rule: NewHandler.induct) (auto split: sum.splits fnode.splits if_splits)

lemma readValues_keeps:
  assumes "readValues env s = Some (None, s')"
  shows "cs_release s' = cs_release s \<and> cs_outdir s' = cs_outdir s"
  using assms by (auto simp: readValues_def Wrapf_def split: option.splits prod.splits sum.splits)

lemma checkVersion_keeps:
  assumes "checkVersion env s = Some (None, s')"
  shows "cs_outdir s' = cs_outdir s \<and> (\<exists>v. cs_release s' = (cs_release s)\<lparr>rl_Version := v\<rparr> \<and>
     (if rl_Version (cs_release s) \<in> {[], ''latest''}
      then \<exists>w latest. hc_LatestVersion (cr_client env) (cr_ctx env) (cs_release s) (cs_world s) = Some (w, Inr latest) \<and> v = cv_Version latest
      else v = rl_Version (cs_release s)))"
  using assms by (auto simp: checkVersion_def Let_def split: option.splits prod.splits sum.splits if_splits)

lemma vendorChart_keeps:
  assumes "vendorChart env s = Some (None, s')"
  shows "cs_outdir s' = cs_outdir s \<and> cs_release s' = cs_release s \<and>
    (\<exists>reader. hc_VendorRepo (cr_client env) (cr_ctx env) (cs_release s) (cs_world s) = Some (cs_world s', Inr reader))"
  using assms by (auto simp: vendorChart_def Wrapf_def split: option.splits prod.splits sum.splits)

lemma written_last: "written base (files @ [(name, bytes)]) m (base @ below name) = Some bytes"
  by (simp add: written_def)

lemma written_other: "base @ below name \<noteq> q \<Longrightarrow> written base (files @ [(name, bytes)]) m q = written base files m q"
  by (simp add: written_def)

lemma below_names: "below HelmDefaultsFileName = [''chart.defaults.yaml'']"
  "below (path_Join [''testdata'', HelmValuesFileName]) = [''testdata'', ''values.yaml'']"
  by (simp_all add: below_def HelmDefaultsFileName_def HelmValuesFileName_def path_Join_def path_Clean_def path_segs_def
      path_rooted_def root_name_def)

text \<open>
  C31. When the command succeeds, the chart was vendored, and the defaults in the output directory hold the values of the
  vendored chart and the release the user named, in the version the user asked for, or the latest one when the
  user asked for none.
\<close>
theorem create_Run_generates:
  assumes "create_Run env s = Some (None, s')"
  shows "\<exists>w1 reader v. hc_VendorRepo (cr_client env) (cr_ctx env) (cs_release s) (cs_world s) = Some (w1, Inr reader) \<and>
    (if rl_Version (cs_release s) \<in> {[], ''latest''}
     then \<exists>w latest. hc_LatestVersion (cr_client env) (cr_ctx env) (cs_release s) w1 = Some (w, Inr latest) \<and> v = cv_Version latest
     else v = rl_Version (cs_release s)) \<and>
    (let d = \<lparr>df_Values = cs_values s', df_Release = (cs_release s)\<lparr>rl_Version := v\<rparr>, df_Version = []\<rparr>;
         base = abs_segs (w_os (cs_world s')) (cs_outdir s) in
     gn_valid (cr_gen env) d = None \<and>
     file_at (os_tree (w_os (cs_world s'))) (base @ [''chart.defaults.yaml'']) = Some (fst (gn_encode (cr_gen env) d)))"
proof -
  from assms have "first_error [create_Validate env, vendorChart env, checkVersion env, readValues env, generateComponent env] s
      = Some (None, s')"
    unfolding create_Run_def by (simp only: split: option.splits prod.splits) simp
  then obtain s1 s2 s3 where s: "vendorChart env s = Some (None, s1)" "checkVersion env s1 = Some (None, s2)"
    "readValues env s2 = Some (None, s3)" "generateComponent env s3 = Some (None, s')"
    unfolding first_error_None by (auto simp: create_Validate_def)
  from vendorChart_keeps[OF s(1)] obtain reader where 1: "cs_outdir s1 = cs_outdir s" "cs_release s1 = cs_release s"
    "hc_VendorRepo (cr_client env) (cr_ctx env) (cs_release s) (cs_world s) = Some (cs_world s1, Inr reader)" by blast
  from checkVersion_keeps[OF s(2)] obtain v where 2: "cs_outdir s2 = cs_outdir s1" "cs_release s2 = (cs_release s1)\<lparr>rl_Version := v\<rparr>"
    "if rl_Version (cs_release s1) \<in> {[], ''latest''}
     then \<exists>w latest. hc_LatestVersion (cr_client env) (cr_ctx env) (cs_release s1) (cs_world s1) = Some (w, Inr latest) \<and> v = cv_Version latest
     else v = rl_Version (cs_release s1)" by blast
  note 3 = readValues_keeps[OF s(3)]
  define d where "d = \<lparr>df_Values = cs_values s3, df_Release = cs_release s3, df_Version = []\<rparr>"
  from s(4) obtain os gen os' where g: "NewGenerator (cr_fuel env) (w_os (cs_world s3)) d (cs_outdir s3) = Some (os, Inr gen)"
    "Generate (cr_gen env) gen os = (None, os')" "s' = s3\<lparr>cs_world := (cs_world s3)\<lparr>w_os := os'\<rparr>\<rparr>"
    by (auto simp: generateComponent_def d_def split: option.splits prod.splits sum.splits)
  from g(1) obtain fh where fh: "NewHandler (cr_fuel env) (w_os (cs_world s3)) (cs_outdir s3) = Some (os, Inr fh)"
    "ge_fh gen = fh" "to_Defaults (ge_opts gen) = d"
    by (auto simp: NewGenerator_def split: option.splits sum.splits)
  from NewHandler_root[OF fh(1)] fh(2) have root: "h_root (ge_fh gen) = Some (cs_outdir s3)" by simp
  have files: "file_at (os_tree os') = written (abs_segs os (cs_outdir s3)) (generated_files (cr_gen env) (named_package gen)) (file_at (os_tree os))"
    and valid: "gn_valid (cr_gen env) d = None"
    using generate_footprint[OF g(2) root] fh(3) by simp_all
  have "to_Defaults (ge_opts (named_package gen)) = d" using fh(3) by (simp add: named_package_def)
  with files have "file_at (os_tree os') (abs_segs os (cs_outdir s3) @ [''chart.defaults.yaml'']) = Some (fst (gn_encode (cr_gen env) d))"
    unfolding generated_files_def written_append
    by (simp add: written_append[of _ "[_]" "[_]", simplified] written_def below_names)
  moreover have "abs_segs os' (cs_outdir s3) = abs_segs os (cs_outdir s3)" using generate_cwd[OF g(2) root] by (rule same_cwd)
  moreover have "d = \<lparr>df_Values = cs_values s', df_Release = (cs_release s)\<lparr>rl_Version := v\<rparr>, df_Version = []\<rparr>"
    using 1 2 3 g(3) by (simp add: d_def)
  moreover note 2(3)[unfolded 1(2)]
  ultimately show ?thesis using 1 2(1,2) 3 g(3) valid
    by (intro exI[of _ "cs_world s1"] exI[of _ reader] exI[of _ v]) (simp add: Let_def)
qed

section \<open>A generation\<close>

definition demo_gen_env :: generator_env where
  "demo_gen_env = \<lparr>gn_templates = [''component.gotemplate'', ''README''], gn_execute = (\<lambda>_ opts. Inr (''package '' @ to_PackageName opts)),
     gn_format = Inr, gn_encode = (\<lambda>d. (''version: '' @ rl_Version (df_Release d), None)), gn_encode_values = (\<lambda>_. (''{}'', None)),
     gn_valid = (\<lambda>d. if rl_Version (df_Release d) = [] then Some (ErrText ''required'') else None)\<rparr>"

definition demo_release :: "string \<Rightarrow> release" where
  "demo_release v = \<lparr>rl_Name = ''chart'', rl_ReleaseName = ''x'', rl_Repository = ''oci://x'', rl_Version = v\<rparr>"

definition demo_generator :: "(string \<times> jval) list \<Rightarrow> generator" where
  "demo_generator vs = \<lparr>ge_fh = \<lparr>h_root = Some ''/w'', h_fixed = DirN []\<rparr>,
     ge_opts = \<lparr>to_Defaults = \<lparr>df_Values = vs, df_Release = demo_release ''1'', df_Version = []\<rparr>,
       to_PackageName = [], to_DefaultsFile = HelmDefaultsFileName\<rparr>\<rparr>"

lemma demo_file: "rendered_file ''component.gotemplate'' = ''component.go''"
  by (simp add: rendered_file_def replace_all.simps)

lemma no_errors: "join_errors [None] = None"
  by (simp add: join_errors_def)

lemmas demo_defs = no_errors demo_gen_env_def demo_release_def demo_generator_def demo_file

lemma demo_generates:
  "\<exists>os'. Generate demo_gen_env (demo_generator vs) \<lparr>os_tree = DirN ((''w'', DirN []) # es), os_cwd = ''/''\<rparr> = (None, os')"
  by (simp add: Generate_def Render_def Save_def CopyValues_def render_def named_package_def has_suffix_def demo_defs Let_def
      MkdirAll_def create_write_def path_Join_def path_Clean_def path_segs_def path_rooted_def abs_segs_def root_name_def
      HelmDefaultsFileName_def HelmValuesFileName_def)

theorem Generate_files_witness:
  "\<exists>os'. Generate demo_gen_env (demo_generator []) \<lparr>os_tree = DirN [(''w'', DirN [])], os_cwd = ''/''\<rparr> = (None, os') \<and>
     file_at (os_tree os') = written (abs_segs \<lparr>os_tree = DirN [(''w'', DirN [])], os_cwd = ''/''\<rparr> ''/w'')
       (generated_files demo_gen_env (named_package (demo_generator []))) (file_at (DirN [(''w'', DirN [])]))"
proof -
  obtain os' where g: "Generate demo_gen_env (demo_generator []) \<lparr>os_tree = DirN [(''w'', DirN [])], os_cwd = ''/''\<rparr> = (None, os')"
    using demo_generates[of "[]" "[]"] by blast
  from Generate_files[OF g, of "''/w''"] g show ?thesis by (simp add: demo_generator_def)
qed

definition demo_client :: "nat world helm_client" where
  "demo_client = \<lparr>hc_AddRepo = \<lambda>_ _ w. Some (w, None), hc_CurrentVersion = \<lambda>_ _ _. None,
     hc_LatestVersion = \<lambda>_ _ w. Some (w, Inr \<lparr>cv_Name = ''x/chart'', cv_Version = ''2''\<rparr>), hc_ListVersions = \<lambda>_ _ _. None,
     hc_PullRepo = \<lambda>_ _ _. None, hc_TemplateRepo = \<lambda>_ _ _ _. None, hc_UpdateRepo = \<lambda>_ _ w. Some (w, None),
     hc_VendorRepo = \<lambda>_ _ w. Some (w, Inr \<lparr>h_root = Some ''/v'', h_fixed = DirN []\<rparr>)\<rparr>"

definition demo_create :: "nat create_env" where
  "demo_create = \<lparr>cr_client = demo_client, cr_ctx = \<lparr>cx_deadline = None\<rparr>, cr_fuel = 2, cr_valid = \<lambda>_ _. None,
     cr_decode = \<lambda>_. ([(''replicas'', JNil)], None), cr_gen = demo_gen_env\<rparr>"

definition demo_create_os :: os_state where
  "demo_create_os = \<lparr>os_tree = DirN [(''w'', DirN []), (''v'', DirN [(''values.yaml'', FileN ''replicas: 1'')])], os_cwd = ''/''\<rparr>"

definition demo_create_state :: "string \<Rightarrow> nat create_state" where
  "demo_create_state v = \<lparr>cs_reader = None, cs_release = demo_release v, cs_values = [], cs_outdir = ''/w'',
     cs_world = \<lparr>w_os = demo_create_os, w_cdk = 0\<rparr>\<rparr>"

lemma demo_values_utf8: "valid_utf8 ''values.yaml''"
  by (simp add: valid_utf8_def segments_ascii ascii_def rune_error_def)

lemma demo_values_open:
  "handler_Open demo_create_os \<lparr>h_root = Some ''/v'', h_fixed = DirN []\<rparr> ''values.yaml'' = Inr (FileN ''replicas: 1'')"
  "FileExists demo_create_os \<lparr>h_root = Some ''/v'', h_fixed = DirN []\<rparr> ''values.yaml''"
  "valid_path ''values.yaml''"
  using demo_values_utf8
  by (simp_all add: handler_Open_def FileExists_def root_lookup_def root_tree_def fs_open_def valid_path_def demo_create_os_def
      abs_segs_def path_segs_def path_rooted_def root_name_def)

lemma demo_handlers:
  "NewHandler 2 demo_create_os ''/v'' = Some (demo_create_os, Inr \<lparr>h_root = Some ''/v'', h_fixed = DirN []\<rparr>)"
  "NewHandler 2 demo_create_os ''/w'' = Some (demo_create_os, Inr \<lparr>h_root = Some ''/w'', h_fixed = DirN []\<rparr>)"
  by (simp_all add: numeral_2_eq_2 demo_create_os_def abs_segs_def path_segs_def path_rooted_def)

lemma demo_Run:
  "\<exists>s'. create_Run demo_create (demo_create_state ''1'') = Some (None, s')"
proof -
  let ?s = "demo_create_state ''1''"
  let ?h = "\<lparr>h_root = Some ''/v'', h_fixed = DirN []\<rparr>"
  obtain os' where g: "Generate demo_gen_env (demo_generator [(''replicas'', JNil)]) demo_create_os = (None, os')"
    using demo_generates[of "[(''replicas'', JNil)]" "[(''v'', DirN [(''values.yaml'', FileN ''replicas: 1'')])]"]
    by (auto simp: demo_create_os_def)
  have 1: "vendorChart demo_create ?s = Some (None, ?s\<lparr>cs_reader := Some ?h\<rparr>)"
    by (simp add: vendorChart_def demo_create_def demo_client_def demo_create_state_def)
  have 2: "checkVersion demo_create (?s\<lparr>cs_reader := Some ?h\<rparr>) = Some (None, ?s\<lparr>cs_reader := Some ?h\<rparr>)"
    by (simp add: checkVersion_def demo_create_state_def demo_release_def)
  have 3: "readValues demo_create (?s\<lparr>cs_reader := Some ?h\<rparr>) = Some (None, ?s\<lparr>cs_reader := Some ?h, cs_values := [(''replicas'', JNil)]\<rparr>)"
    by (simp add: readValues_def demo_create_def demo_create_state_def HandlerName_def demo_handlers NewFileLoaderFromFS_def
        FileLoader_Values_def HelmValuesFileName_def path_Base_def path_segs_def Let_def demo_values_open YAML_Parse_def YAML_Values_def NewYAMLLoader_def)
  have 4: "generateComponent demo_create (?s\<lparr>cs_reader := Some ?h, cs_values := [(''replicas'', JNil)]\<rparr>) =
      Some (None, ?s\<lparr>cs_reader := Some ?h, cs_values := [(''replicas'', JNil)], cs_world := \<lparr>w_os = os', w_cdk = 0\<rparr>\<rparr>)"
    using g by (simp add: generateComponent_def NewGenerator_def demo_create_def demo_create_state_def demo_handlers demo_generator_def)
  show ?thesis using 1 2 3 4 by (simp add: create_Run_def create_Validate_def demo_create_def)
qed

theorem create_Run_generates_witness:
  "\<exists>s'. create_Run demo_create (demo_create_state ''1'') = Some (None, s') \<and>
     file_at (os_tree (w_os (cs_world s'))) (abs_segs (w_os (cs_world s')) ''/w'' @ [''chart.defaults.yaml'']) = Some ''version: 1''"
proof -
  obtain s' where r: "create_Run demo_create (demo_create_state ''1'') = Some (None, s')" using demo_Run by blast
  from create_Run_generates[OF r] r show ?thesis
    by (auto simp: Let_def demo_create_def demo_create_state_def demo_gen_env_def demo_release_def)
qed

end
