(* ===== verification/Nginx.thy ===== *)
theory Nginx
  imports Bootstrap
begin

text \<open>
  The Nginx controller, crib/composite/cluster-services/nginx-controller/v1/nginxcontroller.go, over the scalars
  crib/scalar/remoteapply/v1 and crib/scalar/k8s/namespace/v1.  Fetching the manifest of a URL is a parameter; it is the list of
  the constructs in it.
\<close>

section \<open>The scalars\<close>

text \<open>A construct of an included manifest; the ones that are not API objects are \<open>None\<close>.\<close>

record api_object =
  ao_ApiVersion :: string
  ao_Kind :: string
  ao_Name :: "string option"
  ao_Removed :: "string list"

type_synonym included = "api_object option list"

text \<open>\<open>url\<close> is the validator's rule; a manifest that cannot be fetched is an exception of cdk8s, \<open>None\<close>.\<close>

definition remoteapply_broken :: "(string \<Rightarrow> bool) \<Rightarrow> string \<Rightarrow> string list" where
  "remoteapply_broken url u = (if u = [] \<or> \<not> url u then [''URL''] else [])"

definition remoteapply_New :: "validator_error \<Rightarrow> (string \<Rightarrow> bool) \<Rightarrow> (string \<Rightarrow> included option) \<Rightarrow> string \<Rightarrow> (goerr + included) option" where
  "remoteapply_New verr url fetch u =
     (case remoteapply_broken url u of [] \<Rightarrow> map_option Inr (fetch u) | fs \<Rightarrow> Some (Inl (verr fs)))"

text \<open>The validator fills in the default namespace; \<open>New\<close> does not validate.\<close>

definition namespace_defaults :: "string \<Rightarrow> string" where
  "namespace_defaults ns = (if ns = [] then ''default'' else ns)"

definition namespace_broken :: "(string \<Rightarrow> bool) \<Rightarrow> string \<Rightarrow> string list" where
  "namespace_broken label ns = (if ns \<noteq> [] \<and> (63 < length ns \<or> \<not> label ns) then [''Namespace''] else [])"

definition namespace_New :: "string \<Rightarrow> api_object" where
  "namespace_New ns = \<lparr>ao_ApiVersion = ''v1'', ao_Kind = ''Namespace'', ao_Name = Some ns, ao_Removed = []\<rparr>"

definition namespace_Component :: "validator_error \<Rightarrow> (string \<Rightarrow> bool) \<Rightarrow> string \<Rightarrow> goerr + api_object" where
  "namespace_Component verr label ns0 =
     (let ns = namespace_defaults ns0 in
      case namespace_broken label ns of [] \<Rightarrow> Inr (namespace_New ns) | fs \<Rightarrow> Inl (verr fs))"

section \<open>The composite\<close>

definition manifestURI :: string where
  "manifestURI = ''https://raw.githubusercontent.com/kubernetes/ingress-nginx/main/deploy/static/provider/kind/deploy.yaml''"

definition runs_anywhere :: "api_object option \<Rightarrow> api_object option" where
  "runs_anywhere obj =
     (case obj of
        None \<Rightarrow> None
      | Some o' \<Rightarrow>
          (if ao_ApiVersion o' = ''apps/v1'' \<and> ao_Kind o' = ''Deployment''
           then Some (o'\<lparr>ao_Removed := ao_Removed o' @ [''/spec/template/spec/tolerations'', ''/spec/template/spec/nodeSelector'']\<rparr>)
           else Some o'))"

text \<open>The name of the first namespace in the manifest; a namespace without a name is a nil dereference.\<close>

fun first_namespace :: "included \<Rightarrow> string option" where
  "first_namespace [] = Some []"
| "first_namespace (None # objs) = first_namespace objs"
| "first_namespace (Some o' # objs) =
     (if ao_ApiVersion o' = ''v1'' \<and> ao_Kind o' = ''Namespace'' then ao_Name o' else first_namespace objs)"

datatype nginx_part = IncludedPart included | NamespacePart api_object | WaitPart csa_component

definition nginx_wait :: "string \<Rightarrow> csa_component" where
  "nginx_wait ns =
     csa_New (apply_props ns ''kubectl''
       [''wait'', ''-n'', ns, ''--for=condition=ready'', ''pod'',
        ''-l='' @ join_with '','' [''app.kubernetes.io/component=controller'', ''app.kubernetes.io/instance=ingress-nginx'',
          ''app.kubernetes.io/name=ingress-nginx''],
        ''--timeout=600s''])"

text \<open>The parts, their dependencies and the namespace of the result, whose component is the chart that holds the parts.\<close>

definition nginxController ::
    "validator_error \<Rightarrow> (string \<Rightarrow> bool) \<Rightarrow> (string \<Rightarrow> included option) \<Rightarrow> (goerr + nginx_part composed \<times> string) option" where
  "nginxController verr url fetch =
     (case remoteapply_New verr url fetch manifestURI of
        None \<Rightarrow> None
      | Some (Inl e) \<Rightarrow> Some (Inl e)
      | Some (Inr objs) \<Rightarrow>
          (let objs = map runs_anywhere objs in
           case first_namespace objs of
             None \<Rightarrow> None
           | Some ns \<Rightarrow>
               Some (Inr (\<lparr>co_parts = [IncludedPart objs, NamespacePart (namespace_New ns), WaitPart (nginx_wait ns)],
                           co_deps = [(0, 1), (2, 0)], co_result = 3\<rparr>, ns))))"

section \<open>What the composite applies\<close>

fun is_namespace :: "api_object option \<Rightarrow> bool" where
  "is_namespace None \<longleftrightarrow> False"
| "is_namespace (Some o') \<longleftrightarrow> ao_ApiVersion o' = ''v1'' \<and> ao_Kind o' = ''Namespace''"

lemma is_namespace_runs [simp]: "is_namespace (runs_anywhere obj) \<longleftrightarrow> is_namespace obj"
  by (cases obj) (auto simp: runs_anywhere_def)

lemma first_namespace_find:
  "first_namespace (map runs_anywhere objs) =
     (case find is_namespace objs of None \<Rightarrow> Some [] | Some obj \<Rightarrow> ao_Name (the obj))"
proof (induction objs)
  case (Cons obj objs)
  show ?case
  proof (cases obj)
    case None
    with Cons.IH show ?thesis by (simp add: runs_anywhere_def)
  next
    case (Some o')
    with Cons.IH show ?thesis by (auto simp: runs_anywhere_def)
  qed
qed simp

lemma wait_last_order:
  assumes "applies c order" "length (co_parts c) = 3" "co_deps c = [(0, 1), (2, 0)]"
  shows "order = [1, 0, 2]"
proof -
  from assms have d: "distinct order" "set order = {..<3}" "before 1 0 order" "before 0 2 order"
    by (simp_all add: applies_def keeps_deps_def)
  then have l: "length order = 3" using distinct_card[of order] by simp
  from before_nth[OF d(3)] obtain i j where i: "i < j" "j < 3" "order ! i = 1" "order ! j = 0" using l by auto
  from before_nth[OF d(4)] obtain k m where k: "k < m" "m < 3" "order ! k = 0" "order ! m = 2" using l by auto
  have "j = k" using d(1) l i k nth_eq_iff_index_eq[of order j k] by simp
  then have "i = 0" "j = 1" "m = 2" using i k by simp_all
  moreover from l obtain x y z where "order = [x, y, z]" by (auto simp: numeral_3_eq_3 length_Suc_conv)
  ultimately show ?thesis using i k by simp
qed

text \<open>
  CX. The Nginx controller is applied in one order only: the namespace, the manifest, the wait for the controller.  The
  namespace is that of the first namespace object of the manifest, which therefore is applied twice; when the
  manifest has none, a namespace without a name is applied.  Of the manifest only the deployments are changed, to run
  on any node.
\<close>
theorem nginx_in_order:
  assumes "nginxController verr url fetch = Some (Inr (c, ns))" "applies c order"
  shows "order = [1, 0, 2] \<and> (\<exists>objs. fetch manifestURI = Some objs \<and>
    co_parts c = [IncludedPart (map runs_anywhere objs), NamespacePart (namespace_New ns), WaitPart (nginx_wait ns)] \<and>
    (case find is_namespace objs of None \<Rightarrow> ns = [] | Some obj \<Rightarrow> ao_Name (the obj) = Some ns))"
proof -
  from assms(1) obtain objs where f: "fetch manifestURI = Some objs" "first_namespace (map runs_anywhere objs) = Some ns"
    and c: "c = \<lparr>co_parts = [IncludedPart (map runs_anywhere objs), NamespacePart (namespace_New ns), WaitPart (nginx_wait ns)],
      co_deps = [(0, 1), (2, 0)], co_result = 3\<rparr>"
    by (auto simp: nginxController_def remoteapply_New_def Let_def split: list.splits option.splits)
  from wait_last_order[OF assms(2)] c have "order = [1, 0, 2]" by simp
  with f c show ?thesis by (auto simp: first_namespace_find split: option.splits)
qed

theorem nginx_in_order_witness:
  "\<exists>c. nginxController (\<lambda>fs. ErrText ''url'') (\<lambda>_. True) (\<lambda>_. Some [None]) = Some (Inr (c, [])) \<and> applies c [1, 0, 2] \<and>
     co_parts c = [IncludedPart [None], NamespacePart (namespace_New []), WaitPart (nginx_wait [])]"
proof -
  obtain c where c: "nginxController (\<lambda>fs. ErrText ''url'') (\<lambda>_. True) (\<lambda>_. Some [None]) = Some (Inr (c, []))" "applies c [1, 0, 2]"
    by (auto simp: nginxController_def remoteapply_New_def remoteapply_broken_def manifestURI_def runs_anywhere_def Let_def
        applies_def keeps_deps_def lessThan_Suc numeral_3_eq_3 numeral_2_eq_2)
  from nginx_in_order[OF this] c show ?thesis by (auto simp: runs_anywhere_def)
qed

end
