(* ===== verification/Fake.thy ===== *)
theory Fake
  imports Workload
begin

text \<open>
  The fake adapter, crib/composite/fake/v1/fake.go: a deployment with one service for each of its ports.  The rule
  \<open>dns_rfc1035_label\<close> of the validator is the parameter \<open>label\<close>; the environment is listed in the order of the range over it.
\<close>

section \<open>The composite\<close>

record fake_props =
  fk_Namespace :: string
  fk_AppInstanceName :: string
  fk_Image :: string
  fk_ImagePullPolicy :: string
  fk_Command :: "string list option"
  fk_Args :: "string list option"
  fk_EnvVars :: "(string \<times> string) list"
  fk_Ports :: "container_port list"
  fk_Replicas :: int

text \<open>The defaults of the tags, which validation fills in, and the rules.\<close>

definition fake_defaults :: "fake_props \<Rightarrow> fake_props" where
  "fake_defaults p =
     p\<lparr>fk_ImagePullPolicy := (if fk_ImagePullPolicy p = [] then ''IfNotPresent'' else fk_ImagePullPolicy p),
       fk_Ports := map (\<lambda>q. if cpt_Protocol q = [] then q\<lparr>cpt_Protocol := ''TCP''\<rparr> else q) (fk_Ports p),
       fk_Replicas := (if fk_Replicas p = 0 then 1 else fk_Replicas p)\<rparr>"

definition fake_port_broken :: "(string \<Rightarrow> bool) \<Rightarrow> container_port \<Rightarrow> string list" where
  "fake_port_broken label q =
     (if cpt_Name q = [] \<or> 63 < length (cpt_Name q) \<or> \<not> label (cpt_Name q) then [''Name''] else [])
     @ (if cpt_Protocol q \<in> {''TCP'', ''UDP''} then [] else [''Protocol''])
     @ (if 1 \<le> cpt_ContainerPort q \<and> cpt_ContainerPort q \<le> 65535 then [] else [''ContainerPort''])"

definition fake_broken :: "(string \<Rightarrow> bool) \<Rightarrow> fake_props \<Rightarrow> string list" where
  "fake_broken label p =
     missing [(''Namespace'', fk_Namespace p), (''AppInstanceName'', fk_AppInstanceName p), (''Image'', fk_Image p)]
     @ (if fk_ImagePullPolicy p \<in> {''Always'', ''IfNotPresent'', ''Never''} then [] else [''ImagePullPolicy''])
     @ concat (map (fake_port_broken label) (fk_Ports p))"

definition convertToK8sPorts :: "container_port list \<Rightarrow> k8s_container_port list" where
  "convertToK8sPorts ports =
     map (\<lambda>q. \<lparr>kp_Name = Some (cpt_Name q), kp_ContainerPort = Some (to_float64 (cpt_ContainerPort q)),
       kp_Protocol = Some (cpt_Protocol q)\<rparr>) ports"

text \<open>The deployment, with the user and the group its pods run as.\<close>

record fake_pods = kube_pods +
  fk_RunAsUser :: "int option"
  fk_RunAsGroup :: "int option"

definition fake_labels :: "fake_props \<Rightarrow> (string \<times> string option) list" where
  "fake_labels p = [(''app.kubernetes.io/name'', Some ''fake''), (''app.kubernetes.io/instance'', Some (fk_AppInstanceName p))]"

definition fake_container :: "fake_props \<Rightarrow> k8s_container" where
  "fake_container p =
     \<lparr>kc_Name = Some ''fake-ea'', kc_Image = Some (fk_Image p), kc_ImagePullPolicy = Some (fk_ImagePullPolicy p),
       kc_Command = PtrSlice (fk_Command p), kc_Args = PtrSlice (fk_Args p), kc_Ports = Some (convertToK8sPorts (fk_Ports p)),
       kc_Env = Some (map (\<lambda>(key, v). \<lparr>ke_Name = Some key, ke_Value = Some v\<rparr>) (fk_EnvVars p)),
       kc_VolumeMounts = None, kc_Resources = None,
       kc_SecurityContext = \<lparr>ks_RunAsUser = Some 1000, ks_RunAsGroup = Some 1000, ks_RunAsNonRoot = Some True\<rparr>\<rparr>"

definition fake_deployment :: "fake_props \<Rightarrow> fake_pods" where
  "fake_deployment p =
     \<lparr>kd_meta = \<lparr>om_Name = Some (fk_AppInstanceName p), om_Namespace = Some (fk_Namespace p), om_Labels = Some (fake_labels p),
         om_Annotations = None\<rparr>,
       kd_selector = Some (fake_labels p), kd_replicas = to_float64 (fk_Replicas p), kd_templateLabels = Some (fake_labels p),
       kd_containers = Some [fake_container p], kd_volumes = None, kd_RunAsNonRoot = Some True, kd_FsGroup = None,
       kd_serviceName = None, kd_claims = None, fk_RunAsUser = Some 1000, fk_RunAsGroup = Some 1000\<rparr>"

definition fake_service :: "fake_props \<Rightarrow> container_port \<Rightarrow> service_props" where
  "fake_service p q =
     \<lparr>sr_Namespace = fk_Namespace p, sr_AppName = ''fake'', sr_AppInstance = fk_AppInstanceName p,
       sr_Name = fk_AppInstanceName p @ ''-'' @ cpt_Name q, sr_Selector = fake_labels p, sr_ServiceType = ''ClusterIP'',
       sr_Ports = [Some \<lparr>sp_Name = Some (cpt_Name q), sp_Port = Some (to_float64 (cpt_ContainerPort q)),
         sp_Protocol = Some (cpt_Protocol q), sp_NodePort = None, sp_TargetPort = Some (show_int (to_float64 (cpt_ContainerPort q)))\<rparr>]\<rparr>"

fun fake_services :: "validator_error \<Rightarrow> fake_props \<Rightarrow> container_port list \<Rightarrow> goerr + kube_service list" where
  "fake_services verr p [] = Inr []"
| "fake_services verr p (q # qs) =
     (case service_New verr (fake_service p q) of
        Inl e \<Rightarrow> Inl (WrapErr (''failed to create service for port '' @ cpt_Name q) e)
      | Inr s \<Rightarrow> (case fake_services verr p qs of Inl e \<Rightarrow> Inl e | Inr ss \<Rightarrow> Inr (s # ss)))"

definition fake :: "validator_error \<Rightarrow> fake_props \<Rightarrow> goerr + fake_pods \<times> kube_service list" where
  "fake verr p = map_sum (\<lambda>e. e) (Pair (fake_deployment p)) (fake_services verr p (fk_Ports p))"

definition fake_Component :: "validator_error \<Rightarrow> (string \<Rightarrow> bool) \<Rightarrow> fake_props \<Rightarrow> goerr + fake_pods \<times> kube_service list" where
  "fake_Component verr label p0 =
     (let p = fake_defaults p0 in case fake_broken label p of [] \<Rightarrow> fake verr p | fs \<Rightarrow> Inl (verr fs))"

section \<open>How it is served\<close>

lemma fake_services_nth:
  "fake_services verr p qs = Inr ss \<Longrightarrow>
     length ss = length qs \<and> (\<forall>i < length qs. service_New verr (fake_service p (qs ! i)) = Inr (ss ! i))"
proof (induction qs arbitrary: ss)
  case (Cons q qs)
  then obtain s ss' where s: "service_New verr (fake_service p q) = Inr s" "fake_services verr p qs = Inr ss'" "ss = s # ss'"
    by (auto split: sum.splits)
  from Cons.IH[OF s(2)] s show ?case by (auto simp: nth_Cons split: nat.splits)
qed simp

text \<open>
  CX. The fake adapter is served at all its ports: it is deployed with a container port of its own for each of them, and
  the service at the same position, named after the instance and the port, selects its pods and forwards the
  port to that container port.
\<close>
theorem fake_served:
  assumes "fake_Component verr label p = Inr (d, ss)"
  shows "\<exists>c ports. kd_containers d = Some [c] \<and> kc_Ports c = Some ports \<and> length ports = length (fk_Ports p) \<and> length ss = length ports \<and>
    selects (the (kd_selector d)) (the (kd_templateLabels d)) \<and>
    (\<forall>i < length ports. 1 \<le> cpt_ContainerPort (fk_Ports p ! i) \<and> cpt_ContainerPort (fk_Ports p ! i) \<le> 65535 \<and>
       kp_ContainerPort (ports ! i) = Some (cpt_ContainerPort (fk_Ports p ! i)) \<and>
       selects (sv_selector (ss ! i)) (the (kd_templateLabels d)) \<and>
       om_Name (sv_meta (ss ! i)) = Some (fk_AppInstanceName p @ ''-'' @ cpt_Name (fk_Ports p ! i)) \<and>
       om_Namespace (sv_meta (ss ! i)) = om_Namespace (kd_meta d) \<and>
       (\<exists>q. sv_ports (ss ! i) = [Some q] \<and> sp_Port q = kp_ContainerPort (ports ! i) \<and>
          sp_TargetPort q = Some (show_int (cpt_ContainerPort (fk_Ports p ! i))) \<and> sp_Protocol q = kp_Protocol (ports ! i)))"
proof -
  define P where "P = fake_defaults p"
  from assms have f: "fake_broken label P = []" "d = fake_deployment P" "fake_services verr P (fk_Ports P) = Inr ss"
    by (auto simp: fake_Component_def fake_def P_def Let_def map_sum_eq_Inr split: list.splits)
  note s = fake_services_nth[OF f(3)]
  have P: "length (fk_Ports P) = length (fk_Ports p)" "fk_AppInstanceName P = fk_AppInstanceName p"
    "\<And>i. i < length (fk_Ports p) \<Longrightarrow> cpt_ContainerPort (fk_Ports P ! i) = cpt_ContainerPort (fk_Ports p ! i) \<and> cpt_Name (fk_Ports P ! i) = cpt_Name (fk_Ports p ! i)"
    by (simp_all add: P_def fake_defaults_def)
  have range: "1 \<le> cpt_ContainerPort (fk_Ports P ! i) \<and> cpt_ContainerPort (fk_Ports P ! i) \<le> 65535" if "i < length (fk_Ports P)" for i
  proof -
    from f(1) that have "fake_port_broken label (fk_Ports P ! i) = []" by (auto simp: fake_broken_def)
    then show ?thesis by (simp add: fake_port_broken_def split: if_splits)
  qed
  have port: "to_float64 (cpt_ContainerPort (fk_Ports P ! i)) = cpt_ContainerPort (fk_Ports p ! i)" if "i < length (fk_Ports p)" for i
    using range[of i] P that by (simp add: to_float64_exact exact_def)
  have own: "selects (fake_labels P) (fake_labels P)" by (simp add: selects_def fake_labels_def)
  have each: "sv_selector (ss ! i) = fake_labels P \<and> sv_ports (ss ! i) = sr_Ports (fake_service P (fk_Ports P ! i)) \<and>
     om_Name (sv_meta (ss ! i)) = Some (sr_Name (fake_service P (fk_Ports P ! i))) \<and> om_Namespace (sv_meta (ss ! i)) = Some (fk_Namespace P)"
    if "i < length (fk_Ports P)" for i
  proof -
    from s that have n: "service_New verr (fake_service P (fk_Ports P ! i)) = Inr (ss ! i)" by simp
    then have "service_broken (fake_service P (fk_Ports P ! i)) = []" by (simp add: service_New_iff split: if_splits)
    with n have "ss ! i = \<lparr>sv_meta = K8sResourceMetadata (metadata_of (fk_Namespace P) ''fake'' (fk_AppInstanceName P) (sr_Name (fake_service P (fk_Ports P ! i)))),
        sv_type = ''ClusterIP'', sv_ports = sr_Ports (fake_service P (fk_Ports P ! i)), sv_selector = fake_labels P,
        sv_props = fake_service P (fk_Ports P ! i)\<rparr>"
      by (simp add: service_New_iff fake_service_def)
    moreover have "sr_Name (fake_service P (fk_Ports P ! i)) \<noteq> []" by (simp add: fake_service_def)
    ultimately show ?thesis by (simp add: K8sResourceMetadata_def metadata_of_def)
  qed
  let ?ports = "convertToK8sPorts (fk_Ports P)"
  have "kd_containers d = Some [fake_container P]" "kc_Ports (fake_container P) = Some ?ports" "length ?ports = length (fk_Ports p)"
    "length ss = length ?ports" "kd_selector d = Some (fake_labels P)" "kd_templateLabels d = Some (fake_labels P)"
    "om_Namespace (kd_meta d) = Some (fk_Namespace P)"
    using s P by (simp_all add: f(2) fake_deployment_def fake_container_def convertToK8sPorts_def)
  with each own port range P show ?thesis
    by (intro exI[of _ "fake_container P"] exI[of _ ?ports]) (simp add: fake_service_def convertToK8sPorts_def)
qed

definition demo_fake :: fake_props where
  "demo_fake = \<lparr>fk_Namespace = ''dev'', fk_AppInstanceName = ''ea'', fk_Image = ''fake:1'', fk_ImagePullPolicy = [], fk_Command = None,
     fk_Args = None, fk_EnvVars = [], fk_Ports = [\<lparr>cpt_Name = ''http'', cpt_Protocol = [], cpt_ContainerPort = 8080\<rparr>], fk_Replicas = 0\<rparr>"

theorem fake_served_witness:
  "\<exists>d s. fake_Component (\<lambda>fs. ErrText ''invalid'') (\<lambda>_. True) demo_fake = Inr (d, [s]) \<and>
     selects (sv_selector s) (the (kd_templateLabels d)) \<and> om_Name (sv_meta s) = Some ''ea-http''"
proof -
  obtain d s where f: "fake_Component (\<lambda>fs. ErrText ''invalid'') (\<lambda>_. True) demo_fake = Inr (d, [s])"
    by (auto simp: fake_Component_def fake_def fake_defaults_def demo_fake_def fake_broken_def fake_port_broken_def missing_def
        service_New_iff service_broken_def fake_service_def fake_labels_def Let_def)
  from fake_served[OF f] have "selects (sv_selector s) (the (kd_templateLabels d)) \<and> om_Name (sv_meta s) = Some ''ea-http''"
    by (elim exE conjE) (drule spec[of _ 0], simp add: demo_fake_def)
  with f show ?thesis by blast
qed

end
