(* ===== verification/WorkloadMethods.thy ===== *)
theory WorkloadMethods
  imports Workload
begin

text \<open>
  The composites behind \<open>Workload\<close>: the structs \<open>DeploymentComposite\<close> and \<open>StatefulSetComposite\<close> of
  crib/composite/deployment and crib/composite/statefulset with their methods, which implement the interface
  \<open>WorkloadResource\<close> of crib/composite/workload.  \<open>Workload\<close> computes with the record of what the methods return;
  the locale states the contract of the interface, and \<open>deployment_is_view\<close>, \<open>statefulset_is_view\<close> that the record is
  what the methods of the composite return.
\<close>

section \<open>The structs and their methods\<close>

record deployment_composite =
  dc_Component :: string
  dc_props :: deployment_props
  dc_ctx :: string
  dc_selectorLabels :: "(string \<times> string option) list option"

definition deployment_GetAppName :: "deployment_composite \<Rightarrow> string" where
  "deployment_GetAppName d = dp_AppName (dc_props d)"

definition deployment_GetResourceType :: "deployment_composite \<Rightarrow> string" where
  "deployment_GetResourceType d = ''deployment''"

definition deployment_GetContainers :: "deployment_composite \<Rightarrow> container option list" where
  "deployment_GetContainers d = dp_Containers (dc_props d)"

definition deployment_GetLabelsSelector :: "deployment_composite \<Rightarrow> (string \<times> string option) list" where
  "deployment_GetLabelsSelector d = FromPtr [] (dc_selectorLabels d)"

definition deployment_GetNamespace :: "deployment_composite \<Rightarrow> string" where
  "deployment_GetNamespace d = dp_Namespace (dc_props d)"

definition deployment_GetAppInstance :: "deployment_composite \<Rightarrow> string" where
  "deployment_GetAppInstance d = dp_AppInstance (dc_props d)"

definition deployment_GetName :: "deployment_composite \<Rightarrow> string" where
  "deployment_GetName d = dp_Name (dc_props d)"

definition deployment_GetComponent :: "deployment_composite \<Rightarrow> string" where
  "deployment_GetComponent d = dc_Component d"

record statefulset_composite =
  sc_Component :: string
  sc_ctx :: string
  sc_props :: statefulset_props
  sc_selectorLabels :: "(string \<times> string option) list option"

definition statefulset_GetAppName :: "statefulset_composite \<Rightarrow> string" where
  "statefulset_GetAppName s = ss_AppName (sc_props s)"

definition statefulset_GetResourceType :: "statefulset_composite \<Rightarrow> string" where
  "statefulset_GetResourceType s = ''statefulset''"

definition statefulset_GetNamespace :: "statefulset_composite \<Rightarrow> string" where
  "statefulset_GetNamespace s = ss_Namespace (sc_props s)"

definition statefulset_GetAppInstance :: "statefulset_composite \<Rightarrow> string" where
  "statefulset_GetAppInstance s = ss_AppInstance (sc_props s)"

definition statefulset_GetName :: "statefulset_composite \<Rightarrow> string" where
  "statefulset_GetName s = ss_Name (sc_props s)"

definition statefulset_GetComponent :: "statefulset_composite \<Rightarrow> string" where
  "statefulset_GetComponent s = sc_Component s"

definition statefulset_GetContainers :: "statefulset_composite \<Rightarrow> container option list" where
  "statefulset_GetContainers s = ss_Containers (sc_props s)"

text \<open>The pointer is dereferenced: \<open>None\<close> is a panic.\<close>

definition statefulset_GetLabelsSelector :: "statefulset_composite \<Rightarrow> (string \<times> string option) list option" where
  "statefulset_GetLabelsSelector s = sc_selectorLabels s"

section \<open>The interface\<close>

text \<open>What the functions of the workload package see of a resource.\<close>

definition deployment_view :: "deployment_composite \<Rightarrow> workload" where
  "deployment_view d =
     \<lparr>wl_Namespace = deployment_GetNamespace d, wl_AppInstance = deployment_GetAppInstance d, wl_Name = deployment_GetName d,
       wl_Component = deployment_GetComponent d, wl_Containers = deployment_GetContainers d,
       wl_LabelsSelector = deployment_GetLabelsSelector d, wl_ResourceType = deployment_GetResourceType d,
       wl_AppName = deployment_GetAppName d\<rparr>"

definition statefulset_view :: "statefulset_composite \<Rightarrow> workload option" where
  "statefulset_view s =
     map_option
       (\<lambda>labels.
         \<lparr>wl_Namespace = statefulset_GetNamespace s, wl_AppInstance = statefulset_GetAppInstance s, wl_Name = statefulset_GetName s,
           wl_Component = statefulset_GetComponent s, wl_Containers = statefulset_GetContainers s,
           wl_LabelsSelector = labels, wl_ResourceType = statefulset_GetResourceType s, wl_AppName = statefulset_GetAppName s\<rparr>)
       (statefulset_GetLabelsSelector s)"

text \<open>The operations of the composites are those of the package on the composite.\<close>

definition deployment_ExposeViaService ::
    "validator_error \<Rightarrow> deployment_composite \<Rightarrow> expose_service option \<Rightarrow> (goerr + kube_service) option" where
  "deployment_ExposeViaService verr d options = ExposeViaService verr (deployment_view d) options"

definition deployment_ExposeViaIngress ::
    "validator_error \<Rightarrow> deployment_composite \<Rightarrow> string \<Rightarrow> expose_ingress option \<Rightarrow> (goerr + kube_service \<times> kube_ingress) option" where
  "deployment_ExposeViaIngress verr d path options = ExposeViaIngress verr (deployment_view d) path options"

definition deployment_WaitForRollout :: "deployment_composite \<Rightarrow> csa_component" where
  "deployment_WaitForRollout d = WaitForRollout (deployment_view d)"

definition statefulset_WaitForRollout :: "statefulset_composite \<Rightarrow> csa_component option" where
  "statefulset_WaitForRollout s = map_option WaitForRollout (statefulset_view s)"

text \<open>The component functions validate before they create, which validates again.\<close>

definition deployment_Component ::
    "validator_error \<Rightarrow> string \<Rightarrow> deployment_props \<Rightarrow> (goerr + workload \<times> kube_pods) option" where
  "deployment_Component verr chart p = (case deployment_broken p of [] \<Rightarrow> deployment verr chart p | fs \<Rightarrow> Some (Inl (verr fs)))"

definition statefulset_Component ::
    "validator_error \<Rightarrow> string \<Rightarrow> statefulset_props \<Rightarrow> (goerr + workload \<times> kube_pods) option" where
  "statefulset_Component verr chart p = (case statefulset_broken p of [] \<Rightarrow> statefulset verr chart p | fs \<Rightarrow> Some (Inl (verr fs)))"

text \<open>The structs that the creating functions return.\<close>

definition deployment_struct :: "string \<Rightarrow> deployment_props \<Rightarrow> deployment_composite" where
  "deployment_struct chart p =
     \<lparr>dc_Component = chart, dc_props = p, dc_ctx = chart,
       dc_selectorLabels = SelectorLabels (metadata_of (dp_Namespace p) (dp_AppName p) (dp_AppInstance p) (dp_Name p))\<rparr>"

definition statefulset_struct :: "string \<Rightarrow> statefulset_props \<Rightarrow> statefulset_composite" where
  "statefulset_struct chart p =
     \<lparr>sc_Component = chart, sc_ctx = chart, sc_props = p,
       sc_selectorLabels = SelectorLabels (metadata_of (ss_Namespace p) (ss_AppName p) (ss_AppInstance p) (ss_Name p))\<rparr>"

lemmas deployment_methods = deployment_GetAppName_def deployment_GetResourceType_def deployment_GetContainers_def
  deployment_GetLabelsSelector_def deployment_GetNamespace_def deployment_GetAppInstance_def deployment_GetName_def
  deployment_GetComponent_def

lemmas statefulset_methods = statefulset_GetAppName_def statefulset_GetResourceType_def statefulset_GetContainers_def
  statefulset_GetLabelsSelector_def statefulset_GetNamespace_def statefulset_GetAppInstance_def statefulset_GetName_def
  statefulset_GetComponent_def

lemma Component_validates_once:
  "deployment_Component verr chart p = deployment verr chart p" "statefulset_Component verr chart q = statefulset verr chart q"
  by (simp_all add: deployment_Component_def statefulset_Component_def deployment_def statefulset_def split: list.splits)

lemma deployment_is_view:
  assumes "deployment_Component verr chart p = Some (Inr (w, k))"
  shows "w = deployment_view (deployment_struct chart p)" "deployment_broken p = []" "None \<notin> set (dp_Containers p)"
proof -
  from assms have d: "deployment verr chart p = Some (Inr (w, k))" by (simp add: Component_validates_once)
  then show b: "deployment_broken p = []" by (auto simp: deployment_def split: list.splits)
  from d show "w = deployment_view (deployment_struct chart p)"
    by (auto simp: deployment_ok[OF b] deployment_view_def deployment_struct_def deployment_methods SelectorLabels_of FromPtr_def
        split: option.splits)
  from d show "None \<notin> set (dp_Containers p)"
    using ConvertContainers_None_iff[of "dp_Containers p"] by (auto simp: deployment_ok[OF b] split: option.splits)
qed

lemma statefulset_is_view:
  assumes "statefulset_Component verr chart p = Some (Inr (w, k))"
  shows "statefulset_view (statefulset_struct chart p) = Some w" "statefulset_broken p = []" "None \<notin> set (ss_Containers p)"
proof -
  from assms have d: "statefulset verr chart p = Some (Inr (w, k))" by (simp add: Component_validates_once)
  then show b: "statefulset_broken p = []" by (auto simp: statefulset_def split: list.splits)
  have f: "NewMetadataFactory verr (metadata_of (ss_Namespace p) (ss_AppName p) (ss_AppInstance p) (ss_Name p))
      = Inr (metadata_of (ss_Namespace p) (ss_AppName p) (ss_AppInstance p) (ss_Name p))"
    using b by (intro NewMetadataFactory_ok) (simp_all add: statefulset_broken_def missing_Nil_iff)
  from d show "statefulset_view (statefulset_struct chart p) = Some w" "None \<notin> set (ss_Containers p)"
    using ConvertContainers_None_iff[of "ss_Containers p"]
    by (auto simp: statefulset_def b f statefulset_view_def statefulset_struct_def statefulset_methods SelectorLabels_of Let_def
        split: option.splits sum.splits)
qed

section \<open>The contract of the interface\<close>

text \<open>
  The laws a resource owes the package once it has been created; \<open>created\<close> is the invariant of its type and \<open>seen\<close> the
  record of its methods.
\<close>

locale workload_resource =
  fixes seen :: "'w \<Rightarrow> workload" and created :: "'w \<Rightarrow> bool"
  assumes named: "created w \<Longrightarrow>
      wl_Namespace (seen w) \<noteq> [] \<and> wl_AppName (seen w) \<noteq> [] \<and> wl_AppInstance (seen w) \<noteq> [] \<and> wl_Name (seen w) \<noteq> []"
    and selects: "created w \<Longrightarrow>
      wl_LabelsSelector (seen w) = [(label_instance, Some (wl_AppInstance (seen w))), (label_name, Some (wl_AppName (seen w)))]"
    and no_nil: "created w \<Longrightarrow> None \<notin> set (wl_Containers (seen w))"
begin

lemma selector_ok: "created w \<Longrightarrow> wl_LabelsSelector (seen w) \<noteq> [] \<and> None \<notin> set (map snd (wl_LabelsSelector (seen w)))"
  by (simp add: selects)

lemma exposed:
  assumes "created w" "es_ServiceType opts \<noteq> []" "es_Ports opts \<noteq> [] \<or> container_ports (seen w) \<noteq> []" "None \<notin> set (es_Ports opts)"
  shows "\<exists>s. ExposeViaService verr (seen w) (Some opts) = Some (Inr s) \<and> sv_selector s = wl_LabelsSelector (seen w) \<and>
    om_Namespace (sv_meta s) = Some (wl_Namespace (seen w)) \<and>
    sv_ports s = (if es_Ports opts = [] then map port_of_container (container_ports (seen w)) else es_Ports opts)"
proof -
  let ?ports = "if es_Ports opts = [] then map port_of_container (container_ports (seen w)) else es_Ports opts"
  have p: "service_ports (seen w) opts = Some ?ports"
    using service_ports_default[of opts "seen w"] no_nil[OF assms(1)] by (simp add: service_ports_def)
  have "?ports \<noteq> []" "None \<notin> set ?ports" using assms(3,4) by (auto simp: port_of_container_def)
  then have "service_broken (service_props_of (seen w) opts ?ports) = []"
    using named[OF assms(1)] selector_ok[OF assms(1)] assms(2)
    by (simp add: service_broken_def service_props_of_def missing_Nil_iff)
  with p show ?thesis
    by (simp add: ExposeViaService_Some service_New_iff service_props_of_def metadata_of_def K8sResourceMetadata_def)
qed

lemma rollout_args:
  assumes "created w"
  shows "cc_Args (WaitForRollout (seen w)) = [''kubectl'', ''rollout'', ''status'', wl_ResourceType (seen w), ''-l'',
    ''app.kubernetes.io/instance='' @ wl_AppInstance (seen w), ''--timeout=600s'']"
  by (simp add: WaitForRollout_def csa_New_def Let_def)

end

definition deployment_created :: "deployment_composite \<Rightarrow> bool" where
  "deployment_created d \<longleftrightarrow> d = deployment_struct (dc_Component d) (dc_props d) \<and> deployment_broken (dc_props d) = [] \<and>
     None \<notin> set (dp_Containers (dc_props d))"

definition statefulset_created :: "statefulset_composite \<Rightarrow> bool" where
  "statefulset_created s \<longleftrightarrow> s = statefulset_struct (sc_Component s) (sc_props s) \<and> statefulset_broken (sc_props s) = [] \<and>
     None \<notin> set (ss_Containers (sc_props s))"

lemma deployment_created_fields:
  assumes "deployment_created d"
  shows "dp_Namespace (dc_props d) \<noteq> []" "dp_AppName (dc_props d) \<noteq> []" "dp_AppInstance (dc_props d) \<noteq> []" "dp_Name (dc_props d) \<noteq> []"
    "dc_selectorLabels d = Some [(label_instance, Some (dp_AppInstance (dc_props d))), (label_name, Some (dp_AppName (dc_props d)))]"
proof -
  from assms have "d = deployment_struct (dc_Component d) (dc_props d)" by (simp add: deployment_created_def)
  then show "dc_selectorLabels d = Some [(label_instance, Some (dp_AppInstance (dc_props d))), (label_name, Some (dp_AppName (dc_props d)))]"
    by (metis deployment_struct_def SelectorLabels_of deployment_composite.select_convs(4))
qed (use assms in \<open>auto simp: deployment_created_def deployment_broken_def missing_Nil_iff\<close>)

lemma statefulset_created_fields:
  assumes "statefulset_created s"
  shows "ss_Namespace (sc_props s) \<noteq> []" "ss_AppName (sc_props s) \<noteq> []" "ss_AppInstance (sc_props s) \<noteq> []" "ss_Name (sc_props s) \<noteq> []"
    "sc_selectorLabels s = Some [(label_instance, Some (ss_AppInstance (sc_props s))), (label_name, Some (ss_AppName (sc_props s)))]"
proof -
  from assms have "s = statefulset_struct (sc_Component s) (sc_props s)" by (simp add: statefulset_created_def)
  then show "sc_selectorLabels s = Some [(label_instance, Some (ss_AppInstance (sc_props s))), (label_name, Some (ss_AppName (sc_props s)))]"
    by (metis statefulset_struct_def SelectorLabels_of statefulset_composite.select_convs(4))
qed (use assms in \<open>auto simp: statefulset_created_def statefulset_broken_def missing_Nil_iff\<close>)

interpretation dpl: workload_resource deployment_view deployment_created
  by unfold_locales
    (auto simp: deployment_view_def deployment_methods deployment_created_fields FromPtr_def deployment_created_def)

interpretation sts: workload_resource "\<lambda>s. the (statefulset_view s)" statefulset_created
  by unfold_locales
    (auto simp: statefulset_view_def statefulset_methods statefulset_created_fields statefulset_created_def)

text \<open>The pods carry the labels that both selectors ask for.\<close>

lemma pods_selected:
  assumes "deployment_Component verr chart p = Some (Inr (w, k)) \<or> statefulset_Component verr chart q = Some (Inr (w, k))"
    and "ExposeViaService verr w options = Some (Inr s)"
  shows "\<exists>labels sel. kd_templateLabels k = Some labels \<and> kd_selector k = Some sel \<and> sel \<noteq> [] \<and> selects sel labels \<and>
    selects (sv_selector s) labels"
proof -
  have a: "deployment verr chart p = Some (Inr (w, k)) \<or> statefulset verr chart q = Some (Inr (w, k))"
    using assms(1) by (simp add: Component_validates_once)
  moreover from a have "\<exists>labels sel. kd_templateLabels k = Some labels \<and> kd_selector k = Some sel \<and> sel \<noteq> []"
  proof
    assume "statefulset verr chart q = Some (Inr (w, k))"
    from statefulset_labels[OF this] show ?thesis unfolding SelectorLabels_of by (metis list.distinct(1))
  next
    assume d: "deployment verr chart p = Some (Inr (w, k))"
    then have "deployment_broken p = []" by (auto simp: deployment_def split: list.splits)
    from d[unfolded deployment_ok[OF this]] show ?thesis by (auto split: option.splits)
  qed
  ultimately show ?thesis using exposed_pods_are_selected[OF a assms(2)] by auto
qed

text \<open>
  C37. What a component function creates keeps the contract: a deployment or stateful set that was created is the struct
  whose methods return what the package computes with, and exposing it with a type of service and a port, of its own or
  of a container, succeeds; the labels of its pods meet the selector of the service and its own, neither of them empty.
\<close>
theorem created_is_exposed:
  assumes "deployment_Component verr chart p = Some (Inr (w, k)) \<or> statefulset_Component verr chart q = Some (Inr (w, k))"
    and "es_ServiceType opts \<noteq> []" "es_Ports opts \<noteq> [] \<or> container_ports w \<noteq> []" "None \<notin> set (es_Ports opts)"
  shows "(w = deployment_view (deployment_struct chart p) \<or> statefulset_view (statefulset_struct chart q) = Some w) \<and>
    (\<exists>s labels sel. ExposeViaService verr w (Some opts) = Some (Inr s) \<and>
      sv_ports s = (if es_Ports opts = [] then map port_of_container (container_ports w) else es_Ports opts) \<and>
      kd_templateLabels k = Some labels \<and> kd_selector k = Some sel \<and> sel \<noteq> [] \<and> selects sel labels \<and>
      sv_selector s \<noteq> [] \<and> selects (sv_selector s) labels)"
proof -
  have "(w = deployment_view (deployment_struct chart p) \<or> statefulset_view (statefulset_struct chart q) = Some w) \<and>
    (\<exists>s. ExposeViaService verr w (Some opts) = Some (Inr s) \<and> sv_selector s = wl_LabelsSelector w \<and> wl_LabelsSelector w \<noteq> [] \<and>
      sv_ports s = (if es_Ports opts = [] then map port_of_container (container_ports w) else es_Ports opts))"
    using assms(1)
  proof
    assume a: "deployment_Component verr chart p = Some (Inr (w, k))"
    note v = deployment_is_view[OF a]
    then have "deployment_created (deployment_struct chart p)" by (simp add: deployment_created_def deployment_struct_def)
    from dpl.exposed[OF this assms(2), of verr] dpl.selector_ok[OF this] v(1) assms(3,4) show ?thesis by blast
  next
    assume a: "statefulset_Component verr chart q = Some (Inr (w, k))"
    note v = statefulset_is_view[OF a]
    then have c: "statefulset_created (statefulset_struct chart q)" by (simp add: statefulset_created_def statefulset_struct_def)
    from sts.exposed[OF c assms(2), unfolded v(1) option.sel, of verr] sts.selector_ok[OF c, unfolded v(1) option.sel] v(1) assms(3,4)
    show ?thesis by blast
  qed
  then obtain s where s: "ExposeViaService verr w (Some opts) = Some (Inr s)" "sv_selector s \<noteq> []"
    "sv_ports s = (if es_Ports opts = [] then map port_of_container (container_ports w) else es_Ports opts)"
    and w: "w = deployment_view (deployment_struct chart p) \<or> statefulset_view (statefulset_struct chart q) = Some w" by metis
  from pods_selected[OF assms(1) s(1)] s w show ?thesis by blast
qed

theorem created_is_exposed_witness:
  "\<exists>w k s labels. deployment_Component demo_verr ''c0'' demo_deployment = Some (Inr (w, k)) \<and>
     ExposeViaService demo_verr w (Some \<lparr>es_Name = [], es_ServiceType = ''ClusterIP'', es_Ports = []\<rparr>) = Some (Inr s) \<and>
     kd_templateLabels k = Some labels \<and> selects (sv_selector s) labels"
proof -
  from demo_deployed obtain w k where d: "deployment demo_verr ''c0'' demo_deployment = Some (Inr (w, k))"
    "container_ports w = ct_Ports demo_container" by blast
  then have c: "deployment_Component demo_verr ''c0'' demo_deployment = Some (Inr (w, k))" by (simp add: Component_validates_once)
  let ?o = "\<lparr>es_Name = [], es_ServiceType = ''ClusterIP'', es_Ports = []\<rparr>"
  have o: "es_ServiceType ?o \<noteq> []" "es_Ports ?o \<noteq> [] \<or> container_ports w \<noteq> []" "None \<notin> set (es_Ports ?o)"
    using d(2) by (simp_all add: demo_container_def)
  from created_is_exposed[OF disjI1[OF c] o, THEN conjunct2] c show ?thesis by blast
qed

end
