(* ===== verification/Validation.thy ===== *)
theory Validation
  imports Images
begin

text \<open>
  The validator of internal/validator.go but for the image rule, which is in \<open>Images\<close>: the rules it registers and the
  defaults it sets.  The libraries are parameters: \<open>defaults\<close> and the struct validation, \<open>semver.IsValid\<close>, the compiler of
  expressions, the YAML codec, and the lookup of a sibling field (\<open>GetStructFieldOKAdvanced2\<close>).
\<close>

section \<open>Values by reflection\<close>

datatype nil_kind = SliceKind | MapKind | PtrKind | InterfaceKind | ChanKind | FuncKind

text \<open>A field: the invalid value, one of a kind that has a nil, or any other, which is zero or not.\<close>

datatype 'a field_value =
    Invalid
  | Nilable nil_kind "'a option"
  | Text string
  | Plain 'a bool

fun IsValid_value :: "'a field_value \<Rightarrow> bool" where
  "IsValid_value Invalid \<longleftrightarrow> False"
| "IsValid_value v \<longleftrightarrow> True"

text \<open>\<open>IsZero\<close> panics on the invalid value; the code asks for \<open>IsValid\<close> first.\<close>

fun IsZero :: "'a field_value \<Rightarrow> bool" where
  "IsZero Invalid \<longleftrightarrow> True"
| "IsZero (Nilable k v) \<longleftrightarrow> v = None"
| "IsZero (Text s) \<longleftrightarrow> s = []"
| "IsZero (Plain a zero) \<longleftrightarrow> zero"

fun hasValue :: "'a field_value \<Rightarrow> bool" where
  "hasValue (Nilable k v) \<longleftrightarrow> v \<noteq> None"
| "hasValue v \<longleftrightarrow> IsValid_value v \<and> \<not> IsZero v"

section \<open>The rules\<close>

definition validateChainSelector :: "'a field_value \<Rightarrow> bool" where
  "validateChainSelector f = True"

definition validateSemver :: "(string \<Rightarrow> bool) \<Rightarrow> string \<Rightarrow> bool" where
  "validateSemver semver val =
     (if val = [] then False
      else semver (if hd val \<noteq> CHR ''v'' then ''v'' @ val else val))"

text \<open>The field must hold a map; the result of a panic of the codec is false.\<close>

definition validateYAML ::
    "('a \<Rightarrow> 'm option) \<Rightarrow> ('m \<Rightarrow> (goerr + string) option) \<Rightarrow> (string \<Rightarrow> goerr option option) \<Rightarrow> 'a \<Rightarrow> bool" where
  "validateYAML as_map encode decode f =
     (case as_map f of
        None \<Rightarrow> False
      | Some val \<Rightarrow>
          (case encode val of
             None \<Rightarrow> False
           | Some (Inl err) \<Rightarrow> False
           | Some (Inr yamlData) \<Rightarrow> (case decode yamlData of None \<Rightarrow> False | Some err \<Rightarrow> err = None)))"

text \<open>The loop over the parameters of \<open>exclusive_of\<close>; \<open>field\<close> looks a sibling up.\<close>

fun exclusive_params :: "(string \<Rightarrow> 'a field_value option) \<Rightarrow> string list \<Rightarrow> bool" where
  "exclusive_params field [] = True"
| "exclusive_params field (param # params) =
     (let param = trim_space param in
      if param = [] then exclusive_params field params
      else
        (case field param of
           None \<Rightarrow> exclusive_params field params
         | Some v \<Rightarrow> if IsValid_value v \<and> \<not> IsZero v then False else exclusive_params field params))"

definition exclusiveOf :: "(string \<Rightarrow> 'a field_value option) \<Rightarrow> string \<Rightarrow> 'a field_value \<Rightarrow> bool" where
  "exclusiveOf field param this =
     (let params = split_on CHR '','' param in
      if \<not> hasValue this then True else exclusive_params field params)"

text \<open>The placeholder of the expression is replaced by a word drawn at random.\<close>

definition validateExprLang :: "(string \<Rightarrow> goerr option) \<Rightarrow> string \<Rightarrow> 'a field_value \<Rightarrow> bool" where
  "validateExprLang compile buzzword f =
     (case f of
        Text val \<Rightarrow> compile (if contains val ''%s'' then replace_all ''%s'' buzzword val else val) = None
      | _ \<Rightarrow> False)"

section \<open>Validation of a struct\<close>

text \<open>An argument of type \<open>any\<close>: no value, a nil pointer, a pointer, or a value whose kind has no nil.\<close>

datatype 's struct_arg = NoValue | NilPointer | PointerTo 's | NotNilable 's

text \<open>
  The error, and the struct as it is left behind: \<open>set_defaults\<close> may stop half way, \<open>check\<close> validates.  \<open>IsNil\<close> panics for
  a kind without a nil.
\<close>

definition Validator_Struct ::
    "('s \<Rightarrow> 's \<times> goerr option) \<Rightarrow> ('s struct_arg \<Rightarrow> goerr option) \<Rightarrow> 's struct_arg \<Rightarrow> ('s struct_arg \<times> goerr option) option" where
  "Validator_Struct set_defaults check i =
     (case i of
        NotNilable s \<Rightarrow> None
      | PointerTo s \<Rightarrow>
          (case set_defaults s of
             (s', Some err) \<Rightarrow> Some (PointerTo s', Some (WrapErr ''setting defaults'' err))
           | (s', None) \<Rightarrow> Some (PointerTo s', check (PointerTo s')))
      | i \<Rightarrow> Some (i, check i))"

section \<open>What the rules say\<close>

lemma hasValue_iff: "hasValue v \<longleftrightarrow> IsValid_value v \<and> \<not> IsZero v"
  by (cases v) auto

text \<open>The names a parameter lists, and the siblings among them that are set.\<close>

definition listed :: "string \<Rightarrow> string set" where
  "listed param = {trim_space p | p. p \<in> set (split_on CHR '','' param)} - {[]}"

definition set_fields :: "(string \<Rightarrow> 'a field_value option) \<Rightarrow> string set" where
  "set_fields field = {n. \<exists>v. field n = Some v \<and> hasValue v}"

lemma exclusive_params_iff:
  "exclusive_params field params \<longleftrightarrow> ({trim_space p | p. p \<in> set params} - {[]}) \<inter> set_fields field = {}"
proof (induction params)
  case (Cons p ps)
  have "({trim_space q | q. q \<in> set (p # ps)} - {[]}) \<inter> set_fields field =
      ({trim_space p} - {[]}) \<inter> set_fields field \<union> ({trim_space q | q. q \<in> set ps} - {[]}) \<inter> set_fields field" by auto
  moreover have "({trim_space p} - {[]}) \<inter> set_fields field = {} \<longleftrightarrow>
      trim_space p = [] \<or> (\<forall>v. field (trim_space p) = Some v \<longrightarrow> \<not> hasValue v)"
    by (auto simp: set_fields_def)
  ultimately show ?case using Cons by (auto simp: Let_def hasValue_iff split: option.splits)
qed simp

text \<open>
  C38. The rule \<open>exclusive_of\<close> is exact and symmetric: it refuses a field just when the field and one of those it lists
  are both set; the spaces around a name, empty names and names of no field do not matter, and of two fields that
  name each other both are refused or none.
\<close>
theorem exclusive_of_exact:
  "(exclusiveOf field param this \<longleftrightarrow> (hasValue this \<longrightarrow> listed param \<inter> set_fields field = {})) \<and>
   (field a = Some va \<and> field b = Some vb \<and> listed pa = {b} \<and> listed pb = {a} \<longrightarrow>
      (exclusiveOf field pa va \<longleftrightarrow> exclusiveOf field pb vb) \<and> (exclusiveOf field pa va \<longleftrightarrow> \<not> (hasValue va \<and> hasValue vb)))"
proof -
  have e: "exclusiveOf field p v \<longleftrightarrow> (hasValue v \<longrightarrow> listed p \<inter> set_fields field = {})" for p v
    by (simp add: exclusiveOf_def exclusive_params_iff listed_def Let_def)
  then show ?thesis by (auto simp: set_fields_def)
qed

lemma listed_plain:
  assumes "CHR '','' \<notin> set a" "trim_space a = a" "a \<noteq> []"
  shows "listed a = {a}"
proof -
  have "split_on CHR '','' a = [a]" using assms(1) by (induction a) auto
  with assms show ?thesis by (simp add: listed_def)
qed

theorem exclusive_of_exact_witness:
  "\<not> exclusiveOf (map_of [(''A'', Text ''x''), (''B'', Nilable MapKind (Some ()))]) ''B'' (Text ''x'') \<and>
   \<not> exclusiveOf (map_of [(''A'', Text ''x''), (''B'', Nilable MapKind (Some ()))]) ''A'' (Nilable MapKind (Some ()))"
proof -
  have l: "listed ''B'' = {''B''}" "listed ''A'' = {''A''}"
    by (rule listed_plain; simp add: trim_space_ascii ascii_def is_space_rune_def)+
  show ?thesis
    using conjunct2[OF exclusive_of_exact, of "map_of [(''A'', Text ''x''), (''B'', Nilable MapKind (Some ()))]" "''A''" "Text ''x''"
        "''B''" "Nilable MapKind (Some ())" "''B''" "''A''"] l
    by simp blast
qed

text \<open>
  Versions are accepted with and without the prefix: the rule \<open>version\<close> does not depend on a leading \<open>v\<close>, and refuses the
  empty version.
\<close>
theorem version_prefix:
  "\<not> validateSemver semver [] \<and> (v \<noteq> [] \<and> hd v \<noteq> CHR ''v'' \<longrightarrow> validateSemver semver (CHR ''v'' # v) = validateSemver semver v)"
  by (simp add: validateSemver_def)

theorem version_prefix_witness:
  "validateSemver (\<lambda>s. s = ''v1.2.3'') ''1.2.3'' \<and> validateSemver (\<lambda>s. s = ''v1.2.3'') ''v1.2.3''"
  using version_prefix[of "\<lambda>s. s = ''v1.2.3''" "''1.2.3''"] by (simp add: validateSemver_def)

text \<open>
  Validation leaves the defaults behind, also when it fails: a second validation of a struct finds the same as the
  first when setting the defaults is idempotent, which is what lets the components validate more than once.
\<close>
theorem Struct_again:
  assumes "\<And>s. snd (set_defaults s) = None \<Longrightarrow> set_defaults (fst (set_defaults s)) = set_defaults s"
    and "Validator_Struct set_defaults check (PointerTo s) = Some (i, e)" "snd (set_defaults s) = None"
  shows "Validator_Struct set_defaults check i = Some (i, e)"
proof -
  obtain s' where s': "set_defaults s = (s', None)" using assms(3) by (cases "set_defaults s") simp
  with assms(1)[of s] have "set_defaults s' = (s', None)" by simp
  with s' assms(2) show ?thesis by (auto simp: Validator_Struct_def)
qed

theorem Struct_again_witness:
  "Validator_Struct (\<lambda>s. (if s = [] then ''abort'' else s, None)) (\<lambda>i. None) (PointerTo ''abort'') = Some (PointerTo ''abort'', None)"
  by (rule Struct_again[where s = "[]"]) (auto simp: Validator_Struct_def)

end
