(* ===== verification/Scalars.thy ===== *)
theory Scalars
  imports Literals Validation
begin

text \<open>
  What the scalars share and two of them: the values a context carries (internal/context.go, over the type assertions of
  internal/core/common/dry/as.go), the loading of the defaults of a chart at start-up (internal/chart_loader.go), and the
  scalars loki and job of crib/scalar.
\<close>

section \<open>Contexts\<close>

datatype ctx_key = ConstructKey | ValidatorKey

text \<open>A value of type \<open>any\<close> in a context.\<close>

datatype ('c, 'v) ctx_value = ConstructValue 'c | ValidatorValue 'v

text \<open>The standard library: a context adds a value to another one, a lookup finds the innermost.\<close>

datatype ('c, 'v) ctx = Background | WithValue "('c, 'v) ctx" ctx_key "('c, 'v) ctx_value"

fun ctx_Value :: "('c, 'v) ctx \<Rightarrow> ctx_key \<Rightarrow> ('c, 'v) ctx_value option" where
  "ctx_Value Background key = None"
| "ctx_Value (WithValue ctx k v) key = (if k = key then Some v else ctx_Value ctx key)"

text \<open>Type assertions: \<open>cast\<close> is the assertion with its second result; the zero value or a panic otherwise.\<close>

definition As :: "('a \<Rightarrow> 't option) \<Rightarrow> 't \<Rightarrow> 'a option \<Rightarrow> 't" where
  "As cast zero t = (case Option.bind t cast of Some vv \<Rightarrow> vv | None \<Rightarrow> zero)"

definition MustAs :: "('a \<Rightarrow> 't option) \<Rightarrow> 'a option \<Rightarrow> 't option" where
  "MustAs cast t = (case Option.bind t cast of Some vv \<Rightarrow> Some vv | None \<Rightarrow> None)"

fun as_construct :: "('c, 'v) ctx_value \<Rightarrow> 'c option" where
  "as_construct (ConstructValue c) = Some c"
| "as_construct (ValidatorValue v) = None"

fun as_validator :: "('c, 'v) ctx_value \<Rightarrow> 'v option" where
  "as_validator (ConstructValue c) = None"
| "as_validator (ValidatorValue v) = Some v"

text \<open>A nil context gives nil (the inner \<open>None\<close>); the outer \<open>None\<close> is the panic of the assertion.\<close>

definition ConstructFromContext :: "('c, 'v) ctx option \<Rightarrow> 'c option option" where
  "ConstructFromContext ctx =
     (case ctx of
        None \<Rightarrow> Some None
      | Some c \<Rightarrow> map_option Some (MustAs as_construct (ctx_Value c ConstructKey)))"

definition ContextWithConstruct :: "('c, 'v) ctx option \<Rightarrow> 'c \<Rightarrow> ('c, 'v) ctx option" where
  "ContextWithConstruct ctx c = (case ctx of None \<Rightarrow> None | Some x \<Rightarrow> Some (WithValue x ConstructKey (ConstructValue c)))"

text \<open>Pointers to validators: \<open>None\<close> is nil; \<open>fresh\<close> is what \<open>NewValidator\<close> returns, its error being dropped.\<close>

definition ValidatorFromContext :: "'v option \<Rightarrow> ('c, 'v option) ctx option \<Rightarrow> 'v option" where
  "ValidatorFromContext fresh ctx =
     (case ctx of
        None \<Rightarrow> None
      | Some c \<Rightarrow>
          (let v = As as_validator None (ctx_Value c ValidatorKey) in
           if v = None then fresh else v))"

definition ContextWithValidator :: "('c, 'v) ctx option \<Rightarrow> 'v \<Rightarrow> ('c, 'v) ctx option" where
  "ContextWithValidator ctx v = (case ctx of None \<Rightarrow> None | Some x \<Rightarrow> Some (WithValue x ValidatorKey (ValidatorValue v)))"

text \<open>
  A component finds the construct and the validator that were put in its context last, and neither hides the other; without
  a construct the lookup panics, without a validator a new one is made.
\<close>
theorem context_values:
  "ConstructFromContext (ContextWithConstruct (Some ctx) c) = Some (Some c) \<and>
   ValidatorFromContext fresh (ContextWithValidator (Some ctx) (Some v)) = Some v \<and>
   ConstructFromContext (ContextWithValidator (Some ctx) x) = ConstructFromContext (Some ctx) \<and>
   ValidatorFromContext fresh (ContextWithConstruct (Some ctx) c) = ValidatorFromContext fresh (Some ctx) \<and>
   ConstructFromContext (Some Background) = None \<and> ValidatorFromContext fresh (Some Background) = fresh \<and>
   ConstructFromContext None = Some None \<and> ValidatorFromContext fresh None = None"
  by (simp add: ConstructFromContext_def ContextWithConstruct_def ValidatorFromContext_def ContextWithValidator_def MustAs_def
      As_def Let_def)

section \<open>The defaults of a chart\<close>

text \<open>The rules of a reference: \<open>label\<close> and \<open>semver\<close> are rules of the validator library.\<close>

definition chart_label_broken :: "(string \<Rightarrow> bool) \<Rightarrow> string \<Rightarrow> bool" where
  "chart_label_broken label s \<longleftrightarrow> s = [] \<or> 63 < length (runes s) \<or> \<not> label s"

definition starts_with :: "string \<Rightarrow> string \<Rightarrow> bool" where
  "starts_with s p \<longleftrightarrow> take (length p) s = p"

definition chart_ref_broken :: "(string \<Rightarrow> bool) \<Rightarrow> (string \<Rightarrow> bool) \<Rightarrow> chart_ref \<Rightarrow> string list" where
  "chart_ref_broken label semver r =
     (if cr_Values r = None then [''Values''] else [])
     @ (if chart_label_broken label (cr_Name r) then [''Name''] else [])
     @ (if chart_label_broken label (cr_ReleaseName r) then [''ReleaseName''] else [])
     @ (if cr_Repository r \<noteq> [] \<and> (starts_with (cr_Repository r) ''http'' \<or> starts_with (cr_Repository r) ''oci'') then []
        else [''Repository''])
     @ (if cr_Version r \<noteq> [] \<and> length (runes (cr_Version r)) \<le> 63 \<and> (semver (cr_Version r) \<or> cr_Version r = ''main'') then []
        else [''Version''])"

definition chart_ref_Validate :: "validator_error \<Rightarrow> (string \<Rightarrow> bool) \<Rightarrow> (string \<Rightarrow> bool) \<Rightarrow> goerr option \<Rightarrow> chart_ref \<Rightarrow> goerr option" where
  "chart_ref_Validate verr label semver init_err r =
     (case init_err of
        Some err \<Rightarrow> Some err
      | None \<Rightarrow> (case chart_ref_broken label semver r of [] \<Rightarrow> None | fs \<Rightarrow> Some (verr fs)))"

text \<open>The files of a file system: opening, decoding, and the error of closing, which is joined to that of the function.\<close>

definition NewChartRef ::
    "(string \<Rightarrow> goerr + 'f) \<Rightarrow> ('f \<Rightarrow> goerr option) \<Rightarrow> ('f \<Rightarrow> goerr + chart_ref) \<Rightarrow> (chart_ref \<Rightarrow> goerr option) \<Rightarrow> string
      \<Rightarrow> chart_ref option \<times> goerr option" where
  "NewChartRef open_file close_file decode validate path =
     (case open_file path of
        Inl err \<Rightarrow> (None, Some (WrapErr (''failed to open file '' @ path) err))
      | Inr f \<Rightarrow>
          (case decode f of
             Inl err \<Rightarrow> (None, join_errors [Some (WrapErr ''failed to decode chart reference'' err), close_file f])
           | Inr ref \<Rightarrow>
               (case validate ref of
                  Some err \<Rightarrow> (None, join_errors [Some (WrapErr ''failed to validate chart reference'' err), close_file f])
                | None \<Rightarrow> (Some ref, join_errors [None, close_file f]))))"

text \<open>The start-up of a chart package: its defaults, or a panic.\<close>

definition chart_init :: "chart_ref option \<times> goerr option \<Rightarrow> chart_ref option" where
  "chart_init res = (case res of (ref, None) \<Rightarrow> ref | (_, Some err) \<Rightarrow> None)"

lemma NewChartRef_ok:
  assumes "chart_init (NewChartRef opn cls dec (chart_ref_Validate verr label semver init_err) path) = Some d"
  shows "chart_ref_broken label semver d = []" "\<exists>f. opn path = Inr f \<and> dec f = Inr d \<and> cls f = None"
  using assms
  by (auto simp: chart_init_def NewChartRef_def chart_ref_Validate_def join_errors_def Let_def
      split: prod.splits sum.splits option.splits list.splits if_splits)

section \<open>Loki\<close>

definition loki_chartName :: string where "loki_chartName = ''helm-loki''"

text \<open>\<open>None\<close> is a panic: of the assertion, or of the nil pointer.\<close>

definition loki_New :: "chart_env \<Rightarrow> chart_ref \<Rightarrow> props_arg \<Rightarrow> heap \<Rightarrow> (heap \<times> (goerr + helm_chart)) option" where
  "loki_New env d props h =
     (case props of
        ChartPropsOf p \<Rightarrow>
          (case alloc h Map.empty of (h1, values) \<Rightarrow>
            (let h2 = maps_Copy h1 values (cr_Values d); h3 = maps_Copy h2 values (cp_Values p) in
             Some (h3, helmchart_New env (ChartPropsOf
               \<lparr>cp_Name = or_default (cp_Name p) loki_chartName, cp_Chart = or_default (cp_Chart p) (cr_Name d),
                 cp_Namespace = cp_Namespace p, cp_ReleaseName = or_default (cp_ReleaseName p) (cr_ReleaseName d),
                 cp_Repo = or_default (cp_Repo p) (cr_Repository d), cp_ValuesLoader = None, cp_Values = Some values,
                 cp_Version = or_default (cp_Version p) (cr_Version d), cp_ValuesPatches = [], cp_Flags = None,
                 cp_WaitForReady = False\<rparr>))))
      | _ \<Rightarrow> None)"

text \<open>
  C39. A chart package that starts deploys something: when the defaults of loki load at start-up, \<open>New\<close> deploys the entries
  of the caller over those of the defaults, and what the caller leaves out (chart, release, repository, version) is
  taken from defaults that passed their rules, so that none of them is empty.
\<close>
theorem loki_deploys:
  assumes "chart_init (NewChartRef opn cls dec (chart_ref_Validate verr label semver init_err) path) = Some d"
    and "entries h (cr_Values d) dc FD" "entries h (cp_Values p) uc FU" "\<And>s t. FD s \<inter> FU t = {}"
  shows "\<exists>h' res. loki_New env d (ChartPropsOf p) h = Some (h', res) \<and> deploys h' (JObj MapK (dc ++ uc)) res \<and>
    (\<forall>c. res = Inr c \<longrightarrow> hm_ReleaseName (snd (hx_deployment c)) \<noteq> [] \<and>
       (\<not> IsOCI \<lparr>rl_Name = or_default (cp_Name p) loki_chartName, rl_ReleaseName = or_default (cp_ReleaseName p) (cr_ReleaseName d),
            rl_Repository = or_default (cp_Repo p) (cr_Repository d), rl_Version = or_default (cp_Version p) (cr_Version d)\<rparr> \<longrightarrow>
          hm_Chart (snd (hx_deployment c)) \<noteq> [] \<and> hm_Repo (snd (hx_deployment c)) \<noteq> Some [] \<and>
          hm_Version (snd (hx_deployment c)) \<noteq> []))"
proof -
  note ok = NewChartRef_ok(1)[OF assms(1)]
  then have ne: "cr_Name d \<noteq> []" "cr_ReleaseName d \<noteq> []" "cr_Repository d \<noteq> []" "cr_Version d \<noteq> []"
    by (auto simp: chart_ref_broken_def chart_label_broken_def split: if_splits)
  let ?q = "\<lparr>cp_Name = or_default (cp_Name p) loki_chartName, cp_Chart = or_default (cp_Chart p) (cr_Name d),
       cp_Namespace = cp_Namespace p, cp_ReleaseName = or_default (cp_ReleaseName p) (cr_ReleaseName d),
       cp_Repo = or_default (cp_Repo p) (cr_Repository d), cp_ValuesLoader = None, cp_Values = Some (hp_next h),
       cp_Version = or_default (cp_Version p) (cr_Version d), cp_ValuesPatches = [], cp_Flags = None, cp_WaitForReady = False\<rparr>"
  let ?res = "helmchart_New env (ChartPropsOf ?q)"
  let ?r = "\<lparr>rl_Name = or_default (cp_Name p) loki_chartName, rl_ReleaseName = or_default (cp_ReleaseName p) (cr_ReleaseName d),
            rl_Repository = or_default (cp_Repo p) (cr_Repository d), rl_Version = or_default (cp_Version p) (cr_Version d)\<rparr>"
  from copied_tree[OF assms(2,3,4)] obtain S where
    S: "tree (hp_cells (copied h (cr_Values d) (cp_Values p))) (HRef MapK (hp_next h)) (JObj MapK (dc ++ uc)) S" by blast
  have new: "loki_New env d (ChartPropsOf p) h = Some (copied h (cr_Values d) (cp_Values p), ?res)"
    by (simp add: loki_New_def copied_def alloc_def Let_def)
  have "deploys (copied h (cr_Values d) (cp_Values p)) (JObj MapK (dc ++ uc)) ?res"
    using deploysI[OF S, of env ?q] by (simp add: scalar_props_def)
  moreover have "hm_ReleaseName (snd (hx_deployment c)) \<noteq> [] \<and> (\<not> IsOCI ?r \<longrightarrow> hm_Chart (snd (hx_deployment c)) \<noteq> [] \<and>
      hm_Repo (snd (hx_deployment c)) \<noteq> Some [] \<and> hm_Version (snd (hx_deployment c)) \<noteq> [])" if "?res = Inr c" for c
  proof -
    from that obtain prog where c: "snd (hx_deployment c) = helmProps prog ?q"
      by (auto simp: helmchart_New_def Let_def split: option.splits sum.splits)
    have or: "or_default x y \<noteq> []" if "y \<noteq> []" for x y using that by (simp add: or_default_def)
    show ?thesis unfolding c helmProps_def Let_def using or ne by simp
  qed
  ultimately show ?thesis unfolding new by blast
qed

theorem loki_deploys_witness:
  "\<exists>h' res. loki_New demo_chart_env demo_ref (ChartPropsOf (demo_chart_props [])) demo_chart_heap = Some (h', res) \<and>
     deploys h' (JObj MapK [Field ''image'' \<mapsto> demo_image]) res"
proof -
  let ?all = "\<lambda>_ :: string. True"
  have l: "length (runes (cr_Name demo_ref)) \<le> 63" "length (runes (cr_ReleaseName demo_ref)) \<le> 63"
    "length (runes (cr_Version demo_ref)) \<le> 63"
    by (simp_all add: demo_ref_def runes_ascii ascii_def)
  have n: "cr_Values demo_ref \<noteq> None" "cr_Name demo_ref \<noteq> []" "cr_ReleaseName demo_ref \<noteq> []" "cr_Version demo_ref \<noteq> []"
    "cr_Repository demo_ref \<noteq> []" "starts_with (cr_Repository demo_ref) ''http''"
    by (simp_all add: demo_ref_def starts_with_def)
  from l n have "chart_ref_broken ?all ?all demo_ref = []" by (simp add: chart_ref_broken_def chart_label_broken_def)
  then have i: "chart_init (NewChartRef (\<lambda>p. Inr ()) (\<lambda>f. None) (\<lambda>f. Inr demo_ref)
      (chart_ref_Validate (\<lambda>fs. ErrText ''missing'') ?all ?all None) ''chart.defaults.yaml'') = Some demo_ref"
    by (simp add: chart_init_def NewChartRef_def chart_ref_Validate_def join_errors_def)
  have "entries demo_chart_heap (cr_Values demo_ref) [Field ''image'' \<mapsto> demo_image] demo_sets"
    using demo_defaults by (simp add: demo_ref_def)
  from loki_deploys[OF i this, of "demo_chart_props []" Map.empty "\<lambda>_. {}" demo_chart_env] show ?thesis
    by (auto simp: demo_chart_props_def entries_def)
qed

section \<open>Jobs\<close>

text \<open>The props hold a pointer to those of cdk8s, which the job is created with.\<close>

definition job_New :: "validator_error \<Rightarrow> 'j option \<Rightarrow> goerr + 'j" where
  "job_New verr jobProps = (case jobProps of None \<Rightarrow> Inl (verr [''JobProps'']) | Some j \<Rightarrow> Inr j)"

end
