(* ===== verification/FileRemoval.thy ===== *)
theory FileRemoval
  imports FileHandler
begin

text \<open>
  The operations of internal/adapter/filehandler/filehandler.go that make a single directory, give the file system of
  a handler and remove its whole tree, over the file tree of \<open>FileHandler\<close>.
\<close>

section \<open>The operating system\<close>

text \<open>\<open>mkdir\<close>: the parent must be a directory, and there must be nothing of that name.\<close>

fun mkdir_one :: "string list \<Rightarrow> fnode \<Rightarrow> goerr + fnode" where
  "mkdir_one [] n = Inl (ErrText ''file exists'')"
| "mkdir_one (s # ss) (FileN d) = Inl (ErrText ''not a directory'')"
| "mkdir_one (s # ss) (DirN es) =
     (case map_of es s of
        None \<Rightarrow> if ss = [] then Inr (DirN (AList.update s (DirN []) es)) else Inl (Sentinel ErrNotExist)
      | Some n \<Rightarrow>
          (case mkdir_one ss n of
             Inl e \<Rightarrow> Inl e
           | Inr n' \<Rightarrow> Inr (DirN (AList.update s n' es))))"

text \<open>
  \<open>os.RemoveAll\<close>: what is not there is removed already; a path through a file is an error, and so is removing the root of
  the file system, which is left without entries.
\<close>

fun remove_all :: "string list \<Rightarrow> fnode \<Rightarrow> goerr option \<times> fnode" where
  "remove_all [] n = (Some (ErrText ''device or resource busy''), DirN [])"
| "remove_all (s # ss) (FileN d) = (Some (ErrText ''not a directory''), FileN d)"
| "remove_all (s # ss) (DirN es) =
     (if ss = [] then (None, DirN (AList.delete s es))
      else
        (case map_of es s of
           None \<Rightarrow> (None, DirN es)
         | Some n \<Rightarrow> (case remove_all ss n of (e, n') \<Rightarrow> (e, DirN (AList.update s n' es)))))"

text \<open>A path that ends in a dot is refused, the empty path is nothing to remove.\<close>

definition ends_with_dot :: "string \<Rightarrow> bool" where
  "ends_with_dot path \<longleftrightarrow> path = ''.'' \<or> suffix ''/.'' path"

definition os_RemoveAll :: "os_state \<Rightarrow> string \<Rightarrow> goerr option \<times> os_state" where
  "os_RemoveAll os path =
     (if path = [] then (None, os)
      else if ends_with_dot path then (Some ErrInvalid, os)
      else (case remove_all (abs_segs os path) (os_tree os) of (e, t) \<Rightarrow> (e, os\<lparr>os_tree := t\<rparr>)))"

section \<open>The operations of the handler\<close>

definition Mkdir :: "os_state \<Rightarrow> handler \<Rightarrow> string \<Rightarrow> goerr option \<times> os_state" where
  "Mkdir os h name =
     (case h_root h of
        None \<Rightarrow> (Some (Sentinel ErrReadOnlyFileSystem), os)
      | Some r \<Rightarrow>
          (case root_name name of
             Inl e \<Rightarrow> (Some e, os)
           | Inr ss \<Rightarrow>
               (case mkdir_one (abs_segs os r @ ss) (os_tree os) of
                  Inl e \<Rightarrow> (Some e, os)
                | Inr t \<Rightarrow> (None, os\<lparr>os_tree := t\<rparr>))))"

definition FS :: "os_state \<Rightarrow> handler \<Rightarrow> goerr + fnode" where
  "FS os h = root_tree os h"

definition RemoveAll :: "os_state \<Rightarrow> handler \<Rightarrow> goerr option \<times> os_state" where
  "RemoveAll os h =
     (case h_root h of
        None \<Rightarrow> (Some (Sentinel ErrReadOnlyFileSystem), os)
      | Some r \<Rightarrow> os_RemoveAll os r)"

section \<open>What is removed\<close>

lemma file_at_delete:
  "file_at (DirN (AList.delete s es)) q = (if prefix [s] q then None else file_at (DirN es) q)"
  by (cases q) (auto simp: AList.delete_conv')

lemma dir_at_delete:
  "dir_at (DirN (AList.delete s es)) q \<longleftrightarrow> \<not> prefix [s] q \<and> dir_at (DirN es) q"
  by (cases q) (auto simp: AList.delete_conv')

lemma dir_at_update:
  "dir_at (DirN (AList.update s n es)) q \<longleftrightarrow> (case q of [] \<Rightarrow> True | x # xs \<Rightarrow> if x = s then dir_at n xs else dir_at (DirN es) q)"
  by (cases q) (auto simp: AList.update_conv')

lemma remove_all_ok:
  assumes "remove_all ss t = (None, t')"
  shows "file_at t' q = (if prefix ss q then None else file_at t q)" "dir_at t' q \<longleftrightarrow> \<not> prefix ss q \<and> dir_at t q"
  using assms
proof (induction ss t arbitrary: t' q rule: remove_all.induct)
  case (3 s ss es)
  {
    case 1
    show ?case
    proof (cases "ss = [] \<or> map_of es s = None")
      case True
      with 1 show ?thesis by (cases q) (auto simp: file_at_delete AList.delete_conv' split: if_splits)
    next
      case False
      then obtain n where n: "map_of es s = Some n" by auto
      with False 1 obtain n' where n': "remove_all ss n = (None, n')" "t' = DirN (AList.update s n' es)"
        by (auto split: prod.splits)
      from False "3.IH"(1)[OF _ n n'(1)] show ?thesis by (cases q) (auto simp: n n'(2) file_at_update AList.update_conv')
    qed
  next
    case 2
    show ?case
    proof (cases "ss = [] \<or> map_of es s = None")
      case True
      with 2 show ?thesis by (cases q) (auto simp: dir_at_delete AList.delete_conv' split: if_splits)
    next
      case False
      then obtain n where n: "map_of es s = Some n" by auto
      with False 2 obtain n' where n': "remove_all ss n = (None, n')" "t' = DirN (AList.update s n' es)"
        by (auto split: prod.splits)
      from False "3.IH"(2)[OF _ n n'(1)] show ?thesis by (cases q) (auto simp: n n'(2) dir_at_update AList.update_conv')
    qed
  }
qed simp_all

lemma remove_all_fails_iff:
  "ss \<noteq> [] \<Longrightarrow> fst (remove_all ss t) \<noteq> None \<longleftrightarrow> (\<exists>n < length ss. file_at t (take n ss) \<noteq> None)"
proof (induction ss t rule: remove_all.induct)
  case (2 s ss d)
  show ?case by (auto intro: exI[of _ 0])
next
  case (3 s ss es)
  have shift: "(\<exists>n < length (s # ss). file_at (DirN es) (take n (s # ss)) \<noteq> None) \<longleftrightarrow>
      (\<exists>n < length ss. file_at (DirN es) (s # take n ss) \<noteq> None)"
    by (auto simp: less_Suc_eq_0_disj)
  show ?case
  proof (cases "ss = [] \<or> map_of es s = None")
    case True
    then show ?thesis unfolding shift by auto
  next
    case False
    then obtain n where n: "map_of es s = Some n" by auto
    with False "3.IH"[OF _ n] show ?thesis unfolding shift by (auto split: prod.splits)
  qed
qed simp

lemma remove_all_None_iff:
  assumes "ss \<noteq> []"
  shows "fst (remove_all ss t) = None \<longleftrightarrow> (\<forall>n < length ss. file_at t (take n ss) = None)"
  using arg_cong[OF remove_all_fails_iff[OF assms, of t], of Not]
  by (simp only: not_not not_ex de_Morgan_conj imp_conv_disj)

text \<open>
  C40. Removing the tree of a handler is exact: below its root nothing is left, and every file and directory outside stays
  as it was; it fails, leaving the tree as it is, only where a file is in the way, so that it can be repeated.
\<close>
theorem RemoveAll_exact:
  assumes "h_root h = Some r" "r \<noteq> []" "\<not> ends_with_dot r" "abs_segs os r \<noteq> []"
  shows "(fst (RemoveAll os h) = None \<longleftrightarrow> (\<forall>n < length (abs_segs os r). file_at (os_tree os) (take n (abs_segs os r)) = None)) \<and>
    (fst (RemoveAll os h) = None \<longrightarrow>
      (\<forall>q. file_at (os_tree (snd (RemoveAll os h))) q = (if prefix (abs_segs os r) q then None else file_at (os_tree os) q) \<and>
           dir_at (os_tree (snd (RemoveAll os h))) q = (\<not> prefix (abs_segs os r) q \<and> dir_at (os_tree os) q)) \<and>
      fst (RemoveAll (snd (RemoveAll os h)) h) = None)"
proof -
  let ?ss = "abs_segs os r"
  obtain e t where t: "remove_all ?ss (os_tree os) = (e, t)" by (cases "remove_all ?ss (os_tree os)")
  have rm: "RemoveAll os' h = (case remove_all (abs_segs os' r) (os_tree os') of (e, t) \<Rightarrow> (e, os'\<lparr>os_tree := t\<rparr>))" for os'
    using assms(1-3) by (simp add: RemoveAll_def os_RemoveAll_def)
  have ok: "e = None \<longleftrightarrow> (\<forall>n < length ?ss. file_at (os_tree os) (take n ?ss) = None)"
    using remove_all_None_iff[OF assms(4), of "os_tree os"] unfolding t fst_conv .
  have again: "fst (remove_all ?ss t) = None" if e: "e = None"
    unfolding remove_all_None_iff[OF assms(4)]
  proof (intro allI impI)
    fix n
    assume n: "n < length ?ss"
    with ok e have "file_at (os_tree os) (take n ?ss) = None" by (simp only: simp_thms)
    moreover have "\<not> prefix ?ss (take n ?ss)" using n by (auto dest: prefix_length_le)
    ultimately show "file_at t (take n ?ss) = None" using remove_all_ok(1)[OF t[unfolded e], of "take n ?ss"] by (simp only: if_False)
  qed
  have "abs_segs (os\<lparr>os_tree := t\<rparr>) r = ?ss" by (simp add: abs_segs_def)
  then have "fst (RemoveAll (os\<lparr>os_tree := t\<rparr>) h) = fst (remove_all ?ss t)" by (simp add: rm split: prod.split)
  moreover have "RemoveAll os h = (e, os\<lparr>os_tree := t\<rparr>)" by (simp add: rm t)
  ultimately have res: "fst (RemoveAll os h) = e" "os_tree (snd (RemoveAll os h)) = t"
    "fst (RemoveAll (snd (RemoveAll os h)) h) = fst (remove_all ?ss t)" by simp_all
  show ?thesis
    unfolding res
  proof (intro conjI impI allI)
    show "e = None \<longleftrightarrow> (\<forall>n < length ?ss. file_at (os_tree os) (take n ?ss) = None)" by (rule ok)
  next
    assume e: "e = None"
    show "file_at t q = (if prefix ?ss q then None else file_at (os_tree os) q)" for q by (rule remove_all_ok(1)[OF t[unfolded e]])
    show "dir_at t q = (\<not> prefix ?ss q \<and> dir_at (os_tree os) q)" for q by (rule remove_all_ok(2)[OF t[unfolded e]])
    show "fst (remove_all ?ss t) = None" using again e by simp
  qed
qed

theorem RemoveAll_exact_witness:
  "\<exists>os'. RemoveAll demo_os demo_handler = (None, os') \<and> \<not> dir_at (os_tree os') [''w'']"
proof -
  have segs: "abs_segs demo_os ''/w'' = [''w'']"
    by (simp add: abs_segs_def path_segs_def path_rooted_def)
  have h: "h_root demo_handler = Some ''/w''" by (simp add: demo_handler_def)
  have d: "\<not> ends_with_dot ''/w''" by (simp add: ends_with_dot_def suffix_def)
  have "file_at (os_tree demo_os) (take n [''w'']) = None" if "n < length [''w'']" for n
    using that by (simp add: demo_os_def)
  then have "fst (RemoveAll demo_os demo_handler) = None \<and> \<not> dir_at (os_tree (snd (RemoveAll demo_os demo_handler))) [''w'']"
    using RemoveAll_exact[OF h _ d, of demo_os] unfolding segs by blast
  then show ?thesis by (metis prod.collapse)
qed

end
