(* ===== verification/NodeRules.thy ===== *)
theory NodeRules
  imports SamplePlans
begin

text \<open>
  The rules for the props of a Chainlink node (crib/composite/chainlink/node/v1/chainlinknode.go), which \<open>NodeSet\<close> takes as a
  parameter: the tags of the struct as they are written, read the way \<open>reflect.StructTag\<close> documents, and interpreted for the
  rules that occur in them; and the defaults, as the library documents them.
\<close>

section \<open>Struct tags\<close>

text \<open>The characters of a key: not a control character, a space, a quote, a colon or DEL.\<close>

definition key_char :: "char \<Rightarrow> bool" where
  "key_char c \<longleftrightarrow> 32 < byte c \<and> c \<noteq> CHR '':'' \<and> c \<noteq> CHR 0x22 \<and> byte c \<noteq> 127"

text \<open>The quoted string after its opening quote: its value and the rest, or nothing if it is not closed.\<close>

fun quoted :: "string \<Rightarrow> (string \<times> string) option" where
  "quoted [] = None"
| "quoted (c # cs) =
     (if c = CHR 0x22 then Some ([], cs)
      else if c = CHR 0x5C then (case cs of [] \<Rightarrow> None | d # ds \<Rightarrow> map_option (\<lambda>(v, r). (d # v, r)) (quoted ds))
      else map_option (\<lambda>(v, r). (c # v, r)) (quoted cs))"

lemma quoted_shorter: "quoted s = Some (v, r) \<Longrightarrow> length r < length s"
  by (induction s arbitrary: v r rule: quoted.induct) (force split: if_splits list.splits)+

function tag_lookup :: "string \<Rightarrow> string \<Rightarrow> string option" where
  "tag_lookup key tag =
     (let tag = dropWhile (\<lambda>c. c = CHR '' '') tag; name = takeWhile key_char tag in
      case dropWhile key_char tag of
        c # q # rest \<Rightarrow>
          if name = [] \<or> c \<noteq> CHR '':'' \<or> q \<noteq> CHR 0x22 then None
          else
            (case quoted rest of
               None \<Rightarrow> None
             | Some (v, rest') \<Rightarrow> if name = key then Some v else tag_lookup key rest')
      | _ \<Rightarrow> None)"
  by auto
termination
proof (relation "measure (\<lambda>(key, tag). length tag)", goal_cases)
  case (2 key tag x name c cs q rest a v rest')
  have "length (dropWhile key_char x) \<le> length x" "length x \<le> length tag"
    unfolding 2(1) by (rule length_dropWhile_le)+
  with 2 quoted_shorter[of rest v rest'] show ?case by simp
qed simp

declare tag_lookup.simps [simp del]

section \<open>The props\<close>

text \<open>The tags as they are written, of the fields that have one and are strings.\<close>

definition node_tags :: "(string \<times> string) list" where
  "node_tags =
     [(''Namespace'', ''omitempty,validate:'' @ DQ @ ''required'' @ DQ),
      (''AppInstanceName'', ''validate:'' @ DQ @ ''required'' @ DQ),
      (''Image'', ''validate:'' @ DQ @ ''required'' @ DQ),
      (''ImagePullPolicy'', ''default:'' @ DQ @ ''IfNotPresent'' @ DQ @ ''        validate:'' @ DQ @ ''oneof=Always IfNotPresent Never'' @ DQ),
      (''Config'', ''validate:'' @ DQ @ ''required'' @ DQ)]"

definition node_field :: "node_props \<Rightarrow> string \<Rightarrow> string" where
  "node_field p name =
     (if name = ''Namespace'' then np_Namespace p
      else if name = ''AppInstanceName'' then np_AppInstanceName p
      else if name = ''Image'' then np_Image p
      else if name = ''ImagePullPolicy'' then np_ImagePullPolicy p
      else np_Config p)"

text \<open>The rules that occur.\<close>

definition rule_ok :: "string \<Rightarrow> string \<Rightarrow> bool" where
  "rule_ok rule v =
     (if rule = ''required'' then v \<noteq> []
      else if take 6 rule = ''oneof='' then v \<in> set (split_on CHR '' '' (drop 6 rule))
      else True)"

definition tag_ok :: "string \<Rightarrow> string \<Rightarrow> bool" where
  "tag_ok tag v =
     (case tag_lookup ''validate'' tag of None \<Rightarrow> True | Some rules \<Rightarrow> list_all (\<lambda>rule. rule_ok rule v) (split_on CHR '','' rules))"

definition node_broken :: "node_props \<Rightarrow> string list" where
  "node_broken p = map fst (filter (\<lambda>(name, tag). \<not> tag_ok tag (node_field p name)) node_tags)"

text \<open>The defaults; a map that is nil is the empty list.\<close>

definition port_defaults :: "container_port \<Rightarrow> container_port" where
  "port_defaults p = p\<lparr>cpt_Protocol := or_default (cpt_Protocol p) ''TCP''\<rparr>"

definition node_defaults :: "node_props \<Rightarrow> node_props" where
  "node_defaults p =
     p\<lparr>np_ImagePullPolicy := or_default (np_ImagePullPolicy p) ''IfNotPresent'',
       np_Limits := (if np_Limits p = [] then [(''cpu'', ''1''), (''memory'', ''2048Mi'')] else np_Limits p),
       np_Requests := (if np_Requests p = [] then [(''cpu'', ''0.5''), (''memory'', ''128Mi'')] else np_Requests p),
       np_Ports := map port_defaults (np_Ports p),
       np_Replicas := (if np_Replicas p = 0 then 1 else np_Replicas p)\<rparr>"

definition node_Validate :: "validator_error \<Rightarrow> node_props \<Rightarrow> node_props \<times> goerr option" where
  "node_Validate verr p =
     (let p = node_defaults p in (p, case node_broken p of [] \<Rightarrow> None | fs \<Rightarrow> Some (verr fs)))"

definition real_checks :: "validator_error \<Rightarrow> node_checks" where
  "real_checks verr = \<lparr>nk_fill = node_defaults, nk_Validate = node_Validate verr\<rparr>"

section \<open>What the rules say\<close>

lemma plain_tag: "tag_lookup ''validate'' (''validate:'' @ DQ @ ''required'' @ DQ) = Some ''required''"
  by (simp add: tag_lookup.simps key_char_def DQ_def)

lemma namespace_tag: "tag_lookup ''validate'' (''omitempty,validate:'' @ DQ @ ''required'' @ DQ) = None"
  by (simp add: tag_lookup.simps key_char_def DQ_def)

lemma policy_tag:
  "tag_lookup ''validate'' (''default:'' @ DQ @ ''IfNotPresent'' @ DQ @ ''        validate:'' @ DQ @ ''oneof=Always IfNotPresent Never'' @ DQ)
     = Some ''oneof=Always IfNotPresent Never''"
  by (subst tag_lookup.simps, simp add: key_char_def DQ_def, subst tag_lookup.simps, simp add: key_char_def)

lemma tag_ok_required: "tag_ok (''validate:'' @ DQ @ ''required'' @ DQ) v \<longleftrightarrow> v \<noteq> []"
  unfolding tag_ok_def plain_tag by (simp add: rule_ok_def)

lemma tag_ok_namespace: "tag_ok (''omitempty,validate:'' @ DQ @ ''required'' @ DQ) v"
  unfolding tag_ok_def namespace_tag by simp

lemma tag_ok_policy:
  "tag_ok (''default:'' @ DQ @ ''IfNotPresent'' @ DQ @ ''        validate:'' @ DQ @ ''oneof=Always IfNotPresent Never'' @ DQ) v
     \<longleftrightarrow> v \<in> {''Always'', ''IfNotPresent'', ''Never''}"
  unfolding tag_ok_def policy_tag by (simp add: rule_ok_def)

lemma node_broken_iff:
  "node_broken p = [] \<longleftrightarrow> np_AppInstanceName p \<noteq> [] \<and> np_Image p \<noteq> [] \<and>
     np_ImagePullPolicy p \<in> {''Always'', ''IfNotPresent'', ''Never''} \<and> np_Config p \<noteq> []"
  by (simp add: node_broken_def node_tags_def tag_ok_required tag_ok_namespace tag_ok_policy node_field_def del: append.simps append_Cons)

lemma node_defaults_fields [simp]:
  "np_Namespace (node_defaults p) = np_Namespace p" "np_AppInstanceName (node_defaults p) = np_AppInstanceName p"
  "np_Image (node_defaults p) = np_Image p" "np_Config (node_defaults p) = np_Config p"
  "np_DatabaseURL (node_defaults p) = np_DatabaseURL p" "np_SecretsOverrides (node_defaults p) = np_SecretsOverrides p"
  "np_ImagePullPolicy (node_defaults p) = or_default (np_ImagePullPolicy p) ''IfNotPresent''"
  by (simp_all add: node_defaults_def)

lemma node_defaults_again [simp]:
  "node_defaults (node_defaults p) = node_defaults p"
  "node_defaults ((node_defaults p)\<lparr>np_Namespace := ns\<rparr>) = node_defaults (p\<lparr>np_Namespace := ns\<rparr>)"
  by (simp_all add: node_defaults_def or_default_def port_defaults_def)

definition node_ok :: "node_props \<Rightarrow> bool" where
  "node_ok p \<longleftrightarrow> np_AppInstanceName p \<noteq> [] \<and> np_Image p \<noteq> [] \<and> np_Config p \<noteq> [] \<and>
     np_ImagePullPolicy p \<in> {[], ''Always'', ''IfNotPresent'', ''Never''}"

lemma node_Validate_ok: "node_ok p \<Longrightarrow> node_Validate verr p = (node_defaults p, None)"
  using node_broken_iff[of "node_defaults p"] by (auto simp: node_Validate_def node_ok_def or_default_def)

lemma node_Validate_fails: "\<not> node_ok p \<Longrightarrow> snd (node_Validate verr p) \<noteq> None"
  using node_broken_iff[of "node_defaults p"]
  by (auto simp: node_Validate_def node_ok_def or_default_def Let_def split: list.splits if_splits)

text \<open>
  CX. What the rules for a node amount to: a name, an image, a configuration and a pull policy of Kubernetes.  The tag of
  the namespace is malformed (its key is \<open>omitempty,validate\<close>), so that the rule \<open>required\<close> in it is never read, and the
  rules of the ports are not reached without \<open>dive\<close>: neither the namespace nor the ports decide anything.
\<close>
theorem node_rules_exact:
  "(snd (node_Validate verr p) = None \<longleftrightarrow> node_ok p) \<and>
   (snd (node_Validate verr (p\<lparr>np_Namespace := ns, np_Ports := ports\<rparr>)) = None \<longleftrightarrow> snd (node_Validate verr p) = None) \<and>
   tag_lookup ''validate'' (the (map_of node_tags ''Namespace'')) = None"
proof -
  have v: "snd (node_Validate verr q) = None \<longleftrightarrow> node_ok q" for q
    using node_Validate_ok[of q verr] node_Validate_fails[of q verr] by (cases "node_ok q") simp_all
  have "node_ok (p\<lparr>np_Namespace := ns, np_Ports := ports\<rparr>) \<longleftrightarrow> node_ok p" by (simp add: node_ok_def)
  moreover have "the (map_of node_tags ''Namespace'') = ''omitempty,validate:'' @ DQ @ ''required'' @ DQ"
    by (simp add: node_tags_def)
  ultimately show ?thesis unfolding v using namespace_tag by simp
qed

section \<open>A node set with these rules\<close>

lemma real_keeps_database: "keeps_database (real_checks verr)"
  by (simp add: keeps_database_def real_checks_def node_Validate_def Let_def)

lemma real_fill: "fill_nodes (real_checks verr) ptrs s a = (if Some a \<in> set ptrs then node_defaults (s a) else s a)"
  unfolding fill_nodes_def by (induction ptrs arbitrary: s) (auto simp: real_checks_def split: option.splits)

lemma real_set_nodes:
  assumes "None \<notin> set ptrs" "distinct ptrs" "ns \<noteq> []" "\<And>a. Some a \<in> set ptrs \<Longrightarrow> np_Namespace (s a) = [] \<and> node_ok (s a)"
  shows "\<exists>s'. set_nodes (real_checks verr) ns i ptrs s = Some (s', None) \<and>
    (\<forall>a. s' a = (if Some a \<in> set ptrs then node_defaults ((s a)\<lparr>np_Namespace := ns\<rparr>) else s a))"
  using assms
proof (induction ptrs arbitrary: i s)
  case (Cons x ptrs)
  then obtain a where x: "x = Some a" by (cases x) auto
  let ?q = "node_defaults ((s a)\<lparr>np_Namespace := ns\<rparr>)"
  have a: "np_Namespace (s a) = []" "node_ok ((s a)\<lparr>np_Namespace := ns\<rparr>)" "Some a \<notin> set ptrs"
    using Cons.prems(2) Cons.prems(4)[of a] by (simp_all add: x node_ok_def)
  have *: "np_Namespace ((s(a := ?q)) b) = [] \<and> node_ok ((s(a := ?q)) b)" if "Some b \<in> set ptrs" for b
    using Cons.prems(4)[of b] that a(3) by auto
  have "None \<notin> set ptrs" "distinct ptrs" using Cons.prems(1,2) by simp_all
  from Cons.IH[where s = "s(a := ?q)" and i = "Suc i", OF this Cons.prems(3)] * obtain s' where
    s': "set_nodes (real_checks verr) ns (Suc i) ptrs (s(a := ?q)) = Some (s', None)"
      "\<forall>b. s' b = (if Some b \<in> set ptrs then node_defaults (((s(a := ?q)) b)\<lparr>np_Namespace := ns\<rparr>) else (s(a := ?q)) b)"
    by blast
  have "set_nodes (real_checks verr) ns i (x # ptrs) s = Some (s', None)"
    using s'(1) a(1) node_Validate_ok[OF a(2), of verr] by (simp add: x real_checks_def)
  moreover have "s' b = (if Some b \<in> set (x # ptrs) then node_defaults ((s b)\<lparr>np_Namespace := ns\<rparr>) else s b)" for b
    using s'(2) a(3) by (auto simp: x)
  ultimately show ?case by blast
qed simp

text \<open>
  CX. A node set is accepted when it should be: with a namespace, as many nodes as its size, no struct used twice, and nodes
  that leave the namespace to the set and keep the rules, validation succeeds and leaves every node with the namespace of
  the set and the defaults.
\<close>
theorem nodeset_accepts:
  assumes "st_Namespace p \<noteq> []" "st_NodeProps p = Some ptrs" "int (length ptrs) = st_Size p" "ptrs \<noteq> []"
    and "None \<notin> set ptrs" "distinct ptrs" "\<And>a. Some a \<in> set ptrs \<Longrightarrow> np_Namespace (s a) = [] \<and> node_ok (s a)"
  shows "\<exists>s'. nodeset_Validate verr (real_checks verr) p s = Some ((nodeset_defaults p, s'), None) \<and>
    (\<forall>a. s' a = (if Some a \<in> set ptrs then node_defaults ((s a)\<lparr>np_Namespace := st_Namespace p\<rparr>) else s a))"
proof -
  let ?s = "fill_nodes (real_checks verr) ptrs s"
  have f: "?s a = (if Some a \<in> set ptrs then node_defaults (s a) else s a)" for a by (rule real_fill)
  have "np_Namespace (?s a) = [] \<and> node_ok (?s a)" if "Some a \<in> set ptrs" for a
    using assms(7)[OF that] that by (auto simp: f node_ok_def or_default_def)
  from real_set_nodes[where s = ?s and i = 0 and verr = verr, OF assms(5,6,1) this] obtain s' where
    s': "set_nodes (real_checks verr) (st_Namespace p) 0 ptrs ?s = Some (s', None)"
      "\<forall>a. s' a = (if Some a \<in> set ptrs then node_defaults ((?s a)\<lparr>np_Namespace := st_Namespace p\<rparr>) else ?s a)"
    by blast
  have "1 \<le> int (length ptrs)" using assms(4) by (cases ptrs) simp_all
  then have "nodeset_broken (nodeset_defaults p) = []"
    using assms(1-3) by (simp add: nodeset_broken_def nodeset_defaults_def missing_def)
  moreover have "node_ptrs (nodeset_defaults p) = ptrs" "st_Size (nodeset_defaults p) = st_Size p"
    "st_Namespace (nodeset_defaults p) = st_Namespace p"
    using assms(2) by (simp_all add: node_ptrs_def nodeset_defaults_def)
  ultimately have "nodeset_Validate verr (real_checks verr) p s = Some ((nodeset_defaults p, s'), None)"
    using s'(1) assms(3) by (simp add: nodeset_Validate_def Let_def)
  with s'(2) show ?thesis by (auto simp: f)
qed

lemma sample_node_ok: "i < 5 \<Longrightarrow> np_Namespace (sample_nodes ! i) = [] \<and> node_ok (sample_nodes ! i)"
proof -
  assume i: "i < 5"
  have "sample_config \<noteq> []" using sample_http_port by auto
  with i show ?thesis by (simp add: sample_nodes_def node_props_of_def node_ok_def)
qed

theorem nodeset_accepts_witness:
  "\<exists>p s'. nodeset_Validate demo_verr (real_checks demo_verr) (nodeset_over cribNamespace sample_nodes) (\<lambda>a. sample_nodes ! a)
     = Some ((p, s'), None) \<and> np_Namespace (s' 4) = ''crib-local''"
proof -
  have l: "length sample_nodes = 5" by (simp add: sample_nodes_def)
  have "np_Namespace (sample_nodes ! a) = [] \<and> node_ok (sample_nodes ! a)" if "Some a \<in> set (map Some [0..<5 :: nat])" for a
    using that by (intro sample_node_ok) auto
  from nodeset_accepts[of "nodeset_over cribNamespace sample_nodes" "map Some [0..<5]" "\<lambda>a. sample_nodes ! a" demo_verr, OF _ _ _ _ _ _ this]
  obtain s' where "nodeset_Validate demo_verr (real_checks demo_verr) (nodeset_over cribNamespace sample_nodes) (\<lambda>a. sample_nodes ! a)
      = Some ((nodeset_defaults (nodeset_over cribNamespace sample_nodes), s'), None)" "np_Namespace (s' 4) = ''crib-local''"
    by (auto simp: nodeset_over_def l cribNamespace_def distinct_map)
  then show ?thesis by blast
qed

section \<open>A node without a namespace\<close>

text \<open>The validation as the component uses it: an error, or the props with their defaults.\<close>

definition node_valid :: "validator_error \<Rightarrow> node_props \<Rightarrow> goerr + node_props" where
  "node_valid verr p = (case node_Validate verr p of (p', None) \<Rightarrow> Inr p' | (_, Some e) \<Rightarrow> Inl e)"

lemma assign_all_Some:
  "None \<notin> snd ` set kvs \<Longrightarrow> None \<notin> snd ` set m \<Longrightarrow> None \<notin> snd ` set (assign_all kvs m)"
proof (induction kvs arbitrary: m)
  case (Cons kv kvs)
  obtain a b where ab: "kv = (a, b)" by (cases kv)
  with Cons.prems have "None \<notin> snd ` set (AList.update a b m)" using set_update[of a b m] by auto
  with Cons ab show ?case by (simp add: assign_all_def)
qed (simp add: assign_all_def)

lemma secret_data_Some: "None \<notin> snd ` set (secret_data p url)"
  unfolding secret_data_def by (rule assign_all_Some) auto

lemma secret_without_namespace:
  "np_Namespace p = [] \<Longrightarrow> node_secret verr p url = Inl (verr [''Namespace''])"
  using secret_data_Some[of p url]
  by (simp add: node_secret_def secret_New_def secret_defaults_def secret_broken_def missing_def Let_def)

text \<open>
  C36. A node without a namespace passes validation, because the tag of the field has \<open>omitempty,validate\<close> for its key and
  \<open>required\<close> is never found under \<open>validate\<close>.  Its component then deploys the database, or takes the one it was given, and
  fails when it creates the secret, with the error the validator makes of the missing namespace there; the only other
  outcomes are those of the database itself.
\<close>
theorem node_without_namespace_fails:
  assumes "node_ok p" "np_Namespace p = []"
  shows "snd (node_Validate verr p) = None \<and>
    (\<exists>tag. (''Namespace'', tag) \<in> set node_tags \<and> tag_lookup ''validate'' tag = None \<and> tag_lookup ''omitempty,validate'' tag = Some ''required'') \<and>
    (\<forall>url. node_secret verr (with_default_ports (node_defaults p)) url = Inl (verr [''Namespace''])) \<and>
    node_Component (node_valid verr) verr env d p h =
      map_option (\<lambda>(h', db). (h', Inl (case db of Inl e \<Rightarrow> e | Inr _ \<Rightarrow> verr [''Namespace''])))
        (node_database env d (with_default_ports (node_defaults p)) h) \<and>
    (np_DatabaseURL p \<noteq> [] \<longrightarrow> node_Component (node_valid verr) verr env d p h = Some (h, Inl (verr [''Namespace''])))"
proof -
  let ?q = "with_default_ports (node_defaults p)" and ?tag = "''omitempty,validate:'' @ DQ @ ''required'' @ DQ"
  have tag: "(''Namespace'', ?tag) \<in> set node_tags" "tag_lookup ''omitempty,validate'' ?tag = Some ''required''"
    by (simp_all add: node_tags_def tag_lookup.simps key_char_def DQ_def)
  have s: "node_secret verr ?q url = Inl (verr [''Namespace''])" for url
    using assms(2) by (intro secret_without_namespace) (simp add: with_default_ports_def)
  then have o: "node_objects verr ?q db = Inl (verr [''Namespace''])" for db by (simp add: node_objects_def)
  have c: "node_Component (node_valid verr) verr env d p h =
      map_option (\<lambda>(h', db). (h', Inl (case db of Inl e \<Rightarrow> e | Inr _ \<Rightarrow> verr [''Namespace'']))) (node_database env d ?q h)"
    by (auto simp: node_Component_def node_valid_def node_Validate_ok[OF assms(1)] chainlinkNode_def Let_def o fun_eq_iff
        intro!: arg_cong[where f = "\<lambda>f. map_option f _"] split: sum.splits)
  have "np_DatabaseURL p \<noteq> [] \<Longrightarrow> node_database env d ?q h = Some (h, Inr (np_DatabaseURL p, None))"
    by (simp add: node_database_def with_default_ports_def)
  with c have "np_DatabaseURL p \<noteq> [] \<longrightarrow> node_Component (node_valid verr) verr env d p h = Some (h, Inl (verr [''Namespace'']))" by simp
  with assms s c tag namespace_tag show ?thesis by (auto simp: node_Validate_ok)
qed

theorem node_without_namespace_fails_witness:
  "snd (node_Validate demo_verr (demo_node ''postgresql://db''\<lparr>np_Namespace := []\<rparr>)) = None \<and>
   node_Component (node_valid demo_verr) demo_verr demo_chart_env demo_ref (demo_node ''postgresql://db''\<lparr>np_Namespace := []\<rparr>) demo_chart_heap =
     Some (demo_chart_heap, Inl (demo_verr [''Namespace'']))"
proof -
  have p: "node_ok (demo_node ''postgresql://db''\<lparr>np_Namespace := []\<rparr>)" "np_Namespace (demo_node ''postgresql://db''\<lparr>np_Namespace := []\<rparr>) = []"
    "np_DatabaseURL (demo_node ''postgresql://db''\<lparr>np_Namespace := []\<rparr>) \<noteq> []"
    by (simp_all add: node_ok_def demo_node_def)
  from node_without_namespace_fails[OF p(1,2), of demo_verr demo_chart_env demo_ref demo_chart_heap] p(3) show ?thesis by blast
qed

end
