(* ===== verification/HelmCommand.thy ===== *)
theory HelmCommand
  imports HelmRetry HelmComponent
begin

text \<open>
  The command \<open>cribctl helm create-component\<close> as a whole (cmd/cribctl/cmd/helm_create_component.go): the struct it shares between
  its hooks, and the hooks in the order cobra documents, the arguments first, then \<open>PreRunE\<close>, then \<open>RunE\<close>.  What \<open>viper\<close>
  finds for a flag is the parameter \<open>get\<close>; the progress messages of the run are left out.
\<close>

section \<open>The hooks\<close>

definition defaultBasePath :: string where "defaultBasePath = ''crib/scalar/charts''"
definition defaultScalarVersion :: string where "defaultScalarVersion = ''v1''"

text \<open>The fields of the shared struct that the hooks fill in: the client, the output directory and the release.\<close>

record 'k create_struct =
  ch_Client :: "'k world helm_client option"
  ch_Outdir :: string
  ch_Release :: release

text \<open>\<open>init\<close>: an empty release.\<close>

definition create_init :: "'k create_struct" where
  "create_init = \<lparr>ch_Client = None, ch_Outdir = [],
     ch_Release = \<lparr>rl_Name = [], rl_ReleaseName = [], rl_Repository = [], rl_Version = []\<rparr>\<rparr>"

definition create_PreRunE ::
    "(goerr + 'k world helm_client) \<Rightarrow> (string \<Rightarrow> string) \<Rightarrow> 'k create_struct \<Rightarrow> goerr option \<times> 'k create_struct" where
  "create_PreRunE client get c =
     (case client of
        Inl e \<Rightarrow> (Some e, c)
      | Inr hc \<Rightarrow>
          (let base = get ''saveto''; base = (if base = [] then defaultBasePath else base);
               version = get ''scalar-version''; version = (if version = [] then defaultScalarVersion else version) in
           (None, c\<lparr>ch_Client := Some hc,
              ch_Outdir := path_Join [base, rl_ReleaseName (ch_Release c), version] @ ''/''\<rparr>)))"

text \<open>\<open>RunE\<close>; without a client the run panics, which here is the missing result.\<close>

definition create_RunE ::
    "'k create_env \<Rightarrow> (string \<Rightarrow> string) \<Rightarrow> 'k create_struct \<Rightarrow> 'k world \<Rightarrow> (goerr option \<times> 'k create_state) option" where
  "create_RunE env get c w =
     (let r = ch_Release c;
          r = \<lparr>rl_Name = rl_Name r, rl_ReleaseName = rl_ReleaseName r, rl_Repository = rl_Repository r, rl_Version = get ''version''\<rparr> in
      case ch_Client c of
        None \<Rightarrow> None
      | Some hc \<Rightarrow>
          create_Run (env\<lparr>cr_client := hc\<rparr>)
            \<lparr>cs_reader = None, cs_release = r, cs_values = [], cs_outdir = ch_Outdir c, cs_world = w\<rparr>)"

text \<open>
  The command: how it ends.  An error of a hook ends it before the next one.
\<close>

datatype 'k command_end = Refused "goerr" | Ran "(goerr option \<times> 'k create_state) option"

definition helm_create_command ::
    "'k create_env \<Rightarrow> (goerr + 'k world helm_client) \<Rightarrow> (string \<Rightarrow> string) \<Rightarrow> ('k world \<Rightarrow> goerr option \<times> 'k world)
      \<Rightarrow> (string \<Rightarrow> 'k world \<Rightarrow> goerr option \<times> 'k world) \<Rightarrow> (string \<Rightarrow> bool) \<Rightarrow> string list \<Rightarrow> 'k world \<Rightarrow> 'k command_end outcome" where
  "helm_create_command env client get help write bad args w =
     (case create_Args help write bad args w of
        Panic s \<Rightarrow> Panic s
      | OutOfFuel \<Rightarrow> OutOfFuel
      | Ret ((Some e, _), _) \<Rightarrow> Ret (Refused e)
      | Ret ((None, r), w) \<Rightarrow>
          (let c = (case r of None \<Rightarrow> create_init | Some r \<Rightarrow> create_init\<lparr>ch_Release := r\<rparr>) in
           case create_PreRunE client get c of
             (Some e, _) \<Rightarrow> Ret (Refused e)
           | (None, c) \<Rightarrow> Ret (Ran (create_RunE env get c w))))"

section \<open>The command as a whole\<close>

text \<open>Accepted arguments name a release, and nothing was printed.\<close>

lemma create_Args_quiet:
  assumes "create_Args help write bad args w = Ret ((None, r), w')"
  shows "w' = w \<and> r \<noteq> None"
proof -
  have len: "length args = 2"
    using assms by (auto simp: create_Args_def join_errors_None_iff split: prod.splits option.splits if_splits)
  obtain name releaseStr where p: "pick_args args ([], []) = (name, releaseStr)" by fastforce
  obtain release repo where c: "(case str_cut releaseStr (CHR ''@'') of None \<Rightarrow> (releaseStr, []) | Some p \<Rightarrow> p) = (release, repo)" by fastforce
  from assms len p c obtain scheme where s: "url_scheme bad repo = Some scheme"
    by (auto simp: create_Args_def Let_def split: option.splits)
  show ?thesis
  proof (cases "arg_problems name releaseStr repo scheme = []")
    case True
    with assms len p c s show ?thesis by (auto simp: create_Args_def Let_def)
  next
    case False
    with problems_err[OF False, of None] assms len p c s show ?thesis
      by (auto simp: create_Args_def Let_def split: prod.splits option.splits)
  qed
qed

lemma PreRunE_outdir:
  "create_PreRunE (Inr hc) get c = (None, c\<lparr>ch_Client := Some hc,
     ch_Outdir := create_outdir (get ''saveto'') (get ''scalar-version'') (ch_Release c)\<rparr>)"
  by (simp add: create_PreRunE_def create_outdir_def defaultBasePath_def defaultScalarVersion_def)

lemma command_ran:
  assumes "helm_create_command env client get help write bad args w = Ret (Ran (Some (None, s')))"
  obtains hc r where "client = Inr hc" "create_Args help write bad args w = Ret ((None, Some r), w)"
    "create_Run (env\<lparr>cr_client := hc\<rparr>) \<lparr>cs_reader = None, cs_release = r\<lparr>rl_Version := get ''version''\<rparr>, cs_values = [],
       cs_outdir = create_outdir (get ''saveto'') (get ''scalar-version'') r, cs_world = w\<rparr> = Some (None, s')"
proof -
  from assms obtain r w' where a: "create_Args help write bad args w = Ret ((None, r), w')"
    by (auto simp: helm_create_command_def split: outcome.splits prod.splits option.splits)
  from create_Args_quiet[OF this] obtain r' where r: "w' = w" "r = Some r'" by auto
  obtain hc where hc: "client = Inr hc"
    using assms a by (cases client) (auto simp: helm_create_command_def create_PreRunE_def split: option.splits)
  have v: "\<lparr>rl_Name = rl_Name r', rl_ReleaseName = rl_ReleaseName r', rl_Repository = rl_Repository r', rl_Version = v\<rparr> =
      r'\<lparr>rl_Version := v\<rparr>" for v
    by simp
  show thesis
    using assms by (intro that[OF hc, of r']) (simp_all add: a r hc helm_create_command_def PreRunE_outdir create_RunE_def Let_def v)
qed

text \<open>
  C33. A \<open>cribctl helm create-component <name> <release>@<url>\<close> that succeeds was given these two arguments, in either order, with an
  oci or https repository; it vendored that chart with the client of the command, and the defaults below
  \<open><saveto>/<name>/<scalar-version>\<close>, with the defaults the code gives both flags, hold the release and the version the user asked
  for, or the latest one.
\<close>
theorem helm_create_command_generates:
  assumes "helm_create_command env client get help write bad args w = Ret (Ran (Some (None, s')))"
  shows "\<exists>hc name release repo w1 reader v. client = Inr hc \<and> named_release args name release repo \<and> name \<noteq> [] \<and>
    url_scheme bad repo \<in> {Some ''oci'', Some ''https''} \<and>
    (let r = \<lparr>rl_Name = release, rl_ReleaseName = name, rl_Repository = repo, rl_Version = get ''version''\<rparr>;
         d = \<lparr>df_Values = cs_values s', df_Release = r\<lparr>rl_Version := v\<rparr>, df_Version = []\<rparr>;
         dir = path_Join [if get ''saveto'' = [] then ''crib/scalar/charts'' else get ''saveto'', name, if get ''scalar-version'' = [] then ''v1'' else get ''scalar-version''] @ ''/'' in
     hc_VendorRepo hc (cr_ctx env) r w = Some (w1, Inr reader) \<and>
     (if get ''version'' \<in> {[], ''latest''}
      then \<exists>w2 latest. hc_LatestVersion hc (cr_ctx env) r w1 = Some (w2, Inr latest) \<and> v = cv_Version latest
      else v = get ''version'') \<and>
     file_at (os_tree (w_os (cs_world s'))) (abs_segs (w_os (cs_world s')) dir @ [''chart.defaults.yaml'']) =
       Some (fst (gn_encode (cr_gen env) d)))"
proof -
  from command_ran[OF assms] obtain hc r where c: "client = Inr hc" "create_Args help write bad args w = Ret ((None, Some r), w)"
    and run: "create_Run (env\<lparr>cr_client := hc\<rparr>) \<lparr>cs_reader = None, cs_release = r\<lparr>rl_Version := get ''version''\<rparr>, cs_values = [],
       cs_outdir = create_outdir (get ''saveto'') (get ''scalar-version'') r, cs_world = w\<rparr> = Some (None, s')" .
  have "\<exists>w'. create_Args help write bad args w = Ret ((None, Some r), w')" using c(2) by blast
  from iffD1[OF create_Args_accepts this] obtain name release repo where
    n: "named_release args name release repo" "name \<noteq> []" "url_scheme bad repo \<in> {Some ''oci'', Some ''https''}"
      "r = \<lparr>rl_Name = release, rl_ReleaseName = name, rl_Repository = repo, rl_Version = []\<rparr>" by blast
  have dir: "create_outdir (get ''saveto'') (get ''scalar-version'') r =
      path_Join [if get ''saveto'' = [] then ''crib/scalar/charts'' else get ''saveto'', name, if get ''scalar-version'' = [] then ''v1'' else get ''scalar-version''] @ ''/''"
    by (simp add: create_outdir_def n(4))
  let ?r = "\<lparr>rl_Name = release, rl_ReleaseName = name, rl_Repository = repo, rl_Version = get ''version''\<rparr>"
  let ?dir = "create_outdir (get ''saveto'') (get ''scalar-version'') r"
  from create_Run_generates[OF run] obtain w1 reader v where g:
    "hc_VendorRepo hc (cr_ctx env) ?r w = Some (w1, Inr reader)"
    "if get ''version'' \<in> {[], ''latest''}
     then \<exists>w2 latest. hc_LatestVersion hc (cr_ctx env) ?r w1 = Some (w2, Inr latest) \<and> v = cv_Version latest else v = get ''version''"
    "file_at (os_tree (w_os (cs_world s'))) (abs_segs (w_os (cs_world s')) ?dir @ [''chart.defaults.yaml'']) =
       Some (fst (gn_encode (cr_gen env) \<lparr>df_Values = cs_values s', df_Release = ?r\<lparr>rl_Version := v\<rparr>, df_Version = []\<rparr>))"
    unfolding n(4) by (simp add: Let_def cong: if_cong) blast
  show ?thesis
    unfolding Let_def
    by (intro exI[of _ hc] exI[of _ name] exI[of _ release] exI[of _ repo] exI[of _ w1] exI[of _ reader] exI[of _ v])
      (intro conjI c(1) n(1-3) g(1,2) g(3)[unfolded dir])
qed

definition demo_flags :: "string \<Rightarrow> string" where
  "demo_flags flag = (if flag = ''saveto'' then ''/'' else if flag = ''version'' then ''1'' else if flag = ''scalar-version'' then ''.'' else [])"

lemma demo_command_Run:
  "\<exists>s'. create_Run (demo_create\<lparr>cr_client := demo_client\<rparr>)
     \<lparr>cs_reader = None, cs_release = \<lparr>rl_Name = ''chart'', rl_ReleaseName = ''w'', rl_Repository = ''oci://x'', rl_Version = ''1''\<rparr>,
       cs_values = [], cs_outdir = ''/w/'', cs_world = \<lparr>w_os = demo_create_os, w_cdk = 0\<rparr>\<rparr> = Some (None, s')"
proof -
  have h: "NewHandler 2 demo_create_os ''/w/'' = Some (demo_create_os, Inr \<lparr>h_root = Some ''/w/'', h_fixed = DirN []\<rparr>)"
    by (simp add: numeral_2_eq_2 demo_create_os_def abs_segs_def path_segs_def path_rooted_def)
  let ?env = "demo_create\<lparr>cr_client := demo_client\<rparr>"
  let ?r = "\<lparr>rl_Name = ''chart'', rl_ReleaseName = ''w'', rl_Repository = ''oci://x'', rl_Version = ''1''\<rparr>"
  let ?s = "\<lparr>cs_reader = None, cs_release = ?r, cs_values = [], cs_outdir = ''/w/'', cs_world = \<lparr>w_os = demo_create_os, w_cdk = 0 :: nat\<rparr>\<rparr>"
  let ?h = "\<lparr>h_root = Some ''/v'', h_fixed = DirN []\<rparr>"
  let ?g = "\<lparr>ge_fh = \<lparr>h_root = Some ''/w/'', h_fixed = DirN []\<rparr>,
     ge_opts = \<lparr>to_Defaults = \<lparr>df_Values = [(''replicas'', JNil)], df_Release = ?r, df_Version = []\<rparr>,
       to_PackageName = [], to_DefaultsFile = HelmDefaultsFileName\<rparr>\<rparr>"
  obtain os' where g: "Generate demo_gen_env ?g demo_create_os = (None, os')"
    by (auto simp: Generate_def Render_def Save_def CopyValues_def render_def named_package_def has_suffix_def demo_defs Let_def
      MkdirAll_def create_write_def path_Join_def path_Clean_def path_segs_def path_rooted_def abs_segs_def root_name_def
      HelmDefaultsFileName_def HelmValuesFileName_def demo_create_os_def)
  have 1: "vendorChart ?env ?s = Some (None, ?s\<lparr>cs_reader := Some ?h\<rparr>)"
    by (simp add: vendorChart_def demo_client_def)
  have 2: "checkVersion ?env (?s\<lparr>cs_reader := Some ?h\<rparr>) = Some (None, ?s\<lparr>cs_reader := Some ?h\<rparr>)"
    by (simp add: checkVersion_def)
  have 3: "readValues ?env (?s\<lparr>cs_reader := Some ?h\<rparr>) = Some (None, ?s\<lparr>cs_reader := Some ?h, cs_values := [(''replicas'', JNil)]\<rparr>)"
    by (simp add: readValues_def demo_create_def HandlerName_def demo_handlers NewFileLoaderFromFS_def
        FileLoader_Values_def HelmValuesFileName_def path_Base_def path_segs_def Let_def demo_values_open YAML_Parse_def YAML_Values_def NewYAMLLoader_def)
  have 4: "generateComponent ?env (?s\<lparr>cs_reader := Some ?h, cs_values := [(''replicas'', JNil)]\<rparr>) =
      Some (None, ?s\<lparr>cs_reader := Some ?h, cs_values := [(''replicas'', JNil)], cs_world := \<lparr>w_os = os', w_cdk = 0\<rparr>\<rparr>)"
    using g h by (simp add: generateComponent_def NewGenerator_def demo_create_def)
  show ?thesis using 1 2 3 4 by (simp add: create_Run_def create_Validate_def demo_create_def)
qed

theorem helm_create_command_generates_witness:
  "\<exists>s'. helm_create_command demo_create (Inr demo_client) demo_flags (\<lambda>w. (None, w)) (\<lambda>_ w. (None, w)) (\<lambda>_. False)
       [''chart@oci://x'', ''w''] \<lparr>w_os = demo_create_os, w_cdk = 0\<rparr> = Ret (Ran (Some (None, s'))) \<and>
     file_at (os_tree (w_os (cs_world s'))) (abs_segs (w_os (cs_world s')) ''/w/'' @ [''chart.defaults.yaml'']) = Some ''version: 1''"
proof -
  obtain s' where "create_Run (demo_create\<lparr>cr_client := demo_client\<rparr>)
     \<lparr>cs_reader = None, cs_release = \<lparr>rl_Name = ''chart'', rl_ReleaseName = ''w'', rl_Repository = ''oci://x'', rl_Version = ''1''\<rparr>,
       cs_values = [], cs_outdir = ''/w/'', cs_world = \<lparr>w_os = demo_create_os, w_cdk = 0\<rparr>\<rparr> = Some (None, s')"
    using demo_command_Run by blast
  moreover have "url_scheme (\<lambda>_. False) ''oci://x'' = Some ''oci''"
    by (simp add: url_scheme_def str_cut_def scheme_letter_def to_lower_def strings_map_def runes_ascii ascii_def to_lower_rune_def scheme_other_def char_of_eq_iff)
  moreover have pd: "path_Join [''/'', ''w'', ''.''] = ''/w''"
    by (simp add: path_Join_def path_Clean_def path_segs_def path_rooted_def)
  ultimately have r: "helm_create_command demo_create (Inr demo_client) demo_flags (\<lambda>w. (None, w)) (\<lambda>_ w. (None, w)) (\<lambda>_. False)
       [''chart@oci://x'', ''w''] \<lparr>w_os = demo_create_os, w_cdk = 0\<rparr> = Ret (Ran (Some (None, s')))"
    by (simp add: helm_create_command_def create_Args_def arg_problems_def contains_at str_cut_def PreRunE_outdir create_outdir_def demo_flags_def
        create_RunE_def)
  from helm_create_command_generates[OF r] r show ?thesis
    by (auto simp: Let_def named_release_def demo_flags_def demo_create_def demo_gen_env_def pd)
qed

end
