(* ===== verification/PlanAccess.thy ===== *)
theory PlanAccess
  imports PlanDag PlanCache Resolvers Scalars
begin

text \<open>
  What the plan service and the callers see of a plan and of its state: the accessors of crib/plan.go (the interface
  \<open>port.Planner\<close>), the option \<open>ImagePullSecrets\<close> and the typed access to the components of a plan state.
\<close>

section \<open>Accessors\<close>

definition Plan_Plan :: "ptr \<Rightarrow> unit \<Rightarrow> ptr" where "Plan_Plan p = (\<lambda>_. p)"
definition Plan_Name :: "('c, 'r) PlanDag.heap \<Rightarrow> ptr \<Rightarrow> string" where "Plan_Name h p = p_name (h p)"
definition Plan_Namespace :: "('c, 'r) PlanDag.heap \<Rightarrow> ptr \<Rightarrow> string" where "Plan_Namespace h p = p_namespace (h p)"

text \<open>Every component function is wrapped in one that calls it; every child plan becomes a value of the interface.\<close>

definition Plan_Components :: "('ctx \<Rightarrow> 'res, 'r) PlanDag.heap \<Rightarrow> ptr \<Rightarrow> ('ctx \<Rightarrow> 'res) list" where
  "Plan_Components h p = map (\<lambda>c. (\<lambda>ctx. c ctx)) (p_components (h p))"

definition Plan_ChildPlans :: "('c, 'r) PlanDag.heap \<Rightarrow> ptr \<Rightarrow> ptr list" where
  "Plan_ChildPlans h p = map (\<lambda>plan. plan) (p_childPlans (h p))"

definition Plan_Resolvers ::
    "(('f iresolver \<Rightarrow> int) \<Rightarrow> 'f iresolver list \<Rightarrow> 'f iresolver list) \<Rightarrow> ('c, 'f iresolver) PlanDag.heap \<Rightarrow> ptr \<Rightarrow> 'f iresolver list option" where
  "Plan_Resolvers sort_func h p = Resolvers sort_func (p_resolvers (h p))"

text \<open>\<open>pull\<close> makes the closure of \<open>ImagePullSecretResolver\<close>, whose calls \<open>Resolvers\<close> models.\<close>

definition ImagePullSecrets :: "(string list \<Rightarrow> 'f) \<Rightarrow> string list \<Rightarrow> ('c, 'f iresolver) plan_opt" where
  "ImagePullSecrets pull secrets = manifestResolvers [NewResolver (Some (pull secrets)) ResolutionPriorityDefault]"

text \<open>The typed access to a plan state; \<open>cast\<close> is the type assertion, and a failing \<open>ComponentState\<close> panics.\<close>

definition PlanState_Components :: "(construct \<Rightarrow> 'c option) \<Rightarrow> 'c \<Rightarrow> results \<Rightarrow> 'c list" where
  "PlanState_Components cast zero r = map (\<lambda>c. As cast zero (Some c)) (Components r)"

definition ComponentState :: "('c \<Rightarrow> 't option) \<Rightarrow> 'c option \<Rightarrow> 't option" where
  "ComponentState cast c = MustAs cast c"

section \<open>Options accumulate\<close>

fun_cases apply_opts_ConsE: "PlanDag.apply_opts (opt # opts) p = Some p'"

text \<open>No option takes anything away from a plan.\<close>

definition accumulates :: "('c, 'r) plan_opt \<Rightarrow> bool" where
  "accumulates opt \<longleftrightarrow> (\<forall>p p'. opt p = Some p' \<longrightarrow> p_name p' = p_name p \<and>
     (\<exists>rs cs fs. p_resolvers p' = p_resolvers p @ rs \<and> p_components p' = p_components p @ cs \<and> p_childFuncs p' = p_childFuncs p @ fs) \<and>
     p_childPlans p' = p_childPlans p)"

lemma options_accumulate:
  "accumulates (AddPlan c)" "accumulates (Namespace ns)" "accumulates (ComponentSet cs)" "accumulates (manifestResolvers rs)"
  "accumulates (ImagePullSecrets pull secrets)"
  by (auto simp: accumulates_def AddPlan_def Namespace_def ComponentSet_def manifestResolvers_def ImagePullSecrets_def split: if_splits)

lemma apply_opts_accumulates:
  assumes "list_all accumulates opts" "apply_opts opts p = Some p'"
  shows "p_name p' = p_name p \<and>
     (\<exists>rs cs fs. p_resolvers p' = p_resolvers p @ rs \<and> p_components p' = p_components p @ cs \<and> p_childFuncs p' = p_childFuncs p @ fs) \<and>
     p_childPlans p' = p_childPlans p"
  using assms
proof (induction opts arbitrary: p)
  case (Cons opt opts)
  from Cons.prems(2) obtain q where q: "opt p = Some q" "apply_opts opts q = Some p'"
    by (auto elim: apply_opts_ConsE split: option.splits)
  from Cons.IH[OF _ q(2)] Cons.prems(1) obtain rs cs fs where
    "p_resolvers p' = p_resolvers q @ rs" "p_components p' = p_components q @ cs" "p_childFuncs p' = p_childFuncs q @ fs"
    "p_name p' = p_name q" "p_childPlans p' = p_childPlans q" by auto
  moreover have "accumulates opt" using Cons.prems(1) by simp
  from this[unfolded accumulates_def] q(1) obtain rs' cs' fs' where
    "p_resolvers q = p_resolvers p @ rs'" "p_components q = p_components p @ cs'" "p_childFuncs q = p_childFuncs p @ fs'"
    "p_name q = p_name p" "p_childPlans q = p_childPlans p" by metis
  ultimately show ?case by simp
qed simp

text \<open>
  CX. The pull secrets of a plan reach cdk8s: whatever other options stand before and after \<open>ImagePullSecrets\<close>, its resolver is
  among those the app is created with, and in front of the resolver of names.
\<close>
theorem pull_secrets_reach_app:
  assumes "NewPlan name (opts @ ImagePullSecrets pull secrets # opts') = Some plan" "list_all accumulates opts'"
    and "sorts_by sort_func" "NilResolver \<notin> set (p_resolvers plan)"
  shows "\<exists>rs. app_resolvers sort_func nm (p_resolvers plan) = Some (rs @ [Resolver nm ResolutionPriorityLow]) \<and>
    Resolver (pull secrets) ResolutionPriorityDefault \<in> set rs"
proof -
  from assms(1) obtain p1 p2 q where q: "ImagePullSecrets pull secrets p1 = Some q" "PlanDag.apply_opts opts' q = Some p2"
    and 1: "p_resolvers plan = p_resolvers p2"
    unfolding NewPlan_def apply_opts_append apply_opts.simps by (force split: option.splits if_splits)
  have "Resolver (pull secrets) ResolutionPriorityDefault \<in> set (p_resolvers q)"
    using q(1) by (auto simp: ImagePullSecrets_def manifestResolvers_def NewResolver_def)
  with apply_opts_accumulates[OF assms(2) q(2)] 1
  have i: "Resolver (pull secrets) ResolutionPriorityDefault \<in> set (p_resolvers plan)" by auto
  have "set (sort_func (\<lambda>r. - priority_of r) (p_resolvers plan)) = set (p_resolvers plan)"
    using assms(3) by (metis sorts_by_def mset_eq_setD)
  with i assms(4) show ?thesis by (auto simp: app_resolvers_def Resolvers_def NewResolver_def)
qed

theorem pull_secrets_reach_app_witness:
  "\<exists>plan rs. NewPlan ''p'' [Namespace ''ns'', ImagePullSecrets (\<lambda>s. s) [''a'', ''b''], ComponentSet [()]] = Some plan \<and>
     app_resolvers sort_key [] (p_resolvers plan) = Some (rs @ [Resolver [] ResolutionPriorityLow]) \<and>
     Resolver [''a'', ''b''] ResolutionPriorityDefault \<in> set rs"
proof -
  obtain plan where p: "NewPlan ''p'' ([Namespace ''ns''] @ ImagePullSecrets (\<lambda>s. s) [''a'', ''b''] # [ComponentSet [()]]) = Some plan"
    and r: "p_resolvers plan = [Resolver [''a'', ''b''] ResolutionPriorityDefault]"
    by (simp add: NewPlan_def Namespace_def ImagePullSecrets_def ComponentSet_def manifestResolvers_def NewResolver_def)
  from pull_secrets_reach_app[OF p _ sorts_by_sort_key, of "[]"] p r show ?thesis
    by (auto simp: options_accumulate)
qed

end
