(* ===== verification/Spec2Isabelle.thy ===== *)
theory Spec2Isabelle
  imports Errors PlanService Composite Images Workload Values Loaders
    Helm Charts ConfigMaps Indent ChainlinkNode NodeSet HelmRetry Bootstrap Blockchains JD Anvil
    Telepresence Doctor Cribctl Mempools HelmComponent Nginx Fake SamplePlans WorkloadMethods Validation Scalars FileRemoval
    NodeRules HelmCommand PlanAccess
begin

text \<open>
  CRIB SDK is a Go library and a command line tool, cribctl, for declaring Kubernetes deployments: a \<open>Plan\<close> is a named
  set of component functions with child plans and resolvers; the plan service runs the functions, which create
  cdk8s constructs, synthesizes the constructs into YAML files below a directory, and applies the files in order with
  \<open>kubectl\<close> or, for \<open>ClientSideApply\<close> manifests, with a local command.  Composites group components, charts come from
  Helm, workloads are built from typed props.  This development models the program's own logic, bottom up, each
  theory over the ones below it; the sources are named under src/.

  \<^bold>\<open>Data and support.\<close>
  \<^item> \<open>Prelude\<close>: the lemma collections and generic facts; models nothing.
  \<^item> \<open>GoStrings\<close>, \<open>GoPath\<close>: the standard library on strings (bytes with the UTF-8 runes decoded from them, case, trimming,
    search, number formatting) and path/filepath, as far as the sources use them.
  \<^item> \<open>Errors\<close>: error values, \<open>errors.Is\<close>/\<open>Join\<close>, internal/core/common/dry; sentinels and typed errors of
    internal/core/domain.
  \<^item> \<open>Infra\<close>: internal/core/common/infra/resources.go, resource names and their hashes.
  \<^item> \<open>Indent\<close>: dry.RemoveIndentation.  \<open>Mempools\<close>: internal/adapter/mempools with its users, on buffers and arrays with
    addresses, because their results alias pooled memory.
  \<^item> \<open>FileHandler\<close>: internal/adapter/filehandler over a tree of files and directories, \<open>FileRemoval\<close> the removal of one.

  \<^bold>\<open>The engine.\<close>
  \<^item> \<open>PlanDag\<close>: crib/plan.go.  Plans are records in a heap; \<open>Build\<close> resolves child functions depth first with the visited
    and stack sets of the source.  \<open>PlanAccess\<close>: its accessors, and the option for pull secrets.
  \<^item> \<open>PlanCache\<close>: internal/adapter/plancache.  \<open>Resolvers\<close>: internal/core/service/iresolver.
  \<^item> \<open>Runner\<close>: internal/adapter/clientsideapply.  \<open>PlanService\<close>: internal/core/service/plan.go and \<open>Plan.Apply\<close>: creation,
    discovery and bundling of manifests, application with its three ways to fail, preview.
  \<^item> \<open>Composite\<close>: internal/core/service/composite.go and cdk8s_chart.go, the dependency graph computed by reflection.
  \<^item> \<open>Cribctl\<close>: the plan registry and the plan commands.  \<open>Doctor\<close>: the diagnosis of tools.  \<open>HelmComponent\<close>: the
    generator behind \<open>cribctl helm create-component\<close>, \<open>HelmCommand\<close> that command from its arguments on.

  \<^bold>\<open>Kubernetes and Helm.\<close>
  \<^item> \<open>Images\<close>, \<open>K8sDomain\<close>, \<open>Workload\<close>: image references and their validation, the conversions of internal/core/domain,
    deployments and stateful sets with services and ingresses.  \<open>WorkloadMethods\<close>: their structs and the interface
    \<open>WorkloadResource\<close>.  \<open>Validation\<close>: the other rules of internal/validator.go.
  \<^item> \<open>Values\<close> (SetValueAtPath on a store of maps and slices), \<open>Loaders\<close>, \<open>Helm\<close>, \<open>HelmRetry\<close>, \<open>Charts\<close>, \<open>Literals\<close>,
    \<open>ConfigMaps\<close>, \<open>Rbac\<close>, \<open>Scalars\<close>: values and their loaders, the Helm client and its decorators, the chart, config map
    and access control scalars, the defaults of charts, loki, jobs and contexts.

  \<^bold>\<open>Composites of crib/composite.\<close>
  \<^item> \<open>Builds\<close>: what a composite builds, as a list of parts with the dependencies it adds; an order of application is any
    order that respects them.
  \<^item> \<open>ChainlinkNode\<close> with the rules of \<open>NodeRules\<close>, \<open>NodeSet\<close>, \<open>JD\<close>, \<open>Anvil\<close>, \<open>Blockchains\<close>, \<open>Telepresence\<close>, \<open>Bootstrap\<close>,
    \<open>Nginx\<close>, \<open>Fake\<close>.  \<open>SamplePlans\<close>: the plans of contrib and examples, made of them.

  \<^bold>\<open>How the model is written.\<close>  Functions keep the names of the source.  A fallible function returns a sum whose left
  side is the error, a function that may panic an \<open>option\<close> (or \<open>outcome\<close>, which also names the message and running out of
  fuel).  Effects are state passing: the file system \<open>os_state\<close>, the \<open>world\<close> that also holds the state of cdk8s, the
  store of \<open>Values\<close>, the heap of plans.  Go maps are association lists or partial functions, and where the order of a map
  range matters it is a parameter.  The properties are the theorems behind a claim id (C1, C2, ...); the other theorems
  state further facts of a component, the \<open>_witness\<close> theorems apply a property to a concrete input.

  \<^bold>\<open>What the lemmas show.\<close>  The engine: \<open>Build\<close> terminates and resolves every plan unless there is a cycle, which is what makes it
  panic; all components run and their errors are joined; the bundles are the maximal groups of manifests in order;
  a failing bundle stops the plan exactly when its manifest asks for it; composites execute their components
  in a topological order of exactly the edges of the graph.  Data: the image rule accepts a grammar that is stated without
  its helpers, and what it accepts parses, up to the white space the rule ignores and a digest with a scheme separator; values patches refine an update along a path.  Composites: databases and
  files that a node refers to exist, access control is confined, chains are ordered.  Tools: retries are bounded and
  persevere, a plan is applied on demand only.  Several theorems state what the code does where it does not do what it
  means to; the manifest lists them as findings.

  \<^bold>\<open>Bounds and fuel.\<close>  \<open>NewHandler\<close> calls itself again after creating a directory: two calls are enough (\<open>NewHandler_opens\<close>).
  \<open>NewTempHandler\<close> tries the random names it is given.  \<open>Build\<close> runs with fuel, and \<open>Build_terminates\<close> gives an amount that is
  enough whenever the plans are finitely many.  The retry loop of \<open>HelmRetry\<close> makes the attempts of its configuration, by
  recursion on their number.  Everything else is structural or has a measure.  Slice indices are unbounded
  numbers: an index in a path of \<open>SetValueAtPath\<close> is taken to be below the length of a slice that can be allocated.

  \<^bold>\<open>Parameters.\<close>  cdk8s and jsii (a construct is the record handed to it), Cobra, viper and the terminal, the YAML and template
  libraries, go-playground/validator apart from the rules the repository registers and those for nodes, mergo, expr and semver, the
  shell, the clock, random names, and the order in which Go ranges over a map.

  \<^bold>\<open>Not modelled.\<close>  Symbolic links, permissions and device errors of the file system; the locking of the jsii run time and
  goroutines (the code holds a lock around everything that could interleave); the global flags of cribctl and its
  version command, which only call Cobra and viper; test helpers and the kitchen-sink tests; the generated API
  objects under k8s imports.
\<close>

end
